(* ===== verification/Prelude.thy ===== *)
theory Prelude
  imports Main Complex_Main "HOL-Library.Word" "HOL-Library.Multiset" "HOL-Library.Monad_Syntax"
begin

text \<open>
  Shared vocabulary of the development: the machine integer types of the C++ code, the
  \<open>Result<T, std::string>\<close> type of core/Result.h as a sum, the standard-library operations
  the sources use (\<open>std::optional::value_or\<close>, \<open>std::to_string\<close>, \<open>std::clamp\<close>,
  \<open>std::lround\<close>, \<open>duration_cast\<close>), and generic lemmas on lists, folds and words that
  several components use. Theorem collections: \<open>word_conv\<close> for facts that move word
  arithmetic to \<open>nat\<close> or \<open>int\<close>.
\<close>

named_theorems word_conv "facts that move word terms to nat or int"

section \<open>Machine types\<close>

type_synonym u8 = "8 word"
type_synonym u16 = "16 word"
type_synonym u32 = "32 word"
type_synonym u64 = "64 word"

text \<open>Signed fixed-width values are words read with \<open>sint\<close>.\<close>

type_synonym i8 = "8 word"
type_synonym i16 = "16 word"
type_synonym i32 = "32 word"

text \<open>core/Result.h: an error message or a value.\<close>

type_synonym 'a result = "string + 'a"

abbreviation okay :: "'a \<Rightarrow> 'a result" where "okay \<equiv> Inr"
abbreviation error :: "string \<Rightarrow> 'a result" where "error \<equiv> Inl"

abbreviation isError :: "'a result \<Rightarrow> bool" where "isError r \<equiv> isl r"

definition value_or :: "'a option \<Rightarrow> 'a \<Rightarrow> 'a" where
  "value_or x d = (case x of None \<Rightarrow> d | Some v \<Rightarrow> v)"

lemma value_or_simps [simp]: "value_or None d = d" "value_or (Some v) d = v"
  by (simp_all add: value_or_def)

section \<open>Standard-library arithmetic\<close>

text \<open>\<open>std::clamp(v, lo, hi)\<close>; the standard leaves \<open>hi < lo\<close> undefined.\<close>

definition clamp :: "'a::linorder \<Rightarrow> 'a \<Rightarrow> 'a \<Rightarrow> 'a" where
  "clamp v lo hi = (if v < lo then lo else if hi < v then hi else v)"

lemma clamp_bounds: "lo \<le> hi \<Longrightarrow> lo \<le> clamp v lo hi \<and> clamp v lo hi \<le> hi"
  by (auto simp: clamp_def)

lemma clamp_id [simp]: "lo \<le> v \<Longrightarrow> v \<le> hi \<Longrightarrow> clamp v lo hi = v"
  by (auto simp: clamp_def)

text \<open>\<open>std::lround\<close>: nearest integer, halves away from zero.\<close>

definition lround :: "real \<Rightarrow> int" where
  "lround x = (if 0 \<le> x then \<lfloor>x + 1 / 2\<rfloor> else - \<lfloor>1 / 2 - x\<rfloor>)"

lemma lround_of_int [simp]: "lround (of_int n) = n"
proof -
  have "\<lfloor>(of_int n :: real) + 1 / 2\<rfloor> = n" for n :: int
    by (simp add: floor_eq_iff)
  from this [of n] this [of "- n"] show ?thesis
    by (simp add: lround_def add.commute)
qed

section \<open>Decimal and hexadecimal text\<close>

text \<open>\<open>std::to_string(int)\<close>.\<close>

definition digit_char :: "nat \<Rightarrow> char" where
  "digit_char d = ''0123456789abcdef'' ! d"

fun digits_base :: "nat \<Rightarrow> nat \<Rightarrow> string" where
  "digits_base b n =
     (if n < b \<or> b < 2 then [digit_char n] else digits_base b (n div b) @ [digit_char (n mod b)])"

declare digits_base.simps [simp del]

definition to_string :: "int \<Rightarrow> string" where
  "to_string i = (if i < 0 then ''-'' @ digits_base 10 (nat (- i)) else digits_base 10 (nat i))"

text \<open>The conversion \<open>%04x\<close> of \<open>std::snprintf\<close>.\<close>

definition hex4 :: "u32 \<Rightarrow> string" where
  "hex4 w = (let ds = digits_base 16 (unat w) in replicate (4 - length ds) CHR ''0'' @ ds)"

section \<open>Words\<close>

lemma unat_ucast_up [word_conv]:
  assumes "LENGTH('a::len) \<le> LENGTH('b::len)"
  shows "unat (ucast (w :: 'a word) :: 'b word) = unat w"
proof -
  have "unat w < 2 ^ LENGTH('a)" by (rule unsigned_less)
  also have "\<dots> \<le> 2 ^ LENGTH('b)" using assms by (simp add: power_increasing)
  finally show ?thesis by (simp add: unsigned_ucast_eq take_bit_nat_eq_self)
qed

lemma unsigned_real_nonneg [simp]: "0 \<le> (unsigned (w :: 'a::len word) :: real)"
proof -
  have "0 \<le> (of_nat (unat w) :: real)" by (rule of_nat_0_le_iff)
  then show ?thesis by simp
qed

lemma u8_less: "unat (w :: u8) < 256"
  using unsigned_less [of w, where ?'a = nat] by simp

lemma u16_less: "unat (w :: u16) < 65536"
  using unsigned_less [of w, where ?'a = nat] by simp

lemma u32_less: "unat (w :: u32) < 4294967296"
  using unsigned_less [of w, where ?'a = nat] by simp

section \<open>Lists\<close>

lemma nth_list_update_other [simp]: "i \<noteq> j \<Longrightarrow> xs[i := v] ! j = xs ! j"
  by (rule nth_list_update_neq)

text \<open>A fold that only appends keeps what is already there.\<close>

lemma fold_prefix_mono:
  assumes "\<And>x acc. set acc \<subseteq> set (f x acc)"
  shows "set acc \<subseteq> set (fold f xs acc)"
proof (induction xs arbitrary: acc)
  case Nil
  then show ?case by simp
next
  case (Cons x xs)
  have "set acc \<subseteq> set (f x acc)" by (rule assms)
  also have "\<dots> \<subseteq> set (fold f xs (f x acc))" by (rule Cons.IH)
  finally show ?case by simp
qed

lemma fold_invariant_list:
  assumes "P acc" and "\<And>x acc. x \<in> set xs \<Longrightarrow> P acc \<Longrightarrow> P (f x acc)"
  shows "P (fold f xs acc)"
  using assms by (induction xs arbitrary: acc) auto

text \<open>Insertion after equal keys: what one step of a stable insertion from the left does.\<close>

fun insort_after :: "('a \<Rightarrow> 'b::linorder) \<Rightarrow> 'a \<Rightarrow> 'a list \<Rightarrow> 'a list" where
  "insort_after f x [] = [x]"
| "insort_after f x (y # ys) = (if f x < f y then x # y # ys else y # insort_after f x ys)"

lemma mset_insort_after [simp]: "mset (insort_after f x ys) = add_mset x (mset ys)"
  by (induction ys) auto

lemma set_insort_after [simp]: "set (insort_after f x ys) = insert x (set ys)"
  by (induction ys) auto

lemma length_insort_after [simp]: "length (insort_after f x ys) = Suc (length ys)"
  by (induction ys) auto

lemma sorted_insort_after: "sorted (map f ys) \<Longrightarrow> sorted (map f (insort_after f x ys))"
  by (induction ys) auto

lemma filter_insort_after:
  "sorted (map f ys) \<Longrightarrow>
   filter (\<lambda>y. f k = f y) (insort_after f x ys)
   = filter (\<lambda>y. f k = f y) ys @ (if f k = f x then [x] else [])"
proof (induction ys)
  case Nil
  then show ?case by simp
next
  case (Cons y ys)
  have "filter (\<lambda>z. f x = f z) (y # ys) = []" if "f x < f y"
    using Cons.prems that by (fastforce simp: filter_empty_conv)
  with Cons show ?case by auto
qed

lemma filter_key_sort: "filter (\<lambda>y. f k = f y) (sort_key f xs) = filter (\<lambda>y. f k = f y) xs"
  using sort_key_stable [of f "f k" xs] by (simp add: eq_commute [of "f k"])

lemma sort_key_snoc: "sort_key f (xs @ [x]) = insort_after f x (sort_key f xs)"
  by (rule properties_for_sort_key)
    (simp_all add: filter_insort_after filter_key_sort sorted_insort_after)

lemma take_insort_after: "take n (insort_after f x (take n ys)) = take n (insort_after f x ys)"
proof (induction ys arbitrary: n)
  case Nil
  then show ?case by simp
next
  case (Cons y ys)
  then show ?case by (cases n) (auto simp: take_Cons')
qed

end
