(* ===== verification/NesInput.thy ===== *)
theory NesInput
  imports Prelude
begin

text \<open>
  Controller input: the player control frame of core/input/PlayerControlFrame.h, the NES
  button layout of core/organisms/evolution/NesPolicyLayout.h, the eleven legal actions of
  the search (server/search/SmbSearchCore.h) and their translation to control frames and NES
  button masks (SmbSearchCore.cpp). The lemmas show that a mask never presses opposing
  directions, what each axis contributes, and that the eleven actions have eleven masks.
\<close>

unbundle bit_operations_syntax

section \<open>Control frames and buttons\<close>

definition PCB_ButtonA :: u8 where "PCB_ButtonA = 1"
definition PCB_ButtonB :: u8 where "PCB_ButtonB = 2"
definition PCB_ButtonX :: u8 where "PCB_ButtonX = 4"
definition PCB_ButtonY :: u8 where "PCB_ButtonY = 8"
definition PCB_ButtonSelect :: u8 where "PCB_ButtonSelect = 16"
definition PCB_ButtonStart :: u8 where "PCB_ButtonStart = 32"

lemmas pcb_defs = PCB_ButtonA_def PCB_ButtonB_def PCB_ButtonX_def PCB_ButtonY_def
  PCB_ButtonSelect_def PCB_ButtonStart_def

record player_control_frame =
  xAxis :: i8
  yAxis :: i8
  buttons :: u8

definition Nes_ButtonA :: u8 where "Nes_ButtonA = push_bit 0 1"
definition Nes_ButtonB :: u8 where "Nes_ButtonB = push_bit 1 1"
definition Nes_ButtonSelect :: u8 where "Nes_ButtonSelect = push_bit 2 1"
definition Nes_ButtonStart :: u8 where "Nes_ButtonStart = push_bit 3 1"
definition Nes_ButtonUp :: u8 where "Nes_ButtonUp = push_bit 4 1"
definition Nes_ButtonDown :: u8 where "Nes_ButtonDown = push_bit 5 1"
definition Nes_ButtonLeft :: u8 where "Nes_ButtonLeft = push_bit 6 1"
definition Nes_ButtonRight :: u8 where "Nes_ButtonRight = push_bit 7 1"

lemmas nes_button_defs = Nes_ButtonA_def Nes_ButtonB_def Nes_ButtonSelect_def
  Nes_ButtonStart_def Nes_ButtonUp_def Nes_ButtonDown_def Nes_ButtonLeft_def
  Nes_ButtonRight_def

section \<open>Legal actions\<close>

datatype smb_action =
    Act_Neutral | Act_Right | Act_RightRun | Act_RightJump | Act_RightJumpRun
  | Act_LeftRun | Act_LeftJumpRun | Act_Duck | Act_DuckJump
  | Act_DuckRightJumpRun | Act_DuckLeftJumpRun

text \<open>The underlying value of the \<open>enum class\<close>; C++ compares enumerators by it.\<close>

fun action_value :: "smb_action \<Rightarrow> nat" where
  "action_value Act_Neutral = 0"
| "action_value Act_Right = 1"
| "action_value Act_RightRun = 2"
| "action_value Act_RightJump = 3"
| "action_value Act_RightJumpRun = 4"
| "action_value Act_LeftRun = 5"
| "action_value Act_LeftJumpRun = 6"
| "action_value Act_Duck = 7"
| "action_value Act_DuckJump = 8"
| "action_value Act_DuckRightJumpRun = 9"
| "action_value Act_DuckLeftJumpRun = 10"

lemma action_value_inject: "action_value a = action_value b \<Longrightarrow> a = b"
  by (cases a; cases b) simp_all

instantiation smb_action :: linorder
begin

definition less_eq_smb_action :: "smb_action \<Rightarrow> smb_action \<Rightarrow> bool" where
  "less_eq_smb_action a b = (action_value a \<le> action_value b)"

definition less_smb_action :: "smb_action \<Rightarrow> smb_action \<Rightarrow> bool" where
  "less_smb_action a b = (action_value a < action_value b)"

instance
  by standard
    (auto simp: less_eq_smb_action_def less_smb_action_def dest: action_value_inject)

end

instantiation smb_action :: enum
begin

definition enum_smb_action :: "smb_action list" where
  "enum_smb_action = [Act_Neutral, Act_Right, Act_RightRun, Act_RightJump, Act_RightJumpRun,
     Act_LeftRun, Act_LeftJumpRun, Act_Duck, Act_DuckJump, Act_DuckRightJumpRun,
     Act_DuckLeftJumpRun]"

definition enum_all_smb_action :: "(smb_action \<Rightarrow> bool) \<Rightarrow> bool" where
  "enum_all_smb_action P = list_all P Enum.enum"

definition enum_ex_smb_action :: "(smb_action \<Rightarrow> bool) \<Rightarrow> bool" where
  "enum_ex_smb_action P = list_ex P Enum.enum"

lemma UNIV_smb_action: "(UNIV :: smb_action set) = set Enum.enum"
proof -
  have "a \<in> set Enum.enum" for a :: smb_action
    by (cases a) (simp_all add: enum_smb_action_def)
  then show ?thesis by blast
qed

instance
proof
  show "(UNIV :: smb_action set) = set Enum.enum" by (rule UNIV_smb_action)
  show "distinct (Enum.enum :: smb_action list)" by (simp add: enum_smb_action_def)
  show "Enum.enum_all P = Ball UNIV P" for P :: "smb_action \<Rightarrow> bool"
    by (simp add: enum_all_smb_action_def UNIV_smb_action list_all_iff)
  show "Enum.enum_ex P = Bex UNIV P" for P :: "smb_action \<Rightarrow> bool"
    by (simp add: enum_ex_smb_action_def UNIV_smb_action list_ex_iff)
qed

end

fun action_toString :: "smb_action \<Rightarrow> string" where
  "action_toString Act_Neutral = ''Neutral''"
| "action_toString Act_Right = ''Right''"
| "action_toString Act_RightRun = ''RightRun''"
| "action_toString Act_RightJump = ''RightJump''"
| "action_toString Act_RightJumpRun = ''RightJumpRun''"
| "action_toString Act_LeftRun = ''LeftRun''"
| "action_toString Act_LeftJumpRun = ''LeftJumpRun''"
| "action_toString Act_Duck = ''Duck''"
| "action_toString Act_DuckJump = ''DuckJump''"
| "action_toString Act_DuckRightJumpRun = ''DuckRightJumpRun''"
| "action_toString Act_DuckLeftJumpRun = ''DuckLeftJumpRun''"

definition makeFrame :: "int \<Rightarrow> int \<Rightarrow> u8 \<Rightarrow> player_control_frame" where
  "makeFrame x y b = \<lparr>xAxis = word_of_int x, yAxis = word_of_int y, buttons = b\<rparr>"

fun actionToFrame :: "smb_action \<Rightarrow> player_control_frame" where
  "actionToFrame Act_Neutral = makeFrame 0 0 0"
| "actionToFrame Act_Right = makeFrame 127 0 0"
| "actionToFrame Act_RightRun = makeFrame 127 0 PCB_ButtonB"
| "actionToFrame Act_RightJump = makeFrame 127 0 PCB_ButtonA"
| "actionToFrame Act_RightJumpRun = makeFrame 127 0 (PCB_ButtonA OR PCB_ButtonB)"
| "actionToFrame Act_LeftRun = makeFrame (-127) 0 PCB_ButtonB"
| "actionToFrame Act_LeftJumpRun = makeFrame (-127) 0 (PCB_ButtonA OR PCB_ButtonB)"
| "actionToFrame Act_Duck = makeFrame 0 127 0"
| "actionToFrame Act_DuckJump = makeFrame 0 127 PCB_ButtonA"
| "actionToFrame Act_DuckRightJumpRun = makeFrame 127 127 (PCB_ButtonA OR PCB_ButtonB)"
| "actionToFrame Act_DuckLeftJumpRun = makeFrame (-127) 127 (PCB_ButtonA OR PCB_ButtonB)"

section \<open>NES button masks\<close>

text \<open>
  \<open>orIf c b m\<close> is \<open>if (c) mask |= b\<close>. The two copies of this function in the sources,
  SmbSearchCore.cpp and SmbPlanExecution.cpp, are the same text.
\<close>

definition orIf :: "bool \<Rightarrow> u8 \<Rightarrow> u8 \<Rightarrow> u8" where
  "orIf c b m = (if c then m OR b else m)"

definition maskButtons :: "u8 \<Rightarrow> u8 \<Rightarrow> u8" where
  "maskButtons b m =
     orIf (b AND PCB_ButtonStart \<noteq> 0) Nes_ButtonStart
      (orIf (b AND PCB_ButtonSelect \<noteq> 0) Nes_ButtonSelect
        (orIf (b AND PCB_ButtonB \<noteq> 0) Nes_ButtonB
          (orIf (b AND PCB_ButtonA \<noteq> 0) Nes_ButtonA m)))"

definition maskAxis :: "i8 \<Rightarrow> u8 \<Rightarrow> u8 \<Rightarrow> u8 \<Rightarrow> u8" where
  "maskAxis v neg pos m =
     (if sint v \<le> - 64 then m OR neg else if sint v \<ge> 64 then m OR pos else m)"

definition playerControlFrameToNesMask :: "player_control_frame \<Rightarrow> u8" where
  "playerControlFrameToNesMask f =
     maskAxis (yAxis f) Nes_ButtonUp Nes_ButtonDown
       (maskAxis (xAxis f) Nes_ButtonLeft Nes_ButtonRight
         (maskButtons (buttons f) 0))"

lemmas mask_defs = playerControlFrameToNesMask_def maskAxis_def maskButtons_def orIf_def

text \<open>Membership of each button in the mask, read off bit by bit.\<close>

lemma mask_bit_Right:
  "bit (playerControlFrameToNesMask f) 7 \<longleftrightarrow> 64 \<le> sint (xAxis f)"
  by (auto simp: mask_defs nes_button_defs bit_simps)

lemma mask_bit_Left:
  "bit (playerControlFrameToNesMask f) 6 \<longleftrightarrow> sint (xAxis f) \<le> - 64"
  by (auto simp: mask_defs nes_button_defs bit_simps)

lemma mask_bit_Down:
  "bit (playerControlFrameToNesMask f) 5 \<longleftrightarrow> 64 \<le> sint (yAxis f)"
  by (auto simp: mask_defs nes_button_defs bit_simps)

lemma mask_bit_Up:
  "bit (playerControlFrameToNesMask f) 4 \<longleftrightarrow> sint (yAxis f) \<le> - 64"
  by (auto simp: mask_defs nes_button_defs bit_simps)

lemma mask_bit_Start:
  "bit (playerControlFrameToNesMask f) 3 \<longleftrightarrow> buttons f AND PCB_ButtonStart \<noteq> 0"
  by (auto simp: mask_defs nes_button_defs bit_simps)

lemma mask_bit_Select:
  "bit (playerControlFrameToNesMask f) 2 \<longleftrightarrow> buttons f AND PCB_ButtonSelect \<noteq> 0"
  by (auto simp: mask_defs nes_button_defs bit_simps)

lemma mask_bit_B:
  "bit (playerControlFrameToNesMask f) 1 \<longleftrightarrow> buttons f AND PCB_ButtonB \<noteq> 0"
  by (auto simp: mask_defs nes_button_defs bit_simps)

lemma mask_bit_A:
  "bit (playerControlFrameToNesMask f) 0 \<longleftrightarrow> buttons f AND PCB_ButtonA \<noteq> 0"
  by (auto simp: mask_defs nes_button_defs bit_simps)

lemmas mask_bits = mask_bit_A mask_bit_B mask_bit_Select mask_bit_Start
  mask_bit_Up mask_bit_Down mask_bit_Left mask_bit_Right

text \<open>No control frame presses two opposing directions of the controller.\<close>

lemma mask_no_opposing_directions:
  "\<not> (bit (playerControlFrameToNesMask f) 6 \<and> bit (playerControlFrameToNesMask f) 7) \<and>
   \<not> (bit (playerControlFrameToNesMask f) 4 \<and> bit (playerControlFrameToNesMask f) 5)"
  by (auto simp: mask_bits)

text \<open>The mask of each legal action, evaluated.\<close>

lemma action_masks:
  "playerControlFrameToNesMask (actionToFrame Act_Neutral) = 0"
  "playerControlFrameToNesMask (actionToFrame Act_Right) = 128"
  "playerControlFrameToNesMask (actionToFrame Act_RightRun) = 130"
  "playerControlFrameToNesMask (actionToFrame Act_RightJump) = 129"
  "playerControlFrameToNesMask (actionToFrame Act_RightJumpRun) = 131"
  "playerControlFrameToNesMask (actionToFrame Act_LeftRun) = 66"
  "playerControlFrameToNesMask (actionToFrame Act_LeftJumpRun) = 67"
  "playerControlFrameToNesMask (actionToFrame Act_Duck) = 32"
  "playerControlFrameToNesMask (actionToFrame Act_DuckJump) = 33"
  "playerControlFrameToNesMask (actionToFrame Act_DuckRightJumpRun) = 163"
  "playerControlFrameToNesMask (actionToFrame Act_DuckLeftJumpRun) = 99"
  by (simp_all add: mask_defs makeFrame_def pcb_defs nes_button_defs)

text \<open>Two different search actions drive the controller differently.\<close>

lemma action_masks_distinct: "inj (\<lambda>a. playerControlFrameToNesMask (actionToFrame a))"
proof (rule injI)
  fix a b
  assume "playerControlFrameToNesMask (actionToFrame a)
        = playerControlFrameToNesMask (actionToFrame b)"
  then show "a = b"
    by (cases a; cases b; simp only: action_masks; simp)
qed

end
