(* ===== verification/SmbState.thy ===== *)
theory SmbState
  imports NesInput
begin

text \<open>
  The game state the search reads: the enumerations and the record of
  core/scenarios/nes/NesSuperMarioBrosEvaluator.h, the memory snapshot of SmolnesRuntime.h and
  the RAM extractor of NesSuperMarioBrosRamExtractor.cpp. \<open>float\<close> and \<open>double\<close>
  values are \<open>real\<close>: the ones the extractor makes are quotients of a byte, and every use in
  the modelled code compares them or scales them back. The main lemma shows that the two-slot
  insertion loop over the enemies returns the two nearest ones, as a stable sort would.
\<close>

section \<open>Enumerations and records\<close>

datatype smb_phase = Phase_NonGameplay | Phase_Gameplay

datatype smb_game_mode =
  GameMode_StartDemo | GameMode_Normal | GameMode_EndCurrentWorld | GameMode_EndGame
| GameMode_Unknown

datatype smb_life_state = Life_Alive | Life_Dying | Life_Dead

datatype smb_player_state =
  Player_LeftmostOfScreen | Player_ClimbingVine | Player_EnteringReversedLPipe
| Player_GoingDownPipe | Player_Autowalk | Player_AutowalkAlt | Player_PlayerDies
| Player_EnteringArea | Player_Normal | Player_Growing | Player_Shrinking | Player_Dying
| Player_BecomingFire | Player_Unknown

datatype smb_float_state =
  Float_GroundedOrOther | Float_Jumping | Float_WalkedOffLedge | Float_SlidingFlagpole
| Float_Unknown

datatype smb_powerup_state = Powerup_Small | Powerup_Big | Powerup_Fire

text \<open>The underlying \<open>uint8_t\<close> of \<open>SmbPowerupState\<close>, used by the transposition key.\<close>

fun powerup_value :: "smb_powerup_state \<Rightarrow> u8" where
  "powerup_value Powerup_Small = 0"
| "powerup_value Powerup_Big = 1"
| "powerup_value Powerup_Fire = 2"

record smb_state =
  phase :: smb_phase
  gameMode :: smb_game_mode
  lifeState :: smb_life_state
  playerState :: smb_player_state
  floatState :: smb_float_state
  powerupState :: smb_powerup_state
  airborne :: bool
  enemyPresent :: bool
  secondEnemyPresent :: bool
  facingX :: real
  movementX :: real
  horizontalSpeedNormalized :: real
  verticalSpeedNormalized :: real
  nearestEnemyDx :: i16
  nearestEnemyDy :: i16
  secondNearestEnemyDx :: i16
  secondNearestEnemyDy :: i16
  world :: u8
  level :: u8
  absoluteX :: u16
  playerXScreen :: u8
  playerYScreen :: u8
  lives :: u8

text \<open>
  \<open>cpuRam\<close> is a \<open>std::array\<close> of 8192 bytes read with \<open>at\<close>; every address the code
  reads is a constant below that size (\<open>extract_addresses_in_range\<close>), so the model's total
  function returns what \<open>at\<close> returns.
\<close>

record memory_snapshot =
  ms_frameId :: u64
  cpuRam :: "nat \<Rightarrow> u8"
  prgRam :: "nat \<Rightarrow> u8"

definition empty_snapshot :: memory_snapshot where
  "empty_snapshot = \<lparr>ms_frameId = 0, cpuRam = (\<lambda>_. 0), prgRam = (\<lambda>_. 0)\<rparr>"

definition cpuRamBytes :: nat where "cpuRamBytes = 8192"

section \<open>Addresses\<close>

definition kGameEngineSubroutineAddr :: nat where "kGameEngineSubroutineAddr = 0x0770"
definition kHorizontalSpeedAddr :: nat where "kHorizontalSpeedAddr = 0x0057"
definition kLevelAddr :: nat where "kLevelAddr = 0x0760"
definition kLivesAddr :: nat where "kLivesAddr = 0x075A"
definition kFacingDirectionAddr :: nat where "kFacingDirectionAddr = 0x0033"
definition kMovementDirectionAddr :: nat where "kMovementDirectionAddr = 0x0045"
definition kPlayerFloatStateAddr :: nat where "kPlayerFloatStateAddr = 0x001D"
definition kPlayerStateAddr :: nat where "kPlayerStateAddr = 0x000E"
definition kPlayerXPageAddr :: nat where "kPlayerXPageAddr = 0x006D"
definition kPlayerXScreenAddr :: nat where "kPlayerXScreenAddr = 0x0086"
definition kPlayerYScreenAddr :: nat where "kPlayerYScreenAddr = 0x00CE"
definition kPowerupStateAddr :: nat where "kPowerupStateAddr = 0x0756"
definition kVerticalSpeedAddr :: nat where "kVerticalSpeedAddr = 0x009F"
definition kWorldAddr :: nat where "kWorldAddr = 0x075F"

text \<open>The five enemy slots: active flag, type, X page, X on screen, Y on screen.\<close>

definition enemySlots :: "(nat \<times> nat \<times> nat \<times> nat \<times> nat) list" where
  "enemySlots =
     [(0x000F, 0x0016, 0x006E, 0x0087, 0x00CF),
      (0x0010, 0x0017, 0x006F, 0x0088, 0x00D0),
      (0x0011, 0x0018, 0x0070, 0x0089, 0x00D1),
      (0x0012, 0x0019, 0x0071, 0x008A, 0x00D2),
      (0x0013, 0x001A, 0x0072, 0x008B, 0x00D3)]"

lemmas smb_addr_defs = kGameEngineSubroutineAddr_def kHorizontalSpeedAddr_def kLevelAddr_def
  kLivesAddr_def kFacingDirectionAddr_def kMovementDirectionAddr_def kPlayerFloatStateAddr_def
  kPlayerStateAddr_def kPlayerXPageAddr_def kPlayerXScreenAddr_def kPlayerYScreenAddr_def
  kPowerupStateAddr_def kVerticalSpeedAddr_def kWorldAddr_def

lemma extract_addresses_in_range:
  "\<forall>a \<in> {kGameEngineSubroutineAddr, kHorizontalSpeedAddr, kLevelAddr, kLivesAddr,
     kFacingDirectionAddr, kMovementDirectionAddr, kPlayerFloatStateAddr, kPlayerStateAddr,
     kPlayerXPageAddr, kPlayerXScreenAddr, kPlayerYScreenAddr, kPowerupStateAddr,
     kVerticalSpeedAddr, kWorldAddr}. a < cpuRamBytes"
  "\<forall>(a, t, p, x, y) \<in> set enemySlots. a < cpuRamBytes \<and> t < cpuRamBytes \<and> p < cpuRamBytes
     \<and> x < cpuRamBytes \<and> y < cpuRamBytes"
  by (simp_all add: smb_addr_defs cpuRamBytes_def enemySlots_def)

section \<open>Decoders\<close>

definition decodeAbsoluteX :: "u8 \<Rightarrow> u8 \<Rightarrow> u16" where
  "decodeAbsoluteX page screen = push_bit 8 (ucast page) OR ucast screen"

definition decodeHorizontalSpeedNormalized :: "u8 \<Rightarrow> real" where
  "decodeHorizontalSpeedNormalized s = clamp (of_int (sint s) / 40) (- 1) 1"

definition decodeVerticalSpeedNormalized :: "u8 \<Rightarrow> real" where
  "decodeVerticalSpeedNormalized s = clamp (of_int (sint s) / 128) (- 1) 1"

definition decodeFacingX :: "u8 \<Rightarrow> real" where
  "decodeFacingX r = (if r = 1 then 1 else if r = 2 then - 1 else 0)"

definition decodeGameMode :: "u8 \<Rightarrow> smb_game_mode" where
  "decodeGameMode g =
     (if g = 0 then GameMode_StartDemo else if g = 1 then GameMode_Normal
      else if g = 2 then GameMode_EndCurrentWorld else if g = 3 then GameMode_EndGame
      else GameMode_Unknown)"

definition decodeFloatState :: "u8 \<Rightarrow> smb_float_state" where
  "decodeFloatState f =
     (if f = 0 then Float_GroundedOrOther else if f = 1 then Float_Jumping
      else if f = 2 then Float_WalkedOffLedge else if f = 3 then Float_SlidingFlagpole
      else Float_Unknown)"

fun decodeLifeState :: "smb_player_state \<Rightarrow> smb_life_state" where
  "decodeLifeState Player_LeftmostOfScreen = Life_Dead"
| "decodeLifeState Player_PlayerDies = Life_Dying"
| "decodeLifeState Player_Dying = Life_Dying"
| "decodeLifeState _ = Life_Alive"

definition decodePhase :: "smb_game_mode \<Rightarrow> bool \<Rightarrow> smb_phase" where
  "decodePhase m setupComplete =
     (if setupComplete \<and> m = GameMode_Normal then Phase_Gameplay else Phase_NonGameplay)"

definition decodePowerupState :: "u8 \<Rightarrow> smb_powerup_state" where
  "decodePowerupState p =
     (if p \<ge> 2 then Powerup_Fire else if p = 1 then Powerup_Big else Powerup_Small)"

definition decodePlayerState :: "u8 \<Rightarrow> smb_player_state" where
  "decodePlayerState p =
     (if p = 0x00 then Player_LeftmostOfScreen
      else if p = 0x01 then Player_ClimbingVine
      else if p = 0x02 then Player_EnteringReversedLPipe
      else if p = 0x03 then Player_GoingDownPipe
      else if p = 0x04 then Player_Autowalk
      else if p = 0x05 then Player_AutowalkAlt
      else if p = 0x06 then Player_PlayerDies
      else if p = 0x07 then Player_EnteringArea
      else if p = 0x08 then Player_Normal
      else if p = 0x09 then Player_Growing
      else if p = 0x0A then Player_Shrinking
      else if p = 0x0B then Player_Dying
      else if p = 0x0C then Player_BecomingFire
      else Player_Unknown)"

record decoded_enemy =
  de_dx :: i16
  de_dy :: i16
  distanceSquared :: u32

text \<open>
  The subtractions are made in \<open>int\<close> and narrowed to \<open>int16_t\<close>, which is subtraction
  modulo \<open>2^16\<close>; the squares of two 16-bit values, one of them a difference of bytes, fit
  in 32 bits.
\<close>

definition decodeEnemy :: "u8 \<Rightarrow> u8 \<Rightarrow> u8 \<Rightarrow> u16 \<Rightarrow> u8 \<Rightarrow> decoded_enemy" where
  "decodeEnemy xPage xScreen yScreen playerAbsX playerY =
     (let dx = decodeAbsoluteX xPage xScreen - playerAbsX;
          dy = ucast yScreen - ucast playerY
      in \<lparr>de_dx = dx, de_dy = dy,
          distanceSquared = word_of_int (sint dx * sint dx + sint dy * sint dy)\<rparr>)"

definition isAirborne :: "smb_float_state \<Rightarrow> bool" where
  "isAirborne f = (f = Float_Jumping \<or> f = Float_WalkedOffLedge)"

section \<open>The enemy loop\<close>

text \<open>\<open>nearestEnemyCount\<close> and the two entries of \<open>nearestEnemies\<close>.\<close>

type_synonym nearest = "nat \<times> decoded_enemy \<times> decoded_enemy"

definition no_enemy :: decoded_enemy where
  "no_enemy = \<lparr>de_dx = 0, de_dy = 0, distanceSquared = 0\<rparr>"

definition swapIfCloser :: "decoded_enemy \<Rightarrow> decoded_enemy \<Rightarrow> decoded_enemy \<times> decoded_enemy" where
  "swapIfCloser e0 e1 = (if distanceSquared e1 < distanceSquared e0 then (e1, e0) else (e0, e1))"

definition addNearest :: "decoded_enemy \<Rightarrow> nearest \<Rightarrow> nearest" where
  "addNearest d st =
     (case st of (n, e0, e1) \<Rightarrow>
        if n = 0 then (1, d, e1)
        else if n = 1 then (2, swapIfCloser e0 d)
        else if distanceSquared d \<ge> distanceSquared e1 then (n, e0, e1)
        else (n, swapIfCloser e0 d))"

definition enemyOfSlot ::
  "(nat \<Rightarrow> u8) \<Rightarrow> u16 \<Rightarrow> u8 \<Rightarrow> nat \<times> nat \<times> nat \<times> nat \<times> nat \<Rightarrow> decoded_enemy option" where
  "enemyOfSlot ram px py s =
     (case s of (act, typ, page, xs, ys) \<Rightarrow>
        if ram act = 0 then None
        else if ram typ = 0 then None
        else Some (decodeEnemy (ram page) (ram xs) (ram ys) px py))"

definition nearestEnemies :: "(nat \<Rightarrow> u8) \<Rightarrow> u16 \<Rightarrow> u8 \<Rightarrow> nearest" where
  "nearestEnemies ram px py =
     fold (\<lambda>s st. case enemyOfSlot ram px py s of None \<Rightarrow> st | Some d \<Rightarrow> addNearest d st)
       enemySlots (0, no_enemy, no_enemy)"

definition extractState :: "memory_snapshot \<Rightarrow> bool \<Rightarrow> smb_state" where
  "extractState snap setupComplete =
     (let ram = cpuRam snap;
          ps = decodePlayerState (ram kPlayerStateAddr);
          fs = decodeFloatState (ram kPlayerFloatStateAddr);
          gm = decodeGameMode (ram kGameEngineSubroutineAddr);
          px = decodeAbsoluteX (ram kPlayerXPageAddr) (ram kPlayerXScreenAddr);
          py = ram kPlayerYScreenAddr
      in case nearestEnemies ram px py of (n, e0, e1) \<Rightarrow>
        \<lparr>phase = decodePhase gm setupComplete,
         gameMode = gm,
         lifeState = decodeLifeState ps,
         playerState = ps,
         floatState = fs,
         powerupState = decodePowerupState (ram kPowerupStateAddr),
         airborne = isAirborne fs,
         enemyPresent = n > 0,
         secondEnemyPresent = n > 1,
         facingX = decodeFacingX (ram kFacingDirectionAddr),
         movementX = decodeFacingX (ram kMovementDirectionAddr),
         horizontalSpeedNormalized = decodeHorizontalSpeedNormalized (ram kHorizontalSpeedAddr),
         verticalSpeedNormalized = decodeVerticalSpeedNormalized (ram kVerticalSpeedAddr),
         nearestEnemyDx = (if n > 0 then de_dx e0 else 0),
         nearestEnemyDy = (if n > 0 then de_dy e0 else 0),
         secondNearestEnemyDx = (if n > 1 then de_dx e1 else 0),
         secondNearestEnemyDy = (if n > 1 then de_dy e1 else 0),
         world = ram kWorldAddr,
         level = ram kLevelAddr,
         absoluteX = px,
         playerXScreen = ram kPlayerXScreenAddr,
         playerYScreen = py,
         lives = ram kLivesAddr\<rparr>)"

section \<open>Lemmas on the decoders\<close>

lemma abs_clamp_unit: "\<bar>clamp v (- 1) 1\<bar> \<le> (1::real)"
  by (simp add: clamp_def abs_le_iff)

lemma speed_bounds:
  "\<bar>decodeHorizontalSpeedNormalized s\<bar> \<le> 1" "\<bar>decodeVerticalSpeedNormalized s\<bar> \<le> 1"
  by (simp_all only: decodeHorizontalSpeedNormalized_def decodeVerticalSpeedNormalized_def
        abs_clamp_unit)

lemma unat_decodeAbsoluteX: "unat (decodeAbsoluteX p x) = 256 * unat p + unat x"
proof -
  have "push_bit 8 (ucast p :: u16) OR ucast x = push_bit 8 (ucast p) + ucast x"
  proof (rule disjunctive_add [symmetric])
    fix n
    show "\<not> bit (push_bit 8 (ucast p :: u16)) n \<or> \<not> bit (ucast x :: u16) n"
      by (auto simp: bit_simps dest: bit_imp_le_length)
  qed
  moreover have "unat (push_bit 8 (ucast p) :: u16) = 256 * unat p"
  proof -
    have "unat p < 256" by (rule u8_less)
    then show ?thesis
      by (simp add: push_bit_eq_mult unat_word_ariths unat_ucast_up)
  qed
  moreover have "unat (ucast x :: u16) = unat x" by (simp add: unat_ucast_up)
  moreover have "256 * unat p + unat x < 65536"
    using u8_less [of p] u8_less [of x] by simp
  ultimately show ?thesis
    by (simp add: decodeAbsoluteX_def unat_word_ariths)
qed

section \<open>The enemy loop returns the two nearest enemies\<close>

definition nearestList :: "nearest \<Rightarrow> decoded_enemy list" where
  "nearestList st = (case st of (n, e0, e1) \<Rightarrow> take n [e0, e1])"

definition nearest_ok :: "nearest \<Rightarrow> bool" where
  "nearest_ok st = (case st of (n, e0, e1) \<Rightarrow>
     n \<le> 2 \<and> (n = 2 \<longrightarrow> distanceSquared e0 \<le> distanceSquared e1))"

lemma addNearest_step:
  assumes "nearest_ok st"
  shows "nearest_ok (addNearest d st) \<and>
    nearestList (addNearest d st) = take 2 (insort_after distanceSquared d (nearestList st))"
proof -
  obtain n e0 e1 where st: "st = (n, e0, e1)" by (cases st)
  from assms st have "n = 0 \<or> n = 1 \<or> n = 2" by (auto simp: nearest_ok_def)
  then show ?thesis using assms
    by (auto simp: st addNearest_def nearest_ok_def nearestList_def swapIfCloser_def)
qed

text \<open>The enemies the loop considers, in slot order.\<close>

definition activeEnemies :: "(nat \<Rightarrow> u8) \<Rightarrow> u16 \<Rightarrow> u8 \<Rightarrow> decoded_enemy list" where
  "activeEnemies ram px py = List.map_filter (enemyOfSlot ram px py) enemySlots"

lemma nearest_fold:
  assumes "nearest_ok st" and "nearestList st = take 2 (sort_key distanceSquared done)"
  shows "let st' = fold (\<lambda>s st. case g s of None \<Rightarrow> st | Some d \<Rightarrow> addNearest d st) slots st
         in nearest_ok st' \<and>
            nearestList st' = take 2 (sort_key distanceSquared (done @ List.map_filter g slots))"
  using assms
proof (induction slots arbitrary: st "done")
  case Nil
  then show ?case by (simp add: map_filter_simps)
next
  case (Cons s slots)
  show ?case
  proof (cases "g s")
    case None
    with Cons show ?thesis by (simp add: map_filter_simps)
  next
    case (Some d)
    from addNearest_step [OF Cons.prems(1), of d] Cons.prems(2)
    have "nearest_ok (addNearest d st)"
      and "nearestList (addNearest d st) = take 2 (sort_key distanceSquared (done @ [d]))"
      by (simp_all add: sort_key_snoc take_insort_after)
    from Cons.IH [OF this] Some show ?thesis by (simp add: map_filter_simps)
  qed
qed

text \<open>
  The enemy loop of \<open>extractState\<close> reports the two enemies nearest to the player, in order of
  distance and in slot order for equal distances, out of the active slots of the RAM.
\<close>

theorem nearest_enemies_sorted:
  "nearestList (nearestEnemies ram px py) = take 2 (sort_key distanceSquared (activeEnemies ram px py))
   \<and> fst (nearestEnemies ram px py) \<le> 2"
  using nearest_fold [of "(0, no_enemy, no_enemy)" "[]" "enemyOfSlot ram px py" enemySlots]
  by (auto simp: nearest_ok_def nearestList_def nearestEnemies_def activeEnemies_def Let_def
      split: prod.splits)

end
