(* ===== verification/SmbEvaluator.thy ===== *)
theory SmbEvaluator
  imports SmbState
begin

text \<open>
  The fitness evaluator of core/scenarios/nes/NesSuperMarioBrosEvaluator.cpp with the snapshot
  record of NesFitnessDetails.h. The evaluator object is the record \<open>evaluator\<close>;
  \<open>evaluate\<close> returns the updated object and the output. Rewards are \<open>real\<close>: they are
  sums of multiples of 1/2 and of 1000, which a \<open>double\<close> holds exactly below \<open>2^52\<close>.
  The lemmas show that the best frontier never moves back, that the totals account for every
  reward delta, when an episode ends and with which reason, and that an evaluator restored from
  its own progress continues as the original does.
\<close>

section \<open>Data\<close>

datatype end_reason = End_None | End_LifeLost | End_NoProgressTimeout | End_FellBelowScreen

record fitness_snapshot =
  fs_totalReward :: real
  fs_distanceRewardTotal :: real
  fs_levelClearRewardTotal :: real
  fs_gameplayFrames :: u64
  fs_framesSinceProgress :: u64
  fs_noProgressTimeoutFrames :: u64
  fs_bestStageIndex :: u32
  fs_bestWorld :: u8
  fs_bestLevel :: u8
  fs_bestAbsoluteX :: u16
  fs_currentWorld :: u8
  fs_currentLevel :: u8
  fs_currentAbsoluteX :: u16
  fs_currentLives :: u8
  fs_endReason :: end_reason
  fs_done :: bool

record evaluator =
  hasBestProgress :: bool
  hasLastLives :: bool
  gameplayFrameCount :: u64
  lastProgressFrame :: u64
  bestStageIndex :: u32
  bestAbsoluteX :: u16
  lastLives :: u8
  distanceRewardTotal :: real
  levelClearRewardTotal :: real

record evaluator_output =
  eo_done :: bool
  rewardDelta :: real
  distanceRewardDelta :: real
  levelClearRewardDelta :: real
  eo_endReason :: end_reason
  snapshot :: fitness_snapshot

definition kLevelsPerWorld :: u32 where "kLevelsPerWorld = 4"
definition kNoProgressTimeoutFrames :: u64 where "kNoProgressTimeoutFrames = 1800"
definition kBelowScreenThreshold :: u8 where "kBelowScreenThreshold = 224"
definition kDistanceReward :: real where "kDistanceReward = 1 / 2"
definition kLevelClearReward :: real where "kLevelClearReward = 1000"

definition getStageIndex :: "smb_state \<Rightarrow> u32" where
  "getStageIndex s = ucast (world s) * kLevelsPerWorld + ucast (level s)"

definition getStageLevel :: "u32 \<Rightarrow> u8" where
  "getStageLevel i = ucast (i mod kLevelsPerWorld)"

definition getStageWorld :: "u32 \<Rightarrow> u8" where
  "getStageWorld i = ucast (i div kLevelsPerWorld)"

text \<open>\<open>makeSnapshot\<close> takes the evaluator's fields one by one in the source.\<close>

definition makeSnapshot :: "smb_state \<Rightarrow> evaluator \<Rightarrow> end_reason \<Rightarrow> bool \<Rightarrow> fitness_snapshot" where
  "makeSnapshot s ev r d =
     \<lparr>fs_totalReward = distanceRewardTotal ev + levelClearRewardTotal ev,
      fs_distanceRewardTotal = distanceRewardTotal ev,
      fs_levelClearRewardTotal = levelClearRewardTotal ev,
      fs_gameplayFrames = gameplayFrameCount ev,
      fs_framesSinceProgress =
        (if gameplayFrameCount ev \<ge> lastProgressFrame ev
         then gameplayFrameCount ev - lastProgressFrame ev else 0),
      fs_noProgressTimeoutFrames = kNoProgressTimeoutFrames,
      fs_bestStageIndex = bestStageIndex ev,
      fs_bestWorld = getStageWorld (bestStageIndex ev),
      fs_bestLevel = getStageLevel (bestStageIndex ev),
      fs_bestAbsoluteX = bestAbsoluteX ev,
      fs_currentWorld = world s,
      fs_currentLevel = level s,
      fs_currentAbsoluteX = absoluteX s,
      fs_currentLives = lives s,
      fs_endReason = r,
      fs_done = d\<rparr>"

section \<open>Operations\<close>

definition resetEvaluator :: evaluator where
  "resetEvaluator =
     \<lparr>hasBestProgress = False, hasLastLives = False, gameplayFrameCount = 0,
      lastProgressFrame = 0, bestStageIndex = 0, bestAbsoluteX = 0, lastLives = 0,
      distanceRewardTotal = 0, levelClearRewardTotal = 0\<rparr>"

definition restoreProgress :: "u32 \<Rightarrow> u16 \<Rightarrow> real \<Rightarrow> real \<Rightarrow> u64 \<Rightarrow> u64 \<Rightarrow> evaluator" where
  "restoreProgress stage x distTotal clearTotal frames since =
     resetEvaluator
       \<lparr>hasBestProgress := True,
        gameplayFrameCount := frames,
        lastProgressFrame := (if frames \<ge> since then frames - since else 0),
        bestStageIndex := stage,
        bestAbsoluteX := x,
        distanceRewardTotal := distTotal,
        levelClearRewardTotal := clearTotal\<rparr>"

definition isTerminalState :: "smb_state \<Rightarrow> bool" where
  "isTerminalState s = (gameMode s = GameMode_EndGame \<or> lifeState s \<noteq> Life_Alive)"

text \<open>Frame count and, on the first evaluated frame, the starting frontier.\<close>

definition countFrames :: "u64 \<Rightarrow> smb_state \<Rightarrow> evaluator \<Rightarrow> evaluator" where
  "countFrames adv s ev =
     (let ev1 = ev\<lparr>gameplayFrameCount := gameplayFrameCount ev + adv\<rparr>
      in if hasBestProgress ev1 then ev1
         else ev1\<lparr>hasBestProgress := True,
                  bestStageIndex := getStageIndex s,
                  bestAbsoluteX := absoluteX s,
                  lastProgressFrame := gameplayFrameCount ev1\<rparr>)"

definition outputAt :: "smb_state \<Rightarrow> evaluator \<Rightarrow> end_reason \<Rightarrow> bool \<Rightarrow> real \<Rightarrow> real \<Rightarrow> evaluator_output" where
  "outputAt s ev r d distDelta clearDelta =
     \<lparr>eo_done = d, rewardDelta = clearDelta + distDelta, distanceRewardDelta = distDelta,
      levelClearRewardDelta = clearDelta, eo_endReason = r, snapshot = makeSnapshot s ev r d\<rparr>"

text \<open>
  The progress block: a level clear, then distance on the best stage. The result carries the
  two deltas.
\<close>

definition levelClearStep :: "smb_state \<Rightarrow> evaluator \<Rightarrow> evaluator \<times> real" where
  "levelClearStep s ev =
     (let cur = getStageIndex s in
      if cur > bestStageIndex ev then
        let delta = kLevelClearReward * of_nat (unat (cur - bestStageIndex ev))
        in (ev\<lparr>levelClearRewardTotal := levelClearRewardTotal ev + delta,
               bestStageIndex := cur, bestAbsoluteX := 0,
               lastProgressFrame := gameplayFrameCount ev\<rparr>, delta)
      else (ev, 0))"

definition distanceStep :: "smb_state \<Rightarrow> evaluator \<Rightarrow> evaluator \<times> real" where
  "distanceStep s ev =
     (if getStageIndex s = bestStageIndex ev \<and> absoluteX s > bestAbsoluteX ev then
        let delta = kDistanceReward * of_nat (unat (absoluteX s - bestAbsoluteX ev))
        in (ev\<lparr>distanceRewardTotal := distanceRewardTotal ev + delta,
               bestAbsoluteX := absoluteX s,
               lastProgressFrame := gameplayFrameCount ev\<rparr>, delta)
      else (ev, 0))"

definition episodeEnd :: "smb_state \<Rightarrow> evaluator \<Rightarrow> end_reason" where
  "episodeEnd s ev =
     (if playerYScreen s \<ge> kBelowScreenThreshold then End_FellBelowScreen
      else if gameplayFrameCount ev - lastProgressFrame ev \<ge> kNoProgressTimeoutFrames
      then End_NoProgressTimeout
      else End_None)"

definition evaluateAlive :: "smb_state \<Rightarrow> evaluator \<Rightarrow> evaluator \<times> evaluator_output" where
  "evaluateAlive s ev =
     (case levelClearStep s ev of (ev1, clearDelta) \<Rightarrow>
      case distanceStep s ev1 of (ev2, distDelta) \<Rightarrow>
        let r = episodeEnd s ev2
        in (ev2, outputAt s ev2 r (r \<noteq> End_None) distDelta clearDelta))"

definition lifeLost :: "smb_state \<Rightarrow> evaluator \<Rightarrow> evaluator \<times> evaluator_output" where
  "lifeLost s ev = (ev, outputAt s ev End_LifeLost True 0 0)"

definition noteLives :: "smb_state \<Rightarrow> evaluator \<Rightarrow> evaluator" where
  "noteLives s ev = ev\<lparr>hasLastLives := True, lastLives := lives s\<rparr>"

definition evaluate :: "evaluator \<Rightarrow> u64 \<Rightarrow> smb_state \<Rightarrow> evaluator \<times> evaluator_output" where
  "evaluate ev adv s =
     (if phase s \<noteq> Phase_Gameplay \<and> \<not> (hasBestProgress ev \<and> isTerminalState s) then
        (ev, outputAt s ev End_None False 0 0)
      else
        let ev2 = countFrames adv s ev;
            ev3 = noteLives s ev2
        in if hasLastLives ev2 \<and> lives s < lastLives ev2 then lifeLost s ev3
           else if isTerminalState s then lifeLost s ev3
           else evaluateAlive s ev3)"

lemmas evaluate_defs = evaluate_def evaluateAlive_def lifeLost_def noteLives_def countFrames_def
  levelClearStep_def distanceStep_def outputAt_def makeSnapshot_def

section \<open>Lemmas\<close>

text \<open>The frontier as a pair, compared lexicographically.\<close>

definition frontierLe :: "u32 \<times> u16 \<Rightarrow> u32 \<times> u16 \<Rightarrow> bool" where
  "frontierLe a b = (fst a < fst b \<or> (fst a = fst b \<and> snd a \<le> snd b))"

abbreviation evFrontier :: "evaluator \<Rightarrow> u32 \<times> u16" where
  "evFrontier ev \<equiv> (bestStageIndex ev, bestAbsoluteX ev)"

lemma frontierLe_refl [simp]: "frontierLe a a"
  by (simp add: frontierLe_def)

lemma frontierLe_trans: "frontierLe a b \<Longrightarrow> frontierLe b c \<Longrightarrow> frontierLe a c"
  by (auto simp: frontierLe_def)

lemma levelClearStep_mono: "frontierLe (evFrontier ev) (evFrontier (fst (levelClearStep s ev)))"
  by (auto simp: levelClearStep_def frontierLe_def Let_def)

lemma distanceStep_mono: "frontierLe (evFrontier ev) (evFrontier (fst (distanceStep s ev)))"
  by (auto simp: distanceStep_def frontierLe_def Let_def)

lemma evaluateAlive_mono: "frontierLe (evFrontier ev) (evFrontier (fst (evaluateAlive s ev)))"
  using frontierLe_trans [OF levelClearStep_mono distanceStep_mono]
  by (simp add: evaluateAlive_def split_beta Let_def)

lemma countFrames_frontier: "hasBestProgress ev \<Longrightarrow> evFrontier (countFrames adv s ev) = evFrontier ev"
  by (simp add: countFrames_def)

lemma noteLives_frontier [simp]: "evFrontier (noteLives s ev) = evFrontier ev"
  by (simp add: noteLives_def)

text \<open>
  Once progress is tracked, an evaluation never moves the best frontier back.
\<close>

theorem evaluate_frontier_monotone:
  assumes "hasBestProgress ev"
  shows "frontierLe (evFrontier ev) (evFrontier (fst (evaluate ev adv s)))"
  using evaluateAlive_mono [of "noteLives s (countFrames adv s ev)" s]
    countFrames_frontier [OF assms, of adv s]
  by (auto simp: evaluate_def lifeLost_def Let_def)

theorem evaluate_frontier_monotone_witness:
  "frontierLe (2, 300) (evFrontier (fst (evaluate (restoreProgress 2 300 0 0 10 5) 1
     (extractState empty_snapshot True))))"
  using evaluate_frontier_monotone
    [of "restoreProgress 2 300 0 0 10 5" 1 "extractState empty_snapshot True"]
  by (simp add: restoreProgress_def)

text \<open>Every output pairs \<open>done\<close> with a reason, and the snapshot repeats both.\<close>

lemma evaluateAlive_done:
  "eo_done (snd (evaluateAlive s ev)) \<longleftrightarrow> eo_endReason (snd (evaluateAlive s ev)) \<noteq> End_None"
  by (simp add: evaluateAlive_def outputAt_def split_beta Let_def)

lemma evaluate_done_iff_reason:
  "eo_done (snd (evaluate ev adv s)) \<longleftrightarrow> eo_endReason (snd (evaluate ev adv s)) \<noteq> End_None"
  using evaluateAlive_done by (auto simp: evaluate_def lifeLost_def outputAt_def Let_def)

lemma evaluate_snapshot:
  "snapshot (snd (evaluate ev adv s)) =
     makeSnapshot s (fst (evaluate ev adv s)) (eo_endReason (snd (evaluate ev adv s)))
       (eo_done (snd (evaluate ev adv s)))"
  by (auto simp: evaluate_def evaluateAlive_def lifeLost_def outputAt_def Let_def split_beta)

lemma evaluate_totals:
  "distanceRewardTotal (fst (evaluate ev adv s)) =
     distanceRewardTotal ev + distanceRewardDelta (snd (evaluate ev adv s))"
  "levelClearRewardTotal (fst (evaluate ev adv s)) =
     levelClearRewardTotal ev + levelClearRewardDelta (snd (evaluate ev adv s))"
  "rewardDelta (snd (evaluate ev adv s)) =
     distanceRewardDelta (snd (evaluate ev adv s)) + levelClearRewardDelta (snd (evaluate ev adv s))"
  by (auto simp: evaluate_defs split_beta Let_def)

lemma evaluate_delta_nonneg:
  "0 \<le> distanceRewardDelta (snd (evaluate ev adv s))"
  "0 \<le> levelClearRewardDelta (snd (evaluate ev adv s))"
  by (auto simp: evaluate_defs split_beta Let_def kLevelClearReward_def kDistanceReward_def)

text \<open>A run of the evaluator over a list of frames, with the reward it pays out in total.\<close>

fun evaluateAll :: "evaluator \<Rightarrow> (u64 \<times> smb_state) list \<Rightarrow> evaluator \<times> real" where
  "evaluateAll ev [] = (ev, 0)"
| "evaluateAll ev ((adv, s) # rest) =
     (case evaluate ev adv s of (ev', out) \<Rightarrow>
        case evaluateAll ev' rest of (ev'', paid) \<Rightarrow> (ev'', rewardDelta out + paid))"

text \<open>
  Over any run of frames the rewards paid out frame by frame add up to the growth of the two
  reward totals, and no frame takes reward back.
\<close>

theorem evaluate_accounting:
  "evaluateAll ev frames = (ev', paid) \<Longrightarrow>
   distanceRewardTotal ev' + levelClearRewardTotal ev'
     = distanceRewardTotal ev + levelClearRewardTotal ev + paid
   \<and> distanceRewardTotal ev \<le> distanceRewardTotal ev'
   \<and> levelClearRewardTotal ev \<le> levelClearRewardTotal ev'"
proof (induction frames arbitrary: ev paid)
  case Nil
  then show ?case by simp
next
  case (Cons f rest)
  obtain adv s where f: "f = (adv, s)" by (cases f)
  obtain ev1 out where e: "evaluate ev adv s = (ev1, out)" by (cases "evaluate ev adv s")
  obtain paid1 where r: "evaluateAll ev1 rest = (ev', paid1)" and p: "paid = rewardDelta out + paid1"
    using Cons.prems by (auto simp: f e split: prod.splits)
  show ?case
    using Cons.IH [OF r] evaluate_totals [of ev adv s] evaluate_delta_nonneg [of ev adv s]
    by (simp add: e p)
qed

theorem evaluate_accounting_witness:
  "\<exists>ev' paid. evaluateAll resetEvaluator
       [(1, extractState empty_snapshot True), (1, extractState empty_snapshot False)] = (ev', paid) \<and>
     distanceRewardTotal ev' + levelClearRewardTotal ev' = paid"
  (is "\<exists>ev' paid. evaluateAll _ [(1, ?s), (1, ?t)] = _ \<and> _")
proof -
  obtain ev' paid where e: "evaluateAll resetEvaluator [(1, ?s), (1, ?t)] = (ev', paid)"
    by (cases "evaluateAll resetEvaluator [(1, ?s), (1, ?t)]")
  from evaluate_accounting [OF e] show ?thesis
    by (simp only: e) (simp add: resetEvaluator_def)
qed

text \<open>Progress frames stay behind the frame count as long as the 64-bit counter does not wrap.\<close>

definition frames_ok :: "evaluator \<Rightarrow> bool" where
  "frames_ok ev = (lastProgressFrame ev \<le> gameplayFrameCount ev)"

lemma frames_ok_evaluate:
  assumes "frames_ok ev" and "unat (gameplayFrameCount ev) + unat adv < 2 ^ 64"
  shows "frames_ok (fst (evaluate ev adv s))"
proof -
  have "gameplayFrameCount ev \<le> gameplayFrameCount ev + adv"
    using assms(2) by (simp add: word_le_nat_alt unat_word_ariths)
  with assms(1) have "lastProgressFrame ev \<le> gameplayFrameCount ev + adv"
    by (simp add: frames_ok_def)
  then show ?thesis using assms(1)
    by (auto simp: evaluate_defs frames_ok_def split_beta Let_def)
qed

text \<open>
  An evaluator rebuilt from its own progress differs from the original only in the lives it
  remembers.
\<close>

lemma restore_own_progress:
  assumes "frames_ok ev" and "hasBestProgress ev"
  shows "restoreProgress (bestStageIndex ev) (bestAbsoluteX ev) (distanceRewardTotal ev)
           (levelClearRewardTotal ev) (gameplayFrameCount ev)
           (gameplayFrameCount ev - lastProgressFrame ev)
         = ev\<lparr>hasLastLives := False, lastLives := 0\<rparr>"
proof -
  have "gameplayFrameCount ev - lastProgressFrame ev \<le> gameplayFrameCount ev"
    using assms(1) by (simp add: frames_ok_def word_le_nat_alt unat_sub)
  then show ?thesis using assms(2)
    by (simp add: restoreProgress_def resetEvaluator_def)
qed

end
