(* ===== verification/SmbSearchCore.thy ===== *)
theory SmbSearchCore
  imports SmbEvaluator
begin

text \<open>
  server/search/SmbSearchCore.cpp: frontier encoding, the evaluator summary, search nodes, the
  order in which a node's actions are tried (\<open>buildDfsActionOrder\<close>) and the reconstruction
  of a plan by walking parent links (\<open>reconstructPlanFrames\<close>). The walk may run forever on
  cyclic links, so it is a \<open>partial_function (option)\<close> whose value \<open>None\<close> means that it
  does not return; it is shown to return on every node table whose parents come first.
\<close>

section \<open>Frontiers\<close>

definition encodeSmbFrontier :: "u32 \<Rightarrow> u16 \<Rightarrow> u64" where
  "encodeSmbFrontier stageIndex x = push_bit 16 (ucast stageIndex) OR ucast x"

definition decodeSmbAbsoluteX :: "u64 \<Rightarrow> u16" where
  "decodeSmbAbsoluteX frontier = ucast (frontier AND 0xFFFF)"

definition decodeSmbStageIndex :: "u64 \<Rightarrow> u32" where
  "decodeSmbStageIndex frontier = ucast (drop_bit 16 frontier)"

lemma and_low16: "(w :: u64) AND 0xFFFF = take_bit 16 w"
  by (simp add: take_bit_eq_mask mask_eq_exp_minus_1)

lemma decode_encode_x [simp]: "decodeSmbAbsoluteX (encodeSmbFrontier s x) = x"
  by (rule bit_word_eqI)
    (auto simp: decodeSmbAbsoluteX_def encodeSmbFrontier_def bit_simps and_low16)

lemma decode_encode_stage [simp]: "decodeSmbStageIndex (encodeSmbFrontier s x) = s"
  by (rule bit_word_eqI)
    (auto simp: decodeSmbStageIndex_def encodeSmbFrontier_def bit_simps add.commute
      dest: bit_imp_le_length)

lemma unat_encodeSmbFrontier: "unat (encodeSmbFrontier s x) = 65536 * unat s + unat x"
proof -
  have "push_bit 16 (ucast s :: u64) OR ucast x = push_bit 16 (ucast s) + ucast x"
  proof (rule disjunctive_add [symmetric])
    fix n
    show "\<not> bit (push_bit 16 (ucast s :: u64)) n \<or> \<not> bit (ucast x :: u64) n"
      by (auto simp: bit_simps dest: bit_imp_le_length)
  qed
  moreover have "unat (push_bit 16 (ucast s) :: u64) = 65536 * unat s"
    using u32_less [of s] by (simp add: push_bit_eq_mult unat_word_ariths unat_ucast_up)
  moreover have "unat (ucast x :: u64) = unat x" by (simp add: unat_ucast_up)
  moreover have "65536 * unat s + unat x < 2 ^ 64"
    using u32_less [of s] u16_less [of x] by simp
  ultimately show ?thesis
    by (simp add: encodeSmbFrontier_def unat_word_ariths)
qed

text \<open>
  The packed frontier keeps both of its parts, and comparing packed frontiers compares the stage
  first and then the position.
\<close>

theorem frontier_encoding:
  "decodeSmbStageIndex (encodeSmbFrontier s x) = s \<and>
   decodeSmbAbsoluteX (encodeSmbFrontier s x) = x \<and>
   (encodeSmbFrontier s x \<le> encodeSmbFrontier t y \<longleftrightarrow> frontierLe (s, x) (t, y))"
proof -
  have "encodeSmbFrontier s x \<le> encodeSmbFrontier t y
        \<longleftrightarrow> 65536 * unat s + unat x \<le> 65536 * unat t + unat y"
    by (simp add: word_le_nat_alt unat_encodeSmbFrontier)
  also have "\<dots> \<longleftrightarrow> unat s < unat t \<or> (unat s = unat t \<and> unat x \<le> unat y)"
    using u16_less [of x] u16_less [of y] by auto
  also have "\<dots> \<longleftrightarrow> frontierLe (s, x) (t, y)"
    by (auto simp: frontierLe_def word_less_nat_alt word_le_nat_alt word_unat_eq_iff)
  finally show ?thesis by simp
qed

section \<open>Search data\<close>

datatype horizontal_direction = Dir_None | Dir_Left | Dir_Right

record savestate =
  ss_frameId :: u64
  ss_bytes :: "u8 list"

record video_frame =
  vf_width :: u16
  vf_height :: u16
  vf_frameId :: u64
  vf_pixels :: "u8 list"

datatype fitness_details = NoFitness | SmbFitness fitness_snapshot

record evaluator_summary =
  sm_bestFrontier :: u64
  sm_gameplayFrames :: u64
  sm_framesSinceProgress :: u64
  sm_distanceRewardTotal :: real
  sm_endReason :: end_reason
  sm_evaluationScore :: real
  sm_levelClearRewardTotal :: real
  sm_gameState :: "u8 option"
  sm_terminal :: bool

record search_node =
  sn_savestate :: savestate
  sn_memory :: memory_snapshot
  sn_video :: "video_frame option"
  sn_summary :: evaluator_summary
  sn_parent :: "nat option"
  sn_action :: "smb_action option"
  sn_currentFrontier :: u64
  sn_gameplayFrame :: u64
  sn_playerYScreen :: u8
  sn_velocityStuck :: u8

definition encodeSnapshotFrontier :: "fitness_snapshot \<Rightarrow> u64" where
  "encodeSnapshotFrontier f = encodeSmbFrontier (fs_bestStageIndex f) (fs_bestAbsoluteX f)"

definition empty_summary :: "u8 option \<Rightarrow> evaluator_summary" where
  "empty_summary gs =
     \<lparr>sm_bestFrontier = 0, sm_gameplayFrames = 0, sm_framesSinceProgress = 0,
      sm_distanceRewardTotal = 0, sm_endReason = End_None, sm_evaluationScore = 0,
      sm_levelClearRewardTotal = 0, sm_gameState = gs, sm_terminal = False\<rparr>"

fun buildSmbSearchEvaluatorSummary :: "fitness_details \<Rightarrow> u8 option \<Rightarrow> evaluator_summary" where
  "buildSmbSearchEvaluatorSummary NoFitness gs = empty_summary gs"
| "buildSmbSearchEvaluatorSummary (SmbFitness f) gs =
     (empty_summary gs)
       \<lparr>sm_bestFrontier := encodeSnapshotFrontier f,
        sm_distanceRewardTotal := fs_distanceRewardTotal f,
        sm_endReason := fs_endReason f,
        sm_evaluationScore := fs_totalReward f,
        sm_gameplayFrames := fs_gameplayFrames f,
        sm_framesSinceProgress := fs_framesSinceProgress f,
        sm_levelClearRewardTotal := fs_levelClearRewardTotal f,
        sm_terminal := fs_done f\<rparr>"

datatype controller_source = Source_InferredPolicy | Source_ScriptedSetup | Source_LiveInput

record controller_output =
  resolvedControllerMask :: u8
  co_source :: controller_source
  sourceFrameIndex :: "u64 option"

definition isSmbGameplayFrame :: "u8 option \<Rightarrow> controller_output \<Rightarrow> bool" where
  "isSmbGameplayFrame gs co = (value_or gs 0 = 1 \<and> co_source co \<noteq> Source_ScriptedSetup)"

section \<open>The order of actions\<close>

fun isJumpButtonAction :: "smb_action \<Rightarrow> bool" where
  "isJumpButtonAction Act_Neutral = False"
| "isJumpButtonAction Act_Right = False"
| "isJumpButtonAction Act_RightRun = False"
| "isJumpButtonAction Act_LeftRun = False"
| "isJumpButtonAction Act_Duck = False"
| "isJumpButtonAction Act_RightJump = True"
| "isJumpButtonAction Act_RightJumpRun = True"
| "isJumpButtonAction Act_LeftJumpRun = True"
| "isJumpButtonAction Act_DuckJump = True"
| "isJumpButtonAction Act_DuckRightJumpRun = True"
| "isJumpButtonAction Act_DuckLeftJumpRun = True"

fun makeDescendingRunJumpRescueAction :: "horizontal_direction \<Rightarrow> smb_action option" where
  "makeDescendingRunJumpRescueAction Dir_Left = Some Act_LeftJumpRun"
| "makeDescendingRunJumpRescueAction Dir_Right = Some Act_RightJumpRun"
| "makeDescendingRunJumpRescueAction Dir_None = None"

definition smbSearchLegalActions :: "smb_action list" where
  "smbSearchLegalActions =
     [Act_RightRun, Act_RightJumpRun, Act_Right, Act_RightJump, Act_Neutral, Act_LeftRun,
      Act_LeftJumpRun, Act_Duck, Act_DuckJump, Act_DuckRightJumpRun, Act_DuckLeftJumpRun]"

text \<open>
  \<open>ao_actions\<close> holds the first \<open>count\<close> entries of the source's array, so \<open>count\<close> is its
  length; the entries beyond are never read.
\<close>

record action_ordering =
  ao_actions :: "smb_action list"
  ao_groundedPriorityCount :: nat
  ao_groundedPriorityApplied :: bool

abbreviation ao_count :: "action_ordering \<Rightarrow> nat" where
  "ao_count ao \<equiv> length (ao_actions ao)"

definition placeAny :: "smb_action \<Rightarrow> smb_action list \<Rightarrow> smb_action list" where
  "placeAny a order = (if a \<in> set order then order else order @ [a])"

definition placeAction :: "bool \<Rightarrow> smb_action \<Rightarrow> smb_action list \<Rightarrow> smb_action list" where
  "placeAction descending a order =
     (if descending \<and> isJumpButtonAction a then order else placeAny a order)"

definition buildDfsActionOrder ::
  "bool \<Rightarrow> real \<Rightarrow> horizontal_direction \<Rightarrow> smb_action option \<Rightarrow> bool \<Rightarrow> action_ordering" where
  "buildDfsActionOrder air vspeed dir parentAction groundedEnabled =
     (let descending = air \<and> vspeed > 0;
          groundedMoving = groundedEnabled \<and> \<not> air \<and> \<bar>vspeed\<bar> > 0;
          order1 =
            (if groundedMoving
             then fold (\<lambda>a order. if isJumpButtonAction a then placeAction descending a order
                                  else order) smbSearchLegalActions []
             else []);
          order2 = (case parentAction of None \<Rightarrow> order1
                    | Some a \<Rightarrow> placeAction descending a order1);
          order3 = fold (placeAction descending) smbSearchLegalActions order2;
          order4 = (if descending
                    then (case makeDescendingRunJumpRescueAction dir of None \<Rightarrow> order3
                          | Some a \<Rightarrow> placeAny a order3)
                    else order3)
      in \<lparr>ao_actions = order4,
          ao_groundedPriorityCount = (if groundedMoving then length order1 else 0),
          ao_groundedPriorityApplied = (groundedMoving \<and> length order1 > 0)\<rparr>)"

lemma legal_actions_complete: "set smbSearchLegalActions = UNIV" "distinct smbSearchLegalActions"
  by (simp_all add: smbSearchLegalActions_def UNIV_smb_action enum_smb_action_def insert_commute)

lemma set_placeAny [simp]: "set (placeAny a order) = insert a (set order)"
  by (auto simp: placeAny_def)

lemma distinct_placeAny [simp]: "distinct (placeAny a order) = distinct order"
  by (auto simp: placeAny_def)

lemma set_placeAction [simp]:
  "set (placeAction d a order) =
     (if d \<and> isJumpButtonAction a then set order else insert a (set order))"
  by (simp add: placeAction_def)

lemma distinct_placeAction [simp]: "distinct (placeAction d a order) = distinct order"
  by (simp add: placeAction_def)

lemma placeAction_extends: "\<exists>ys. placeAction d a order = order @ ys"
  by (auto simp: placeAction_def placeAny_def)

lemma set_fold_placeAction:
  "set (fold (placeAction d) xs order) =
     set order \<union> {a \<in> set xs. \<not> (d \<and> isJumpButtonAction a)}"
  by (induction xs arbitrary: order) auto

lemma distinct_fold_placeAction: "distinct (fold (placeAction d) xs order) = distinct order"
  by (induction xs arbitrary: order) auto

lemma fold_placeAction_extends: "\<exists>ys. fold (placeAction d) xs order = order @ ys"
proof (induction xs arbitrary: order)
  case Nil
  then show ?case by simp
next
  case (Cons x xs)
  obtain ys where "placeAction d x order = order @ ys" using placeAction_extends by blast
  with Cons.IH [of "order @ ys"] show ?case by auto
qed

text \<open>The jump actions, in default order: what a vertically moving grounded player tries first.\<close>

definition jumpActions :: "smb_action list" where
  "jumpActions = filter isJumpButtonAction smbSearchLegalActions"

lemma grounded_fold:
  "fold (\<lambda>a order. if isJumpButtonAction a then placeAction False a order else order)
     smbSearchLegalActions [] = jumpActions"
  by (simp add: smbSearchLegalActions_def placeAction_def placeAny_def jumpActions_def)

text \<open>The list of actions, with the grounded pass replaced by its result.\<close>

lemma buildDfsActionOrder_actions:
  "ao_actions (buildDfsActionOrder air v dir pa en) =
     (let descending = air \<and> v > 0;
          order1 = (if en \<and> \<not> air \<and> v \<noteq> 0 then jumpActions else []);
          order2 = (case pa of None \<Rightarrow> order1 | Some a \<Rightarrow> placeAction descending a order1);
          order3 = fold (placeAction descending) smbSearchLegalActions order2
      in if descending
         then (case makeDescendingRunJumpRescueAction dir of None \<Rightarrow> order3
               | Some a \<Rightarrow> placeAny a order3)
         else order3)"
  unfolding buildDfsActionOrder_def Let_def
  by (cases air) (simp_all only: action_ordering.select_convs grounded_fold simp_thms if_True
      if_False zero_less_abs_iff)

lemma buildDfsActionOrder_priority:
  "ao_groundedPriorityCount (buildDfsActionOrder air v dir pa en) =
     (if en \<and> \<not> air \<and> v \<noteq> 0 then length jumpActions else 0)"
proof (cases "en \<and> \<not> air \<and> v \<noteq> 0")
  case True
  then show ?thesis by (simp add: buildDfsActionOrder_def Let_def grounded_fold)
next
  case False
  then have "\<not> (en \<and> \<not> air \<and> \<bar>v\<bar> > 0)" by simp
  then show ?thesis using False
    unfolding buildDfsActionOrder_def Let_def by (simp only: action_ordering.select_convs if_False)
qed

lemma set_jumpActions: "set jumpActions = {a. isJumpButtonAction a}"
  using legal_actions_complete by (auto simp: jumpActions_def)

lemma length_jumpActions: "length jumpActions = 6"
  by (simp add: jumpActions_def smbSearchLegalActions_def)

lemma distinct_jumpActions: "distinct jumpActions"
  using legal_actions_complete by (simp add: jumpActions_def)

definition descendingAirborne :: "bool \<Rightarrow> real \<Rightarrow> bool" where
  "descendingAirborne air vspeed = (air \<and> vspeed > 0)"

definition groundedMovingVertically :: "bool \<Rightarrow> bool \<Rightarrow> real \<Rightarrow> bool" where
  "groundedMovingVertically enabled air vspeed = (enabled \<and> \<not> air \<and> vspeed \<noteq> 0)"

lemma order_distinct: "distinct (ao_actions (buildDfsActionOrder air v dir pa en))"
  by (auto simp: buildDfsActionOrder_actions Let_def distinct_fold_placeAction
      distinct_jumpActions split: option.splits)

lemma order_set:
  "set (ao_actions (buildDfsActionOrder air v dir pa en)) =
     (if descendingAirborne air v
      then {a. \<not> isJumpButtonAction a} \<union> set_option (makeDescendingRunJumpRescueAction dir)
      else UNIV)"
  by (auto simp: buildDfsActionOrder_actions descendingAirborne_def Let_def set_fold_placeAction
      legal_actions_complete set_jumpActions split: option.splits)

lemma order_nonempty: "ao_actions (buildDfsActionOrder air v dir pa en) \<noteq> []"
proof -
  have "Act_Neutral \<in> set (ao_actions (buildDfsActionOrder air v dir pa en))"
    by (auto simp: order_set)
  then show ?thesis by auto
qed

lemma order_length_le: "ao_count (buildDfsActionOrder air v dir pa en) \<le> 11"
proof -
  have "ao_count (buildDfsActionOrder air v dir pa en)
        = card (set (ao_actions (buildDfsActionOrder air v dir pa en)))"
    by (simp add: distinct_card order_distinct)
  also have "\<dots> \<le> card (UNIV :: smb_action set)"
    by (rule card_mono) simp_all
  also have "\<dots> = 11"
    by (simp add: UNIV_smb_action enum_smb_action_def)
  finally show ?thesis .
qed

lemma order_count_not_descending:
  assumes "\<not> descendingAirborne air v"
  shows "ao_count (buildDfsActionOrder air v dir pa en) = 11"
proof -
  have "ao_count (buildDfsActionOrder air v dir pa en)
        = card (set (ao_actions (buildDfsActionOrder air v dir pa en)))"
    by (simp add: distinct_card order_distinct)
  also have "\<dots> = card (UNIV :: smb_action set)" using assms by (simp add: order_set)
  also have "\<dots> = 11" by (simp add: UNIV_smb_action enum_smb_action_def)
  finally show ?thesis .
qed

lemma order_grounded_prefix:
  assumes "groundedMovingVertically en air v"
  shows "take (ao_groundedPriorityCount (buildDfsActionOrder air v dir pa en))
           (ao_actions (buildDfsActionOrder air v dir pa en)) = jumpActions"
    and "ao_groundedPriorityCount (buildDfsActionOrder air v dir pa en) = 6"
proof -
  obtain ys where "fold (placeAction False) smbSearchLegalActions
      (case pa of None \<Rightarrow> jumpActions | Some a \<Rightarrow> placeAction False a jumpActions)
    = jumpActions @ ys"
    using fold_placeAction_extends placeAction_extends
    by (cases pa) (force, metis append.assoc option.simps(5))
  with assms show "take (ao_groundedPriorityCount (buildDfsActionOrder air v dir pa en))
           (ao_actions (buildDfsActionOrder air v dir pa en)) = jumpActions"
    and "ao_groundedPriorityCount (buildDfsActionOrder air v dir pa en) = 6"
    by (auto simp: buildDfsActionOrder_actions buildDfsActionOrder_priority Let_def
        groundedMovingVertically_def length_jumpActions)
qed

text \<open>
  Unless Mario stands while moving vertically, or the parent's action is a jump that a descending
  Mario may not use, the action that led to the node is tried first.
\<close>

theorem order_parent_first:
  assumes "\<not> groundedMovingVertically en air v"
    and "\<not> (descendingAirborne air v \<and> isJumpButtonAction a)"
  shows "hd (ao_actions (buildDfsActionOrder air v dir (Some a) en)) = a"
proof -
  obtain ys where ys: "fold (placeAction (air \<and> v > 0)) smbSearchLegalActions [a] = a # ys"
    using fold_placeAction_extends [of "air \<and> v > 0" smbSearchLegalActions "[a]"] by auto
  have "placeAction (air \<and> v > 0) a [] = [a]"
    using assms(2) by (auto simp: placeAction_def placeAny_def descendingAirborne_def)
  moreover have "\<not> (en \<and> \<not> air \<and> \<bar>v\<bar> > 0)"
    using assms(1) by (simp add: groundedMovingVertically_def)
  ultimately show ?thesis using ys
    by (auto simp: buildDfsActionOrder_actions Let_def placeAny_def split: option.splits)
qed

theorem order_parent_first_witness:
  "hd (ao_actions (buildDfsActionOrder True 1 Dir_Right (Some Act_LeftRun) True)) = Act_LeftRun"
  by (rule order_parent_first) (simp_all add: groundedMovingVertically_def)

text \<open>
  The action order of a node lists no action twice; it is complete (all eleven actions) except for
  a falling Mario, who loses the jumps but keeps the one that rescues a running fall; and a Mario who
  stands while moving vertically tries the six jumps first.
\<close>

theorem dfs_action_order:
  "distinct (ao_actions (buildDfsActionOrder air v dir pa en)) \<and>
   set (ao_actions (buildDfsActionOrder air v dir pa en)) =
     (if descendingAirborne air v
      then {a. \<not> isJumpButtonAction a} \<union> set_option (makeDescendingRunJumpRescueAction dir)
      else UNIV) \<and>
   take (ao_groundedPriorityCount (buildDfsActionOrder air v dir pa en))
     (ao_actions (buildDfsActionOrder air v dir pa en))
     = (if groundedMovingVertically en air v then jumpActions else [])"
proof -
  have "ao_groundedPriorityCount (buildDfsActionOrder air v dir pa en) = 0"
    if "\<not> groundedMovingVertically en air v"
    using that by (auto simp: buildDfsActionOrder_priority groundedMovingVertically_def)
  then show ?thesis
    using order_grounded_prefix(1) [of en air v dir pa] order_distinct order_set by simp
qed

section \<open>Plan reconstruction\<close>

text \<open>
  The \<open>while (cursor.has_value())\<close> loop of \<open>reconstructPlanFrames\<close>: \<open>cursor\<close> is in range on
  entry and after every turn, and \<open>reversed\<close> is \<open>reversedFrames\<close>.
\<close>

definition nodeFrames :: "search_node \<Rightarrow> player_control_frame list" where
  "nodeFrames node = (case sn_action node of None \<Rightarrow> [] | Some a \<Rightarrow> [actionToFrame a])"

partial_function (option) planLoop ::
  "search_node list \<Rightarrow> nat \<Rightarrow> player_control_frame list
   \<Rightarrow> player_control_frame list result option" where
  "planLoop nodes cursor reversed =
     (case sn_parent (nodes ! cursor) of
        None \<Rightarrow> Some (okay (rev (reversed @ nodeFrames (nodes ! cursor))))
      | Some p \<Rightarrow>
          if p \<ge> length nodes then Some (error ''Search node parent index out of range'')
          else planLoop nodes p (reversed @ nodeFrames (nodes ! cursor)))"

declare planLoop.simps [code]

definition reconstructPlanFrames ::
  "search_node list \<Rightarrow> nat \<Rightarrow> player_control_frame list result option" where
  "reconstructPlanFrames nodes nodeIndex =
     (if nodeIndex \<ge> length nodes then Some (error ''Search node index out of range'')
      else planLoop nodes nodeIndex [])"

text \<open>Parents come before their children, as the search appends them.\<close>

definition parents_before :: "search_node list \<Rightarrow> bool" where
  "parents_before nodes =
     (\<forall>i < length nodes. \<forall>p. sn_parent (nodes ! i) = Some p \<longrightarrow> p < i)"

text \<open>The path from the root to a node, root first, as far as the links lead down.\<close>

function pathTo :: "search_node list \<Rightarrow> nat \<Rightarrow> nat list" where
  "pathTo nodes i =
     (case sn_parent (nodes ! i) of
        None \<Rightarrow> [i]
      | Some p \<Rightarrow> if p < i then pathTo nodes p @ [i] else [i])"
  by pat_completeness auto
termination
  by (relation "measure snd") auto

declare pathTo.simps [simp del]

definition pathFrames :: "search_node list \<Rightarrow> nat list \<Rightarrow> player_control_frame list" where
  "pathFrames nodes path = concat (map (\<lambda>i. nodeFrames (nodes ! i)) path)"

lemma rev_nodeFrames [simp]: "rev (nodeFrames n) = nodeFrames n"
  by (simp add: nodeFrames_def split: option.split)

lemma planLoop_returns:
  assumes "parents_before nodes" and "i < length nodes"
  shows "planLoop nodes i acc = Some (okay (pathFrames nodes (pathTo nodes i) @ rev acc))"
  using assms(2)
proof (induction i arbitrary: acc rule: less_induct)
  case (less i)
  show ?case
  proof (cases "sn_parent (nodes ! i)")
    case None
    then show ?thesis
      by (simp add: planLoop.simps [of nodes i] pathTo.simps [of nodes i] pathFrames_def)
  next
    case (Some p)
    with assms(1) less.prems have "p < i" by (auto simp: parents_before_def)
    with less.IH [of p "acc @ nodeFrames (nodes ! i)"] less.prems Some show ?thesis
      by (simp add: planLoop.simps [of nodes i] pathTo.simps [of nodes i] pathFrames_def)
  qed
qed

lemma reconstruct_returns:
  "parents_before nodes \<Longrightarrow> i < length nodes \<Longrightarrow>
   reconstructPlanFrames nodes i = Some (okay (pathFrames nodes (pathTo nodes i)))"
  by (simp add: reconstructPlanFrames_def planLoop_returns)

lemma pathTo_last: "last (pathTo nodes i) = i" "pathTo nodes i \<noteq> []"
  by (subst pathTo.simps; simp split: option.split)+

text \<open>Appending a node does not change the paths of the nodes already there.\<close>

lemma pathTo_append:
  assumes "parents_before nodes" and "i < length nodes"
  shows "pathTo (nodes @ xs) i = pathTo nodes i"
  using assms(2)
proof (induction i rule: less_induct)
  case (less i)
  show ?case
  proof (cases "sn_parent (nodes ! i)")
    case None
    with less.prems show ?thesis
      by (simp add: pathTo.simps [of _ i] nth_append)
  next
    case (Some p)
    with assms(1) less.prems have "p < i" by (auto simp: parents_before_def)
    with less Some show ?thesis
      by (simp add: pathTo.simps [of _ i] nth_append)
  qed
qed

lemma pathTo_bound: "set (pathTo nodes i) \<subseteq> {..i}"
proof (induction i rule: less_induct)
  case (less i)
  show ?case
  proof (cases "sn_parent (nodes ! i)")
    case None
    then show ?thesis by (simp add: pathTo.simps [of nodes i])
  next
    case (Some p)
    then show ?thesis using less.IH [of p]
      by (cases "p < i") (force simp: pathTo.simps [of nodes i])+
  qed
qed

text \<open>Consecutive nodes of a path are linked by their parent fields.\<close>

fun linked :: "search_node list \<Rightarrow> nat list \<Rightarrow> bool" where
  "linked nodes (i # j # is) = (sn_parent (nodes ! j) = Some i \<and> linked nodes (j # is))"
| "linked nodes _ = True"

lemma linked_snoc:
  "linked nodes (xs @ [i]) \<Longrightarrow> sn_parent (nodes ! j) = Some i \<Longrightarrow> linked nodes (xs @ [i, j])"
  by (induction nodes xs rule: linked.induct) auto

lemma linked_pathTo: "linked nodes (pathTo nodes i)"
proof (induction i rule: less_induct)
  case (less i)
  show ?case
  proof (cases "sn_parent (nodes ! i)")
    case None
    then show ?thesis by (simp add: pathTo.simps [of nodes i])
  next
    case (Some p)
    obtain xs where xs: "pathTo nodes p = xs @ [p]"
      using append_butlast_last_id [OF pathTo_last(2) [of nodes p]]
      by (metis pathTo_last(1))
    with Some less.IH [of p] linked_snoc [of nodes xs p i]
    show ?thesis
      by (cases "p < i") (auto simp: pathTo.simps [of nodes i] xs)
  qed
qed

end
