(* ===== verification/NesDriver.thy ===== *)
theory NesDriver
  imports SmbSearchCore
begin

text \<open>
  The emulator driver as the search sees it: the operations of
  core/scenarios/nes/NesSmolnesScenarioDriver.h that server/search calls, as functions on an
  abstract driver state \<open>'d\<close>. The driver wraps the SmolNES emulator, a third-party program
  running in its own thread, so every theorem about the search holds for all drivers. Also here:
  the data the search reports (Plan.h, SearchProgress.h, the used part of WorldData).
\<close>

record step_result =
  sr_advancedFrames :: u64
  sr_runtimeHealthy :: bool
  sr_runtimeRunning :: bool
  sr_memorySnapshot :: "memory_snapshot option"
  sr_scenarioVideoFrame :: "video_frame option"
  sr_lastError :: string

text \<open>
  \<open>env_newDriver\<close> is a driver just constructed for the game with live pacing switched off;
  \<open>env_uuid\<close> is what \<open>UUID::generate\<close> returns.
\<close>

record 'd nes_env =
  env_newDriver :: 'd
  env_setConfig :: "'d \<Rightarrow> unit result \<times> 'd"
  env_setup :: "'d \<Rightarrow> unit result \<times> 'd"
  env_step :: "'d \<Rightarrow> u8 \<Rightarrow> step_result \<times> 'd"
  env_load :: "'d \<Rightarrow> savestate \<Rightarrow> bool \<times> 'd"
  env_savestate :: "'d \<Rightarrow> savestate option"
  env_frame :: "'d \<Rightarrow> video_frame option"
  env_lastError :: "'d \<Rightarrow> string"
  env_uuid :: nat

datatype progress_event =
  PE_Unknown | PE_RootInitialized | PE_ExpandedAlive | PE_Backtracked | PE_PrunedDead
| PE_PrunedStalled | PE_PrunedVelocityStuck | PE_CompletedBudgetExceeded
| PE_CompletedExhausted | PE_CompletedMilestoneReached | PE_Stopped | PE_Error
| PE_PrunedBelowScreen | PE_PrunedTransposition | PE_PrunedNonGameplay

record search_progress =
  pg_paused :: bool
  pg_bestFrontier :: u64
  pg_currentGameplayFrame :: u64
  pg_lastSearchEvent :: progress_event
  pg_searchedNodeCount :: u64
  pg_groundedPriorityCount :: u64

definition empty_progress :: search_progress where
  "empty_progress =
     \<lparr>pg_paused = False, pg_bestFrontier = 0, pg_currentGameplayFrame = 0,
      pg_lastSearchEvent = PE_Unknown, pg_searchedNodeCount = 0, pg_groundedPriorityCount = 0\<rparr>"

record search_plan =
  pl_id :: nat
  pl_bestFrontier :: u64
  pl_elapsedFrames :: u64
  pl_frames :: "player_control_frame list"

definition empty_plan :: search_plan where
  "empty_plan = \<lparr>pl_id = 0, pl_bestFrontier = 0, pl_elapsedFrames = 0, pl_frames = []\<rparr>"

record world_data =
  wd_width :: i16
  wd_height :: i16
  wd_timestep :: i32

definition empty_world_data :: world_data where
  "empty_world_data = \<lparr>wd_width = 0, wd_height = 0, wd_timestep = 0\<rparr>"

text \<open>\<open>lastError.empty() ? fallback : lastError\<close>.\<close>

definition errorOr :: "string \<Rightarrow> string \<Rightarrow> string" where
  "errorOr lastError fallback = (if lastError = [] then fallback else lastError)"

end
