(* ===== verification/ClosedLoss.thy ===== *)
theory ClosedLoss
  imports SmbSearchCore
begin

text \<open>
  The closed-loss transposition tables of server/search/SmbDfsSearch.cpp: the search options,
  the exact key and the shape key built from a game state and a memory snapshot, the two tables
  and their replacement rule. Both tables keep, for each key, an entry that no published entry
  beats; the rule they share is the interface \<open>keep_best\<close>, interpreted for each of them. The
  hash functions of the source only place keys in buckets, so a table is a map.
\<close>

section \<open>Options\<close>

record search_options =
  maxSearchedNodeCount :: u32
  stallFrameLimit :: u32
  velocityPruningEnabled :: bool
  belowScreenPruningEnabled :: bool
  fallingTranspositionPruningEnabled :: bool
  fallingTranspositionThreshold :: u8
  groundedVerticalJumpPrioritizationEnabled :: bool
  stopAfterBestFrontier :: "u64 option"

definition default_options :: search_options where
  "default_options =
     \<lparr>maxSearchedNodeCount = 5000, stallFrameLimit = 120, velocityPruningEnabled = True,
      belowScreenPruningEnabled = True, fallingTranspositionPruningEnabled = True,
      fallingTranspositionThreshold = 0, groundedVerticalJumpPrioritizationEnabled = True,
      stopAfterBestFrontier = None\<rparr>"

section \<open>Keys\<close>

record shape_key =
  k_nearestEnemyDx :: i16
  k_nearestEnemyDy :: i16
  k_secondNearestEnemyDx :: i16
  k_secondNearestEnemyDy :: i16
  k_verticalSpeed :: i16
  k_facingX :: i8
  k_horizontalSpeed :: i8
  k_movementX :: i8
  k_absoluteX :: u16
  k_level :: u8
  k_playerYScreen :: u8
  k_powerupState :: u8
  k_world :: u8
  k_enemyPresent :: bool
  k_secondEnemyPresent :: bool

record exact_key = shape_key +
  k_ramBytes :: "u8 list"

definition ramByteAddrs :: "nat list" where
  "ramByteAddrs =
     [0x0000, 0x0003, 0x000A, 0x000B, 0x000E, 0x001D, 0x0057, 0x009F, 0x00B5, 0x00CE, 0x03AD,
      0x03B8, 0x0400, 0x0416, 0x0433, 0x0490, 0x04AC, 0x04AD, 0x04AE, 0x04AF, 0x06D5, 0x06FC,
      0x0700, 0x0701, 0x0702, 0x0704, 0x0705, 0x0709, 0x070A, 0x070C, 0x070D, 0x0712, 0x0714,
      0x071A, 0x071B, 0x071C, 0x071D, 0x071E, 0x071F, 0x0722, 0x0723, 0x072C, 0x072F, 0x0739,
      0x0747, 0x074A, 0x0752, 0x0753, 0x0755, 0x0775, 0x077F, 0x0781, 0x0782, 0x0783, 0x0784,
      0x0785, 0x0786, 0x0789, 0x078A, 0x0791, 0x0795, 0x079E, 0x079F]"

definition isInputMirrorRamAddr :: "nat \<Rightarrow> bool" where
  "isInputMirrorRamAddr a = (a = 0x000A \<or> a = 0x000B \<or> a = 0x06FC \<or> a = 0x074A)"

definition buildRamBytes :: "memory_snapshot \<Rightarrow> u8 list" where
  "buildRamBytes snap = map (\<lambda>a. if isInputMirrorRamAddr a then 0 else cpuRam snap a) ramByteAddrs"

definition encodeAxisSign :: "real \<Rightarrow> i8" where
  "encodeAxisSign v = (if v > 0 then 1 else if v < 0 then - 1 else 0)"

definition quantizeHorizontalSpeed :: "real \<Rightarrow> i8" where
  "quantizeHorizontalSpeed v = word_of_int (clamp (lround (v * 40)) (- 128) 127)"

definition quantizeVerticalSpeed :: "real \<Rightarrow> i16" where
  "quantizeVerticalSpeed v = word_of_int (clamp (lround (v * 128)) (- 128) 128)"

definition getHorizontalDirection :: "smb_state \<Rightarrow> horizontal_direction" where
  "getHorizontalDirection s =
     (if movementX s > 0 then Dir_Right
      else if movementX s < 0 then Dir_Left
      else if horizontalSpeedNormalized s > 0 then Dir_Right
      else if horizontalSpeedNormalized s < 0 then Dir_Left
      else if facingX s > 0 then Dir_Right
      else if facingX s < 0 then Dir_Left
      else Dir_None)"

definition encodeCurrentFrontier :: "smb_state \<Rightarrow> u64" where
  "encodeCurrentFrontier s = encodeSmbFrontier (ucast (world s) * 4 + ucast (level s)) (absoluteX s)"

definition buildClosedLossKey ::
  "search_options \<Rightarrow> smb_state \<Rightarrow> memory_snapshot \<Rightarrow> exact_key option" where
  "buildClosedLossKey opts s snap =
     (if \<not> fallingTranspositionPruningEnabled opts then None
      else if gameMode s \<noteq> GameMode_Normal \<or> lifeState s \<noteq> Life_Alive then None
      else if playerYScreen s < fallingTranspositionThreshold opts then None
      else Some
       \<lparr>k_nearestEnemyDx = nearestEnemyDx s,
        k_nearestEnemyDy = nearestEnemyDy s,
        k_secondNearestEnemyDx = secondNearestEnemyDx s,
        k_secondNearestEnemyDy = secondNearestEnemyDy s,
        k_verticalSpeed = quantizeVerticalSpeed (verticalSpeedNormalized s),
        k_facingX = encodeAxisSign (facingX s),
        k_horizontalSpeed = quantizeHorizontalSpeed (horizontalSpeedNormalized s),
        k_movementX = encodeAxisSign (movementX s),
        k_absoluteX = absoluteX s,
        k_level = level s,
        k_playerYScreen = playerYScreen s,
        k_powerupState = powerup_value (powerupState s),
        k_world = world s,
        k_enemyPresent = enemyPresent s,
        k_secondEnemyPresent = secondEnemyPresent s,
        k_ramBytes = buildRamBytes snap\<rparr>)"

definition buildShapeKey :: "exact_key \<Rightarrow> shape_key" where
  "buildShapeKey k =
     \<lparr>k_nearestEnemyDx = k_nearestEnemyDx k,
      k_nearestEnemyDy = k_nearestEnemyDy k,
      k_secondNearestEnemyDx = k_secondNearestEnemyDx k,
      k_secondNearestEnemyDy = k_secondNearestEnemyDy k,
      k_verticalSpeed = k_verticalSpeed k,
      k_facingX = k_facingX k,
      k_horizontalSpeed = k_horizontalSpeed k,
      k_movementX = k_movementX k,
      k_absoluteX = k_absoluteX k,
      k_level = k_level k,
      k_playerYScreen = k_playerYScreen k,
      k_powerupState = k_powerupState k,
      k_world = k_world k,
      k_enemyPresent = k_enemyPresent k,
      k_secondEnemyPresent = k_secondEnemyPresent k\<rparr>"

section \<open>Tables\<close>

record loss_entry =
  le_bestFrontier :: u64
  le_framesSinceProgress :: u64
  le_gameplayFrame :: u64

record shape_entry =
  se_proof :: loss_entry
  se_ramBytes :: "u8 list"

type_synonym exact_table = "exact_key \<rightharpoonup> loss_entry"
type_synonym shape_table = "shape_key \<rightharpoonup> shape_entry"

text \<open>The condition under which both tables replace an entry.\<close>

definition entryBetter :: "loss_entry \<Rightarrow> loss_entry \<Rightarrow> bool" where
  "entryBetter new old =
     (le_bestFrontier new > le_bestFrontier old
      \<or> (le_bestFrontier new = le_bestFrontier old
         \<and> le_gameplayFrame new < le_gameplayFrame old)
      \<or> (le_bestFrontier new = le_bestFrontier old
         \<and> le_gameplayFrame new = le_gameplayFrame old
         \<and> le_framesSinceProgress new < le_framesSinceProgress old))"

definition putExact :: "exact_key \<Rightarrow> loss_entry \<Rightarrow> exact_table \<Rightarrow> exact_table" where
  "putExact k e t =
     (case t k of None \<Rightarrow> t(k \<mapsto> e)
      | Some old \<Rightarrow> if entryBetter e old then t(k \<mapsto> e) else t)"

definition putShape :: "shape_key \<Rightarrow> shape_entry \<Rightarrow> shape_table \<Rightarrow> shape_table" where
  "putShape k e t =
     (case t k of None \<Rightarrow> t(k \<mapsto> e)
      | Some old \<Rightarrow> if entryBetter (se_proof e) (se_proof old) then t(k \<mapsto> e) else t)"

definition entryOfSummary :: "evaluator_summary \<Rightarrow> loss_entry" where
  "entryOfSummary sm =
     \<lparr>le_bestFrontier = sm_bestFrontier sm,
      le_framesSinceProgress = sm_framesSinceProgress sm,
      le_gameplayFrame = sm_gameplayFrames sm\<rparr>"

definition entryDominates :: "loss_entry \<Rightarrow> evaluator_summary \<Rightarrow> bool" where
  "entryDominates e sm =
     (le_bestFrontier e \<ge> sm_bestFrontier sm
      \<and> le_gameplayFrame e \<le> sm_gameplayFrames sm
      \<and> le_framesSinceProgress e \<le> sm_framesSinceProgress sm)"

definition isClosedLossTranspositionPruned ::
  "exact_table \<Rightarrow> exact_key \<Rightarrow> evaluator_summary \<Rightarrow> bool" where
  "isClosedLossTranspositionPruned t k sm =
     (case t k of None \<Rightarrow> False | Some e \<Rightarrow> entryDominates e sm)"

record shape_probe =
  sp_pruned :: bool
  sp_ramDiffCount :: u8
  sp_ramDiffs :: "bool list"

definition no_probe :: shape_probe where
  "no_probe = \<lparr>sp_pruned = False, sp_ramDiffCount = 0, sp_ramDiffs = replicate 63 False\<rparr>"

definition probeClosedLossShape ::
  "shape_table \<Rightarrow> shape_key \<Rightarrow> exact_key \<Rightarrow> evaluator_summary \<Rightarrow> shape_probe" where
  "probeClosedLossShape t k exact sm =
     (case t k of
        None \<Rightarrow> no_probe
      | Some e \<Rightarrow>
          if le_bestFrontier (se_proof e) < sm_bestFrontier sm
             \<or> le_gameplayFrame (se_proof e) > sm_gameplayFrames sm
             \<or> le_framesSinceProgress (se_proof e) > sm_framesSinceProgress sm
          then no_probe
          else
            let diffs = map2 (\<lambda>a b. a \<noteq> b) (k_ramBytes exact) (se_ramBytes e)
            in \<lparr>sp_pruned = True,
                sp_ramDiffCount = of_nat (length (filter id diffs)),
                sp_ramDiffs = diffs\<rparr>)"

section \<open>Keys determine the quantised state\<close>

lemma length_ramByteAddrs [simp]: "length ramByteAddrs = 63"
  by (simp add: ramByteAddrs_def)

lemma ramByteAddrs_in_range: "\<forall>a \<in> set ramByteAddrs. a < cpuRamBytes"
  by (simp add: ramByteAddrs_def cpuRamBytes_def)

lemma length_buildRamBytes [simp]: "length (buildRamBytes snap) = 63"
  by (simp add: buildRamBytes_def)

text \<open>
  Quantisation undoes the extractor's normalisation: exactly for the vertical speed, and up to
  the extractor's own clamp for the horizontal one.
\<close>

lemma sint_i8_bounds: "- 128 \<le> sint (w :: i8)" "sint (w :: i8) \<le> 127"
  using sint_greater_eq [of w] sint_less [of w] by simp_all

lemma quantize_decode_vertical:
  "sint (quantizeVerticalSpeed (decodeVerticalSpeedNormalized s)) = sint s"
proof -
  have "clamp (of_int (sint s) / 128) (- 1) 1 = (of_int (sint s) / 128 :: real)"
    using sint_i8_bounds [of s] by (simp add: clamp_def divide_simps del: of_int_sint)
  then have "quantizeVerticalSpeed (decodeVerticalSpeedNormalized s) = word_of_int (sint s)"
    using sint_i8_bounds [of s]
    by (simp add: quantizeVerticalSpeed_def decodeVerticalSpeedNormalized_def del: of_int_sint)
  then show ?thesis
    using sint_i8_bounds [of s]
    by (simp add: signed_of_int signed_take_bit_int_eq_self del: of_int_sint)
qed

lemma clamp_scale:
  assumes "0 < (c :: real)" shows "clamp (v / c) (- 1) 1 * c = clamp v (- c) c"
  using assms by (auto simp: clamp_def field_simps)

lemma of_int_clamp: "clamp (of_int v) (of_int lo) (of_int hi) = (of_int (clamp v lo hi) :: real)"
  by (simp add: clamp_def)

lemma quantize_decode_horizontal:
  "sint (quantizeHorizontalSpeed (decodeHorizontalSpeedNormalized s)) = clamp (sint s) (- 40) 40"
proof -
  let ?c = "clamp (sint s) (- 40) 40"
  have b: "- 40 \<le> ?c" "?c \<le> 40" by (auto simp: clamp_def)
  have "decodeHorizontalSpeedNormalized s * 40 = of_int ?c"
    using clamp_scale [of 40 "of_int (sint s)"] of_int_clamp [of "sint s" "- 40" 40]
    by (simp add: decodeHorizontalSpeedNormalized_def del: of_int_sint)
  then have "quantizeHorizontalSpeed (decodeHorizontalSpeedNormalized s) = word_of_int ?c"
    using b by (simp add: quantizeHorizontalSpeed_def)
  then show ?thesis
    using b by (simp add: signed_of_int signed_take_bit_int_eq_self)
qed

text \<open>
  The speeds in a closed-loss key are the signed speed bytes of the RAM: the vertical one exactly,
  the horizontal one up to the extractor's clamp to 40.
\<close>

theorem key_speeds_are_ram_speeds:
  "sint (quantizeVerticalSpeed (decodeVerticalSpeedNormalized s)) = sint s \<and>
   sint (quantizeHorizontalSpeed (decodeHorizontalSpeedNormalized s)) = clamp (sint s) (- 40) 40"
  by (simp add: quantize_decode_vertical quantize_decode_horizontal)

lemma shape_of_exact: "buildShapeKey k = shape_key.truncate k"
  by (simp add: buildShapeKey_def shape_key.truncate_def)

section \<open>The replacement rule as an interface\<close>

text \<open>
  A client of a keep-best store relies on two laws: the order is a strict weak order, and
  \<open>put\<close> stores an entry exactly where the key is free or the entry is better.
\<close>

text \<open>
  \<open>P k e\<close> says that \<open>e\<close> was published for \<open>k\<close>: the store holds only published entries,
  and for every published one an entry that it does not beat.
\<close>

definition stores :: "('e \<Rightarrow> 'e \<Rightarrow> bool) \<Rightarrow> ('k \<Rightarrow> 'e \<Rightarrow> bool) \<Rightarrow> ('k \<rightharpoonup> 'e) \<Rightarrow> bool" where
  "stores better P t =
     ((\<forall>k e. t k = Some e \<longrightarrow> P k e) \<and> (\<forall>k e. P k e \<longrightarrow> (\<exists>e'. t k = Some e' \<and> \<not> better e e')))"

lemma stores_empty [simp]: "stores better (\<lambda>k e. False) Map.empty"
  by (simp add: stores_def)

lemma stores_from: "stores better P t \<Longrightarrow> t k = Some e \<Longrightarrow> P k e"
  by (simp add: stores_def)

locale keep_best =
  fixes better :: "'e \<Rightarrow> 'e \<Rightarrow> bool"
    and put :: "'k \<Rightarrow> 'e \<Rightarrow> ('k \<rightharpoonup> 'e) \<Rightarrow> ('k \<rightharpoonup> 'e)"
  assumes better_irrefl: "\<not> better e e"
    and better_trans: "better a b \<Longrightarrow> better b c \<Longrightarrow> better a c"
    and better_neg_trans: "\<not> better a b \<Longrightarrow> \<not> better b c \<Longrightarrow> \<not> better a c"
    and put_same: "put k e t k = (case t k of None \<Rightarrow> Some e
                     | Some old \<Rightarrow> if better e old then Some e else Some old)"
    and put_other: "k' \<noteq> k \<Longrightarrow> put k e t k' = t k'"
begin

lemma put_not_worse: "put k e t k = Some e' \<Longrightarrow> \<not> better e e'"
  by (auto simp: put_same better_irrefl split: option.splits if_splits)

lemma put_keeps_not_worse:
  "t k = Some old \<Longrightarrow> \<exists>e'. put k' e t k = Some e' \<and> \<not> better old e'"
  using better_irrefl [of old] better_irrefl [of e] better_trans [of old e old]
  by (cases "k' = k") (auto simp: put_same put_other)

lemma put_from: "put k e t k' = Some e' \<Longrightarrow> t k' = Some e' \<or> (k' = k \<and> e' = e)"
  by (cases "k' = k") (auto simp: put_same put_other split: option.splits if_splits)

lemma put_stores:
  assumes "stores better P t"
  shows "stores better (\<lambda>k' e'. P k' e' \<or> (k' = k \<and> e' = e)) (put k e t)"
  unfolding stores_def
proof (intro conjI allI impI)
  fix k' e' assume "put k e t k' = Some e'"
  from put_from [OF this] assms show "P k' e' \<or> (k' = k \<and> e' = e)"
    by (auto dest: stores_from)
next
  fix k' e' assume P: "P k' e' \<or> (k' = k \<and> e' = e)"
  show "\<exists>e''. put k e t k' = Some e'' \<and> \<not> better e' e''"
  proof (cases "P k' e'")
    case True
    with assms obtain old where "t k' = Some old" and 1: "\<not> better e' old"
      unfolding stores_def by blast
    from put_keeps_not_worse [where t = t and k = k' and old = old, OF this(1), of k e]
    obtain e'' where "put k e t k' = Some e''" and "\<not> better old e''" by blast
    with better_neg_trans [OF 1] show ?thesis by blast
  next
    case False
    with P have "k' = k" "e' = e" by simp_all
    moreover have "\<exists>e''. put k e t k = Some e''" by (auto simp: put_same split: option.splits)
    ultimately show ?thesis using put_not_worse by blast
  qed
qed

text \<open>A run of puts: what is stored was put, and nothing put for the key beats it.\<close>

abbreviation putAll :: "('k \<times> 'e) list \<Rightarrow> ('k \<rightharpoonup> 'e) \<Rightarrow> ('k \<rightharpoonup> 'e)" where
  "putAll ps t \<equiv> fold (\<lambda>(k, e). put k e) ps t"

lemma putAll_from:
  "putAll ps t k = Some e \<Longrightarrow> t k = Some e \<or> (k, e) \<in> set ps"
  by (induction ps arbitrary: t) (auto dest: put_from)

lemma putAll_keeps:
  "t k = Some old \<Longrightarrow> \<exists>e'. putAll ps t k = Some e' \<and> \<not> better old e'"
proof (induction ps arbitrary: t old)
  case Nil
  then show ?case by (simp add: better_irrefl)
next
  case (Cons p ps)
  obtain k' e where p: "p = (k', e)" by (cases p)
  from put_keeps_not_worse [where t = t and k = k and old = old, OF Cons.prems, of k' e] obtain e1
    where "put k' e t k = Some e1" and 1: "\<not> better old e1" by blast
  from Cons.IH [where t = "put k' e t" and old = e1, OF this(1)] obtain e2
    where "putAll ps (put k' e t) k = Some e2" and 2: "\<not> better e1 e2" by blast
  with p better_neg_trans [OF 1 2] show ?case by auto
qed

lemma putAll_best:
  "(k, e) \<in> set ps \<Longrightarrow> \<exists>e'. putAll ps t k = Some e' \<and> \<not> better e e'"
proof (induction ps arbitrary: t)
  case Nil
  then show ?case by simp
next
  case (Cons p ps)
  show ?case
  proof (cases "p = (k, e)")
    case True
    have "\<exists>e1. put k e t k = Some e1"
      by (auto simp: put_same split: option.splits)
    then obtain e1 where e1: "put k e t k = Some e1" by blast
    from putAll_keeps [where t = "put k e t" and k = k and old = e1, OF e1, of ps] obtain e2
      where "putAll ps (put k e t) k = Some e2" and "\<not> better e1 e2" by blast
    with True better_neg_trans [OF put_not_worse [OF e1]] show ?thesis by auto
  next
    case False
    with Cons show ?thesis by (cases p) auto
  qed
qed

end

lemma entryBetter_order:
  "\<not> entryBetter e e"
  "entryBetter a b \<Longrightarrow> entryBetter b c \<Longrightarrow> entryBetter a c"
  "\<not> entryBetter a b \<Longrightarrow> \<not> entryBetter b c \<Longrightarrow> \<not> entryBetter a c"
  by (auto simp: entryBetter_def)

interpretation exact: keep_best entryBetter putExact
proof unfold_locales
  show "putExact k e t k = (case t k of None \<Rightarrow> Some e
          | Some old \<Rightarrow> if entryBetter e old then Some e else Some old)" for k e t
    by (simp add: putExact_def split: option.split)
  show "k' \<noteq> k \<Longrightarrow> putExact k e t k' = t k'" for k k' e t
    by (simp add: putExact_def split: option.split)
qed (fact entryBetter_order)+

interpretation shape: keep_best "\<lambda>a b. entryBetter (se_proof a) (se_proof b)" putShape
proof unfold_locales
  show "putShape k e t k = (case t k of None \<Rightarrow> Some e
          | Some old \<Rightarrow> if entryBetter (se_proof e) (se_proof old) then Some e else Some old)" for k e t
    by (simp add: putShape_def split: option.split)
  show "k' \<noteq> k \<Longrightarrow> putShape k e t k' = t k'" for k k' e t
    by (simp add: putShape_def split: option.split)
qed (fact entryBetter_order)+

text \<open>A probe with the stored bytes finds no difference; the count is the number of set flags.\<close>

lemma probe_count:
  assumes "length (k_ramBytes exact) = 63"
    and "\<And>e. t k = Some e \<Longrightarrow> length (se_ramBytes e) = 63"
  shows "unat (sp_ramDiffCount (probeClosedLossShape t k exact sm))
           = length (filter id (sp_ramDiffs (probeClosedLossShape t k exact sm)))"
    and "length (sp_ramDiffs (probeClosedLossShape t k exact sm)) = 63"
proof -
  have "length (filter P xs) mod 256 = length (filter P xs)" if "length xs \<le> 63"
    for P and xs :: "(u8 \<times> u8) list"
    using le_less_trans [OF le_trans [OF length_filter_le [of P xs] that], of 256] by simp
  with assms show "unat (sp_ramDiffCount (probeClosedLossShape t k exact sm))
           = length (filter id (sp_ramDiffs (probeClosedLossShape t k exact sm)))"
    by (auto simp: probeClosedLossShape_def no_probe_def Let_def unat_of_nat filter_map o_def
        split: option.splits)
  from assms show "length (sp_ramDiffs (probeClosedLossShape t k exact sm)) = 63"
    by (auto simp: probeClosedLossShape_def no_probe_def Let_def split: option.splits)
qed

end
