(* ===== verification/SmbAdapter.thy ===== *)
theory SmbAdapter
  imports SmbSearchCore
begin

text \<open>
  The game adapter that drives Super Mario Bros from power-on to gameplay and scores frames:
  the scripted start of NesSuperMarioBrosSetupPolicy.cpp, the special senses of
  NesSuperMarioBrosSpecialSenses.cpp, the tile position of NesSuperMarioBrosTilePosition.cpp and
  the adapter object of NesSuperMarioBrosGameAdapter.cpp. The palette clusterer, which the
  adapter only feeds and reads for sensory data, is left out, and so is the logging.
\<close>

section \<open>The setup script\<close>

definition kSetupFailureFrame :: u64 where "kSetupFailureFrame = 500"
definition kSetupScriptEndFrame :: u64 where "kSetupScriptEndFrame = 300"
definition kStartPressFirstFrame :: u64 where "kStartPressFirstFrame = 120"

record setup_decision =
  sd_controllerMask :: u8
  gameplayDetected :: bool
  pressedStart :: bool
  usingSetupScript :: bool
  frameIndex :: u64

definition scriptedSetupMaskForFrame :: "u64 \<Rightarrow> u8" where
  "scriptedSetupMaskForFrame i = (if i = kStartPressFirstFrame then Nes_ButtonStart else 0)"

definition resolveSetupDecision :: "u64 \<Rightarrow> u8 option \<Rightarrow> u8 \<Rightarrow> setup_decision" where
  "resolveSetupDecision i lastState inferred =
     (if value_or lastState 0 \<noteq> 1 then
        \<lparr>sd_controllerMask = scriptedSetupMaskForFrame i, gameplayDetected = False,
         pressedStart = (scriptedSetupMaskForFrame i = Nes_ButtonStart),
         usingSetupScript = True, frameIndex = i\<rparr>
      else
        \<lparr>sd_controllerMask = inferred, gameplayDetected = True, pressedStart = False,
         usingSetupScript = False, frameIndex = i\<rparr>)"

section \<open>Tile position\<close>

definition wrappedNametableDelta :: "u16 \<Rightarrow> u16 \<Rightarrow> int" where
  "wrappedNametableDelta value origin =
     (let d0 = uint (value AND 0x01FF) - uint (origin AND 0x01FF);
          d1 = (if d0 < - 256 then d0 + 512 else d0)
      in if d1 > 255 then d1 - 512 else d1)"

definition playerTileScreenX :: "smb_state \<Rightarrow> u16 \<Rightarrow> int" where
  "playerTileScreenX s scrollX = wrappedNametableDelta (absoluteX s) scrollX"

definition playerTileScreenY :: "smb_state \<Rightarrow> int" where
  "playerTileScreenY s = uint (playerYScreen s) - 8"

lemma and_low9: "(w :: u16) AND 0x01FF = take_bit 9 w"
  by (simp add: take_bit_eq_mask mask_eq_exp_minus_1)

lemma uint_low9: "uint ((w :: u16) AND 0x01FF) = uint w mod 512"
proof -
  have "uint (w AND 0x01FF) = take_bit 9 (uint w)"
    unfolding and_low9 by (simp only: unsigned_take_bit_eq)
  then show ?thesis by (simp add: take_bit_eq_mod)
qed

text \<open>
  The screen position of Mario is the one representative of his offset to the scroll position,
  modulo the 512 pixels of the two nametables, that lies in [-256, 255].
\<close>

theorem wrapped_nametable_delta:
  "wrappedNametableDelta v w \<in> {- 256..255} \<and>
   wrappedNametableDelta v w mod 512 = (uint v - uint w) mod 512"
proof -
  have "0 \<le> uint v mod 512" "uint v mod 512 < 512" "0 \<le> uint w mod 512" "uint w mod 512 < 512"
    by simp_all
  then have "- 256 \<le> wrappedNametableDelta v w" "wrappedNametableDelta v w \<le> 255"
    by (auto simp: wrappedNametableDelta_def uint_low9 Let_def)
  moreover have "(uint v mod 512 - uint w mod 512) mod 512 = (uint v - uint w) mod 512"
    by (simp add: mod_diff_eq)
  then have "wrappedNametableDelta v w mod 512 = (uint v - uint w) mod 512"
    by (auto simp: wrappedNametableDelta_def uint_low9 Let_def mod_simps)
  ultimately show ?thesis by simp
qed

section \<open>Special senses\<close>

definition normalizeSmb :: "real \<Rightarrow> real \<Rightarrow> real" where
  "normalizeSmb v maxValue = clamp (v / maxValue) 0 1"

definition normalizeSmbSigned :: "real \<Rightarrow> real \<Rightarrow> real" where
  "normalizeSmbSigned v maxMagnitude = clamp (v / maxMagnitude) (- 1) 1"

definition normalizePhase :: "u16 \<Rightarrow> u16 \<Rightarrow> real" where
  "normalizePhase v period = of_nat (unat (v mod period)) / of_nat (unat (period - 1))"

definition boolSense :: "bool \<Rightarrow> real" where
  "boolSense b = (if b then 1 else 0)"

text \<open>The assignments of the source as (index, value) pairs, in order.\<close>

definition senseAssignments :: "smb_state \<Rightarrow> (nat \<times> real) list" where
  "senseAssignments s =
     [(0, clamp ((of_nat (unat (world s)) * 4 + of_nat (unat (level s))) / 32) 0 1),
      (1, normalizeSmb (of_nat (unat (absoluteX s))) 4096),
      (2, horizontalSpeedNormalized s),
      (3, verticalSpeedNormalized s)]
     @ (if powerupState s = Powerup_Fire then [(4, 1)]
        else if powerupState s = Powerup_Big then [(4, 1 / 2)] else [])
     @ [(5, boolSense (airborne s)),
        (6, normalizeSmb (of_nat (unat (playerYScreen s))) 240),
        (7, normalizeSmb (of_nat (unat (lives s))) 9),
        (8, normalizeSmb (of_nat (unat (playerXScreen s))) 255),
        (9, normalizeSmbSigned (of_int (sint (nearestEnemyDx s))) 255),
        (10, normalizeSmbSigned (of_int (sint (nearestEnemyDy s))) 240),
        (11, normalizeSmbSigned (of_int (sint (secondNearestEnemyDx s))) 255),
        (12, normalizeSmbSigned (of_int (sint (secondNearestEnemyDy s))) 240),
        (13, boolSense (enemyPresent s)),
        (14, boolSense (secondEnemyPresent s)),
        (15, normalizeSmb (of_nat (unat (world s))) 7),
        (16, normalizeSmb (of_nat (unat (level s))) 3),
        (17, movementX s),
        (18, normalizePhase (absoluteX s) 8),
        (19, normalizePhase (ucast (playerYScreen s)) 8),
        (20, normalizePhase (absoluteX s) 16),
        (21, normalizePhase (ucast (playerYScreen s)) 16)]"

definition makeSpecialSenses :: "smb_state \<Rightarrow> real list" where
  "makeSpecialSenses s =
     fold (\<lambda>(i, v) senses. senses[i := v]) (senseAssignments s) (replicate 32 0)"

lemma normalizeSmb_unit: "\<bar>normalizeSmb v m\<bar> \<le> 1"
  by (simp add: normalizeSmb_def clamp_def abs_le_iff)

lemma normalizeSmbSigned_unit: "\<bar>normalizeSmbSigned v m\<bar> \<le> 1"
  by (simp add: normalizeSmbSigned_def abs_clamp_unit)

lemma normalizePhase_unit:
  assumes "1 < p" shows "\<bar>normalizePhase v p\<bar> \<le> 1"
proof -
  have p: "1 < unat p" using assms by (simp add: word_less_nat_alt)
  have "unat v mod unat p < unat p" using p by simp
  moreover have "unat (v mod p) = unat v mod unat p" by (rule unat_mod_distrib)
  moreover have "unat (p - 1) = unat p - 1" using p by (simp add: unat_sub word_le_nat_alt)
  ultimately have "unat (v mod p) \<le> unat (p - 1)" by (simp only:)
  moreover have "0 < unat (p - 1)" using p by (simp add: unat_sub word_le_nat_alt)
  ultimately have "real (unat (v mod p)) / real (unat (p - 1)) \<le> 1" by (simp add: divide_le_eq_1 del: of_nat_unat)
  moreover have "0 \<le> real (unat (v mod p)) / real (unat (p - 1))" by simp
  ultimately show ?thesis unfolding normalizePhase_def by (simp only: abs_of_nonneg)
qed

lemma senseAssignments_unit:
  assumes "\<bar>horizontalSpeedNormalized s\<bar> \<le> 1" "\<bar>verticalSpeedNormalized s\<bar> \<le> 1"
    "\<bar>movementX s\<bar> \<le> 1"
  shows "\<forall>(i, v) \<in> set (senseAssignments s). i < 32 \<and> \<bar>v\<bar> \<le> 1"
proof -
  have c: "\<bar>clamp v 0 1\<bar> \<le> 1" for v :: real by (simp add: clamp_def abs_le_iff)
  have b: "\<bar>boolSense x\<bar> \<le> 1" for x by (simp add: boolSense_def)
  have n8: "\<bar>normalizePhase v 8\<bar> \<le> 1" "\<bar>normalizePhase v 16\<bar> \<le> 1" for v
    by (rule normalizePhase_unit, simp)+
  show ?thesis
    unfolding senseAssignments_def
    using assms c b n8 normalizeSmb_unit normalizeSmbSigned_unit by simp
qed

lemma fold_update_invariant:
  assumes "\<forall>x \<in> set xs. P x" and "\<forall>(i, v) \<in> set us. P v"
  shows "\<forall>x \<in> set (fold (\<lambda>(i, v) xs. xs[i := v]) us xs). P x"
  using assms
proof (induction us arbitrary: xs)
  case Nil
  then show ?case by simp
next
  case (Cons u us)
  obtain i v where u: "u = (i, v)" by (cases u)
  with Cons.prems have "\<forall>x \<in> set (xs[i := v]). P x"
    by (auto dest: set_update_subset_insert [THEN subsetD])
  with Cons.IH [of "xs[i := v]"] Cons.prems u show ?case by simp
qed

lemma length_makeSpecialSenses [simp]: "length (makeSpecialSenses s) = 32"
proof -
  have "length (fold (\<lambda>(i, v) xs. xs[i := v]) us xs) = length xs"
    for us :: "(nat \<times> real) list" and xs :: "real list"
    by (induction us arbitrary: xs) auto
  then show ?thesis by (simp add: makeSpecialSenses_def)
qed

lemma specialSenses_unit:
  assumes "\<bar>horizontalSpeedNormalized s\<bar> \<le> 1" "\<bar>verticalSpeedNormalized s\<bar> \<le> 1"
    "\<bar>movementX s\<bar> \<le> 1"
  shows "\<forall>v \<in> set (makeSpecialSenses s). \<bar>v\<bar> \<le> 1"
  unfolding makeSpecialSenses_def
  by (rule fold_update_invariant) (use senseAssignments_unit [OF assms] in auto)

lemma extractState_speeds:
  "\<bar>horizontalSpeedNormalized (extractState snap b)\<bar> \<le> 1"
  "\<bar>verticalSpeedNormalized (extractState snap b)\<bar> \<le> 1"
  "\<bar>movementX (extractState snap b)\<bar> \<le> 1"
  by (simp_all add: extractState_def Let_def speed_bounds decodeFacingX_def split: prod.split)

text \<open>
  Whatever the RAM holds, the network is fed exactly 32 senses, each in [-1, 1].
\<close>

theorem special_senses_bounded:
  "length (makeSpecialSenses (extractState snap b)) = 32 \<and>
   set (makeSpecialSenses (extractState snap b)) \<subseteq> {- 1..1}"
  using specialSenses_unit [OF extractState_speeds, of snap b] by (auto simp: abs_le_iff)

section \<open>The adapter object\<close>

record smb_adapter =
  ad_evaluator :: evaluator
  advancedFrameCount :: u64
  cachedSpecialSenses :: "real list"
  cachedFacingX :: real
  cachedSelfViewX :: real
  cachedSelfViewY :: real
  cachedTileGameplayState :: "smb_state option"
  cachedTilePlayerScreenX :: int
  cachedTilePlayerScreenY :: int
  setupFailureLogged :: bool

record debug_state =
  ds_advancedFrameCount :: u64
  ds_level :: u8
  ds_lifeState :: smb_life_state
  ds_lives :: u8
  ds_phase :: smb_phase
  ds_playerXScreen :: u8
  ds_playerYScreen :: u8
  ds_powerupState :: u8
  ds_world :: u8
  ds_absoluteX :: u16
  ds_setupFailure :: bool
  ds_setupScriptActive :: bool

record frame_output =
  fo_done :: bool
  fo_debugState :: "debug_state option"
  fo_fitness :: fitness_details
  fo_rewardDelta :: real
  fo_gameState :: "u8 option"

definition kDefaultTileX :: int where "kDefaultTileX = 128"
definition kDefaultTileY :: int where "kDefaultTileY = 120 - 8"

definition normalizeViewCoordinate :: "real \<Rightarrow> real \<Rightarrow> real" where
  "normalizeViewCoordinate v extent = (if extent \<le> 0 then 1 / 2 else clamp (v / extent) 0 1)"

text \<open>\<open>reset\<close> does not touch the two cached view coordinates.\<close>

definition adapterReset :: "smb_adapter \<Rightarrow> smb_adapter" where
  "adapterReset ad =
     ad\<lparr>advancedFrameCount := 0, cachedFacingX := 0, ad_evaluator := resetEvaluator,
        cachedSpecialSenses := replicate 32 0, cachedTileGameplayState := None,
        cachedTilePlayerScreenX := kDefaultTileX, cachedTilePlayerScreenY := kDefaultTileY,
        setupFailureLogged := False\<rparr>"

definition newAdapter :: smb_adapter where
  "newAdapter =
     \<lparr>ad_evaluator = resetEvaluator, advancedFrameCount = 0,
      cachedSpecialSenses = replicate 32 0, cachedFacingX = 0, cachedSelfViewX = 1 / 2,
      cachedSelfViewY = 1 / 2, cachedTileGameplayState = None,
      cachedTilePlayerScreenX = kDefaultTileX, cachedTilePlayerScreenY = kDefaultTileY,
      setupFailureLogged = False\<rparr>"

definition resolveControllerMask :: "smb_adapter \<Rightarrow> u8 \<Rightarrow> u8 option \<Rightarrow> controller_output" where
  "resolveControllerMask ad inferred lastState =
     (let d = resolveSetupDecision (advancedFrameCount ad) lastState inferred
      in \<lparr>resolvedControllerMask = sd_controllerMask d,
          co_source = (if usingSetupScript d then Source_ScriptedSetup else Source_InferredPolicy),
          sourceFrameIndex = (if usingSetupScript d then Some (frameIndex d) else None)\<rparr>)"

definition clearCaches :: "u64 \<Rightarrow> smb_adapter \<Rightarrow> smb_adapter" where
  "clearCaches adv ad =
     ad\<lparr>advancedFrameCount := advancedFrameCount ad + adv,
        cachedFacingX := 0, cachedSpecialSenses := replicate 32 0,
        cachedSelfViewX := 1 / 2, cachedSelfViewY := 1 / 2,
        cachedTileGameplayState := None,
        cachedTilePlayerScreenX := kDefaultTileX, cachedTilePlayerScreenY := kDefaultTileY\<rparr>"

definition cacheGameplay :: "smb_state \<Rightarrow> smb_adapter \<Rightarrow> smb_adapter" where
  "cacheGameplay s ad =
     ad\<lparr>cachedFacingX := facingX s,
        cachedSpecialSenses := makeSpecialSenses s,
        cachedSelfViewX := normalizeViewCoordinate (of_nat (unat (playerXScreen s))) 256,
        cachedSelfViewY := normalizeViewCoordinate (of_nat (unat (playerYScreen s))) 240,
        cachedTileGameplayState := Some s,
        cachedTilePlayerScreenX := uint (playerXScreen s),
        cachedTilePlayerScreenY := playerTileScreenY s\<rparr>"

definition empty_frame_output :: frame_output where
  "empty_frame_output =
     \<lparr>fo_done = False, fo_debugState = None, fo_fitness = NoFitness, fo_rewardDelta = 0,
      fo_gameState = None\<rparr>"

definition debugState :: "u64 \<Rightarrow> smb_state \<Rightarrow> debug_state" where
  "debugState frames s =
     \<lparr>ds_advancedFrameCount = frames, ds_level = level s, ds_lifeState = lifeState s,
      ds_lives = lives s, ds_phase = phase s, ds_playerXScreen = playerXScreen s,
      ds_playerYScreen = playerYScreen s, ds_powerupState = powerup_value (powerupState s),
      ds_world = world s, ds_absoluteX = absoluteX s,
      ds_setupFailure = (phase s \<noteq> Phase_Gameplay \<and> frames \<ge> kSetupFailureFrame),
      ds_setupScriptActive = (phase s \<noteq> Phase_Gameplay)\<rparr>"

definition gameStateOfPhase :: "smb_phase \<Rightarrow> u8 option" where
  "gameStateOfPhase p = (if p = Phase_Gameplay then Some 1 else Some 0)"

definition evaluateFrame ::
  "smb_adapter \<Rightarrow> u64 \<Rightarrow> memory_snapshot option \<Rightarrow> smb_adapter \<times> frame_output" where
  "evaluateFrame ad adv memory =
     (let ad1 = clearCaches adv ad in
      case memory of
        None \<Rightarrow> (ad1, empty_frame_output)
      | Some snap \<Rightarrow>
          let s = extractState snap (advancedFrameCount ad1 \<ge> kSetupScriptEndFrame);
              out = empty_frame_output
                \<lparr>fo_gameState := gameStateOfPhase (phase s),
                 fo_debugState := Some (debugState (advancedFrameCount ad1) s)\<rparr>
          in if phase s \<noteq> Phase_Gameplay \<and> advancedFrameCount ad1 \<ge> kSetupFailureFrame
             then (ad1\<lparr>setupFailureLogged := True\<rparr>, out\<lparr>fo_done := True\<rparr>)
             else
               let ad2 = (if phase s = Phase_Gameplay then cacheGameplay s ad1 else ad1)
               in case evaluate (ad_evaluator ad2) adv s of (ev, eo) \<Rightarrow>
                  (ad2\<lparr>ad_evaluator := ev\<rparr>,
                   out\<lparr>fo_done := eo_done eo, fo_fitness := SmbFitness (snapshot eo),
                       fo_rewardDelta := rewardDelta eo\<rparr>))"

text \<open>Before gameplay is seen the policy never reaches the controller; afterwards it does.\<close>

lemma resolveControllerMask_setup:
  "value_or lastState 0 \<noteq> 1 \<Longrightarrow>
   resolvedControllerMask (resolveControllerMask ad inferred lastState)
     = scriptedSetupMaskForFrame (advancedFrameCount ad)
   \<and> co_source (resolveControllerMask ad inferred lastState) = Source_ScriptedSetup"
  by (simp add: resolveControllerMask_def resolveSetupDecision_def)

lemma resolveControllerMask_gameplay:
  "value_or lastState 0 = 1 \<Longrightarrow>
   resolvedControllerMask (resolveControllerMask ad inferred lastState) = inferred
   \<and> co_source (resolveControllerMask ad inferred lastState) = Source_InferredPolicy"
  by (simp add: resolveControllerMask_def resolveSetupDecision_def)

end
