(* ===== verification/DfsSearch.thy ===== *)
theory DfsSearch
  imports NesDriver ClosedLoss SmbAdapter
begin

text \<open>
  The depth-first search object of server/search/SmbDfsSearch.cpp. The record \<open>dfs_search\<close>
  holds the members of the class; \<open>dfsStack\<close> has the back of the vector at its head. Vectors are
  lists, and an index into one is in range in every state the search reaches (DfsInvariant).
  An operation that rebuilds the plan returns an option: \<open>None\<close> says that the parent walk of
  \<open>reconstructPlanFrames\<close> does not return, which DfsInvariant rules out.
\<close>

section \<open>Data\<close>

datatype completion_reason = CR_Completed | CR_Stopped | CR_Error

datatype trace_event =
  TE_Backtracked | TE_CompletedBudgetExceeded | TE_CompletedExhausted
| TE_CompletedMilestoneReached | TE_Error | TE_ExpandedAlive | TE_PrunedDead
| TE_PrunedStalled | TE_PrunedVelocityStuck | TE_RootInitialized | TE_Stopped
| TE_PrunedBelowScreen | TE_PrunedTransposition | TE_PrunedNonGameplay

datatype block_reason =
  Block_None | Block_FreshProgress | Block_NonGameplay | Block_ChildNotClosedLoss

datatype node_outcome = Outcome_Open | Outcome_ClosedLoss | Outcome_NotClosedLoss

record trace_entry =
  te_eventType :: trace_event
  te_nodeIndex :: nat
  te_parentIndex :: "nat option"
  te_action :: "smb_action option"
  te_gameplayFrame :: u64
  te_frontier :: u64
  te_evaluationScore :: real
  te_framesSinceProgress :: u64
  te_groundedPriority :: bool
  te_closedLossCandidate :: bool
  te_closedLossProven :: bool
  te_approxPruned :: bool
  te_approxRamDiffCount :: u8
  te_approxRamDiffs :: "bool list"
  te_blockReason :: block_reason

text \<open>A \<open>SmbDfsSearchTraceEntry\<close> with the default member values.\<close>

definition traceEntry :: "trace_event \<Rightarrow> trace_entry" where
  "traceEntry ev =
     \<lparr>te_eventType = ev, te_nodeIndex = 0, te_parentIndex = None, te_action = None,
      te_gameplayFrame = 0, te_frontier = 0, te_evaluationScore = 0, te_framesSinceProgress = 0,
      te_groundedPriority = False, te_closedLossCandidate = False, te_closedLossProven = False,
      te_approxPruned = False, te_approxRamDiffCount = 0,
      te_approxRamDiffs = replicate 63 False, te_blockReason = Block_None\<rparr>"

record dfs_frame =
  df_node :: nat
  df_next :: nat
  df_ordering :: action_ordering
  df_candidate :: bool
  df_blockReason :: block_reason

record 'd dfs_search =
  options :: search_options
  driver :: "'d option"
  worldData :: world_data
  scenarioVideoFrame :: "video_frame option"
  plan :: search_plan
  progress :: search_progress
  rootPrefixFrames :: "player_control_frame list"
  nodes :: "search_node list"
  dfsStack :: "dfs_frame list"
  nodeOutcomes :: "node_outcome list"
  blockReasons :: "block_reason list"
  lossKeys :: "exact_key option list"
  exactTable :: exact_table
  shapeTable :: shape_table
  trace :: "trace_entry list"
  bestLeafIndex :: "nat option"
  bestFrontier :: u64
  bestScore :: real
  completed :: bool
  paused :: bool
  completionReason :: "completion_reason option"
  completionErrorMessage :: "string option"

record tick_result =
  tr_completed :: bool
  tr_frameAdvanced :: bool
  tr_renderChanged :: bool
  tr_error :: "string option"

definition idle_tick :: tick_result where
  "idle_tick = \<lparr>tr_completed = False, tr_frameAdvanced = False, tr_renderChanged = False,
                tr_error = None\<rparr>"

fun toSearchProgressEvent :: "trace_event \<Rightarrow> progress_event" where
  "toSearchProgressEvent TE_Backtracked = PE_Backtracked"
| "toSearchProgressEvent TE_CompletedBudgetExceeded = PE_CompletedBudgetExceeded"
| "toSearchProgressEvent TE_CompletedExhausted = PE_CompletedExhausted"
| "toSearchProgressEvent TE_CompletedMilestoneReached = PE_CompletedMilestoneReached"
| "toSearchProgressEvent TE_Error = PE_Error"
| "toSearchProgressEvent TE_ExpandedAlive = PE_ExpandedAlive"
| "toSearchProgressEvent TE_PrunedDead = PE_PrunedDead"
| "toSearchProgressEvent TE_PrunedStalled = PE_PrunedStalled"
| "toSearchProgressEvent TE_PrunedVelocityStuck = PE_PrunedVelocityStuck"
| "toSearchProgressEvent TE_PrunedBelowScreen = PE_PrunedBelowScreen"
| "toSearchProgressEvent TE_PrunedTransposition = PE_PrunedTransposition"
| "toSearchProgressEvent TE_PrunedNonGameplay = PE_PrunedNonGameplay"
| "toSearchProgressEvent TE_RootInitialized = PE_RootInitialized"
| "toSearchProgressEvent TE_Stopped = PE_Stopped"

definition newSearch :: "search_options \<Rightarrow> 'd dfs_search" where
  "newSearch opts =
     \<lparr>options = opts, driver = None, worldData = empty_world_data, scenarioVideoFrame = None,
      plan = empty_plan, progress = empty_progress, rootPrefixFrames = [], nodes = [],
      dfsStack = [], nodeOutcomes = [], blockReasons = [], lossKeys = [],
      exactTable = Map.empty, shapeTable = Map.empty, trace = [], bestLeafIndex = None,
      bestFrontier = 0, bestScore = 0, completed = False, paused = False,
      completionReason = None, completionErrorMessage = None\<rparr>"

section \<open>Bookkeeping operations\<close>

definition recordTrace :: "trace_entry \<Rightarrow> 'd dfs_search \<Rightarrow> 'd dfs_search" where
  "recordTrace e s = s\<lparr>trace := trace s @ [e]\<rparr>"

definition setEvent :: "progress_event \<Rightarrow> 'd dfs_search \<Rightarrow> 'd dfs_search" where
  "setEvent e s = s\<lparr>progress := (progress s)\<lparr>pg_lastSearchEvent := e\<rparr>\<rparr>"

definition setProgressPaused :: "bool \<Rightarrow> 'd dfs_search \<Rightarrow> 'd dfs_search" where
  "setProgressPaused b s = s\<lparr>progress := (progress s)\<lparr>pg_paused := b\<rparr>\<rparr>"

definition isClosedLossCandidate :: "'d dfs_search \<Rightarrow> nat \<Rightarrow> bool" where
  "isClosedLossCandidate s i = (i < length (nodes s))"

definition getInitialClosedLossBlockReason :: "'d dfs_search \<Rightarrow> nat \<Rightarrow> block_reason" where
  "getInitialClosedLossBlockReason s i =
     (if isClosedLossCandidate s i then Block_None else Block_FreshProgress)"

definition noteChildOutcome :: "node_outcome \<Rightarrow> block_reason \<Rightarrow> dfs_frame \<Rightarrow> dfs_frame" where
  "noteChildOutcome childOutcome childReason f =
     (if childOutcome = Outcome_ClosedLoss then f
      else
        let f1 = f\<lparr>df_candidate := False\<rparr>
        in if df_blockReason f1 \<noteq> Block_None then f1
           else f1\<lparr>df_blockReason :=
                 (if childReason = Block_NonGameplay then Block_NonGameplay
                  else Block_ChildNotClosedLoss)\<rparr>)"

definition publishClosedLossEntry :: "nat \<Rightarrow> 'd dfs_search \<Rightarrow> 'd dfs_search" where
  "publishClosedLossEntry i s =
     (if i \<ge> length (nodes s) \<or> i \<ge> length (lossKeys s) \<or> i \<ge> length (nodeOutcomes s) then s
      else if nodeOutcomes s ! i \<noteq> Outcome_ClosedLoss then s
      else case lossKeys s ! i of
          None \<Rightarrow> s
        | Some key \<Rightarrow>
            let e = entryOfSummary (sn_summary (nodes s ! i))
            in s\<lparr>exactTable := putExact key e (exactTable s),
                 shapeTable := putShape (buildShapeKey key)
                   \<lparr>se_proof = e, se_ramBytes = k_ramBytes key\<rparr> (shapeTable s)\<rparr>)"

definition releaseNodeHeavyData :: "nat \<Rightarrow> 'd dfs_search \<Rightarrow> 'd dfs_search" where
  "releaseNodeHeavyData i s =
     (if i \<ge> length (nodes s) then s
      else let n = nodes s ! i
           in s\<lparr>nodes := (nodes s)[i := n\<lparr>sn_savestate := (sn_savestate n)\<lparr>ss_bytes := []\<rparr>,
                                          sn_memory := empty_snapshot, sn_video := None\<rparr>]\<rparr>)"

definition updateRenderableState :: "search_node \<Rightarrow> 'd dfs_search \<Rightarrow> 'd dfs_search" where
  "updateRenderableState n s =
     (let s1 = s\<lparr>scenarioVideoFrame := sn_video n,
                 progress := (progress s)\<lparr>pg_currentGameplayFrame := sn_gameplayFrame n\<rparr>,
                 worldData := (worldData s)\<lparr>wd_timestep := ucast (sn_gameplayFrame n)\<rparr>\<rparr>
      in case sn_video n of
          None \<Rightarrow> s1
        | Some v \<Rightarrow> s1\<lparr>worldData := (worldData s1)\<lparr>wd_width := vf_width v,
                                                    wd_height := vf_height v\<rparr>\<rparr>)"

text \<open>The two branches of \<open>rebuildBestPlan\<close> that drop the plan.\<close>

definition clearPlan :: "'d dfs_search \<Rightarrow> 'd dfs_search" where
  "clearPlan s = s\<lparr>plan := (plan s)\<lparr>pl_frames := [],
       pl_bestFrontier := pg_bestFrontier (progress s), pl_elapsedFrames := 0\<rparr>\<rparr>"

definition rebuildBestPlan :: "'d dfs_search \<Rightarrow> 'd dfs_search option" where
  "rebuildBestPlan s =
     (case bestLeafIndex s of
        None \<Rightarrow> Some (clearPlan s)
      | Some leaf \<Rightarrow> do {
          r \<leftarrow> reconstructPlanFrames (nodes s) leaf;
          case r of
            Inl _ \<Rightarrow> Some (clearPlan s)
          | Inr frames \<Rightarrow>
              let all = rootPrefixFrames s @ frames
              in Some (s\<lparr>plan := (plan s)\<lparr>pl_frames := all, pl_bestFrontier := bestFrontier s,
                                           pl_elapsedFrames := of_nat (length all)\<rparr>\<rparr>)
        })"

text \<open>The trace entry of the three completion paths that point at the best leaf.\<close>

definition bestLeafEntry :: "trace_event \<Rightarrow> 'd dfs_search \<Rightarrow> trace_entry" where
  "bestLeafEntry ev s =
     (let i = value_or (bestLeafIndex s) 0;
          inRange = i < length (nodes s)
      in (traceEntry ev)
         \<lparr>te_nodeIndex := i,
          te_parentIndex := (if inRange then sn_parent (nodes s ! i) else None),
          te_action := (if inRange then sn_action (nodes s ! i) else None),
          te_gameplayFrame := (if inRange then sn_gameplayFrame (nodes s ! i) else 0),
          te_frontier := bestFrontier s,
          te_evaluationScore := bestScore s,
          te_framesSinceProgress :=
            (if inRange then sm_framesSinceProgress (sn_summary (nodes s ! i)) else 0)\<rparr>)"

definition completeWithError :: "string \<Rightarrow> 'd dfs_search \<Rightarrow> 'd dfs_search option" where
  "completeWithError msg s0 = do {
     s \<leftarrow> rebuildBestPlan s0;
     let s1 = setEvent PE_Error (setProgressPaused False (s\<lparr>completed := True, paused := False\<rparr>));
     let s2 = s1\<lparr>completionReason := Some CR_Error, completionErrorMessage := Some msg\<rparr>;
     Some (recordTrace (bestLeafEntry TE_Error s2) s2)
   }"

definition completeWithTraceEvent :: "trace_event \<Rightarrow> 'd dfs_search \<Rightarrow> 'd dfs_search option" where
  "completeWithTraceEvent ev s0 = do {
     s \<leftarrow> rebuildBestPlan s0;
     let s1 = setEvent (toSearchProgressEvent ev)
                (setProgressPaused False (s\<lparr>completed := True, paused := False\<rparr>));
     let s2 = s1\<lparr>completionReason := Some CR_Completed, completionErrorMessage := None\<rparr>;
     Some (recordTrace (bestLeafEntry ev s2) s2)
   }"

definition updateBestLeaf :: "nat \<Rightarrow> 'd dfs_search \<Rightarrow> 'd dfs_search option" where
  "updateBestLeaf i s =
     (if i \<ge> length (nodes s) then Some s
      else
        let sm = sn_summary (nodes s ! i)
        in if bestLeafIndex s = None \<or> sm_bestFrontier sm > bestFrontier s
              \<or> (sm_bestFrontier sm = bestFrontier s \<and> sm_evaluationScore sm > bestScore s)
           then rebuildBestPlan
                  (s\<lparr>bestLeafIndex := Some i, bestFrontier := sm_bestFrontier sm,
                     bestScore := sm_evaluationScore sm,
                     progress := (progress s)\<lparr>pg_bestFrontier := sm_bestFrontier sm\<rparr>\<rparr>)
           else Some s)"

section \<open>Expanding one action\<close>

text \<open>What running one action on the emulator yields for the child node.\<close>

record expansion =
  ex_state :: smb_state
  ex_summary :: evaluator_summary
  ex_savestate :: savestate
  ex_memory :: memory_snapshot
  ex_video :: "video_frame option"

text \<open>The evaluator that continues from the parent's summary.\<close>

definition evaluatorFromSummary :: "evaluator_summary \<Rightarrow> evaluator" where
  "evaluatorFromSummary sm =
     (if value_or (sm_gameState sm) 0 = 1
      then restoreProgress (decodeSmbStageIndex (sm_bestFrontier sm))
             (decodeSmbAbsoluteX (sm_bestFrontier sm)) (sm_distanceRewardTotal sm)
             (sm_levelClearRewardTotal sm) (sm_gameplayFrames sm) (sm_framesSinceProgress sm)
      else resetEvaluator)"

text \<open>Loading the parent, stepping the driver and scoring the frame, with each error return.\<close>

definition runExpansion ::
  "'d nes_env \<Rightarrow> 'd \<Rightarrow> search_node \<Rightarrow> smb_action \<Rightarrow> expansion result \<times> 'd" where
  "runExpansion env d parent action =
     (case env_load env d (sn_savestate parent) of (loaded, d1) \<Rightarrow>
      if \<not> loaded then
        (error (errorOr (env_lastError env d1) ''Failed to load SMB DFS parent savestate''), d1)
      else
        case env_step env d1 (playerControlFrameToNesMask (actionToFrame action)) of (sr, d2) \<Rightarrow>
        if \<not> sr_runtimeHealthy sr \<or> \<not> sr_runtimeRunning sr then
          (error (errorOr (sr_lastError sr) ''NES runtime stopped during DFS expansion''), d2)
        else if sr_advancedFrames sr = 0 then
          (error ''DFS expansion did not advance the NES runtime'', d2)
        else case sr_memorySnapshot sr of
            None \<Rightarrow> (error ''DFS expansion did not provide an NES memory snapshot'', d2)
          | Some memory \<Rightarrow>
              let state = extractState memory True;
                  eo = snd (evaluate (evaluatorFromSummary (sn_summary parent))
                              (sr_advancedFrames sr) state);
                  summary = buildSmbSearchEvaluatorSummary (SmbFitness (snapshot eo))
                              (gameStateOfPhase (phase state))
              in case env_savestate env d2 of
                  None \<Rightarrow> (error ''Failed to capture SMB DFS child savestate'', d2)
                | Some save \<Rightarrow>
                    (okay \<lparr>ex_state = state, ex_summary = summary, ex_savestate = save,
                           ex_memory = memory,
                           ex_video = (case sr_scenarioVideoFrame sr of None \<Rightarrow> env_frame env d2
                                       | Some v \<Rightarrow> Some v)\<rparr>, d2))"

text \<open>The flags that decide a child's fate.\<close>

definition exBelowScreen :: "expansion \<Rightarrow> bool" where
  "exBelowScreen e = (sm_endReason (ex_summary e) = End_FellBelowScreen)"

definition exTerminalLoss :: "expansion \<Rightarrow> bool" where
  "exTerminalLoss e = (sm_terminal (ex_summary e) \<and> \<not> exBelowScreen e)"

definition exNonGameplay :: "expansion \<Rightarrow> bool" where
  "exNonGameplay e =
     (\<not> sm_terminal (ex_summary e) \<and> gameMode (ex_state e) \<noteq> GameMode_Normal)"

definition exKey :: "search_options \<Rightarrow> expansion \<Rightarrow> exact_key option" where
  "exKey opts e = buildClosedLossKey opts (ex_state e) (ex_memory e)"

definition exPrunedTransposition :: "'d dfs_search \<Rightarrow> expansion \<Rightarrow> bool" where
  "exPrunedTransposition s e =
     (\<not> sm_terminal (ex_summary e) \<and> \<not> exNonGameplay e
      \<and> (case exKey (options s) e of None \<Rightarrow> False
         | Some k \<Rightarrow> isClosedLossTranspositionPruned (exactTable s) k (ex_summary e)))"

definition exShapeProbe :: "'d dfs_search \<Rightarrow> expansion \<Rightarrow> shape_probe" where
  "exShapeProbe s e =
     (if \<not> sm_terminal (ex_summary e) \<and> \<not> exNonGameplay e
      then (case exKey (options s) e of None \<Rightarrow> no_probe
            | Some k \<Rightarrow> probeClosedLossShape (shapeTable s) (buildShapeKey k) k (ex_summary e))
      else no_probe)"

definition kVelocityPruneEpsilon :: real where "kVelocityPruneEpsilon = 5 / 100"
definition kVelocityPruneThreshold :: u8 where "kVelocityPruneThreshold = 2"

definition exVelocityStuckCandidate :: "search_options \<Rightarrow> search_node \<Rightarrow> expansion \<Rightarrow> bool" where
  "exVelocityStuckCandidate opts parent e =
     (velocityPruningEnabled opts
      \<and> \<not> sm_terminal (ex_summary e) \<and> \<not> exNonGameplay e
      \<and> absoluteX (ex_state e) = decodeSmbAbsoluteX (sn_currentFrontier parent)
      \<and> \<not> airborne (ex_state e)
      \<and> playerYScreen (ex_state e) \<ge> sn_playerYScreen parent
      \<and> \<bar>horizontalSpeedNormalized (ex_state e)\<bar> \<le> kVelocityPruneEpsilon
      \<and> sm_framesSinceProgress (ex_summary e) > 0)"

text \<open>\<open>min(parent + 1, 255)\<close> computed in 16 bits and narrowed to a byte.\<close>

definition exVelocityStuckCount :: "search_options \<Rightarrow> search_node \<Rightarrow> expansion \<Rightarrow> u8" where
  "exVelocityStuckCount opts parent e =
     (if exVelocityStuckCandidate opts parent e
      then ucast (min (ucast (sn_velocityStuck parent) + 1 :: u16) 255)
      else 0)"

definition exVelocityStuck :: "search_options \<Rightarrow> search_node \<Rightarrow> expansion \<Rightarrow> bool" where
  "exVelocityStuck opts parent e = (exVelocityStuckCount opts parent e \<ge> kVelocityPruneThreshold)"

definition exStalled :: "search_options \<Rightarrow> expansion \<Rightarrow> bool" where
  "exStalled opts e =
     (\<not> sm_terminal (ex_summary e) \<and> \<not> exNonGameplay e
      \<and> sm_framesSinceProgress (ex_summary e) \<ge> ucast (stallFrameLimit opts))"

definition exTraceEvent :: "'d dfs_search \<Rightarrow> search_node \<Rightarrow> expansion \<Rightarrow> trace_event" where
  "exTraceEvent s parent e =
     (if exBelowScreen e then TE_PrunedBelowScreen
      else if exTerminalLoss e then TE_PrunedDead
      else if exPrunedTransposition s e then TE_PrunedTransposition
      else if exNonGameplay e then TE_PrunedNonGameplay
      else if exVelocityStuck (options s) parent e then TE_PrunedVelocityStuck
      else if exStalled (options s) e then TE_PrunedStalled
      else TE_ExpandedAlive)"

text \<open>The condition under which the child is pushed; the source states it separately.\<close>

definition exPushed :: "'d dfs_search \<Rightarrow> search_node \<Rightarrow> expansion \<Rightarrow> bool" where
  "exPushed s parent e =
     (\<not> sm_terminal (ex_summary e) \<and> \<not> exPrunedTransposition s e \<and> \<not> exNonGameplay e
      \<and> \<not> exVelocityStuck (options s) parent e \<and> \<not> exStalled (options s) e)"

definition childNode ::
  "search_options \<Rightarrow> nat \<Rightarrow> search_node \<Rightarrow> smb_action \<Rightarrow> expansion \<Rightarrow> search_node" where
  "childNode opts parentIndex parent action e =
     \<lparr>sn_savestate = ex_savestate e, sn_memory = ex_memory e, sn_video = ex_video e,
      sn_summary = ex_summary e, sn_parent = Some parentIndex, sn_action = Some action,
      sn_currentFrontier = encodeCurrentFrontier (ex_state e),
      sn_gameplayFrame = sm_gameplayFrames (ex_summary e),
      sn_playerYScreen = playerYScreen (ex_state e),
      sn_velocityStuck = exVelocityStuckCount opts parent e\<rparr>"

text \<open>
  Appending the child to the node vectors and counting it. The source sets the child's stuck
  count after \<open>updateRenderableState\<close>, which does not read it.
\<close>

definition appendChild ::
  "search_node \<Rightarrow> exact_key option \<Rightarrow> bool \<Rightarrow> 'd dfs_search \<Rightarrow> 'd dfs_search" where
  "appendChild n key priority s =
     updateRenderableState n
       (s\<lparr>nodes := nodes s @ [n], lossKeys := lossKeys s @ [key],
          nodeOutcomes := nodeOutcomes s @ [Outcome_Open],
          blockReasons := blockReasons s @ [Block_None],
          progress := (progress s)
            \<lparr>pg_searchedNodeCount := pg_searchedNodeCount (progress s) + 1,
             pg_groundedPriorityCount :=
               (if priority then pg_groundedPriorityCount (progress s) + 1
                else pg_groundedPriorityCount (progress s))\<rparr>\<rparr>)"

definition childOutcomeOf :: "trace_event \<Rightarrow> expansion \<Rightarrow> node_outcome" where
  "childOutcomeOf ev e =
     (if ev = TE_ExpandedAlive then Outcome_Open
      else if exNonGameplay e then Outcome_NotClosedLoss else Outcome_ClosedLoss)"

definition childBlockReasonOf :: "trace_event \<Rightarrow> expansion \<Rightarrow> block_reason \<Rightarrow> block_reason" where
  "childBlockReasonOf ev e initial =
     (if ev = TE_ExpandedAlive then initial
      else if exNonGameplay e then Block_NonGameplay else Block_None)"

definition expansionEntry ::
  "trace_event \<Rightarrow> nat \<Rightarrow> nat \<Rightarrow> smb_action \<Rightarrow> expansion \<Rightarrow> bool \<Rightarrow> bool \<Rightarrow> node_outcome
   \<Rightarrow> block_reason \<Rightarrow> shape_probe \<Rightarrow> trace_entry" where
  "expansionEntry ev child parentIndex action e priority candidate outcome reason probe =
     (traceEntry ev)
       \<lparr>te_nodeIndex := child, te_parentIndex := Some parentIndex, te_action := Some action,
        te_gameplayFrame := sm_gameplayFrames (ex_summary e),
        te_frontier := sm_bestFrontier (ex_summary e),
        te_evaluationScore := sm_evaluationScore (ex_summary e),
        te_framesSinceProgress := sm_framesSinceProgress (ex_summary e),
        te_groundedPriority := priority,
        te_closedLossCandidate :=
          (if ev = TE_ExpandedAlive then candidate else outcome = Outcome_ClosedLoss),
        te_closedLossProven := (outcome = Outcome_ClosedLoss),
        te_approxPruned := sp_pruned probe,
        te_approxRamDiffCount := sp_ramDiffCount probe,
        te_approxRamDiffs := sp_ramDiffs probe,
        te_blockReason := reason\<rparr>"

text \<open>The alive branch: best leaf, then a new frame on the stack.\<close>

definition pushChild ::
  "nat \<Rightarrow> smb_action \<Rightarrow> expansion \<Rightarrow> bool \<Rightarrow> block_reason \<Rightarrow> 'd dfs_search \<Rightarrow> 'd dfs_search option" where
  "pushChild child action e candidate reason s = do {
     s1 \<leftarrow> updateBestLeaf child s;
     Some (s1\<lparr>dfsStack :=
       \<lparr>df_node = child, df_next = 0,
        df_ordering = buildDfsActionOrder (airborne (ex_state e))
          (verticalSpeedNormalized (ex_state e)) (getHorizontalDirection (ex_state e))
          (Some action) (groundedVerticalJumpPrioritizationEnabled (options s1)),
        df_candidate = candidate, df_blockReason = reason\<rparr> # dfsStack s1\<rparr>)
   }"

text \<open>The pruned branch: the outcome is known at once and the parent's frame takes note.\<close>

definition noteOnTop :: "node_outcome \<Rightarrow> block_reason \<Rightarrow> 'd dfs_search \<Rightarrow> 'd dfs_search" where
  "noteOnTop outcome reason s =
     (case dfsStack s of [] \<Rightarrow> s
      | f # fs \<Rightarrow> s\<lparr>dfsStack := noteChildOutcome outcome reason f # fs\<rparr>)"

definition setOutcome :: "nat \<Rightarrow> node_outcome \<Rightarrow> block_reason \<Rightarrow> 'd dfs_search \<Rightarrow> 'd dfs_search" where
  "setOutcome i outcome reason s =
     s\<lparr>nodeOutcomes := (nodeOutcomes s)[i := outcome], blockReasons := (blockReasons s)[i := reason]\<rparr>"

definition pruneChild :: "nat \<Rightarrow> node_outcome \<Rightarrow> block_reason \<Rightarrow> 'd dfs_search \<Rightarrow> 'd dfs_search" where
  "pruneChild child outcome reason s =
     (let s1 = noteOnTop outcome reason (setOutcome child outcome reason s);
          s2 = (if outcome = Outcome_ClosedLoss then publishClosedLossEntry child s1 else s1)
      in releaseNodeHeavyData child s2)"

definition advanced_tick :: "bool \<Rightarrow> tick_result" where
  "advanced_tick c = \<lparr>tr_completed = c, tr_frameAdvanced = True, tr_renderChanged = True,
                      tr_error = None\<rparr>"

definition finishExpansion :: "'d dfs_search \<Rightarrow> ('d dfs_search \<times> tick_result) option" where
  "finishExpansion s =
     (case stopAfterBestFrontier (options s) of
        Some f \<Rightarrow>
          if bestFrontier s \<ge> f
          then do { s1 \<leftarrow> completeWithTraceEvent TE_CompletedMilestoneReached s;
                    Some (s1, advanced_tick True) }
          else Some (s, advanced_tick (completed s))
      | None \<Rightarrow> Some (s, advanced_tick (completed s)))"

definition commitExpansion ::
  "nat \<Rightarrow> smb_action \<Rightarrow> bool \<Rightarrow> expansion \<Rightarrow> 'd dfs_search \<Rightarrow> ('d dfs_search \<times> tick_result) option" where
  "commitExpansion parentIndex action priority e s =
     (let parent = nodes s ! parentIndex;
          probe = exShapeProbe s e;
          ev = exTraceEvent s parent e;
          pushed = exPushed s parent e;
          child = length (nodes s);
          s1 = appendChild (childNode (options s) parentIndex parent action e)
                 (exKey (options s) e) priority s;
          alive = (ev = TE_ExpandedAlive);
          candidate = (alive \<and> isClosedLossCandidate s1 child);
          initialReason = (if alive then getInitialClosedLossBlockReason s1 child else Block_None);
          outcome = childOutcomeOf ev e;
          reason = childBlockReasonOf ev e initialReason;
          s2 = setEvent (toSearchProgressEvent ev)
                 (recordTrace (expansionEntry ev child parentIndex action e priority candidate
                    outcome reason probe) s1)
      in do {
        s3 \<leftarrow> (if pushed then pushChild child action e candidate initialReason s2
               else Some (pruneChild child outcome reason s2));
        finishExpansion s3
      })"

section \<open>The tick\<close>

text \<open>\<open>nextActionIndex++\<close> on the top frame.\<close>

definition advanceTop :: "'d dfs_search \<Rightarrow> 'd dfs_search" where
  "advanceTop s =
     (case dfsStack s of [] \<Rightarrow> s | f # fs \<Rightarrow> s\<lparr>dfsStack := f\<lparr>df_next := df_next f + 1\<rparr> # fs\<rparr>)"

definition failTick :: "string \<Rightarrow> 'd dfs_search \<Rightarrow> ('d dfs_search \<times> tick_result) option" where
  "failTick msg s = do {
     s1 \<leftarrow> completeWithError msg s;
     Some (s1, idle_tick\<lparr>tr_completed := True, tr_error := completionErrorMessage s1\<rparr>)
   }"

definition expandTop ::
  "'d nes_env \<Rightarrow> 'd \<Rightarrow> dfs_frame \<Rightarrow> 'd dfs_search \<Rightarrow> ('d dfs_search \<times> tick_result) option" where
  "expandTop env d f s =
     (let action = ao_actions (df_ordering f) ! df_next f;
          priority = df_next f < ao_groundedPriorityCount (df_ordering f);
          s1 = advanceTop s
      in case runExpansion env d (nodes s1 ! df_node f) action of
           (Inl msg, d1) \<Rightarrow> failTick msg (s1\<lparr>driver := Some d1\<rparr>)
         | (Inr e, d1) \<Rightarrow> commitExpansion (df_node f) action priority e (s1\<lparr>driver := Some d1\<rparr>))"

definition frameOutcome :: "dfs_frame \<Rightarrow> node_outcome" where
  "frameOutcome f = (if df_candidate f then Outcome_ClosedLoss else Outcome_NotClosedLoss)"

definition frameReason :: "dfs_frame \<Rightarrow> block_reason" where
  "frameReason f = (if df_candidate f then Block_None else df_blockReason f)"

definition backtrackEntry :: "dfs_frame \<Rightarrow> search_node \<Rightarrow> trace_entry" where
  "backtrackEntry f n =
     (traceEntry TE_Backtracked)
       \<lparr>te_nodeIndex := df_node f, te_parentIndex := sn_parent n, te_action := sn_action n,
        te_gameplayFrame := sn_gameplayFrame n, te_frontier := sm_bestFrontier (sn_summary n),
        te_evaluationScore := sm_evaluationScore (sn_summary n),
        te_framesSinceProgress := sm_framesSinceProgress (sn_summary n),
        te_closedLossCandidate := df_candidate f,
        te_closedLossProven := (frameOutcome f = Outcome_ClosedLoss),
        te_blockReason := frameReason f\<rparr>"

text \<open>Popping an exhausted frame: everything up to the test whether the stack is now empty.\<close>

definition popExhausted :: "dfs_frame \<Rightarrow> dfs_frame list \<Rightarrow> 'd dfs_search \<Rightarrow> 'd dfs_search" where
  "popExhausted f rest s =
     (let s1 = publishClosedLossEntry (df_node f)
                 (setOutcome (df_node f) (frameOutcome f) (frameReason f) s);
          s2 = recordTrace (backtrackEntry f (nodes s ! df_node f)) s1
      in setEvent PE_Backtracked (releaseNodeHeavyData (df_node f) (s2\<lparr>dfsStack := rest\<rparr>)))"

definition backtrackToParent :: "dfs_frame \<Rightarrow> 'd dfs_search \<Rightarrow> 'd dfs_search" where
  "backtrackToParent f s =
     (let s1 = noteOnTop (frameOutcome f) (frameReason f) s
      in updateRenderableState (nodes s1 ! df_node (hd (dfsStack s1))) s1)"

definition budgetExceeded :: "'d dfs_search \<Rightarrow> bool" where
  "budgetExceeded s =
     (maxSearchedNodeCount (options s) > 0
      \<and> pg_searchedNodeCount (progress s) \<ge> ucast (maxSearchedNodeCount (options s)))"

definition completeTick :: "trace_event \<Rightarrow> 'd dfs_search \<Rightarrow> ('d dfs_search \<times> tick_result) option" where
  "completeTick ev s = do {
     s1 \<leftarrow> completeWithTraceEvent ev s;
     Some (s1, idle_tick\<lparr>tr_completed := True\<rparr>)
   }"

lemma dfsStack_popExhausted [simp]: "dfsStack (popExhausted f rest s) = rest"
  by (simp add: popExhausted_def releaseNodeHeavyData_def recordTrace_def setEvent_def
      publishClosedLossEntry_def setOutcome_def Let_def split: option.split)

text \<open>The \<open>while (true)\<close> loop of \<open>tick\<close>: it goes round again only when it pops the last frame.\<close>

function tickLoop :: "'d nes_env \<Rightarrow> 'd \<Rightarrow> 'd dfs_search \<Rightarrow> ('d dfs_search \<times> tick_result) option" where
  "tickLoop env d s =
     (if budgetExceeded s then completeTick TE_CompletedBudgetExceeded s
      else case dfsStack s of
          [] \<Rightarrow> completeTick TE_CompletedExhausted s
        | f # rest \<Rightarrow>
            if df_next f \<ge> ao_count (df_ordering f) then
              let s1 = popExhausted f rest s
              in if rest \<noteq> [] then
                   Some (backtrackToParent f s1, idle_tick\<lparr>tr_renderChanged := True\<rparr>)
                 else tickLoop env d s1
            else expandTop env d f s)"
  by pat_completeness auto
termination
  by (relation "measure (\<lambda>(env, d, s). length (dfsStack s))") auto

declare tickLoop.simps [simp del]

definition tick :: "'d nes_env \<Rightarrow> 'd dfs_search \<Rightarrow> ('d dfs_search \<times> tick_result) option" where
  "tick env s =
     (if completed s then
        Some (s, idle_tick\<lparr>tr_completed := True,
                tr_error := (if completionReason s = Some CR_Error
                             then completionErrorMessage s else None)\<rparr>)
      else if paused s then Some (s, idle_tick)
      else case driver s of
          None \<Rightarrow> failTick ''SMB DFS search not initialized'' s
        | Some d \<Rightarrow> tickLoop env d s)"

section \<open>Starting, pausing, stopping\<close>

definition pauseSet :: "bool \<Rightarrow> 'd dfs_search \<Rightarrow> 'd dfs_search" where
  "pauseSet b s = setProgressPaused b (s\<lparr>paused := b\<rparr>)"

definition stopEntry :: "'d dfs_search \<Rightarrow> trace_entry" where
  "stopEntry s =
     (case bestLeafIndex s of
        None \<Rightarrow> traceEntry TE_Stopped
      | Some i \<Rightarrow>
          let n = nodes s ! i
          in (traceEntry TE_Stopped)
             \<lparr>te_nodeIndex := i, te_parentIndex := sn_parent n, te_action := sn_action n,
              te_gameplayFrame := sn_gameplayFrame n,
              te_frontier := sm_bestFrontier (sn_summary n),
              te_evaluationScore := sm_evaluationScore (sn_summary n),
              te_framesSinceProgress := sm_framesSinceProgress (sn_summary n)\<rparr>)"

definition stop :: "'d dfs_search \<Rightarrow> 'd dfs_search option" where
  "stop s0 =
     (if completed s0 then Some s0
      else do {
        s \<leftarrow> rebuildBestPlan s0;
        let s1 = setEvent PE_Stopped
                   (setProgressPaused False (s\<lparr>completed := True, paused := False\<rparr>));
        let s2 = s1\<lparr>completionReason := Some CR_Stopped, completionErrorMessage := None\<rparr>;
        Some (recordTrace (stopEntry s2) s2)
      })"

definition hasPersistablePlan :: "'d dfs_search \<Rightarrow> bool" where
  "hasPersistablePlan s = (pl_frames (plan s) \<noteq> [])"

definition hasRenderableFrame :: "'d dfs_search \<Rightarrow> bool" where
  "hasRenderableFrame s = (scenarioVideoFrame s \<noteq> None)"

text \<open>\<open>initializeRuntime\<close>: a new driver, configured and set up, then every member cleared.\<close>

definition clearSearch :: "nat \<Rightarrow> 'd dfs_search \<Rightarrow> 'd dfs_search" where
  "clearSearch uuid s =
     s\<lparr>worldData := empty_world_data\<lparr>wd_width := 256, wd_height := 240\<rparr>,
       scenarioVideoFrame := None, plan := empty_plan\<lparr>pl_id := uuid\<rparr>,
       progress := empty_progress, rootPrefixFrames := [], nodes := [], dfsStack := [],
       nodeOutcomes := [], blockReasons := [], lossKeys := [], exactTable := Map.empty,
       shapeTable := Map.empty, trace := [], bestLeafIndex := None, bestFrontier := 0,
       bestScore := 0, completed := False, paused := False, completionReason := None,
       completionErrorMessage := None\<rparr>"

definition initializeRuntime :: "'d nes_env \<Rightarrow> 'd dfs_search \<Rightarrow> (string + 'd) \<times> 'd dfs_search" where
  "initializeRuntime env s =
     (case env_setConfig env (env_newDriver env) of
        (Inl msg, d) \<Rightarrow> (Inl msg, s\<lparr>driver := Some d\<rparr>)
      | (Inr _, d) \<Rightarrow>
          (case env_setup env d of
             (Inl msg, d1) \<Rightarrow> (Inl msg, s\<lparr>driver := Some d1\<rparr>)
           | (Inr _, d1) \<Rightarrow> (Inr d1, clearSearch (env_uuid env) (s\<lparr>driver := Some d1\<rparr>))))"

definition rootNode ::
  "savestate \<Rightarrow> evaluator_summary \<Rightarrow> memory_snapshot option \<Rightarrow> video_frame option \<Rightarrow> search_node" where
  "rootNode save sm memory video =
     \<lparr>sn_savestate = save, sn_memory = value_or memory empty_snapshot, sn_video = video,
      sn_summary = sm, sn_parent = None, sn_action = None,
      sn_currentFrontier = sm_bestFrontier sm, sn_gameplayFrame = sm_gameplayFrames sm,
      sn_playerYScreen = 0, sn_velocityStuck = 0\<rparr>"

definition rootEntry :: "'d dfs_search \<Rightarrow> evaluator_summary \<Rightarrow> trace_entry" where
  "rootEntry s sm =
     (traceEntry TE_RootInitialized)
       \<lparr>te_gameplayFrame := sm_gameplayFrames sm, te_frontier := sm_bestFrontier sm,
        te_evaluationScore := sm_evaluationScore sm,
        te_framesSinceProgress := sm_framesSinceProgress sm,
        te_closedLossCandidate := isClosedLossCandidate s 0,
        te_blockReason := getInitialClosedLossBlockReason s 0\<rparr>"

definition initializeRootNode ::
  "'d nes_env \<Rightarrow> 'd \<Rightarrow> savestate \<Rightarrow> evaluator_summary \<Rightarrow> memory_snapshot option
   \<Rightarrow> video_frame option \<Rightarrow> 'd dfs_search \<Rightarrow> 'd dfs_search option" where
  "initializeRootNode env d save sm memory video s =
     (let root = rootNode save sm memory (case video of None \<Rightarrow> env_frame env d | Some v \<Rightarrow> Some v);
          s1 = s\<lparr>nodes := nodes s @ [root], lossKeys := lossKeys s @ [None],
                 nodeOutcomes := nodeOutcomes s @ [Outcome_Open]\<rparr>;
          s2 = s1\<lparr>blockReasons := blockReasons s1 @ [getInitialClosedLossBlockReason s1 0]\<rparr>;
          s3 = s2\<lparr>dfsStack :=
                 \<lparr>df_node = 0, df_next = 0,
                  df_ordering = buildDfsActionOrder False 0 Dir_None None
                    (groundedVerticalJumpPrioritizationEnabled (options s2)),
                  df_candidate = isClosedLossCandidate s2 0,
                  df_blockReason = getInitialClosedLossBlockReason s2 0\<rparr> # dfsStack s2\<rparr>;
          s4 = s3\<lparr>bestLeafIndex := Some 0, bestFrontier := sm_bestFrontier sm,
                  bestScore := sm_evaluationScore sm,
                  progress := (progress s3)\<lparr>pg_bestFrontier := sm_bestFrontier sm\<rparr>\<rparr>;
          s5 = setEvent PE_RootInitialized (updateRenderableState (nodes s4 ! 0) s4)
      in do {
        s6 \<leftarrow> rebuildBestPlan s5;
        Some (recordTrace (rootEntry s6 sm) s6)
      })"

text \<open>
  The loop of \<open>startDfs\<close>, with \<open>n\<close> of its 2000 turns left: hold right and run until the
  adapter sees gameplay that is not scripted.
\<close>

fun rootLoop ::
  "'d nes_env \<Rightarrow> nat \<Rightarrow> 'd \<Rightarrow> smb_adapter \<Rightarrow> u8 option \<Rightarrow> 'd dfs_search
   \<Rightarrow> (unit result \<times> 'd dfs_search) option" where
  "rootLoop env 0 d ad lastState s =
     Some (error ''Timed out while preparing SMB DFS root'', s\<lparr>driver := Some d\<rparr>)"
| "rootLoop env (Suc n) d ad lastState s =
     (let setup = actionToFrame Act_RightRun;
          co = resolveControllerMask ad (playerControlFrameToNesMask setup) lastState
      in case env_step env d (resolvedControllerMask co) of (sr, d1) \<Rightarrow>
         if \<not> sr_runtimeHealthy sr \<or> \<not> sr_runtimeRunning sr then
           Some (error (errorOr (sr_lastError sr) ''NES runtime stopped during DFS root capture''),
                 s\<lparr>driver := Some d1\<rparr>)
         else if sr_advancedFrames sr = 0 then rootLoop env n d1 ad lastState s
         else
           case evaluateFrame ad (sr_advancedFrames sr) (sr_memorySnapshot sr) of (ad1, out) \<Rightarrow>
           let lastState1 = (case fo_gameState out of None \<Rightarrow> lastState | Some g \<Rightarrow> Some g)
           in if \<not> isSmbGameplayFrame lastState1 co then rootLoop env n d1 ad1 lastState1 s
              else case env_savestate env d1 of
                  None \<Rightarrow> Some (error ''Failed to capture SMB DFS root savestate'',
                               s\<lparr>driver := Some d1\<rparr>)
                | Some save \<Rightarrow> do {
                    s1 \<leftarrow> initializeRootNode env d1 save
                            (buildSmbSearchEvaluatorSummary (fo_fitness out) lastState1)
                            (sr_memorySnapshot sr) (sr_scenarioVideoFrame sr)
                            (s\<lparr>driver := Some d1, rootPrefixFrames := [setup]\<rparr>);
                    Some (okay (), s1)
                  })"

definition startDfs :: "'d nes_env \<Rightarrow> 'd dfs_search \<Rightarrow> (unit result \<times> 'd dfs_search) option" where
  "startDfs env s =
     (case initializeRuntime env s of
        (Inl msg, s1) \<Rightarrow> Some (error msg, s1)
      | (Inr d, s1) \<Rightarrow> rootLoop env 2000 d (adapterReset newAdapter) None s1)"

record root_fixture =
  rf_savestate :: savestate
  rf_summary :: evaluator_summary
  rf_memory :: "memory_snapshot option"
  rf_video :: "video_frame option"

definition makeRootPrefixFrames :: "u64 \<Rightarrow> player_control_frame list" where
  "makeRootPrefixFrames n = replicate (unat n) (actionToFrame Act_RightRun)"

definition startFromFixture ::
  "'d nes_env \<Rightarrow> root_fixture \<Rightarrow> 'd dfs_search \<Rightarrow> (unit result \<times> 'd dfs_search) option" where
  "startFromFixture env fx s =
     (case initializeRuntime env s of
        (Inl msg, s1) \<Rightarrow> Some (error msg, s1)
      | (Inr d, s1) \<Rightarrow>
          case env_load env d (rf_savestate fx) of (loaded, d1) \<Rightarrow>
          if \<not> loaded then
            Some (error (errorOr (env_lastError env d1) ''Failed to load SMB DFS fixture savestate''),
                  s1\<lparr>driver := Some d1\<rparr>)
          else do {
            s2 \<leftarrow> initializeRootNode env d1 (rf_savestate fx) (rf_summary fx) (rf_memory fx)
                    (case rf_video fx of None \<Rightarrow> env_frame env d1 | Some v \<Rightarrow> Some v)
                    (s1\<lparr>driver := Some d1,
                        rootPrefixFrames := makeRootPrefixFrames (sm_gameplayFrames (rf_summary fx))\<rparr>);
            Some (okay (), s2)
          })"

end
