(* ===== verification/SearchTree.thy ===== *)
theory SearchTree
  imports DfsSearch
begin

text \<open>
  The search tree that \<open>nodes_\<close> encodes by parent links, and the predicates on it that the
  search keeps: the links go back to a single root, the stack is the path from the root to the
  current node, the actions tried from a node are a prefix of its frame's order, a node is open
  exactly while its frame is on the stack, a closed loss has only closed losses below it, and
  the transposition tables hold the best proof of each key. Each predicate is stated over the
  members it reads, with one lemma per change the search makes to them (a node appended, a
  frame pushed or popped, a node released).
\<close>

section \<open>Children and links\<close>

definition children :: "search_node list \<Rightarrow> nat \<Rightarrow> nat set" where
  "children ns i = {j. j < length ns \<and> sn_parent (ns ! j) = Some i}"

text \<open>The actions that have been expanded from node \<open>i\<close>.\<close>

definition tried :: "search_node list \<Rightarrow> nat \<Rightarrow> smb_action set" where
  "tried ns i = {a. \<exists>j \<in> children ns i. sn_action (ns ! j) = Some a}"

text \<open>What a released node keeps.\<close>

definition skeleton :: "search_node list \<Rightarrow> (nat option \<times> smb_action option \<times> evaluator_summary) list" where
  "skeleton ns = map (\<lambda>n. (sn_parent n, sn_action n, sn_summary n)) ns"

definition releaseNode :: "search_node \<Rightarrow> search_node" where
  "releaseNode n = n\<lparr>sn_savestate := (sn_savestate n)\<lparr>ss_bytes := []\<rparr>,
                     sn_memory := empty_snapshot, sn_video := None\<rparr>"

lemma releaseNode_keeps [simp]:
  "sn_parent (releaseNode n) = sn_parent n"
  "sn_action (releaseNode n) = sn_action n"
  "sn_summary (releaseNode n) = sn_summary n"
  "ss_bytes (sn_savestate (releaseNode n)) = []"
  "sn_memory (releaseNode n) = empty_snapshot"
  "sn_video (releaseNode n) = None"
  by (simp_all add: releaseNode_def)

lemma skeleton_release [simp]: "skeleton (ns[i := releaseNode (ns ! i)]) = skeleton ns"
proof (rule nth_equalityI)
  fix j assume "j < length (skeleton (ns[i := releaseNode (ns ! i)]))"
  then show "skeleton (ns[i := releaseNode (ns ! i)]) ! j = skeleton ns ! j"
    by (cases "j = i") (simp_all add: skeleton_def)
qed (simp add: skeleton_def)

lemma skeleton_append [simp]: "skeleton (ns @ ms) = skeleton ns @ skeleton ms"
  by (simp add: skeleton_def)

lemma skeleton_releaseNode [simp]: "skeleton [releaseNode n] = skeleton [n]"
  by (simp add: skeleton_def)

lemma skeleton_length: "skeleton ns = skeleton ms \<Longrightarrow> length ns = length ms"
  by (metis skeleton_def length_map)

lemma skeleton_nth:
  assumes "skeleton ns = skeleton ms" and "i < length ns"
  shows "sn_parent (ns ! i) = sn_parent (ms ! i)" "sn_action (ns ! i) = sn_action (ms ! i)"
    "sn_summary (ns ! i) = sn_summary (ms ! i)"
proof -
  have "(sn_parent (ns ! i), sn_action (ns ! i), sn_summary (ns ! i)) = skeleton ns ! i"
    using assms(2) by (simp add: skeleton_def)
  also have "\<dots> = (sn_parent (ms ! i), sn_action (ms ! i), sn_summary (ms ! i))"
    unfolding assms(1) using assms(2) skeleton_length [OF assms(1)] by (simp add: skeleton_def)
  finally
  show "sn_parent (ns ! i) = sn_parent (ms ! i)" "sn_action (ns ! i) = sn_action (ms ! i)"
    "sn_summary (ns ! i) = sn_summary (ms ! i)" by simp_all
qed

lemma children_skeleton: "skeleton ns = skeleton ms \<Longrightarrow> children ns i = children ms i"
  using skeleton_length [of ns ms] skeleton_nth(1) [of ns ms] by (auto simp: children_def)

lemma children_append:
  "children (ns @ [n]) i =
     children ns i \<union> (if sn_parent n = Some i then {length ns} else {})"
  by (auto simp: children_def nth_append less_Suc_eq)

lemma children_lt: "j \<in> children ns i \<Longrightarrow> j < length ns"
  by (simp add: children_def)

lemma children_after: "parents_before ns \<Longrightarrow> j \<in> children ns i \<Longrightarrow> i < j"
  by (auto simp: children_def parents_before_def)

lemma children_parent_inj: "j \<in> children ns i \<Longrightarrow> j \<in> children ns k \<Longrightarrow> i = k"
  by (simp add: children_def)

lemma tried_skeleton: "skeleton ns = skeleton ms \<Longrightarrow> tried ns i = tried ms i"
  using children_skeleton [of ns ms i] children_lt [of _ ns i] skeleton_nth(2) [of ns ms]
  by (auto simp: tried_def)

lemma tried_append:
  "tried (ns @ [n]) i = tried ns i \<union> (if sn_parent n = Some i then set_option (sn_action n) else {})"
  using children_lt [of _ ns i] by (auto simp: tried_def children_append nth_append)

section \<open>The tree\<close>

definition tree_ok :: "search_node list \<Rightarrow> bool" where
  "tree_ok ns =
     (parents_before ns
      \<and> (\<forall>i < length ns. (sn_parent (ns ! i) = None) = (i = 0))
      \<and> (\<forall>i < length ns. (sn_action (ns ! i) = None) = (i = 0))
      \<and> (\<forall>i < length ns. inj_on (\<lambda>j. sn_action (ns ! j)) (children ns i)))"

lemma tree_ok_Nil [simp]: "tree_ok []"
  by (simp add: tree_ok_def parents_before_def)

lemma tree_ok_parents: "tree_ok ns \<Longrightarrow> parents_before ns"
  by (simp add: tree_ok_def)

lemma tree_ok_root:
  "sn_parent n = None \<Longrightarrow> sn_action n = None \<Longrightarrow> tree_ok [n]"
  by (auto simp: tree_ok_def parents_before_def children_def intro: inj_onI)

lemma tree_ok_skeleton:
  assumes "skeleton ns = skeleton ms" and "tree_ok ns" shows "tree_ok ms"
proof -
  note len = skeleton_length [OF assms(1)]
  note nth = skeleton_nth [OF assms(1), unfolded len]
  have ch: "children ns i = children ms i" for i by (rule children_skeleton [OF assms(1)])
  have "inj_on (\<lambda>j. sn_action (ns ! j)) (children ms i)
        = inj_on (\<lambda>j. sn_action (ms ! j)) (children ms i)" for i
    by (rule inj_on_cong) (use nth(2) in \<open>auto dest: children_lt\<close>)
  with assms(2) show ?thesis by (simp add: tree_ok_def parents_before_def nth len ch)
qed

lemma tree_ok_append:
  assumes "tree_ok ns" and "p < length ns" and "sn_parent n = Some p"
    and "sn_action n = Some a" and "a \<notin> tried ns p"
  shows "tree_ok (ns @ [n])"
proof -
  have before: "parents_before (ns @ [n])"
    using assms by (auto simp: tree_ok_def parents_before_def nth_append less_Suc_eq)
  have inj: "inj_on (\<lambda>j. sn_action ((ns @ [n]) ! j)) (children (ns @ [n]) i)"
    if i: "i < Suc (length ns)" for i
  proof -
    have old: "inj_on (\<lambda>j. sn_action ((ns @ [n]) ! j)) (children ns i)"
    proof (cases "i < length ns")
      case True
      have "inj_on (\<lambda>j. sn_action ((ns @ [n]) ! j)) (children ns i)
            = inj_on (\<lambda>j. sn_action (ns ! j)) (children ns i)"
        by (rule inj_on_cong) (auto simp: nth_append dest: children_lt)
      with assms(1) True show ?thesis by (simp add: tree_ok_def)
    next
      case False
      with i have "children ns i = {}"
        using children_after [OF tree_ok_parents [OF assms(1)]] children_lt [of _ ns i]
        by fastforce
      then show ?thesis by simp
    qed
    show ?thesis
    proof (cases "i = p")
      case True
      have "sn_action (ns ! j) \<noteq> Some a" if "j \<in> children ns p" for j
        using assms(5) that by (auto simp: tried_def)
      then have "Some a \<notin> (\<lambda>j. sn_action ((ns @ [n]) ! j)) ` (children ns p - {length ns})"
        by (force simp: nth_append dest: children_lt)
      with old True assms(3,4) show ?thesis by (simp add: children_append)
    next
      case False
      with old assms(3) show ?thesis by (simp add: children_append)
    qed
  qed
  have root: "(sn_parent ((ns @ [n]) ! i) = None) = (i = 0)"
    "(sn_action ((ns @ [n]) ! i) = None) = (i = 0)" if "i < Suc (length ns)" for i
    using that assms(1-4) by (auto simp: tree_ok_def nth_append less_Suc_eq)
  show ?thesis
    unfolding tree_ok_def length_append_singleton using before inj root by blast
qed

lemma tree_ok_link:
  "tree_ok ns \<Longrightarrow> i < length ns \<Longrightarrow> i \<noteq> 0 \<Longrightarrow> \<exists>p. sn_parent (ns ! i) = Some p \<and> p < i"
  by (auto simp: tree_ok_def parents_before_def)

lemma pathTo_skeleton:
  assumes "skeleton ns = skeleton ms" and "parents_before ns" and "i < length ns"
  shows "pathTo ns i = pathTo ms i"
  using assms(3)
proof (induction i rule: less_induct)
  case (less i)
  note par = skeleton_nth(1) [OF assms(1) less.prems]
  show ?case
  proof (cases "sn_parent (ns ! i)")
    case None
    with par show ?thesis by (simp add: pathTo.simps [of _ i])
  next
    case (Some p)
    with assms(2) less.prems have "p < i" by (auto simp: parents_before_def)
    with less Some par show ?thesis by (simp add: pathTo.simps [of _ i])
  qed
qed

lemma pathTo_child:
  assumes "parents_before ns" and "p < length ns" and "sn_parent n = Some p"
  shows "pathTo (ns @ [n]) (length ns) = pathTo ns p @ [length ns]"
  using assms pathTo_append [OF assms(1,2), of "[n]"]
  by (simp add: pathTo.simps [of _ "length ns"])

lemma pathFrames_cong:
  assumes "skeleton ns = skeleton ms" and "set path \<subseteq> {..<length ns}"
  shows "pathFrames ns path = pathFrames ms path"
proof -
  have "nodeFrames (ns ! i) = nodeFrames (ms ! i)" if "i \<in> set path" for i
    using skeleton_nth(2) [OF assms(1), of i] that assms(2) by (auto simp: nodeFrames_def)
  then show ?thesis by (simp add: pathFrames_def cong: map_cong)
qed

lemma pathFrames_append:
  assumes "set path \<subseteq> {..<length ns}"
  shows "pathFrames (ns @ ms) path = pathFrames ns path"
proof -
  have "nodeFrames ((ns @ ms) ! i) = nodeFrames (ns ! i)" if "i \<in> set path" for i
    using that assms by (auto simp: nth_append)
  then show ?thesis by (simp add: pathFrames_def cong: map_cong)
qed

lemma pathTo_range: "i < length ns \<Longrightarrow> set (pathTo ns i) \<subseteq> {..<length ns}"
  using pathTo_bound [of ns i] by auto

section \<open>The stack\<close>

text \<open>A frame's own consistency; the block reason is set exactly when the candidate flag is lost.\<close>

definition frame_ok :: "dfs_frame \<Rightarrow> bool" where
  "frame_ok f =
     (distinct (ao_actions (df_ordering f)) \<and> {a. \<not> isJumpButtonAction a} \<subseteq> set (ao_actions (df_ordering f))
      \<and> df_next f \<le> ao_count (df_ordering f)
      \<and> (df_candidate f \<longleftrightarrow> df_blockReason f = Block_None))"

definition stack_ok :: "search_node list \<Rightarrow> dfs_frame list \<Rightarrow> bool" where
  "stack_ok ns st =
     ((\<forall>f \<in> set st. df_node f < length ns \<and> frame_ok f
         \<and> tried ns (df_node f) = set (take (df_next f) (ao_actions (df_ordering f))))
      \<and> (st \<noteq> [] \<longrightarrow> rev (map df_node st) = pathTo ns (df_node (hd st))))"

abbreviation onStack :: "dfs_frame list \<Rightarrow> nat set" where
  "onStack st \<equiv> df_node ` set st"

lemma stack_ok_Nil [simp]: "stack_ok ns []"
  by (simp add: stack_ok_def)

lemma stack_ok_skeleton:
  assumes "skeleton ns = skeleton ms" and "parents_before ns" and "stack_ok ns st"
  shows "stack_ok ms st"
proof (cases st)
  case (Cons f fs)
  with assms(3) have "df_node f < length ns" by (simp add: stack_ok_def)
  from pathTo_skeleton [OF assms(1,2) this] assms(3) Cons show ?thesis
    by (simp add: stack_ok_def tried_skeleton [OF assms(1)] skeleton_length [OF assms(1)])
qed simp

lemma stack_in_range: "stack_ok ns st \<Longrightarrow> i \<in> onStack st \<Longrightarrow> i < length ns"
  by (auto simp: stack_ok_def)

lemma stack_below_top:
  assumes "stack_ok ns (f # fs)" and "i \<in> onStack (f # fs)" shows "i \<le> df_node f"
proof -
  from assms(1) have path: "rev (map df_node (f # fs)) = pathTo ns (df_node f)"
    by (simp add: stack_ok_def)
  have "set (rev (map df_node (f # fs))) = onStack (f # fs)"
    by (simp only: set_rev set_map)
  with path assms(2) have "i \<in> set (pathTo ns (df_node f))" by simp
  with pathTo_bound [of ns "df_node f"] show ?thesis by auto
qed

text \<open>The frame under the top one is the top node's parent.\<close>

lemma stack_pop:
  assumes "tree_ok ns" and "stack_ok ns (f # fs)"
  shows "stack_ok ns fs"
    and "fs \<noteq> [] \<Longrightarrow> sn_parent (ns ! df_node f) = Some (df_node (hd fs))"
    and "fs = [] \<longleftrightarrow> df_node f = 0"
    and "df_node f \<notin> onStack fs"
proof -
  have lt: "df_node f < length ns" using assms(2) by (simp add: stack_ok_def)
  have path: "rev (map df_node fs) @ [df_node f] = pathTo ns (df_node f)"
    using assms(2) by (simp add: stack_ok_def)
  show zero: "fs = [] \<longleftrightarrow> df_node f = 0"
  proof (cases "df_node f = 0")
    case True
    with assms(1) lt have "sn_parent (ns ! df_node f) = None" by (simp add: tree_ok_def)
    with path True show ?thesis by (simp add: pathTo.simps [of _ "0::nat"])
  next
    case False
    then obtain p where "sn_parent (ns ! df_node f) = Some p" "p < df_node f"
      using tree_ok_link [OF assms(1) lt] by blast
    with path have "rev (map df_node fs) = pathTo ns p"
      by (simp add: pathTo.simps [of _ "df_node f"])
    with False pathTo_last(2) [of ns p] show ?thesis by auto
  qed
  have main: "stack_ok ns fs \<and> sn_parent (ns ! df_node f) = Some (df_node (hd fs))
              \<and> df_node f \<notin> onStack fs" if "fs \<noteq> []"
  proof -
    from that zero obtain p where p: "sn_parent (ns ! df_node f) = Some p" "p < df_node f"
      using tree_ok_link [OF assms(1) lt] by blast
    with path have rev: "rev (map df_node fs) = pathTo ns p"
      by (simp add: pathTo.simps [of _ "df_node f"])
    have "last (rev (map df_node fs)) = df_node (hd fs)"
      using that by (simp add: last_rev hd_map)
    with rev have hd: "df_node (hd fs) = p" by (simp add: pathTo_last)
    have "set (pathTo ns p) = onStack fs"
      unfolding rev [symmetric] by (simp only: set_rev set_map)
    with pathTo_bound [of ns p] p(2) have "df_node f \<notin> onStack fs" by auto
    with rev hd p assms(2) show ?thesis by (simp add: stack_ok_def)
  qed
  from main show "stack_ok ns fs" by (cases "fs = []") auto
  from main show "fs \<noteq> [] \<Longrightarrow> sn_parent (ns ! df_node f) = Some (df_node (hd fs))" by blast
  from main show "df_node f \<notin> onStack fs" by (cases "fs = []") auto
qed

lemma stack_other:
  "tree_ok ns \<Longrightarrow> stack_ok ns (f # fs) \<Longrightarrow> g \<in> set fs \<Longrightarrow> df_node g \<noteq> df_node f"
  using stack_pop(4) [of ns f fs] by (metis image_eqI)

text \<open>No open node is a child of the node on top.\<close>

lemma top_children_done:
  assumes "tree_ok ns" and "stack_ok ns (f # fs)" and "j \<in> children ns (df_node f)"
  shows "j \<notin> onStack (f # fs)"
  using children_after [OF tree_ok_parents [OF assms(1)] assms(3)]
    stack_below_top [OF assms(2), of j] by auto

text \<open>Two frames of a stack have different nodes.\<close>

lemma stack_distinct:
  assumes "tree_ok ns" and "stack_ok ns st" shows "distinct (map df_node st)"
  using assms(2)
proof (induction st)
  case (Cons f fs)
  from stack_pop [OF assms(1) Cons.prems] Cons.IH show ?case by simp
qed simp

text \<open>Changing only the loss flags of the top frame, or appending the node just expanded.\<close>

lemma stack_ok_top:
  assumes "stack_ok ns (f # fs)" and "df_node g = df_node f" and "df_next g = df_next f"
    and "df_ordering g = df_ordering f" and "frame_ok g"
  shows "stack_ok ns (g # fs)"
  using assms by (auto simp: stack_ok_def)

definition advance :: "dfs_frame \<Rightarrow> dfs_frame" where
  "advance f = f\<lparr>df_next := df_next f + 1\<rparr>"

lemma advance_simps [simp]:
  "df_node (advance f) = df_node f" "df_next (advance f) = Suc (df_next f)"
  "df_ordering (advance f) = df_ordering f" "df_candidate (advance f) = df_candidate f"
  "df_blockReason (advance f) = df_blockReason f"
  by (simp_all add: advance_def)

lemma next_untried:
  assumes "stack_ok ns (f # fs)" and "df_next f < ao_count (df_ordering f)"
  shows "ao_actions (df_ordering f) ! df_next f \<notin> tried ns (df_node f)"
proof
  let ?as = "ao_actions (df_ordering f)"
  assume "?as ! df_next f \<in> tried ns (df_node f)"
  with assms(1) have "?as ! df_next f \<in> set (take (df_next f) ?as)"
    by (simp add: stack_ok_def)
  then obtain k where "k < df_next f" "?as ! k = ?as ! df_next f"
    using assms(2) by (auto simp: in_set_conv_nth)
  moreover from assms(1) have "distinct ?as" by (simp add: stack_ok_def frame_ok_def)
  ultimately show False using assms(2) by (simp add: nth_eq_iff_index_eq)
qed

lemma stack_ok_expand:
  assumes "tree_ok ns" and "stack_ok ns (f # fs)" and "df_next f < ao_count (df_ordering f)"
    and "sn_parent n = Some (df_node f)"
    and "sn_action n = Some (ao_actions (df_ordering f) ! df_next f)"
  shows "stack_ok (ns @ [n]) (advance f # fs)"
proof -
  let ?as = "ao_actions (df_ordering f)"
  have lt: "df_node f < length ns" using assms(2) by (simp add: stack_ok_def)
  have "set (take (Suc (df_next f)) ?as) = insert (?as ! df_next f) (set (take (df_next f) ?as))"
    using assms(3) by (simp add: take_Suc_conv_app_nth)
  moreover have "tried (ns @ [n]) (df_node f) = insert (?as ! df_next f) (tried ns (df_node f))"
    using assms(4,5) by (simp add: tried_append)
  moreover have "tried (ns @ [n]) (df_node g) = tried ns (df_node g)" if "g \<in> set fs" for g
    using assms(4) that stack_pop(4) [OF assms(1,2)] by (auto simp: tried_append)
  ultimately show ?thesis
    using assms(2,3) pathTo_append [OF tree_ok_parents [OF assms(1)] lt, of "[n]"]
    by (auto simp: stack_ok_def frame_ok_def)
qed

lemma stack_ok_push:
  assumes "parents_before ns" and "stack_ok (ns @ [n]) (f # fs)" and "df_node f < length ns"
    and "sn_parent n = Some (df_node f)" and "frame_ok g" and "df_node g = length ns"
    and "df_next g = 0" and "children (ns @ [n]) (length ns) = {}"
  shows "stack_ok (ns @ [n]) (g # f # fs)"
  using assms pathTo_child [OF assms(1,3,4)] pathTo_append [OF assms(1,3), of "[n]"]
  by (auto simp: stack_ok_def tried_def)

lemma children_new:
  assumes "tree_ok ns" and "sn_parent n = Some p" and "p < length ns"
  shows "children (ns @ [n]) (length ns) = {}"
  using assms children_after [OF tree_ok_parents [OF assms(1)], of _ "length ns"]
    children_lt [of _ ns "length ns"]
  by (fastforce simp: children_append)

end
