(* ===== verification/LossProof.thy ===== *)
theory LossProof
  imports SearchTree
begin

text \<open>
  What the search claims when it calls a node a closed loss: the node is finished, it was pruned
  itself or every action of its order was tried, and every child is a closed loss; the
  transposition tables hold such nodes only. Also here: which nodes keep their savestate.
  As in SearchTree, one lemma per change of the search.
\<close>

section \<open>Outcomes\<close>

definition outcomes_ok :: "search_node list \<Rightarrow> node_outcome list \<Rightarrow> dfs_frame list \<Rightarrow> bool" where
  "outcomes_ok ns oc st =
     (length oc = length ns \<and> (\<forall>i < length ns. (oc ! i = Outcome_Open) = (i \<in> onStack st)))"

text \<open>What the outcome of a finished node says of its children.\<close>

definition finished_ok :: "search_node list \<Rightarrow> node_outcome list \<Rightarrow> nat \<Rightarrow> bool" where
  "finished_ok ns oc i =
     ((oc ! i = Outcome_ClosedLoss \<longrightarrow> (\<forall>j \<in> children ns i. oc ! j = Outcome_ClosedLoss))
      \<and> (oc ! i = Outcome_NotClosedLoss
          \<longrightarrow> children ns i = {} \<or> (\<exists>j \<in> children ns i. oc ! j = Outcome_NotClosedLoss))
      \<and> (oc ! i \<noteq> Outcome_Open
          \<longrightarrow> children ns i = {} \<or> {a. \<not> isJumpButtonAction a} \<subseteq> tried ns i))"

definition candidate_ok :: "search_node list \<Rightarrow> node_outcome list \<Rightarrow> dfs_frame \<Rightarrow> bool" where
  "candidate_ok ns oc f =
     (df_candidate f = (\<forall>j \<in> children ns (df_node f). oc ! j \<noteq> Outcome_NotClosedLoss))"

definition loss_ok :: "search_node list \<Rightarrow> node_outcome list \<Rightarrow> dfs_frame list \<Rightarrow> bool" where
  "loss_ok ns oc st =
     ((\<forall>f \<in> set st. candidate_ok ns oc f) \<and> (\<forall>i < length ns. finished_ok ns oc i))"

lemma finished_ok_leaf: "children ns i = {} \<Longrightarrow> finished_ok ns oc i"
  by (simp add: finished_ok_def)

lemma finished_ok_open: "oc ! i = Outcome_Open \<Longrightarrow> finished_ok ns oc i"
  by (simp add: finished_ok_def)

lemma finished_ok_cong:
  assumes "finished_ok ns oc i" and "oc' ! i = oc ! i" and "children ms i = children ns i"
    and "tried ms i = tried ns i" and "\<And>j. j \<in> children ns i \<Longrightarrow> oc' ! j = oc ! j"
  shows "finished_ok ms oc' i"
  using assms(1) unfolding finished_ok_def assms(2-4) using assms(5) by auto

lemma candidate_ok_cong:
  assumes "candidate_ok ns oc f" and "children ms (df_node f) = children ns (df_node f)"
    and "\<And>j. j \<in> children ns (df_node f) \<Longrightarrow> oc' ! j = oc ! j"
  shows "candidate_ok ms oc' f"
  using assms(1) unfolding candidate_ok_def assms(2) using assms(3) by auto

lemma loss_ok_skeleton:
  assumes "skeleton ns = skeleton ms" and "loss_ok ns oc st" shows "loss_ok ms oc st"
  using assms(2)
  by (simp add: loss_ok_def candidate_ok_def finished_ok_def children_skeleton [OF assms(1)]
      tried_skeleton [OF assms(1)] skeleton_length [OF assms(1)])

lemma outcomes_ok_skeleton:
  "skeleton ns = skeleton ms \<Longrightarrow> outcomes_ok ns oc st \<Longrightarrow> outcomes_ok ms oc st"
  by (simp add: outcomes_ok_def skeleton_length [of ns ms])

lemma noteChild_simps [simp]:
  "df_node (noteChildOutcome o1 r f) = df_node f"
  "df_next (noteChildOutcome o1 r f) = df_next f"
  "df_ordering (noteChildOutcome o1 r f) = df_ordering f"
  "df_candidate (noteChildOutcome o1 r f) = (df_candidate f \<and> o1 = Outcome_ClosedLoss)"
  by (simp_all add: noteChildOutcome_def Let_def)

lemma frame_ok_note: "frame_ok f \<Longrightarrow> frame_ok (noteChildOutcome o1 r f)"
  by (auto simp: frame_ok_def noteChildOutcome_def Let_def)

lemma frame_ok_advance:
  "frame_ok f \<Longrightarrow> df_next f < ao_count (df_ordering f) \<Longrightarrow> frame_ok (advance f)"
  by (simp add: frame_ok_def)

section \<open>A node appended and its frame pushed\<close>

lemma outcomes_push:
  "outcomes_ok ns oc st \<Longrightarrow> df_node g = length ns \<Longrightarrow> onStack st' = insert (length ns) (onStack st)
   \<Longrightarrow> outcomes_ok (ns @ [n]) (oc @ [Outcome_Open]) st'"
  by (auto simp: outcomes_ok_def nth_append less_Suc_eq)

lemma outcomes_prune:
  assumes "outcomes_ok ns oc st" and "out \<noteq> Outcome_Open" and "onStack st' = onStack st"
    and "\<And>i. i \<in> onStack st \<Longrightarrow> i < length ns"
  shows "outcomes_ok (ns @ [n]) (oc @ [out]) st'"
  using assms by (force simp: outcomes_ok_def nth_append less_Suc_eq)

text \<open>
  Appending a child of the top node \<open>p\<close> with outcome \<open>out\<close>. Every other node is finished or
  keeps its children.
\<close>

lemma finished_append:
  assumes "loss_ok ns oc st" and "length oc = length ns" and "sn_parent n = Some p"
    and "oc ! p = Outcome_Open" and "children (ns @ [n]) (length ns) = {}"
    and "i < length (ns @ [n])" and "p < length ns"
  shows "finished_ok (ns @ [n]) (oc @ [out]) i"
proof (cases "i = length ns \<or> i = p")
  case True
  with assms show ?thesis
    by (auto simp: finished_ok_leaf finished_ok_open nth_append)
next
  case False
  with assms(6) have i: "i < length ns" and "i \<noteq> p" by simp_all
  from i assms(1) have "finished_ok ns oc i" by (simp add: loss_ok_def)
  then show ?thesis
    by (rule finished_ok_cong)
      (use i \<open>i \<noteq> p\<close> assms(2,3) in \<open>auto simp: children_append tried_append nth_append dest: children_lt\<close>)
qed

lemma candidate_append_other:
  assumes "candidate_ok ns oc f" and "length oc = length ns" and "sn_parent n = Some p"
    and "df_node f \<noteq> p"
  shows "candidate_ok (ns @ [n]) (oc @ [out]) f"
  using assms(1) by (rule candidate_ok_cong)
    (use assms(2-4) in \<open>auto simp: children_append nth_append dest: children_lt\<close>)

lemma candidate_append_top:
  assumes "candidate_ok ns oc f" and "length oc = length ns" and "sn_parent n = Some (df_node f)"
    and "df_node f' = df_node f"
    and "df_candidate f' = (df_candidate f \<and> out \<noteq> Outcome_NotClosedLoss)"
  shows "candidate_ok (ns @ [n]) (oc @ [out]) f'"
proof -
  have "(oc @ [out]) ! j = oc ! j" if "j \<in> children ns (df_node f)" for j
    using that assms(2) by (simp add: nth_append children_lt)
  moreover have "(oc @ [out]) ! length ns = out" using assms(2) by (metis nth_append_length)
  ultimately show ?thesis using assms by (auto simp: candidate_ok_def children_append)
qed

lemma loss_prune:
  assumes "loss_ok ns oc (f # fs)" and "outcomes_ok ns oc (f # fs)" and "tree_ok ns"
    and "stack_ok ns (f # fs)" and "sn_parent n = Some (df_node f)" and "out \<noteq> Outcome_Open"
  shows "loss_ok (ns @ [n]) (oc @ [out]) (noteChildOutcome out r (advance f) # fs)"
proof -
  have lt: "df_node f < length ns" using assms(4) by (simp add: stack_ok_def)
  have len: "length oc = length ns" and op: "oc ! df_node f = Outcome_Open"
    using assms(2) lt by (auto simp: outcomes_ok_def)
  note fin = finished_append [OF assms(1) len assms(5) op children_new [OF assms(3,5) lt] _ lt]
  have top: "candidate_ok (ns @ [n]) (oc @ [out]) (noteChildOutcome out r (advance f))"
    by (rule candidate_append_top [OF _ len assms(5)])
      (use assms(1,6) in \<open>auto simp: loss_ok_def intro: node_outcome.exhaust [of out]\<close>)
  have "candidate_ok (ns @ [n]) (oc @ [out]) g" if "g \<in> set fs" for g
    by (rule candidate_append_other [OF _ len assms(5)])
      (use assms(1) that stack_other [OF assms(3,4) that] in \<open>auto simp: loss_ok_def\<close>)
  with top fin show ?thesis by (auto simp: loss_ok_def)
qed

lemma loss_push:
  assumes "loss_ok ns oc (f # fs)" and "outcomes_ok ns oc (f # fs)" and "tree_ok ns"
    and "stack_ok ns (f # fs)" and "sn_parent n = Some (df_node f)"
    and "df_node g = length ns" and "df_candidate g"
  shows "loss_ok (ns @ [n]) (oc @ [Outcome_Open]) (g # advance f # fs)"
proof -
  have lt: "df_node f < length ns" using assms(4) by (simp add: stack_ok_def)
  have len: "length oc = length ns" and op: "oc ! df_node f = Outcome_Open"
    using assms(2) lt by (auto simp: outcomes_ok_def)
  note fin = finished_append [OF assms(1) len assms(5) op children_new [OF assms(3,5) lt] _ lt]
  have top: "candidate_ok (ns @ [n]) (oc @ [Outcome_Open]) (advance f)"
    by (rule candidate_append_top [OF _ len assms(5)]) (use assms(1) in \<open>auto simp: loss_ok_def\<close>)
  have "candidate_ok (ns @ [n]) (oc @ [Outcome_Open]) h" if "h \<in> set fs" for h
    by (rule candidate_append_other [OF _ len assms(5)])
      (use assms(1) that stack_other [OF assms(3,4) that] in \<open>auto simp: loss_ok_def\<close>)
  moreover have "candidate_ok (ns @ [n]) (oc @ [Outcome_Open]) g"
    using assms(6,7) children_new [OF assms(3,5) lt] by (simp add: candidate_ok_def)
  ultimately show ?thesis using top fin by (auto simp: loss_ok_def)
qed

section \<open>A frame popped\<close>

text \<open>The stack after a pop, with the parent's frame taking note.\<close>

definition noteTop :: "node_outcome \<Rightarrow> block_reason \<Rightarrow> dfs_frame list \<Rightarrow> dfs_frame list" where
  "noteTop out r fs = (case fs of [] \<Rightarrow> [] | g # gs \<Rightarrow> noteChildOutcome out r g # gs)"

lemma onStack_noteTop [simp]: "onStack (noteTop out r fs) = onStack fs"
  by (cases fs) (auto simp: noteTop_def)

lemma outcomes_pop:
  assumes "outcomes_ok ns oc (f # fs)" and "tree_ok ns" and "stack_ok ns (f # fs)"
    and "out \<noteq> Outcome_Open"
  shows "outcomes_ok ns (oc[df_node f := out]) (noteTop out r fs)"
proof -
  have "(oc[df_node f := out] ! i = Outcome_Open) = (i \<in> onStack fs)" if "i < length ns" for i
    using assms(1,4) stack_pop(4) [OF assms(2,3)] that
    by (cases "i = df_node f") (auto simp: outcomes_ok_def)
  with assms(1) show ?thesis by (simp add: outcomes_ok_def)
qed

lemma stack_ok_noteTop: "stack_ok ns fs \<Longrightarrow> stack_ok ns (noteTop out r fs)"
  by (cases fs) (auto simp: noteTop_def stack_ok_def intro: frame_ok_note)

lemma loss_pop:
  assumes "loss_ok ns oc (f # fs)" and "outcomes_ok ns oc (f # fs)" and "tree_ok ns"
    and "stack_ok ns (f # fs)" and "df_next f \<ge> ao_count (df_ordering f)"
  defines "out \<equiv> frameOutcome f"
  shows "loss_ok ns (oc[df_node f := out]) (noteTop out r fs)"
proof -
  let ?i = "df_node f" and ?oc = "oc[df_node f := out]"
  have lt: "?i < length ns" and fok: "frame_ok f"
    and tr: "tried ns ?i = set (take (df_next f) (ao_actions (df_ordering f)))"
    using assms(4) by (auto simp: stack_ok_def)
  have len: "length oc = length ns" using assms(2) by (simp add: outcomes_ok_def)
  have cand: "candidate_ok ns oc f" using assms(1) by (simp add: loss_ok_def)
  have childDone: "oc ! j \<noteq> Outcome_Open" if "j \<in> children ns ?i" for j
    using top_children_done [OF assms(3,4) that] children_lt [OF that] assms(2)
    by (auto simp: outcomes_ok_def)
  have self: "?i \<notin> children ns ?i" using children_after [OF tree_ok_parents [OF assms(3)]] by blast
  have popped: "finished_ok ns ?oc ?i"
  proof -
    have all: "{a. \<not> isJumpButtonAction a} \<subseteq> tried ns ?i"
      using fok assms(5) by (simp add: tr frame_ok_def)
    have keep: "?oc ! j = oc ! j" if "j \<in> children ns ?i" for j
      using that self by (metis nth_list_update_other)
    have at: "?oc ! ?i = out" using lt len by simp
    have closed: "oc ! j = Outcome_ClosedLoss"
      if "j \<in> children ns ?i" "oc ! j \<noteq> Outcome_NotClosedLoss" for j
      using childDone [OF that(1)] that(2) by (cases "oc ! j") auto
    show ?thesis
    proof (cases "df_candidate f")
      case True
      then have "out = Outcome_ClosedLoss" by (simp add: out_def frameOutcome_def)
      moreover have "\<forall>j \<in> children ns ?i. ?oc ! j = Outcome_ClosedLoss"
        using cand True closed keep by (simp add: candidate_ok_def)
      ultimately show ?thesis using at all by (simp add: finished_ok_def)
    next
      case False
      then have "out = Outcome_NotClosedLoss" by (simp add: out_def frameOutcome_def)
      moreover have "\<exists>j \<in> children ns ?i. ?oc ! j = Outcome_NotClosedLoss"
        using cand False keep by (auto simp: candidate_ok_def)
      ultimately show ?thesis using at all by (simp add: finished_ok_def)
    qed
  qed
  have fin: "finished_ok ns ?oc k" if "k < length ns" for k
  proof (cases "k = ?i \<or> sn_parent (ns ! ?i) = Some k")
    case True
    show ?thesis
    proof (cases "k = ?i")
      case False
      with True have par: "sn_parent (ns ! ?i) = Some k" by simp
      have "fs \<noteq> []" using par lt stack_pop(3) [OF assms(3,4)] assms(3) by (auto simp: tree_ok_def)
      with stack_pop(2) [OF assms(3,4)] par have "k \<in> onStack fs"
        by (cases fs) auto
      with that False assms(2) have "?oc ! k = Outcome_Open" by (auto simp: outcomes_ok_def)
      then show ?thesis by (rule finished_ok_open)
    qed (use popped in simp)
  next
    case False
    from that assms(1) have "finished_ok ns oc k" by (simp add: loss_ok_def)
    moreover have "?oc ! j = oc ! j" if "j \<in> children ns k" for j
      using False that by (intro nth_list_update_other) (auto simp: children_def)
    ultimately show ?thesis using False by (auto intro: finished_ok_cong [of ns oc])
  qed
  have other: "candidate_ok ns ?oc g" if "g \<in> set fs" "sn_parent (ns ! ?i) \<noteq> Some (df_node g)" for g
  proof (rule candidate_ok_cong [of ns oc])
    show "candidate_ok ns oc g" using assms(1) that(1) by (simp add: loss_ok_def)
    show "?oc ! j = oc ! j" if "j \<in> children ns (df_node g)" for j
      using that \<open>sn_parent (ns ! ?i) \<noteq> Some (df_node g)\<close>
      by (intro nth_list_update_other) (auto simp: children_def)
  qed simp
  have "\<forall>g \<in> set (noteTop out r fs). candidate_ok ns ?oc g"
  proof (cases fs)
    case (Cons g gs)
    with stack_pop(2) [OF assms(3,4)] have par: "sn_parent (ns ! ?i) = Some (df_node g)" by simp
    from stack_pop(1) [OF assms(3,4)] Cons have "stack_ok ns (g # gs)" by simp
    from stack_pop(4) [OF assms(3) this] par have "\<forall>h \<in> set gs. candidate_ok ns ?oc h"
      using Cons by (intro ballI other) auto
    moreover have "candidate_ok ns ?oc (noteChildOutcome out r g)"
    proof -
      have mem: "?i \<in> children ns (df_node g)" using par lt by (simp add: children_def)
      have "?oc ! j = (if j = ?i then out else oc ! j)" for j
        using lt len by (simp add: nth_list_update)
      moreover have "candidate_ok ns oc g" using assms(1) Cons by (simp add: loss_ok_def)
      moreover have "oc ! ?i = Outcome_Open" using assms(2) lt by (auto simp: outcomes_ok_def)
      moreover have "out = Outcome_ClosedLoss \<or> out = Outcome_NotClosedLoss"
        by (simp add: out_def frameOutcome_def)
      ultimately show ?thesis using mem by (auto simp: candidate_ok_def)
    qed
    ultimately show ?thesis by (simp add: noteTop_def Cons)
  qed (simp add: noteTop_def)
  with fin show ?thesis by (simp add: loss_ok_def)
qed

section \<open>Released nodes\<close>

definition released :: "search_node \<Rightarrow> bool" where
  "released n = (ss_bytes (sn_savestate n) = [] \<and> sn_memory n = empty_snapshot \<and> sn_video n = None)"

definition heavy_ok :: "search_node list \<Rightarrow> dfs_frame list \<Rightarrow> bool" where
  "heavy_ok ns st = (\<forall>i < length ns. i \<notin> onStack st \<longrightarrow> released (ns ! i))"

lemma released_releaseNode [simp]: "released (releaseNode n)"
  by (simp add: released_def)

lemma heavy_push:
  "heavy_ok ns st \<Longrightarrow> onStack st' = insert (length ns) (onStack st) \<Longrightarrow> heavy_ok (ns @ [n]) st'"
  by (auto simp: heavy_ok_def nth_append less_Suc_eq)

lemma heavy_prune:
  "heavy_ok ns st \<Longrightarrow> onStack st' = onStack st \<Longrightarrow> heavy_ok (ns @ [releaseNode n]) st'"
  by (auto simp: heavy_ok_def nth_append less_Suc_eq)

lemma heavy_pop:
  assumes "heavy_ok ns (f # fs)" and "onStack st' = onStack fs"
  shows "heavy_ok (ns[df_node f := releaseNode (ns ! df_node f)]) st'"
  unfolding heavy_ok_def
proof (intro allI impI)
  fix i assume "i < length (ns[df_node f := releaseNode (ns ! df_node f)])" "i \<notin> onStack st'"
  with assms show "released (ns[df_node f := releaseNode (ns ! df_node f)] ! i)"
    by (cases "i = df_node f") (auto simp: heavy_ok_def)
qed

section \<open>The transposition tables\<close>

text \<open>What has been published: the entries of the proven nodes that have a key.\<close>

definition exactProof ::
  "search_node list \<Rightarrow> node_outcome list \<Rightarrow> exact_key option list \<Rightarrow> exact_key \<Rightarrow> loss_entry \<Rightarrow> bool" where
  "exactProof ns oc keys k e =
     (\<exists>i < length ns. oc ! i = Outcome_ClosedLoss \<and> keys ! i = Some k
        \<and> e = entryOfSummary (sn_summary (ns ! i)))"

definition shapeProof ::
  "search_node list \<Rightarrow> node_outcome list \<Rightarrow> exact_key option list \<Rightarrow> shape_key \<Rightarrow> shape_entry \<Rightarrow> bool" where
  "shapeProof ns oc keys k e =
     (\<exists>key. k = buildShapeKey key \<and> se_ramBytes e = k_ramBytes key
        \<and> exactProof ns oc keys key (se_proof e))"

abbreviation shapeBetter :: "shape_entry \<Rightarrow> shape_entry \<Rightarrow> bool" where
  "shapeBetter a b \<equiv> entryBetter (se_proof a) (se_proof b)"

definition tables_ok ::
  "search_node list \<Rightarrow> node_outcome list \<Rightarrow> exact_key option list \<Rightarrow> exact_table \<Rightarrow> shape_table \<Rightarrow> bool" where
  "tables_ok ns oc keys tab shp =
     (length keys = length ns \<and> stores entryBetter (exactProof ns oc keys) tab
      \<and> stores shapeBetter (shapeProof ns oc keys) shp)"

text \<open>The tables after \<open>publishClosedLossEntry\<close>, given the node's outcome, key and summary.\<close>

definition pubExact ::
  "node_outcome \<Rightarrow> exact_key option \<Rightarrow> evaluator_summary \<Rightarrow> exact_table \<Rightarrow> exact_table" where
  "pubExact out key sm tab =
     (case key of Some k \<Rightarrow> if out = Outcome_ClosedLoss then putExact k (entryOfSummary sm) tab else tab
      | None \<Rightarrow> tab)"

definition pubShape ::
  "node_outcome \<Rightarrow> exact_key option \<Rightarrow> evaluator_summary \<Rightarrow> shape_table \<Rightarrow> shape_table" where
  "pubShape out key sm shp =
     (case key of Some k \<Rightarrow>
        if out = Outcome_ClosedLoss
        then putShape (buildShapeKey k)
               \<lparr>se_proof = entryOfSummary sm, se_ramBytes = k_ramBytes k\<rparr> shp
        else shp
      | None \<Rightarrow> shp)"

definition newProof ::
  "node_outcome \<Rightarrow> exact_key option \<Rightarrow> evaluator_summary \<Rightarrow> exact_key \<Rightarrow> loss_entry \<Rightarrow> bool" where
  "newProof out key sm k e =
     (out = Outcome_ClosedLoss \<and> key = Some k \<and> e = entryOfSummary sm)"

lemma tables_publish:
  assumes "tables_ok ns oc keys tab shp" and "length keys' = length ns'"
    and proofs: "exactProof ns' oc' keys' =
          (\<lambda>k e. exactProof ns oc keys k e \<or> newProof out key sm k e)"
  shows "tables_ok ns' oc' keys' (pubExact out key sm tab) (pubShape out key sm shp)"
proof (cases "out = Outcome_ClosedLoss \<and> key \<noteq> None")
  case False
  then have "newProof out key sm = (\<lambda>k e. False)" by (auto simp: newProof_def fun_eq_iff)
  with proofs have "exactProof ns' oc' keys' = exactProof ns oc keys" by simp
  with False assms(1,2) show ?thesis
    by (auto simp: tables_ok_def shapeProof_def [abs_def] pubExact_def pubShape_def split: option.split)
next
  case True
  then obtain k where k: "key = Some k" and out: "out = Outcome_ClosedLoss" by auto
  let ?e = "entryOfSummary sm"
  have ex: "exactProof ns' oc' keys'
      = (\<lambda>k' e'. exactProof ns oc keys k' e' \<or> (k' = k \<and> e' = ?e))"
    unfolding proofs by (auto simp: newProof_def k out fun_eq_iff)
  have sh: "shapeProof ns' oc' keys'
      = (\<lambda>k' e'. shapeProof ns oc keys k' e'
          \<or> (k' = buildShapeKey k \<and> e' = \<lparr>se_proof = ?e, se_ramBytes = k_ramBytes k\<rparr>))"
    unfolding shapeProof_def [abs_def] ex by (auto simp: fun_eq_iff)
  have "stores entryBetter (exactProof ns' oc' keys') (pubExact out key sm tab)"
    unfolding ex using exact.put_stores [of _ tab k ?e] assms(1)
    by (simp add: tables_ok_def pubExact_def k out)
  moreover have "stores shapeBetter (shapeProof ns' oc' keys') (pubShape out key sm shp)"
    unfolding sh using shape.put_stores [of _ shp "buildShapeKey k"] assms(1)
    by (simp add: tables_ok_def pubShape_def k out)
  ultimately show ?thesis using assms(2) by (simp add: tables_ok_def)
qed

lemma exactProof_append:
  assumes "length oc = length ns" and "length keys = length ns"
  shows "exactProof (ns @ [n]) (oc @ [out]) (keys @ [key])
         = (\<lambda>k e. exactProof ns oc keys k e \<or> newProof out key (sn_summary n) k e)"
proof -
  have "(oc @ [out]) ! length ns = out" "(keys @ [key]) ! length ns = key"
    using assms by (metis nth_append_length)+
  with assms show ?thesis
    by (fastforce simp: exactProof_def newProof_def fun_eq_iff nth_append less_Suc_eq)
qed

lemma exactProof_update:
  assumes "i < length ns" and "length oc = length ns" and "oc ! i = Outcome_Open"
  shows "exactProof ns (oc[i := out]) keys
         = (\<lambda>k e. exactProof ns oc keys k e \<or> newProof out (keys ! i) (sn_summary (ns ! i)) k e)"
proof (intro ext)
  fix k e
  have "(oc[i := out] ! j = Outcome_ClosedLoss) =
        (oc ! j = Outcome_ClosedLoss \<or> (j = i \<and> out = Outcome_ClosedLoss))" for j
    using assms by (cases "j = i") auto
  then show "exactProof ns (oc[i := out]) keys k e
      = (exactProof ns oc keys k e \<or> newProof out (keys ! i) (sn_summary (ns ! i)) k e)"
    using assms(1) by (auto simp: exactProof_def newProof_def)
qed

lemma exactProof_skeleton:
  assumes "skeleton ns = skeleton ms" shows "exactProof ns oc keys = exactProof ms oc keys"
  using skeleton_length [OF assms] skeleton_nth(3) [OF assms]
  by (auto simp: exactProof_def fun_eq_iff)

lemma tables_skeleton:
  assumes "skeleton ns = skeleton ms" and "tables_ok ns oc keys tab shp"
  shows "tables_ok ms oc keys tab shp"
  using assms(2) exactProof_skeleton [OF assms(1), of oc keys] skeleton_length [OF assms(1)]
  by (simp add: tables_ok_def shapeProof_def [abs_def])

end
