(* ===== verification/DfsInvariant.thy ===== *)
theory DfsInvariant
  imports LossProof
begin

text \<open>
  The invariant of the depth-first search object and its proof for every public operation of
  SmbDfsSearch.cpp: starting, ticking, pausing and stopping, in any order, whatever the emulator
  driver answers. The first section computes the members each bookkeeping operation changes;
  the invariant then follows from the lemmas of SearchTree and LossProof.
\<close>

section \<open>What the operations change\<close>

text \<open>The members that the invariant of the tree reads are the same in two states.\<close>

definition same_core :: "'d dfs_search \<Rightarrow> 'd dfs_search \<Rightarrow> bool" where
  "same_core s t =
     (nodes t = nodes s \<and> dfsStack t = dfsStack s \<and> nodeOutcomes t = nodeOutcomes s
      \<and> blockReasons t = blockReasons s \<and> lossKeys t = lossKeys s
      \<and> exactTable t = exactTable s \<and> shapeTable t = shapeTable s)"

definition same_best :: "'d dfs_search \<Rightarrow> 'd dfs_search \<Rightarrow> bool" where
  "same_best s t =
     (bestLeafIndex t = bestLeafIndex s \<and> bestFrontier t = bestFrontier s
      \<and> bestScore t = bestScore s \<and> rootPrefixFrames t = rootPrefixFrames s
      \<and> options t = options s
      \<and> pg_bestFrontier (progress t) = pg_bestFrontier (progress s)
      \<and> pg_searchedNodeCount (progress t) = pg_searchedNodeCount (progress s))"

lemma same_refl [simp]: "same_core s s" "same_best s s"
  by (simp_all add: same_core_def same_best_def)

lemma same_trans:
  "same_core s t \<Longrightarrow> same_core t u \<Longrightarrow> same_core s u"
  "same_best s t \<Longrightarrow> same_best t u \<Longrightarrow> same_best s u"
  by (simp_all add: same_core_def same_best_def)

lemma recordTrace_same [simp]: "same_core s (recordTrace e s)" "same_best s (recordTrace e s)"
  by (simp_all add: recordTrace_def same_core_def same_best_def)

lemma setEvent_same [simp]: "same_core s (setEvent e s)" "same_best s (setEvent e s)"
  by (simp_all add: setEvent_def same_core_def same_best_def)

lemma setProgressPaused_same [simp]:
  "same_core s (setProgressPaused e s)" "same_best s (setProgressPaused e s)"
  by (simp_all add: setProgressPaused_def same_core_def same_best_def)

lemma render_same [simp]:
  "same_core s (updateRenderableState n s)" "same_best s (updateRenderableState n s)"
  by (simp_all add: updateRenderableState_def Let_def same_core_def same_best_def split: option.split)

text \<open>The plan that \<open>rebuildBestPlan\<close> makes when the best leaf is a node of a tree.\<close>

definition planFor :: "'d dfs_search \<Rightarrow> player_control_frame list" where
  "planFor s =
     (case bestLeafIndex s of None \<Rightarrow> []
      | Some b \<Rightarrow> rootPrefixFrames s @ pathFrames (nodes s) (pathTo (nodes s) b))"

definition rebuiltPlan :: "'d dfs_search \<Rightarrow> search_plan" where
  "rebuiltPlan s =
     (plan s)\<lparr>pl_frames := planFor s,
       pl_bestFrontier := (case bestLeafIndex s of None \<Rightarrow> pg_bestFrontier (progress s)
                           | Some b \<Rightarrow> bestFrontier s),
       pl_elapsedFrames := of_nat (length (planFor s))\<rparr>"

definition leaf_ok :: "'d dfs_search \<Rightarrow> bool" where
  "leaf_ok s = (parents_before (nodes s) \<and> (\<forall>b. bestLeafIndex s = Some b \<longrightarrow> b < length (nodes s)))"

lemma rebuildBestPlan_eq:
  "leaf_ok s \<Longrightarrow> rebuildBestPlan s = Some (s\<lparr>plan := rebuiltPlan s\<rparr>)"
  by (auto simp: rebuildBestPlan_def leaf_ok_def clearPlan_def rebuiltPlan_def planFor_def
      reconstruct_returns Let_def split: option.split)

lemma leaf_ok_same: "same_core s t \<Longrightarrow> same_best s t \<Longrightarrow> leaf_ok t = leaf_ok s"
  by (simp add: leaf_ok_def same_core_def same_best_def)

text \<open>Completion, in all its three forms, as one function of the state.\<close>

definition finishWith ::
  "progress_event \<Rightarrow> completion_reason \<Rightarrow> string option \<Rightarrow> ('d dfs_search \<Rightarrow> trace_entry)
   \<Rightarrow> 'd dfs_search \<Rightarrow> 'd dfs_search" where
  "finishWith pe cr msg entry s =
     (let s1 = setEvent pe (setProgressPaused False
                 (s\<lparr>plan := rebuiltPlan s, completed := True, paused := False\<rparr>));
          s2 = s1\<lparr>completionReason := Some cr, completionErrorMessage := msg\<rparr>
      in recordTrace (entry s2) s2)"

lemma finishWith_fields [simp]:
  "same_core s (finishWith pe cr msg entry s)"
  "same_best s (finishWith pe cr msg entry s)"
  "completed (finishWith pe cr msg entry s)"
  "\<not> paused (finishWith pe cr msg entry s)"
  "completionReason (finishWith pe cr msg entry s) = Some cr"
  "completionErrorMessage (finishWith pe cr msg entry s) = msg"
  "plan (finishWith pe cr msg entry s) = rebuiltPlan s"
  "driver (finishWith pe cr msg entry s) = driver s"
  "options (finishWith pe cr msg entry s) = options s"
  by (simp_all add: finishWith_def Let_def setEvent_def setProgressPaused_def recordTrace_def
      same_core_def same_best_def)

lemma finishWith_trace:
  "\<exists>t. trace (finishWith pe cr msg entry s) = trace s @ [entry t]"
  by (auto simp: finishWith_def Let_def setEvent_def setProgressPaused_def recordTrace_def)

lemma completeWithTraceEvent_eq:
  "leaf_ok s \<Longrightarrow> completeWithTraceEvent ev s
     = Some (finishWith (toSearchProgressEvent ev) CR_Completed None (bestLeafEntry ev) s)"
  by (simp add: completeWithTraceEvent_def rebuildBestPlan_eq finishWith_def Let_def)

lemma completeWithError_eq:
  "leaf_ok s \<Longrightarrow> completeWithError msg s
     = Some (finishWith PE_Error CR_Error (Some msg) (bestLeafEntry TE_Error) s)"
  by (simp add: completeWithError_def rebuildBestPlan_eq finishWith_def Let_def)

lemma stop_eq:
  "leaf_ok s \<Longrightarrow> stop s = Some (if completed s then s
     else finishWith PE_Stopped CR_Stopped None stopEntry s)"
  by (simp add: stop_def rebuildBestPlan_eq finishWith_def Let_def)

lemma entry_types [simp]:
  "te_eventType (bestLeafEntry ev s) = ev"
  "te_eventType (stopEntry s) = TE_Stopped"
  by (simp_all add: bestLeafEntry_def stopEntry_def traceEntry_def Let_def split: option.split)

section \<open>The invariant\<close>

definition core_inv :: "'d dfs_search \<Rightarrow> bool" where
  "core_inv s =
     (tree_ok (nodes s) \<and> stack_ok (nodes s) (dfsStack s)
      \<and> outcomes_ok (nodes s) (nodeOutcomes s) (dfsStack s)
      \<and> loss_ok (nodes s) (nodeOutcomes s) (dfsStack s)
      \<and> heavy_ok (nodes s) (dfsStack s)
      \<and> tables_ok (nodes s) (nodeOutcomes s) (lossKeys s) (exactTable s) (shapeTable s)
      \<and> length (blockReasons s) = length (nodes s))"

text \<open>\<open>(f1, v1)\<close> does not beat \<open>(f2, v2)\<close> in the order of \<open>updateBestLeaf\<close>.\<close>

definition notAbove :: "u64 \<Rightarrow> real \<Rightarrow> u64 \<Rightarrow> real \<Rightarrow> bool" where
  "notAbove f1 v1 f2 v2 = (f1 < f2 \<or> (f1 = f2 \<and> v1 \<le> v2))"

lemma notAbove_refl [simp]: "notAbove f v f v"
  by (simp add: notAbove_def)

lemma notAbove_trans: "notAbove f1 v1 f2 v2 \<Longrightarrow> notAbove f2 v2 f3 v3 \<Longrightarrow> notAbove f1 v1 f3 v3"
  by (auto simp: notAbove_def)

text \<open>The best leaf, the plan, the reported frontier and the count agree with the tree.\<close>

definition best_inv :: "'d dfs_search \<Rightarrow> bool" where
  "best_inv s =
     ((bestLeafIndex s = None) = (nodes s = [])
      \<and> (\<forall>b. bestLeafIndex s = Some b \<longrightarrow>
           b < length (nodes s)
           \<and> bestFrontier s = sm_bestFrontier (sn_summary (nodes s ! b))
           \<and> bestScore s = sm_evaluationScore (sn_summary (nodes s ! b))
           \<and> pg_bestFrontier (progress s) = bestFrontier s
           \<and> pl_bestFrontier (plan s) = bestFrontier s)
      \<and> pl_frames (plan s) = planFor s
      \<and> pl_elapsedFrames (plan s) = of_nat (length (planFor s))
      \<and> pg_searchedNodeCount (progress s) = of_nat (length (nodes s) - 1))"

text \<open>No node that was pushed beats the best leaf: read off the trace.\<close>

definition trace_inv :: "'d dfs_search \<Rightarrow> bool" where
  "trace_inv s =
     (\<forall>t \<in> set (trace s). te_eventType t \<in> {TE_RootInitialized, TE_ExpandedAlive} \<longrightarrow>
        notAbove (te_frontier t) (te_evaluationScore t) (bestFrontier s) (bestScore s))"

definition dfs_inv :: "'d dfs_search \<Rightarrow> bool" where
  "dfs_inv s = (core_inv s \<and> best_inv s \<and> trace_inv s)"

lemma dfs_inv_leaf: "dfs_inv s \<Longrightarrow> leaf_ok s"
  by (auto simp: dfs_inv_def core_inv_def best_inv_def leaf_ok_def dest: tree_ok_parents)

lemma core_inv_same: "same_core s t \<Longrightarrow> core_inv s \<Longrightarrow> core_inv t"
  by (simp add: core_inv_def same_core_def)

lemma planFor_same: "same_core s t \<Longrightarrow> same_best s t \<Longrightarrow> planFor t = planFor s"
  by (simp add: planFor_def same_core_def same_best_def split: option.split)

lemma best_inv_same:
  assumes "same_core s t" and "same_best s t" and "plan t = plan s" and "best_inv s"
  shows "best_inv t"
  using assms(4) unfolding best_inv_def planFor_same [OF assms(1,2)] assms(3)
  using assms(1,2) by (simp add: same_core_def same_best_def)

lemma trace_inv_extend:
  assumes "trace_inv s" and "same_best s t" and "trace t = trace s @ es"
    and "\<And>e. e \<in> set es \<Longrightarrow> te_eventType e \<notin> {TE_RootInitialized, TE_ExpandedAlive}"
  shows "trace_inv t"
  using assms by (auto simp: trace_inv_def same_best_def)

lemma rebuiltPlan_id:
  assumes "best_inv s" and "bestLeafIndex s \<noteq> None"
  shows "rebuiltPlan s = plan s"
  using assms by (auto simp: best_inv_def rebuiltPlan_def)

lemma planFor_stack [simp]: "planFor (s\<lparr>dfsStack := st\<rparr>) = planFor s"
  by (simp add: planFor_def split: option.split)

lemma planFor_driver [simp]: "planFor (s\<lparr>driver := d\<rparr>) = planFor s"
  by (simp add: planFor_def split: option.split)

lemma best_inv_stack [simp]: "best_inv (s\<lparr>dfsStack := st\<rparr>) = best_inv s"
  by (simp add: best_inv_def)

lemma best_inv_driver [simp]: "best_inv (s\<lparr>driver := d\<rparr>) = best_inv s"
  by (simp add: best_inv_def)

text \<open>
  A failed expansion leaves the top frame pointing past an action that has no node. The search
  is completed by that error, so all but the invariant of the stack still holds.
\<close>

definition soft_core :: "'d dfs_search \<Rightarrow> bool" where
  "soft_core s =
     (tree_ok (nodes s) \<and> outcomes_ok (nodes s) (nodeOutcomes s) (dfsStack s)
      \<and> loss_ok (nodes s) (nodeOutcomes s) (dfsStack s)
      \<and> heavy_ok (nodes s) (dfsStack s)
      \<and> tables_ok (nodes s) (nodeOutcomes s) (lossKeys s) (exactTable s) (shapeTable s)
      \<and> length (blockReasons s) = length (nodes s))"

definition soft_inv :: "'d dfs_search \<Rightarrow> bool" where
  "soft_inv s = (soft_core s \<and> best_inv s \<and> trace_inv s)"

definition failed :: "'d dfs_search \<Rightarrow> bool" where
  "failed s = (completed s \<and> completionReason s = Some CR_Error)"

text \<open>What holds in every reachable state.\<close>

definition search_inv :: "'d dfs_search \<Rightarrow> bool" where
  "search_inv s = (soft_inv s \<and> (\<not> failed s \<longrightarrow> dfs_inv s))"

lemma core_inv_soft: "core_inv s = (soft_core s \<and> stack_ok (nodes s) (dfsStack s))"
  by (auto simp: core_inv_def soft_core_def)

lemma dfs_inv_soft: "dfs_inv s = (soft_inv s \<and> stack_ok (nodes s) (dfsStack s))"
  by (auto simp: dfs_inv_def soft_inv_def core_inv_soft)

lemma soft_inv_leaf: "soft_inv s \<Longrightarrow> leaf_ok s"
  by (auto simp: soft_inv_def soft_core_def best_inv_def leaf_ok_def dest: tree_ok_parents)

lemma finishWith_soft:
  assumes "soft_inv s" and "\<And>t. te_eventType (entry t) \<notin> {TE_RootInitialized, TE_ExpandedAlive}"
  shows "soft_inv (finishWith pe cr msg entry s)"
proof -
  let ?t = "finishWith pe cr msg entry s"
  note core = finishWith_fields(1) [of s pe cr msg entry]
  note best = finishWith_fields(2) [of s pe cr msg entry]
  obtain u where "trace ?t = trace s @ [entry u]" using finishWith_trace by blast
  with assms best have "trace_inv ?t"
    by (intro trace_inv_extend [of s ?t "[entry u]"]) (auto simp: soft_inv_def)
  moreover have "best_inv ?t"
    using assms(1) core best planFor_same [OF core best]
    by (auto simp: soft_inv_def best_inv_def same_core_def same_best_def rebuiltPlan_def)
  moreover have "soft_core ?t"
    using assms(1) core by (simp add: soft_inv_def soft_core_def same_core_def)
  ultimately show ?thesis by (simp add: soft_inv_def)
qed

lemma finishWith_inv:
  assumes "dfs_inv s" and "\<And>t. te_eventType (entry t) \<notin> {TE_RootInitialized, TE_ExpandedAlive}"
  shows "dfs_inv (finishWith pe cr msg entry s)"
  using assms finishWith_soft [of s entry pe cr msg] finishWith_fields(1) [of s pe cr msg entry]
  by (simp add: dfs_inv_soft same_core_def)

section \<open>Releasing, publishing, popping\<close>

lemma release_eq:
  "i < length (nodes s) \<Longrightarrow>
   releaseNodeHeavyData i s = s\<lparr>nodes := (nodes s)[i := releaseNode (nodes s ! i)]\<rparr>"
  by (simp add: releaseNodeHeavyData_def releaseNode_def Let_def)

lemma publish_eq:
  assumes "i < length (nodes s)" and "length (lossKeys s) = length (nodes s)"
    and "length (nodeOutcomes s) = length (nodes s)"
  shows "publishClosedLossEntry i s =
     s\<lparr>exactTable := pubExact (nodeOutcomes s ! i) (lossKeys s ! i) (sn_summary (nodes s ! i)) (exactTable s),
       shapeTable := pubShape (nodeOutcomes s ! i) (lossKeys s ! i) (sn_summary (nodes s ! i)) (shapeTable s)\<rparr>"
  using assms
  by (auto simp: publishClosedLossEntry_def pubExact_def pubShape_def Let_def split: option.split)

lemma noteOnTop_eq: "noteOnTop out r s = s\<lparr>dfsStack := noteTop out r (dfsStack s)\<rparr>"
  by (simp add: noteOnTop_def noteTop_def split: list.split)

lemma core_inv_lengths:
  assumes "core_inv s"
  shows "length (lossKeys s) = length (nodes s)" "length (nodeOutcomes s) = length (nodes s)"
    "length (blockReasons s) = length (nodes s)"
  using assms by (auto simp: core_inv_def tables_ok_def outcomes_ok_def)

text \<open>The members after a frame has been popped.\<close>

lemma pop_fields:
  assumes "core_inv s" and "dfsStack s = f # fs"
  defines "t \<equiv> popExhausted f fs s"
  shows "nodes t = (nodes s)[df_node f := releaseNode (nodes s ! df_node f)]"
    and "dfsStack t = fs"
    and "nodeOutcomes t = (nodeOutcomes s)[df_node f := frameOutcome f]"
    and "length (blockReasons t) = length (blockReasons s)"
    and "lossKeys t = lossKeys s"
    and "exactTable t = pubExact (frameOutcome f) (lossKeys s ! df_node f)
           (sn_summary (nodes s ! df_node f)) (exactTable s)"
    and "shapeTable t = pubShape (frameOutcome f) (lossKeys s ! df_node f)
           (sn_summary (nodes s ! df_node f)) (shapeTable s)"
    and "same_best s t" "plan t = plan s" "completed t = completed s" "driver t = driver s"
    and "trace t = trace s @ [backtrackEntry f (nodes s ! df_node f)]"
    and "paused t = paused s"
proof -
  have lt: "df_node f < length (nodes s)"
    using assms(1,2) by (simp add: core_inv_def stack_ok_def)
  note len = core_inv_lengths [OF assms(1)]
  have t: "t = setEvent PE_Backtracked (releaseNodeHeavyData (df_node f)
      ((recordTrace (backtrackEntry f (nodes s ! df_node f))
         (publishClosedLossEntry (df_node f) (setOutcome (df_node f) (frameOutcome f) (frameReason f) s)))
       \<lparr>dfsStack := fs\<rparr>))"
    by (simp add: t_def popExhausted_def Let_def)
  show "nodes t = (nodes s)[df_node f := releaseNode (nodes s ! df_node f)]"
    "dfsStack t = fs" "nodeOutcomes t = (nodeOutcomes s)[df_node f := frameOutcome f]"
    "length (blockReasons t) = length (blockReasons s)" "lossKeys t = lossKeys s"
    "exactTable t = pubExact (frameOutcome f) (lossKeys s ! df_node f)
           (sn_summary (nodes s ! df_node f)) (exactTable s)"
    "shapeTable t = pubShape (frameOutcome f) (lossKeys s ! df_node f)
           (sn_summary (nodes s ! df_node f)) (shapeTable s)"
    "same_best s t" "plan t = plan s" "completed t = completed s" "driver t = driver s"
    "trace t = trace s @ [backtrackEntry f (nodes s ! df_node f)]"
    "paused t = paused s"
    using lt len
    by (simp_all add: t publish_eq setOutcome_def recordTrace_def release_eq setEvent_def same_best_def)
qed

lemma frameOutcome_cases: "frameOutcome f \<noteq> Outcome_Open"
  by (simp add: frameOutcome_def)

lemma pop_core:
  assumes "core_inv s" and "dfsStack s = f # fs" and "df_next f \<ge> ao_count (df_ordering f)"
  shows "core_inv (noteOnTop (frameOutcome f) (frameReason f) (popExhausted f fs s))"
proof -
  let ?ns = "nodes s" and ?oc = "nodeOutcomes s" and ?i = "df_node f" and ?out = "frameOutcome f"
  let ?ms = "?ns[?i := releaseNode (?ns ! ?i)]" and ?st = "noteTop ?out (frameReason f) fs"
  have inv: "tree_ok ?ns" "stack_ok ?ns (f # fs)" "outcomes_ok ?ns ?oc (f # fs)"
    "loss_ok ?ns ?oc (f # fs)" "heavy_ok ?ns (f # fs)"
    "tables_ok ?ns ?oc (lossKeys s) (exactTable s) (shapeTable s)"
    using assms(1,2) by (simp_all add: core_inv_def)
  have lt: "?i < length ?ns" using inv(2) by (simp add: stack_ok_def)
  have op: "?oc ! ?i = Outcome_Open" using inv(3) lt by (auto simp: outcomes_ok_def)
  have sk: "skeleton ?ns = skeleton ?ms" by simp
  note parents = tree_ok_parents [OF inv(1)]
  have "tables_ok ?ns (?oc[?i := ?out]) (lossKeys s)
      (pubExact ?out (lossKeys s ! ?i) (sn_summary (?ns ! ?i)) (exactTable s))
      (pubShape ?out (lossKeys s ! ?i) (sn_summary (?ns ! ?i)) (shapeTable s))"
    using inv(6) inv(3) lt op
    by (intro tables_publish [OF inv(6)] exactProof_update) (auto simp: tables_ok_def outcomes_ok_def)
  then have tabs: "tables_ok ?ms (?oc[?i := ?out]) (lossKeys s)
      (pubExact ?out (lossKeys s ! ?i) (sn_summary (?ns ! ?i)) (exactTable s))
      (pubShape ?out (lossKeys s ! ?i) (sn_summary (?ns ! ?i)) (shapeTable s))"
    by (rule tables_skeleton [OF sk])
  have "tree_ok ?ms" by (rule tree_ok_skeleton [OF sk inv(1)])
  moreover have "stack_ok ?ms ?st"
    by (rule stack_ok_skeleton [OF sk parents stack_ok_noteTop [OF stack_pop(1) [OF inv(1,2)]]])
  moreover have "outcomes_ok ?ms (?oc[?i := ?out]) ?st"
    by (rule outcomes_ok_skeleton [OF sk outcomes_pop [OF inv(3,1,2) frameOutcome_cases]])
  moreover have "loss_ok ?ms (?oc[?i := ?out]) ?st"
    by (rule loss_ok_skeleton [OF sk loss_pop [OF inv(4,3,1,2) assms(3)]])
  moreover have "heavy_ok ?ms ?st" by (rule heavy_pop [OF inv(5)]) simp
  ultimately show ?thesis
    using tabs core_inv_lengths [OF assms(1)] pop_fields [OF assms(1,2)]
    by (simp add: core_inv_def noteOnTop_eq)
qed

section \<open>Growing the tree keeps the best leaf and its plan\<close>

lemma planFor_grow:
  assumes "skeleton (nodes t) = skeleton (nodes s) @ xs" and "parents_before (nodes t)"
    and "leaf_ok s" and "bestLeafIndex t = bestLeafIndex s"
    and "rootPrefixFrames t = rootPrefixFrames s"
  shows "planFor t = planFor s"
proof (cases "bestLeafIndex s")
  case None
  with assms(4) show ?thesis by (simp add: planFor_def)
next
  case (Some b)
  let ?n = "length (nodes s)"
  let ?ms = "take ?n (nodes t)"
  have len: "length (nodes t) = ?n + length xs"
    using arg_cong [OF assms(1), of length] by (simp add: skeleton_def)
  have "skeleton ?ms = take ?n (skeleton (nodes t))" by (simp add: skeleton_def take_map)
  with assms(1) have sk: "skeleton (nodes s) = skeleton ?ms" by (simp add: skeleton_def)
  have b: "b < ?n" using assms(3) Some by (simp add: leaf_ok_def)
  have pb: "parents_before (nodes s)" using assms(3) by (simp add: leaf_ok_def)
  have pms: "parents_before ?ms" using assms(2) by (simp add: parents_before_def)
  have bm: "b < length ?ms" using b len by simp
  have path: "pathTo (nodes t) b = pathTo ?ms b"
    using pathTo_append [OF pms bm, of "drop ?n (nodes t)"] by simp
  have "pathFrames (nodes t) (pathTo ?ms b) = pathFrames ?ms (pathTo ?ms b)"
    using pathFrames_append [OF pathTo_range [OF bm], of "drop ?n (nodes t)"] by simp
  also have "\<dots> = pathFrames (nodes s) (pathTo (nodes s) b)"
    using pathFrames_cong [OF sk pathTo_range [OF b]] pathTo_skeleton [OF sk pb b] by simp
  finally show ?thesis using assms(4,5) Some path by (simp add: planFor_def)
qed

lemma summary_grow:
  assumes "skeleton ms = skeleton ns @ xs" and "b < length ns"
  shows "sn_summary (ms ! b) = sn_summary (ns ! b)"
proof -
  have "length ms = length ns + length xs"
    using arg_cong [OF assms(1), of length] by (simp add: skeleton_def)
  moreover have "skeleton ms ! b = skeleton ns ! b"
    using assms by (simp add: nth_append skeleton_def)
  ultimately show ?thesis using assms(2) by (simp add: skeleton_def)
qed

lemma best_inv_pop:
  assumes "best_inv s" and "skeleton (nodes t) = skeleton (nodes s)" and "same_best s t"
    and "plan t = plan s" and "leaf_ok s" and "parents_before (nodes t)"
  shows "best_inv t"
proof -
  have "planFor t = planFor s"
    by (rule planFor_grow [of t s "[]"]) (use assms in \<open>auto simp: same_best_def\<close>)
  moreover have "length (nodes t) = length (nodes s)" using assms(2) by (rule skeleton_length)
  moreover have "(nodes t = []) = (nodes s = [])"
    using calculation(2) by (metis length_0_conv)
  ultimately show ?thesis
    using assms(1,3,4) summary_grow [of "nodes t" "nodes s" "[]"] assms(2)
    by (auto simp: best_inv_def same_best_def)
qed

text \<open>The best leaf after \<open>updateBestLeaf\<close>.\<close>

definition beatsBest :: "'d dfs_search \<Rightarrow> evaluator_summary \<Rightarrow> bool" where
  "beatsBest s sm =
     (bestLeafIndex s = None \<or> sm_bestFrontier sm > bestFrontier s
      \<or> (sm_bestFrontier sm = bestFrontier s \<and> sm_evaluationScore sm > bestScore s))"

definition newBest :: "nat \<Rightarrow> evaluator_summary \<Rightarrow> 'd dfs_search \<Rightarrow> 'd dfs_search" where
  "newBest i sm s =
     (let s1 = s\<lparr>bestLeafIndex := Some i, bestFrontier := sm_bestFrontier sm,
                 bestScore := sm_evaluationScore sm,
                 progress := (progress s)\<lparr>pg_bestFrontier := sm_bestFrontier sm\<rparr>\<rparr>
      in s1\<lparr>plan := rebuiltPlan s1\<rparr>)"

lemma updateBestLeaf_eq:
  assumes "parents_before (nodes s)" and "i < length (nodes s)"
  shows "updateBestLeaf i s =
     Some (if beatsBest s (sn_summary (nodes s ! i)) then newBest i (sn_summary (nodes s ! i)) s else s)"
  using assms
  by (simp add: updateBestLeaf_def beatsBest_def newBest_def Let_def rebuildBestPlan_eq leaf_ok_def)

lemma newBest_fields [simp]:
  "same_core s (newBest i sm s)" "bestLeafIndex (newBest i sm s) = Some i"
  "bestFrontier (newBest i sm s) = sm_bestFrontier sm"
  "bestScore (newBest i sm s) = sm_evaluationScore sm"
  "rootPrefixFrames (newBest i sm s) = rootPrefixFrames s"
  "options (newBest i sm s) = options s"
  "trace (newBest i sm s) = trace s" "driver (newBest i sm s) = driver s"
  "completed (newBest i sm s) = completed s" "paused (newBest i sm s) = paused s"
  "pg_searchedNodeCount (progress (newBest i sm s)) = pg_searchedNodeCount (progress s)"
  "pg_bestFrontier (progress (newBest i sm s)) = sm_bestFrontier sm"
  by (simp_all add: newBest_def Let_def same_core_def)

lemma newBest_plan:
  "pl_frames (plan (newBest i sm s)) = planFor (newBest i sm s)"
  "pl_elapsedFrames (plan (newBest i sm s)) = of_nat (length (planFor (newBest i sm s)))"
  "pl_bestFrontier (plan (newBest i sm s)) = sm_bestFrontier sm"
  by (simp_all add: newBest_def Let_def rebuiltPlan_def planFor_def)

section \<open>Committing an expansion\<close>

text \<open>The state handed to \<open>pushChild\<close> or \<open>pruneChild\<close>: the node appended, traced and reported.\<close>

definition appended ::
  "dfs_frame \<Rightarrow> smb_action \<Rightarrow> bool \<Rightarrow> expansion \<Rightarrow> 'd dfs_search \<Rightarrow> 'd dfs_search" where
  "appended f action priority e s =
     (let parent = nodes s ! df_node f;
          ev = exTraceEvent s parent e;
          child = length (nodes s);
          s1 = appendChild (childNode (options s) (df_node f) parent action e)
                 (exKey (options s) e) priority s;
          alive = (ev = TE_ExpandedAlive);
          candidate = (alive \<and> isClosedLossCandidate s1 child);
          initialReason = (if alive then getInitialClosedLossBlockReason s1 child else Block_None)
      in setEvent (toSearchProgressEvent ev)
           (recordTrace (expansionEntry ev child (df_node f) action e priority candidate
              (childOutcomeOf ev e) (childBlockReasonOf ev e initialReason) (exShapeProbe s e)) s1))"

lemma appended_fields:
  fixes s :: "'d dfs_search"
  defines "n \<equiv> \<lambda>f action e s. childNode (options (s :: 'd dfs_search)) (df_node f) (nodes s ! df_node f) action e"
  shows "nodes (appended f action priority e s) = nodes s @ [n f action e s]"
    "dfsStack (appended f action priority e s) = dfsStack s"
    "nodeOutcomes (appended f action priority e s) = nodeOutcomes s @ [Outcome_Open]"
    "blockReasons (appended f action priority e s) = blockReasons s @ [Block_None]"
    "lossKeys (appended f action priority e s) = lossKeys s @ [exKey (options s) e]"
    "exactTable (appended f action priority e s) = exactTable s"
    "shapeTable (appended f action priority e s) = shapeTable s"
    "bestLeafIndex (appended f action priority e s) = bestLeafIndex s"
    "bestFrontier (appended f action priority e s) = bestFrontier s"
    "bestScore (appended f action priority e s) = bestScore s"
    "rootPrefixFrames (appended f action priority e s) = rootPrefixFrames s"
    "options (appended f action priority e s) = options s"
    "plan (appended f action priority e s) = plan s"
    "driver (appended f action priority e s) = driver s"
    "completed (appended f action priority e s) = completed s"
    "paused (appended f action priority e s) = paused s"
    "pg_bestFrontier (progress (appended f action priority e s)) = pg_bestFrontier (progress s)"
    "pg_searchedNodeCount (progress (appended f action priority e s))
       = pg_searchedNodeCount (progress s) + 1"
  by (auto simp: appended_def appendChild_def updateRenderableState_def recordTrace_def
      setEvent_def Let_def n_def split: option.split)

lemma appended_trace:
  "\<exists>t. trace (appended f action priority e s) = trace s @ [t]
     \<and> te_eventType t = exTraceEvent s (nodes s ! df_node f) e
     \<and> te_frontier t = sm_bestFrontier (ex_summary e)
     \<and> te_evaluationScore t = sm_evaluationScore (ex_summary e)
     \<and> te_nodeIndex t = length (nodes s)"
  by (auto simp: appended_def appendChild_def updateRenderableState_def recordTrace_def
      setEvent_def Let_def expansionEntry_def traceEntry_def split: option.split)

lemma appended_candidate:
  "isClosedLossCandidate (appendChild n key p s) (length (nodes s))"
  by (simp add: isClosedLossCandidate_def appendChild_def updateRenderableState_def Let_def
      split: option.split)

lemma commit_eq:
  "commitExpansion (df_node f) action priority e s = do {
     s3 \<leftarrow> (let ev = exTraceEvent s (nodes s ! df_node f) e;
                t = appended f action priority e s
            in if exPushed s (nodes s ! df_node f) e
               then pushChild (length (nodes s)) action e (ev = TE_ExpandedAlive) Block_None t
               else Some (pruneChild (length (nodes s)) (childOutcomeOf ev e)
                      (childBlockReasonOf ev e Block_None) t));
     finishExpansion s3
   }"
  by (simp add: commitExpansion_def appended_def Let_def appended_candidate
      getInitialClosedLossBlockReason_def)

text \<open>An expansion as \<open>runExpansion\<close> returns it: falling below the screen ends the episode.\<close>

definition expansion_ok :: "expansion \<Rightarrow> bool" where
  "expansion_ok e = (exBelowScreen e \<longrightarrow> sm_terminal (ex_summary e))"

lemma event_pushed:
  "expansion_ok e \<Longrightarrow> (exTraceEvent s p e = TE_ExpandedAlive) = exPushed s p e"
  by (auto simp: expansion_ok_def exTraceEvent_def exPushed_def exTerminalLoss_def)

lemma runExpansion_Inr:
  assumes "runExpansion env d parent action = (Inr e, d')"
  shows "\<exists>d1 sr. env_load env d (sn_savestate parent) = (True, d1)
    \<and> env_step env d1 (playerControlFrameToNesMask (actionToFrame action)) = (sr, d')
    \<and> sr_runtimeHealthy sr \<and> sr_runtimeRunning sr \<and> sr_advancedFrames sr \<noteq> 0
    \<and> sr_memorySnapshot sr = Some (ex_memory e) \<and> ex_state e = extractState (ex_memory e) True
    \<and> ex_summary e = buildSmbSearchEvaluatorSummary
        (SmbFitness (snapshot (snd (evaluate (evaluatorFromSummary (sn_summary parent))
           (sr_advancedFrames sr) (ex_state e))))) (gameStateOfPhase (phase (ex_state e)))
    \<and> env_savestate env d' = Some (ex_savestate e)"
  using assms
  by (auto simp: runExpansion_def Let_def simp del: buildSmbSearchEvaluatorSummary.simps
      split: prod.splits if_splits option.splits)

lemma runExpansion_ok:
  assumes "runExpansion env d parent action = (Inr e, d')"
  shows "expansion_ok e"
proof -
  obtain sn gs where "ex_summary e = buildSmbSearchEvaluatorSummary (SmbFitness sn) gs"
    and "\<exists>ev adv st. sn = snapshot (snd (evaluate ev adv st))"
    using runExpansion_Inr [OF assms] by blast
  then show ?thesis
    by (auto simp: expansion_ok_def exBelowScreen_def evaluate_snapshot makeSnapshot_def
        evaluate_done_iff_reason)
qed

lemma childOutcome_pruned: "ev \<noteq> TE_ExpandedAlive \<Longrightarrow> childOutcomeOf ev e \<noteq> Outcome_Open"
  by (simp add: childOutcomeOf_def)

lemma childNode_fields [simp]:
  "sn_parent (childNode opts p parent action e) = Some p"
  "sn_action (childNode opts p parent action e) = Some action"
  "sn_summary (childNode opts p parent action e) = ex_summary e"
  "sn_savestate (childNode opts p parent action e) = ex_savestate e"
  by (simp_all add: childNode_def)

text \<open>The state just before the expansion is committed: the top frame points past the action.\<close>

definition stepped :: "'d \<Rightarrow> dfs_frame \<Rightarrow> dfs_frame list \<Rightarrow> 'd dfs_search \<Rightarrow> 'd dfs_search" where
  "stepped d f fs s = s\<lparr>dfsStack := advance f # fs, driver := Some d\<rparr>"

lemma stepped_eq: "dfsStack s = f # fs \<Longrightarrow> (advanceTop s)\<lparr>driver := Some d\<rparr> = stepped d f fs s"
  by (simp add: advanceTop_def stepped_def advance_def)

lemma stepped_fields [simp]:
  "nodes (stepped d f fs s) = nodes s" "dfsStack (stepped d f fs s) = advance f # fs"
  "nodeOutcomes (stepped d f fs s) = nodeOutcomes s" "blockReasons (stepped d f fs s) = blockReasons s"
  "lossKeys (stepped d f fs s) = lossKeys s" "exactTable (stepped d f fs s) = exactTable s"
  "shapeTable (stepped d f fs s) = shapeTable s" "options (stepped d f fs s) = options s"
  "same_best s (stepped d f fs s)" "plan (stepped d f fs s) = plan s"
  "trace (stepped d f fs s) = trace s" "driver (stepped d f fs s) = Some d"
  "completed (stepped d f fs s) = completed s" "paused (stepped d f fs s) = paused s"
  "progress (stepped d f fs s) = progress s"
  by (simp_all add: stepped_def same_best_def)

text \<open>The members after a pruned child.\<close>

definition pruned ::
  "dfs_frame \<Rightarrow> smb_action \<Rightarrow> bool \<Rightarrow> expansion \<Rightarrow> 'd dfs_search \<Rightarrow> 'd dfs_search" where
  "pruned f action priority e s =
     (let ev = exTraceEvent s (nodes s ! df_node f) e
      in pruneChild (length (nodes s)) (childOutcomeOf ev e) (childBlockReasonOf ev e Block_None)
           (appended f action priority e s))"

lemma pruned_fields:
  fixes s :: "'d dfs_search" and d :: 'd and e :: expansion and action :: smb_action
    and priority :: bool
  assumes "core_inv s" and "dfsStack s = f # fs"
  defines "s1 \<equiv> stepped d f fs s"
  defines "t \<equiv> pruned f action priority e s1"
  defines "n \<equiv> childNode (options s) (df_node f) (nodes s ! df_node f) action e"
  defines "out \<equiv> childOutcomeOf (exTraceEvent s1 (nodes s ! df_node f) e) e"
  shows "nodes t = nodes s @ [releaseNode n]"
    and "\<exists>r. dfsStack t = noteChildOutcome out r (advance f) # fs"
    and "nodeOutcomes t = nodeOutcomes s @ [out]"
    and "length (blockReasons t) = Suc (length (blockReasons s))"
    and "lossKeys t = lossKeys s @ [exKey (options s) e]"
    and "exactTable t = pubExact out (exKey (options s) e) (sn_summary n) (exactTable s)"
    and "shapeTable t = pubShape out (exKey (options s) e) (sn_summary n) (shapeTable s)"
    and "bestLeafIndex t = bestLeafIndex s" "bestFrontier t = bestFrontier s"
    and "bestScore t = bestScore s" "rootPrefixFrames t = rootPrefixFrames s"
    and "options t = options s" "plan t = plan s" "completed t = completed s" "paused t = paused s"
    and "pg_bestFrontier (progress t) = pg_bestFrontier (progress s)"
    and "pg_searchedNodeCount (progress t) = pg_searchedNodeCount (progress s) + 1"
    and "trace t = trace (appended f action priority e s1)"
    and "driver t = Some d"
proof -
  let ?a = "appended f action priority e s1"
  let ?i = "length (nodes s)"
  let ?r = "childBlockReasonOf (exTraceEvent s1 (nodes s ! df_node f) e) e Block_None"
  note len = core_inv_lengths [OF assms(1)]
  have s1: "nodes s1 = nodes s" "dfsStack s1 = advance f # fs" "nodeOutcomes s1 = nodeOutcomes s"
    "blockReasons s1 = blockReasons s" "lossKeys s1 = lossKeys s" "exactTable s1 = exactTable s"
    "shapeTable s1 = shapeTable s" "options s1 = options s" "plan s1 = plan s" "progress s1 = progress s"
    "driver s1 = Some d" "completed s1 = completed s" "paused s1 = paused s" "same_best s s1"
    by (simp_all add: s1_def)
  note af = appended_fields [of f action priority e s1] s1(1-13)
  note sb = s1(14)
  let ?b = "noteOnTop out ?r (setOutcome ?i out ?r ?a)"
  have b: "nodes ?b = nodes s @ [n]" "lossKeys ?b = lossKeys s @ [exKey (options s) e]"
    "nodeOutcomes ?b = nodeOutcomes s @ [out]"
    "length (blockReasons ?b) = Suc (length (blockReasons s))"
    "dfsStack ?b = noteChildOutcome out ?r (advance f) # fs"
    "exactTable ?b = exactTable s" "shapeTable ?b = shapeTable s"
    using len by (simp_all add: noteOnTop_eq setOutcome_def af noteTop_def n_def list_update_append)
  have rest: "bestLeafIndex ?b = bestLeafIndex s" "bestFrontier ?b = bestFrontier s"
    "bestScore ?b = bestScore s" "rootPrefixFrames ?b = rootPrefixFrames s"
    "options ?b = options s" "plan ?b = plan s" "completed ?b = completed s" "paused ?b = paused s"
    "pg_bestFrontier (progress ?b) = pg_bestFrontier (progress s)"
    "pg_searchedNodeCount (progress ?b) = pg_searchedNodeCount (progress s) + 1"
    "trace ?b = trace ?a" "driver ?b = Some d"
    using sb by (simp_all add: noteOnTop_eq setOutcome_def af same_best_def)
  let ?c = "publishClosedLossEntry ?i ?b"
  have nth: "(nodes s @ [n]) ! ?i = n" "(lossKeys s @ [exKey (options s) e]) ! ?i = exKey (options s) e"
    "(nodeOutcomes s @ [out]) ! ?i = out"
    using len by (metis nth_append_length)+
  have c: "?c = ?b\<lparr>exactTable := pubExact out (exKey (options s) e) (sn_summary n) (exactTable s),
      shapeTable := pubShape out (exKey (options s) e) (sn_summary n) (shapeTable s)\<rparr>"
    using publish_eq [of ?i ?b] len by (simp add: b nth)
  have skip: "pubExact out key sm tab = tab" "pubShape out key sm shp = shp"
    if "out \<noteq> Outcome_ClosedLoss" for key sm tab shp
    using that by (simp_all add: pubExact_def pubShape_def split: option.split)
  have "?b\<lparr>exactTable := exactTable s, shapeTable := shapeTable s\<rparr> = ?b"
    using b by (metis (no_types) dfs_search.surjective dfs_search.update_convs(13,14))
  then have c': "(if out = Outcome_ClosedLoss then ?c else ?b) = ?c" using c skip by auto
  have "t = releaseNodeHeavyData ?i ?c"
    unfolding t_def pruned_def Let_def pruneChild_def
    using c' by (simp add: s1(1) out_def [symmetric] Let_def split: if_splits)
  also have "\<dots> = ?c\<lparr>nodes := nodes s @ [releaseNode n]\<rparr>"
    by (subst release_eq) (simp_all add: c b nth list_update_append)
  finally have t: "t = ?c\<lparr>nodes := nodes s @ [releaseNode n]\<rparr>" .
  show "nodes t = nodes s @ [releaseNode n]"
    "\<exists>r. dfsStack t = noteChildOutcome out r (advance f) # fs"
    "nodeOutcomes t = nodeOutcomes s @ [out]"
    "length (blockReasons t) = Suc (length (blockReasons s))"
    "lossKeys t = lossKeys s @ [exKey (options s) e]"
    "exactTable t = pubExact out (exKey (options s) e) (sn_summary n) (exactTable s)"
    "shapeTable t = pubShape out (exKey (options s) e) (sn_summary n) (shapeTable s)"
    "bestLeafIndex t = bestLeafIndex s" "bestFrontier t = bestFrontier s"
    "bestScore t = bestScore s" "rootPrefixFrames t = rootPrefixFrames s"
    "options t = options s" "plan t = plan s" "completed t = completed s" "paused t = paused s"
    "pg_bestFrontier (progress t) = pg_bestFrontier (progress s)"
    "pg_searchedNodeCount (progress t) = pg_searchedNodeCount (progress s) + 1"
    "trace t = trace ?a" "driver t = Some d"
    unfolding t c using b rest by auto
qed

text \<open>The parts of the invariant, by name.\<close>

lemma core_invD:
  assumes "core_inv s" and "dfsStack s = f # fs"
  shows "tree_ok (nodes s)" "stack_ok (nodes s) (f # fs)"
    "outcomes_ok (nodes s) (nodeOutcomes s) (f # fs)" "loss_ok (nodes s) (nodeOutcomes s) (f # fs)"
    "heavy_ok (nodes s) (f # fs)"
    "tables_ok (nodes s) (nodeOutcomes s) (lossKeys s) (exactTable s) (shapeTable s)"
    "df_node f < length (nodes s)" "frame_ok f" "parents_before (nodes s)"
  using assms by (auto simp: core_inv_def stack_ok_def dest: tree_ok_parents)

text \<open>The node of the action that the top frame points at.\<close>

lemma expand_tree:
  assumes "core_inv s" and "dfsStack s = f # fs" and "df_next f < ao_count (df_ordering f)"
    and "sn_parent n = Some (df_node f)"
    and "sn_action n = Some (ao_actions (df_ordering f) ! df_next f)"
  shows "tree_ok (nodes s @ [n])" and "stack_ok (nodes s @ [n]) (advance f # fs)"
proof -
  note inv = core_invD [OF assms(1,2)]
  show "tree_ok (nodes s @ [n])"
    by (rule tree_ok_append [OF inv(1,7) assms(4,5) next_untried [OF inv(2) assms(3)]])
  show "stack_ok (nodes s @ [n]) (advance f # fs)"
    by (rule stack_ok_expand [OF inv(1,2) assms(3-5)])
qed

lemma pruned_core:
  fixes d :: 'd and s :: "'d dfs_search"
  assumes "core_inv s" and "dfsStack s = f # fs" and "df_next f < ao_count (df_ordering f)"
    and "action = ao_actions (df_ordering f) ! df_next f"
    and "exTraceEvent (stepped d f fs s) (nodes s ! df_node f) e \<noteq> TE_ExpandedAlive"
  shows "core_inv (pruned f action priority e (stepped d f fs s))"
proof -
  let ?n = "childNode (options s) (df_node f) (nodes s ! df_node f) action e"
  let ?m = "releaseNode ?n"
  let ?out = "childOutcomeOf (exTraceEvent (stepped d f fs s) (nodes s ! df_node f) e) e"
  note inv = core_invD [OF assms(1,2)]
  note len = core_inv_lengths [OF assms(1)]
  note pf = pruned_fields [OF assms(1,2), of action priority e d]
  have out: "?out \<noteq> Outcome_Open" using assms(5) by (rule childOutcome_pruned)
  have tree: "tree_ok (nodes s @ [?m])" "stack_ok (nodes s @ [?m]) (advance f # fs)"
    using expand_tree [OF assms(1-3), of ?m] assms(4) by simp_all
  obtain r where st: "dfsStack (pruned f action priority e (stepped d f fs s))
      = noteChildOutcome ?out r (advance f) # fs" using pf(2) by blast
  have "stack_ok (nodes s @ [?m]) (noteChildOutcome ?out r (advance f) # fs)"
    by (rule stack_ok_top [OF tree(2)]) (simp_all add: frame_ok_note frame_ok_advance inv(8) assms(3))
  moreover have "outcomes_ok (nodes s @ [?m]) (nodeOutcomes s @ [?out])
      (noteChildOutcome ?out r (advance f) # fs)"
    by (rule outcomes_prune [OF inv(3) out _ stack_in_range [OF inv(2)]]) simp_all
  moreover have "loss_ok (nodes s @ [?m]) (nodeOutcomes s @ [?out])
      (noteChildOutcome ?out r (advance f) # fs)"
    by (rule loss_prune [OF inv(4,3,1,2) _ out]) simp
  moreover have "heavy_ok (nodes s @ [?m]) (noteChildOutcome ?out r (advance f) # fs)"
    by (rule heavy_prune [OF inv(5)]) simp
  moreover have "tables_ok (nodes s @ [?m]) (nodeOutcomes s @ [?out]) (lossKeys s @ [exKey (options s) e])
      (pubExact ?out (exKey (options s) e) (sn_summary ?m) (exactTable s))
      (pubShape ?out (exKey (options s) e) (sn_summary ?m) (shapeTable s))"
    by (rule tables_publish [OF inv(6) _ exactProof_append]) (simp_all add: len)
  ultimately show ?thesis
    using tree(1) len pf(4) by (simp add: core_inv_def pf(1,3,5,6,7) st)
qed

text \<open>Adding one node, with the best leaf unchanged.\<close>

lemma best_inv_grow:
  assumes "best_inv s" and "leaf_ok s" and "skeleton (nodes t) = skeleton (nodes s) @ [x]"
    and "parents_before (nodes t)" and "nodes s \<noteq> []"
    and "bestLeafIndex t = bestLeafIndex s" "bestFrontier t = bestFrontier s"
      "bestScore t = bestScore s" "rootPrefixFrames t = rootPrefixFrames s" "plan t = plan s"
      "pg_bestFrontier (progress t) = pg_bestFrontier (progress s)"
      "pg_searchedNodeCount (progress t) = pg_searchedNodeCount (progress s) + 1"
  shows "best_inv t"
proof -
  have plan: "planFor t = planFor s"
    by (rule planFor_grow [OF assms(3,4,2)]) (simp_all add: assms)
  have len: "length (nodes t) = Suc (length (nodes s))"
    using arg_cong [OF assms(3), of length] by (simp add: skeleton_def)
  have "of_nat (length (nodes s) - 1) + (1 :: u64) = of_nat (length (nodes s))"
    using assms(5) by (cases "nodes s") (simp_all add: add.commute)
  moreover have "nodes t \<noteq> []" using len by auto
  moreover have "sn_summary (nodes t ! b) = sn_summary (nodes s ! b)" "b < length (nodes t)"
    if "bestLeafIndex s = Some b" for b
    using that assms(2) summary_grow [OF assms(3)] len by (auto simp: leaf_ok_def)
  ultimately show ?thesis
    using assms(1,5) unfolding best_inv_def plan len assms(6-12) by auto
qed

lemma dfs_inv_nodes: "dfs_inv s \<Longrightarrow> dfsStack s = f # fs \<Longrightarrow> nodes s \<noteq> []"
  using core_invD(7) by (fastforce simp: dfs_inv_def)

lemma pruned_inv:
  fixes d :: 'd and s :: "'d dfs_search"
  assumes "dfs_inv s" and "dfsStack s = f # fs" and "df_next f < ao_count (df_ordering f)"
    and "action = ao_actions (df_ordering f) ! df_next f"
    and "exTraceEvent (stepped d f fs s) (nodes s ! df_node f) e \<noteq> TE_ExpandedAlive"
    and "expansion_ok e"
  shows "dfs_inv (pruned f action priority e (stepped d f fs s))"
proof -
  let ?t = "pruned f action priority e (stepped d f fs s)"
  have core: "core_inv s" using assms(1) by (simp add: dfs_inv_def)
  note pf = pruned_fields [OF core assms(2), of action priority e d]
  have cinv: "core_inv ?t" by (rule pruned_core [OF core assms(2-5)])
  then have pb: "parents_before (nodes ?t)" by (simp add: core_inv_def tree_ok_parents)
  have "best_inv ?t"
    by (rule best_inv_grow [OF _ dfs_inv_leaf [OF assms(1)] _ pb dfs_inv_nodes [OF assms(1,2)]])
      (use assms(1) in \<open>simp_all add: dfs_inv_def pf skeleton_def\<close>)
  moreover obtain te where "trace ?t = trace (stepped d f fs s) @ [te]"
    "te_eventType te = exTraceEvent (stepped d f fs s) (nodes s ! df_node f) e"
    using appended_trace [of f action priority e "stepped d f fs s"] pf(18) by auto
  moreover have "te_eventType te \<noteq> TE_RootInitialized"
    using calculation(3) by (auto simp: exTraceEvent_def)
  ultimately have "trace_inv ?t"
    using assms(1,5) by (auto simp: dfs_inv_def trace_inv_def pf(9,10))
  with cinv \<open>best_inv ?t\<close> show ?thesis by (simp add: dfs_inv_def)
qed

text \<open>The members after a child was pushed.\<close>

definition newFrame :: "search_options \<Rightarrow> nat \<Rightarrow> smb_action \<Rightarrow> expansion \<Rightarrow> dfs_frame" where
  "newFrame opts child action e =
     \<lparr>df_node = child, df_next = 0,
      df_ordering = buildDfsActionOrder (airborne (ex_state e))
        (verticalSpeedNormalized (ex_state e)) (getHorizontalDirection (ex_state e))
        (Some action) (groundedVerticalJumpPrioritizationEnabled opts),
      df_candidate = True, df_blockReason = Block_None\<rparr>"

lemma frame_ok_new: "frame_ok (newFrame opts child action e)"
  by (auto simp: frame_ok_def newFrame_def order_distinct order_set)

definition pushed ::
  "dfs_frame \<Rightarrow> smb_action \<Rightarrow> bool \<Rightarrow> expansion \<Rightarrow> 'd dfs_search \<Rightarrow> 'd dfs_search" where
  "pushed f action priority e s =
     (let child = length (nodes s);
          t = appended f action priority e s;
          u = (if beatsBest t (ex_summary e) then newBest child (ex_summary e) t else t)
      in u\<lparr>dfsStack := newFrame (options s) child action e # dfsStack t\<rparr>)"

lemma pushChild_eq:
  assumes "parents_before (nodes (appended f action priority e s))"
  shows "pushChild (length (nodes s)) action e True Block_None (appended f action priority e s)
         = Some (pushed f action priority e s)"
proof -
  let ?t = "appended f action priority e s"
  have at: "sn_summary (nodes ?t ! length (nodes s)) = ex_summary e"
    by (simp add: appended_fields)
  have stack: "dfsStack (newBest i sm ?t) = dfsStack ?t" for i sm
    using newBest_fields(1) [of ?t i sm] by (simp add: same_core_def)
  show ?thesis
    using updateBestLeaf_eq [OF assms, of "length (nodes s)"]
    by (simp add: pushChild_def at pushed_def newFrame_def Let_def appended_fields stack)
qed

lemma pushed_core_fields:
  "same_core ((appended f action priority e s)
      \<lparr>dfsStack := newFrame (options s) (length (nodes s)) action e # dfsStack s\<rparr>)
    (pushed f action priority e s)"
  using newBest_fields(1) [of "appended f action priority e s" "length (nodes s)" "ex_summary e"]
  by (simp add: pushed_def same_core_def Let_def appended_fields)

lemma pushed_core:
  fixes d :: 'd and s :: "'d dfs_search"
  assumes "core_inv s" and "dfsStack s = f # fs" and "df_next f < ao_count (df_ordering f)"
    and "action = ao_actions (df_ordering f) ! df_next f"
  shows "core_inv (pushed f action priority e (stepped d f fs s))"
proof (rule core_inv_same [OF pushed_core_fields])
  let ?n = "childNode (options s) (df_node f) (nodes s ! df_node f) action e"
  let ?g = "newFrame (options s) (length (nodes s)) action e"
  note inv = core_invD [OF assms(1,2)]
  note len = core_inv_lengths [OF assms(1)]
  have g: "df_node ?g = length (nodes s)" "df_next ?g = 0" "df_candidate ?g"
    by (simp_all add: newFrame_def)
  have tree: "tree_ok (nodes s @ [?n])" "stack_ok (nodes s @ [?n]) (advance f # fs)"
    using expand_tree [OF assms(1-3), of ?n] assms(4) by simp_all
  have leaf: "children (nodes s @ [?n]) (length (nodes s)) = {}"
    by (rule children_new [OF inv(1) _ inv(7)]) simp
  have "stack_ok (nodes s @ [?n]) (?g # advance f # fs)"
    by (rule stack_ok_push [OF inv(9) tree(2) _ _ frame_ok_new g(1,2) leaf]) (simp_all add: inv(7))
  moreover have "outcomes_ok (nodes s @ [?n]) (nodeOutcomes s @ [Outcome_Open]) (?g # advance f # fs)"
    by (rule outcomes_push [OF inv(3) g(1)]) (simp add: g)
  moreover have "loss_ok (nodes s @ [?n]) (nodeOutcomes s @ [Outcome_Open]) (?g # advance f # fs)"
    by (rule loss_push [OF inv(4,3,1,2) _ g(1,3)]) simp
  moreover have "heavy_ok (nodes s @ [?n]) (?g # advance f # fs)"
    by (rule heavy_push [OF inv(5)]) (simp add: g)
  moreover have "tables_ok (nodes s @ [?n]) (nodeOutcomes s @ [Outcome_Open])
      (lossKeys s @ [exKey (options s) e])
      (pubExact Outcome_Open None (sn_summary ?n) (exactTable s))
      (pubShape Outcome_Open None (sn_summary ?n) (shapeTable s))"
    by (rule tables_publish [OF inv(6)])
      (simp_all add: len exactProof_append newProof_def)
  ultimately show "core_inv ((appended f action priority e (stepped d f fs s))
      \<lparr>dfsStack := newFrame (options (stepped d f fs s)) (length (nodes (stepped d f fs s))) action e
         # dfsStack (stepped d f fs s)\<rparr>)"
    using tree(1) len by (simp add: core_inv_def appended_fields pubExact_def pubShape_def)
qed

lemma pushed_rest:
  fixes s :: "'d dfs_search" and f :: dfs_frame and e :: expansion and action :: smb_action
    and priority :: bool
  assumes "nodes s \<noteq> []" and "bestLeafIndex s \<noteq> None"
  defines "t \<equiv> appended f action priority e s" and "u \<equiv> pushed f action priority e s"
  shows "trace u = trace t" "rootPrefixFrames u = rootPrefixFrames s" "options u = options s"
    "driver u = driver s" "completed u = completed s" "paused u = paused s"
    "pg_searchedNodeCount (progress u) = pg_searchedNodeCount (progress s) + 1"
    "nodes u = nodes t"
    "dfsStack u = newFrame (options s) (length (nodes s)) action e # dfsStack s"
    "notAbove (sm_bestFrontier (ex_summary e)) (sm_evaluationScore (ex_summary e))
       (bestFrontier u) (bestScore u)"
    "notAbove (bestFrontier s) (bestScore s) (bestFrontier u) (bestScore u)"
proof -
  note sc = pushed_core_fields [where f = f and action = action and priority = priority
      and e = e and s = s, folded u_def t_def]
  show "nodes u = nodes t"
    "dfsStack u = newFrame (options s) (length (nodes s)) action e # dfsStack s"
    using sc by (simp_all add: same_core_def)
  show "trace u = trace t" "rootPrefixFrames u = rootPrefixFrames s" "options u = options s"
    "driver u = driver s" "completed u = completed s" "paused u = paused s"
    "pg_searchedNodeCount (progress u) = pg_searchedNodeCount (progress s) + 1"
    by (simp_all add: u_def t_def pushed_def Let_def appended_fields)
  show "notAbove (sm_bestFrontier (ex_summary e)) (sm_evaluationScore (ex_summary e))
       (bestFrontier u) (bestScore u)"
    "notAbove (bestFrontier s) (bestScore s) (bestFrontier u) (bestScore u)"
    using assms(2)
    by (auto simp: u_def pushed_def Let_def appended_fields beatsBest_def notAbove_def)
qed

lemma pushed_best:
  assumes "best_inv s" and "leaf_ok s" and "nodes s \<noteq> []"
    and "parents_before (nodes (appended f action priority e s))"
  shows "best_inv (pushed f action priority e s)"
proof -
  let ?t = "appended f action priority e s"
  let ?g = "newFrame (options s) (length (nodes s)) action e # dfsStack ?t"
  have t: "best_inv ?t"
    by (rule best_inv_grow [OF assms(1,2) _ assms(4,3)]) (simp_all add: appended_fields skeleton_def)
  show ?thesis
  proof (cases "beatsBest ?t (ex_summary e)")
    case False
    then have "pushed f action priority e s = ?t\<lparr>dfsStack := ?g\<rparr>"
      by (simp add: pushed_def Let_def)
    then show ?thesis using t by simp
  next
    case True
    let ?u = "newBest (length (nodes s)) (ex_summary e) ?t"
    have sc: "nodes ?u = nodes ?t" using newBest_fields(1) [of ?t] by (simp add: same_core_def)
    have u: "pushed f action priority e s = ?u\<lparr>dfsStack := ?g\<rparr>"
      and plan: "planFor (pushed f action priority e s) = planFor ?u"
      using True by (simp_all add: pushed_def Let_def)
    have "sn_summary (nodes ?t ! length (nodes s)) = ex_summary e" by (simp add: appended_fields)
    moreover have "length (nodes ?t) = Suc (length (nodes s))" by (simp add: appended_fields)
    moreover from this have "nodes ?t \<noteq> []" by auto
    ultimately show ?thesis
      using t unfolding best_inv_def plan
      by (simp add: u newBest_plan sc)
  qed
qed

lemma pushed_inv:
  fixes d :: 'd and s :: "'d dfs_search"
  assumes "dfs_inv s" and "dfsStack s = f # fs" and "df_next f < ao_count (df_ordering f)"
    and "action = ao_actions (df_ordering f) ! df_next f"
  shows "dfs_inv (pushed f action priority e (stepped d f fs s))"
proof -
  let ?s = "stepped d f fs s"
  let ?t = "pushed f action priority e ?s"
  note ne = dfs_inv_nodes [OF assms(1,2)]
  have core: "core_inv s" and best: "best_inv s" and trace: "trace_inv s"
    using assms(1) by (simp_all add: dfs_inv_def)
  have some: "bestLeafIndex ?s \<noteq> None" using best ne by (simp add: best_inv_def stepped_def)
  note rest = pushed_rest [OF _ some, where f = f and action = action and priority = priority
      and e = e]
  have cinv: "core_inv ?t" by (rule pushed_core [OF core assms(2-4)])
  then have pb: "parents_before (nodes (appended f action priority e ?s))"
    using rest(8) ne by (simp add: core_inv_def tree_ok_parents)
  have "best_inv ?s" using best by (simp add: stepped_def)
  moreover have "leaf_ok ?s" using dfs_inv_leaf [OF assms(1)] by (simp add: leaf_ok_def stepped_def)
  ultimately have binv: "best_inv ?t" using pb ne by (intro pushed_best) auto
  obtain te where te: "trace ?t = trace s @ [te]"
    "te_frontier te = sm_bestFrontier (ex_summary e)"
    "te_evaluationScore te = sm_evaluationScore (ex_summary e)"
    using appended_trace [of f action priority e ?s] rest(1) ne by auto
  have fb: "bestFrontier ?s = bestFrontier s" "bestScore ?s = bestScore s"
    by (simp_all add: stepped_def)
  have "trace_inv ?t"
    unfolding trace_inv_def
  proof (intro ballI impI)
    fix x assume "x \<in> set (trace ?t)"
      and ty: "te_eventType x \<in> {TE_RootInitialized, TE_ExpandedAlive}"
    then consider "x = te" | "x \<in> set (trace s)" using te(1) by auto
    then show "notAbove (te_frontier x) (te_evaluationScore x) (bestFrontier ?t) (bestScore ?t)"
    proof cases
      case 1
      with rest(10) ne te(2,3) show ?thesis by simp
    next
      case 2
      with trace ty have "notAbove (te_frontier x) (te_evaluationScore x) (bestFrontier s) (bestScore s)"
        by (auto simp: trace_inv_def)
      with rest(11) ne fb show ?thesis by (auto intro: notAbove_trans)
    qed
  qed
  with cinv binv show ?thesis by (simp add: dfs_inv_def)
qed

end
