(* ===== verification/DfsReach.thy ===== *)
theory DfsReach
  imports DfsInvariant
begin

text \<open>
  The search object from outside: one tick, the operations of the public interface as a step
  relation, the states it can reach, and how many ticks a bounded search needs. The properties
  of the search stand here, after the lemma that each operation keeps the invariant and returns.
\<close>

section \<open>One tick\<close>

text \<open>
  What a tick of a running search does: it completes the search, or adds one node and at most
  one frame, or drops one frame. The result reports completion exactly.
\<close>

definition advances :: "'d dfs_search \<Rightarrow> 'd dfs_search \<Rightarrow> bool" where
  "advances s t =
     ((length (nodes t) = Suc (length (nodes s)) \<and> length (dfsStack t) \<le> Suc (length (dfsStack s)))
      \<or> (length (nodes t) = length (nodes s) \<and> length (dfsStack t) < length (dfsStack s)))"

definition good_tick :: "'d dfs_search \<Rightarrow> ('d dfs_search \<times> tick_result) option \<Rightarrow> bool" where
  "good_tick s out =
     (\<exists>t r. out = Some (t, r) \<and> search_inv t \<and> tr_completed r = completed t \<and> \<not> paused t
        \<and> options t = options s \<and> driver t \<noteq> None \<and> (completed t \<or> advances s t)
        \<and> length (nodes t) \<le> Suc (length (nodes s)))"

lemma good_tickE:
  assumes "good_tick s out"
  obtains t r where "out = Some (t, r)" "search_inv t" "tr_completed r = completed t" "\<not> paused t"
    "options t = options s" "driver t \<noteq> None" "completed t \<or> advances s t"
    "length (nodes t) \<le> Suc (length (nodes s))"
  using assms by (auto simp: good_tick_def)

lemma search_inv_dfs: "dfs_inv s \<Longrightarrow> search_inv s"
  by (simp add: search_inv_def dfs_inv_soft)

lemma search_inv_running: "search_inv s \<Longrightarrow> \<not> completed s \<Longrightarrow> dfs_inv s"
  by (simp add: search_inv_def failed_def)

lemma finishWith_nodes: "nodes (finishWith pe cr msg entry s) = nodes s"
  using finishWith_fields(1) [of s pe cr msg entry] by (simp add: same_core_def)

lemma completeTick_good:
  assumes "dfs_inv s" and "driver s \<noteq> None" and "ev \<notin> {TE_RootInitialized, TE_ExpandedAlive}"
    and "options u = options s" and "length (nodes s) \<le> Suc (length (nodes u))"
  shows "good_tick u (completeTick ev s)"
  using assms finishWith_inv [of s "bestLeafEntry ev"]
  by (simp add: finishWith_nodes good_tick_def completeTick_def completeWithTraceEvent_eq dfs_inv_leaf idle_tick_def
      search_inv_dfs)

lemma failTick_search:
  assumes "soft_inv s"
  shows "\<exists>t. failTick msg s = Some (t, idle_tick\<lparr>tr_completed := True, tr_error := Some msg\<rparr>)
    \<and> search_inv t \<and> completed t \<and> \<not> paused t \<and> options t = options s \<and> driver t = driver s
    \<and> failed t \<and> completionErrorMessage t = Some msg \<and> nodes t = nodes s"
  using assms finishWith_soft [of s "bestLeafEntry TE_Error"]
  by (simp add: failTick_def completeWithError_eq soft_inv_leaf search_inv_def failed_def
      finishWith_nodes)

lemma failTick_good:
  assumes "soft_inv s" and "driver s \<noteq> None" and "options u = options s"
    and "length (nodes s) \<le> Suc (length (nodes u))"
  shows "good_tick u (failTick msg s)"
  using failTick_search [OF assms(1), of msg] assms(2-4)
  by (auto simp: good_tick_def idle_tick_def)

lemma finishExpansion_good:
  assumes "dfs_inv t" and "driver t \<noteq> None" and "\<not> completed t" and "\<not> paused t"
    and "options t = options s" and "advances s t"
  shows "good_tick s (finishExpansion t)"
proof -
  let ?e = "TE_CompletedMilestoneReached"
  let ?m = "completeWithTraceEvent ?e t"
  have "dfs_inv (finishWith (toSearchProgressEvent ?e) CR_Completed None (bestLeafEntry ?e) t)"
    by (rule finishWith_inv [OF assms(1)]) simp
  moreover have "length (nodes t) \<le> Suc (length (nodes s))"
    using assms(6) by (auto simp: advances_def)
  ultimately have "good_tick s (?m \<bind> (\<lambda>t1. Some (t1, advanced_tick True)))"
    using assms by (simp add: good_tick_def completeWithTraceEvent_eq dfs_inv_leaf advanced_tick_def
        search_inv_dfs finishWith_nodes)
  with assms \<open>length (nodes t) \<le> _\<close> show ?thesis
    by (auto simp: finishExpansion_def good_tick_def advanced_tick_def search_inv_dfs
        split: option.split)
qed

lemma stepped_soft:
  assumes "dfs_inv s" and "dfsStack s = f # fs"
  shows "soft_inv (stepped d f fs s)"
proof -
  have "candidate_ok (nodes s) (nodeOutcomes s) (advance f)"
    if "candidate_ok (nodes s) (nodeOutcomes s) f"
    using that by (simp add: candidate_ok_def)
  with assms have "soft_core (stepped d f fs s)"
    by (simp add: dfs_inv_soft soft_inv_def soft_core_def outcomes_ok_def loss_ok_def heavy_ok_def)
  moreover have "best_inv (stepped d f fs s)" using assms(1) by (simp add: dfs_inv_def stepped_def)
  moreover have "trace_inv (stepped d f fs s)"
    using assms(1) by (simp add: dfs_inv_def stepped_def trace_inv_def)
  ultimately show ?thesis by (simp add: soft_inv_def)
qed

lemma expandTop_good:
  assumes "dfs_inv s" and "dfsStack s = f # fs" and "df_next f < ao_count (df_ordering f)"
    and "\<not> completed s" and "\<not> paused s"
  shows "good_tick s (expandTop env d f s)"
proof -
  let ?action = "ao_actions (df_ordering f) ! df_next f"
  let ?priority = "df_next f < ao_groundedPriorityCount (df_ordering f)"
  have core: "core_inv s" using assms(1) by (simp add: dfs_inv_def)
  obtain x d1 where run: "runExpansion env d (nodes s ! df_node f) ?action = (x, d1)"
    by (cases "runExpansion env d (nodes s ! df_node f) ?action")
  let ?s = "stepped d1 f fs s"
  have nodes: "nodes (advanceTop s) = nodes s" by (simp add: advanceTop_def assms(2))
  show ?thesis
  proof (cases x)
    case (Inl msg)
    with run have "expandTop env d f s = failTick msg ?s"
      by (simp add: expandTop_def Let_def nodes stepped_eq [OF assms(2)])
    then show ?thesis using failTick_good [OF stepped_soft [OF assms(1,2)], of d1 s msg] by simp
  next
    case (Inr e)
    with run have ok: "expansion_ok e" by (simp add: runExpansion_ok)
    let ?ev = "exTraceEvent ?s (nodes s ! df_node f) e"
    have eq: "expandTop env d f s = commitExpansion (df_node f) ?action ?priority e ?s"
      using run Inr by (simp add: expandTop_def Let_def nodes stepped_eq [OF assms(2)])
    show ?thesis
    proof (cases "?ev = TE_ExpandedAlive")
      case False
      let ?t = "pruned f ?action ?priority e ?s"
      note pf = pruned_fields [OF core assms(2), of ?action ?priority e d1]
      have "expandTop env d f s = finishExpansion ?t"
        using False event_pushed [OF ok, of ?s "nodes s ! df_node f"]
        by (simp add: eq commit_eq Let_def pruned_def)
      moreover have "length (dfsStack ?t) = length (dfsStack s)"
        using pf(2) assms(2) by auto
      then have "advances s ?t" by (simp add: advances_def pf(1))
      ultimately show ?thesis
        using pruned_inv [OF assms(1-3) refl False ok, of ?priority] assms(4,5)
        by (simp add: finishExpansion_good pf)
    next
      case True
      let ?t = "pushed f ?action ?priority e ?s"
      have inv: "dfs_inv ?t" by (rule pushed_inv [OF assms(1-3) refl])
      have some: "bestLeafIndex ?s \<noteq> None"
        using dfs_inv_nodes [OF assms(1,2)] assms(1) by (simp add: dfs_inv_def best_inv_def stepped_def)
      note rest = pushed_rest [OF _ some, where f = f and action = ?action
          and priority = ?priority and e = e]
      have pb: "parents_before (nodes (appended f ?action ?priority e ?s))"
        using rest(8) inv dfs_inv_nodes [OF assms(1,2)]
        by (simp add: dfs_inv_def core_inv_def tree_ok_parents)
      have "expandTop env d f s = finishExpansion ?t"
        using True event_pushed [OF ok, of ?s "nodes s ! df_node f"] pushChild_eq [OF pb]
        by (simp add: eq commit_eq Let_def)
      moreover have "advances s ?t"
        using rest dfs_inv_nodes [OF assms(1,2)] by (simp add: advances_def appended_fields assms(2))
      ultimately show ?thesis
        using inv rest dfs_inv_nodes [OF assms(1,2)] assms(4,5)
        by (simp add: finishExpansion_good)
    qed
  qed
qed

lemma render_fields:
  "driver (updateRenderableState n s) = driver s" "completed (updateRenderableState n s) = completed s"
  "paused (updateRenderableState n s) = paused s" "plan (updateRenderableState n s) = plan s"
  "trace (updateRenderableState n s) = trace s"
  by (simp_all add: updateRenderableState_def Let_def split: option.split)

lemma pop_inv:
  assumes "dfs_inv s" and "dfsStack s = f # fs" and "df_next f \<ge> ao_count (df_ordering f)"
  shows "dfs_inv (noteOnTop (frameOutcome f) (frameReason f) (popExhausted f fs s))"
proof -
  let ?p = "popExhausted f fs s"
  let ?t = "noteOnTop (frameOutcome f) (frameReason f) ?p"
  have core: "core_inv s" using assms(1) by (simp add: dfs_inv_def)
  note pf = pop_fields [OF core assms(2)]
  have cinv: "core_inv ?t" by (rule pop_core [OF core assms(2,3)])
  then have pb: "parents_before (nodes ?p)"
    by (simp add: core_inv_def noteOnTop_eq tree_ok_parents)
  have "best_inv ?p"
    by (rule best_inv_pop [OF _ _ pf(8,9) dfs_inv_leaf [OF assms(1)] pb])
      (use assms(1) in \<open>simp_all add: dfs_inv_def pf(1)\<close>)
  then have "best_inv ?t" by (simp add: noteOnTop_eq)
  moreover have "trace_inv ?p"
    by (rule trace_inv_extend [OF _ pf(8,12)])
      (use assms(1) in \<open>auto simp: dfs_inv_def backtrackEntry_def traceEntry_def\<close>)
  then have "trace_inv ?t" by (simp add: trace_inv_def noteOnTop_eq)
  ultimately show ?thesis using cinv by (simp add: dfs_inv_def)
qed

lemma render_inv: "dfs_inv s \<Longrightarrow> dfs_inv (updateRenderableState n s)"
  using core_inv_same [OF render_same(1) [of s n]] best_inv_same [OF render_same [of s n]]
    trace_inv_extend [OF _ render_same(2), of s n "[]"]
  by (simp add: dfs_inv_def render_fields)

lemma tickLoop_empty:
  assumes "dfsStack s = []"
  shows "tickLoop env d s = completeTick (if budgetExceeded s then TE_CompletedBudgetExceeded
     else TE_CompletedExhausted) s"
  using assms by (simp add: tickLoop.simps [of env d s])

lemma tickLoop_good:
  assumes "dfs_inv s" and "driver s \<noteq> None" and "\<not> completed s" and "\<not> paused s"
  shows "good_tick s (tickLoop env d s)"
proof (cases "budgetExceeded s")
  case True
  with assms show ?thesis by (simp add: tickLoop.simps [of env d s] completeTick_good)
next
  case False
  show ?thesis
  proof (cases "dfsStack s")
    case Nil
    with assms show ?thesis by (simp add: tickLoop_empty completeTick_good)
  next
    case (Cons f fs)
    show ?thesis
    proof (cases "df_next f \<ge> ao_count (df_ordering f)")
      case False
      with \<open>\<not> budgetExceeded s\<close> Cons assms show ?thesis
        by (simp add: tickLoop.simps [of env d s] expandTop_good)
    next
      case True
      let ?p = "popExhausted f fs s"
      let ?t = "noteOnTop (frameOutcome f) (frameReason f) ?p"
      have core: "core_inv s" using assms(1) by (simp add: dfs_inv_def)
      note pf = pop_fields [OF core Cons]
      have inv: "dfs_inv ?t" by (rule pop_inv [OF assms(1) Cons True])
      have opts: "options ?p = options s" using pf(8) by (simp add: same_best_def)
      show ?thesis
      proof (cases "fs = []")
        case True
        then have "?t = ?p" by (simp add: noteOnTop_def)
        with inv have "dfs_inv ?p" by simp
        then have "good_tick s (completeTick ev ?p)"
          if "ev \<notin> {TE_RootInitialized, TE_ExpandedAlive}" for ev
          using that assms(2) opts pf(1,11) by (simp add: completeTick_good)
        with True \<open>\<not> budgetExceeded s\<close> \<open>df_next f \<ge> _\<close> Cons show ?thesis
          by (simp add: tickLoop.simps [of env d s] tickLoop_empty)
      next
        case False
        let ?u = "backtrackToParent f ?p"
        have sc: "same_core ?t ?u" "same_best ?t ?u"
          by (simp_all add: backtrackToParent_def Let_def)
        have "dfs_inv ?u" using inv by (simp add: backtrackToParent_def Let_def render_inv)
        moreover have "advances s ?u"
          using sc(1) by (simp add: advances_def same_core_def noteOnTop_eq noteTop_def pf Cons
              split: list.split)
        moreover have "completed ?u = completed s" "paused ?u = paused s" "driver ?u = driver s"
          by (simp_all add: backtrackToParent_def Let_def render_fields noteOnTop_eq pf)
        moreover have "options ?u = options s"
          using sc(2) opts by (simp add: same_best_def noteOnTop_eq)
        moreover have "length (nodes ?u) = length (nodes s)"
          using sc(1) by (simp add: same_core_def noteOnTop_eq pf)
        ultimately show ?thesis
          using False True \<open>\<not> budgetExceeded s\<close> Cons assms
          by (simp add: tickLoop.simps [of env d s] good_tick_def search_inv_dfs idle_tick_def)
      qed
    qed
  qed
qed

text \<open>Ticks that do nothing: a completed search, a paused one.\<close>

lemma tick_completed:
  "completed s \<Longrightarrow> tick env s = Some (s, idle_tick\<lparr>tr_completed := True,
     tr_error := (if completionReason s = Some CR_Error then completionErrorMessage s else None)\<rparr>)"
  by (simp add: tick_def)

lemma tick_paused: "\<not> completed s \<Longrightarrow> paused s \<Longrightarrow> tick env s = Some (s, idle_tick)"
  by (simp add: tick_def)

lemma tick_running:
  assumes "search_inv s" and "\<not> completed s" and "\<not> paused s" and "driver s \<noteq> None"
  shows "good_tick s (tick env s)"
  using assms tickLoop_good [OF search_inv_running [OF assms(1,2)] assms(4,2,3)]
  by (auto simp: tick_def)

lemma tick_search_inv:
  assumes "search_inv s"
  shows "\<exists>t r. tick env s = Some (t, r) \<and> search_inv t \<and> tr_completed r = completed t"
proof -
  consider "completed s" | "\<not> completed s" "paused s"
    | "\<not> completed s" "\<not> paused s" "driver s = None"
    | "\<not> completed s" "\<not> paused s" "driver s \<noteq> None" by blast
  then show ?thesis
  proof cases
    case 3
    have "soft_inv s" using assms by (simp add: search_inv_def)
    from failTick_search [OF this, of "''SMB DFS search not initialized''"] 3 show ?thesis
      by (auto simp: tick_def idle_tick_def)
  next
    case 4
    from tick_running [OF assms this, of env] show ?thesis by (auto elim: good_tickE)
  qed (use assms in \<open>simp_all add: tick_completed tick_paused idle_tick_def\<close>)
qed

section \<open>Starting\<close>

text \<open>Members that only \<open>initializeRuntime\<close> and the root need: no tree yet.\<close>

definition blank :: "'d dfs_search \<Rightarrow> bool" where
  "blank s =
     (nodes s = [] \<and> dfsStack s = [] \<and> nodeOutcomes s = [] \<and> blockReasons s = []
      \<and> lossKeys s = [] \<and> exactTable s = Map.empty \<and> shapeTable s = Map.empty
      \<and> trace s = [] \<and> bestLeafIndex s = None \<and> pl_frames (plan s) = []
      \<and> pl_elapsedFrames (plan s) = 0 \<and> pg_searchedNodeCount (progress s) = 0
      \<and> \<not> completed s \<and> \<not> paused s)"

lemma exactProof_Nil [simp]: "exactProof [] oc keys = (\<lambda>k e. False)"
  by (simp add: exactProof_def fun_eq_iff)

lemma tables_ok_Nil [simp]: "tables_ok [] oc [] Map.empty Map.empty"
  by (simp add: tables_ok_def shapeProof_def [abs_def])

lemma blank_inv: "blank s \<Longrightarrow> dfs_inv s"
  by (simp add: blank_def dfs_inv_def core_inv_def best_inv_def trace_inv_def planFor_def
      outcomes_ok_def loss_ok_def heavy_ok_def)

lemma blank_new: "blank (newSearch opts)"
  by (simp add: blank_def newSearch_def empty_plan_def empty_progress_def)

lemma blank_clear: "blank (clearSearch uuid s)"
  by (simp add: blank_def clearSearch_def empty_plan_def empty_progress_def)

lemma clear_keeps: "driver (clearSearch uuid s) = driver s" "options (clearSearch uuid s) = options s"
  by (simp_all add: clearSearch_def)

lemma blank_driver: "blank s \<Longrightarrow> blank (s\<lparr>driver := d\<rparr>)"
  "blank s \<Longrightarrow> blank (s\<lparr>driver := d, rootPrefixFrames := fs\<rparr>)"
  by (simp_all add: blank_def)

lemma search_inv_driver: "search_inv s \<Longrightarrow> search_inv (s\<lparr>driver := d\<rparr>)"
  by (simp add: search_inv_def soft_inv_def soft_core_def failed_def dfs_inv_def core_inv_def trace_inv_def)

lemma initializeRuntime_cases:
  assumes "initializeRuntime env s = (x, t)"
  shows "(\<exists>d msg. x = Inl msg \<and> t = s\<lparr>driver := Some d\<rparr>)
    \<or> (\<exists>d. x = Inr d \<and> blank t \<and> driver t = Some d \<and> options t = options s)"
  using assms
  by (auto simp: initializeRuntime_def clear_keeps blank_clear split: prod.splits sum.splits)

text \<open>The frame that the root starts with.\<close>

definition rootFrame :: "search_options \<Rightarrow> dfs_frame" where
  "rootFrame opts =
     \<lparr>df_node = 0, df_next = 0,
      df_ordering = buildDfsActionOrder False 0 Dir_None None
        (groundedVerticalJumpPrioritizationEnabled opts),
      df_candidate = True, df_blockReason = Block_None\<rparr>"

lemma root_tree: "stack_ok [rootNode save sm m v] [rootFrame opts]"
  by (simp add: rootFrame_def stack_ok_def frame_ok_def order_distinct order_set tried_def children_def rootNode_def
      pathTo.simps [of _ "0::nat"] descendingAirborne_def)

lemma initializeRootNode_inv:
  assumes "blank s"
  shows "\<exists>t. initializeRootNode env d save sm memory video s = Some t \<and> dfs_inv t
     \<and> \<not> completed t \<and> \<not> paused t \<and> driver t = driver s \<and> options t = options s
     \<and> length (nodes t) = 1 \<and> dfsStack t = [rootFrame (options s)] \<and> bestLeafIndex t = Some 0
     \<and> sn_savestate (nodes t ! 0) = save \<and> sn_summary (nodes t ! 0) = sm
     \<and> map te_eventType (trace t) = [TE_RootInitialized]
     \<and> pl_frames (plan t) = rootPrefixFrames s"
proof -
  let ?n = "rootNode save sm memory (case video of None \<Rightarrow> env_frame env d | Some v \<Rightarrow> Some v)"
  let ?f = "rootFrame (options s)"
  define s4 where "s4 = s\<lparr>nodes := [?n], lossKeys := [None], nodeOutcomes := [Outcome_Open],
      blockReasons := [Block_None], dfsStack := [?f], bestLeafIndex := Some 0,
      bestFrontier := sm_bestFrontier sm, bestScore := sm_evaluationScore sm,
      progress := (progress s)\<lparr>pg_bestFrontier := sm_bestFrontier sm\<rparr>\<rparr>"
  define s5 where "s5 = setEvent PE_RootInitialized (updateRenderableState ?n s4)"
  define t where "t = (let s6 = s5\<lparr>plan := rebuiltPlan s5\<rparr> in recordTrace (rootEntry s6 sm) s6)"
  have tree: "tree_ok [?n]" by (rule tree_ok_root) (simp_all add: rootNode_def)
  have sc: "same_core s4 s5" "same_best s4 s5"
    unfolding s5_def by (rule same_trans(1) [OF render_same(1) setEvent_same(1)],
        rule same_trans(2) [OF render_same(2) setEvent_same(2)])
  have f5: "driver s5 = driver s" "completed s5 = completed s" "paused s5 = paused s" "trace s5 = trace s"
    by (simp_all add: s5_def setEvent_def render_fields s4_def)
  have n5: "nodes s5 = [?n]" "dfsStack s5 = [?f]" "bestLeafIndex s5 = Some 0"
    "rootPrefixFrames s5 = rootPrefixFrames s" "options s5 = options s"
    "nodeOutcomes s5 = [Outcome_Open]" "lossKeys s5 = [None]" "blockReasons s5 = [Block_None]"
    "exactTable s5 = Map.empty" "shapeTable s5 = Map.empty"
    "bestFrontier s5 = sm_bestFrontier sm" "bestScore s5 = sm_evaluationScore sm"
    "pg_bestFrontier (progress s5) = sm_bestFrontier sm" "pg_searchedNodeCount (progress s5) = 0"
    using sc assms by (simp_all add: same_core_def same_best_def s4_def blank_def)
  have leaf: "leaf_ok s5" using tree by (simp add: leaf_ok_def n5 tree_ok_parents)
  have "s\<lparr>nodes := nodes s @ [?n], lossKeys := lossKeys s @ [None],
      nodeOutcomes := nodeOutcomes s @ [Outcome_Open]\<rparr>
      = s\<lparr>nodes := [?n], lossKeys := [None], nodeOutcomes := [Outcome_Open]\<rparr>"
    using assms by (simp add: blank_def)
  then have eq: "initializeRootNode env d save sm memory video s = Some t"
    using assms rebuildBestPlan_eq [OF leaf]
    by (simp add: rootFrame_def initializeRootNode_def Let_def t_def s5_def s4_def blank_def
        getInitialClosedLossBlockReason_def isClosedLossCandidate_def)
  have ct: "nodes t = nodes s5" "dfsStack t = dfsStack s5" "nodeOutcomes t = nodeOutcomes s5"
    "lossKeys t = lossKeys s5" "blockReasons t = blockReasons s5" "exactTable t = exactTable s5"
    "shapeTable t = shapeTable s5" "bestLeafIndex t = bestLeafIndex s5" "bestFrontier t = bestFrontier s5"
    "bestScore t = bestScore s5" "rootPrefixFrames t = rootPrefixFrames s5" "progress t = progress s5"
    "plan t = rebuiltPlan s5" "driver t = driver s5" "completed t = completed s5" "paused t = paused s5"
    "options t = options s5" "planFor t = planFor s5"
    by (simp_all add: t_def Let_def recordTrace_def planFor_def split: option.split)
  have tr: "\<exists>te. trace t = [te] \<and> te_frontier te = sm_bestFrontier sm
      \<and> te_evaluationScore te = sm_evaluationScore sm \<and> te_eventType te = TE_RootInitialized"
    using assms by (simp add: t_def Let_def recordTrace_def f5 rootEntry_def blank_def traceEntry_def)
  have plan: "planFor s5 = rootPrefixFrames s"
    by (simp add: planFor_def n5 pathFrames_def pathTo.simps [of _ "0::nat"] rootNode_def nodeFrames_def)
  have tab: "tables_ok [?n] [Outcome_Open] [None] Map.empty Map.empty"
    by (simp add: tables_ok_def shapeProof_def [abs_def] exactProof_def [abs_def])
  have "core_inv t"
    using tree root_tree tab
    by (simp add: core_inv_def ct n5 outcomes_ok_def loss_ok_def candidate_ok_def finished_ok_def
        heavy_ok_def children_def rootNode_def rootFrame_def)
  moreover have "best_inv t"
    by (simp add: best_inv_def ct n5 rebuiltPlan_def rootNode_def)
  moreover have "trace_inv t" using tr by (auto simp: trace_inv_def ct n5)
  ultimately show ?thesis
    using assms eq plan tr
    by (auto simp: dfs_inv_def ct n5 f5 blank_def rebuiltPlan_def rootNode_def)
qed

text \<open>A state in which the search has just started.\<close>

definition started :: "search_options \<Rightarrow> 'd dfs_search \<Rightarrow> bool" where
  "started opts s =
     (dfs_inv s \<and> \<not> completed s \<and> \<not> paused s \<and> driver s \<noteq> None \<and> options s = opts
      \<and> length (nodes s) = 1 \<and> dfsStack s = [rootFrame opts]
      \<and> map te_eventType (trace s) = [TE_RootInitialized])"

text \<open>A start that returns either starts the search or leaves an object the invariant covers.\<close>

definition good_start :: "'d dfs_search \<Rightarrow> (unit result \<times> 'd dfs_search) option \<Rightarrow> bool" where
  "good_start s out =
     (\<exists>r t. out = Some (r, t) \<and> (search_inv s \<longrightarrow> search_inv t) \<and> options t = options s
        \<and> length (nodes t) \<le> max 1 (length (nodes s)) \<and> (\<not> isError r \<longrightarrow> started (options s) t))"

lemma root_started:
  assumes "blank s" and "driver s \<noteq> None" and "options s = options u"
  shows "good_start u ((initializeRootNode env d save sm m v s) \<bind> (\<lambda>t. Some (okay (), t)))"
  using initializeRootNode_inv [OF assms(1), of env d save sm m v] assms(2,3)
  by (auto simp: good_start_def started_def search_inv_dfs)

lemma blank_good:
  "blank t \<Longrightarrow> options t = options u \<Longrightarrow> good_start u (Some (error msg, t))"
  by (simp add: good_start_def blank_inv search_inv_dfs) (simp add: blank_def)

lemma rootLoop_good:
  assumes "blank s" and "options s = options u"
  shows "good_start u (rootLoop env n d ad ls s)"
proof (induction n arbitrary: d ad ls)
  case 0
  show ?case using assms by (simp add: blank_good blank_driver)
next
  case (Suc n)
  define co where "co = resolveControllerMask ad (playerControlFrameToNesMask (actionToFrame Act_RightRun)) ls"
  obtain sr d1 where step: "env_step env d (resolvedControllerMask co) = (sr, d1)"
    by (cases "env_step env d (resolvedControllerMask co)")
  obtain ad1 out where ev: "evaluateFrame ad (sr_advancedFrames sr) (sr_memorySnapshot sr) = (ad1, out)"
    by (cases "evaluateFrame ad (sr_advancedFrames sr) (sr_memorySnapshot sr)")
  have blank: "blank (s\<lparr>driver := Some d1\<rparr>)"
    "blank (s\<lparr>driver := Some d1, rootPrefixFrames := [actionToFrame Act_RightRun]\<rparr>)"
    using assms(1) by (simp_all add: blank_driver)
  show ?case
    using Suc.IH blank assms(2)
    by (simp add: co_def [symmetric] step ev Let_def blank_good root_started
        del: actionToFrame.simps split: option.split)
qed

lemma startDfs_good: "good_start s (startDfs env s)"
proof -
  obtain x t where i: "initializeRuntime env s = (x, t)" by (cases "initializeRuntime env s")
  from initializeRuntime_cases [OF i] i show ?thesis
    by (auto simp: startDfs_def good_start_def [of s "Some (Inl _, _)"] search_inv_driver rootLoop_good)
qed

lemma startFromFixture_good: "good_start s (startFromFixture env fx s)"
proof -
  obtain x t where i: "initializeRuntime env s = (x, t)" by (cases "initializeRuntime env s")
  from initializeRuntime_cases [OF i] show ?thesis
  proof (elim disjE exE conjE)
    fix d msg assume "x = Inl msg" "t = s\<lparr>driver := Some d\<rparr>"
    with i show ?thesis by (simp add: startFromFixture_def good_start_def search_inv_driver)
  next
    fix d assume x: "x = Inr d" "blank t" "options t = options s"
    obtain ok d1 where l: "env_load env d (rf_savestate fx) = (ok, d1)"
      by (cases "env_load env d (rf_savestate fx)")
    from x(2) have "blank (t\<lparr>driver := Some d1\<rparr>)"
      "blank (t\<lparr>driver := Some d1, rootPrefixFrames := fs\<rparr>)" for fs
      by (simp_all add: blank_driver)
    with x i l show ?thesis
      by (simp add: startFromFixture_def blank_good root_started)
  qed
qed

lemma startFromFixture_starts:
  assumes "initializeRuntime env s = (Inr d, t)" and "env_load env d (rf_savestate fx) = (True, d1)"
  shows "\<exists>u. startFromFixture env fx s = Some (okay (), u) \<and> started (options s) u
    \<and> pl_frames (plan u) = makeRootPrefixFrames (sm_gameplayFrames (rf_summary fx))
    \<and> sn_savestate (nodes u ! 0) = rf_savestate fx \<and> sn_summary (nodes u ! 0) = rf_summary fx"
proof -
  have t: "blank t" "options t = options s" using initializeRuntime_cases [OF assms(1)] by auto
  let ?t = "t\<lparr>driver := Some d1,
      rootPrefixFrames := makeRootPrefixFrames (sm_gameplayFrames (rf_summary fx))\<rparr>"
  have "blank ?t" by (rule blank_driver(2) [OF t(1)])
  from initializeRootNode_inv [OF this, of env d1 "rf_savestate fx" "rf_summary fx" "rf_memory fx"
      "case rf_video fx of None \<Rightarrow> env_frame env d1 | Some v \<Rightarrow> Some v"]
  show ?thesis
    by (elim exE conjE) (simp add: startFromFixture_def assms started_def t(2))
qed

section \<open>The public interface as a step relation\<close>

inductive search_op :: "'d nes_env \<Rightarrow> 'd dfs_search \<Rightarrow> 'd dfs_search \<Rightarrow> bool" for env where
  op_start: "startDfs env s = Some (r, t) \<Longrightarrow> search_op env s t"
| op_fixture: "startFromFixture env fx s = Some (r, t) \<Longrightarrow> search_op env s t"
| op_tick: "tick env s = Some (t, r) \<Longrightarrow> search_op env s t"
| op_pause: "search_op env s (pauseSet b s)"
| op_stop: "stop s = Some t \<Longrightarrow> search_op env s t"

inductive reachable :: "'d nes_env \<Rightarrow> 'd dfs_search \<Rightarrow> bool" for env where
  reach_new: "reachable env (newSearch opts)"
| reach_op: "reachable env s \<Longrightarrow> search_op env s t \<Longrightarrow> reachable env t"

inductive_cases search_opE: "search_op env s t"

lemma pause_same [simp]: "same_core s (pauseSet b s)" "same_best s (pauseSet b s)"
  "plan (pauseSet b s) = plan s" "trace (pauseSet b s) = trace s"
  "completed (pauseSet b s) = completed s" "completionReason (pauseSet b s) = completionReason s"
  by (simp_all add: pauseSet_def setProgressPaused_def same_core_def same_best_def)

lemma soft_inv_same:
  assumes "same_core s t" and "same_best s t" and "plan t = plan s" and "trace t = trace s"
    and "soft_inv s"
  shows "soft_inv t"
  using assms best_inv_same [OF assms(1-3)] trace_inv_extend [OF _ assms(2), of "[]"]
  by (simp add: soft_inv_def soft_core_def same_core_def)

lemma pause_search_inv: "search_inv s \<Longrightarrow> search_inv (pauseSet b s)"
  using soft_inv_same [OF pause_same(1-4), of s b] pause_same(1) [of s b]
  by (simp add: search_inv_def failed_def dfs_inv_soft same_core_def)

lemma stop_search_inv:
  assumes "search_inv s"
  shows "\<exists>t. stop s = Some t \<and> search_inv t \<and> completed t"
proof (cases "completed s")
  case True
  with assms show ?thesis by (simp add: stop_def)
next
  case False
  with assms have "dfs_inv s" by (rule search_inv_running)
  with False finishWith_inv [of s stopEntry] show ?thesis
    by (simp add: stop_eq dfs_inv_leaf search_inv_dfs)
qed

lemma good_start_inv: "good_start s (Some (r, t)) \<Longrightarrow> search_inv s \<Longrightarrow> search_inv t"
  by (simp add: good_start_def)

lemma search_op_inv: "search_op env s t \<Longrightarrow> search_inv s \<Longrightarrow> search_inv t"
proof (induction rule: search_op.induct)
  case (op_start s r t)
  with startDfs_good [of s env] show ?case by (auto intro: good_start_inv)
next
  case (op_fixture fx s r t)
  with startFromFixture_good [of s env fx] show ?case by (auto intro: good_start_inv)
next
  case (op_tick s t r)
  with tick_search_inv [of s env] show ?case by auto
next
  case (op_pause s b)
  then show ?case by (rule pause_search_inv)
next
  case (op_stop s t)
  with stop_search_inv [of s] show ?case by auto
qed

lemma reachable_search_inv: "reachable env s \<Longrightarrow> search_inv s"
  by (induction rule: reachable.induct)
    (auto simp: blank_new blank_inv search_inv_dfs intro: search_op_inv)

section \<open>How long a bounded search runs\<close>

text \<open>A driver loop that calls \<open>tick\<close> \<open>n\<close> times.\<close>

fun runTicks :: "'d nes_env \<Rightarrow> nat \<Rightarrow> 'd dfs_search \<Rightarrow> 'd dfs_search option" where
  "runTicks env 0 s = Some s"
| "runTicks env (Suc n) s = tick env s \<bind> (\<lambda>(t, r). runTicks env n t)"

abbreviation budget :: "'d dfs_search \<Rightarrow> nat" where
  "budget s \<equiv> unat (maxSearchedNodeCount (options s))"

definition in_budget :: "'d dfs_search \<Rightarrow> bool" where
  "in_budget s = (length (nodes s) \<le> Suc (budget s))"

text \<open>Two for every node the budget still allows, one for every frame to pop.\<close>

definition potential :: "'d dfs_search \<Rightarrow> nat" where
  "potential s = 2 * (Suc (budget s) - length (nodes s)) + length (dfsStack s)"

lemma runTicks_completed: "completed s \<Longrightarrow> runTicks env n s = Some s"
  by (induction n) (simp_all add: tick_completed)

lemma budgetExceeded_iff:
  assumes "best_inv s" and "in_budget s" and "0 < budget s"
  shows "budgetExceeded s = (budget s \<le> length (nodes s) - 1)"
proof -
  let ?m = "maxSearchedNodeCount (options s)" and ?k = "length (nodes s) - 1"
  have "unat ?m < 4294967296" by (rule u32_less)
  with assms(2) have "?k mod 18446744073709551616 = ?k" by (simp add: in_budget_def)
  then have "unat (of_nat ?k :: u64) = ?k" by (simp add: unat_of_nat)
  moreover have "unat (ucast ?m :: u64) = unat ?m" by (rule unat_ucast_up) simp
  moreover have "?m > 0" using assms(3) by (simp add: word_less_nat_alt)
  ultimately show ?thesis
    using assms(1) by (simp add: budgetExceeded_def best_inv_def word_le_nat_alt)
qed

lemma tick_over_budget:
  assumes "search_inv s" and "\<not> completed s" and "\<not> paused s" and "driver s \<noteq> None"
    and "budgetExceeded s"
  shows "\<exists>t r. tick env s = Some (t, r) \<and> completed t \<and> nodes t = nodes s"
  using assms dfs_inv_leaf [OF search_inv_running [OF assms(1,2)]]
  by (auto simp: finishWith_nodes tick_def tickLoop.simps [of env] completeTick_def completeWithTraceEvent_eq)

text \<open>One tick of a running search within its budget completes it or lowers the potential.\<close>

lemma tick_potential:
  assumes "search_inv s" and "\<not> completed s" and "\<not> paused s" and "driver s \<noteq> None"
    and "in_budget s" and "0 < budget s"
  shows "\<exists>t r. tick env s = Some (t, r) \<and> search_inv t \<and> options t = options s
    \<and> (completed t \<or> (\<not> paused t \<and> driver t \<noteq> None \<and> in_budget t \<and> potential t < potential s))"
proof -
  from tick_running [OF assms(1-4), of env] obtain t r
    where t: "tick env s = Some (t, r)" "search_inv t" "\<not> paused t" "options t = options s"
      "driver t \<noteq> None" "completed t \<or> advances s t"
    by (rule good_tickE) blast
  show ?thesis
  proof (cases "completed t")
    case False
    with t(6) have adv: "advances s t" by simp
    have "\<not> budgetExceeded s" using tick_over_budget [OF assms(1-4), of env] t(1) False by auto
    moreover have "best_inv s" using assms(1) by (simp add: search_inv_def soft_inv_def)
    ultimately have "length (nodes s) - 1 < budget s"
      using budgetExceeded_iff [OF _ assms(5,6)] by simp
    then have "in_budget t" "potential t < potential s"
      using adv assms(5) by (auto simp: in_budget_def potential_def advances_def t(4))
    with t show ?thesis by auto
  qed (use t in auto)
qed

lemma runTicks_completes:
  assumes "search_inv s" and "\<not> completed s \<Longrightarrow> \<not> paused s \<and> driver s \<noteq> None \<and> in_budget s"
    and "0 < budget s" and "potential s \<le> n"
  shows "\<exists>t. runTicks env (Suc n) s = Some t \<and> search_inv t \<and> completed t"
  using assms
proof (induction n arbitrary: s)
  case 0
  show ?case
  proof (cases "completed s")
    case False
    with tick_potential [of s env] 0 show ?thesis by auto
  qed (use 0 in \<open>simp add: tick_completed\<close>)
next
  case (Suc n)
  show ?case
  proof (cases "completed s")
    case True
    with Suc.prems(1) show ?thesis by (simp add: tick_completed runTicks_completed)
  next
    case False
    with tick_potential [of s env] Suc.prems obtain t r where t: "tick env s = Some (t, r)"
      "search_inv t" "options t = options s"
      "completed t \<or> (\<not> paused t \<and> driver t \<noteq> None \<and> in_budget t \<and> potential t < potential s)"
      by blast
    show ?thesis
    proof (cases "completed t")
      case True
      with t show ?thesis by (simp add: tick_completed runTicks_completed)
    next
      case False
      with t Suc.prems Suc.IH [of t] show ?thesis by auto
    qed
  qed
qed

lemma started_completes:
  assumes "started opts s" and "0 < maxSearchedNodeCount opts"
  shows "\<exists>t. runTicks env (2 * unat (maxSearchedNodeCount opts) + 2) s = Some t
     \<and> search_inv t \<and> completed t"
proof -
  let ?m = "unat (maxSearchedNodeCount opts)"
  have b: "0 < budget s" using assms by (simp add: started_def word_less_nat_alt)
  have "potential s \<le> 2 * ?m + 1" "in_budget s"
    using assms(1) b by (simp_all add: started_def potential_def in_budget_def)
  with runTicks_completes [of s "2 * ?m + 1" env] b assms(1) show ?thesis
    by (simp add: started_def search_inv_dfs)
qed

lemma reachable_runTicks: "reachable env s \<Longrightarrow> runTicks env n s = Some t \<Longrightarrow> reachable env t"
proof (induction n arbitrary: s)
  case (Suc n)
  then obtain u r where u: "tick env s = Some (u, r)" "runTicks env n u = Some t"
    by (auto split: prod.splits simp: bind_eq_Some_conv)
  with Suc.IH [of u] reach_op [OF Suc.prems(1) op_tick [OF u(1)]] show ?case by simp
qed simp

text \<open>The budget bounds the nodes in every reachable state.\<close>

lemma tick_in_budget:
  assumes "search_inv s" and "0 < budget s" and "in_budget s" and "tick env s = Some (t, r)"
  shows "in_budget t \<and> options t = options s"
proof -
  consider "completed s \<or> paused s" | "\<not> completed s" "\<not> paused s" "driver s = None"
    | "\<not> completed s" "\<not> paused s" "driver s \<noteq> None" by blast
  then show ?thesis
  proof cases
    case 1
    with assms(3,4) show ?thesis by (auto simp: tick_def split: if_splits)
  next
    case 2
    have "soft_inv s" using assms(1) by (simp add: search_inv_def)
    from failTick_search [OF this, of "''SMB DFS search not initialized''"] 2 assms(3,4)
    show ?thesis by (auto simp: tick_def in_budget_def)
  next
    case 3
    from tick_running [OF assms(1) 3, of env] assms(4)
    have t: "options t = options s" "length (nodes t) \<le> Suc (length (nodes s))"
      by (auto elim: good_tickE)
    show ?thesis
    proof (cases "budgetExceeded s")
      case True
      with tick_over_budget [OF assms(1) 3, of env] assms(3,4) t(1) show ?thesis
        by (auto simp: in_budget_def)
    next
      case False
      have "best_inv s" using assms(1) by (simp add: search_inv_def soft_inv_def)
      from budgetExceeded_iff [OF this assms(3,2)] False have "length (nodes s) - 1 < budget s" by simp
      with t show ?thesis by (simp add: in_budget_def)
    qed
  qed
qed

lemma stop_fields:
  assumes "search_inv s" and "stop s = Some t"
  shows "nodes t = nodes s" "options t = options s"
proof -
  have "nodes t = nodes s \<and> options t = options s"
  proof (cases "completed s")
    case True
    with assms(2) show ?thesis by (simp add: stop_def)
  next
    case False
    with stop_eq [OF dfs_inv_leaf [OF search_inv_running [OF assms(1) False]]] assms(2)
    show ?thesis by (auto simp: finishWith_nodes)
  qed
  then show "nodes t = nodes s" "options t = options s" by simp_all
qed

lemma search_op_budget:
  "search_op env s t \<Longrightarrow> search_inv s \<Longrightarrow> 0 < budget s \<Longrightarrow> in_budget s \<Longrightarrow> in_budget t \<and> options t = options s"
proof (induction rule: search_op.induct)
  case (op_start s r t)
  with startDfs_good [of s env] show ?case by (auto simp: good_start_def in_budget_def)
next
  case (op_fixture fx s r t)
  with startFromFixture_good [of s env fx] show ?case by (auto simp: good_start_def in_budget_def)
next
  case (op_tick s t r)
  from tick_in_budget [OF op_tick.prems op_tick.hyps] show ?case .
next
  case (op_pause s b)
  then show ?case
    using pause_same(1,2) [of s b] by (simp add: in_budget_def same_core_def same_best_def)
next
  case (op_stop s t)
  then show ?case using stop_fields [of s t] by (simp add: in_budget_def)
qed

lemma op_options:
  assumes "search_op env s t" and "search_inv s"
  shows "options t = options s"
  using assms
proof (induction rule: search_op.induct)
  case (op_start s r t)
  with startDfs_good [of s env] show ?case by (auto simp: good_start_def)
next
  case (op_fixture fx s r t)
  with startFromFixture_good [of s env fx] show ?case by (auto simp: good_start_def)
next
  case (op_tick s t r)
  consider "completed s \<or> paused s" | "\<not> completed s" "\<not> paused s" "driver s = None"
    | "\<not> completed s" "\<not> paused s" "driver s \<noteq> None" by blast
  then show ?case
  proof cases
    case 1
    with op_tick.hyps show ?thesis by (auto simp: tick_def split: if_splits)
  next
    case 2
    have "soft_inv s" using op_tick.prems by (simp add: search_inv_def)
    from failTick_search [OF this, of "''SMB DFS search not initialized''"] 2 op_tick.hyps
    show ?thesis by (auto simp: tick_def)
  next
    case 3
    from tick_running [OF op_tick.prems 3, of env] op_tick.hyps show ?thesis
      by (auto elim: good_tickE)
  qed
next
  case (op_pause s b)
  then show ?case using pause_same(2) [of s b] by (simp add: same_best_def)
next
  case (op_stop s t)
  then show ?case using stop_fields [of s t] by simp
qed

lemma reachable_in_budget: "reachable env s \<Longrightarrow> 0 < budget s \<Longrightarrow> in_budget s"
proof (induction rule: reachable.induct)
  case (reach_new opts)
  show ?case by (simp add: in_budget_def newSearch_def)
next
  case (reach_op s t)
  note inv = reachable_search_inv [OF reach_op.hyps(1)]
  have "0 < budget s" using reach_op.prems op_options [OF reach_op.hyps(2) inv] by simp
  with search_op_budget [OF reach_op.hyps(2) inv] reach_op.IH show ?case by simp
qed

text \<open>What a reachable state's invariant says, by part.\<close>

lemma reachable_soft:
  assumes "reachable env s"
  shows "tree_ok (nodes s)" "outcomes_ok (nodes s) (nodeOutcomes s) (dfsStack s)"
    "loss_ok (nodes s) (nodeOutcomes s) (dfsStack s)" "heavy_ok (nodes s) (dfsStack s)"
    "tables_ok (nodes s) (nodeOutcomes s) (lossKeys s) (exactTable s) (shapeTable s)"
    "best_inv s" "trace_inv s"
  using reachable_search_inv [OF assms] by (simp_all add: search_inv_def soft_inv_def soft_core_def)

text \<open>The frames of a path are the actions of its nodes below the root.\<close>

lemma pathTo_hd:
  assumes "tree_ok ns" and "i < length ns"
  shows "hd (pathTo ns i) = 0" and "0 \<notin> set (tl (pathTo ns i))"
proof -
  have "hd (pathTo ns i) = 0 \<and> 0 \<notin> set (tl (pathTo ns i))" using assms(2)
  proof (induction i rule: less_induct)
    case (less i)
    show ?case
    proof (cases "i = 0")
      case True
      with assms(1) less.prems have "sn_parent (ns ! 0) = None" by (auto simp: tree_ok_def)
      with True show ?thesis by (simp add: pathTo.simps [of _ "0::nat"])
    next
      case False
      then obtain p where p: "sn_parent (ns ! i) = Some p" "p < i"
        using tree_ok_link [OF assms(1) less.prems] by blast
      with less.IH [of p] less.prems False pathTo_last(2) [of ns p] show ?thesis
        by (simp add: pathTo.simps [of _ i])
    qed
  qed
  then show "hd (pathTo ns i) = 0" "0 \<notin> set (tl (pathTo ns i))" by simp_all
qed

lemma pathFrames_actions:
  assumes "tree_ok ns" and "i < length ns"
  shows "pathFrames ns (pathTo ns i)
    = map (\<lambda>j. actionToFrame (the (sn_action (ns ! j)))) (tl (pathTo ns i))"
proof -
  obtain q where q: "pathTo ns i = 0 # q" and q0: "0 \<notin> set q"
    using pathTo_hd [OF assms] pathTo_last(2) [of ns i] by (cases "pathTo ns i") auto
  have lt: "set q \<subseteq> {..<length ns}" using pathTo_range [OF assms(2)] q by auto
  have "nodeFrames (ns ! j) = [actionToFrame (the (sn_action (ns ! j)))]" if "j \<in> set q" for j
  proof -
    have "j < length ns" "j \<noteq> 0" using that lt q0 by (auto intro: gr0I)
    with assms(1) have "sn_action (ns ! j) \<noteq> None" by (simp add: tree_ok_def)
    then show ?thesis by (auto simp: nodeFrames_def)
  qed
  then have "concat (map (\<lambda>j. nodeFrames (ns ! j)) q) = map (\<lambda>j. actionToFrame (the (sn_action (ns ! j)))) q"
    by (induction q) auto
  moreover have "nodeFrames (ns ! 0) = []"
  proof -
    have "0 < length ns" using assms(2) by (rule le_less_trans [OF le0])
    with assms(1) have "sn_action (ns ! 0) = None" by (simp add: tree_ok_def)
    then show ?thesis by (simp add: nodeFrames_def)
  qed
  ultimately show ?thesis by (simp add: pathFrames_def q)
qed

end
