(* ===== verification/Stepper.thy ===== *)
theory Stepper
  imports Prelude
begin

text \<open>
  The contract that the server's states rely on when they drive a search or a plan playback: a
  program advanced by ticks, that can be held and stopped, and whose ticks say when it is done.
  SmbDfsSearch and SmbPlanExecution both provide it (interpretations in DfsProperties and
  PlanExecution). \<open>valid\<close> is the provider's invariant; \<open>answer\<close> is the completion flag of a
  tick's result.
\<close>

locale stepper =
  fixes step :: "'s \<Rightarrow> ('s \<times> 'r) option"
    and answer :: "'r \<Rightarrow> bool"
    and isDone :: "'s \<Rightarrow> bool"
    and isHeld :: "'s \<Rightarrow> bool"
    and hold :: "bool \<Rightarrow> 's \<Rightarrow> 's"
    and halt :: "'s \<Rightarrow> 's option"
    and valid :: "'s \<Rightarrow> bool"
  assumes step_returns: "valid s \<Longrightarrow> \<exists>t r. step s = Some (t, r) \<and> valid t \<and> answer r = isDone t"
    and step_done: "isDone s \<Longrightarrow> \<exists>r. step s = Some (s, r) \<and> answer r"
    and step_held: "\<not> isDone s \<Longrightarrow> isHeld s \<Longrightarrow> \<exists>r. step s = Some (s, r) \<and> \<not> answer r"
    and hold_held: "isHeld (hold b s) = b"
    and hold_done: "isDone (hold b s) = isDone s"
    and hold_valid: "valid s \<Longrightarrow> valid (hold b s)"
    and halt_returns: "valid s \<Longrightarrow> \<exists>t. halt s = Some t \<and> isDone t \<and> valid t"
begin

text \<open>The state after \<open>n\<close> ticks.\<close>

fun run :: "nat \<Rightarrow> 's \<Rightarrow> 's option" where
  "run 0 s = Some s"
| "run (Suc n) s = (case step s of None \<Rightarrow> None | Some (t, r) \<Rightarrow> run n t)"

lemma run_returns: "valid s \<Longrightarrow> \<exists>t. run n s = Some t \<and> valid t"
proof (induction n arbitrary: s)
  case (Suc n)
  from step_returns [OF Suc.prems] obtain t r where "step s = Some (t, r)" "valid t" by blast
  with Suc.IH [of t] show ?case by simp
qed simp

lemma run_done: "isDone s \<Longrightarrow> run n s = Some s"
proof (induction n)
  case (Suc n)
  with step_done [of s] show ?case by auto
qed simp

lemma run_held:
  assumes "\<not> isDone s" and "isHeld s" shows "run n s = Some s"
  using step_held [OF assms] by (induction n) auto

lemma run_add: "run (m + n) s = (case run m s of None \<Rightarrow> None | Some t \<Rightarrow> run n t)"
  by (induction m arbitrary: s) (auto split: option.split prod.split)

text \<open>Once done, done for good; a pause freezes; a stop is final.\<close>

lemma done_is_final: "run m s = Some t \<Longrightarrow> isDone t \<Longrightarrow> run (m + n) s = Some t"
  by (simp add: run_add run_done)

lemma pause_freezes: "run n (hold True s) = Some (hold True s)"
  by (cases "isDone s") (simp_all add: run_done run_held hold_held hold_done)

lemma stop_is_final: "valid s \<Longrightarrow> \<exists>t. halt s = Some t \<and> isDone t \<and> run n t = Some t"
  using halt_returns [of s] run_done by blast

text \<open>The first tick that answers done leaves the program done, and every later one repeats it.\<close>

lemma answer_is_final:
  assumes "valid s" and "step s = Some (t, r)" and "answer r"
  shows "isDone t \<and> run n t = Some t"
  using step_returns [OF assms(1)] assms(2,3) run_done by auto

end

end
