(* ===== verification/DemoEmulator.thy ===== *)
theory DemoEmulator
  imports NesDriver
begin

text \<open>
  A small emulator that answers every request: a concrete driver on which the properties of the
  search and of plan execution are instantiated.
\<close>

text \<open>Every frame shows gameplay; only \<open>RightRun\<close> from the root keeps the player on the screen.\<close>

definition demoRam :: "bool \<Rightarrow> nat \<Rightarrow> u8" where
  "demoRam alive a =
     (if a = kGameEngineSubroutineAddr then 1 else if a = kPlayerStateAddr then 8
      else if a = kPlayerXScreenAddr then 10
      else if a = kPlayerYScreenAddr then (if alive then 100 else 230) else 0)"

definition demoSnapshot :: "bool \<Rightarrow> memory_snapshot" where
  "demoSnapshot alive = empty_snapshot\<lparr>cpuRam := demoRam alive\<rparr>"

definition demoSave :: "nat \<Rightarrow> savestate" where
  "demoSave n = \<lparr>ss_frameId = of_nat n, ss_bytes = replicate n 1\<rparr>"

definition demoStep :: "nat \<Rightarrow> u8 \<Rightarrow> step_result \<times> nat" where
  "demoStep d m =
     (\<lparr>sr_advancedFrames = 1, sr_runtimeHealthy = True, sr_runtimeRunning = True,
       sr_memorySnapshot = Some (demoSnapshot (d = 0 \<and> m = Nes_ButtonRight + Nes_ButtonB)),
       sr_scenarioVideoFrame = None, sr_lastError = []\<rparr>, Suc d)"

definition demoEnv :: "nat nes_env" where
  "demoEnv =
     \<lparr>env_newDriver = 0, env_setConfig = (\<lambda>d. (okay (), d)), env_setup = (\<lambda>d. (okay (), d)),
      env_step = demoStep, env_load = (\<lambda>d s. (True, length (ss_bytes s))),
      env_savestate = (\<lambda>d. Some (demoSave d)), env_frame = (\<lambda>d. None),
      env_lastError = (\<lambda>d. []), env_uuid = 7\<rparr>"

end
