(* ===== verification/DfsProperties.thy ===== *)
theory DfsProperties
  imports DfsReach Stepper DemoEmulator
begin

text \<open>
  The properties of the depth-first search: what holds in every state the public interface can
  reach, that its operations return, how soon a bounded search ends, and what its reported
  plan, outcomes and prunings mean. The witnesses run on the emulator of DemoEmulator.
\<close>

section \<open>The concrete search of the witnesses\<close>

definition demoFixture :: root_fixture where
  "demoFixture =
     \<lparr>rf_savestate = demoSave 0,
      rf_summary = (empty_summary (Some 1))\<lparr>sm_gameplayFrames := 2\<rparr>,
      rf_memory = None, rf_video = None\<rparr>"

lemma demo_init:
  "initializeRuntime demoEnv (newSearch opts) = (Inr 0, clearSearch 7 ((newSearch opts)\<lparr>driver := Some 0\<rparr>))"
  by (simp add: initializeRuntime_def demoEnv_def)

lemma demo_load: "env_load demoEnv 0 (rf_savestate demoFixture) = (True, 0)"
  by (simp add: demoEnv_def demoFixture_def demoSave_def)

lemma demo_prefix:
  "makeRootPrefixFrames (sm_gameplayFrames (rf_summary demoFixture)) = replicate 2 (actionToFrame Act_RightRun)"
  by (simp add: makeRootPrefixFrames_def demoFixture_def del: actionToFrame.simps)

lemma options_newSearch [simp]: "options (newSearch opts) = opts"
  by (simp add: newSearch_def)

lemma demo_fixture: "rf_savestate demoFixture = demoSave 0"
  by (simp add: demoFixture_def)

lemma demo_starts:
  "\<exists>s. startFromFixture demoEnv demoFixture (newSearch opts) = Some (okay (), s) \<and> started opts s
     \<and> pl_frames (plan s) = replicate 2 (actionToFrame Act_RightRun)
     \<and> sn_savestate (nodes s ! 0) = demoSave 0 \<and> sn_summary (nodes s ! 0) = rf_summary demoFixture"
  using startFromFixture_starts [OF demo_init demo_load, of opts]
  by (simp add: demo_prefix demo_fixture del: actionToFrame.simps)

lemma demo_reachable:
  obtains s where "reachable demoEnv s" "started opts s"
  using demo_starts [of opts] reach_op [OF reach_new op_fixture, of demoEnv demoFixture opts] by blast

lemma demo_in_reach:
  obtains s where "reachable demoEnv s" "bestLeafIndex s = Some 0" "dfsStack s \<noteq> []" "started opts s"
proof -
  obtain s where s: "reachable demoEnv s" "started opts s" by (rule demo_reachable)
  then have ne: "nodes s \<noteq> []" "dfsStack s \<noteq> []" and len: "length (nodes s) = 1"
    by (auto simp: started_def)
  with reachable_soft(6) [OF s(1)] have "bestLeafIndex s = Some 0"
    by (auto simp: best_inv_def)
  with s ne that show ?thesis by blast
qed

section \<open>Termination and liveness\<close>





text \<open>C9: The number of nodes searched never exceeds the budget, across restarts, pauses and stops,
  and the reported count is the number of nodes below the root.\<close>

theorem searched_count_bounded:
  assumes "reachable env s" and "0 < maxSearchedNodeCount (options s)"
  shows "unat (pg_searchedNodeCount (progress s)) \<le> unat (maxSearchedNodeCount (options s))
    \<and> unat (pg_searchedNodeCount (progress s)) = length (nodes s) - 1"
proof -
  have b: "length (nodes s) - 1 \<le> budget s"
    using reachable_in_budget [OF assms(1)] assms(2) by (simp add: in_budget_def word_less_nat_alt)
  have "budget s < 4294967296" by (rule u32_less)
  with b have "unat (of_nat (length (nodes s) - 1) :: u64) = length (nodes s) - 1"
    by (simp add: unat_of_nat)
  with b reachable_soft(6) [OF assms(1)] show ?thesis by (simp add: best_inv_def)
qed

theorem searched_count_bounded_witness:
  "\<exists>s :: nat dfs_search. length (nodes s) = 1
     \<and> unat (pg_searchedNodeCount (progress s)) \<le> unat (maxSearchedNodeCount (options s))
     \<and> unat (pg_searchedNodeCount (progress s)) = length (nodes s) - 1"
proof -
  obtain s where s: "reachable demoEnv s" "started default_options s" by (rule demo_reachable)
  then have "0 < maxSearchedNodeCount (options s)" by (simp add: started_def default_options_def)
  from searched_count_bounded [OF s(1) this] s(2) show ?thesis
    by (intro exI [of _ s]) (simp add: started_def)
qed

section \<open>What the search reports\<close>

text \<open>C6: The plan is always the root prefix followed by the controller frames of the actions on the
  path from the root to the best leaf, one frame per edge, and its summary agrees with it.\<close>

theorem plan_is_path_to_best:
  assumes "reachable env s" and "bestLeafIndex s = Some b"
  shows "b < length (nodes s)
    \<and> pl_frames (plan s) = rootPrefixFrames s
        @ map (\<lambda>j. actionToFrame (the (sn_action (nodes s ! j)))) (tl (pathTo (nodes s) b))
    \<and> hd (pathTo (nodes s) b) = 0 \<and> last (pathTo (nodes s) b) = b
    \<and> linked (nodes s) (pathTo (nodes s) b)
    \<and> pl_elapsedFrames (plan s) = of_nat (length (pl_frames (plan s)))
    \<and> pl_bestFrontier (plan s) = sm_bestFrontier (sn_summary (nodes s ! b))"
proof -
  note inv = reachable_soft [OF assms(1)]
  from inv(6) assms(2) have b: "b < length (nodes s)" and plan: "pl_frames (plan s) = planFor s"
    "pl_elapsedFrames (plan s) = of_nat (length (planFor s))"
    "pl_bestFrontier (plan s) = sm_bestFrontier (sn_summary (nodes s ! b))"
    by (auto simp: best_inv_def)
  with pathTo_hd(1) [OF inv(1) b] pathFrames_actions [OF inv(1) b] assms(2) show ?thesis
    by (simp add: planFor_def pathTo_last linked_pathTo)
qed

theorem plan_is_path_to_best_witness:
  "\<exists>s :: nat dfs_search. bestLeafIndex s = Some 0
    \<and> pl_frames (plan s) = rootPrefixFrames s
        @ map (\<lambda>j. actionToFrame (the (sn_action (nodes s ! j)))) (tl (pathTo (nodes s) 0))"
proof -
  obtain s where s: "reachable demoEnv s" "bestLeafIndex s = Some 0"
    using demo_in_reach [of default_options] by metis
  from plan_is_path_to_best [OF this] s(2) show ?thesis by blast
qed





section \<open>Closed losses\<close>

text \<open>The nodes below \<open>i\<close>, itself included.\<close>

definition subtree :: "search_node list \<Rightarrow> nat \<Rightarrow> nat set" where
  "subtree ns i = {j. j < length ns \<and> i \<in> set (pathTo ns j)}"

lemma subtree_step:
  assumes "tree_ok ns" and "j \<in> subtree ns i" and "j \<noteq> i"
  shows "\<exists>p. sn_parent (ns ! j) = Some p \<and> p < j \<and> p \<in> subtree ns i"
proof -
  have j: "j < length ns" "i \<in> set (pathTo ns j)" using assms(2) by (auto simp: subtree_def)
  have "j \<noteq> 0"
  proof
    assume "j = 0"
    with pathTo_bound [of ns j] j(2) assms(3) show False by auto
  qed
  then obtain p where p: "sn_parent (ns ! j) = Some p" "p < j"
    using tree_ok_link [OF assms(1) j(1)] by blast
  with j assms(3) show ?thesis by (auto simp: subtree_def pathTo.simps [of ns j])
qed

lemma closed_subtree:
  assumes "tree_ok ns" and "loss_ok ns oc st" and "oc ! i = Outcome_ClosedLoss"
    and "j \<in> subtree ns i"
  shows "oc ! j = Outcome_ClosedLoss"
  using assms(4)
proof (induction j rule: less_induct)
  case (less j)
  show ?case
  proof (cases "j = i")
    case False
    then obtain p where p: "sn_parent (ns ! j) = Some p" "p < j" "p \<in> subtree ns i"
      using subtree_step [OF assms(1) less.prems] by blast
    with less.IH have "oc ! p = Outcome_ClosedLoss" by blast
    moreover have "p < length ns" "j \<in> children ns p"
      using p less.prems by (auto simp: subtree_def children_def)
    ultimately show ?thesis using assms(2) by (simp add: loss_ok_def finished_ok_def)
  qed (use assms(3) in simp)
qed

text \<open>C3: A node is proven a closed loss only when it is finished, everything below it is a closed
  loss too, and either it has no children (it was pruned itself) or every action that is not a
  jump was tried from it.\<close>

theorem closed_loss_sound:
  assumes "reachable env s" and "i < length (nodes s)" and "nodeOutcomes s ! i = Outcome_ClosedLoss"
  shows "i \<notin> df_node ` set (dfsStack s)
    \<and> (\<forall>j \<in> subtree (nodes s) i. nodeOutcomes s ! j = Outcome_ClosedLoss)
    \<and> (children (nodes s) i = {} \<or> {a. \<not> isJumpButtonAction a} \<subseteq> tried (nodes s) i)"
proof -
  note inv = reachable_soft [OF assms(1)]
  have "finished_ok (nodes s) (nodeOutcomes s) i" using inv(3) assms(2) by (simp add: loss_ok_def)
  with inv(2) assms(2,3) closed_subtree [OF inv(1,3) assms(3)] show ?thesis
    by (auto simp: finished_ok_def outcomes_ok_def)
qed

text \<open>
  A root from which every action is fatal, as the concrete search of the witnesses below: each
  tick adds one pruned child, and the twelfth proves the root.
\<close>

definition fatal_from :: "'d nes_env \<Rightarrow> search_node \<Rightarrow> bool" where
  "fatal_from env n = (\<forall>d a. \<exists>e d'. runExpansion env d n a = (Inr e, d') \<and> exBelowScreen e)"

definition fatal_stage :: "search_options \<Rightarrow> search_node \<Rightarrow> nat \<Rightarrow> 'd dfs_search \<Rightarrow> bool" where
  "fatal_stage opts n k s =
     (dfs_inv s \<and> \<not> completed s \<and> \<not> paused s \<and> driver s \<noteq> None \<and> options s = opts
      \<and> length (nodes s) = Suc k \<and> nodes s ! 0 = n
      \<and> (\<exists>f. dfsStack s = [f] \<and> df_node f = 0 \<and> df_next f = k
            \<and> df_ordering f = df_ordering (rootFrame opts) \<and> df_candidate f))"

lemma fatal_event:
  assumes "exBelowScreen e"
  shows "exTraceEvent s p e = TE_PrunedBelowScreen"
    and "expansion_ok e \<Longrightarrow> childOutcomeOf (exTraceEvent s p e) e = Outcome_ClosedLoss"
  using assms by (simp_all add: exTraceEvent_def childOutcomeOf_def exNonGameplay_def expansion_ok_def)

lemma rootFrame_count: "ao_count (df_ordering (rootFrame opts)) = 11"
  by (simp add: rootFrame_def order_count_not_descending descendingAirborne_def)

definition roomy :: "search_options \<Rightarrow> bool" where
  "roomy opts = (stopAfterBestFrontier opts = None
     \<and> (maxSearchedNodeCount opts = 0 \<or> 11 < maxSearchedNodeCount opts))"

lemma roomy_budget:
  assumes "fatal_stage opts n k s" and "roomy opts" and "k \<le> 11"
  shows "\<not> budgetExceeded s"
proof (cases "maxSearchedNodeCount opts = 0")
  case False
  let ?m = "maxSearchedNodeCount opts"
  have m: "11 < unat ?m" using assms(2) False by (auto simp: roomy_def word_less_nat_alt)
  have s: "budget s = unat ?m" "length (nodes s) = Suc k" "best_inv s"
    using assms(1) by (simp_all add: fatal_stage_def dfs_inv_def)
  have "in_budget s" using s m assms(3) by (simp add: in_budget_def)
  from budgetExceeded_iff [OF s(3) this] s m assms(3) show ?thesis by simp
qed (use assms(1) in \<open>simp add: budgetExceeded_def fatal_stage_def\<close>)

lemma fatal_tick:
  assumes "fatal_stage opts n k s" and "k < 11" and "fatal_from env n" and "roomy opts"
  shows "\<exists>t r e d a d'. tick env s = Some (t, r) \<and> fatal_stage opts n (Suc k) t
    \<and> runExpansion env d n a = (Inr e, d') \<and> lossKeys t = lossKeys s @ [exKey opts e]
    \<and> nodeOutcomes t = nodeOutcomes s @ [Outcome_ClosedLoss]"
proof -
  obtain f d where f: "dfsStack s = [f]" "df_node f = 0" "df_next f = k"
    "df_ordering f = df_ordering (rootFrame opts)" "df_candidate f" and d: "driver s = Some d"
    using assms(1) by (auto simp: fatal_stage_def)
  have inv: "dfs_inv s" and run: "\<not> completed s" "\<not> paused s" and node: "nodes s ! 0 = n"
    and len: "length (nodes s) = Suc k" and opts: "options s = opts"
    using assms(1) by (simp_all add: fatal_stage_def)
  have core: "core_inv s" using inv by (simp add: dfs_inv_def)
  have ahead: "df_next f < ao_count (df_ordering f)" using f assms(2) rootFrame_count [of opts] by simp
  let ?a = "ao_actions (df_ordering f) ! df_next f"
  let ?p = "df_next f < ao_groundedPriorityCount (df_ordering f)"
  obtain e d1 where e: "runExpansion env d n ?a = (Inr e, d1)" "exBelowScreen e"
    using assms(3) unfolding fatal_from_def by blast
  have ok: "expansion_ok e" using e(1) by (rule runExpansion_ok)
  let ?s = "stepped d1 f [] s"
  let ?t = "pruned f ?a ?p e ?s"
  note pf = pruned_fields [OF core f(1), of ?a ?p e d1]
  have nodes: "nodes (advanceTop s) = nodes s" by (simp add: advanceTop_def f)
  have noalive: "exTraceEvent ?s (nodes s ! df_node f) e \<noteq> TE_ExpandedAlive"
    by (simp add: fatal_event [OF e(2)])
  have "tick env s = expandTop env d f s"
    using run d f ahead roomy_budget [OF assms(1,4)] assms(2)
    by (simp add: tick_def tickLoop.simps [of env d s])
  also have "\<dots> = commitExpansion (df_node f) ?a ?p e ?s"
    using e(1) by (simp add: expandTop_def Let_def nodes stepped_eq [OF f(1)] f(2) node)
  also have "\<dots> = finishExpansion ?t"
    using noalive event_pushed [OF ok, of ?s "nodes s ! df_node f"]
    by (simp add: commit_eq Let_def pruned_def)
  also have "\<dots> = Some (?t, advanced_tick False)"
    using assms(4) run by (simp add: finishExpansion_def pf opts roomy_def)
  finally have tick: "tick env s = Some (?t, advanced_tick False)" .
  have tinv: "dfs_inv ?t" by (rule pruned_inv [OF inv f(1) ahead refl noalive ok])
  have "nodes ?t ! 0 = n" using node len by (simp add: pf(1) nth_append)
  moreover have "childOutcomeOf (exTraceEvent ?s (nodes s ! df_node f) e) e = Outcome_ClosedLoss"
    by (rule fatal_event(2) [OF e(2) ok])
  then obtain r where st: "dfsStack ?t = [noteChildOutcome Outcome_ClosedLoss r (advance f)]"
    using pf(2) by auto
  moreover have "completed ?t = completed s" "paused ?t = paused s" "options ?t = options s"
    "driver ?t = Some d1" "length (nodes ?t) = Suc (length (nodes s))"
    by (simp_all only: pf length_append_singleton)
  ultimately have "fatal_stage opts n (Suc k) ?t"
    unfolding fatal_stage_def using tinv run opts len f by simp
  moreover have "lossKeys ?t = lossKeys s @ [exKey opts e]"
    "nodeOutcomes ?t = nodeOutcomes s @ [Outcome_ClosedLoss]"
    using pf(3,5) fatal_event(2) [OF e(2) ok] by (simp_all add: opts)
  ultimately show ?thesis using tick e(1) by blast
qed

lemma fatal_runTicks:
  assumes "fatal_from env n" and "roomy opts"
  shows "fatal_stage opts n k s \<Longrightarrow> k + m \<le> 11 \<Longrightarrow>
    \<exists>t. runTicks env m s = Some t \<and> fatal_stage opts n (k + m) t"
proof (induction m arbitrary: k s)
  case (Suc m)
  then obtain t r where "tick env s = Some (t, r)" "fatal_stage opts n (Suc k) t"
    using fatal_tick [OF Suc.prems(1) _ assms] by fastforce
  with Suc.IH [of "Suc k" t] Suc.prems(2) show ?case by simp
qed simp

lemma runTicks_add: "runTicks env (m + n) s = runTicks env m s \<bind> runTicks env n"
proof (induction m arbitrary: s)
  case (Suc m)
  then show ?case by (cases "tick env s") auto
qed simp

lemma fatal_last_tick:
  assumes "fatal_stage opts n 11 s" and "roomy opts"
  shows "\<exists>t r. tick env s = Some (t, r) \<and> completed t \<and> completionReason t = Some CR_Completed
    \<and> length (nodes t) = 12 \<and> nodeOutcomes t ! 0 = Outcome_ClosedLoss"
proof -
  obtain f d where f: "dfsStack s = [f]" "df_node f = 0" "df_next f = 11"
    "df_ordering f = df_ordering (rootFrame opts)" "df_candidate f" and d: "driver s = Some d"
    using assms(1) by (auto simp: fatal_stage_def)
  have inv: "dfs_inv s" and run: "\<not> completed s" "\<not> paused s" and len: "length (nodes s) = 12"
    using assms(1) by (simp_all add: fatal_stage_def)
  have core: "core_inv s" using inv by (simp add: dfs_inv_def)
  have over: "df_next f \<ge> ao_count (df_ordering f)" using f rootFrame_count [of opts] by simp
  let ?p = "popExhausted f [] s"
  note pf = pop_fields [OF core f(1)]
  have "noteOnTop (frameOutcome f) (frameReason f) ?p = ?p" by (simp add: noteOnTop_def)
  with pop_inv [OF inv f(1) over] have pinv: "dfs_inv ?p" by simp
  have nb: "\<not> budgetExceeded s" by (rule roomy_budget [OF assms(1,2)]) simp
  then have pb: "\<not> budgetExceeded ?p" using pf(8) by (simp add: budgetExceeded_def same_best_def)
  let ?t = "finishWith PE_CompletedExhausted CR_Completed None (bestLeafEntry TE_CompletedExhausted) ?p"
  have "tick env s = tickLoop env d ?p"
    using run d f over nb by (simp add: tick_def tickLoop.simps [of env d s])
  also have "\<dots> = Some (?t, idle_tick\<lparr>tr_completed := True\<rparr>)"
    using pb by (simp add: tickLoop_empty completeTick_def completeWithTraceEvent_eq [OF dfs_inv_leaf [OF pinv]])
  finally have tick: "tick env s = Some (?t, idle_tick\<lparr>tr_completed := True\<rparr>)" .
  have sc: "nodes ?t = nodes ?p" "nodeOutcomes ?t = nodeOutcomes ?p"
    using finishWith_fields(1) [of ?p PE_CompletedExhausted CR_Completed None "bestLeafEntry TE_CompletedExhausted"]
    by (simp_all add: same_core_def)
  have "length (nodeOutcomes s) = 12" using core_inv_lengths(2) [OF core] len by simp
  then have "nodeOutcomes ?p ! 0 = Outcome_ClosedLoss"
    using f by (simp add: pf(3) frameOutcome_def)
  then show ?thesis using tick len by (auto simp: sc pf(1))
qed


text \<open>The demo emulator, started one frame later, is fatal from its root.\<close>

definition doomedFixture :: root_fixture where
  "doomedFixture = demoFixture\<lparr>rf_savestate := demoSave 1\<rparr>"

lemma doomed_snapshot:
  "phase (extractState (demoSnapshot False) True) = Phase_Gameplay"
  "gameMode (extractState (demoSnapshot False) True) = GameMode_Normal"
  "lifeState (extractState (demoSnapshot False) True) = Life_Alive"
  "playerYScreen (extractState (demoSnapshot False) True) = 230"
  by code_simp+

lemma evaluate_below_screen:
  assumes "phase st = Phase_Gameplay" and "\<not> isTerminalState st" and "\<not> hasLastLives ev"
    and "playerYScreen st \<ge> kBelowScreenThreshold"
  shows "eo_endReason (snd (evaluate ev adv st)) = End_FellBelowScreen"
  using assms by (simp add: evaluate_def countFrames_def evaluateAlive_def episodeEnd_def outputAt_def split_beta Let_def)

lemma restored_no_lives: "\<not> hasLastLives (evaluatorFromSummary sm)"
  by (simp add: evaluatorFromSummary_def restoreProgress_def resetEvaluator_def)

lemma doomed_fatal:
  assumes "ss_bytes (sn_savestate n) \<noteq> []"
  shows "fatal_from demoEnv n"
proof -
  have "\<exists>e d'. runExpansion demoEnv d n a = (Inr e, d') \<and> exBelowScreen e" for d a
  proof -
    let ?st = "extractState (demoSnapshot False) True"
    have "eo_endReason (snd (evaluate (evaluatorFromSummary sm) 1 ?st)) = End_FellBelowScreen" for sm
      by (rule evaluate_below_screen)
        (simp_all add: restored_no_lives doomed_snapshot isTerminalState_def kBelowScreenThreshold_def)
    then have "fs_endReason (snapshot (snd (evaluate (evaluatorFromSummary sm) 1 ?st)))
        = End_FellBelowScreen" for sm
      by (simp add: evaluate_snapshot makeSnapshot_def)
    with assms show ?thesis
      by (simp add: runExpansion_def demoEnv_def demoStep_def exBelowScreen_def Let_def del: actionToFrame.simps)
  qed
  then show ?thesis unfolding fatal_from_def by blast
qed

lemma doomed_starts:
  obtains s where "startFromFixture demoEnv doomedFixture (newSearch default_options) = Some (okay (), s)"
    "ss_bytes (sn_savestate (nodes s ! 0)) \<noteq> []"
proof -
  have "env_load demoEnv 0 (rf_savestate doomedFixture) = (True, 1)"
    by (simp add: demoEnv_def doomedFixture_def demoSave_def)
  from startFromFixture_starts [OF demo_init this, of default_options] that show ?thesis
    by (auto simp: doomedFixture_def demoSave_def)
qed

lemma default_roomy: "roomy (options (newSearch default_options))"
  by (simp add: roomy_def default_options_def)


theorem closed_loss_sound_witness:
  "\<exists>s :: nat dfs_search. length (nodes s) = 12
    \<and> (\<forall>j \<in> subtree (nodes s) 0. nodeOutcomes s ! j = Outcome_ClosedLoss)"
proof -
  obtain s where s: "startFromFixture demoEnv doomedFixture (newSearch default_options) = Some (okay (), s)"
    "ss_bytes (sn_savestate (nodes s ! 0)) \<noteq> []" by (rule doomed_starts)
  then have "started default_options s"
    using startFromFixture_good [of "newSearch default_options" demoEnv doomedFixture]
    by (simp add: good_start_def)
  then have st: "fatal_stage default_options (nodes s ! 0) 0 s"
    by (auto simp: fatal_stage_def started_def rootFrame_def)
  have roomy: "roomy default_options" using default_roomy by simp
  from fatal_runTicks [OF doomed_fatal [OF s(2)] roomy st, of 11] obtain t where
    t: "runTicks demoEnv 11 s = Some t" "fatal_stage default_options (nodes s ! 0) 11 t" by auto
  from fatal_last_tick [OF t(2) roomy, of demoEnv] obtain u r where u: "tick demoEnv t = Some (u, r)"
    "length (nodes u) = 12" "nodeOutcomes u ! 0 = Outcome_ClosedLoss" by blast
  have "reachable demoEnv u"
    by (rule reach_op [OF reachable_runTicks [OF reach_op [OF reach_new op_fixture [OF s(1)]] t(1)]
        op_tick [OF u(1)]])
  from closed_loss_sound [OF this _ u(3)] u(2) show ?thesis by auto
qed

text \<open>C5: When a child is pruned as a transposition, the search has already proven a closed loss
  with the same key that had reached at least the child's frontier in no more frames and with no
  longer a stall.\<close>

theorem transposition_prune_justified:
  assumes "reachable env s" and "exPrunedTransposition s e"
  shows "\<exists>i < length (nodes s). nodeOutcomes s ! i = Outcome_ClosedLoss
    \<and> lossKeys s ! i \<noteq> None \<and> lossKeys s ! i = exKey (options s) e
    \<and> entryDominates (entryOfSummary (sn_summary (nodes s ! i))) (ex_summary e)"
proof -
  from assms(2) obtain k en where k: "exKey (options s) e = Some k" "exactTable s k = Some en"
    "entryDominates en (ex_summary e)"
    by (auto simp: exPrunedTransposition_def isClosedLossTranspositionPruned_def split: option.splits)
  have "stores entryBetter (exactProof (nodes s) (nodeOutcomes s) (lossKeys s)) (exactTable s)"
    using reachable_soft(5) [OF assms(1)] by (simp add: tables_ok_def)
  from stores_from [OF this k(2)] k(1,3) show ?thesis by (auto simp: exactProof_def)
qed

lemma doomed_key:
  assumes "runExpansion demoEnv d n a = (Inr e, d')" and "ss_bytes (sn_savestate n) \<noteq> []"
  shows "exKey default_options e \<noteq> None"
    and "ex_state e = extractState (demoSnapshot False) True" "ex_memory e = demoSnapshot False"
proof -
  from runExpansion_Inr [OF assms(1)] assms(2) show m: "ex_memory e = demoSnapshot False"
    by (auto simp: demoEnv_def demoStep_def)
  from runExpansion_Inr [OF assms(1)] m show st: "ex_state e = extractState (demoSnapshot False) True"
    by auto
  show "exKey default_options e \<noteq> None"
    by (simp add: exKey_def buildClosedLossKey_def st doomed_snapshot default_options_def)
qed

theorem transposition_prune_justified_witness:
  "\<exists>(s :: nat dfs_search) e. exPrunedTransposition s e
    \<and> (\<exists>i < length (nodes s). nodeOutcomes s ! i = Outcome_ClosedLoss
        \<and> lossKeys s ! i = exKey (options s) e)"
proof -
  obtain s where s: "startFromFixture demoEnv doomedFixture (newSearch default_options) = Some (okay (), s)"
    "ss_bytes (sn_savestate (nodes s ! 0)) \<noteq> []" by (rule doomed_starts)
  then have "started default_options s"
    using startFromFixture_good [of "newSearch default_options" demoEnv doomedFixture]
    by (simp add: good_start_def)
  then have st: "fatal_stage default_options (nodes s ! 0) 0 s"
    by (auto simp: fatal_stage_def started_def rootFrame_def)
  have roomy: "roomy default_options" using default_roomy by simp
  obtain t r e d a d' where t: "tick demoEnv s = Some (t, r)"
    "fatal_stage default_options (nodes s ! 0) (Suc 0) t"
    "runExpansion demoEnv d (nodes s ! 0) a = (Inr e, d')"
    "lossKeys t = lossKeys s @ [exKey default_options e]"
    "nodeOutcomes t = nodeOutcomes s @ [Outcome_ClosedLoss]"
    using fatal_tick [OF st _ doomed_fatal [OF s(2)] roomy] by auto
  have reach: "reachable demoEnv t"
    by (rule reach_op [OF reach_op [OF reach_new op_fixture [OF s(1)]] op_tick [OF t(1)]])
  obtain k where k: "exKey default_options e = Some k" using doomed_key(1) [OF t(3) s(2)] by auto
  note key = doomed_key(2,3) [OF t(3) s(2)]
  have opts: "options t = default_options" and len: "length (nodes t) = 2"
    using t(2) by (simp_all add: fatal_stage_def)
  note inv = reachable_soft [OF reach]
  have "length (nodeOutcomes t) = 2" "length (lossKeys t) = 2"
    using inv(2,5) len by (simp_all add: outcomes_ok_def tables_ok_def)
  then have "nodeOutcomes t ! 1 = Outcome_ClosedLoss" "lossKeys t ! 1 = Some k"
    using t(4,5) k by (simp_all add: nth_append)
  then have "exactProof (nodes t) (nodeOutcomes t) (lossKeys t) k (entryOfSummary (sn_summary (nodes t ! 1)))"
    using len unfolding exactProof_def by (intro exI [of _ 1]) simp
  with inv(5) obtain en where en: "exactTable t k = Some en"
    unfolding tables_ok_def stores_def by blast
  let ?e = "e\<lparr>ex_summary := (empty_summary None)\<lparr>sm_gameplayFrames := - 1, sm_framesSinceProgress := - 1\<rparr>\<rparr>"
  have ek: "exKey (options t) ?e = Some k" using k by (simp add: exKey_def opts)
  have "exPrunedTransposition t ?e"
    using ek en key by (simp add: exPrunedTransposition_def isClosedLossTranspositionPruned_def
        entryDominates_def exNonGameplay_def doomed_snapshot empty_summary_def)
  with transposition_prune_justified [OF reach this] show ?thesis by blast
qed

section \<open>One expansion\<close>

text \<open>The event the trace reports for an expansion is \<open>ExpandedAlive\<close> exactly when the child is
  pushed on the stack, though the source tests the two conditions separately: it rests on the
  evaluator, which ends the episode whenever it says the player fell below the screen.\<close>

theorem event_agrees_with_push:
  assumes "runExpansion env d parent action = (Inr e, d')"
  shows "(exTraceEvent s parent e = TE_ExpandedAlive) = exPushed s parent e"
  by (rule event_pushed [OF runExpansion_ok [OF assms]])

theorem event_agrees_with_push_witness:
  "\<exists>e d'. runExpansion demoEnv 0 ((rootNode (demoSave 1) (rf_summary demoFixture) None None)) Act_Right = (Inr e, d')
    \<and> (exTraceEvent (newSearch default_options :: nat dfs_search)
         (rootNode (demoSave 1) (rf_summary demoFixture) None None) e = TE_ExpandedAlive)
      = exPushed (newSearch default_options :: nat dfs_search)
         (rootNode (demoSave 1) (rf_summary demoFixture) None None) e"
proof -
  have "fatal_from demoEnv (rootNode (demoSave 1) (rf_summary demoFixture) None None)"
    by (rule doomed_fatal) (simp add: rootNode_def demoSave_def)
  then obtain e d' where "runExpansion demoEnv 0 (rootNode (demoSave 1) (rf_summary demoFixture) None None)
      Act_Right = (Inr e, d')"
    unfolding fatal_from_def by blast
  with event_agrees_with_push [OF this] show ?thesis by blast
qed

text \<open>The summary of an evaluator's last output, as the search stores it for gameplay frames.\<close>

definition summaryOf :: "smb_state \<Rightarrow> evaluator \<Rightarrow> evaluator_summary" where
  "summaryOf st ev = buildSmbSearchEvaluatorSummary (SmbFitness (makeSnapshot st ev End_None False)) (Some 1)"



section \<open>The stepper contract\<close>

interpretation dfs: stepper "tick env" tr_completed completed paused pauseSet stop search_inv
proof unfold_locales
  show "\<exists>t r. tick env s = Some (t, r) \<and> search_inv t \<and> tr_completed r = completed t"
    if "search_inv s" for s :: "'a dfs_search"
    by (rule tick_search_inv [OF that])
  show "\<exists>r. tick env s = Some (s, r) \<and> tr_completed r" if "completed s" for s :: "'a dfs_search"
    using tick_completed [OF that, of env] by simp
  show "\<exists>r. tick env s = Some (s, r) \<and> \<not> tr_completed r"
    if "\<not> completed s" "paused s" for s :: "'a dfs_search"
    using tick_paused [OF that, of env] by (simp add: idle_tick_def)
  show "paused (pauseSet b s) = b" for b and s :: "'a dfs_search"
    by (simp add: pauseSet_def setProgressPaused_def)
  show "\<exists>t. stop s = Some t \<and> completed t \<and> search_inv t" if "search_inv s" for s :: "'a dfs_search"
    using stop_search_inv [OF that] by blast
qed (simp_all add: pause_search_inv)

lemma dfs_run: "dfs.run env n s = runTicks env n s"
proof (induction n arbitrary: s)
  case (Suc n)
  then show ?case by (cases "tick env s") auto
qed simp

text \<open>Stopping a search in any reachable state completes it for good, and a paused search does not
  change under any number of ticks.\<close>

theorem stop_final_pause_freezes:
  assumes "reachable env s"
  shows "(\<exists>t. stop s = Some t \<and> completed t \<and> runTicks env n t = Some t)
    \<and> runTicks env n (pauseSet True s) = Some (pauseSet True s)"
  using dfs.stop_is_final [OF reachable_search_inv [OF assms], of env n]
    dfs.pause_freezes [of env n s] by (simp add: dfs_run)

theorem stop_final_pause_freezes_witness:
  "\<exists>s. started default_options s \<and> (\<exists>t. stop s = Some t \<and> completed t \<and> runTicks demoEnv 9 t = Some t)"
proof -
  obtain s where s: "reachable demoEnv s" "started default_options s" by (rule demo_reachable)
  with stop_final_pause_freezes [OF s(1), of 9] show ?thesis by blast
qed

end
