(* ===== verification/PlanExecution.thy ===== *)
theory PlanExecution
  imports NesDriver SmbAdapter Stepper DemoEmulator
begin

text \<open>
  Running a plan, server/search/SmbPlanExecution.cpp: either the emulator is driven by holding
  right while the gameplay frames are recorded into a plan, or the frames of a stored plan are
  played back. The record \<open>plan_execution\<close> holds the members of the class, \<open>px_tick\<close> is its
  \<open>tick\<close>. The lemmas give the invariant of the playback index, the stepper contract, and that
  playing back a recorded plan drives the emulator exactly as the recording did.
\<close>

datatype exec_mode = Mode_HoldRightSearch | Mode_PlanPlayback

datatype exec_reason = XR_Completed | XR_Stopped | XR_Error

record exec_result =
  xr_completed :: bool
  xr_frameAdvanced :: bool
  xr_error :: "string option"

definition idle_exec :: exec_result where
  "idle_exec = \<lparr>xr_completed = False, xr_frameAdvanced = False, xr_error = None\<rparr>"

record 'd plan_execution =
  px_driver :: "'d option"
  px_adapter :: "smb_adapter option"
  px_worldData :: world_data
  px_video :: "video_frame option"
  px_lastGameState :: "u8 option"
  px_plan :: search_plan
  px_progress :: search_progress
  px_playbackIndex :: nat
  px_completed :: bool
  px_paused :: bool
  px_mode :: exec_mode
  px_reason :: "exec_reason option"
  px_errorMessage :: "string option"

definition newExecution :: "'d plan_execution" where
  "newExecution =
     \<lparr>px_driver = None, px_adapter = None, px_worldData = empty_world_data, px_video = None,
      px_lastGameState = None, px_plan = empty_plan, px_progress = empty_progress,
      px_playbackIndex = 0, px_completed = False, px_paused = False,
      px_mode = Mode_HoldRightSearch, px_reason = None, px_errorMessage = None\<rparr>"

section \<open>Starting\<close>

text \<open>\<open>startCommon\<close> after the driver is set up.\<close>

definition px_clear :: "'d \<Rightarrow> 'd plan_execution \<Rightarrow> 'd plan_execution" where
  "px_clear d x =
     x\<lparr>px_driver := Some d, px_adapter := Some (adapterReset newAdapter),
       px_worldData := empty_world_data\<lparr>wd_width := 256, wd_height := 240\<rparr>,
       px_video := None, px_lastGameState := None, px_progress := empty_progress,
       px_completed := False, px_paused := False, px_reason := None, px_errorMessage := None\<rparr>"

definition px_startCommon ::
  "'d nes_env \<Rightarrow> 'd plan_execution \<Rightarrow> unit result \<times> 'd plan_execution" where
  "px_startCommon env x =
     (case env_setConfig env (env_newDriver env) of
        (Inl msg, d) \<Rightarrow> (error msg, x\<lparr>px_driver := Some d\<rparr>)
      | (Inr _, d) \<Rightarrow>
          (case env_setup env d of
             (Inl msg, d1) \<Rightarrow> (error msg, x\<lparr>px_driver := Some d1\<rparr>)
           | (Inr _, d1) \<Rightarrow> (okay (), px_clear d1 x)))"

definition px_startHoldRight ::
  "'d nes_env \<Rightarrow> 'd plan_execution \<Rightarrow> unit result \<times> 'd plan_execution" where
  "px_startHoldRight env x =
     px_startCommon env (x\<lparr>px_mode := Mode_HoldRightSearch,
       px_plan := empty_plan\<lparr>pl_id := env_uuid env\<rparr>, px_playbackIndex := 0\<rparr>)"

definition px_startPlayback ::
  "'d nes_env \<Rightarrow> search_plan \<Rightarrow> 'd plan_execution \<Rightarrow> unit result \<times> 'd plan_execution" where
  "px_startPlayback env p x =
     px_startCommon env (x\<lparr>px_mode := Mode_PlanPlayback, px_plan := p, px_playbackIndex := 0\<rparr>)"

section \<open>One tick\<close>

definition holdRightFrame :: player_control_frame where
  "holdRightFrame = makeFrame 127 0 0"

definition px_updateProgress :: "fitness_details \<Rightarrow> 'd plan_execution \<Rightarrow> 'd plan_execution" where
  "px_updateProgress details x =
     (let x1 = x\<lparr>px_progress := (px_progress x)\<lparr>pg_paused := px_paused x\<rparr>\<rparr>
      in case details of
           NoFitness \<Rightarrow> x1
         | SmbFitness f \<Rightarrow>
             let x2 = x1\<lparr>px_progress := (px_progress x1)
                   \<lparr>pg_bestFrontier := encodeSnapshotFrontier f,
                    pg_currentGameplayFrame := fs_gameplayFrames f,
                    pg_lastSearchEvent := PE_ExpandedAlive\<rparr>\<rparr>
             in if px_mode x2 = Mode_HoldRightSearch
                then x2\<lparr>px_plan := (px_plan x2)\<lparr>pl_bestFrontier := pg_bestFrontier (px_progress x2),
                                              pl_elapsedFrames := fs_gameplayFrames f\<rparr>\<rparr>
                else x2)"

text \<open>A frame that belongs to gameplay is recorded, or the next frame of the plan becomes current.\<close>

definition px_noteGameplayFrame ::
  "player_control_frame \<Rightarrow> 'd plan_execution \<Rightarrow> 'd plan_execution" where
  "px_noteGameplayFrame frame x =
     (if px_mode x = Mode_HoldRightSearch
      then x\<lparr>px_plan := (px_plan x)\<lparr>pl_frames := pl_frames (px_plan x) @ [frame]\<rparr>\<rparr>
      else if px_playbackIndex x < length (pl_frames (px_plan x))
      then x\<lparr>px_playbackIndex := px_playbackIndex x + 1\<rparr>
      else x)"

definition px_showVideo :: "video_frame option \<Rightarrow> 'd plan_execution \<Rightarrow> 'd plan_execution" where
  "px_showVideo v x =
     (case v of None \<Rightarrow> x
      | Some f \<Rightarrow> x\<lparr>px_video := Some f,
                    px_worldData := (px_worldData x)\<lparr>wd_width := vf_width f, wd_height := vf_height f\<rparr>\<rparr>)"

definition playbackDone :: "'d plan_execution \<Rightarrow> bool" where
  "playbackDone x =
     (px_mode x = Mode_PlanPlayback \<and> px_playbackIndex x \<ge> length (pl_frames (px_plan x)))"

text \<open>The frame to play now; the index is in range when this is reached.\<close>

definition px_frame :: "'d plan_execution \<Rightarrow> player_control_frame" where
  "px_frame x =
     (if px_mode x = Mode_PlanPlayback then pl_frames (px_plan x) ! px_playbackIndex x
      else holdRightFrame)"

text \<open>The part of the tick after a healthy step that advanced.\<close>

definition px_score ::
  "player_control_frame \<Rightarrow> controller_output \<Rightarrow> step_result \<Rightarrow> smb_adapter \<Rightarrow> 'd plan_execution
   \<Rightarrow> 'd plan_execution" where
  "px_score frame co sr ad x =
     (let x1 = x\<lparr>px_worldData := (px_worldData x)
            \<lparr>wd_timestep := wd_timestep (px_worldData x) + ucast (sr_advancedFrames sr)\<rparr>\<rparr>
      in case evaluateFrame ad (sr_advancedFrames sr) (sr_memorySnapshot sr) of (ad1, out) \<Rightarrow>
         let lastState1 = (case fo_gameState out of None \<Rightarrow> px_lastGameState x1 | Some g \<Rightarrow> Some g);
             x2 = px_updateProgress (fo_fitness out)
                    (x1\<lparr>px_adapter := Some ad1, px_lastGameState := lastState1\<rparr>);
             x3 = (if isSmbGameplayFrame lastState1 co then px_noteGameplayFrame frame x2 else x2)
         in if fo_done out \<or> playbackDone x3
            then x3\<lparr>px_completed := True, px_reason := Some XR_Completed\<rparr>
            else x3)"

definition px_tick :: "'d nes_env \<Rightarrow> 'd plan_execution \<Rightarrow> 'd plan_execution \<times> exec_result" where
  "px_tick env x =
     (if px_completed x then (x, idle_exec\<lparr>xr_completed := True\<rparr>)
      else if px_paused x then (x, idle_exec)
      else case (px_driver x, px_adapter x) of
        (Some d, Some ad) \<Rightarrow>
          if playbackDone x then
            (x\<lparr>px_completed := True, px_reason := Some XR_Completed\<rparr>,
             idle_exec\<lparr>xr_completed := True\<rparr>)
          else
            let frame = px_frame x;
                co = resolveControllerMask ad (playerControlFrameToNesMask frame) (px_lastGameState x)
            in case env_step env d (resolvedControllerMask co) of (sr, d1) \<Rightarrow>
               let x1 = px_showVideo (sr_scenarioVideoFrame sr) (x\<lparr>px_driver := Some d1\<rparr>)
               in if \<not> sr_runtimeHealthy sr \<or> \<not> sr_runtimeRunning sr then
                    let msg = errorOr (sr_lastError sr) ''NES runtime stopped''
                    in (x1\<lparr>px_completed := True, px_reason := Some XR_Error,
                           px_errorMessage := Some msg\<rparr>,
                        idle_exec\<lparr>xr_completed := True, xr_error := Some msg\<rparr>)
                  else if sr_advancedFrames sr = 0 then (x1, idle_exec)
                  else
                    let x2 = px_score frame co sr ad x1
                    in (x2, \<lparr>xr_completed = px_completed x2, xr_frameAdvanced = True, xr_error = None\<rparr>)
      | _ \<Rightarrow>
          (x\<lparr>px_completed := True, px_reason := Some XR_Error,
             px_errorMessage := Some ''SMB execution not initialized''\<rparr>,
           idle_exec\<lparr>xr_completed := True, xr_error := Some ''SMB execution not initialized''\<rparr>))"

section \<open>Pausing, stopping, reading\<close>

definition px_pauseSet :: "bool \<Rightarrow> 'd plan_execution \<Rightarrow> 'd plan_execution" where
  "px_pauseSet b x = x\<lparr>px_paused := b, px_progress := (px_progress x)\<lparr>pg_paused := b\<rparr>\<rparr>"

definition px_stop :: "'d plan_execution \<Rightarrow> 'd plan_execution" where
  "px_stop x = x\<lparr>px_completed := True, px_reason := Some XR_Stopped, px_errorMessage := None\<rparr>"

definition px_hasPersistablePlan :: "'d plan_execution \<Rightarrow> bool" where
  "px_hasPersistablePlan x = (pl_frames (px_plan x) \<noteq> [])"

definition px_hasRenderableFrame :: "'d plan_execution \<Rightarrow> bool" where
  "px_hasRenderableFrame x = (px_video x \<noteq> None)"

section \<open>Members after a tick\<close>

abbreviation px_frames :: "'d plan_execution \<Rightarrow> player_control_frame list" where
  "px_frames x \<equiv> pl_frames (px_plan x)"

text \<open>The game state after a frame: the new one if the frame reported one.\<close>

definition nextGameState :: "frame_output \<Rightarrow> u8 option \<Rightarrow> u8 option" where
  "nextGameState out last_state = (case fo_gameState out of None \<Rightarrow> last_state | Some g \<Rightarrow> Some g)"

lemma px_updateProgress_fields [simp]:
  "px_driver (px_updateProgress f x) = px_driver x" "px_adapter (px_updateProgress f x) = px_adapter x"
  "px_lastGameState (px_updateProgress f x) = px_lastGameState x"
  "px_mode (px_updateProgress f x) = px_mode x" "px_paused (px_updateProgress f x) = px_paused x"
  "px_completed (px_updateProgress f x) = px_completed x"
  "px_playbackIndex (px_updateProgress f x) = px_playbackIndex x"
  "px_frames (px_updateProgress f x) = px_frames x"
  by (simp_all add: px_updateProgress_def Let_def split: fitness_details.split)

lemma px_noteGameplayFrame_fields [simp]:
  "px_driver (px_noteGameplayFrame f x) = px_driver x"
  "px_adapter (px_noteGameplayFrame f x) = px_adapter x"
  "px_lastGameState (px_noteGameplayFrame f x) = px_lastGameState x"
  "px_mode (px_noteGameplayFrame f x) = px_mode x" "px_paused (px_noteGameplayFrame f x) = px_paused x"
  "px_completed (px_noteGameplayFrame f x) = px_completed x"
  by (simp_all add: px_noteGameplayFrame_def)

lemma px_showVideo_fields [simp]:
  "px_driver (px_showVideo v x) = px_driver x" "px_adapter (px_showVideo v x) = px_adapter x"
  "px_lastGameState (px_showVideo v x) = px_lastGameState x"
  "px_mode (px_showVideo v x) = px_mode x" "px_paused (px_showVideo v x) = px_paused x"
  "px_completed (px_showVideo v x) = px_completed x" "px_plan (px_showVideo v x) = px_plan x"
  "px_playbackIndex (px_showVideo v x) = px_playbackIndex x"
  by (simp_all add: px_showVideo_def split: option.split)

lemma px_score_fields:
  fixes x :: "'d plan_execution" and frame :: player_control_frame and co :: controller_output
  assumes "evaluateFrame ad (sr_advancedFrames sr) (sr_memorySnapshot sr) = (ad1, out)"
  defines "g \<equiv> nextGameState out (px_lastGameState x)"
    and "y \<equiv> px_score frame co sr ad x"
  shows "px_driver y = px_driver x" "px_adapter y = Some ad1" "px_lastGameState y = g"
    "px_mode y = px_mode x" "px_paused y = px_paused x"
    "px_frames y = (if isSmbGameplayFrame g co \<and> px_mode x = Mode_HoldRightSearch
       then px_frames x @ [frame] else px_frames x)"
    "px_playbackIndex y = (if isSmbGameplayFrame g co \<and> px_mode x = Mode_PlanPlayback
         \<and> px_playbackIndex x < length (px_frames x)
       then Suc (px_playbackIndex x) else px_playbackIndex x)"
    "px_completed y = (px_completed x \<or> fo_done out \<or> playbackDone y)"
proof -
  have m: "px_mode x \<noteq> Mode_HoldRightSearch \<longleftrightarrow> px_mode x = Mode_PlanPlayback"
    by (cases "px_mode x") auto
  show "px_driver y = px_driver x" "px_adapter y = Some ad1" "px_lastGameState y = g"
    "px_mode y = px_mode x" "px_paused y = px_paused x"
    "px_frames y = (if isSmbGameplayFrame g co \<and> px_mode x = Mode_HoldRightSearch
       then px_frames x @ [frame] else px_frames x)"
    "px_playbackIndex y = (if isSmbGameplayFrame g co \<and> px_mode x = Mode_PlanPlayback
         \<and> px_playbackIndex x < length (px_frames x)
       then Suc (px_playbackIndex x) else px_playbackIndex x)"
    using assms(1) m
    by (simp_all add: y_def g_def px_score_def nextGameState_def [symmetric] Let_def)
      (simp_all add: px_noteGameplayFrame_def)
  show "px_completed y = (px_completed x \<or> fo_done out \<or> playbackDone y)"
    using assms(1) by (auto simp: y_def px_score_def Let_def playbackDone_def)
qed

section \<open>The stepper contract\<close>

text \<open>The playback index never passes the end of the plan.\<close>

definition px_ok :: "'d plan_execution \<Rightarrow> bool" where
  "px_ok x = (px_mode x = Mode_PlanPlayback \<longrightarrow> px_playbackIndex x \<le> length (px_frames x))"

lemma px_score_ok: "px_ok x \<Longrightarrow> px_ok (px_score frame co sr ad x)"
proof -
  assume ok: "px_ok x"
  obtain ad1 out where ev: "evaluateFrame ad (sr_advancedFrames sr) (sr_memorySnapshot sr) = (ad1, out)"
    by (cases "evaluateFrame ad (sr_advancedFrames sr) (sr_memorySnapshot sr)")
  show ?thesis using ok by (simp add: px_ok_def px_score_fields [OF ev])
qed

lemma px_tick_ok:
  assumes "px_ok x"
  shows "px_ok (fst (px_tick env x))"
proof -
  have vid: "px_ok (px_showVideo v (x\<lparr>px_driver := d\<rparr>))" for v d
    using assms by (simp add: px_ok_def)
  note score = px_score_ok [OF vid]
  have upd: "px_ok (z\<lparr>px_completed := a, px_reason := b\<rparr>) = px_ok z"
    "px_ok (z\<lparr>px_completed := a, px_reason := b, px_errorMessage := c\<rparr>) = px_ok z" for z :: "'a plan_execution" and a b c
    by (simp_all add: px_ok_def)
  show ?thesis using assms vid score
    by (simp add: px_tick_def Let_def upd split_beta split: option.split)
qed

lemma px_tick_answer: "xr_completed (snd (px_tick env x)) = px_completed (fst (px_tick env x))"
  by (simp add: px_tick_def idle_exec_def Let_def split_beta split: option.split)

interpretation px: stepper "\<lambda>x. Some (px_tick env x)" xr_completed px_completed px_paused
    px_pauseSet "\<lambda>x. Some (px_stop x)" px_ok
proof unfold_locales
  show "\<exists>t r. Some (px_tick env s) = Some (t, r) \<and> px_ok t \<and> xr_completed r = px_completed t"
    if "px_ok s" for s :: "'a plan_execution"
    using px_tick_ok [OF that, of env] px_tick_answer [of env s] by (cases "px_tick env s") simp
  show "\<exists>r. Some (px_tick env s) = Some (s, r) \<and> xr_completed r" if "px_completed s"
    for s :: "'a plan_execution" using that by (simp add: px_tick_def idle_exec_def)
  show "\<exists>r. Some (px_tick env s) = Some (s, r) \<and> \<not> xr_completed r"
    if "\<not> px_completed s" "px_paused s" for s :: "'a plan_execution"
    using that by (simp add: px_tick_def idle_exec_def)
qed (simp_all add: px_pauseSet_def px_stop_def px_ok_def)

text \<open>The state after \<open>n\<close> ticks.\<close>

fun px_run :: "'d nes_env \<Rightarrow> nat \<Rightarrow> 'd plan_execution \<Rightarrow> 'd plan_execution" where
  "px_run env 0 x = x"
| "px_run env (Suc n) x = px_run env n (fst (px_tick env x))"

lemma px_run_eq: "px.run env n x = Some (px_run env n x)"
  by (induction n arbitrary: x) (simp_all add: split_beta)

lemma px_run_snoc: "px_run env (Suc n) x = fst (px_tick env (px_run env n x))"
  by (induction n arbitrary: x) simp_all

lemma px_run_done: "px_completed x \<Longrightarrow> px_run env n x = x"
  using px.run_done [of x env n] by (simp add: px_run_eq)

section \<open>Recording and playing back\<close>

text \<open>
  A recording \<open>x\<close> and a playback \<open>y\<close> of \<open>frames\<close> in step: the same emulator state, adapter and
  last game state; the playback index is the number of frames recorded; the playback is done
  when the recording is, or when it has played everything.
\<close>

definition in_step ::
  "player_control_frame list \<Rightarrow> 'd plan_execution \<Rightarrow> 'd plan_execution \<Rightarrow> bool" where
  "in_step frames x y =
     (px_driver y = px_driver x \<and> px_driver x \<noteq> None
      \<and> px_adapter y = px_adapter x \<and> px_adapter x \<noteq> None
      \<and> px_lastGameState y = px_lastGameState x \<and> \<not> px_paused x \<and> \<not> px_paused y
      \<and> px_mode x = Mode_HoldRightSearch \<and> px_mode y = Mode_PlanPlayback
      \<and> px_frames y = frames \<and> px_playbackIndex y = length (px_frames x)
      \<and> set (px_frames x) \<subseteq> {holdRightFrame}
      \<and> px_completed y = (px_completed x \<or> length (px_frames x) = length frames))"

lemma in_step_tick:
  assumes "in_step frames x y" and "set frames \<subseteq> {holdRightFrame}"
    and "\<not> px_completed x" and "length (px_frames x) < length frames"
  shows "in_step frames (fst (px_tick env x)) (fst (px_tick env y))"
proof -
  obtain d ad where d: "px_driver x = Some d" "px_adapter x = Some ad"
    using assms(1) by (auto simp: in_step_def)
  have same: "px_driver y = Some d" "px_adapter y = Some ad" "px_lastGameState y = px_lastGameState x"
    "\<not> px_completed y" "\<not> px_paused x" "\<not> px_paused y" "px_mode x = Mode_HoldRightSearch"
    "px_mode y = Mode_PlanPlayback" "px_frames y = frames" "px_playbackIndex y = length (px_frames x)"
    "set (px_frames x) \<subseteq> {holdRightFrame}"
    using assms d by (auto simp: in_step_def)
  have "frames ! length (px_frames x) = holdRightFrame"
    using assms(2,4) nth_mem [OF assms(4)] by blast
  then have frame: "px_frame x = holdRightFrame" "px_frame y = holdRightFrame"
    by (simp_all add: px_frame_def same)
  have nd: "\<not> playbackDone x" "\<not> playbackDone y"
    using assms(4) by (simp_all add: playbackDone_def same)
  define co where "co = resolveControllerMask ad (playerControlFrameToNesMask holdRightFrame) (px_lastGameState x)"
  obtain sr d1 where step: "env_step env d (resolvedControllerMask co) = (sr, d1)"
    by (cases "env_step env d (resolvedControllerMask co)")
  obtain ad1 out where ev: "evaluateFrame ad (sr_advancedFrames sr) (sr_memorySnapshot sr) = (ad1, out)"
    by (cases "evaluateFrame ad (sr_advancedFrames sr) (sr_memorySnapshot sr)")
  let ?x1 = "px_showVideo (sr_scenarioVideoFrame sr) (x\<lparr>px_driver := Some d1\<rparr>)"
  let ?y1 = "px_showVideo (sr_scenarioVideoFrame sr) (y\<lparr>px_driver := Some d1\<rparr>)"
  note score = px_score_fields [OF ev]
  consider "\<not> sr_runtimeHealthy sr \<or> \<not> sr_runtimeRunning sr"
    | "sr_runtimeHealthy sr" "sr_runtimeRunning sr" "sr_advancedFrames sr = 0"
    | "sr_runtimeHealthy sr" "sr_runtimeRunning sr" "sr_advancedFrames sr \<noteq> 0" by blast
  then show ?thesis
  proof cases
    case 1
    with d same nd step frame assms(3) show ?thesis
      by (simp add: px_tick_def Let_def co_def [symmetric] in_step_def)
  next
    case 2
    with d same nd step frame assms(3,4) show ?thesis
      by (simp add: px_tick_def Let_def co_def [symmetric] in_step_def)
  next
    case 3
    let ?x2 = "px_score holdRightFrame co sr ad ?x1" and ?y2 = "px_score holdRightFrame co sr ad ?y1"
    have tick: "fst (px_tick env x) = ?x2" "fst (px_tick env y) = ?y2"
      using 3 d same nd step frame assms(3) by (simp_all add: px_tick_def Let_def co_def [symmetric])
    show ?thesis
      unfolding tick in_step_def using same assms(3,4)
      by (auto simp: score playbackDone_def)
  qed
qed

text \<open>As long as the recording has not ended and has not passed the plan's length.\<close>

lemma in_step_run:
  assumes "in_step frames x y" and "set frames \<subseteq> {holdRightFrame}"
    and "\<And>j. j < m \<Longrightarrow> \<not> px_completed (px_run env j x) \<and> length (px_frames (px_run env j x)) < length frames"
  shows "in_step frames (px_run env m x) (px_run env m y)"
  using assms(3)
proof (induction m)
  case 0
  with assms(1) show ?case by simp
next
  case (Suc m)
  then have "in_step frames (px_run env m x) (px_run env m y)" by simp
  from in_step_tick [OF this assms(2)] Suc.prems [of m] show ?case
    by (simp only: px_run_snoc) simp
qed

lemma started_in_step:
  assumes "px_startHoldRight env x0 = (Inr (), x)" and "px_startPlayback env p y0 = (Inr (), y)"
    and "pl_frames p \<noteq> []"
  shows "in_step (pl_frames p) x y"
  using assms
  by (auto simp: px_startHoldRight_def px_startPlayback_def px_startCommon_def px_clear_def
      in_step_def empty_plan_def split: prod.splits sum.splits)

text \<open>C10: Playing back a recorded plan reproduces the recording. Start the emulator once to record by
  holding right and once to play back a plan of such frames: as long as the recording runs and
  has not yet recorded more frames than the plan has, after the same number of ticks the emulator
  and adapter are in the same state, the playback has consumed as many frames as were recorded,
  and the playback is completed exactly when the recording is or when the plan is used up.\<close>

theorem playback_reproduces_recording:
  assumes "px_startHoldRight env x0 = (Inr (), x)" and "px_startPlayback env p y0 = (Inr (), y)"
    and "pl_frames p \<noteq> []" and "set (pl_frames p) \<subseteq> {holdRightFrame}"
    and "\<And>j. j < m \<Longrightarrow> \<not> px_completed (px_run env j x)
           \<and> length (px_frames (px_run env j x)) < length (pl_frames p)"
  shows "px_driver (px_run env m y) = px_driver (px_run env m x)
    \<and> px_adapter (px_run env m y) = px_adapter (px_run env m x)
    \<and> px_playbackIndex (px_run env m y) = length (px_frames (px_run env m x))
    \<and> px_completed (px_run env m y)
      = (px_completed (px_run env m x) \<or> length (px_frames (px_run env m x)) = length (pl_frames p))"
  using in_step_run [OF started_in_step [OF assms(1-3)] assms(4,5)] by (simp add: in_step_def)

text \<open>The concrete recording and playback of the witness, on a plan of one frame.\<close>

definition demoPlan :: search_plan where
  "demoPlan = empty_plan\<lparr>pl_frames := [holdRightFrame]\<rparr>"

theorem playback_reproduces_recording_witness:
  "\<exists>x y. px_startHoldRight demoEnv newExecution = (Inr (), x)
    \<and> px_startPlayback demoEnv demoPlan newExecution = (Inr (), y)
    \<and> px_driver (px_run demoEnv 1 y) = px_driver (px_run demoEnv 1 x)
    \<and> px_playbackIndex (px_run demoEnv 1 y) = length (px_frames (px_run demoEnv 1 x))"
proof -
  obtain x where x: "px_startHoldRight demoEnv newExecution = (Inr (), x)" "\<not> px_completed x"
    "px_frames x = []"
    by (simp add: px_startHoldRight_def px_startCommon_def demoEnv_def px_clear_def empty_plan_def)
  obtain y where y: "px_startPlayback demoEnv demoPlan newExecution = (Inr (), y)"
    by (simp add: px_startPlayback_def px_startCommon_def demoEnv_def)
  from playback_reproduces_recording [OF x(1) y, of 1] x y show ?thesis
    by (simp add: demoPlan_def)
qed

lemma px_tick_mode: "px_mode (fst (px_tick env x)) = px_mode x"
proof -
  have "px_mode (px_score f co sr ad z) = px_mode z" for f co sr ad and z :: "'a plan_execution"
    by (cases "evaluateFrame ad (sr_advancedFrames sr) (sr_memorySnapshot sr)")
      (simp add: px_score_fields(4))
  then show ?thesis by (simp add: px_tick_def Let_def split_beta split: option.split)
qed

lemma px_tick_records:
  assumes "px_mode x = Mode_HoldRightSearch"
  shows "\<exists>fs. px_frames (fst (px_tick env x)) = px_frames x @ fs \<and> set fs \<subseteq> {holdRightFrame}
    \<and> length fs \<le> 1"
proof -
  have "\<exists>fs. px_frames (px_score holdRightFrame co sr ad
        (px_showVideo v (x\<lparr>px_driver := d\<rparr>))) = px_frames x @ fs
      \<and> set fs \<subseteq> {holdRightFrame} \<and> length fs \<le> 1" for co sr ad v d
  proof (cases "evaluateFrame ad (sr_advancedFrames sr) (sr_memorySnapshot sr)")
    case (Pair ad1 out)
    show ?thesis unfolding px_score_fields(6) [OF Pair] by auto
  qed
  with assms show ?thesis
    by (simp add: px_tick_def px_frame_def playbackDone_def Let_def split_beta split: option.split)
qed

text \<open>A recording by holding right only ever appends the hold-right frame, at most one a tick, and
  the frames already recorded stay as they are.\<close>

theorem recording_appends:
  assumes "px_startHoldRight env x0 = (Inr (), x)"
  shows "length (px_frames (px_run env n x)) \<le> n
    \<and> px_frames (px_run env n x)
      = replicate (length (px_frames (px_run env n x))) holdRightFrame
    \<and> (\<exists>fs. px_frames (px_run env (n + k) x) = px_frames (px_run env n x) @ fs)"
proof -
  have start: "px_mode x = Mode_HoldRightSearch" "px_frames x = []"
    using assms by (auto simp: px_startHoldRight_def px_startCommon_def px_clear_def empty_plan_def
        split: prod.splits sum.splits)
  have mode: "px_mode (px_run env m x) = Mode_HoldRightSearch" for m
    by (induction m) (simp_all only: px_run_snoc px_tick_mode, simp_all add: start)
  have rec: "\<exists>fs. px_frames (px_run env (Suc m) x) = px_frames (px_run env m x) @ fs
      \<and> set fs \<subseteq> {holdRightFrame} \<and> length fs \<le> 1" for m
    using px_tick_records [OF mode [of m], of env] by (simp only: px_run_snoc)
  have "length (px_frames (px_run env n x)) \<le> n \<and> set (px_frames (px_run env n x)) \<subseteq> {holdRightFrame}"
  proof (induction n)
    case (Suc n)
    obtain fs where "px_frames (px_run env (Suc n) x) = px_frames (px_run env n x) @ fs"
      "set fs \<subseteq> {holdRightFrame}" "length fs \<le> 1"
      using rec [of n] by blast
    with Suc.IH show ?case by (simp del: px_run.simps)
  qed (simp add: start)
  moreover have "\<exists>fs. px_frames (px_run env (n + k) x) = px_frames (px_run env n x) @ fs"
  proof (induction k)
    case (Suc k)
    then obtain fs where fs: "px_frames (px_run env (n + k) x) = px_frames (px_run env n x) @ fs" by blast
    obtain gs where "px_frames (px_run env (Suc (n + k)) x) = px_frames (px_run env (n + k) x) @ gs"
      using rec [of "n + k"] by blast
    with fs show ?case by (simp del: px_run.simps)
  qed simp
  moreover have "xs = replicate (length xs) a" if "set xs \<subseteq> {a}" for xs and a :: player_control_frame
    using that by (induction xs) auto
  ultimately show ?thesis by blast
qed

theorem recording_appends_witness:
  "\<exists>x. px_startHoldRight demoEnv newExecution = (Inr (), x)
    \<and> length (px_frames (px_run demoEnv 3 x)) \<le> 3
    \<and> px_frames (px_run demoEnv 3 x) = replicate (length (px_frames (px_run demoEnv 3 x))) holdRightFrame"
proof -
  obtain x where x: "px_startHoldRight demoEnv newExecution = (Inr (), x)"
    by (simp add: px_startHoldRight_def px_startCommon_def demoEnv_def)
  from recording_appends [OF x, of 3 0] x show ?thesis by blast
qed

end
