(* ===== verification/SearchStates.thy ===== *)
theory SearchStates
  imports DfsProperties PlanExecution
begin

text \<open>
  The two server states that drive the search components: SearchActive (server/states/
  SearchActive.cpp) ticks a depth-first search, PlanPlayback (PlanPlayback.cpp) ticks a plan
  execution. A handler returns the messages it sends, in order, and where the state machine goes
  next. The plan repository (a database) is a parameter \<open>store\<close>, the clock is an argument.
\<close>

section \<open>Messages\<close>

datatype stop_reason = SR_Completed | SR_Stopped | SR_Error

record plan_summary =
  ps_id :: nat
  ps_bestFrontier :: u64
  ps_elapsedFrames :: u64

definition summaryOfPlan :: "search_plan \<Rightarrow> plan_summary" where
  "summaryOfPlan p =
     \<lparr>ps_id = pl_id p, ps_bestFrontier = pl_bestFrontier p, ps_elapsedFrames = pl_elapsedFrames p\<rparr>"

datatype message =
  Msg_CacheWorld world_data
| Msg_Render world_data "video_frame option"
| Msg_Progress search_progress
| Msg_PlanSaved plan_summary
| Msg_SearchCompleted stop_reason "plan_summary option" string
| Msg_PlaybackStopped nat stop_reason string
| Msg_Okay
| Msg_PausedIs bool
| Msg_ProgressIs search_progress

datatype 's next_state = Stay 's | GoIdle | GoShutdown

section \<open>SearchActive\<close>

text \<open>Times are nanoseconds of the steady clock; a default \<open>time_point\<close> is 0.\<close>

definition kProgressBroadcastInterval :: int where
  "kProgressBroadcastInterval = 100 * 1000000"

record 'd search_active =
  sa_search :: "'d dfs_search"
  sa_lastProgressTime :: int
  sa_renderBroadcasted :: bool

fun mapCompletionReason :: "completion_reason option \<Rightarrow> stop_reason" where
  "mapCompletionReason None = SR_Error"
| "mapCompletionReason (Some CR_Completed) = SR_Completed"
| "mapCompletionReason (Some CR_Stopped) = SR_Stopped"
| "mapCompletionReason (Some CR_Error) = SR_Error"

definition saEnter :: "int \<Rightarrow> 'd search_active \<Rightarrow> message list \<times> 'd search_active" where
  "saEnter now sa =
     (let s = sa_search sa; shown = hasRenderableFrame s
      in ([Msg_CacheWorld (worldData s)]
          @ (if shown then [Msg_Render (worldData s) (scenarioVideoFrame s)] else [])
          @ [Msg_Progress (progress s)],
          sa\<lparr>sa_renderBroadcasted := shown, sa_lastProgressTime := now\<rparr>))"

text \<open>The end of a search: store the plan if there is one, then announce the completion.\<close>

definition saFinish :: "(search_plan \<Rightarrow> unit result) \<Rightarrow> 'd dfs_search \<Rightarrow> message list" where
  "saFinish store s =
     (let reason = mapCompletionReason (completionReason s);
          msg = value_or (completionErrorMessage s) []
      in if hasPersistablePlan s then
           (case store (plan s) of
              Inl e \<Rightarrow> [Msg_SearchCompleted SR_Error None (''Failed to store plan: '' @ e)]
            | Inr _ \<Rightarrow> [Msg_PlanSaved (summaryOfPlan (plan s)),
                       Msg_SearchCompleted reason (Some (summaryOfPlan (plan s))) msg])
         else [Msg_SearchCompleted reason None msg])"

definition saTick ::
  "'d nes_env \<Rightarrow> (search_plan \<Rightarrow> unit result) \<Rightarrow> int \<Rightarrow> 'd search_active
   \<Rightarrow> (message list \<times> 'd search_active next_state) option" where
  "saTick env store now sa = do {
     (s, r) \<leftarrow> tick env (sa_search sa);
     let show = (hasRenderableFrame s \<and> (\<not> sa_renderBroadcasted sa \<or> tr_renderChanged r));
     let report = (tr_frameAdvanced r \<or> tr_renderChanged r
                   \<or> now - sa_lastProgressTime sa \<ge> kProgressBroadcastInterval \<or> tr_completed r);
     let msgs = (if show then [Msg_CacheWorld (worldData s), Msg_Render (worldData s) (scenarioVideoFrame s)]
                 else []) @ (if report then [Msg_Progress (progress s)] else []);
     let sa1 = \<lparr>sa_search = s,
                sa_lastProgressTime = (if report then now else sa_lastProgressTime sa),
                sa_renderBroadcasted = (sa_renderBroadcasted sa \<or> show)\<rparr>;
     Some (if tr_completed r then (msgs @ saFinish store s, GoIdle) else (msgs, Stay sa1))
   }"

definition saExit :: "message list \<times> 'd search_active next_state" where
  "saExit = ([Msg_Okay], GoShutdown)"

definition saPauseSet ::
  "bool \<Rightarrow> int \<Rightarrow> 'd search_active \<Rightarrow> message list \<times> 'd search_active next_state" where
  "saPauseSet b now sa =
     (let s = pauseSet b (sa_search sa)
      in ([Msg_PausedIs (paused s), Msg_Progress (progress s)],
          Stay (sa\<lparr>sa_search := s, sa_lastProgressTime := now\<rparr>)))"

definition saProgressGet :: "'d search_active \<Rightarrow> message list \<times> 'd search_active next_state" where
  "saProgressGet sa = ([Msg_ProgressIs (progress (sa_search sa))], Stay sa)"

definition saStop ::
  "'d search_active \<Rightarrow> (message list \<times> 'd search_active next_state) option" where
  "saStop sa = do {
     s \<leftarrow> stop (sa_search sa);
     Some ([Msg_Okay], Stay (sa\<lparr>sa_search := s\<rparr>))
   }"

section \<open>PlanPlayback\<close>

record 'd plan_playback =
  pb_planId :: nat
  pb_execution :: "'d plan_execution"
  pb_frameDelayMs :: u32
  pb_lastTickTime :: int
  pb_renderBroadcasted :: bool

definition shouldWaitForPlaybackDelay :: "u32 \<Rightarrow> int \<Rightarrow> int \<Rightarrow> bool" where
  "shouldWaitForPlaybackDelay delayMs lastTime now =
     (if delayMs = 0 \<or> lastTime = 0 then False else now - lastTime < uint delayMs * 1000000)"

definition pbEnter :: "'d plan_playback \<Rightarrow> message list \<times> 'd plan_playback" where
  "pbEnter pb =
     (let x = pb_execution pb; shown = px_hasRenderableFrame x
      in ([Msg_CacheWorld (px_worldData x)]
          @ (if shown then [Msg_Render (px_worldData x) (px_video x)] else []),
          pb\<lparr>pb_renderBroadcasted := shown, pb_lastTickTime := 0\<rparr>))"

definition pbTick ::
  "'d nes_env \<Rightarrow> int \<Rightarrow> 'd plan_playback \<Rightarrow> message list \<times> 'd plan_playback next_state" where
  "pbTick env now pb =
     (if \<not> px_completed (pb_execution pb)
         \<and> shouldWaitForPlaybackDelay (pb_frameDelayMs pb) (pb_lastTickTime pb) now
      then ([], Stay pb)
      else
        case px_tick env (pb_execution pb) of (x, r) \<Rightarrow>
        let show = (px_hasRenderableFrame x \<and> (\<not> pb_renderBroadcasted pb \<or> xr_frameAdvanced r));
            msgs = (if show then [Msg_CacheWorld (px_worldData x), Msg_Render (px_worldData x) (px_video x)]
                    else []);
            pb1 = pb\<lparr>pb_execution := x, pb_lastTickTime := now,
                     pb_renderBroadcasted := (pb_renderBroadcasted pb \<or> show)\<rparr>
        in case xr_error r of
             Some e \<Rightarrow> (msgs @ [Msg_PlaybackStopped (pb_planId pb) SR_Error e], GoIdle)
           | None \<Rightarrow>
               if xr_completed r
               then (msgs @ [Msg_PlaybackStopped (pb_planId pb) SR_Completed []], GoIdle)
               else (msgs, Stay pb1))"

definition pbExit :: "message list \<times> 'd plan_playback next_state" where
  "pbExit = ([Msg_Okay], GoShutdown)"

definition pbPauseSet :: "bool \<Rightarrow> 'd plan_playback \<Rightarrow> message list \<times> 'd plan_playback next_state" where
  "pbPauseSet b pb =
     (let x = px_pauseSet b (pb_execution pb)
      in ([Msg_PausedIs (px_paused x)], Stay (pb\<lparr>pb_execution := x\<rparr>)))"

definition pbStop :: "'d plan_playback \<Rightarrow> message list \<times> 'd plan_playback next_state" where
  "pbStop pb = ([Msg_PlaybackStopped (pb_planId pb) SR_Stopped [], Msg_Okay], GoIdle)"

section \<open>How a search ends\<close>

fun isCompletion :: "message \<Rightarrow> bool" where
  "isCompletion (Msg_SearchCompleted r s e) = True"
| "isCompletion _ = False"

text \<open>Ticking the state with the clock \<open>clock 0, clock 1, \<dots>\<close> until it leaves.\<close>

fun saRun ::
  "'d nes_env \<Rightarrow> (search_plan \<Rightarrow> unit result) \<Rightarrow> int list \<Rightarrow> 'd search_active
   \<Rightarrow> (message list \<times> 'd search_active next_state) option" where
  "saRun env store [] sa = Some ([], Stay sa)"
| "saRun env store (now # clock) sa =
     (case saTick env store now sa of
        None \<Rightarrow> None
      | Some (msgs, Stay sa1) \<Rightarrow>
          (case saRun env store clock sa1 of None \<Rightarrow> None | Some (ms, nx) \<Rightarrow> Some (msgs @ ms, nx))
      | Some (msgs, nx) \<Rightarrow> Some (msgs, nx))"

lemma saFinish_end:
  "\<exists>init r sm e. saFinish store s = init @ [Msg_SearchCompleted r sm e] \<and> filter isCompletion init = []"
proof -
  have "\<exists>init r sm e. [Msg_SearchCompleted a b c] = init @ [Msg_SearchCompleted r sm e] \<and> filter isCompletion init = []"
    for a b c by (rule exI [of _ "[]"]) simp
  moreover have "\<exists>init r sm e. [Msg_PlanSaved p, Msg_SearchCompleted a b c]
      = init @ [Msg_SearchCompleted r sm e] \<and> filter isCompletion init = []" for p a b c
    by (rule exI [of _ "[Msg_PlanSaved p]"]) simp
  ultimately show ?thesis by (simp add: saFinish_def Let_def split: sum.split)
qed

lemma saTick_cases:
  assumes "tick env (sa_search sa) = Some (s, r)"
  shows "\<exists>msgs sa1. filter isCompletion msgs = [] \<and> sa_search sa1 = s
    \<and> saTick env store now sa = Some (if tr_completed r then (msgs @ saFinish store s, GoIdle) else (msgs, Stay sa1))"
  using assms
  by (auto simp: saTick_def Let_def intro: exI [where x = "sa\<lparr>sa_search := s\<rparr>"])

lemma saRun_ends:
  assumes "search_inv (sa_search sa)" and "runTicks env (length clock) (sa_search sa) = Some t"
    and "completed t" and "clock \<noteq> []"
  shows "\<exists>init r sm e. saRun env store clock sa = Some (init @ [Msg_SearchCompleted r sm e], GoIdle)
    \<and> filter isCompletion init = []"
  using assms
proof (induction clock arbitrary: sa)
  case (Cons now clock)
  obtain s r where s: "tick env (sa_search sa) = Some (s, r)" "search_inv s" "tr_completed r = completed s"
    using tick_search_inv [OF Cons.prems(1)] by blast
  from saTick_cases [OF s(1)] obtain msgs sa1 where m: "filter isCompletion msgs = []" "sa_search sa1 = s"
    "saTick env store now sa = Some (if tr_completed r then (msgs @ saFinish store s, GoIdle) else (msgs, Stay sa1))"
    by blast
  show ?case
  proof (cases "completed s")
    case True
    obtain init a b c where "saFinish store s = init @ [Msg_SearchCompleted a b c]"
      "filter isCompletion init = []" using saFinish_end by blast
    with m True s(3) show ?thesis by (intro exI [of _ "msgs @ init"]) simp
  next
    case False
    from Cons.prems(2,3) s(1) False have t: "runTicks env (length clock) s = Some t" "clock \<noteq> []" by auto
    from Cons.IH [of sa1] t Cons.prems(3) s(2) m(2) obtain init a b c where
      "saRun env store clock sa1 = Some (init @ [Msg_SearchCompleted a b c], GoIdle)"
      "filter isCompletion init = []" by auto
    with m False s(3) show ?thesis by (intro exI [of _ "msgs @ init"]) simp
  qed
qed simp



section \<open>The pace of a playback\<close>

definition pbWaits :: "int \<Rightarrow> 'd plan_playback \<Rightarrow> bool" where
  "pbWaits now pb =
     (\<not> px_completed (pb_execution pb)
      \<and> shouldWaitForPlaybackDelay (pb_frameDelayMs pb) (pb_lastTickTime pb) now)"

text \<open>How many ticks of the execution a run of the state makes before it leaves.\<close>

fun pbSteps :: "'d nes_env \<Rightarrow> int list \<Rightarrow> 'd plan_playback \<Rightarrow> nat" where
  "pbSteps env [] pb = 0"
| "pbSteps env (now # clock) pb =
     (case pbTick env now pb of
        (msgs, Stay pb1) \<Rightarrow> (if pbWaits now pb then 0 else 1) + pbSteps env clock pb1
      | (msgs, nx) \<Rightarrow> 1)"

lemma pbTick_stay:
  assumes "pbTick env now pb = (msgs, Stay pb1)" and "\<not> pbWaits now pb"
  shows "\<not> px_completed (pb_execution pb1) \<and> pb_lastTickTime pb1 = now
    \<and> pb_frameDelayMs pb1 = pb_frameDelayMs pb"
proof -
  have "px_completed (fst (px_tick env (pb_execution pb))) = xr_completed (snd (px_tick env (pb_execution pb)))"
    by (simp add: px_tick_answer)
  with assms show ?thesis
    by (auto simp: pbTick_def pbWaits_def Let_def split_beta split: option.splits if_splits)
qed

lemma pbTick_waits: "pbWaits now pb \<Longrightarrow> pbTick env now pb = ([], Stay pb)"
  by (simp add: pbTick_def pbWaits_def)

lemma pbSteps_paced:
  assumes "\<not> px_completed (pb_execution pb)" and "pb_frameDelayMs pb \<noteq> 0"
    and "0 < pb_lastTickTime pb" and "pb_lastTickTime pb \<le> T" and "\<And>t. t \<in> set clock \<Longrightarrow> 0 < t \<and> t \<le> T"
  shows "int (pbSteps env clock pb) * (uint (pb_frameDelayMs pb) * 1000000) \<le> T - pb_lastTickTime pb"
  using assms
proof (induction clock arbitrary: pb)
  case (Cons now clock)
  let ?d = "uint (pb_frameDelayMs pb) * 1000000"
  show ?case
  proof (cases "pbWaits now pb")
    case True
    with Cons show ?thesis by (simp add: pbTick_waits)
  next
    case False
    with Cons.prems(1-3) have gap: "?d \<le> now - pb_lastTickTime pb"
      by (simp add: pbWaits_def shouldWaitForPlaybackDelay_def)
    obtain msgs nx where t: "pbTick env now pb = (msgs, nx)" by (cases "pbTick env now pb")
    show ?thesis
    proof (cases nx)
      case (Stay pb1)
      note st = pbTick_stay [OF t [unfolded Stay] False]
      have now: "0 < now" "now \<le> T" using Cons.prems(5) [of now] by auto
      have "int (pbSteps env clock pb1) * (uint (pb_frameDelayMs pb1) * 1000000) \<le> T - pb_lastTickTime pb1"
        using Cons.prems(2,5) st now by (intro Cons.IH) auto
      with t Stay False st gap show ?thesis by (simp add: algebra_simps)
    next
      case GoIdle
      with t gap Cons.prems(5) [of now] show ?thesis by simp
    next
      case GoShutdown
      with t gap Cons.prems(5) [of now] show ?thesis by simp
    qed
  qed
qed simp

text \<open>A playback with a frame delay is paced: between the first tick of its execution, at time \<open>t0\<close>,
  and any later time \<open>T\<close>, it makes at most \<open>(T - t0) / delay\<close> further ticks, however often the
  server calls it.\<close>

theorem playback_paced:
  assumes "pbTick env t0 pb = (msgs, Stay pb1)" and "\<not> pbWaits t0 pb"
    and "pb_frameDelayMs pb \<noteq> 0" and "0 < t0" and "\<And>t. t \<in> set clock \<Longrightarrow> t0 \<le> t \<and> t \<le> T" and "t0 \<le> T"
  shows "int (pbSteps env clock pb1) * (uint (pb_frameDelayMs pb) * 1000000) \<le> T - t0"
proof -
  note st = pbTick_stay [OF assms(1,2)]
  have "0 < t \<and> t \<le> T" if "t \<in> set clock" for t using assms(4,5) that by force
  then show ?thesis using pbSteps_paced [of pb1 T clock env] st assms(3,4,6) by simp
qed

definition demoPlayback :: "nat plan_playback" where
  "demoPlayback =
     \<lparr>pb_planId = 1, pb_execution = snd (px_startPlayback demoEnv demoPlan newExecution),
      pb_frameDelayMs = 20, pb_lastTickTime = 0, pb_renderBroadcasted = False\<rparr>"

lemma demo_playback_x:
  "px_completed (pb_execution demoPlayback) = False" "px_paused (pb_execution demoPlayback) = False"
  by (simp_all add: demoPlayback_def px_startPlayback_def px_startCommon_def demoEnv_def px_clear_def)

theorem playback_paced_witness:
  "\<exists>msgs pb1. pbTick demoEnv 5 (demoPlayback\<lparr>pb_execution := px_pauseSet True (pb_execution demoPlayback)\<rparr>)
      = (msgs, Stay pb1)
    \<and> int (pbSteps demoEnv [5, 6, 40000000] pb1) * 20000000 \<le> 49999995"
proof -
  let ?pb = "demoPlayback\<lparr>pb_execution := px_pauseSet True (pb_execution demoPlayback)\<rparr>"
  have w: "\<not> pbWaits 5 ?pb"
    by (simp add: pbWaits_def shouldWaitForPlaybackDelay_def demoPlayback_def)
  have "px_tick demoEnv (pb_execution ?pb) = (pb_execution ?pb, idle_exec)"
    by (simp add: px_tick_def px_pauseSet_def demo_playback_x)
  then obtain msgs pb1 where t: "pbTick demoEnv 5 ?pb = (msgs, Stay pb1)"
    using w by (auto simp: pbTick_def pbWaits_def Let_def idle_exec_def)
  have d: "pb_frameDelayMs ?pb = 20" by (simp add: demoPlayback_def)
  have "int (pbSteps demoEnv [5, 6, 40000000] pb1) * (uint (pb_frameDelayMs ?pb) * 1000000) \<le> 50000000 - 5"
    by (rule playback_paced [OF t w]) (auto simp: d)
  with t show ?thesis by (auto simp: d)
qed

end
