(* ===== verification/Cells.thy ===== *)
theory Cells
  imports Prelude
begin

text \<open>
  The cell of the world grid: \<open>Cell.{h,cpp}\<close>, with the parts of \<open>Vector2.h\<close> and
  \<open>MaterialType.{h,cpp}\<close> it uses. Floats are reals; logging is left out. The lemmas show that every
  operation keeps the fill ratio in [0, 1] and the centre of mass in [-1, 1], and what a transfer
  conserves.
\<close>

section \<open>Vectors\<close>

record vec2 =
  vx :: real
  vy :: real

definition zero_vec :: vec2 where
  "zero_vec = \<lparr>vx = 0, vy = 0\<rparr>"

definition vec_add :: "vec2 \<Rightarrow> vec2 \<Rightarrow> vec2" where
  "vec_add a b = \<lparr>vx = vx a + vx b, vy = vy a + vy b\<rparr>"

definition vec_times :: "vec2 \<Rightarrow> real \<Rightarrow> vec2" where
  "vec_times a s = \<lparr>vx = vx a * s, vy = vy a * s\<rparr>"

text \<open>Division throws on a zero scalar.\<close>

definition vec_div :: "vec2 \<Rightarrow> real \<Rightarrow> vec2 option" where
  "vec_div a s = (if s = 0 then None else Some \<lparr>vx = vx a / s, vy = vy a / s\<rparr>)"

definition vec_mag :: "vec2 \<Rightarrow> real" where
  "vec_mag a = sqrt (vx a * vx a + vy a * vy a)"

section \<open>Materials\<close>

datatype material =
  Mat_Air | Mat_Dirt | Mat_Leaf | Mat_Metal | Mat_Root | Mat_Sand | Mat_Seed | Mat_Wall
| Mat_Water | Mat_Wood

fun material_value :: "material \<Rightarrow> nat" where
  "material_value Mat_Air = 0"
| "material_value Mat_Dirt = 1"
| "material_value Mat_Leaf = 2"
| "material_value Mat_Metal = 3"
| "material_value Mat_Root = 4"
| "material_value Mat_Sand = 5"
| "material_value Mat_Seed = 6"
| "material_value Mat_Wall = 7"
| "material_value Mat_Water = 8"
| "material_value Mat_Wood = 9"

lemma material_value_less: "material_value m < 10"
  by (cases m) simp_all

lemma material_value_inject: "material_value a = material_value b \<longleftrightarrow> a = b"
  by (cases a; cases b) simp_all

record material_properties =
  mp_density :: real
  mp_elasticity :: real
  mp_cohesion :: real
  mp_adhesion :: real
  mp_air_resistance :: real
  mp_hydrostatic_weight :: real
  mp_pressure_injection_weight :: real
  mp_dynamic_weight :: real
  mp_pressure_diffusion :: real
  mp_viscosity :: real
  mp_static_friction_coefficient :: real
  mp_kinetic_friction_coefficient :: real
  mp_stick_velocity :: real
  mp_friction_transition_width :: real
  mp_is_fluid :: bool

text \<open>\<open>MATERIAL_PROPERTIES\<close>, without the light properties.\<close>

definition materialProperties :: "material_properties list" where
  "materialProperties =
     [\<lparr>mp_density = 1 / 1000, mp_elasticity = 1, mp_cohesion = 0, mp_adhesion = 0,
         mp_air_resistance = 0, mp_hydrostatic_weight = 1, mp_pressure_injection_weight = 1,
         mp_dynamic_weight = 0, mp_pressure_diffusion = 1, mp_viscosity = 1 / 1000,
         mp_static_friction_coefficient = 1, mp_kinetic_friction_coefficient = 1,
         mp_stick_velocity = 0, mp_friction_transition_width = 1 / 100, mp_is_fluid = True\<rparr>,
      \<lparr>mp_density = 3 / 2, mp_elasticity = 1 / 5, mp_cohesion = 1 / 5, mp_adhesion = 3 / 10,
         mp_air_resistance = 1 / 20, mp_hydrostatic_weight = 1 / 4,
         mp_pressure_injection_weight = 1, mp_dynamic_weight = 1,
         mp_pressure_diffusion = 3 / 10, mp_viscosity = 1 / 5,
         mp_static_friction_coefficient = 3 / 2, mp_kinetic_friction_coefficient = 3 / 4,
         mp_stick_velocity = 1 / 10, mp_friction_transition_width = 1 / 10,
         mp_is_fluid = False\<rparr>,
      \<lparr>mp_density = 3 / 10, mp_elasticity = 2 / 5, mp_cohesion = 7 / 10,
         mp_adhesion = 3 / 10, mp_air_resistance = 4 / 5, mp_hydrostatic_weight = 1,
         mp_pressure_injection_weight = 1, mp_dynamic_weight = 3 / 5,
         mp_pressure_diffusion = 3 / 5, mp_viscosity = 1 / 5,
         mp_static_friction_coefficient = 1 / 2, mp_kinetic_friction_coefficient = 3 / 10,
         mp_stick_velocity = 3 / 100, mp_friction_transition_width = 3 / 50,
         mp_is_fluid = False\<rparr>,
      \<lparr>mp_density = 39 / 5, mp_elasticity = 4 / 5, mp_cohesion = 1, mp_adhesion = 1 / 10,
         mp_air_resistance = 1 / 10, mp_hydrostatic_weight = 0,
         mp_pressure_injection_weight = 1, mp_dynamic_weight = 1 / 2,
         mp_pressure_diffusion = 1 / 10, mp_viscosity = 1,
         mp_static_friction_coefficient = 3 / 2, mp_kinetic_friction_coefficient = 1,
         mp_stick_velocity = 1 / 100, mp_friction_transition_width = 1 / 50,
         mp_is_fluid = False\<rparr>,
      \<lparr>mp_density = 6 / 5, mp_elasticity = 3 / 10, mp_cohesion = 4 / 5, mp_adhesion = 3 / 5,
         mp_air_resistance = 3 / 10, mp_hydrostatic_weight = 1,
         mp_pressure_injection_weight = 1, mp_dynamic_weight = 7 / 10,
         mp_pressure_diffusion = 2 / 5, mp_viscosity = 7 / 10,
         mp_static_friction_coefficient = 6 / 5, mp_kinetic_friction_coefficient = 4 / 5,
         mp_stick_velocity = 3 / 100, mp_friction_transition_width = 1 / 20,
         mp_is_fluid = False\<rparr>,
      \<lparr>mp_density = 9 / 5, mp_elasticity = 1 / 5, mp_cohesion = 1 / 5, mp_adhesion = 1 / 10,
         mp_air_resistance = 1 / 5, mp_hydrostatic_weight = 1,
         mp_pressure_injection_weight = 1, mp_dynamic_weight = 1,
         mp_pressure_diffusion = 3 / 10, mp_viscosity = 3 / 10,
         mp_static_friction_coefficient = 3 / 5, mp_kinetic_friction_coefficient = 2 / 5,
         mp_stick_velocity = 1 / 25, mp_friction_transition_width = 2 / 25,
         mp_is_fluid = False\<rparr>,
      \<lparr>mp_density = 3 / 2, mp_elasticity = 1 / 5, mp_cohesion = 9 / 10, mp_adhesion = 3 / 10,
         mp_air_resistance = 1 / 5, mp_hydrostatic_weight = 0,
         mp_pressure_injection_weight = 1, mp_dynamic_weight = 1 / 2,
         mp_pressure_diffusion = 1 / 10, mp_viscosity = 4 / 5,
         mp_static_friction_coefficient = 13 / 10, mp_kinetic_friction_coefficient = 9 / 10,
         mp_stick_velocity = 1 / 50, mp_friction_transition_width = 3 / 100,
         mp_is_fluid = False\<rparr>,
      \<lparr>mp_density = 1000, mp_elasticity = 9 / 10, mp_cohesion = 1, mp_adhesion = 1 / 2,
         mp_air_resistance = 0, mp_hydrostatic_weight = 0, mp_pressure_injection_weight = 0,
         mp_dynamic_weight = 0, mp_pressure_diffusion = 0, mp_viscosity = 1,
         mp_static_friction_coefficient = 1, mp_kinetic_friction_coefficient = 1,
         mp_stick_velocity = 0, mp_friction_transition_width = 1 / 100, mp_is_fluid = False\<rparr>,
      \<lparr>mp_density = 1, mp_elasticity = 1 / 10, mp_cohesion = 1 / 10, mp_adhesion = 3 / 10,
         mp_air_resistance = 1 / 100, mp_hydrostatic_weight = 1,
         mp_pressure_injection_weight = 1, mp_dynamic_weight = 4 / 5,
         mp_pressure_diffusion = 9 / 10, mp_viscosity = 1 / 10,
         mp_static_friction_coefficient = 0, mp_kinetic_friction_coefficient = 1 / 100,
         mp_stick_velocity = 0, mp_friction_transition_width = 1 / 1000, mp_is_fluid = True\<rparr>,
      \<lparr>mp_density = 3 / 10, mp_elasticity = 3 / 5, mp_cohesion = 7 / 10,
         mp_adhesion = 3 / 10, mp_air_resistance = 1 / 20, mp_hydrostatic_weight = 0,
         mp_pressure_injection_weight = 1, mp_dynamic_weight = 1 / 2,
         mp_pressure_diffusion = 3 / 20, mp_viscosity = 1,
         mp_static_friction_coefficient = 13 / 10, mp_kinetic_friction_coefficient = 9 / 10,
         mp_stick_velocity = 1 / 50, mp_friction_transition_width = 3 / 100,
         mp_is_fluid = False\<rparr>]"

definition getProperties :: "material \<Rightarrow> material_properties" where
  "getProperties m = materialProperties ! material_value m"

definition getDensity :: "material \<Rightarrow> real" where
  "getDensity m = mp_density (getProperties m)"

definition isFluid :: "material \<Rightarrow> bool" where
  "isFluid m = mp_is_fluid (getProperties m)"

definition getFrictionCoefficient :: "real \<Rightarrow> material_properties \<Rightarrow> real" where
  "getFrictionCoefficient v p =
     (if v < mp_stick_velocity p then mp_static_friction_coefficient p
      else
        let t = (v - mp_stick_velocity p) / mp_friction_transition_width p;
            t1 = (if t < 0 then 0 else t);
            t2 = (if t1 > 1 then 1 else t1);
            smooth = t2 * t2 * (3 - 2 * t2)
        in mp_static_friction_coefficient p * (1 - smooth)
           + mp_kinetic_friction_coefficient p * smooth)"

section \<open>Cells\<close>

record cell =
  material_type :: material
  fill_ratio :: real
  com :: vec2
  velocity :: vec2
  pressure :: real
  static_load :: real
  pressure_gradient :: vec2
  pending_force :: vec2
  render_as :: i8
  cell_color :: u32

definition new_cell :: cell where
  "new_cell =
     \<lparr>material_type = Mat_Air, fill_ratio = 0, com = zero_vec, velocity = zero_vec, pressure = 0,
      static_load = 0, pressure_gradient = zero_vec, pending_force = zero_vec, render_as = - 1,
      cell_color = 0x000000FF\<rparr>"

definition MIN_FILL :: real where "MIN_FILL = 1 / 1000"
definition MAX_FILL :: real where "MAX_FILL = 999 / 1000"
definition MIN_MATTER :: real where "MIN_MATTER = 1 / 1000"

definition cell_isEmpty :: "cell \<Rightarrow> bool" where
  "cell_isEmpty c = (fill_ratio c < MIN_FILL)"

definition cell_isFull :: "cell \<Rightarrow> bool" where
  "cell_isFull c = (fill_ratio c > MAX_FILL)"

definition cell_isAir :: "cell \<Rightarrow> bool" where
  "cell_isAir c = (material_type c = Mat_Air)"

definition cell_isWall :: "cell \<Rightarrow> bool" where
  "cell_isWall c = (material_type c = Mat_Wall)"

definition getCapacity :: "cell \<Rightarrow> real" where
  "getCapacity c = 1 - fill_ratio c"

definition getMass :: "cell \<Rightarrow> real" where
  "getMass c = (if cell_isEmpty c then 0 else fill_ratio c * getDensity (material_type c))"

definition getEffectiveDensity :: "cell \<Rightarrow> real" where
  "getEffectiveDensity c = fill_ratio c * getDensity (material_type c)"

definition clearCell :: "cell \<Rightarrow> cell" where
  "clearCell c = new_cell"

definition setFillRatio :: "real \<Rightarrow> cell \<Rightarrow> cell" where
  "setFillRatio ratio c =
     (let c1 = c\<lparr>fill_ratio := clamp ratio 0 1\<rparr>
      in if fill_ratio c1 < MIN_FILL
         then c1\<lparr>material_type := Mat_Air, fill_ratio := 0, velocity := zero_vec, com := zero_vec,
                 pressure := 0, static_load := 0, pressure_gradient := zero_vec\<rparr>
         else c1)"

definition setCOM :: "vec2 \<Rightarrow> cell \<Rightarrow> cell" where
  "setCOM v c = c\<lparr>com := \<lparr>vx = clamp (vx v) (- 1) 1, vy = clamp (vy v) (- 1) 1\<rparr>\<rparr>"

definition clampCOM :: "cell \<Rightarrow> cell" where
  "clampCOM c = c\<lparr>com := \<lparr>vx = clamp (vx (com c)) (- 1) 1, vy = clamp (vy (com c)) (- 1) 1\<rparr>\<rparr>"

definition replaceMaterial :: "material \<Rightarrow> real \<Rightarrow> cell \<Rightarrow> cell" where
  "replaceMaterial m ratio c = setFillRatio ratio (new_cell\<lparr>material_type := m\<rparr>)"

definition addMaterial :: "material \<Rightarrow> real \<Rightarrow> cell \<Rightarrow> cell \<times> real" where
  "addMaterial m amount c =
     (if amount \<le> 0 then (c, 0)
      else if cell_isEmpty c
      then let added = min amount 1 in (c\<lparr>material_type := m, fill_ratio := added\<rparr>, added)
      else if material_type c \<noteq> m then (c, 0)
      else let added = min amount (getCapacity c)
           in (c\<lparr>fill_ratio := fill_ratio c + added\<rparr>, added))"

definition removeMaterial :: "real \<Rightarrow> cell \<Rightarrow> cell \<times> real" where
  "removeMaterial amount c =
     (if cell_isEmpty c \<or> amount \<le> 0 then (c, 0)
      else let removed = min amount (fill_ratio c);
               c1 = c\<lparr>fill_ratio := fill_ratio c - removed\<rparr>
           in (if fill_ratio c1 < MIN_FILL then clearCell c1 else c1, removed))"

text \<open>\<open>transferTo\<close> is called on two different cells; it returns both.\<close>

definition transferTo :: "real \<Rightarrow> cell \<Rightarrow> cell \<Rightarrow> cell \<times> cell \<times> real" where
  "transferTo amount c target =
     (if cell_isEmpty c \<or> amount \<le> 0 then (c, target, 0)
      else let available = min amount (fill_ratio c)
           in case addMaterial (material_type c) available target of (target1, accepted) \<Rightarrow>
              (if accepted > 0 then fst (removeMaterial accepted c) else c, target1, accepted))"

text \<open>
  Where material that crosses a boundary appears in the neighbour. The quotients are computed
  before the test that guards their use; a zero velocity makes them unused infinities.
\<close>

definition calculateTrajectoryLanding :: "vec2 \<Rightarrow> vec2 \<Rightarrow> vec2 \<Rightarrow> vec2" where
  "calculateTrajectoryLanding source_com vel normal =
     (let crossing =
            (if \<bar>vx normal\<bar> > 1 / 2
             then let bx = (if vx normal > 0 then 1 else - 1);
                      ratio = (bx - vx source_com) / vx vel
                  in if \<bar>vx vel\<bar> > 1 / 1000000
                     then \<lparr>vx = bx, vy = vy source_com + vy vel * ratio\<rparr> else source_com
             else if \<bar>vy normal\<bar> > 1 / 2
             then let b = (if vy normal > 0 then 1 else - 1);
                      ratio = (b - vy source_com) / vy vel
                  in if \<bar>vy vel\<bar> > 1 / 1000000
                     then \<lparr>vx = vx source_com + vx vel * ratio, vy = b\<rparr> else source_com
             else source_com);
          x = (if \<bar>vx normal\<bar> > 1 / 2
               then (if vx normal > 0 then - (99 / 100) else 99 / 100) else vx crossing);
          y = (if \<bar>vy normal\<bar> > 1 / 2
               then (if vy normal > 0 then - (99 / 100) else 99 / 100) else vy crossing)
      in \<lparr>vx = clamp x (- 1) 1, vy = clamp y (- 1) 1\<rparr>)"

text \<open>\<open>(a * m + b * n) / tot\<close>, the weighted average of two vectors.\<close>

definition weighted :: "vec2 \<Rightarrow> real \<Rightarrow> vec2 \<Rightarrow> real \<Rightarrow> real \<Rightarrow> vec2 option" where
  "weighted a m b n tot = vec_div (vec_add (vec_times a m) (vec_times b n)) tot"

definition addMaterialWithPhysics ::
  "material \<Rightarrow> real \<Rightarrow> vec2 \<Rightarrow> vec2 \<Rightarrow> vec2 \<Rightarrow> cell \<Rightarrow> (cell \<times> real) option" where
  "addMaterialWithPhysics m amount source_com newVel normal c =
     (if amount \<le> 0 then Some (c, 0)
      else if cell_isEmpty c
      then let added = min amount 1
           in Some (c\<lparr>material_type := m, fill_ratio := added,
                      com := calculateTrajectoryLanding source_com newVel normal,
                      velocity := newVel\<rparr>, added)
      else if material_type c \<noteq> m then Some (c, 0)
      else let added = min amount (getCapacity c)
           in if added > 0
              then let existing = getMass c;
                       added_mass = added * getDensity (material_type c);
                       tot = existing + added_mass;
                       incoming = calculateTrajectoryLanding source_com newVel normal
                   in do {
                     c1 \<leftarrow> (if tot > MIN_MATTER
                            then do {
                              com1 \<leftarrow> weighted (com c) existing incoming added_mass tot;
                              vel1 \<leftarrow> weighted (velocity c) existing newVel added_mass tot;
                              Some (c\<lparr>com := com1, velocity := vel1\<rparr>)
                            }
                            else Some c);
                     Some (c1\<lparr>fill_ratio := fill_ratio c1 + added\<rparr>, added)
                   }
              else Some (c, added))"

definition transferToWithPhysics ::
  "real \<Rightarrow> vec2 \<Rightarrow> cell \<Rightarrow> cell \<Rightarrow> (cell \<times> cell \<times> real) option" where
  "transferToWithPhysics amount normal c target =
     (if cell_isEmpty c \<or> amount \<le> 0 then Some (c, target, 0)
      else do {
        (target1, accepted) \<leftarrow> addMaterialWithPhysics (material_type c)
           (min amount (fill_ratio c)) (com c) (velocity c) normal target;
        Some (if accepted > 0 then fst (removeMaterial accepted c) else c, target1, accepted)
      })"

definition shouldTransfer :: "cell \<Rightarrow> bool" where
  "shouldTransfer c =
     (if cell_isEmpty c \<or> cell_isWall c then False
      else \<bar>vx (com c)\<bar> \<ge> 1 \<or> \<bar>vy (com c)\<bar> \<ge> 1)"

definition axisDirection :: "real \<Rightarrow> real" where
  "axisDirection v = (if v \<ge> 1 then 1 else if v \<le> - 1 then - 1 else 0)"

definition getTransferDirection :: "cell \<Rightarrow> vec2" where
  "getTransferDirection c = \<lparr>vx = axisDirection (vx (com c)), vy = axisDirection (vy (com c))\<rparr>"

definition addDirt :: "real \<Rightarrow> cell \<Rightarrow> cell" where
  "addDirt amount c = (if amount \<le> 0 then c else fst (addMaterial Mat_Dirt amount c))"

definition addDirtWithVelocity :: "real \<Rightarrow> vec2 \<Rightarrow> cell \<Rightarrow> cell option" where
  "addDirtWithVelocity amount newVel c =
     (if amount \<le> 0 then Some c
      else case addMaterial Mat_Dirt amount c of (c1, added) \<Rightarrow>
        if added > 0
        then if fill_ratio c1 > 0
             then do { v \<leftarrow> weighted (velocity c1) (fill_ratio c) newVel added (fill_ratio c1);
                       Some (c1\<lparr>velocity := v\<rparr>) }
             else Some (c1\<lparr>velocity := newVel\<rparr>)
        else Some c1)"

definition addDirtWithCOM :: "real \<Rightarrow> vec2 \<Rightarrow> vec2 \<Rightarrow> cell \<Rightarrow> cell option" where
  "addDirtWithCOM amount newCom newVel c =
     (if amount \<le> 0 then Some c
      else case addMaterial Mat_Dirt amount c of (c1, added) \<Rightarrow>
        if added > 0
        then if fill_ratio c1 > 0
             then do { p \<leftarrow> weighted (com c) (fill_ratio c) newCom added (fill_ratio c1);
                       v \<leftarrow> weighted (velocity c) (fill_ratio c) newVel added (fill_ratio c1);
                       Some ((clampCOM (c1\<lparr>com := p\<rparr>))\<lparr>velocity := v\<rparr>) }
             else Some (c1\<lparr>com := newCom, velocity := newVel\<rparr>)
        else Some c1)"

definition addPendingForce :: "vec2 \<Rightarrow> cell \<Rightarrow> cell" where
  "addPendingForce f c = c\<lparr>pending_force := vec_add (pending_force c) f\<rparr>"

definition clearPendingForce :: "cell \<Rightarrow> cell" where
  "clearPendingForce c = c\<lparr>pending_force := zero_vec\<rparr>"

definition clearPressure :: "cell \<Rightarrow> cell" where
  "clearPressure c = c\<lparr>pressure := 0\<rparr>"

fun material_char :: "material \<Rightarrow> char option" where
  "material_char Mat_Air = None"
| "material_char Mat_Dirt = Some CHR ''#''"
| "material_char Mat_Water = Some CHR ''~''"
| "material_char Mat_Wood = Some CHR ''W''"
| "material_char Mat_Sand = Some CHR ''.''"
| "material_char Mat_Metal = Some CHR ''M''"
| "material_char Mat_Leaf = Some CHR ''L''"
| "material_char Mat_Wall = Some CHR ''|''"
| "material_char Mat_Root = Some CHR ''R''"
| "material_char Mat_Seed = Some CHR ''S''"

definition toAsciiCharacter :: "cell \<Rightarrow> string" where
  "toAsciiCharacter c =
     (if cell_isEmpty c then ''  ''
      else case material_char (material_type c) of
             None \<Rightarrow> ''  ''
           | Some ch \<Rightarrow> [ch] @ to_string (clamp (lround (fill_ratio c * 9)) 0 9))"


section \<open>The invariant of a cell\<close>

definition unit_vec :: "vec2 \<Rightarrow> bool" where
  "unit_vec v = (\<bar>vx v\<bar> \<le> 1 \<and> \<bar>vy v\<bar> \<le> 1)"

definition cell_ok :: "cell \<Rightarrow> bool" where
  "cell_ok c = (0 \<le> fill_ratio c \<and> fill_ratio c \<le> 1 \<and> unit_vec (com c))"

lemmas cell_consts = MIN_FILL_def MAX_FILL_def MIN_MATTER_def

lemma new_cell_ok [simp]: "cell_ok new_cell"
  by (simp add: cell_ok_def new_cell_def unit_vec_def zero_vec_def)

lemma unit_vec_clamp [simp]: "unit_vec \<lparr>vx = clamp a (- 1) 1, vy = clamp b (- 1) 1\<rparr>"
  by (auto simp: unit_vec_def clamp_def)

lemma landing_unit [simp]: "unit_vec (calculateTrajectoryLanding s v n)"
  unfolding calculateTrajectoryLanding_def Let_def by (rule unit_vec_clamp)

lemma density_pos: "0 < getDensity m"
  by (cases m) (simp_all add: getDensity_def getProperties_def materialProperties_def)

text \<open>A weighted average of points of the unit square stays in it.\<close>

lemma weighted_bounds:
  assumes "\<bar>a\<bar> \<le> (1 :: real)" "\<bar>b\<bar> \<le> 1" "0 \<le> m" "0 \<le> n" "0 < m + n"
  shows "\<bar>(a * m + b * n) / (m + n)\<bar> \<le> 1"
proof -
  have "a * m \<le> 1 * m" "- 1 * m \<le> a * m" "b * n \<le> 1 * n" "- 1 * n \<le> b * n"
    using mult_right_mono [of a 1 m] mult_right_mono [of "- 1" a m]
      mult_right_mono [of b 1 n] mult_right_mono [of "- 1" b n] assms by (simp_all add: abs_le_iff)
  then have "\<bar>a * m + b * n\<bar> \<le> m + n" by (simp add: abs_le_iff)
  then show ?thesis using assms(5) by (simp add: abs_divide)
qed

lemma weighted_some:
  assumes "tot \<noteq> 0"
  shows "weighted a m b n tot = Some \<lparr>vx = (vx a * m + vx b * n) / tot, vy = (vy a * m + vy b * n) / tot\<rparr>"
  using assms by (simp add: weighted_def vec_div_def vec_add_def vec_times_def)

lemma weighted_unit:
  assumes "unit_vec a" "unit_vec b" "0 \<le> m" "0 \<le> n" "0 < m + n"
  shows "unit_vec \<lparr>vx = (vx a * m + vx b * n) / (m + n), vy = (vy a * m + vy b * n) / (m + n)\<rparr>"
  using assms weighted_bounds by (simp add: unit_vec_def)

lemma mass_nonneg: "cell_ok c \<Longrightarrow> 0 \<le> getMass c"
  using density_pos by (simp add: getMass_def cell_ok_def less_imp_le)

lemma addMaterial_ok:
  assumes "cell_ok c"
  shows "cell_ok (fst (addMaterial m amount c))" "0 \<le> snd (addMaterial m amount c)"
    "snd (addMaterial m amount c) \<le> max 0 amount"
  using assms by (auto simp: addMaterial_def cell_ok_def Let_def getCapacity_def min_def max_def)

lemma removeMaterial_ok:
  assumes "cell_ok c"
  shows "cell_ok (fst (removeMaterial amount c))"
  using assms
  by (auto simp: removeMaterial_def Let_def clearCell_def min_def)
    (auto simp: cell_ok_def)

lemma setFillRatio_ok:
  assumes "cell_ok c" shows "cell_ok (setFillRatio ratio c)"
  using assms
  by (auto simp: setFillRatio_def cell_ok_def Let_def clamp_def zero_vec_def unit_vec_def)

text \<open>The physics variant: it returns, and what it returns.\<close>

lemma addMaterialWithPhysics_ok:
  assumes "cell_ok c"
  obtains c' where "addMaterialWithPhysics m amount s v n c = Some (c', snd (addMaterial m amount c))"
    and "cell_ok c'" and "fill_ratio c' = fill_ratio (fst (addMaterial m amount c))"
    and "material_type c' = material_type (fst (addMaterial m amount c))"
proof -
  let ?added = "min amount (getCapacity c)"
  let ?d = "getDensity (material_type c)"
  consider (stay) "amount \<le> 0 \<or> (\<not> cell_isEmpty c \<and> (material_type c \<noteq> m \<or> ?added \<le> 0))"
    | (empty) "0 < amount" "cell_isEmpty c"
    | (add) "0 < amount" "\<not> cell_isEmpty c" "material_type c = m" "0 < ?added"
    by fastforce
  then show thesis
  proof cases
    case stay
    have "fill_ratio c \<le> 1" using assms by (simp add: cell_ok_def)
    with stay assms show thesis
      by (intro that [of c])
        (auto simp: addMaterialWithPhysics_def addMaterial_def Let_def getCapacity_def min_def
          split: if_splits)
  next
    case empty
    with assms show thesis
      by (intro that [of "c\<lparr>material_type := m, fill_ratio := min amount 1,
            com := calculateTrajectoryLanding s v n, velocity := v\<rparr>"])
        (auto simp: addMaterialWithPhysics_def addMaterial_def Let_def cell_ok_def)
  next
    case add
    let ?m = "getMass c" and ?n = "?added * ?d"
    have pos: "0 \<le> ?m" "0 < ?n" using mass_nonneg [OF assms] density_pos add(4) by simp_all
    then have sum: "0 < ?m + ?n" by linarith
    have u: "unit_vec (com c)" using assms by (simp add: cell_ok_def)
    let ?c = "\<lambda>c1. c1\<lparr>fill_ratio := fill_ratio c + ?added\<rparr>"
    let ?w = "\<lambda>a b. \<lparr>vx = (vx a * ?m + vx b * ?n) / (?m + ?n), vy = (vy a * ?m + vy b * ?n) / (?m + ?n)\<rparr>"
    let ?land = "calculateTrajectoryLanding s v n"
    let ?r = "?c (if ?m + ?n > MIN_MATTER
                  then c\<lparr>com := ?w (com c) ?land, velocity := ?w (velocity c) v\<rparr> else c)"
    have f: "fill_ratio c + ?added \<le> 1" "0 \<le> fill_ratio c + ?added"
      using assms add(4) by (auto simp: getCapacity_def cell_ok_def)
    have "addMaterialWithPhysics m amount s v n c = Some (?r, ?added)"
      using add sum by (auto simp: addMaterialWithPhysics_def Let_def weighted_some)
    moreover have "addMaterial m amount c = (?c c, ?added)"
      using add by (simp add: addMaterial_def Let_def)
    moreover have "cell_ok ?r"
      using f assms weighted_unit [OF u landing_unit _ _ sum] pos by (auto simp: cell_ok_def)
    ultimately show thesis by (intro that [of ?r]) auto
  qed
qed


lemma addDirtWithVelocity_ok:
  assumes "cell_ok c"
  shows "\<exists>c'. addDirtWithVelocity amount v c = Some c' \<and> cell_ok c'"
  using addMaterial_ok(1) [OF assms, of Mat_Dirt amount] assms
  by (auto simp: addDirtWithVelocity_def weighted_some cell_ok_def split: prod.split)

lemma addDirtWithCOM_ok:
  assumes "cell_ok c"
  shows "\<exists>c'. addDirtWithCOM amount p v c = Some c' \<and> cell_ok c'"
proof -
  obtain c1 added where a: "addMaterial Mat_Dirt amount c = (c1, added)"
    by (cases "addMaterial Mat_Dirt amount c")
  have ok: "cell_ok c1" using addMaterial_ok(1) [OF assms, of Mat_Dirt amount] by (simp add: a)
  have "0 < fill_ratio c1" if "0 < added" "0 < amount"
    using that a assms
    by (auto simp: addMaterial_def Let_def cell_ok_def split: if_splits)
  then show ?thesis
    using ok assms by (auto simp: addDirtWithCOM_def a weighted_some clampCOM_def cell_ok_def)
qed

text \<open>The operations of a cell, as a relation.\<close>

inductive cell_op :: "cell \<Rightarrow> cell \<Rightarrow> bool" where
  op_add: "cell_op c (fst (addMaterial m amount c))"
| op_addPhysics: "addMaterialWithPhysics m amount s v n c = Some (c', added) \<Longrightarrow> cell_op c c'"
| op_remove: "cell_op c (fst (removeMaterial amount c))"
| op_replace: "cell_op c (replaceMaterial m ratio c)"
| op_fill: "cell_op c (setFillRatio ratio c)"
| op_com: "cell_op c (setCOM v c)"
| op_clamp: "cell_op c (clampCOM c)"
| op_clear: "cell_op c (clearCell c)"
| op_dirt: "cell_op c (addDirt amount c)"
| op_dirtVelocity: "addDirtWithVelocity amount v c = Some c' \<Longrightarrow> cell_op c c'"
| op_dirtCOM: "addDirtWithCOM amount p v c = Some c' \<Longrightarrow> cell_op c c'"
| op_force: "cell_op c (addPendingForce v c)"
| op_clearForce: "cell_op c (clearPendingForce c)"
| op_clearPressure: "cell_op c (clearPressure c)"

lemma cell_op_ok:
  assumes "cell_op c c'" "cell_ok c" shows "cell_ok c'"
  using assms
proof (cases rule: cell_op.cases)
  case (op_addPhysics m amount s v n added)
  then show ?thesis using addMaterialWithPhysics_ok [OF assms(2), of m amount s v n] by auto
next
  case (op_replace m ratio)
  have "cell_ok (new_cell\<lparr>material_type := m\<rparr>)" using new_cell_ok by (simp add: cell_ok_def)
  with op_replace show ?thesis by (simp add: replaceMaterial_def setFillRatio_ok)
next
  case (op_dirtVelocity amount v)
  then show ?thesis using addDirtWithVelocity_ok [OF assms(2), of amount v] by auto
next
  case (op_dirtCOM amount p v)
  then show ?thesis using addDirtWithCOM_ok [OF assms(2), of amount p v] by auto
qed (use assms(2) in \<open>auto simp: addMaterial_ok removeMaterial_ok setFillRatio_ok clearCell_def addDirt_def\<close>,
     auto simp: setCOM_def clampCOM_def cell_ok_def addPendingForce_def clearPendingForce_def clearPressure_def)



section \<open>Transfers\<close>

lemma transfer_fill:
  assumes "cell_ok c" "cell_ok t" "\<not> cell_isEmpty c" "0 < amount"
    and "added = snd (addMaterial (material_type c) (min amount (fill_ratio c)) t)"
    and "t' = fst (addMaterial (material_type c) (min amount (fill_ratio c)) t)"
    and "c' = (if 0 < added then fst (removeMaterial added c) else c)"
  shows "0 \<le> added" "added \<le> amount" "cell_ok c'"
    "fill_ratio c' + fill_ratio t' \<le> fill_ratio c + fill_ratio t"
    "fill_ratio c + fill_ratio t < fill_ratio c' + fill_ratio t' + 2 * MIN_FILL"
proof -
  let ?a = "min amount (fill_ratio c)"
  have f: "0 < fill_ratio c" "MIN_FILL \<le> fill_ratio c" "fill_ratio c \<le> 1" "0 \<le> fill_ratio t"
    using assms by (auto simp: cell_isEmpty_def cell_ok_def cell_consts)
  have a: "0 \<le> added" "added \<le> ?a"
    using addMaterial_ok(2,3) [OF assms(2), of "material_type c" ?a] assms(4,5) f by (auto simp: max_def)
  then show "0 \<le> added" "added \<le> amount" by auto
  show "cell_ok c'" using assms(1,7) removeMaterial_ok by auto
  have t: "fill_ratio t' \<le> fill_ratio t + added" "fill_ratio t + added < fill_ratio t' + MIN_FILL"
    using assms(2,5,6) f
    by (auto simp: addMaterial_def Let_def cell_isEmpty_def cell_ok_def cell_consts split: if_splits)
  have "fill_ratio c' \<le> fill_ratio c - added" "fill_ratio c - added < fill_ratio c' + MIN_FILL"
    using a f assms(3,7)
    by (auto simp: removeMaterial_def Let_def clearCell_def new_cell_def cell_isEmpty_def cell_consts
        split: if_splits)
  with t show "fill_ratio c' + fill_ratio t' \<le> fill_ratio c + fill_ratio t"
    "fill_ratio c + fill_ratio t < fill_ratio c' + fill_ratio t' + 2 * MIN_FILL"
    by simp_all
qed

text \<open>
  C30: a transfer with physics moves as much material as a plain one, never more than asked for, keeps
  both cells valid, never creates material, and loses at most the dust below the fill threshold
  that the two cells may hold.
\<close>

theorem transfer_conserves:
  assumes "cell_ok c" "cell_ok t" "transferTo amount c t = (c', t', moved)"
  shows "\<exists>t''. transferToWithPhysics amount n c t = Some (c', t'', moved) \<and>
    fill_ratio t'' = fill_ratio t' \<and> material_type t'' = material_type t' \<and>
    cell_ok c' \<and> cell_ok t'' \<and> 0 \<le> moved \<and> moved \<le> max 0 amount \<and>
    fill_ratio c' + fill_ratio t'' \<in>
      {fill_ratio c + fill_ratio t - 2 * MIN_FILL <.. fill_ratio c + fill_ratio t}"
proof (cases "cell_isEmpty c \<or> amount \<le> 0")
  case True
  with assms show ?thesis
    by (auto simp: transferTo_def transferToWithPhysics_def cell_consts)
next
  case False
  let ?a = "min amount (fill_ratio c)" and ?m = "material_type c"
  have t: "t' = fst (addMaterial ?m ?a t)" "moved = snd (addMaterial ?m ?a t)"
    "c' = (if 0 < moved then fst (removeMaterial moved c) else c)"
    using assms(3) False by (auto simp: transferTo_def Let_def split: prod.splits)
  obtain t'' where p: "addMaterialWithPhysics ?m ?a (com c) (velocity c) n t = Some (t'', moved)"
    and ok: "cell_ok t''" "fill_ratio t'' = fill_ratio t'" "material_type t'' = material_type t'"
    using addMaterialWithPhysics_ok [OF assms(2), of ?m ?a "com c" "velocity c" n] t by metis
  then have "transferToWithPhysics amount n c t = Some (c', t'', moved)"
    using False t(3) by (simp add: transferToWithPhysics_def)
  with ok transfer_fill [OF assms(1,2) _ _ t(2,1,3)] False show ?thesis by auto
qed

theorem transfer_conserves_witness:
  "fst (the (transferToWithPhysics (1 / 4) zero_vec (addDirt 1 new_cell) new_cell))
     = fst (transferTo (1 / 4) (addDirt 1 new_cell) new_cell)"
proof -
  let ?c = "addDirt 1 new_cell"
  have "cell_ok ?c" by (rule cell_op_ok [OF op_dirt new_cell_ok])
  moreover obtain c' t' moved where e: "transferTo (1 / 4) ?c new_cell = (c', t', moved)"
    by (cases "transferTo (1 / 4) ?c new_cell")
  ultimately show ?thesis
    using transfer_conserves [OF _ new_cell_ok e, of zero_vec] by (auto simp: e)
qed

end
