(* ===== verification/CellPhysics.thy ===== *)
theory CellPhysics
  imports Cells
begin

text \<open>
  What the physics of a cell conserves: momentum when material joins a cell, the continuity of a
  boundary crossing, and the range and monotonicity of the friction coefficient.
\<close>

section \<open>Momentum\<close>

lemma joined_mass:
  assumes "\<not> cell_isEmpty c" "0 < added"
  shows "getMass (c'\<lparr>fill_ratio := fill_ratio c + added, material_type := material_type c\<rparr>)
         = getMass c + added * getDensity (material_type c)"
  using assms by (simp add: getMass_def cell_isEmpty_def algebra_simps)

lemma weighted_vx:
  "weighted a m b n t = Some r \<Longrightarrow> vx r * t = vx a * m + vx b * n \<and> vy r * t = vy a * m + vy b * n"
  by (auto simp: weighted_def vec_div_def vec_add_def vec_times_def split: if_splits)

text \<open>
  Material that joins a cell of the same material brings its mass and its momentum: the mass of
  the cell grows by the mass added, and in both directions its momentum by that of what was added.
\<close>

theorem joining_conserves_momentum:
  assumes "addMaterialWithPhysics (material_type c) amount p v n c = Some (c', added)"
    and "\<not> cell_isEmpty c" "0 < added"
    and "MIN_MATTER < getMass c + added * getDensity (material_type c)"
  shows "getMass c' = getMass c + added * getDensity (material_type c) \<and>
    vx (velocity c') * getMass c' =
      vx (velocity c) * getMass c + vx v * (added * getDensity (material_type c)) \<and>
    vy (velocity c') * getMass c' =
      vy (velocity c) * getMass c + vy v * (added * getDensity (material_type c))"
proof -
  let ?n = "added * getDensity (material_type c)"
  obtain com1 vel1 where w: "weighted (velocity c) (getMass c) v ?n (getMass c + ?n) = Some vel1"
    and c': "c' = c\<lparr>com := com1, velocity := vel1, fill_ratio := fill_ratio c + added\<rparr>"
    using assms
    by (auto simp: addMaterialWithPhysics_def Let_def split: if_splits Option.bind_splits)
  have "getMass c' = getMass c + ?n"
    using joined_mass [OF assms(2,3), of c'] by (simp add: c')
  moreover have "velocity c' = vel1" by (simp add: c')
  ultimately show ?thesis using weighted_vx [OF w] by (simp only:)
qed

theorem joining_conserves_momentum_witness:
  "\<exists>c' added. addMaterialWithPhysics Mat_Dirt (1 / 4) zero_vec \<lparr>vx = 2, vy = 0\<rparr> zero_vec
       (addDirt (1 / 4) new_cell) = Some (c', added) \<and>
     vx (velocity c') * getMass c' = 3 / 4"
proof -
  let ?c = "addDirt (1 / 4) new_cell" and ?v = "\<lparr>vx = 2, vy = 0\<rparr>"
  have c: "material_type ?c = Mat_Dirt" "fill_ratio ?c = 1 / 4" "velocity ?c = zero_vec"
    by (simp_all add: addDirt_def addMaterial_def new_cell_def cell_isEmpty_def MIN_FILL_def Let_def)
  have ok: "cell_ok ?c" by (rule cell_op_ok [OF op_dirt new_cell_ok])
  have d: "getDensity Mat_Dirt = 3 / 2"
    by (simp add: getDensity_def getProperties_def materialProperties_def)
  have a: "snd (addMaterial Mat_Dirt (1 / 4) ?c) = 1 / 4"
    by (simp add: addMaterial_def c Let_def getCapacity_def cell_isEmpty_def MIN_FILL_def)
  obtain c' where e: "addMaterialWithPhysics Mat_Dirt (1 / 4) zero_vec ?v zero_vec ?c = Some (c', 1 / 4)"
    using addMaterialWithPhysics_ok [OF ok, of Mat_Dirt "1 / 4" zero_vec ?v zero_vec] a by auto
  have m: "getMass ?c = 3 / 8" by (simp add: getMass_def c d cell_isEmpty_def MIN_FILL_def)
  have "vx (velocity c') * getMass c' = 3 / 4"
    using joining_conserves_momentum [of ?c "1 / 4" zero_vec ?v zero_vec c' "1 / 4"] e
    by (simp add: c d m cell_isEmpty_def cell_consts zero_vec_def)
  with e show ?thesis by blast
qed

section \<open>Crossing a boundary\<close>

lemma landing_x:
  assumes "a = 1 \<or> a = - 1"
  shows "vx (calculateTrajectoryLanding p v \<lparr>vx = a, vy = b\<rparr>) = - (99 / 100) * a"
  using assms by (auto simp: calculateTrajectoryLanding_def Let_def clamp_def)

lemma landing_y:
  assumes "b = 1 \<or> b = - 1"
  shows "vy (calculateTrajectoryLanding p v \<lparr>vx = a, vy = b\<rparr>) = - (99 / 100) * b"
  using assms by (auto simp: calculateTrajectoryLanding_def Let_def clamp_def)

lemma axisDirection_nonzero: "axisDirection a \<noteq> 0 \<longleftrightarrow> \<bar>a\<bar> \<ge> 1"
  by (auto simp: axisDirection_def)

lemma axisDirection_unit: "axisDirection a \<noteq> 0 \<Longrightarrow> axisDirection a = 1 \<or> axisDirection a = - 1"
  by (auto simp: axisDirection_def split: if_splits)

text \<open>
  A cell asks to transfer exactly when it is neither empty nor a wall and its transfer
  direction is not zero, and material that crosses in that direction lands, in the neighbour, just
  inside the opposite side: it does not ask to cross back on its own.
\<close>

theorem crossing_lands_inside:
  "(shouldTransfer c \<longleftrightarrow>
      \<not> (cell_isEmpty c \<or> cell_isWall c \<or> getTransferDirection c = zero_vec)) \<and>
   vx (getTransferDirection c) \<in> {0, - (100 / 99) * vx (calculateTrajectoryLanding p v (getTransferDirection c))} \<and>
   vy (getTransferDirection c) \<in> {0, - (100 / 99) * vy (calculateTrajectoryLanding p v (getTransferDirection c))}"
proof -
  have "getTransferDirection c = zero_vec \<longleftrightarrow> \<not> (\<bar>vx (com c)\<bar> \<ge> 1 \<or> \<bar>vy (com c)\<bar> \<ge> 1)"
    using axisDirection_nonzero [of "vx (com c)"] axisDirection_nonzero [of "vy (com c)"]
    by (auto simp: getTransferDirection_def zero_vec_def)
  then have "shouldTransfer c \<longleftrightarrow>
      \<not> (cell_isEmpty c \<or> cell_isWall c \<or> getTransferDirection c = zero_vec)"
    by (auto simp: shouldTransfer_def)
  moreover have "vx (getTransferDirection c)
      \<in> {0, - (100 / 99) * vx (calculateTrajectoryLanding p v (getTransferDirection c))}"
    using landing_x [OF axisDirection_unit, of "vx (com c)" p v "axisDirection (vy (com c))"]
    by (cases "axisDirection (vx (com c)) = 0") (simp_all add: getTransferDirection_def)
  moreover have "vy (getTransferDirection c)
      \<in> {0, - (100 / 99) * vy (calculateTrajectoryLanding p v (getTransferDirection c))}"
    using landing_y [OF axisDirection_unit, of "vy (com c)" p v "axisDirection (vx (com c))"]
    by (cases "axisDirection (vy (com c)) = 0") (simp_all add: getTransferDirection_def)
  ultimately show ?thesis by blast
qed

section \<open>Friction\<close>

definition smoothstep :: "real \<Rightarrow> real" where
  "smoothstep t = t * t * (3 - 2 * t)"

lemma smoothstep_mono:
  assumes "0 \<le> a" "a \<le> b" "b \<le> 1" shows "smoothstep a \<le> smoothstep b"
proof -
  have "smoothstep b - smoothstep a = (b - a) * (a * (3 - 2 * a - b) + b * (3 - 2 * b - a))"
    by (simp add: smoothstep_def algebra_simps)
  moreover have "0 \<le> (b - a) * (a * (3 - 2 * a - b) + b * (3 - 2 * b - a))"
    using assms by (intro mult_nonneg_nonneg add_nonneg_nonneg) auto
  ultimately show ?thesis by linarith
qed

lemma smoothstep_range: "0 \<le> t \<Longrightarrow> t \<le> 1 \<Longrightarrow> 0 \<le> smoothstep t \<and> smoothstep t \<le> 1"
  using smoothstep_mono [of 0 t] smoothstep_mono [of t 1] by (simp add: smoothstep_def)

text \<open>The share of the way from the static to the kinetic coefficient.\<close>

definition slip :: "real \<Rightarrow> material_properties \<Rightarrow> real" where
  "slip v p = smoothstep (clamp ((v - mp_stick_velocity p) / mp_friction_transition_width p) 0 1)"

lemma friction_slip:
  assumes "0 < mp_friction_transition_width p"
  shows "getFrictionCoefficient v p =
    mp_static_friction_coefficient p * (1 - slip v p) + mp_kinetic_friction_coefficient p * slip v p"
proof -
  have "(v - mp_stick_velocity p) / mp_friction_transition_width p < 0" if "v < mp_stick_velocity p"
    using that assms by (simp add: divide_less_0_iff)
  then show ?thesis
    by (auto simp: getFrictionCoefficient_def slip_def smoothstep_def clamp_def Let_def max_def min_def)
qed

lemma slip_range: "0 \<le> slip v p \<and> slip v p \<le> 1"
  unfolding slip_def by (rule smoothstep_range) (auto simp: clamp_def)

lemma slip_mono:
  assumes "0 < mp_friction_transition_width p" "v \<le> w"
  shows "slip v p \<le> slip w p"
proof -
  have "(v - mp_stick_velocity p) / mp_friction_transition_width p
        \<le> (w - mp_stick_velocity p) / mp_friction_transition_width p"
    using assms by (intro divide_right_mono) auto
  then show ?thesis unfolding slip_def by (intro smoothstep_mono) (auto simp: clamp_def)
qed

lemma mixture_between: "0 \<le> s \<Longrightarrow> s \<le> 1 \<Longrightarrow> min a b \<le> a * (1 - s) + b * s \<and> a * (1 - s) + b * (s :: real) \<le> max a b"
  using convex_bound_le [of a "max a b" b "1 - s" s] convex_bound_le [of "- a" "- min a b" "- b" "1 - s" s]
  by (auto simp: algebra_simps)

lemma material_friction:
  "0 < mp_friction_transition_width (getProperties m)"
  "m \<noteq> Mat_Water \<Longrightarrow>
     mp_kinetic_friction_coefficient (getProperties m) \<le> mp_static_friction_coefficient (getProperties m)"
  by (cases m; simp add: getProperties_def materialProperties_def)+

text \<open>
  For every material the friction coefficient lies between the static and the kinetic one, and
  for every material but water it never grows with the velocity.
\<close>

theorem friction_between_static_and_kinetic:
  fixes p :: material_properties and m :: material
  defines "p \<equiv> getProperties m"
  assumes "v \<le> w"
  shows "getFrictionCoefficient v p \<in>
      {min (mp_static_friction_coefficient p) (mp_kinetic_friction_coefficient p) ..
       max (mp_static_friction_coefficient p) (mp_kinetic_friction_coefficient p)} \<and>
    (m \<noteq> Mat_Water \<longrightarrow> getFrictionCoefficient w p \<le> getFrictionCoefficient v p)"
proof -
  let ?s = "mp_static_friction_coefficient p" and ?k = "mp_kinetic_friction_coefficient p"
  note width = material_friction(1) [of m, folded p_def]
  have "getFrictionCoefficient w p - getFrictionCoefficient v p = (?k - ?s) * (slip w p - slip v p)"
    by (simp add: friction_slip [OF width] algebra_simps)
  moreover have "(?k - ?s) * (slip w p - slip v p) \<le> 0" if "m \<noteq> Mat_Water"
    using material_friction(2) [OF that] slip_mono [OF width assms(2)]
    by (intro mult_nonpos_nonneg) (auto simp: p_def)
  ultimately have "m \<noteq> Mat_Water \<longrightarrow> getFrictionCoefficient w p \<le> getFrictionCoefficient v p"
    by force
  moreover have "getFrictionCoefficient v p \<in> {min ?s ?k .. max ?s ?k}"
    using mixture_between slip_range by (simp add: friction_slip [OF width])
  ultimately show ?thesis by blast
qed

theorem friction_between_static_and_kinetic_witness:
  "getFrictionCoefficient 1 (getProperties Mat_Dirt) \<le> getFrictionCoefficient 0 (getProperties Mat_Dirt)"
  using friction_between_static_and_kinetic [of 0 1 Mat_Dirt] by simp

end
