(* ===== verification/CellBitmap.thy ===== *)
theory CellBitmap
  imports Prelude
begin

text \<open>
  The bit-packed grid of \<open>core/bitmaps/CellBitmap.{h,cpp}\<close>: 8 by 8 blocks of one \<open>uint64_t\<close> each,
  and the 3 by 3 neighbourhoods of \<open>Neighborhood3x3.h\<close> that it extracts. C++ \<open>int\<close> coordinates are
  mathematical integers (the dimensions are 16-bit, so no product leaves the range of \<open>int\<close>).
  A block access outside \<open>blocks_\<close> is undefined in C++; \<open>blockIndex_less\<close> shows that no access
  at coordinates inside the grid makes one.
\<close>

unbundle bit_operations_syntax

section \<open>The bitmap\<close>

definition to_i16 :: "int \<Rightarrow> int" where
  "to_i16 n = signed_take_bit 15 n"

record cell_bitmap =
  cb_width :: int
  cb_height :: int
  cb_blocksX :: int
  cb_blocksY :: int
  cb_blocks :: "u64 list"

definition newBitmap :: "int \<Rightarrow> int \<Rightarrow> cell_bitmap" where
  "newBitmap w h =
     (let bx = to_i16 ((w + 8 - 1) div 8); by = to_i16 ((h + 8 - 1) div 8)
      in \<lparr>cb_width = to_i16 w, cb_height = to_i16 h, cb_blocksX = bx, cb_blocksY = by,
          cb_blocks = replicate (nat (bx * by)) 0\<rparr>)"

definition cb_blockIndex :: "cell_bitmap \<Rightarrow> int \<Rightarrow> int \<Rightarrow> nat" where
  "cb_blockIndex b x y = nat (drop_bit 3 y * cb_blocksX b + drop_bit 3 x)"

definition cb_bitIndex :: "int \<Rightarrow> int \<Rightarrow> nat" where
  "cb_bitIndex x y = nat (push_bit 3 (y AND 7) OR (x AND 7))"

definition cb_set :: "int \<Rightarrow> int \<Rightarrow> cell_bitmap \<Rightarrow> cell_bitmap" where
  "cb_set x y b =
     (let i = cb_blockIndex b x y
      in b\<lparr>cb_blocks := (cb_blocks b)[i := cb_blocks b ! i OR push_bit (cb_bitIndex x y) 1]\<rparr>)"

definition cb_clear :: "int \<Rightarrow> int \<Rightarrow> cell_bitmap \<Rightarrow> cell_bitmap" where
  "cb_clear x y b =
     (let i = cb_blockIndex b x y
      in b\<lparr>cb_blocks := (cb_blocks b)[i := cb_blocks b ! i AND NOT (push_bit (cb_bitIndex x y) 1)]\<rparr>)"

definition cb_isSet :: "cell_bitmap \<Rightarrow> int \<Rightarrow> int \<Rightarrow> bool" where
  "cb_isSet b x y =
     (drop_bit (cb_bitIndex x y) (cb_blocks b ! cb_blockIndex b x y) AND 1 \<noteq> 0)"

definition cb_getBlock :: "cell_bitmap \<Rightarrow> int \<Rightarrow> int \<Rightarrow> u64" where
  "cb_getBlock b bx by = cb_blocks b ! nat (by * cb_blocksX b + bx)"

definition cb_isBlockAllSet :: "cell_bitmap \<Rightarrow> int \<Rightarrow> int \<Rightarrow> bool" where
  "cb_isBlockAllSet b bx by = (cb_getBlock b bx by = 0xFFFFFFFFFFFFFFFF)"

definition cb_isBlockAllClear :: "cell_bitmap \<Rightarrow> int \<Rightarrow> int \<Rightarrow> bool" where
  "cb_isBlockAllClear b bx by = (cb_getBlock b bx by = 0)"

text \<open>The nested loops over \<open>dy\<close> and \<open>dx\<close>, and the bit position of an offset.\<close>

definition nbOffsets :: "(int \<times> int) list" where
  "nbOffsets = [(- 1, - 1), (0, - 1), (1, - 1), (- 1, 0), (0, 0), (1, 0), (- 1, 1), (0, 1), (1, 1)]"

definition nbBit :: "int \<Rightarrow> int \<Rightarrow> nat" where
  "nbBit dx dy = nat ((dy + 1) * 3 + (dx + 1))"

definition slowStep :: "cell_bitmap \<Rightarrow> int \<Rightarrow> int \<Rightarrow> int \<times> int \<Rightarrow> u64 \<Rightarrow> u64" where
  "slowStep b x y = (\<lambda>(dx, dy) result.
     let nx = x + dx; ny = y + dy
     in if nx \<ge> 0 \<and> nx < cb_width b \<and> ny \<ge> 0 \<and> ny < cb_height b
        then let result1 = result OR push_bit (9 + nbBit dx dy) 1
             in if cb_isSet b nx ny then result1 OR push_bit (nbBit dx dy) 1 else result1
        else result)"

definition fastNeighborhood :: "u64 \<Rightarrow> int \<Rightarrow> int \<Rightarrow> u64" where
  "fastNeighborhood block lx ly =
     (let base = nat (push_bit 3 (ly - 1) OR (lx - 1));
          row0 = ucast (drop_bit base block AND 7) :: u16;
          row1 = ucast (drop_bit (base + 8) block AND 7) :: u16;
          row2 = ucast (drop_bit (base + 16) block AND 7) :: u16;
          values = scast (ucast row0 OR push_bit 3 (ucast row1) OR push_bit 6 (ucast row2) :: i32) :: u64
      in values OR push_bit 9 0x1FF)"

definition cb_getNeighborhood :: "cell_bitmap \<Rightarrow> int \<Rightarrow> int \<Rightarrow> u64" where
  "cb_getNeighborhood b x y =
     (let lx = x AND 7; ly = y AND 7
      in if (lx \<ge> 1 \<and> lx \<le> 6 \<and> ly \<ge> 1 \<and> ly \<le> 6) \<and>
            (x \<ge> 1 \<and> x < cb_width b - 1 \<and> y \<ge> 1 \<and> y < cb_height b - 1)
         then fastNeighborhood (cb_getBlock b (drop_bit 3 x) (drop_bit 3 y)) lx ly
         else fold (slowStep b x y) nbOffsets 0)"

section \<open>Indices\<close>

lemma and7: "(n :: int) AND 7 = n mod 8"
proof -
  have "n AND mask 3 = n mod 2 ^ 3" by (simp only: flip: take_bit_eq_mask take_bit_eq_mod)
  then show ?thesis by (simp add: mask_eq_exp_minus_1)
qed

lemma drop3: "drop_bit 3 (n :: int) = n div 8"
  by (simp add: drop_bit_eq_div)

lemma push3_or:
  assumes "0 \<le> (a :: int)" "a < 8" shows "push_bit 3 b OR a = 8 * b + a"
proof -
  have "push_bit 3 b OR a = push_bit 3 b + a"
  proof (rule disjunctive_add [symmetric])
    fix n
    have "a = take_bit 3 a" using assms by (simp add: take_bit_eq_mod)
    then have "bit a n \<Longrightarrow> n < 3" by (metis bit_take_bit_iff)
    then show "\<not> bit (push_bit 3 b) n \<or> \<not> bit a n" by (auto simp: bit_simps)
  qed
  then show ?thesis by (simp add: push_bit_eq_mult)
qed

lemma bitIndex_eq: "cb_bitIndex x y = nat (8 * (y mod 8) + x mod 8)"
  by (simp add: cb_bitIndex_def and7 push3_or)

lemma blockIndex_eq: "cb_blockIndex b x y = nat (y div 8 * cb_blocksX b + x div 8)"
  by (simp add: cb_blockIndex_def drop3)

lemma bitIndex_less: "cb_bitIndex x y < 64"
proof -
  have "0 \<le> x mod 8" "x mod 8 < 8" "0 \<le> y mod 8" "y mod 8 < 8" by simp_all
  then show ?thesis unfolding bitIndex_eq by linarith
qed

text \<open>Coordinates that the blocks have a bit for, and coordinates of the grid.\<close>

definition padded :: "cell_bitmap \<Rightarrow> int \<Rightarrow> int \<Rightarrow> bool" where
  "padded b x y = (0 \<le> x \<and> x < 8 * cb_blocksX b \<and> 0 \<le> y \<and> y < 8 * cb_blocksY b)"

definition inGrid :: "cell_bitmap \<Rightarrow> int \<Rightarrow> int \<Rightarrow> bool" where
  "inGrid b x y = (0 \<le> x \<and> x < cb_width b \<and> 0 \<le> y \<and> y < cb_height b)"

definition shape_ok :: "cell_bitmap \<Rightarrow> bool" where
  "shape_ok b =
     (0 \<le> cb_width b \<and> 0 \<le> cb_height b \<and>
      cb_blocksX b = (cb_width b + 7) div 8 \<and> cb_blocksY b = (cb_height b + 7) div 8 \<and>
      length (cb_blocks b) = nat (cb_blocksX b * cb_blocksY b))"

lemma round_up: "x < w \<Longrightarrow> x < 8 * ((w + 7) div (8 :: int))"
  by presburger

lemma inGrid_padded: "shape_ok b \<Longrightarrow> inGrid b x y \<Longrightarrow> padded b x y"
  using round_up [of x "cb_width b"] round_up [of y "cb_height b"]
  by (auto simp: shape_ok_def inGrid_def padded_def)

lemma block_bound:
  assumes "0 \<le> i" "i < (n :: int)" "0 \<le> j" "j < m" shows "0 \<le> j * n + i" "j * n + i < n * m"
proof -
  have "(j + 1) * n \<le> m * n" using assms by (intro mult_right_mono) auto
  then show "j * n + i < n * m" using assms by (simp add: algebra_simps)
qed (use assms in simp)

lemma blockIndex_less:
  assumes "shape_ok b" "padded b x y"
  shows "cb_blockIndex b x y < length (cb_blocks b)"
proof -
  have "0 \<le> x div 8" "x div 8 < cb_blocksX b" "0 \<le> y div 8" "y div 8 < cb_blocksY b"
    using assms(2) by (auto simp: padded_def)
  from block_bound [OF this] assms(1) show ?thesis
    by (simp add: blockIndex_eq shape_ok_def nat_less_eq_zless)
qed

lemma mixed_radix:
  assumes "j * n + i = j' * n + i'" "0 \<le> i" "i < (n :: int)" "0 \<le> i'" "i' < n"
  shows "j = j' \<and> i = i'"
proof -
  have "(j * n + i) div n = j" using assms(2,3) by simp
  moreover have "(j' * n + i') div n = j'" using assms(4,5) by simp
  ultimately have "j = j'" using assms(1) by metis
  with assms(1) show ?thesis by simp
qed

lemma indices_inject:
  assumes "padded b x y" "padded b x' y'"
    and "cb_blockIndex b x y = cb_blockIndex b x' y'" "cb_bitIndex x y = cb_bitIndex x' y'"
  shows "x = x' \<and> y = y'"
proof -
  have p: "0 \<le> x div 8" "x div 8 < cb_blocksX b" "0 \<le> y div 8"
    "0 \<le> x' div 8" "x' div 8 < cb_blocksX b" "0 \<le> y' div 8"
    using assms(1,2) by (auto simp: padded_def)
  then have "y div 8 * cb_blocksX b + x div 8 = y' div 8 * cb_blocksX b + x' div 8"
    using assms(3) by (simp add: blockIndex_eq eq_nat_nat_iff)
  from mixed_radix [OF this] p have "y div 8 = y' div 8" "x div 8 = x' div 8" by simp_all
  moreover have "y mod 8 * 8 + x mod 8 = y' mod 8 * 8 + x' mod 8"
    using assms(4) by (simp add: bitIndex_eq eq_nat_nat_iff algebra_simps)
  then have "y mod 8 = y' mod 8 \<and> x mod 8 = x' mod 8" by (rule mixed_radix) simp_all
  ultimately show ?thesis by (metis div_mult_mod_eq)
qed

section \<open>The bitmap as a set of coordinates\<close>

lemma isSet_bit: "cb_isSet b x y \<longleftrightarrow> bit (cb_blocks b ! cb_blockIndex b x y) (cb_bitIndex x y)"
  by (simp add: cb_isSet_def bit_iff_and_drop_bit_eq_1 and_one_eq odd_iff_mod_2_eq_one)

lemma set_dims [simp]:
  "cb_width (cb_set x y b) = cb_width b" "cb_height (cb_set x y b) = cb_height b"
  "cb_blocksX (cb_set x y b) = cb_blocksX b" "cb_blocksY (cb_set x y b) = cb_blocksY b"
  "length (cb_blocks (cb_set x y b)) = length (cb_blocks b)"
  "cb_width (cb_clear x y b) = cb_width b" "cb_height (cb_clear x y b) = cb_height b"
  "cb_blocksX (cb_clear x y b) = cb_blocksX b" "cb_blocksY (cb_clear x y b) = cb_blocksY b"
  "length (cb_blocks (cb_clear x y b)) = length (cb_blocks b)"
  by (simp_all add: cb_set_def cb_clear_def Let_def)

lemma shape_set [simp]: "shape_ok (cb_set x y b) = shape_ok b" "shape_ok (cb_clear x y b) = shape_ok b"
  by (simp_all add: shape_ok_def)

lemma grid_set [simp]:
  "inGrid (cb_set x y b) = inGrid b" "inGrid (cb_clear x y b) = inGrid b"
  "padded (cb_set x y b) = padded b" "padded (cb_clear x y b) = padded b"
  by (simp_all add: inGrid_def padded_def fun_eq_iff)

lemma index_blocks [simp]: "cb_blockIndex (b\<lparr>cb_blocks := v\<rparr>) = cb_blockIndex b"
  by (simp add: cb_blockIndex_def fun_eq_iff)

lemma index_set [simp]:
  "cb_blockIndex (cb_set x y b) = cb_blockIndex b" "cb_blockIndex (cb_clear x y b) = cb_blockIndex b"
  by (simp_all add: cb_blockIndex_def fun_eq_iff)

lemma bit_push_one: "bit (push_bit k 1 :: u64) n \<longleftrightarrow> n = k \<and> n < 64"
  by (auto simp: bit_simps)

lemma isSet_set:
  assumes "shape_ok b" "padded b x y" "padded b x' y'"
  shows "cb_isSet (cb_set x y b) x' y' \<longleftrightarrow> (x' = x \<and> y' = y) \<or> cb_isSet b x' y'"
proof -
  have "cb_isSet (cb_set x y b) x' y' \<longleftrightarrow> cb_isSet b x' y' \<or>
      (cb_blockIndex b x y = cb_blockIndex b x' y' \<and> cb_bitIndex x' y' = cb_bitIndex x y)"
    using blockIndex_less [OF assms(1,2)] bitIndex_less [of x' y']
    by (cases "cb_blockIndex b x y = cb_blockIndex b x' y'")
      (simp_all add: isSet_bit cb_set_def Let_def bit_or_iff bit_push_one del: push_bit_of_1)
  then show ?thesis using indices_inject [OF assms(2,3)] by metis
qed

lemma isSet_clear:
  assumes "shape_ok b" "padded b x y" "padded b x' y'"
  shows "cb_isSet (cb_clear x y b) x' y' \<longleftrightarrow> \<not> (x' = x \<and> y' = y) \<and> cb_isSet b x' y'"
proof -
  have "cb_isSet (cb_clear x y b) x' y' \<longleftrightarrow> cb_isSet b x' y' \<and>
      \<not> (cb_blockIndex b x y = cb_blockIndex b x' y' \<and> cb_bitIndex x' y' = cb_bitIndex x y)"
    using blockIndex_less [OF assms(1,2)] bitIndex_less [of x' y']
    by (cases "cb_blockIndex b x y = cb_blockIndex b x' y'")
      (simp_all add: isSet_bit cb_clear_def Let_def bit_and_iff bit_not_iff bit_push_one
        del: push_bit_of_1)
  then show ?thesis using indices_inject [OF assms(2,3)] by metis
qed


section \<open>The interface its clients rely on\<close>

text \<open>
  A grid of flags: \<open>inside g x y\<close> are the coordinates it keeps, \<open>put\<close> and \<open>del\<close> change one flag.
  A client fills it with a loop that puts the coordinates a test selects.
\<close>

locale flag_grid =
  fixes ok :: "'g \<Rightarrow> bool"
    and inside :: "'g \<Rightarrow> int \<Rightarrow> int \<Rightarrow> bool"
    and isSet :: "'g \<Rightarrow> int \<Rightarrow> int \<Rightarrow> bool"
    and put :: "int \<Rightarrow> int \<Rightarrow> 'g \<Rightarrow> 'g"
    and del :: "int \<Rightarrow> int \<Rightarrow> 'g \<Rightarrow> 'g"
  assumes ok_put [simp]: "ok (put x y g) = ok g"
    and ok_del [simp]: "ok (del x y g) = ok g"
    and inside_put [simp]: "inside (put x y g) = inside g"
    and inside_del [simp]: "inside (del x y g) = inside g"
    and isSet_put: "ok g \<Longrightarrow> inside g x y \<Longrightarrow> inside g x' y' \<Longrightarrow>
      isSet (put x y g) x' y' \<longleftrightarrow> (x' = x \<and> y' = y) \<or> isSet g x' y'"
    and isSet_del: "ok g \<Longrightarrow> inside g x y \<Longrightarrow> inside g x' y' \<Longrightarrow>
      isSet (del x y g) x' y' \<longleftrightarrow> \<not> (x' = x \<and> y' = y) \<and> isSet g x' y'"
begin

abbreviation fill :: "(int \<Rightarrow> int \<Rightarrow> bool) \<Rightarrow> (int \<times> int) list \<Rightarrow> 'g \<Rightarrow> 'g" where
  "fill P cs g \<equiv> fold (\<lambda>(x, y) g. if P x y then put x y g else g) cs g"

lemma fill_keeps: "ok (fill P cs g) = ok g" "inside (fill P cs g) = inside g"
  by (induction cs arbitrary: g) (auto split: if_splits)

lemma isSet_fill:
  assumes "ok g" "\<forall>(x, y) \<in> set cs. inside g x y" "inside g x' y'"
  shows "isSet (fill P cs g) x' y' \<longleftrightarrow> isSet g x' y' \<or> ((x', y') \<in> set cs \<and> P x' y')"
  using assms
proof (induction cs arbitrary: g)
  case Nil
  then show ?case by simp
next
  case (Cons c cs)
  obtain x y where c: "c = (x, y)" by (cases c)
  let ?g = "if P x y then put x y g else g"
  have "ok ?g" "\<forall>(x, y) \<in> set cs. inside ?g x y" "inside ?g x' y'" using Cons.prems by auto
  from Cons.IH [OF this] Cons.prems show ?case by (auto simp: c isSet_put)
qed

end

interpretation bitmap: flag_grid shape_ok padded cb_isSet cb_set cb_clear
  by unfold_locales (auto simp: isSet_set isSet_clear)

lemma to_i16_id [simp]: "0 \<le> n \<Longrightarrow> n < 32768 \<Longrightarrow> to_i16 n = n"
  by (simp add: to_i16_def signed_take_bit_int_eq_self)

definition dims_ok :: "int \<Rightarrow> int \<Rightarrow> bool" where
  "dims_ok w h = (0 \<le> w \<and> w < 32768 \<and> 0 \<le> h \<and> h < 32768)"

lemma newBitmap_eq:
  assumes "dims_ok w h"
  shows "newBitmap w h = \<lparr>cb_width = w, cb_height = h, cb_blocksX = (w + 7) div 8,
    cb_blocksY = (h + 7) div 8, cb_blocks = replicate (nat ((w + 7) div 8 * ((h + 7) div 8))) 0\<rparr>"
proof -
  have d: "w + 8 - 1 = w + 7" "h + 8 - 1 = h + 7" by simp_all
  have "0 \<le> (w + 7) div 8" "(w + 7) div 8 < 32768" "0 \<le> (h + 7) div 8" "(h + 7) div 8 < 32768"
    using assms by (auto simp: dims_ok_def)
  then show ?thesis using assms unfolding newBitmap_def d by (simp add: dims_ok_def Let_def)
qed

lemma newBitmap_ok:
  assumes "dims_ok w h"
  shows "shape_ok (newBitmap w h)" "inGrid (newBitmap w h) x y \<longleftrightarrow> 0 \<le> x \<and> x < w \<and> 0 \<le> y \<and> y < h"
  using assms by (auto simp: newBitmap_eq [OF assms] shape_ok_def inGrid_def dims_ok_def)

lemma newBitmap_clear:
  assumes "dims_ok w h" "padded (newBitmap w h) x y"
  shows "\<not> cb_isSet (newBitmap w h) x y"
  using blockIndex_less [OF newBitmap_ok(1) [OF assms(1)] assms(2)]
  by (simp add: isSet_bit) (simp add: newBitmap_eq [OF assms(1)])

text \<open>
  The bits beyond the grid stay clear, since only cells of the grid are ever set.
\<close>

definition bitmap_ok :: "cell_bitmap \<Rightarrow> bool" where
  "bitmap_ok b = (shape_ok b \<and> (\<forall>x y. padded b x y \<longrightarrow> cb_isSet b x y \<longrightarrow> inGrid b x y))"

lemma bitmap_ok_new: "dims_ok w h \<Longrightarrow> bitmap_ok (newBitmap w h)"
  by (auto simp: bitmap_ok_def newBitmap_ok newBitmap_clear)

lemma bitmap_ok_set: "bitmap_ok b \<Longrightarrow> inGrid b x y \<Longrightarrow> bitmap_ok (cb_set x y b)"
  using inGrid_padded isSet_set by (auto simp: bitmap_ok_def)

lemma bitmap_ok_clear: "bitmap_ok b \<Longrightarrow> inGrid b x y \<Longrightarrow> bitmap_ok (cb_clear x y b)"
  using inGrid_padded isSet_clear by (auto simp: bitmap_ok_def)

section \<open>Abstraction to a set of cells\<close>

definition cells :: "cell_bitmap \<Rightarrow> (int \<times> int) set" where
  "cells b = {(x, y). inGrid b x y \<and> cb_isSet b x y}"

text \<open>
  The bitmap implements a set of grid cells: a new one is empty, \<open>set\<close> inserts a cell,
  \<open>clear\<close> removes it, \<open>isSet\<close> tests membership, and these operations keep the bits beyond the
  edge of the grid clear.
\<close>

theorem bitmap_refines_set:
  assumes "bitmap_ok b" "inGrid b x y" "dims_ok w h"
  shows "cells (newBitmap w h) = {} \<and> cells (cb_set x y b) = insert (x, y) (cells b) \<and>
    cells (cb_clear x y b) = cells b - {(x, y)} \<and> (cb_isSet b x y \<longleftrightarrow> (x, y) \<in> cells b) \<and>
    bitmap_ok (newBitmap w h) \<and> bitmap_ok (cb_set x y b) \<and> bitmap_ok (cb_clear x y b)"
proof -
  have s: "shape_ok b" and p: "\<And>x y. inGrid b x y \<Longrightarrow> padded b x y"
    using assms(1) inGrid_padded by (auto simp: bitmap_ok_def)
  have "cells (newBitmap w h) = {}"
    using newBitmap_clear [OF assms(3)] inGrid_padded [OF newBitmap_ok(1) [OF assms(3)]]
    by (auto simp: cells_def)
  moreover have "cells (cb_set x y b) = insert (x, y) (cells b)"
    using isSet_set [OF s p p] assms(2) by (auto simp: cells_def)
  moreover have "cells (cb_clear x y b) = cells b - {(x, y)}"
    using isSet_clear [OF s p p] assms(2) by (auto simp: cells_def)
  ultimately show ?thesis
    using assms bitmap_ok_new bitmap_ok_set bitmap_ok_clear by (auto simp: cells_def)
qed

theorem bitmap_refines_set_witness:
  "cells (cb_set 9 2 (newBitmap 20 10)) = {(9, 2)}"
proof -
  have d: "dims_ok 20 10" by (simp add: dims_ok_def)
  from bitmap_refines_set [OF bitmap_ok_new [OF d] _ d, of 9 2] show ?thesis
    by (simp add: newBitmap_ok(2) [OF d])
qed

text \<open>A block's cells are those of its 64 bits.\<close>

lemma block_bit:
  assumes "0 \<le> bx" "0 \<le> by'" "n < 64"
  shows "bit (cb_getBlock b bx by') n \<longleftrightarrow> cb_isSet b (8 * bx + int (n mod 8)) (8 * by' + int (n div 8))"
proof -
  have "(8 * bx + int (n mod 8)) div 8 = bx" "(8 * by' + int (n div 8)) div 8 = by'"
    "(8 * bx + int (n mod 8)) mod 8 = int (n mod 8)" "(8 * by' + int (n div 8)) mod 8 = int (n div 8)"
    using assms(3) by auto
  moreover have "8 * int (n div 8) + int (n mod 8) = int n"
    by (simp only: zdiv_int zmod_int of_nat_numeral mult_div_mod_eq)
  then have "nat (8 * int (n div 8) + int (n mod 8)) = n" by simp
  ultimately show ?thesis by (simp only: isSet_bit cb_getBlock_def blockIndex_eq bitIndex_eq)
qed

definition blockCells :: "int \<Rightarrow> int \<Rightarrow> (int \<times> int) set" where
  "blockCells bx by' = {8 * bx ..< 8 * bx + 8} \<times> {8 * by' ..< 8 * by' + 8}"

lemma blockCells_bit:
  "(x, y) \<in> blockCells bx by' \<longleftrightarrow> (\<exists>n < 64. x = 8 * bx + int (n mod 8) \<and> y = 8 * by' + int (n div 8))"
proof
  assume "(x, y) \<in> blockCells bx by'"
  then have a: "0 \<le> x - 8 * bx" "x - 8 * bx < 8" "0 \<le> y - 8 * by'" "y - 8 * by' < 8"
    by (auto simp: blockCells_def)
  then obtain i j where "x - 8 * bx = int i" "y - 8 * by' = int j" using zero_le_imp_eq_int by metis
  with a show "\<exists>n < 64. x = 8 * bx + int (n mod 8) \<and> y = 8 * by' + int (n div 8)"
    by (intro exI [of _ "8 * j + i"]) auto
qed (auto simp: blockCells_def)

lemma blockCells_bits:
  "blockCells bx by' = (\<lambda>n. (8 * bx + int (n mod 8), 8 * by' + int (n div 8))) ` {..< 64}"
  by (rule set_eqI) (auto simp: blockCells_bit image_iff split_paired_all)

text \<open>
  The two block tests answer for all the cells of a block at once: \<open>isBlockAllClear\<close> holds when
  no cell of the block is set, \<open>isBlockAllSet\<close> when all 64 are, which a block that sticks out of the
  grid never is.
\<close>

theorem block_tests:
  assumes "bitmap_ok b" "0 \<le> bx" "bx < cb_blocksX b" "0 \<le> by'" "by' < cb_blocksY b"
  shows "(cb_isBlockAllClear b bx by' \<longleftrightarrow> blockCells bx by' \<inter> cells b = {}) \<and>
    (cb_isBlockAllSet b bx by' \<longleftrightarrow> blockCells bx by' \<subseteq> cells b)"
proof -
  let ?w = "cb_getBlock b bx by'"
  let ?x = "\<lambda>n. 8 * bx + int (n mod 8)" and ?y = "\<lambda>n. 8 * by' + int (n div 8)"
  have p: "padded b (?x n) (?y n)" if "n < 64" for n
  proof -
    have "n div 8 < 8" "n mod 8 < 8" using that by auto
    with assms show ?thesis by (auto simp: padded_def)
  qed
  have c: "bit ?w n \<longleftrightarrow> (?x n, ?y n) \<in> cells b" if "n < 64" for n
    using block_bit [OF assms(2,4) that] p [OF that] assms(1) by (auto simp: cells_def bitmap_ok_def)
  have "?w = 0 \<longleftrightarrow> (\<forall>n < 64. \<not> bit ?w n)"
    by (auto simp: bit_eq_iff)
  moreover have "?w = 0xFFFFFFFFFFFFFFFF \<longleftrightarrow> (\<forall>n < 64. bit ?w n)"
  proof -
    have "(0xFFFFFFFFFFFFFFFF :: u64) = - 1" by simp
    then show ?thesis by (simp only: bit_eq_iff) (auto simp: bit_simps)
  qed
  moreover have "blockCells bx by' \<inter> cells b = {} \<longleftrightarrow> (\<forall>n < 64. (?x n, ?y n) \<notin> cells b)"
    "blockCells bx by' \<subseteq> cells b \<longleftrightarrow> (\<forall>n < 64. (?x n, ?y n) \<in> cells b)"
    unfolding blockCells_bits by auto
  ultimately show ?thesis
    using c by (simp add: cb_isBlockAllClear_def cb_isBlockAllSet_def)
qed

theorem block_tests_witness:
  "cb_isBlockAllClear (newBitmap 20 10) 2 1 \<and> \<not> cb_isBlockAllSet (newBitmap 20 10) 2 1"
proof -
  have d: "dims_ok 20 10" by (simp add: dims_ok_def)
  have e: "cells (newBitmap 20 10) = {}"
    using newBitmap_clear [OF d] inGrid_padded [OF newBitmap_ok(1) [OF d]] by (auto simp: cells_def)
  have n: "blockCells 2 1 \<noteq> {}" by (simp add: blockCells_def)
  have "2 < cb_blocksX (newBitmap 20 10)" "1 < cb_blocksY (newBitmap 20 10)"
    by (simp_all add: newBitmap_eq [OF d])
  from block_tests [OF bitmap_ok_new [OF d] _ this(1) _ this(2)] n show ?thesis
    by (simp add: e)
qed

end
