(* ===== verification/Neighborhoods.thy ===== *)
theory Neighborhoods
  imports CellBitmap Cells
begin

text \<open>
  The 3 by 3 neighbourhoods: the accessors of \<open>Neighborhood3x3.h\<close>, the typed views
  \<open>EmptyNeighborhood.{h,cpp}\<close> and \<open>MaterialNeighborhood.{h,cpp}\<close>, and what the neighbourhood that
  \<open>CellBitmap\<close> extracts holds: the fast path for interior cells and the slow path for the others
  produce the same word.
\<close>

unbundle bit_operations_syntax

section \<open>Neighborhood3x3\<close>

definition BIT_TO_OFFSET :: "(int \<times> int) list" where
  "BIT_TO_OFFSET = [(- 1, - 1), (0, - 1), (1, - 1), (- 1, 0), (0, 0), (1, 0), (- 1, 1), (0, 1), (1, 1)]"

definition nb_getValueLayer :: "u64 \<Rightarrow> u16" where
  "nb_getValueLayer d = ucast (d AND 0x1FF)"

definition nb_getValidLayer :: "u64 \<Rightarrow> u16" where
  "nb_getValidLayer d = ucast (drop_bit 9 d AND 0x1FF)"

definition nb_getAt :: "u64 \<Rightarrow> int \<Rightarrow> int \<Rightarrow> bool" where
  "nb_getAt d dx dy = (drop_bit (nbBit dx dy) d AND 1 \<noteq> 0)"

definition nb_isValidAt :: "u64 \<Rightarrow> int \<Rightarrow> int \<Rightarrow> bool" where
  "nb_isValidAt d dx dy = (drop_bit (9 + nbBit dx dy) d AND 1 \<noteq> 0)"

definition nb_hasAt :: "u64 \<Rightarrow> int \<Rightarrow> int \<Rightarrow> bool" where
  "nb_hasAt d dx dy = (nb_isValidAt d dx dy \<and> nb_getAt d dx dy)"

text \<open>\<open>__builtin_popcount\<close> on a value of 16 bits.\<close>

definition popcount :: "u16 \<Rightarrow> nat" where
  "popcount w = (\<Sum>n\<leftarrow>[0..<16]. of_bool (bit w n))"

definition nb_countValidNeighbors :: "u64 \<Rightarrow> nat" where
  "nb_countValidNeighbors d = popcount (nb_getValidLayer d AND NOT (push_bit 4 1))"

definition nb_countTrueNeighbors :: "u64 \<Rightarrow> nat" where
  "nb_countTrueNeighbors d = popcount (nb_getValueLayer d AND NOT (push_bit 4 1))"

definition nb_allValidNeighborsTrue :: "u64 \<Rightarrow> bool" where
  "nb_allValidNeighborsTrue d =
     (let valid = nb_getValidLayer d AND NOT (push_bit 4 1);
          values = nb_getValueLayer d AND NOT (push_bit 4 1)
      in values AND valid = valid)"

section \<open>EmptyNeighborhood\<close>

definition en_exists :: "u64 \<Rightarrow> int \<Rightarrow> int \<Rightarrow> bool" where
  "en_exists d dx dy = nb_isValidAt d dx dy"

definition en_isEmpty :: "u64 \<Rightarrow> int \<Rightarrow> int \<Rightarrow> bool" where
  "en_isEmpty d dx dy = (nb_isValidAt d dx dy \<and> nb_getAt d dx dy)"

definition en_hasMaterial :: "u64 \<Rightarrow> int \<Rightarrow> int \<Rightarrow> bool" where
  "en_hasMaterial d dx dy = (nb_isValidAt d dx dy \<and> \<not> nb_getAt d dx dy)"

definition en_getValidWithMaterialMask :: "u64 \<Rightarrow> u16" where
  "en_getValidWithMaterialMask d = nb_getValidLayer d AND NOT (nb_getValueLayer d)"

definition en_centerHasMaterial :: "u64 \<Rightarrow> bool" where
  "en_centerHasMaterial d = (en_getValidWithMaterialMask d AND push_bit 4 1 \<noteq> 0)"

definition en_getMaterialNeighborsBitGrid :: "u64 \<Rightarrow> u16" where
  "en_getMaterialNeighborsBitGrid d = en_getValidWithMaterialMask d AND NOT (push_bit 4 1)"

definition en_countMaterialNeighbors :: "u64 \<Rightarrow> nat" where
  "en_countMaterialNeighbors d = popcount (en_getMaterialNeighborsBitGrid d)"

definition en_countValidNeighbors :: "u64 \<Rightarrow> nat" where
  "en_countValidNeighbors d = nb_countValidNeighbors d"

definition en_countEmptyNeighbors :: "u64 \<Rightarrow> nat" where
  "en_countEmptyNeighbors d = nb_countTrueNeighbors d"

definition en_allNeighborsEmpty :: "u64 \<Rightarrow> bool" where
  "en_allNeighborsEmpty d = nb_allValidNeighborsTrue d"

section \<open>MaterialNeighborhood\<close>

text \<open>A nibble is the underlying value of \<open>Material::EnumType\<close>; ten of the sixteen have a name.\<close>

definition mn_getMaterialByBitPos :: "u64 \<Rightarrow> nat \<Rightarrow> nat" where
  "mn_getMaterialByBitPos d pos = unat (drop_bit (pos * 4) d AND 0xF)"

definition mn_getMaterial :: "u64 \<Rightarrow> int \<Rightarrow> int \<Rightarrow> nat" where
  "mn_getMaterial d dx dy = mn_getMaterialByBitPos d (nbBit dx dy)"

definition mn_getCenterMaterial :: "u64 \<Rightarrow> nat" where
  "mn_getCenterMaterial d = mn_getMaterialByBitPos d 4"

definition mn_north :: "u64 \<Rightarrow> nat" where "mn_north d = mn_getMaterial d 0 (- 1)"
definition mn_south :: "u64 \<Rightarrow> nat" where "mn_south d = mn_getMaterial d 0 1"
definition mn_east :: "u64 \<Rightarrow> nat" where "mn_east d = mn_getMaterial d 1 0"
definition mn_west :: "u64 \<Rightarrow> nat" where "mn_west d = mn_getMaterial d (- 1) 0"
definition mn_northEast :: "u64 \<Rightarrow> nat" where "mn_northEast d = mn_getMaterial d 1 (- 1)"
definition mn_northWest :: "u64 \<Rightarrow> nat" where "mn_northWest d = mn_getMaterial d (- 1) (- 1)"
definition mn_southEast :: "u64 \<Rightarrow> nat" where "mn_southEast d = mn_getMaterial d 1 1"
definition mn_southWest :: "u64 \<Rightarrow> nat" where "mn_southWest d = mn_getMaterial d (- 1) 1"

definition mn_countMaterial :: "u64 \<Rightarrow> nat \<Rightarrow> nat" where
  "mn_countMaterial d m =
     fold (\<lambda>i k. if i = 4 then k
                 else if unat (drop_bit (i * 4) d AND 0xF) = m then k + 1 else k) [0..<9] 0"

definition mn_allNeighborsSameMaterial :: "u64 \<Rightarrow> nat \<Rightarrow> bool" where
  "mn_allNeighborsSameMaterial d m =
     list_all (\<lambda>i. i = 4 \<or> unat (drop_bit (i * 4) d AND 0xF) = m) [0..<9]"

definition mn_isSurroundedBySameMaterial :: "u64 \<Rightarrow> bool" where
  "mn_isSurroundedBySameMaterial d = mn_allNeighborsSameMaterial d (mn_getCenterMaterial d)"

section \<open>Packed neighbourhoods\<close>

text \<open>
  \<open>packs d V P\<close>: the word \<open>d\<close> holds the neighbourhood in which \<open>V\<close> tells which offsets exist and
  \<open>P\<close> which of them have the property.
\<close>

definition packs :: "u64 \<Rightarrow> (int \<Rightarrow> int \<Rightarrow> bool) \<Rightarrow> (int \<Rightarrow> int \<Rightarrow> bool) \<Rightarrow> bool" where
  "packs d V P =
     (\<forall>n. bit d n \<longleftrightarrow> (\<exists>(dx, dy) \<in> set nbOffsets.
        V dx dy \<and> (n = 9 + nbBit dx dy \<or> (n = nbBit dx dy \<and> P dx dy))))"

definition packStep :: "(int \<Rightarrow> int \<Rightarrow> bool) \<Rightarrow> (int \<Rightarrow> int \<Rightarrow> bool) \<Rightarrow> int \<times> int \<Rightarrow> u64 \<Rightarrow> u64" where
  "packStep V P = (\<lambda>(dx, dy) d.
     if V dx dy
     then let d1 = d OR push_bit (9 + nbBit dx dy) 1
          in if P dx dy then d1 OR push_bit (nbBit dx dy) 1 else d1
     else d)"

lemma nbBit_values:
  "nbBit (- 1) (- 1) = 0" "nbBit 0 (- 1) = 1" "nbBit 1 (- 1) = 2"
  "nbBit (- 1) 0 = 3" "nbBit 0 0 = 4" "nbBit 1 0 = 5"
  "nbBit (- 1) 1 = 6" "nbBit 0 1 = 7" "nbBit 1 1 = 8"
  by (simp_all add: nbBit_def)

lemma nbBit_less: "(dx, dy) \<in> set nbOffsets \<Longrightarrow> nbBit dx dy < 9"
  by (auto simp: nbOffsets_def nbBit_values)

lemma nbBit_inject:
  assumes "(dx, dy) \<in> set nbOffsets" "(ex, ey) \<in> set nbOffsets" "nbBit dx dy = nbBit ex ey"
  shows "dx = ex \<and> dy = ey"
proof -
  have "- 1 \<le> dx" "dx \<le> 1" "- 1 \<le> dy" "- 1 \<le> ex" "ex \<le> 1" "- 1 \<le> ey"
    using assms(1,2) by (auto simp: nbOffsets_def)
  moreover from this have "(dy + 1) * 3 + (dx + 1) = (ey + 1) * 3 + (ex + 1)"
    using assms(3) by (simp add: nbBit_def eq_nat_nat_iff)
  ultimately show ?thesis by presburger
qed

lemma fold_packStep:
  assumes "set os \<subseteq> set nbOffsets"
  shows "bit (fold (packStep V P) os d) n \<longleftrightarrow> bit d n \<or> (\<exists>(dx, dy) \<in> set os.
    V dx dy \<and> (n = 9 + nbBit dx dy \<or> (n = nbBit dx dy \<and> P dx dy)))"
  using assms
proof (induction os arbitrary: d)
  case Nil
  then show ?case by simp
next
  case (Cons q os)
  obtain dx dy where c: "q = (dx, dy)" by (cases q)
  with Cons.prems have "nbBit dx dy < 9" by (auto intro: nbBit_less)
  then have "bit (packStep V P q d) n \<longleftrightarrow> bit d n \<or>
      (V dx dy \<and> (n = 9 + nbBit dx dy \<or> (n = nbBit dx dy \<and> P dx dy)))"
    by (auto simp: packStep_def c Let_def bit_or_iff bit_push_one simp del: push_bit_of_1)
  with Cons.IH [of "packStep V P q d"] Cons.prems show ?case by (auto simp: c)
qed

lemma packs_fold: "packs (fold (packStep V P) nbOffsets 0) V P"
  by (simp add: packs_def fold_packStep)

lemma packs_cong:
  assumes "packs d V P" "\<And>dx dy. (dx, dy) \<in> set nbOffsets \<Longrightarrow> V dx dy = V' dx dy"
    "\<And>dx dy. (dx, dy) \<in> set nbOffsets \<Longrightarrow> V' dx dy \<Longrightarrow> P dx dy = P' dx dy"
  shows "packs d V' P'"
proof -
  have "(\<exists>(dx, dy) \<in> set nbOffsets. V dx dy \<and> (n = 9 + nbBit dx dy \<or> (n = nbBit dx dy \<and> P dx dy)))
    \<longleftrightarrow> (\<exists>(dx, dy) \<in> set nbOffsets. V' dx dy \<and> (n = 9 + nbBit dx dy \<or> (n = nbBit dx dy \<and> P' dx dy)))"
    for n
    using assms(2,3) by (intro bex_cong refl) auto
  with assms(1) show ?thesis by (simp add: packs_def)
qed

lemma packs_unique: "packs d V P \<Longrightarrow> packs e V P \<Longrightarrow> d = e"
  by (simp add: packs_def bit_eq_iff)

lemma packs_bits:
  assumes "packs d V P" "(dx, dy) \<in> set nbOffsets"
  shows "bit d (nbBit dx dy) \<longleftrightarrow> V dx dy \<and> P dx dy" "bit d (9 + nbBit dx dy) \<longleftrightarrow> V dx dy"
proof -
  have e: "bit d n \<longleftrightarrow> (\<exists>(dx, dy) \<in> set nbOffsets.
      V dx dy \<and> (n = 9 + nbBit dx dy \<or> (n = nbBit dx dy \<and> P dx dy)))" for n
    using assms(1) unfolding packs_def by blast
  note less = nbBit_less nbBit_less [OF assms(2)] and inject = nbBit_inject [OF assms(2)]
  show "bit d (nbBit dx dy) \<longleftrightarrow> V dx dy \<and> P dx dy"
    unfolding e using less inject assms(2) by fastforce
  show "bit d (9 + nbBit dx dy) \<longleftrightarrow> V dx dy"
    unfolding e using less inject assms(2) by fastforce
qed


section \<open>The neighbourhood a bitmap extracts\<close>

text \<open>The neighbours of a cell: where they exist and which of them are set.\<close>

abbreviation nbExists :: "cell_bitmap \<Rightarrow> int \<Rightarrow> int \<Rightarrow> int \<Rightarrow> int \<Rightarrow> bool" where
  "nbExists b x y dx dy \<equiv> inGrid b (x + dx) (y + dy)"

abbreviation nbSet :: "cell_bitmap \<Rightarrow> int \<Rightarrow> int \<Rightarrow> int \<Rightarrow> int \<Rightarrow> bool" where
  "nbSet b x y dx dy \<equiv> cb_isSet b (x + dx) (y + dy)"

lemma slowStep_pack: "slowStep b x y = packStep (nbExists b x y) (nbSet b x y)"
  by (auto simp: fun_eq_iff slowStep_def packStep_def inGrid_def Let_def)

lemma slow_packs: "packs (fold (slowStep b x y) nbOffsets 0) (nbExists b x y) (nbSet b x y)"
  unfolding slowStep_pack by (rule packs_fold)

lemma bit_row: "bit (ucast (w AND 7 :: u64) :: u16) n \<longleftrightarrow> n < 3 \<and> bit w n"
proof -
  have "(w AND 7) = take_bit 3 w" by (simp add: take_bit_eq_mask mask_eq_exp_minus_1)
  then show ?thesis by (auto simp: bit_simps)
qed

lemma row_less: "bit (ucast (w AND 7 :: u64) :: u16) n \<Longrightarrow> n < 3"
  by (simp add: bit_row)

lemma join_rows:
  fixes r0 r1 r2 :: u16
  assumes "\<And>j. bit r0 j \<Longrightarrow> j < 3" "\<And>j. bit r1 j \<Longrightarrow> j < 3" "\<And>j. bit r2 j \<Longrightarrow> j < 3"
  shows "bit (scast (ucast r0 OR push_bit 3 (ucast r1) OR push_bit 6 (ucast r2) :: i32) :: u64) n
    \<longleftrightarrow> (n < 3 \<and> bit r0 n) \<or> (3 \<le> n \<and> n < 6 \<and> bit r1 (n - 3)) \<or> (6 \<le> n \<and> n < 9 \<and> bit r2 (n - 6))"
proof -
  have "\<not> bit r0 31" "\<not> bit r1 28" "\<not> bit r2 25" using assms by fastforce+
  moreover have "bit r0 n \<longleftrightarrow> n < 3 \<and> bit r0 n" "bit r1 (n - 3) \<longleftrightarrow> n < 6 \<and> bit r1 (n - 3)"
    "bit r2 (n - 6) \<longleftrightarrow> n < 9 \<and> bit r2 (n - 6)"
    using assms(1) [of n] assms(2) [of "n - 3"] assms(3) [of "n - 6"] by auto
  ultimately show ?thesis by (auto simp: bit_simps min_def)
qed

lemma third:
  "n < 3 \<Longrightarrow> n div 3 = 0 \<and> n mod 3 = (n :: nat)"
  "3 \<le> n \<Longrightarrow> n < 6 \<Longrightarrow> n div 3 = 1 \<and> n mod 3 = n - 3"
  "6 \<le> n \<Longrightarrow> n < 9 \<Longrightarrow> n div 3 = 2 \<and> n mod 3 = n - 6"
  by presburger+

text \<open>The bits of the word of the fast path, read off the block.\<close>

lemma fast_bits:
  assumes "1 \<le> lx" "lx \<le> 6" "1 \<le> ly" "ly \<le> 6"
  shows "bit (fastNeighborhood block lx ly) n \<longleftrightarrow>
    (n < 9 \<and> bit block (nat (8 * (ly - 1) + (lx - 1)) + 8 * (n div 3) + n mod 3)) \<or> (9 \<le> n \<and> n < 18)"
proof -
  let ?base = "nat (8 * (ly - 1) + (lx - 1))"
  let ?row = "\<lambda>i. ucast (drop_bit (?base + 8 * i) block AND 7) :: u16"
  have b: "push_bit 3 (ly - 1) OR (lx - 1) = 8 * (ly - 1) + (lx - 1)"
    using assms by (intro push3_or) auto
  have f: "fastNeighborhood block lx ly =
      (scast (ucast (?row 0) OR push_bit 3 (ucast (?row 1)) OR push_bit 6 (ucast (?row 2)) :: i32) :: u64)
        OR push_bit 9 0x1FF"
    unfolding fastNeighborhood_def b Let_def by simp
  have r: "bit (?row i) j \<longleftrightarrow> j < 3 \<and> bit block (?base + 8 * i + j)" for i j
    by (auto simp: bit_row bit_drop_bit_eq)
  have v: "bit (push_bit 9 0x1FF :: u64) n \<longleftrightarrow> 9 \<le> n \<and> n < 18"
  proof -
    have e: "(0x1FF :: u64) = mask 9" by (simp add: mask_eq_exp_minus_1)
    show ?thesis unfolding e bit_push_bit_iff bit_mask_iff by auto
  qed
  have w: "bit (scast (ucast (?row 0) OR push_bit 3 (ucast (?row 1)) OR push_bit 6 (ucast (?row 2)) :: i32) :: u64) n
     \<longleftrightarrow> n < 9 \<and> bit block (?base + 8 * (n div 3) + n mod 3)"
  proof -
    consider "n < 3" | "3 \<le> n" "n < 6" | "6 \<le> n" "n < 9" | "9 \<le> n" by linarith
    then have "(n < 3 \<and> bit (?row 0) n) \<or> (3 \<le> n \<and> n < 6 \<and> bit (?row 1) (n - 3))
        \<or> (6 \<le> n \<and> n < 9 \<and> bit (?row 2) (n - 6))
      \<longleftrightarrow> n < 9 \<and> bit block (?base + 8 * (n div 3) + n mod 3)"
      unfolding r by cases (auto simp: third)
    then show ?thesis using join_rows [of "?row 0" "?row 1" "?row 2" n] row_less by blast
  qed
  show ?thesis unfolding f bit_or_iff v w by blast
qed

text \<open>For a cell inside its block and inside the grid, these are the bits of the slow path.\<close>

lemma near_div_mod:
  assumes "1 \<le> x mod 8" "x mod 8 \<le> (6 :: int)" "- 1 \<le> dx" "dx \<le> 1"
  shows "(x + dx) div 8 = x div 8" "(x + dx) mod 8 = x mod 8 + dx"
proof -
  have e: "x + dx = x div 8 * 8 + (x mod 8 + dx)" by simp
  show "(x + dx) div 8 = x div 8" unfolding e using assms by (subst div_mult_self3) simp_all
  show "(x + dx) mod 8 = x mod 8 + dx" unfolding e using assms by (subst mod_mult_self3) simp_all
qed

lemma window_index:
  assumes "1 \<le> c" "1 \<le> a" "- 1 \<le> dx" "- 1 \<le> dy"
  shows "nat (8 * (a - 1) + (c - 1)) + 8 * nat (dy + 1) + nat (dx + 1) = nat (8 * (a + dy) + (c + dx))"
proof -
  have "8 * (a + dy) + (c + dx) = (8 * (a - 1) + (c - 1)) + 8 * (dy + 1) + (dx + 1)" by simp
  then show ?thesis using assms by (simp only: nat_add_distrib) (simp add: nat_add_distrib nat_mult_distrib)
qed

lemma interior_bit:
  assumes "1 \<le> x mod 8" "x mod 8 \<le> 6" "1 \<le> y mod 8" "y mod 8 \<le> (6 :: int)"
    and "- 1 \<le> dx" "dx \<le> 1" "- 1 \<le> dy" "dy \<le> 1"
  shows "cb_isSet b (x + dx) (y + dy) \<longleftrightarrow>
    bit (cb_getBlock b (drop_bit 3 x) (drop_bit 3 y)) (nat (8 * (y mod 8 + dy) + (x mod 8 + dx)))"
  unfolding isSet_bit blockIndex_eq bitIndex_eq cb_getBlock_def drop3
    near_div_mod [OF assms(1,2,5,6)] near_div_mod [OF assms(3,4,7,8)] ..

lemma fast_packs:
  assumes l: "1 \<le> x mod 8" "x mod 8 \<le> 6" "1 \<le> y mod 8" "y mod 8 \<le> 6"
    and g: "1 \<le> x" "x < cb_width b - 1" "1 \<le> y" "y < cb_height b - 1"
  shows "packs (fastNeighborhood (cb_getBlock b (drop_bit 3 x) (drop_bit 3 y)) (x mod 8) (y mod 8))
    (nbExists b x y) (nbSet b x y)"
  unfolding packs_def
proof
  fix n
  let ?d = "fastNeighborhood (cb_getBlock b (drop_bit 3 x) (drop_bit 3 y)) (x mod 8) (y mod 8)"
  let ?R = "\<exists>(dx, dy) \<in> set nbOffsets. nbExists b x y dx dy \<and>
      (n = 9 + nbBit dx dy \<or> (n = nbBit dx dy \<and> nbSet b x y dx dy))"
  have ex: "(dx, dy) \<in> set nbOffsets \<Longrightarrow> nbExists b x y dx dy" for dx dy
    using g by (auto simp: nbOffsets_def inGrid_def)
  have "?R \<longleftrightarrow> (\<exists>(dx, dy) \<in> set nbOffsets. n = 9 + nbBit dx dy \<or> (n = nbBit dx dy \<and> nbSet b x y dx dy))"
    using ex by blast
  also have "\<dots> \<longleftrightarrow> (9 \<le> n \<and> n < 18) \<or> (\<exists>(dx, dy) \<in> set nbOffsets. n = nbBit dx dy \<and> nbSet b x y dx dy)"
  proof -
    have "(\<exists>(dx, dy) \<in> set nbOffsets. n = 9 + nbBit dx dy) \<longleftrightarrow> 9 \<le> n \<and> n < 18"
      by (simp add: nbOffsets_def nbBit_values) presburger
    then show ?thesis by blast
  qed
  also have "(\<exists>(dx, dy) \<in> set nbOffsets. n = nbBit dx dy \<and> nbSet b x y dx dy) \<longleftrightarrow>
      n < 9 \<and> bit (cb_getBlock b (drop_bit 3 x) (drop_bit 3 y))
        (nat (8 * (y mod 8 - 1) + (x mod 8 - 1)) + 8 * (n div 3) + n mod 3)"
    (is "?A \<longleftrightarrow> n < 9 \<and> bit ?b (?k n)")
  proof -
    have k: "nbSet b x y dx dy \<longleftrightarrow> bit ?b (?k (nbBit dx dy))" if "(dx, dy) \<in> set nbOffsets" for dx dy
    proof -
      have r: "- 1 \<le> dx" "dx \<le> 1" "- 1 \<le> dy" "dy \<le> 1" using that by (auto simp: nbOffsets_def)
      have "nbBit dx dy div 3 = nat (dy + 1)" "nbBit dx dy mod 3 = nat (dx + 1)"
        using that by (auto simp: nbOffsets_def nbBit_values)
      then have "?k (nbBit dx dy) = nat (8 * (y mod 8 + dy) + (x mod 8 + dx))"
        using window_index [of "x mod 8" "y mod 8" dx dy] l r by simp
      then show ?thesis using interior_bit [OF l r] by simp
    qed
    have "n < 9 \<Longrightarrow> \<exists>(dx, dy) \<in> set nbOffsets. n = nbBit dx dy"
      by (simp add: nbOffsets_def nbBit_values) presburger
    then obtain ex ey where e: "n < 9 \<Longrightarrow> (ex, ey) \<in> set nbOffsets \<and> n = nbBit ex ey" by blast
    show ?thesis
    proof
      assume ?A then show "n < 9 \<and> bit ?b (?k n)" using k nbBit_less by auto
    next
      assume "n < 9 \<and> bit ?b (?k n)" then show ?A using e k [of ex ey] by blast
    qed
  qed
  finally show "bit ?d n \<longleftrightarrow> ?R"
    unfolding fast_bits [OF l] by blast
qed

lemma getNeighborhood_packs:
  "packs (cb_getNeighborhood b x y) (nbExists b x y) (nbSet b x y)"
  using fast_packs [of x y b] slow_packs [of b x y]
  by (simp add: cb_getNeighborhood_def and7 Let_def)

text \<open>
  C28: the fast path of the neighbourhood extraction, three shifts of one block word, returns the very
  word the slow path builds cell by cell.
\<close>

theorem fast_path_equals_slow_path:
  "cb_getNeighborhood b x y = fold (slowStep b x y) nbOffsets 0"
  using packs_unique [OF getNeighborhood_packs slow_packs] .


section \<open>What the typed views answer\<close>

lemma getAt_bit: "nb_getAt d dx dy \<longleftrightarrow> bit d (nbBit dx dy)"
  "nb_isValidAt d dx dy \<longleftrightarrow> bit d (9 + nbBit dx dy)"
  by (simp_all add: nb_getAt_def nb_isValidAt_def bit_iff_and_drop_bit_eq_1 and_one_eq odd_iff_mod_2_eq_one)

lemma and_1ff: "(w :: u64) AND 0x1FF = take_bit 9 w"
  by (simp add: take_bit_eq_mask mask_eq_exp_minus_1)

lemma bit_layers:
  "bit (nb_getValueLayer d) n \<longleftrightarrow> n < 9 \<and> bit d n"
  "bit (nb_getValidLayer d) n \<longleftrightarrow> n < 9 \<and> bit d (9 + n)"
  by (auto simp: nb_getValueLayer_def nb_getValidLayer_def and_1ff bit_simps)

lemma bit_not_center: "bit (w AND NOT (push_bit 4 1) :: u16) n \<longleftrightarrow> bit w n \<and> n \<noteq> 4"
  unfolding bit_and_iff bit_not_iff bit_push_bit_iff bit_1_iff
  using bit_imp_le_length [of w n] by auto

lemma bit_material_mask:
  "bit (en_getValidWithMaterialMask d) n \<longleftrightarrow> n < 9 \<and> bit d (9 + n) \<and> \<not> bit d n"
  unfolding en_getValidWithMaterialMask_def bit_and_iff bit_not_iff bit_layers by auto

lemma and_eq_iff: "v AND w = w \<longleftrightarrow> (\<forall>n. bit w n \<longrightarrow> bit (v :: u16) n)"
proof -
  have "v AND w = w \<longleftrightarrow> (\<forall>n. bit (v AND w) n \<longleftrightarrow> bit w n)" by (auto intro: bit_word_eqI)
  then show ?thesis by (auto simp: bit_and_iff)
qed

text \<open>The eight offsets around the center.\<close>

definition nbOthers :: "(int \<times> int) list" where
  "nbOthers = filter (\<lambda>p. p \<noteq> (0, 0)) nbOffsets"

lemma nbOthers_eq:
  "nbOthers = [(- 1, - 1), (0, - 1), (1, - 1), (- 1, 0), (1, 0), (- 1, 1), (0, 1), (1, 1)]"
  by (simp add: nbOthers_def nbOffsets_def)

definition nbCount :: "(int \<Rightarrow> int \<Rightarrow> bool) \<Rightarrow> nat" where
  "nbCount Q = length (filter (\<lambda>(dx, dy). Q dx dy) nbOthers)"

lemma length_filter_sum: "length (filter Q xs) = (\<Sum>x\<leftarrow>xs. of_bool (Q x))"
  by (induction xs) auto

lemma popcount_others:
  assumes "\<And>n. bit w n \<longleftrightarrow> (\<exists>(dx, dy) \<in> set nbOthers. n = nbBit dx dy \<and> Q dx dy)"
  shows "popcount w = nbCount Q"
proof -
  have "bit w 0 = Q (- 1) (- 1)" "bit w 1 = Q 0 (- 1)" "bit w 2 = Q 1 (- 1)" "bit w 3 = Q (- 1) 0"
    "bit w 4 = False" "bit w 5 = Q 1 0" "bit w 6 = Q (- 1) 1" "bit w 7 = Q 0 1" "bit w 8 = Q 1 1"
    "\<And>n. 9 \<le> n \<Longrightarrow> bit w n = False"
    unfolding assms nbOthers_eq by (simp_all add: nbBit_values)
  moreover have "[0..<16] = [0, 1, 2, 3, 4, 5, 6, 7, 8, 9, 10, 11, 12, 13, 14, 15 :: nat]"
    by (simp add: upt_rec)
  ultimately show ?thesis
    by (simp add: popcount_def nbCount_def length_filter_sum nbOthers_eq)
qed

lemma others_bits:
  assumes "packs d V P"
  shows "bit (nb_getValueLayer d AND NOT (push_bit 4 1)) n \<longleftrightarrow>
      (\<exists>(dx, dy) \<in> set nbOthers. n = nbBit dx dy \<and> V dx dy \<and> P dx dy)" (is ?A)
    and "bit (nb_getValidLayer d AND NOT (push_bit 4 1)) n \<longleftrightarrow>
      (\<exists>(dx, dy) \<in> set nbOthers. n = nbBit dx dy \<and> V dx dy)" (is ?B)
    and "bit (en_getMaterialNeighborsBitGrid d) n \<longleftrightarrow>
      (\<exists>(dx, dy) \<in> set nbOthers. n = nbBit dx dy \<and> V dx dy \<and> \<not> P dx dy)" (is ?C)
proof -
  have "?A \<and> ?B \<and> ?C"
  proof (cases "n < 9 \<and> n \<noteq> 4")
    case False
    then have "\<not> (\<exists>(dx, dy) \<in> set nbOthers. n = nbBit dx dy \<and> Q dx dy)" for Q
      by (auto simp: nbOthers_eq nbBit_values)
    with False show ?thesis
      unfolding en_getMaterialNeighborsBitGrid_def bit_not_center bit_layers bit_material_mask
      by blast
  next
    case True
    then have "\<exists>(dx, dy) \<in> set nbOthers. n = nbBit dx dy"
      by (simp add: nbOthers_eq nbBit_values) presburger
    then obtain ex ey where e: "(ex, ey) \<in> set nbOthers" "n = nbBit ex ey" by blast
    then have o: "(ex, ey) \<in> set nbOffsets" by (auto simp: nbOthers_def)
    have "(\<exists>(dx, dy) \<in> set nbOthers. n = nbBit dx dy \<and> Q dx dy) \<longleftrightarrow> Q ex ey" for Q
      using e nbBit_inject [OF o] by (auto simp: nbOthers_def)
    then show ?thesis
      unfolding en_getMaterialNeighborsBitGrid_def bit_not_center bit_layers bit_material_mask
      using True packs_bits [OF assms o] e(2) by auto
  qed
  then show ?A ?B ?C by auto
qed

text \<open>Every query of a typed view, in terms of the neighbours it is about.\<close>

lemma views_answer:
  assumes "packs d V P"
  shows "(dx, dy) \<in> set nbOffsets \<Longrightarrow> en_isEmpty d dx dy \<longleftrightarrow> V dx dy \<and> P dx dy"
    and "(dx, dy) \<in> set nbOffsets \<Longrightarrow> en_hasMaterial d dx dy \<longleftrightarrow> V dx dy \<and> \<not> P dx dy"
    and "(dx, dy) \<in> set nbOffsets \<Longrightarrow> en_exists d dx dy \<longleftrightarrow> V dx dy"
    and "en_countEmptyNeighbors d = nbCount (\<lambda>dx dy. V dx dy \<and> P dx dy)"
    and "en_countMaterialNeighbors d = nbCount (\<lambda>dx dy. V dx dy \<and> \<not> P dx dy)"
    and "en_countValidNeighbors d = nbCount V"
    and "en_allNeighborsEmpty d \<longleftrightarrow> (\<forall>(dx, dy) \<in> set nbOthers. V dx dy \<longrightarrow> P dx dy)"
    and "en_centerHasMaterial d \<longleftrightarrow> V 0 0 \<and> \<not> P 0 0"
proof -
  note bits = others_bits [OF assms]
  show "(dx, dy) \<in> set nbOffsets \<Longrightarrow> en_isEmpty d dx dy \<longleftrightarrow> V dx dy \<and> P dx dy"
    "(dx, dy) \<in> set nbOffsets \<Longrightarrow> en_hasMaterial d dx dy \<longleftrightarrow> V dx dy \<and> \<not> P dx dy"
    "(dx, dy) \<in> set nbOffsets \<Longrightarrow> en_exists d dx dy \<longleftrightarrow> V dx dy"
    using packs_bits [OF assms, of dx dy]
    by (auto simp: en_isEmpty_def en_hasMaterial_def en_exists_def getAt_bit)
  show "en_countEmptyNeighbors d = nbCount (\<lambda>dx dy. V dx dy \<and> P dx dy)"
    unfolding en_countEmptyNeighbors_def nb_countTrueNeighbors_def by (rule popcount_others) (rule bits(1))
  show "en_countMaterialNeighbors d = nbCount (\<lambda>dx dy. V dx dy \<and> \<not> P dx dy)"
    unfolding en_countMaterialNeighbors_def by (rule popcount_others) (rule bits(3))
  show "en_countValidNeighbors d = nbCount V"
    unfolding en_countValidNeighbors_def nb_countValidNeighbors_def by (rule popcount_others) (rule bits(2))
  have "en_allNeighborsEmpty d \<longleftrightarrow>
      (\<forall>n. bit (nb_getValidLayer d AND NOT (push_bit 4 1)) n \<longrightarrow>
           bit (nb_getValueLayer d AND NOT (push_bit 4 1)) n)"
    unfolding en_allNeighborsEmpty_def nb_allValidNeighborsTrue_def Let_def by (rule and_eq_iff)
  also have "\<dots> \<longleftrightarrow> (\<forall>(dx, dy) \<in> set nbOthers. V dx dy \<longrightarrow> P dx dy)"
  proof -
    have one: "(\<exists>(ex, ey) \<in> set nbOthers. nbBit dx dy = nbBit ex ey \<and> Q ex ey) \<longleftrightarrow> Q dx dy"
      if "(dx, dy) \<in> set nbOthers" for dx dy Q
      using that nbBit_inject [of dx dy] by (auto simp: nbOthers_def)
    show ?thesis
    proof
      assume all: "\<forall>n. bit (nb_getValidLayer d AND NOT (push_bit 4 1)) n \<longrightarrow>
        bit (nb_getValueLayer d AND NOT (push_bit 4 1)) n"
      have "P dx dy" if o: "(dx, dy) \<in> set nbOthers" and v: "V dx dy" for dx dy
        using spec [OF all, of "nbBit dx dy"] v unfolding bits one [OF o] by simp
      then show "\<forall>(dx, dy) \<in> set nbOthers. V dx dy \<longrightarrow> P dx dy" by blast
    qed (unfold bits, blast)
  qed
  finally show "en_allNeighborsEmpty d \<longleftrightarrow> (\<forall>(dx, dy) \<in> set nbOthers. V dx dy \<longrightarrow> P dx dy)" .
  have "en_centerHasMaterial d \<longleftrightarrow> bit (en_getValidWithMaterialMask d) 4"
    unfolding en_centerHasMaterial_def bit_iff_and_push_bit_not_eq_0 [of _ 4] ..
  then show "en_centerHasMaterial d \<longleftrightarrow> V 0 0 \<and> \<not> P 0 0"
    using packs_bits [OF assms, of 0 0]
    by (auto simp: bit_material_mask nbBit_values nbOffsets_def)
qed

end
