(* ===== verification/GridOfCells.thy ===== *)
theory GridOfCells
  imports Neighborhoods
begin

text \<open>
  The cache layer of the world grid, \<open>core/GridOfCells.{h,cpp}\<close>: two bitmaps and the packed
  neighbourhoods of every cell, built in one scan by the constructor or in three passes by
  \<open>rebuildSeparatePasses\<close>. The cells are the field \<open>g_cells\<close>, the value of the vector the source
  refers to at the time of the scan. The lemmas show that the two constructions agree and that the
  cache answers every query as the cells themselves do.
\<close>

unbundle bit_operations_syntax

section \<open>The cache\<close>

record grid_of_cells =
  g_cells :: "cell list"
  g_emptyCells :: cell_bitmap
  g_wallCells :: cell_bitmap
  g_emptyNb :: "u64 list"
  g_materialNb :: "u64 list"
  g_width :: int
  g_height :: int

text \<open>The order of the scan: for each \<open>y\<close>, every \<open>x\<close>.\<close>

definition gridCoords :: "int \<Rightarrow> int \<Rightarrow> (int \<times> int) list" where
  "gridCoords w h = concat (map (\<lambda>y. map (\<lambda>x. (x, y)) [0..w - 1]) [0..h - 1])"

definition cellIndex :: "int \<Rightarrow> int \<Rightarrow> int \<Rightarrow> nat" where
  "cellIndex w x y = nat (y * w + x)"

definition g_at :: "grid_of_cells \<Rightarrow> int \<Rightarrow> int \<Rightarrow> cell" where
  "g_at g x y = g_cells g ! cellIndex (g_width g) x y"

definition g_inside :: "grid_of_cells \<Rightarrow> int \<Rightarrow> int \<Rightarrow> bool" where
  "g_inside g x y = (x \<ge> 0 \<and> x < g_width g \<and> y \<ge> 0 \<and> y < g_height g)"

definition materialBits :: "material \<Rightarrow> u64" where
  "materialBits m = of_nat (material_value m) AND 0xF"

definition neighborStep ::
  "grid_of_cells \<Rightarrow> int \<Rightarrow> int \<Rightarrow> int \<times> int \<Rightarrow> u64 \<times> u64 \<Rightarrow> u64 \<times> u64" where
  "neighborStep g x y = (\<lambda>(dx, dy) (e, m).
     let pos = nbBit dx dy; nx = x + dx; ny = y + dy
     in if g_inside g nx ny
        then let neighbor = g_at g nx ny;
                 e1 = e OR push_bit (9 + pos) 1;
                 e2 = (if cell_isEmpty neighbor then e1 OR push_bit pos 1 else e1)
             in (e2, m OR push_bit (pos * 4) (materialBits (material_type neighbor)))
        else (e, m))"

definition populateCell :: "int \<times> int \<Rightarrow> grid_of_cells \<Rightarrow> grid_of_cells" where
  "populateCell = (\<lambda>(x, y) g.
     let idx = cellIndex (g_width g) x y;
         c = g_cells g ! idx;
         g1 = (if cell_isEmpty c then g\<lparr>g_emptyCells := cb_set x y (g_emptyCells g)\<rparr> else g);
         g2 = (if cell_isWall c then g1\<lparr>g_wallCells := cb_set x y (g_wallCells g1)\<rparr> else g1)
     in case fold (neighborStep g2 x y) nbOffsets (0, 0) of (e, m) \<Rightarrow>
        g2\<lparr>g_emptyNb := (g_emptyNb g2)[idx := e], g_materialNb := (g_materialNb g2)[idx := m]\<rparr>)"

definition populateAll :: "grid_of_cells \<Rightarrow> grid_of_cells" where
  "populateAll g = fold populateCell (gridCoords (g_width g) (g_height g)) g"

definition newGrid :: "cell list \<Rightarrow> int \<Rightarrow> int \<Rightarrow> grid_of_cells" where
  "newGrid cs w h =
     populateAll
       \<lparr>g_cells = cs, g_emptyCells = newBitmap w h, g_wallCells = newBitmap w h,
        g_emptyNb = replicate (nat (w * h)) 0, g_materialNb = replicate (nat (w * h)) 0,
        g_width = to_i16 w, g_height = to_i16 h\<rparr>"

text \<open>The three passes.\<close>

definition populateMaps :: "grid_of_cells \<Rightarrow> grid_of_cells" where
  "populateMaps g =
     fold (\<lambda>(x, y) g.
        let c = g_cells g ! cellIndex (g_width g) x y;
            g1 = (if cell_isEmpty c then g\<lparr>g_emptyCells := cb_set x y (g_emptyCells g)\<rparr> else g)
        in if cell_isWall c then g1\<lparr>g_wallCells := cb_set x y (g_wallCells g1)\<rparr> else g1)
      (gridCoords (g_width g) (g_height g)) g"

definition buildEmptyCellMap :: "grid_of_cells \<Rightarrow> grid_of_cells" where
  "buildEmptyCellMap g =
     fold (\<lambda>(x, y) g. if cell_isEmpty (g_cells g ! cellIndex (g_width g) x y)
                       then g\<lparr>g_emptyCells := cb_set x y (g_emptyCells g)\<rparr> else g)
      (gridCoords (g_width g) (g_height g)) g"

definition buildWallCellMap :: "grid_of_cells \<Rightarrow> grid_of_cells" where
  "buildWallCellMap g =
     fold (\<lambda>(x, y) g. if cell_isWall (g_cells g ! cellIndex (g_width g) x y)
                       then g\<lparr>g_wallCells := cb_set x y (g_wallCells g)\<rparr> else g)
      (gridCoords (g_width g) (g_height g)) g"

definition precomputeEmptyNeighborhoods :: "grid_of_cells \<Rightarrow> grid_of_cells" where
  "precomputeEmptyNeighborhoods g =
     fold (\<lambda>(x, y) g. g\<lparr>g_emptyNb := (g_emptyNb g)
             [cellIndex (g_width g) x y := cb_getNeighborhood (g_emptyCells g) x y]\<rparr>)
       (gridCoords (g_width g) (g_height g)) g"

definition packMaterial :: "grid_of_cells \<Rightarrow> int \<Rightarrow> int \<Rightarrow> int \<times> int \<Rightarrow> u64 \<Rightarrow> u64" where
  "packMaterial g x y = (\<lambda>(dx, dy) packed.
     let nx = x + dx; ny = y + dy;
         mat = (if g_inside g nx ny then material_type (g_at g nx ny) else Mat_Air)
     in packed OR push_bit (nbBit dx dy * 4) (materialBits mat))"

definition precomputeMaterialNeighborhoods :: "grid_of_cells \<Rightarrow> grid_of_cells" where
  "precomputeMaterialNeighborhoods g =
     fold (\<lambda>(x, y) g. g\<lparr>g_materialNb := (g_materialNb g)
             [cellIndex (g_width g) x y := fold (packMaterial g x y) nbOffsets 0]\<rparr>)
       (gridCoords (g_width g) (g_height g)) g"

definition rebuildSeparatePasses :: "grid_of_cells \<Rightarrow> grid_of_cells" where
  "rebuildSeparatePasses g =
     precomputeMaterialNeighborhoods (precomputeEmptyNeighborhoods (populateMaps
       (g\<lparr>g_emptyCells := newBitmap (g_width g) (g_height g),
          g_wallCells := newBitmap (g_width g) (g_height g),
          g_emptyNb := map (\<lambda>_. 0) (g_emptyNb g),
          g_materialNb := map (\<lambda>_. 0) (g_materialNb g)\<rparr>)))"

definition getEmptyNeighborhood :: "grid_of_cells \<Rightarrow> int \<Rightarrow> int \<Rightarrow> u64" where
  "getEmptyNeighborhood g x y = g_emptyNb g ! cellIndex (g_width g) x y"

definition getMaterialNeighborhood :: "grid_of_cells \<Rightarrow> int \<Rightarrow> int \<Rightarrow> u64" where
  "getMaterialNeighborhood g x y = g_materialNb g ! cellIndex (g_width g) x y"

section \<open>The scan\<close>

lemma set_gridCoords: "(x, y) \<in> set (gridCoords w h) \<longleftrightarrow> 0 \<le> x \<and> x < w \<and> 0 \<le> y \<and> y < h"
  by (auto simp: gridCoords_def image_iff intro: bexI [of _ y])

lemma cellIndex_less:
  assumes "0 \<le> x" "x < w" "0 \<le> y" "y < h"
  shows "cellIndex w x y < nat (w * h)"
  using block_bound [OF assms] by (simp add: cellIndex_def nat_less_eq_zless)

lemma cellIndex_inject:
  assumes "0 \<le> x" "x < w" "0 \<le> y" "0 \<le> x'" "x' < w" "0 \<le> y'" "cellIndex w x y = cellIndex w x' y'"
  shows "x = x' \<and> y = y'"
proof -
  have "y * w + x = y' * w + x'" using assms by (simp add: cellIndex_def eq_nat_nat_iff)
  from mixed_radix [OF this] assms show ?thesis by simp
qed

lemma cellIndex_onto:
  assumes "i < nat (w * h)" "0 \<le> w"
  obtains x y where "0 \<le> x" "x < w" "0 \<le> y" "y < h" "i = cellIndex w x y"
proof -
  have i: "int i < w * h" using assms by linarith
  then have w: "0 < w" using assms(2) by (cases "w = 0") auto
  have "int i = int i div w * w + int i mod w" by simp
  moreover have "int i div w < h"
  proof -
    have "int i div w * w \<le> int i" using w by (metis div_mult_mod_eq le_add_same_cancel1 pos_mod_sign)
    with i have "int i div w * w < h * w" by (simp add: mult.commute)
    then show ?thesis using w by simp
  qed
  ultimately show thesis
    using w by (intro that [of "int i mod w" "int i div w"])
      (simp_all add: cellIndex_def pos_imp_zdiv_nonneg_iff)
qed


text \<open>
  A scan that writes one entry per cell, as a function of the cell's coordinates, fills the list.
\<close>

abbreviation writeAll :: "int \<Rightarrow> (int \<Rightarrow> int \<Rightarrow> 'a) \<Rightarrow> (int \<times> int) list \<Rightarrow> 'a list \<Rightarrow> 'a list" where
  "writeAll w f cs l \<equiv> fold (\<lambda>(x, y) l. l[cellIndex w x y := f x y]) cs l"

lemma length_writeAll [simp]: "length (writeAll w f cs l) = length l"
  by (induction cs arbitrary: l) auto

lemma nth_writeAll:
  assumes "set cs \<subseteq> set (gridCoords w h)" "(x, y) \<in> set (gridCoords w h)"
    and "length l = nat (w * h)" "(x, y) \<in> set cs \<or> l ! cellIndex w x y = f x y"
  shows "writeAll w f cs l ! cellIndex w x y = f x y"
  using assms
proof (induction cs arbitrary: l)
  case Nil
  then show ?case by simp
next
  case (Cons c cs)
  obtain x' y' where c: "c = (x', y')" by (cases c)
  have g: "(x', y') \<in> set (gridCoords w h)" using Cons.prems(1) c by simp
  then have "cellIndex w x' y' < length l"
    using Cons.prems(3) cellIndex_less by (simp add: set_gridCoords)
  moreover have "cellIndex w x y = cellIndex w x' y' \<Longrightarrow> x = x' \<and> y = y'"
    using cellIndex_inject g Cons.prems(2) by (auto simp: set_gridCoords)
  ultimately have "(x, y) \<in> set cs \<or> l[cellIndex w x' y' := f x' y'] ! cellIndex w x y = f x y"
    using Cons.prems(4) c by (cases "cellIndex w x y = cellIndex w x' y'") auto
  with Cons.IH [of "l[cellIndex w x' y' := f x' y']"] Cons.prems c show ?case by simp
qed

lemma writeAll_grid:
  assumes "(x, y) \<in> set (gridCoords w h)" "length l = nat (w * h)"
  shows "writeAll w f (gridCoords w h) l ! cellIndex w x y = f x y"
  using nth_writeAll [OF subset_refl assms(1,2)] assms(1) by blast

lemma writeAll_eq:
  assumes "0 \<le> w" "length l = nat (w * h)" "length l' = nat (w * h)"
    and "\<And>x y. (x, y) \<in> set (gridCoords w h) \<Longrightarrow> f x y = f' x y"
  shows "writeAll w f (gridCoords w h) l = writeAll w f' (gridCoords w h) l'"
proof (rule nth_equalityI)
  fix i assume "i < length (writeAll w f (gridCoords w h) l)"
  then have "i < nat (w * h)" using assms(2) by simp
  then obtain x y where xy: "(x, y) \<in> set (gridCoords w h)" "i = cellIndex w x y"
    using cellIndex_onto [OF _ assms(1)] by (metis set_gridCoords)
  show "writeAll w f (gridCoords w h) l ! i = writeAll w f' (gridCoords w h) l' ! i"
    unfolding xy(2) writeAll_grid [OF xy(1) assms(2)] writeAll_grid [OF xy(1) assms(3)]
    by (rule assms(4) [OF xy(1)])
qed (use assms in simp)

text \<open>The two components of the inner loop, separately.\<close>

abbreviation cellEmpty :: "grid_of_cells \<Rightarrow> int \<Rightarrow> int \<Rightarrow> bool" where
  "cellEmpty g x y \<equiv> cell_isEmpty (g_at g x y)"

definition matNibble :: "grid_of_cells \<Rightarrow> int \<Rightarrow> int \<Rightarrow> u64" where
  "matNibble g x y = materialBits (if g_inside g x y then material_type (g_at g x y) else Mat_Air)"

lemma materialBits_Air [simp]: "materialBits Mat_Air = 0"
  by (simp add: materialBits_def)

lemma neighborStep_split:
  "neighborStep g x y p (e, m) =
     (packStep (\<lambda>dx dy. g_inside g (x + dx) (y + dy)) (\<lambda>dx dy. cellEmpty g (x + dx) (y + dy)) p e,
      packMaterial g x y p m)"
  by (cases p) (auto simp: neighborStep_def packStep_def packMaterial_def Let_def)

lemma neighbor_fold:
  "fold (neighborStep g x y) os (e, m) =
     (fold (packStep (\<lambda>dx dy. g_inside g (x + dx) (y + dy)) (\<lambda>dx dy. cellEmpty g (x + dx) (y + dy))) os e,
      fold (packMaterial g x y) os m)"
  by (induction os arbitrary: e m) (simp_all add: neighborStep_split)

abbreviation emptyWord :: "grid_of_cells \<Rightarrow> int \<Rightarrow> int \<Rightarrow> u64" where
  "emptyWord g x y \<equiv> fold (packStep (\<lambda>dx dy. g_inside g (x + dx) (y + dy))
      (\<lambda>dx dy. cellEmpty g (x + dx) (y + dy))) nbOffsets 0"

abbreviation materialWord :: "grid_of_cells \<Rightarrow> int \<Rightarrow> int \<Rightarrow> u64" where
  "materialWord g x y \<equiv> fold (packMaterial g x y) nbOffsets 0"

text \<open>The words depend on the cells and the dimensions only.\<close>

definition sameCells :: "grid_of_cells \<Rightarrow> grid_of_cells \<Rightarrow> bool" where
  "sameCells g g' = (g_cells g = g_cells g' \<and> g_width g = g_width g' \<and> g_height g = g_height g')"

lemma sameCells_at:
  assumes "sameCells g g'"
  shows "g_at g = g_at g'" "g_inside g = g_inside g'"
  using assms by (auto simp: sameCells_def g_at_def g_inside_def fun_eq_iff)

lemma sameCells_words:
  assumes "sameCells g g'"
  shows "emptyWord g x y = emptyWord g' x y" "materialWord g x y = materialWord g' x y"
  unfolding packMaterial_def sameCells_at [OF assms] by (rule refl)+


abbreviation cellWall :: "grid_of_cells \<Rightarrow> int \<Rightarrow> int \<Rightarrow> bool" where
  "cellWall g x y \<equiv> cell_isWall (g_at g x y)"

lemma populateCell_eq:
  "populateCell (x, y) g = g
     \<lparr>g_emptyCells := if cellEmpty g x y then cb_set x y (g_emptyCells g) else g_emptyCells g,
      g_wallCells := if cellWall g x y then cb_set x y (g_wallCells g) else g_wallCells g,
      g_emptyNb := (g_emptyNb g)[cellIndex (g_width g) x y := emptyWord g x y],
      g_materialNb := (g_materialNb g)[cellIndex (g_width g) x y := materialWord g x y]\<rparr>"
proof -
  have w: "emptyWord (g\<lparr>g_emptyCells := a, g_wallCells := b\<rparr>) x y = emptyWord g x y"
    "materialWord (g\<lparr>g_emptyCells := a, g_wallCells := b\<rparr>) x y = materialWord g x y"
    "emptyWord (g\<lparr>g_emptyCells := a\<rparr>) x y = emptyWord g x y"
    "materialWord (g\<lparr>g_emptyCells := a\<rparr>) x y = materialWord g x y"
    "emptyWord (g\<lparr>g_wallCells := b\<rparr>) x y = emptyWord g x y"
    "materialWord (g\<lparr>g_wallCells := b\<rparr>) x y = materialWord g x y" for a b
    by (rule sameCells_words; simp add: sameCells_def)+
  show ?thesis
    unfolding populateCell_def Let_def neighbor_fold
    by (simp add: w g_at_def [symmetric])
qed

lemma populate_fold:
  "fold populateCell cs g = g
     \<lparr>g_emptyCells := bitmap.fill (cellEmpty g) cs (g_emptyCells g),
      g_wallCells := bitmap.fill (cellWall g) cs (g_wallCells g),
      g_emptyNb := writeAll (g_width g) (emptyWord g) cs (g_emptyNb g),
      g_materialNb := writeAll (g_width g) (materialWord g) cs (g_materialNb g)\<rparr>"
proof (induction cs arbitrary: g)
  case Nil
  then show ?case by simp
next
  case (Cons c cs)
  obtain x y where c: "c = (x, y)" by (cases c)
  let ?g = "populateCell (x, y) g"
  have same: "sameCells ?g g" by (simp add: populateCell_eq sameCells_def)
  have "fold populateCell (c # cs) g = fold populateCell cs ?g" by (simp add: c)
  also have "\<dots> = ?g
     \<lparr>g_emptyCells := bitmap.fill (cellEmpty g) cs (g_emptyCells ?g),
      g_wallCells := bitmap.fill (cellWall g) cs (g_wallCells ?g),
      g_emptyNb := writeAll (g_width g) (emptyWord g) cs (g_emptyNb ?g),
      g_materialNb := writeAll (g_width g) (materialWord g) cs (g_materialNb ?g)\<rparr>"
    unfolding Cons.IH sameCells_words [OF same] sameCells_at [OF same]
    using same by (simp add: sameCells_def)
  finally show ?case by (simp add: c populateCell_eq)
qed

lemma populateMaps_fold:
  "fold (\<lambda>(x, y) g.
        let c = g_cells g ! cellIndex (g_width g) x y;
            g1 = (if cell_isEmpty c then g\<lparr>g_emptyCells := cb_set x y (g_emptyCells g)\<rparr> else g)
        in if cell_isWall c then g1\<lparr>g_wallCells := cb_set x y (g_wallCells g1)\<rparr> else g1) cs g
   = g\<lparr>g_emptyCells := bitmap.fill (cellEmpty g) cs (g_emptyCells g),
       g_wallCells := bitmap.fill (cellWall g) cs (g_wallCells g)\<rparr>"
  by (induction cs arbitrary: g) (auto simp: Let_def g_at_def)

lemma emptyPass_fold:
  "fold (\<lambda>(x, y) g. g\<lparr>g_emptyNb := (g_emptyNb g)
             [cellIndex (g_width g) x y := cb_getNeighborhood (g_emptyCells g) x y]\<rparr>) cs g
   = g\<lparr>g_emptyNb := writeAll (g_width g) (cb_getNeighborhood (g_emptyCells g)) cs (g_emptyNb g)\<rparr>"
  by (induction cs arbitrary: g) auto

lemma materialPass_fold:
  "fold (\<lambda>(x, y) g. g\<lparr>g_materialNb := (g_materialNb g)
             [cellIndex (g_width g) x y := materialWord g x y]\<rparr>) cs g
   = g\<lparr>g_materialNb := writeAll (g_width g) (materialWord g) cs (g_materialNb g)\<rparr>"
proof (induction cs arbitrary: g)
  case Nil
  then show ?case by simp
next
  case (Cons c cs)
  have "materialWord (g\<lparr>g_materialNb := l\<rparr>) x y = materialWord g x y" for l x y
    by (rule sameCells_words) (simp add: sameCells_def)
  with Cons.IH show ?case by (cases c) simp
qed


section \<open>The two constructions agree\<close>

definition grid_input :: "cell list \<Rightarrow> int \<Rightarrow> int \<Rightarrow> bool" where
  "grid_input cs w h = (dims_ok w h \<and> length cs = nat (w * h))"

definition bareGrid :: "cell list \<Rightarrow> int \<Rightarrow> int \<Rightarrow> grid_of_cells" where
  "bareGrid cs w h =
     \<lparr>g_cells = cs, g_emptyCells = newBitmap w h, g_wallCells = newBitmap w h,
      g_emptyNb = replicate (nat (w * h)) 0, g_materialNb = replicate (nat (w * h)) 0,
      g_width = w, g_height = h\<rparr>"

lemma bareGrid_dims [simp]: "g_width (bareGrid cs w h) = w" "g_height (bareGrid cs w h) = h"
  "g_cells (bareGrid cs w h) = cs" "g_emptyCells (bareGrid cs w h) = newBitmap w h"
  "g_wallCells (bareGrid cs w h) = newBitmap w h"
  "g_emptyNb (bareGrid cs w h) = replicate (nat (w * h)) 0"
  "g_materialNb (bareGrid cs w h) = replicate (nat (w * h)) 0"
  by (simp_all add: bareGrid_def)

lemma inGrid_fill: "inGrid (bitmap.fill P cs b) = inGrid b"
  by (induction cs arbitrary: b) auto

lemma filled_bitmap:
  assumes "dims_ok w h"
  shows "inGrid (bitmap.fill P (gridCoords w h) (newBitmap w h)) x y \<longleftrightarrow> (x, y) \<in> set (gridCoords w h)"
    and "(x, y) \<in> set (gridCoords w h) \<Longrightarrow>
      cb_isSet (bitmap.fill P (gridCoords w h) (newBitmap w h)) x y \<longleftrightarrow> P x y"
proof -
  note new = newBitmap_ok [OF assms]
  show g: "inGrid (bitmap.fill P (gridCoords w h) (newBitmap w h)) x y \<longleftrightarrow> (x, y) \<in> set (gridCoords w h)"
    for x y
    by (simp add: inGrid_fill new set_gridCoords)
  have p: "(x, y) \<in> set (gridCoords w h) \<Longrightarrow> padded (newBitmap w h) x y" for x y
    using inGrid_padded [OF new(1)] by (simp add: new set_gridCoords)
  then show "(x, y) \<in> set (gridCoords w h) \<Longrightarrow>
      cb_isSet (bitmap.fill P (gridCoords w h) (newBitmap w h)) x y \<longleftrightarrow> P x y"
    using bitmap.isSet_fill [OF new(1), of "gridCoords w h" x y P] newBitmap_clear [OF assms] by auto
qed

lemma newGrid_eq:
  assumes "grid_input cs w h"
  shows "newGrid cs w h = (bareGrid cs w h)
     \<lparr>g_emptyCells := bitmap.fill (cellEmpty (bareGrid cs w h)) (gridCoords w h) (newBitmap w h),
      g_wallCells := bitmap.fill (cellWall (bareGrid cs w h)) (gridCoords w h) (newBitmap w h),
      g_emptyNb := writeAll w (emptyWord (bareGrid cs w h)) (gridCoords w h) (replicate (nat (w * h)) 0),
      g_materialNb := writeAll w (materialWord (bareGrid cs w h)) (gridCoords w h) (replicate (nat (w * h)) 0)\<rparr>"
proof -
  have "newGrid cs w h = populateAll (bareGrid cs w h)"
    using assms by (simp add: newGrid_def bareGrid_def grid_input_def dims_ok_def)
  then show ?thesis unfolding populateAll_def populate_fold by (simp add: bareGrid_def)
qed

lemma bitmap_word:
  assumes "grid_input cs w h" "(x, y) \<in> set (gridCoords w h)"
  shows "cb_getNeighborhood (bitmap.fill (cellEmpty (bareGrid cs w h)) (gridCoords w h) (newBitmap w h)) x y
    = emptyWord (bareGrid cs w h) x y"
proof (rule packs_unique)
  have d: "dims_ok w h" using assms by (simp add: grid_input_def)
  let ?g = "bareGrid cs w h"
  show "packs (emptyWord ?g x y)
      (\<lambda>dx dy. g_inside ?g (x + dx) (y + dy)) (\<lambda>dx dy. cellEmpty ?g (x + dx) (y + dy))"
    by (rule packs_fold)
  show "packs (cb_getNeighborhood (bitmap.fill (cellEmpty ?g) (gridCoords w h) (newBitmap w h)) x y)
      (\<lambda>dx dy. g_inside ?g (x + dx) (y + dy)) (\<lambda>dx dy. cellEmpty ?g (x + dx) (y + dy))"
  proof (rule packs_cong [OF getNeighborhood_packs])
    fix dx dy
    show "inGrid (bitmap.fill (cellEmpty ?g) (gridCoords w h) (newBitmap w h)) (x + dx) (y + dy)
        = g_inside ?g (x + dx) (y + dy)"
      by (auto simp: filled_bitmap [OF d] set_gridCoords g_inside_def)
    assume "g_inside ?g (x + dx) (y + dy)"
    then show "cb_isSet (bitmap.fill (cellEmpty ?g) (gridCoords w h) (newBitmap w h)) (x + dx) (y + dy)
        = cellEmpty ?g (x + dx) (y + dy)"
      by (intro filled_bitmap(2) [OF d]) (simp add: set_gridCoords g_inside_def)
  qed
qed

text \<open>
  Rebuilding the caches in three passes, through the bitmap and its fast path, gives exactly the
  caches that the single scan of the constructor built from the cells.
\<close>

theorem separate_passes_agree:
  assumes "grid_input cs w h"
  shows "rebuildSeparatePasses (newGrid cs w h) = newGrid cs w h"
proof -
  let ?g = "bareGrid cs w h" and ?c = "gridCoords w h" and ?z = "replicate (nat (w * h)) (0 :: u64)"
  let ?E = "bitmap.fill (cellEmpty ?g) ?c (newBitmap w h)"
  let ?W = "bitmap.fill (cellWall ?g) ?c (newBitmap w h)"
  have w: "0 \<le> w" using assms by (simp add: grid_input_def dims_ok_def)
  have zeros: "map (\<lambda>_. 0) (writeAll w f ?c ?z) = ?z" for f
    by (simp add: map_replicate_const)
  have reset: "(newGrid cs w h)\<lparr>g_emptyCells := newBitmap (g_width (newGrid cs w h)) (g_height (newGrid cs w h)),
      g_wallCells := newBitmap (g_width (newGrid cs w h)) (g_height (newGrid cs w h)),
      g_emptyNb := map (\<lambda>_. 0) (g_emptyNb (newGrid cs w h)),
      g_materialNb := map (\<lambda>_. 0) (g_materialNb (newGrid cs w h))\<rparr> = ?g"
    unfolding newGrid_eq [OF assms] by (simp add: zeros)
  have same: "materialWord (?g\<lparr>g_emptyCells := a, g_wallCells := b, g_emptyNb := c\<rparr>) x y = materialWord ?g x y"
    for a b c x y
    by (rule sameCells_words) (simp add: sameCells_def)
  have "rebuildSeparatePasses (newGrid cs w h) = ?g
     \<lparr>g_emptyCells := ?E, g_wallCells := ?W, g_emptyNb := writeAll w (cb_getNeighborhood ?E) ?c ?z,
      g_materialNb := writeAll w (materialWord ?g) ?c ?z\<rparr>"
    unfolding rebuildSeparatePasses_def reset populateMaps_def precomputeEmptyNeighborhoods_def
      precomputeMaterialNeighborhoods_def populateMaps_fold emptyPass_fold materialPass_fold
    by (simp add: same)
  moreover have "writeAll w (cb_getNeighborhood ?E) ?c ?z = writeAll w (emptyWord ?g) ?c ?z"
    by (rule writeAll_eq [OF w]) (simp_all add: bitmap_word [OF assms])
  ultimately show ?thesis unfolding newGrid_eq [OF assms] by simp
qed

theorem separate_passes_agree_witness:
  "rebuildSeparatePasses (newGrid [addDirt 1 new_cell, new_cell] 2 1)
     = newGrid [addDirt 1 new_cell, new_cell] 2 1"
  by (rule separate_passes_agree) (simp add: grid_input_def dims_ok_def)


section \<open>The cache answers as the cells do\<close>

lemma materialBits_value: "unat (materialBits m) = material_value m" "bit (materialBits m) n \<Longrightarrow> n < 4"
proof -
  have "(0xF :: u64) = mask 4" by (simp add: mask_eq_exp_minus_1)
  then have t: "materialBits m = take_bit 4 (of_nat (material_value m))"
    by (simp add: materialBits_def take_bit_eq_mask)
  show "unat (materialBits m) = material_value m"
    by (cases m) (simp_all add: materialBits_def)
  show "bit (materialBits m) n \<Longrightarrow> n < 4" unfolding t by (simp add: bit_take_bit_iff)
qed

lemma fold_materialBits:
  "bit (fold (packMaterial g x y) os d) n \<longleftrightarrow> bit d n \<or> (n < 64 \<and> (\<exists>(dx, dy) \<in> set os.
     nbBit dx dy * 4 \<le> n \<and> bit (matNibble g (x + dx) (y + dy)) (n - nbBit dx dy * 4)))"
proof (induction os arbitrary: d)
  case Nil
  then show ?case by simp
next
  case (Cons p os)
  obtain dx dy where p: "p = (dx, dy)" by (cases p)
  have "bit (packMaterial g x y p d) n \<longleftrightarrow> bit d n \<or> (n < 64 \<and> nbBit dx dy * 4 \<le> n
      \<and> bit (matNibble g (x + dx) (y + dy)) (n - nbBit dx dy * 4))"
    unfolding p packMaterial_def prod.case Let_def matNibble_def bit_or_iff bit_push_bit_iff by auto
  with Cons.IH [of "packMaterial g x y p d"] show ?case unfolding p by auto
qed

text \<open>The nibble at an offset is the material there.\<close>

lemma material_nibble:
  assumes "(dx, dy) \<in> set nbOffsets"
  shows "drop_bit (nbBit dx dy * 4) (materialWord g x y) AND 0xF = matNibble g (x + dx) (y + dy)"
proof (rule bit_word_eqI)
  fix n assume "n < LENGTH(64)"
  have m: "(0xF :: u64) = mask 4" by (simp add: mask_eq_exp_minus_1)
  have "bit (drop_bit (nbBit dx dy * 4) (materialWord g x y) AND 0xF) n
      \<longleftrightarrow> n < 4 \<and> bit (materialWord g x y) (nbBit dx dy * 4 + n)"
    unfolding m by (auto simp: bit_and_iff bit_mask_iff bit_drop_bit_eq)
  also have "\<dots> \<longleftrightarrow> n < 4 \<and> bit (matNibble g (x + dx) (y + dy)) n" (is "n < 4 \<and> ?L \<longleftrightarrow> n < 4 \<and> ?R")
  proof -
    have "?L \<longleftrightarrow> ?R" if n: "n < 4"
    proof -
      have k: "nbBit dx dy * 4 + n < 64" using nbBit_less [OF assms] n by simp
      have one: "nbBit ex ey = nbBit dx dy"
        if "nbBit ex ey * 4 \<le> nbBit dx dy * 4 + n"
          "bit (matNibble g a b) (nbBit dx dy * 4 + n - nbBit ex ey * 4)" for ex ey a b
        using that materialBits_value(2) n unfolding matNibble_def by fastforce
      show ?thesis
      proof
        assume ?L
        then obtain ex ey where e: "(ex, ey) \<in> set nbOffsets" "nbBit ex ey * 4 \<le> nbBit dx dy * 4 + n"
          "bit (matNibble g (x + ex) (y + ey)) (nbBit dx dy * 4 + n - nbBit ex ey * 4)"
          unfolding fold_materialBits by auto
        have "ex = dx \<and> ey = dy" using nbBit_inject [OF e(1) assms one [OF e(2,3)]] .
        with e(3) show ?R by simp
      next
        assume ?R
        then show ?L unfolding fold_materialBits using assms k by force
      qed
    qed
    then show ?thesis by blast
  qed
  also have "\<dots> \<longleftrightarrow> bit (matNibble g (x + dx) (y + dy)) n"
    using materialBits_value(2) by (auto simp: matNibble_def)
  finally show "bit (drop_bit (nbBit dx dy * 4) (materialWord g x y) AND 0xF) n
      = bit (matNibble g (x + dx) (y + dy)) n" .
qed

text \<open>The material at a coordinate, with \<open>Air\<close> beyond the edge.\<close>

definition materialAt :: "grid_of_cells \<Rightarrow> int \<Rightarrow> int \<Rightarrow> material" where
  "materialAt g x y = (if g_inside g x y then material_type (g_at g x y) else Mat_Air)"

lemma getMaterial_word:
  assumes "(dx, dy) \<in> set nbOffsets"
  shows "mn_getMaterial (materialWord g x y) dx dy = material_value (materialAt g (x + dx) (y + dy))"
  unfolding mn_getMaterial_def mn_getMaterialByBitPos_def material_nibble [OF assms]
  by (simp add: matNibble_def materialAt_def materialBits_value)

lemma countMaterial_word:
  "mn_countMaterial (materialWord g x y) (material_value m)
     = nbCount (\<lambda>dx dy. materialAt g (x + dx) (y + dy) = m)"
proof -
  let ?d = "materialWord g x y"
  let ?Q = "\<lambda>dx dy. materialAt g (x + dx) (y + dy) = m"
  have n: "unat (drop_bit (nbBit dx dy * 4) ?d AND 0xF) = material_value m \<longleftrightarrow> ?Q dx dy"
    if "(dx, dy) \<in> set nbOffsets" for dx dy
    using getMaterial_word [OF that, of g x y]
    by (simp add: mn_getMaterial_def mn_getMaterialByBitPos_def material_value_inject)
  have f: "fold (\<lambda>i k. if P i then k else if R i then k + 1 else k) is k
      = k + length (filter (\<lambda>i. \<not> P i \<and> R i) is)" for P R "is" and k :: nat
    by (induction "is" arbitrary: k) auto
  have "[0..<9] = [0, 1, 2, 3, 4, 5, 6, 7, 8 :: nat]" by (simp add: upt_rec)
  then have i: "filter (\<lambda>i. i \<noteq> 4) [0..<9] = map (\<lambda>(dx, dy). nbBit dx dy) nbOthers"
    by (simp add: nbOthers_eq nbBit_values)
  have "mn_countMaterial ?d (material_value m)
      = length (filter (\<lambda>i. unat (drop_bit (i * 4) ?d AND 0xF) = material_value m)
          (filter (\<lambda>i. i \<noteq> 4) [0..<9]))"
    unfolding mn_countMaterial_def f by (simp add: conj_commute)
  also have "\<dots> = length (filter (\<lambda>(dx, dy). ?Q dx dy) nbOthers)"
    unfolding i filter_map length_map o_def
  proof (rule arg_cong [where f = length], rule filter_cong [OF refl])
    fix p assume "p \<in> set nbOthers"
    then show "(unat (drop_bit ((case p of (dx, dy) \<Rightarrow> nbBit dx dy) * 4) ?d AND 0xF) = material_value m)
        = (case p of (dx, dy) \<Rightarrow> ?Q dx dy)"
      using n [of "fst p" "snd p"] by (simp add: split_beta nbOthers_def)
  qed
  finally show ?thesis by (simp add: nbCount_def)
qed

lemma newGrid_fields:
  assumes "grid_input cs w h"
  shows "g_at (newGrid cs w h) = g_at (bareGrid cs w h)"
    "g_inside (newGrid cs w h) = g_inside (bareGrid cs w h)"
    "materialAt (newGrid cs w h) = materialAt (bareGrid cs w h)"
    "g_width (newGrid cs w h) = w" "g_height (newGrid cs w h) = h"
proof -
  have same: "sameCells (newGrid cs w h) (bareGrid cs w h)"
    unfolding newGrid_eq [OF assms] by (simp add: sameCells_def)
  from sameCells_at [OF same] show "g_at (newGrid cs w h) = g_at (bareGrid cs w h)"
    "g_inside (newGrid cs w h) = g_inside (bareGrid cs w h)"
    "materialAt (newGrid cs w h) = materialAt (bareGrid cs w h)"
    by (simp_all add: materialAt_def fun_eq_iff)
  from same show "g_width (newGrid cs w h) = w" "g_height (newGrid cs w h) = h"
    by (simp_all add: sameCells_def)
qed

lemma newGrid_words:
  assumes "grid_input cs w h" "g_inside (newGrid cs w h) x y"
  shows "getEmptyNeighborhood (newGrid cs w h) x y = emptyWord (newGrid cs w h) x y"
    "getMaterialNeighborhood (newGrid cs w h) x y = materialWord (newGrid cs w h) x y"
proof -
  have i: "(x, y) \<in> set (gridCoords w h)"
    using assms(2) newGrid_fields [OF assms(1)] by (simp add: g_inside_def set_gridCoords)
  have same: "sameCells (newGrid cs w h) (bareGrid cs w h)"
    unfolding newGrid_eq [OF assms(1)] by (simp add: sameCells_def)
  note words = sameCells_words [OF same]
  show "getEmptyNeighborhood (newGrid cs w h) x y = emptyWord (newGrid cs w h) x y"
    "getMaterialNeighborhood (newGrid cs w h) x y = materialWord (newGrid cs w h) x y"
    unfolding words getEmptyNeighborhood_def getMaterialNeighborhood_def
    unfolding newGrid_eq [OF assms(1)]
    using writeAll_grid [OF i, where l = "replicate (nat (w * h)) 0"] by simp_all
qed



end
