(* ===== verification/RegionActivity.thy ===== *)
theory RegionActivity
  imports GridOfCells
begin

text \<open>
  The tracker that puts quiet 8 by 8 regions of the world to sleep:
  \<open>core/WorldRegionActivityTracker.{h,cpp}\<close> and \<open>RegionDebugInfo.h\<close>. The world enters as the record
  of what the tracker reads of it; flags kept as \<open>uint8_t\<close> are booleans and floats are reals. The
  grid argument is the cache of \<open>GridOfCells\<close>.
\<close>

section \<open>State\<close>

datatype region_state = Awake | LoadedQuiet | Sleeping

datatype wake_reason =
  Wake_None | Wake_ExternalMutation | Wake_Move | Wake_BlockedTransfer
| Wake_NeighborTopologyChanged | Wake_GravityChanged | Wake_WaterInterface

record region_debug_info =
  rd_state :: u8
  rd_wake_reason :: u8

record region_meta =
  rm_state :: region_state
  rm_quiet_frames :: u16
  rm_last_wake_reason :: wake_reason
  rm_last_wake_step :: u32

definition new_meta :: region_meta where
  "new_meta = \<lparr>rm_state = Awake, rm_quiet_frames = 0, rm_last_wake_reason = Wake_None,
               rm_last_wake_step = 0\<rparr>"

record region_summary =
  rs_max_velocity :: real
  rs_max_live_pressure_delta :: real
  rs_max_static_load_delta :: real
  rs_has_empty_adjacency :: bool
  rs_has_water_adjacency :: bool
  rs_has_mixed_material :: bool
  rs_has_organism :: bool
  rs_touched :: bool

definition new_summary :: region_summary where
  "new_summary = \<lparr>rs_max_velocity = 0, rs_max_live_pressure_delta = 0,
     rs_max_static_load_delta = 0, rs_has_empty_adjacency = False, rs_has_water_adjacency = False,
     rs_has_mixed_material = False, rs_has_organism = False, rs_touched = False\<rparr>"

record tracker_config =
  tc_quiet_frames_to_sleep :: u16
  tc_live_pressure_delta_epsilon :: real
  tc_static_load_delta_epsilon :: real
  tc_velocity_epsilon :: real
  tc_keep_empty_adjacent_awake :: bool
  tc_keep_mixed_material_awake :: bool
  tc_keep_organism_regions_awake :: bool
  tc_keep_water_adjacent_awake :: bool

definition default_config :: tracker_config where
  "default_config = \<lparr>tc_quiet_frames_to_sleep = 12, tc_live_pressure_delta_epsilon = 2 / 100,
     tc_static_load_delta_epsilon = 2 / 100, tc_velocity_epsilon = 1 / 100,
     tc_keep_empty_adjacent_awake = True, tc_keep_mixed_material_awake = True,
     tc_keep_organism_regions_awake = True, tc_keep_water_adjacent_awake = True\<rparr>"

record tracker =
  tk_config :: tracker_config
  tk_world_width :: int
  tk_world_height :: int
  tk_blocks_x :: int
  tk_blocks_y :: int
  tk_previous_gravity :: real
  tk_gravity_initialized :: bool
  tk_previous_pressure :: "real list"
  tk_previous_load :: "real list"
  tk_meta :: "region_meta list"
  tk_summary :: "region_summary list"
  tk_cell_active :: "bool list"
  tk_region_active :: "bool list"
  tk_touched :: "bool list"
  tk_wake_requested :: "bool list"
  tk_pending_reason :: "wake_reason list"

text \<open>What the tracker reads of the world.\<close>

record water_view =
  wat_width :: int
  wat_height :: int
  wat_volume :: "real list"

record world_view =
  wv_cells :: "cell list"
  wv_width :: int
  wv_height :: int
  wv_gravity :: real
  wv_organisms :: "nat list"
  wv_water :: "water_view option"

definition INVALID_ORGANISM_ID :: nat where "INVALID_ORGANISM_ID = 0"
definition REGION_SIZE :: int where "REGION_SIZE = 8"
definition MIN_GRAVITY_DELTA :: real where "MIN_GRAVITY_DELTA = 1 / 1000"

section \<open>Helpers\<close>

fun isActiveState :: "region_state \<Rightarrow> bool" where
  "isActiveState Awake = True"
| "isActiveState LoadedQuiet = True"
| "isActiveState Sleeping = False"

definition isWaterCell :: "cell \<Rightarrow> bool" where
  "isWaterCell c = (\<not> cell_isEmpty c \<and> material_type c = Mat_Water)"

definition hasWaterVolumeAt :: "water_view \<Rightarrow> int \<Rightarrow> int \<Rightarrow> bool" where
  "hasWaterVolumeAt v x y =
     (if x < 0 \<or> y < 0 \<or> x \<ge> wat_width v \<or> y \<ge> wat_height v then False
      else let idx = nat y * nat (wat_width v) + nat x
           in if idx \<ge> length (wat_volume v) then False else wat_volume v ! idx > 1 / 10000)"

definition hasWaterVolumeAdjacency :: "water_view \<Rightarrow> int \<Rightarrow> int \<Rightarrow> bool" where
  "hasWaterVolumeAdjacency v x y = list_ex (\<lambda>(dx, dy). hasWaterVolumeAt v (x + dx) (y + dy)) nbOffsets"

definition shouldForceAwake :: "region_summary \<Rightarrow> tracker_config \<Rightarrow> bool" where
  "shouldForceAwake s c =
     (if rs_touched s then True
      else if rs_max_velocity s > tc_velocity_epsilon c then True
      else if rs_max_live_pressure_delta s > tc_live_pressure_delta_epsilon c then True
      else if rs_max_static_load_delta s > tc_static_load_delta_epsilon c then True
      else if tc_keep_empty_adjacent_awake c \<and> rs_has_empty_adjacency s then True
      else if tc_keep_mixed_material_awake c \<and> rs_has_mixed_material s then True
      else if tc_keep_organism_regions_awake c \<and> rs_has_organism s then True
      else if tc_keep_water_adjacent_awake c \<and> rs_has_water_adjacency s then True
      else False)"

definition saturatingIncrement :: "u16 \<Rightarrow> u16" where
  "saturatingIncrement v = (if v = 65535 then v else v + 1)"

definition regionIndex :: "tracker \<Rightarrow> int \<Rightarrow> int \<Rightarrow> nat" where
  "regionIndex t bx by = nat (by * tk_blocks_x t + bx)"

definition cellToRegionIndex :: "tracker \<Rightarrow> int \<Rightarrow> int \<Rightarrow> nat" where
  "cellToRegionIndex t x y = regionIndex t (x div REGION_SIZE) (y div REGION_SIZE)"

section \<open>Operations\<close>

definition tk_reset :: "tracker \<Rightarrow> tracker" where
  "tk_reset t =
     (let cells = nat (max (tk_world_width t) 0) * nat (max (tk_world_height t) 0);
          regions = nat (max (tk_blocks_x t) 0) * nat (max (tk_blocks_y t) 0)
      in t\<lparr>tk_previous_pressure := replicate cells 0, tk_previous_load := replicate cells 0,
           tk_meta := replicate regions new_meta, tk_summary := replicate regions new_summary,
           tk_cell_active := replicate cells True, tk_region_active := replicate regions True,
           tk_touched := replicate regions False, tk_wake_requested := replicate regions False,
           tk_pending_reason := replicate regions Wake_None,
           tk_previous_gravity := 0, tk_gravity_initialized := False\<rparr>)"

definition tk_resize :: "int \<Rightarrow> int \<Rightarrow> int \<Rightarrow> int \<Rightarrow> tracker \<Rightarrow> tracker" where
  "tk_resize w h bx by t =
     tk_reset (t\<lparr>tk_world_width := w, tk_world_height := h, tk_blocks_x := bx, tk_blocks_y := by\<rparr>)"

definition tk_setConfig :: "tracker_config \<Rightarrow> tracker \<Rightarrow> tracker" where
  "tk_setConfig c t = t\<lparr>tk_config := c\<rparr>"

definition newTracker :: tracker where
  "newTracker = \<lparr>tk_config = default_config, tk_world_width = 0, tk_world_height = 0,
     tk_blocks_x = 0, tk_blocks_y = 0, tk_previous_gravity = 0, tk_gravity_initialized = False,
     tk_previous_pressure = [], tk_previous_load = [], tk_meta = [], tk_summary = [],
     tk_cell_active = [], tk_region_active = [], tk_touched = [], tk_wake_requested = [],
     tk_pending_reason = []\<rparr>"

definition noteWakeAtRegion :: "int \<Rightarrow> int \<Rightarrow> wake_reason \<Rightarrow> tracker \<Rightarrow> tracker" where
  "noteWakeAtRegion bx by reason t =
     (if bx < 0 \<or> by < 0 \<or> bx \<ge> tk_blocks_x t \<or> by \<ge> tk_blocks_y t then t
      else let i = regionIndex t bx by
           in t\<lparr>tk_touched := (tk_touched t)[i := True],
                tk_wake_requested := (tk_wake_requested t)[i := True],
                tk_pending_reason := (if tk_pending_reason t ! i = Wake_None
                                      then (tk_pending_reason t)[i := reason]
                                      else tk_pending_reason t)\<rparr>)"

definition noteWakeAtCell :: "int \<Rightarrow> int \<Rightarrow> wake_reason \<Rightarrow> tracker \<Rightarrow> tracker" where
  "noteWakeAtCell x y reason t =
     (if x < 0 \<or> y < 0 \<or> x \<ge> tk_world_width t \<or> y \<ge> tk_world_height t then t
      else noteWakeAtRegion (x div REGION_SIZE) (y div REGION_SIZE) reason t)"

definition noteBlockedTransfer :: "int \<Rightarrow> int \<Rightarrow> tracker \<Rightarrow> tracker" where
  "noteBlockedTransfer x y t = noteWakeAtCell x y Wake_BlockedTransfer t"

definition noteMaterialMove :: "int \<Rightarrow> int \<Rightarrow> int \<Rightarrow> int \<Rightarrow> tracker \<Rightarrow> tracker" where
  "noteMaterialMove fx fy tx ty t = noteWakeAtCell tx ty Wake_Move (noteWakeAtCell fx fy Wake_Move t)"

text \<open>The loop body of \<open>applyWakeRequests\<close>, for one region.\<close>

definition wakeRegion :: "u32 \<Rightarrow> nat \<Rightarrow> tracker \<Rightarrow> tracker" where
  "wakeRegion timestep i t =
     (if \<not> tk_wake_requested t ! i then t
      else t\<lparr>tk_meta := (tk_meta t)[i := \<lparr>rm_state = Awake, rm_quiet_frames = 0,
                rm_last_wake_reason = tk_pending_reason t ! i, rm_last_wake_step = timestep\<rparr>],
             tk_wake_requested := (tk_wake_requested t)[i := False],
             tk_pending_reason := (tk_pending_reason t)[i := Wake_None]\<rparr>)"

definition applyWakeRequests :: "u32 \<Rightarrow> tracker \<Rightarrow> tracker" where
  "applyWakeRequests timestep t = fold (wakeRegion timestep) [0..<length (tk_meta t)] t"

definition haloCoords :: "tracker \<Rightarrow> int \<Rightarrow> int \<Rightarrow> (int \<times> int) list" where
  "haloCoords t bx by =
     concat (map (\<lambda>hy. map (\<lambda>hx. (hx, hy)) [max 0 (bx - 1)..min (tk_blocks_x t - 1) (bx + 1)])
       [max 0 (by - 1)..min (tk_blocks_y t - 1) (by + 1)])"

definition markHalo :: "tracker \<Rightarrow> int \<times> int \<Rightarrow> bool list \<Rightarrow> bool list" where
  "markHalo t = (\<lambda>(bx, by) active.
     if \<not> isActiveState (rm_state (tk_meta t ! regionIndex t bx by)) then active
     else fold (\<lambda>(hx, hy) active. active[regionIndex t hx hy := True]) (haloCoords t bx by) active)"

definition buildActiveMasks :: "tracker \<Rightarrow> tracker" where
  "buildActiveMasks t =
     (let regions = fold (markHalo t) (gridCoords (tk_blocks_x t) (tk_blocks_y t))
                      (map (\<lambda>_. False) (tk_region_active t));
          cells = fold (\<lambda>(x, y) cells.
                      cells[cellIndex (tk_world_width t) x y := regions ! cellToRegionIndex t x y])
                    (gridCoords (tk_world_width t) (tk_world_height t))
                    (map (\<lambda>_. False) (tk_cell_active t))
      in t\<lparr>tk_region_active := regions, tk_cell_active := cells\<rparr>)"

definition fitGrid :: "grid_of_cells \<Rightarrow> tracker \<Rightarrow> tracker" where
  "fitGrid g t =
     (if tk_world_width t \<noteq> g_width g \<or> tk_world_height t \<noteq> g_height g
         \<or> tk_blocks_x t \<noteq> cb_blocksX (g_emptyCells g) \<or> tk_blocks_y t \<noteq> cb_blocksY (g_emptyCells g)
      then tk_resize (g_width g) (g_height g) (cb_blocksX (g_emptyCells g)) (cb_blocksY (g_emptyCells g)) t
      else t)"

definition noteGravity :: "real \<Rightarrow> tracker \<Rightarrow> tracker" where
  "noteGravity gravity t =
     (if \<not> tk_gravity_initialized t
      then t\<lparr>tk_previous_gravity := gravity, tk_gravity_initialized := True\<rparr>
      else if \<bar>tk_previous_gravity t - gravity\<bar> > MIN_GRAVITY_DELTA
      then (fold (\<lambda>(bx, by). noteWakeAtRegion bx by Wake_GravityChanged)
              (gridCoords (tk_blocks_x t) (tk_blocks_y t)) t)\<lparr>tk_previous_gravity := gravity\<rparr>
      else t)"

definition beginFrame :: "world_view \<Rightarrow> grid_of_cells \<Rightarrow> u32 \<Rightarrow> tracker \<Rightarrow> tracker" where
  "beginFrame world g timestep t =
     buildActiveMasks (applyWakeRequests timestep (noteGravity (wv_gravity world) (fitGrid g t)))"

text \<open>The body of the cell loop of \<open>summarizeFrame\<close>: the summary of the cell's region, and the
  region's primary material (\<open>-1\<close> while none was seen).\<close>

definition summarizeCell ::
  "world_view \<Rightarrow> grid_of_cells \<Rightarrow> tracker \<Rightarrow> int \<Rightarrow> int \<Rightarrow> region_summary \<times> int \<Rightarrow> region_summary \<times> int" where
  "summarizeCell world g t x y = (\<lambda>(s, primary).
     let ci = nat y * nat (wv_width world) + nat x;
         c = wv_cells world ! ci;
         s1 = s\<lparr>rs_max_velocity := max (rs_max_velocity s) (vec_mag (velocity c)),
                rs_max_live_pressure_delta := max (rs_max_live_pressure_delta s)
                   \<bar>pressure c - tk_previous_pressure t ! ci\<bar>,
                rs_max_static_load_delta := max (rs_max_static_load_delta s)
                   \<bar>static_load c - tk_previous_load t ! ci\<bar>\<rparr>;
         s2 = (if ci < length (wv_organisms world) \<and> wv_organisms world ! ci \<noteq> INVALID_ORGANISM_ID
               then s1\<lparr>rs_has_organism := True\<rparr> else s1);
         s3 = (case wv_water world of
                 Some v \<Rightarrow> if wat_width v = wv_width world \<and> wat_height v = wv_height world
                             \<and> hasWaterVolumeAdjacency v x y
                           then s2\<lparr>rs_has_water_adjacency := True\<rparr> else s2
               | None \<Rightarrow> s2)
     in if cell_isEmpty c then (s3, primary)
        else
          let s4 = (if en_countEmptyNeighbors (getEmptyNeighborhood g x y) > 0
                    then s3\<lparr>rs_has_empty_adjacency := True\<rparr> else s3);
              s5 = (if rs_has_water_adjacency s4 \<or> isWaterCell c
                       \<or> mn_countMaterial (getMaterialNeighborhood g x y) (material_value Mat_Water) > 0
                    then s4\<lparr>rs_has_water_adjacency := True\<rparr> else s4)
          in if cell_isWall c then (s5, primary)
             else let value = int (material_value (material_type c))
                  in if primary < 0 then (s5, value)
                     else if primary \<noteq> value then (s5\<lparr>rs_has_mixed_material := True\<rparr>, primary)
                     else (s5, primary))"

definition summaryStep ::
  "world_view \<Rightarrow> grid_of_cells \<Rightarrow> tracker \<Rightarrow> int \<times> int
     \<Rightarrow> region_summary list \<times> int list \<Rightarrow> region_summary list \<times> int list" where
  "summaryStep world g t = (\<lambda>(x, y) (summaries, primaries).
     let i = cellToRegionIndex t x y
     in case summarizeCell world g t x y (summaries ! i, primaries ! i) of (s, p) \<Rightarrow>
        (summaries[i := s], primaries[i := p]))"

definition settleRegion :: "tracker_config \<Rightarrow> region_summary \<Rightarrow> region_meta \<Rightarrow> region_meta" where
  "settleRegion config summary meta =
     (if shouldForceAwake summary config
      then meta\<lparr>rm_quiet_frames := 0, rm_state := Awake\<rparr>
      else let quiet = saturatingIncrement (rm_quiet_frames meta)
           in meta\<lparr>rm_quiet_frames := quiet,
                   rm_state := (if quiet \<ge> tc_quiet_frames_to_sleep config
                                then Sleeping else LoadedQuiet)\<rparr>)"

definition snapshotPreviousFields :: "world_view \<Rightarrow> tracker \<Rightarrow> tracker" where
  "snapshotPreviousFields world t =
     t\<lparr>tk_previous_pressure := map pressure (wv_cells world),
       tk_previous_load := map static_load (wv_cells world)\<rparr>"

definition summarizeFrame :: "world_view \<Rightarrow> grid_of_cells \<Rightarrow> tracker \<Rightarrow> tracker" where
  "summarizeFrame world g t0 =
     (let t = fitGrid g t0;
          initial = map (\<lambda>touched. new_summary\<lparr>rs_touched := touched\<rparr>) (tk_touched t);
          summaries = fst (fold (summaryStep world g t)
             (gridCoords (wv_width world) (wv_height world))
             (initial, replicate (length (tk_meta t)) (- 1)))
      in (snapshotPreviousFields world
            (t\<lparr>tk_summary := summaries,
               tk_meta := map2 (settleRegion (tk_config t)) summaries (tk_meta t)\<rparr>))
         \<lparr>tk_touched := map (\<lambda>_. False) (tk_touched t)\<rparr>)"

definition isCellActive :: "tracker \<Rightarrow> int \<Rightarrow> int \<Rightarrow> bool" where
  "isCellActive t x y =
     (if x < 0 \<or> y < 0 \<or> x \<ge> tk_world_width t \<or> y \<ge> tk_world_height t then False
      else if tk_cell_active t = [] then True
      else let i = nat y * nat (tk_world_width t) + nat x
           in i < length (tk_cell_active t) \<and> tk_cell_active t ! i)"

definition isRegionActive :: "tracker \<Rightarrow> int \<Rightarrow> int \<Rightarrow> bool" where
  "isRegionActive t bx by =
     (if bx < 0 \<or> by < 0 \<or> bx \<ge> tk_blocks_x t \<or> by \<ge> tk_blocks_y t then False
      else if tk_region_active t = [] then True
      else tk_region_active t ! regionIndex t bx by)"

definition getRegionMeta :: "tracker \<Rightarrow> int \<Rightarrow> int \<Rightarrow> region_meta" where
  "getRegionMeta t bx by =
     (if bx < 0 \<or> by < 0 \<or> bx \<ge> tk_blocks_x t \<or> by \<ge> tk_blocks_y t then new_meta
      else tk_meta t ! regionIndex t bx by)"

definition getRegionState :: "tracker \<Rightarrow> int \<Rightarrow> int \<Rightarrow> region_state" where
  "getRegionState t bx by = rm_state (getRegionMeta t bx by)"

definition getLastWakeReason :: "tracker \<Rightarrow> int \<Rightarrow> int \<Rightarrow> wake_reason" where
  "getLastWakeReason t bx by = rm_last_wake_reason (getRegionMeta t bx by)"

definition getRegionSummary :: "tracker \<Rightarrow> int \<Rightarrow> int \<Rightarrow> region_summary" where
  "getRegionSummary t bx by =
     (if bx < 0 \<or> by < 0 \<or> bx \<ge> tk_blocks_x t \<or> by \<ge> tk_blocks_y t then new_summary
      else tk_summary t ! regionIndex t bx by)"

fun region_state_value :: "region_state \<Rightarrow> u8" where
  "region_state_value Awake = 0"
| "region_state_value LoadedQuiet = 1"
| "region_state_value Sleeping = 2"

fun wake_reason_value :: "wake_reason \<Rightarrow> u8" where
  "wake_reason_value Wake_None = 0"
| "wake_reason_value Wake_ExternalMutation = 1"
| "wake_reason_value Wake_Move = 2"
| "wake_reason_value Wake_BlockedTransfer = 3"
| "wake_reason_value Wake_NeighborTopologyChanged = 4"
| "wake_reason_value Wake_GravityChanged = 5"
| "wake_reason_value Wake_WaterInterface = 6"

definition populateDebugInfo :: "tracker \<Rightarrow> region_debug_info list" where
  "populateDebugInfo t =
     map (\<lambda>m. \<lparr>rd_state = region_state_value (rm_state m),
                rd_wake_reason = wake_reason_value (rm_last_wake_reason m)\<rparr>) (tk_meta t)"

end
