(* ===== verification/RegionProperties.thy ===== *)
theory RegionProperties
  imports RegionActivity
begin

text \<open>
  What the region tracker guarantees: its lists keep their sizes, the active masks are the halo of
  the awake regions, a wake request reaches every cell nearby in the next frame, and a region goes
  to sleep only when its cells are quiet, after the configured number of frames.
\<close>

section \<open>The invariant\<close>

definition region_count :: "tracker \<Rightarrow> nat" where
  "region_count t = nat (tk_blocks_x t * tk_blocks_y t)"

definition cell_count :: "tracker \<Rightarrow> nat" where
  "cell_count t = nat (tk_world_width t * tk_world_height t)"

definition tracker_ok :: "tracker \<Rightarrow> bool" where
  "tracker_ok t =
     (0 \<le> tk_world_width t \<and> 0 \<le> tk_world_height t \<and>
      tk_blocks_x t = (tk_world_width t + 7) div 8 \<and> tk_blocks_y t = (tk_world_height t + 7) div 8 \<and>
      length (tk_meta t) = region_count t \<and> length (tk_summary t) = region_count t \<and>
      length (tk_region_active t) = region_count t \<and> length (tk_touched t) = region_count t \<and>
      length (tk_wake_requested t) = region_count t \<and> length (tk_pending_reason t) = region_count t \<and>
      length (tk_cell_active t) = cell_count t)"

definition in_world :: "tracker \<Rightarrow> int \<Rightarrow> int \<Rightarrow> bool" where
  "in_world t x y = (0 \<le> x \<and> x < tk_world_width t \<and> 0 \<le> y \<and> y < tk_world_height t)"

definition in_blocks :: "tracker \<Rightarrow> int \<Rightarrow> int \<Rightarrow> bool" where
  "in_blocks t bx by' = (0 \<le> bx \<and> bx < tk_blocks_x t \<and> 0 \<le> by' \<and> by' < tk_blocks_y t)"

text \<open>The part of the tracker that operations within a frame leave alone.\<close>

definition same_dims :: "tracker \<Rightarrow> tracker \<Rightarrow> bool" where
  "same_dims t t' =
     (tk_world_width t = tk_world_width t' \<and> tk_world_height t = tk_world_height t' \<and>
      tk_blocks_x t = tk_blocks_x t' \<and> tk_blocks_y t = tk_blocks_y t' \<and>
      length (tk_meta t) = length (tk_meta t') \<and> length (tk_summary t) = length (tk_summary t') \<and>
      length (tk_region_active t) = length (tk_region_active t') \<and>
      length (tk_touched t) = length (tk_touched t') \<and>
      length (tk_wake_requested t) = length (tk_wake_requested t') \<and>
      length (tk_pending_reason t) = length (tk_pending_reason t') \<and>
      length (tk_cell_active t) = length (tk_cell_active t'))"

lemma same_dims_refl [simp]: "same_dims t t"
  by (simp add: same_dims_def)

lemma same_dims_trans: "same_dims a b \<Longrightarrow> same_dims b c \<Longrightarrow> same_dims a c"
  by (simp add: same_dims_def)

lemma same_dims_ok: "same_dims t t' \<Longrightarrow> tracker_ok t = tracker_ok t'"
  by (simp add: same_dims_def tracker_ok_def region_count_def cell_count_def)

lemma same_dims_coords:
  assumes "same_dims t t'"
  shows "regionIndex t = regionIndex t'" "in_blocks t = in_blocks t'" "in_world t = in_world t'"
    "cellToRegionIndex t = cellToRegionIndex t'" "haloCoords t = haloCoords t'"
  using assms
  by (auto simp: same_dims_def fun_eq_iff regionIndex_def in_blocks_def in_world_def
      cellToRegionIndex_def haloCoords_def)

lemma regionIndex_less: "tracker_ok t \<Longrightarrow> in_blocks t bx by' \<Longrightarrow> regionIndex t bx by' < region_count t"
  using cellIndex_less [of bx "tk_blocks_x t" by' "tk_blocks_y t"]
  by (simp add: in_blocks_def regionIndex_def region_count_def cellIndex_def)

lemma regionIndex_inject:
  "in_blocks t bx by' \<Longrightarrow> in_blocks t bx' by'' \<Longrightarrow> regionIndex t bx by' = regionIndex t bx' by'' \<Longrightarrow>
   bx = bx' \<and> by' = by''"
  using cellIndex_inject [of bx "tk_blocks_x t" by' bx' by'']
  by (simp add: in_blocks_def regionIndex_def cellIndex_def)

lemma world_blocks: "tracker_ok t \<Longrightarrow> in_world t x y \<Longrightarrow> in_blocks t (x div 8) (y div 8)"
  unfolding tracker_ok_def in_world_def in_blocks_def
  using round_up [of x "tk_world_width t"] round_up [of y "tk_world_height t"] by auto

lemma noteWakeAtRegion_dims: "same_dims (noteWakeAtRegion bx by' r t) t"
  by (simp add: noteWakeAtRegion_def same_dims_def Let_def)

lemma noteWakeAtCell_dims: "same_dims (noteWakeAtCell x y r t) t"
  using noteWakeAtRegion_dims by (simp add: noteWakeAtCell_def)

lemma noteMaterialMove_dims: "same_dims (noteMaterialMove fx fy tx ty t) t"
  unfolding noteMaterialMove_def using noteWakeAtCell_dims same_dims_trans by blast

lemma wakeRegion_dims: "same_dims (wakeRegion ts i t) t"
  by (simp add: wakeRegion_def same_dims_def)

lemma fold_dims: "(\<And>p t. same_dims (f p t) t) \<Longrightarrow> same_dims (fold f ps t) t"
  by (induction ps arbitrary: t) (auto intro: same_dims_trans)

lemma applyWakeRequests_dims: "same_dims (applyWakeRequests ts t) t"
  unfolding applyWakeRequests_def by (rule fold_dims) (rule wakeRegion_dims)

lemma noteGravity_dims: "same_dims (noteGravity gr t) t"
proof -
  have "same_dims (fold (\<lambda>(bx, by'). noteWakeAtRegion bx by' Wake_GravityChanged) ps t) t" for ps
    by (rule fold_dims) (auto simp: noteWakeAtRegion_dims)
  then show ?thesis by (auto simp: noteGravity_def same_dims_def)
qed

lemma length_markHalo [simp]: "length (markHalo t p l) = length l"
proof -
  have "length (fold (\<lambda>(hx, hy) active. active[regionIndex t hx hy := True]) ps l) = length l" for ps
    by (induction ps arbitrary: l) auto
  then show ?thesis by (cases p) (simp add: markHalo_def)
qed

lemma length_markHalos [simp]: "length (fold (markHalo t) ps l) = length l"
  by (induction ps arbitrary: l) auto

lemma buildActiveMasks_dims: "same_dims (buildActiveMasks t) t"
  by (simp add: buildActiveMasks_def same_dims_def Let_def)

lemma length_summaryStep:
  "length (fst (fold (summaryStep world g t) ps (a, b))) = length a \<and>
   length (snd (fold (summaryStep world g t) ps (a, b))) = length b"
proof (induction ps arbitrary: a b)
  case Nil
  then show ?case by simp
next
  case (Cons p ps)
  obtain x y where p: "p = (x, y)" by (cases p)
  obtain s q where e: "summarizeCell world g t x y (a ! cellToRegionIndex t x y, b ! cellToRegionIndex t x y) = (s, q)"
    by (cases "summarizeCell world g t x y (a ! cellToRegionIndex t x y, b ! cellToRegionIndex t x y)")
  show ?case
    using Cons.IH [of "a[cellToRegionIndex t x y := s]" "b[cellToRegionIndex t x y := q]"]
    by (simp add: p summaryStep_def Let_def e)
qed

lemma tk_resize_ok:
  assumes "0 \<le> w" "0 \<le> h"
  shows "tracker_ok (tk_resize w h ((w + 7) div 8) ((h + 7) div 8) t)"
  using assms
  by (simp add: tk_resize_def tk_reset_def tracker_ok_def region_count_def cell_count_def Let_def
      nat_mult_distrib max_def)

text \<open>The grid a frame is given is the cache of a world of its size.\<close>

definition frame_grid :: "cell list \<Rightarrow> int \<Rightarrow> int \<Rightarrow> world_view \<Rightarrow> bool" where
  "frame_grid cs w h world =
     (grid_input cs w h \<and> wv_cells world = cs \<and> wv_width world = w \<and> wv_height world = h)"

lemma newGrid_blocks:
  assumes "grid_input cs w h"
  shows "cb_blocksX (g_emptyCells (newGrid cs w h)) = (w + 7) div 8"
    "cb_blocksY (g_emptyCells (newGrid cs w h)) = (h + 7) div 8"
proof -
  have d: "dims_ok w h" using assms by (simp add: grid_input_def)
  have f: "cb_blocksX (bitmap.fill P ps b) = cb_blocksX b" "cb_blocksY (bitmap.fill P ps b) = cb_blocksY b"
    for P ps b by (induction ps arbitrary: b) auto
  show "cb_blocksX (g_emptyCells (newGrid cs w h)) = (w + 7) div 8"
    "cb_blocksY (g_emptyCells (newGrid cs w h)) = (h + 7) div 8"
    unfolding newGrid_eq [OF assms] by (simp_all add: f newBitmap_eq [OF d])
qed

lemma fitGrid_ok:
  assumes "grid_input cs w h" "tracker_ok t"
  shows "tracker_ok (fitGrid (newGrid cs w h) t)"
    "tk_world_width (fitGrid (newGrid cs w h) t) = w" "tk_world_height (fitGrid (newGrid cs w h) t) = h"
proof -
  have "0 \<le> w" "0 \<le> h" using assms(1) by (simp_all add: grid_input_def dims_ok_def)
  then show "tracker_ok (fitGrid (newGrid cs w h) t)"
    "tk_world_width (fitGrid (newGrid cs w h) t) = w" "tk_world_height (fitGrid (newGrid cs w h) t) = h"
    using assms(2) tk_resize_ok
    by (auto simp: fitGrid_def newGrid_fields [OF assms(1)] newGrid_blocks [OF assms(1)])
      (simp_all add: tk_resize_def tk_reset_def Let_def)
qed

text \<open>A tracker that already has the grid's size is not reset.\<close>

lemma fitGrid_same:
  assumes "grid_input cs w h" "tracker_ok t" "tk_world_width t = w" "tk_world_height t = h"
  shows "fitGrid (newGrid cs w h) t = t"
  using assms
  by (simp add: fitGrid_def newGrid_fields [OF assms(1)] newGrid_blocks [OF assms(1)] tracker_ok_def)

lemma summarizeFrame_dims:
  assumes "length (tk_touched (fitGrid g t)) = length (tk_summary (fitGrid g t))"
    "length (tk_meta (fitGrid g t)) = length (tk_summary (fitGrid g t))"
  shows "same_dims (summarizeFrame world g t) (fitGrid g t)"
  using assms length_summaryStep
  by (simp add: summarizeFrame_def same_dims_def snapshotPreviousFields_def Let_def)

lemma beginFrame_dims: "same_dims (beginFrame world g ts t) (fitGrid g t)"
  unfolding beginFrame_def
  by (rule same_dims_trans [OF buildActiveMasks_dims
        same_dims_trans [OF applyWakeRequests_dims noteGravity_dims]])


section \<open>The active masks\<close>

lemma nth_fold_mark:
  assumes "i < length l"
  shows "fold (\<lambda>p l. l[f p := True]) ps l ! i \<longleftrightarrow> l ! i \<or> i \<in> f ` set ps"
  using assms
proof (induction ps arbitrary: l)
  case Nil
  then show ?case by simp
next
  case (Cons p ps)
  then show ?case by (cases "f p = i") auto
qed

lemma set_haloCoords:
  "(hx, hy) \<in> set (haloCoords t bx by') \<longleftrightarrow> in_blocks t hx hy \<and> \<bar>hx - bx\<bar> \<le> 1 \<and> \<bar>hy - by'\<bar> \<le> 1"
  by (auto simp: haloCoords_def in_blocks_def image_iff intro: bexI [of _ hy])

lemma nth_markHalo:
  assumes "tracker_ok t" "in_blocks t hx hy" "length l = region_count t"
  shows "markHalo t (bx, by') l ! regionIndex t hx hy \<longleftrightarrow> l ! regionIndex t hx hy \<or>
    (isActiveState (rm_state (tk_meta t ! regionIndex t bx by')) \<and> \<bar>hx - bx\<bar> \<le> 1 \<and> \<bar>hy - by'\<bar> \<le> 1)"
proof -
  have i: "regionIndex t hx hy < length l" using regionIndex_less assms by simp
  have "regionIndex t hx hy \<in> (\<lambda>(hx, hy). regionIndex t hx hy) ` set (haloCoords t bx by')
      \<longleftrightarrow> (hx, hy) \<in> set (haloCoords t bx by')"
  proof
    assume "regionIndex t hx hy \<in> (\<lambda>(hx, hy). regionIndex t hx hy) ` set (haloCoords t bx by')"
    then obtain hx' hy' where "(hx', hy') \<in> set (haloCoords t bx by')"
      "regionIndex t hx hy = regionIndex t hx' hy'" by auto
    then show "(hx, hy) \<in> set (haloCoords t bx by')"
      using regionIndex_inject [OF assms(2), of hx' hy'] by (simp add: set_haloCoords)
  qed (force simp: image_iff)
  moreover have "(\<lambda>(hx, hy) active. active[regionIndex t hx hy := True])
      = (\<lambda>p l. l[(case p of (hx, hy) \<Rightarrow> regionIndex t hx hy) := True])"
    by (auto simp: fun_eq_iff)
  ultimately show ?thesis
    using nth_fold_mark [OF i, of "\<lambda>(hx, hy). regionIndex t hx hy" "haloCoords t bx by'"] assms(2)
    by (auto simp: markHalo_def set_haloCoords)
qed

lemma nth_markHalos:
  assumes "tracker_ok t" "in_blocks t hx hy" "length l = region_count t"
  shows "fold (markHalo t) ps l ! regionIndex t hx hy \<longleftrightarrow> l ! regionIndex t hx hy \<or>
    (\<exists>(bx, by') \<in> set ps. isActiveState (rm_state (tk_meta t ! regionIndex t bx by'))
       \<and> \<bar>hx - bx\<bar> \<le> 1 \<and> \<bar>hy - by'\<bar> \<le> 1)"
  using assms(3)
proof (induction ps arbitrary: l)
  case Nil
  then show ?case by simp
next
  case (Cons p ps)
  obtain bx by' where p: "p = (bx, by')" by (cases p)
  show ?case
    using Cons.IH [of "markHalo t p l"] Cons.prems nth_markHalo [OF assms(1,2) Cons.prems, of bx by']
    by (auto simp: p)
qed

text \<open>The regions that keep a region awake: itself and its neighbours in an active state.\<close>

definition halo_active :: "tracker \<Rightarrow> int \<Rightarrow> int \<Rightarrow> bool" where
  "halo_active t hx hy = (\<exists>bx by'. in_blocks t bx by' \<and> \<bar>hx - bx\<bar> \<le> 1 \<and> \<bar>hy - by'\<bar> \<le> 1 \<and>
     getRegionState t bx by' \<noteq> Sleeping)"

lemma active_state: "isActiveState s \<longleftrightarrow> s \<noteq> Sleeping"
  by (cases s) simp_all

lemma getRegionState_in: "in_blocks t bx by' \<Longrightarrow> getRegionState t bx by' = rm_state (tk_meta t ! regionIndex t bx by')"
  by (simp add: getRegionState_def getRegionMeta_def in_blocks_def)

lemma halo_active_coords:
  "halo_active t hx hy \<longleftrightarrow> (\<exists>(bx, by') \<in> set (gridCoords (tk_blocks_x t) (tk_blocks_y t)).
     isActiveState (rm_state (tk_meta t ! regionIndex t bx by')) \<and> \<bar>hx - bx\<bar> \<le> 1 \<and> \<bar>hy - by'\<bar> \<le> 1)"
proof -
  have "(bx, by') \<in> set (gridCoords (tk_blocks_x t) (tk_blocks_y t)) \<longleftrightarrow> in_blocks t bx by'" for bx by'
    by (simp add: set_gridCoords in_blocks_def)
  then show ?thesis unfolding halo_active_def active_state using getRegionState_in by fastforce
qed

lemma masks_nonempty:
  assumes "tracker_ok t" "in_blocks t bx by'"
  shows "tk_region_active (buildActiveMasks t) \<noteq> []"
proof -
  have "regionIndex t bx by' < length (tk_region_active (buildActiveMasks t))"
    using regionIndex_less [OF assms] assms(1) buildActiveMasks_dims [of t]
    by (simp add: tracker_ok_def same_dims_def)
  then show ?thesis by auto
qed

lemma isRegionActive_masks:
  assumes "tracker_ok t"
  shows "isRegionActive (buildActiveMasks t) bx by' \<longleftrightarrow> in_blocks t bx by' \<and> halo_active t bx by'"
proof (cases "in_blocks t bx by'")
  case False
  then show ?thesis
    using buildActiveMasks_dims [of t] by (auto simp: isRegionActive_def in_blocks_def same_dims_def)
next
  case True
  let ?init = "map (\<lambda>_. False) (tk_region_active t)"
  have len: "length ?init = region_count t" using assms by (simp add: tracker_ok_def)
  have i: "regionIndex t bx by' < region_count t" using regionIndex_less [OF assms True] .
  have "isRegionActive (buildActiveMasks t) bx by' \<longleftrightarrow>
      tk_region_active (buildActiveMasks t) ! regionIndex t bx by'"
    using True masks_nonempty [OF assms True] buildActiveMasks_dims [of t]
      same_dims_coords(1) [OF buildActiveMasks_dims, of t]
    by (auto simp: isRegionActive_def in_blocks_def same_dims_def)
  also have "\<dots> \<longleftrightarrow> fold (markHalo t)
      (gridCoords (tk_blocks_x t) (tk_blocks_y t)) ?init ! regionIndex t bx by'"
    by (simp add: buildActiveMasks_def Let_def)
  also have "\<dots> \<longleftrightarrow> halo_active t bx by'"
    unfolding halo_active_coords nth_markHalos [OF assms True len] using i len by simp
  finally show ?thesis using True by blast
qed

lemma isCellActive_masks:
  assumes "tracker_ok t"
  shows "isCellActive (buildActiveMasks t) x y \<longleftrightarrow>
    in_world t x y \<and> isRegionActive (buildActiveMasks t) (x div 8) (y div 8)"
proof (cases "in_world t x y")
  case False
  then show ?thesis
    using buildActiveMasks_dims [of t] by (auto simp: isCellActive_def in_world_def same_dims_def)
next
  case True
  let ?t = "buildActiveMasks t"
  let ?i = "cellIndex (tk_world_width t) x y"
  have c: "(x, y) \<in> set (gridCoords (tk_world_width t) (tk_world_height t))"
    using True by (simp add: in_world_def set_gridCoords)
  have len: "length (map (\<lambda>_. False) (tk_cell_active t)) = nat (tk_world_width t * tk_world_height t)"
    using assms by (simp add: tracker_ok_def cell_count_def)
  have i: "?i < length (tk_cell_active ?t)" "?i = nat y * nat (tk_world_width t) + nat x"
    using cellIndex_less [of x "tk_world_width t" y "tk_world_height t"] True len buildActiveMasks_dims [of t]
    by (auto simp: in_world_def same_dims_def cellIndex_def nat_add_distrib nat_mult_distrib)
  have b: "in_blocks t (x div 8) (y div 8)" by (rule world_blocks [OF assms True])
  note n = masks_nonempty [OF assms b]
  have "tk_cell_active ?t ! ?i = tk_region_active ?t ! cellToRegionIndex t x y"
    using writeAll_grid [OF c len, of "\<lambda>x y. tk_region_active ?t ! cellToRegionIndex t x y"]
    by (simp add: buildActiveMasks_def Let_def)
  then show ?thesis
    using True b i n buildActiveMasks_dims [of t] same_dims_coords(1) [OF buildActiveMasks_dims, of t]
    by (auto simp: isCellActive_def isRegionActive_def in_world_def in_blocks_def same_dims_def
        cellToRegionIndex_def REGION_SIZE_def)
qed


section \<open>Runs of the tracker\<close>

inductive tracker_op :: "tracker \<Rightarrow> tracker \<Rightarrow> bool" where
  op_begin: "frame_grid cs w h world \<Longrightarrow> tracker_op t (beginFrame world (newGrid cs w h) ts t)"
| op_summarize: "frame_grid cs w h world \<Longrightarrow> tracker_op t (summarizeFrame world (newGrid cs w h) t)"
| op_wakeRegion: "tracker_op t (noteWakeAtRegion bx by' r t)"
| op_wakeCell: "tracker_op t (noteWakeAtCell x y r t)"
| op_blocked: "tracker_op t (noteBlockedTransfer x y t)"
| op_move: "tracker_op t (noteMaterialMove fx fy tx ty t)"
| op_config: "tracker_op t (tk_setConfig c t)"
| op_reset: "tracker_op t (tk_reset t)"

definition tracker_reach :: "tracker \<Rightarrow> bool" where
  "tracker_reach t = tracker_op\<^sup>*\<^sup>* newTracker t"

lemma newTracker_ok: "tracker_ok newTracker"
  by (simp add: newTracker_def tracker_ok_def region_count_def cell_count_def)

lemma summarizeFrame_ok:
  assumes "grid_input cs w h" "tracker_ok t"
  shows "tracker_ok (summarizeFrame world (newGrid cs w h) t)"
    "same_dims (summarizeFrame world (newGrid cs w h) t) (fitGrid (newGrid cs w h) t)"
proof -
  note fit = fitGrid_ok(1) [OF assms]
  then show d: "same_dims (summarizeFrame world (newGrid cs w h) t) (fitGrid (newGrid cs w h) t)"
    by (intro summarizeFrame_dims) (simp_all add: tracker_ok_def)
  show "tracker_ok (summarizeFrame world (newGrid cs w h) t)"
    using same_dims_ok [OF d] fit by simp
qed

lemma tk_reset_ok: "tracker_ok t \<Longrightarrow> tracker_ok (tk_reset t)"
  by (simp add: tk_reset_def tracker_ok_def region_count_def cell_count_def Let_def nat_mult_distrib max_def)

lemma tracker_op_ok:
  assumes "tracker_op t t'" "tracker_ok t" shows "tracker_ok t'"
  using assms
proof (cases rule: tracker_op.cases)
  case (op_begin cs w h world ts)
  then have g: "grid_input cs w h" by (simp add: frame_grid_def)
  show ?thesis
    using same_dims_ok [OF beginFrame_dims, of world "newGrid cs w h" ts t] fitGrid_ok(1) [OF g assms(2)]
      op_begin by simp
next
  case (op_summarize cs w h world)
  then show ?thesis using summarizeFrame_ok(1) assms(2) by (simp add: frame_grid_def)
next
  case (op_wakeRegion bx by' r)
  then show ?thesis using same_dims_ok [OF noteWakeAtRegion_dims] assms(2) by simp
next
  case (op_wakeCell x y r)
  then show ?thesis using same_dims_ok [OF noteWakeAtCell_dims] assms(2) by simp
next
  case (op_blocked x y)
  then show ?thesis
    using same_dims_ok [OF noteWakeAtCell_dims] assms(2) by (simp add: noteBlockedTransfer_def)
next
  case (op_move fx fy tx ty)
  then show ?thesis using same_dims_ok [OF noteMaterialMove_dims] assms(2) by simp
next
  case (op_config c)
  then show ?thesis using assms(2) by (simp add: tk_setConfig_def tracker_ok_def region_count_def cell_count_def)
next
  case op_reset
  then show ?thesis using tk_reset_ok assms(2) by simp
qed

lemma tracker_reach_ok: "tracker_reach t \<Longrightarrow> tracker_ok t"
  unfolding tracker_reach_def by (induction rule: rtranclp_induct) (auto intro: newTracker_ok tracker_op_ok)

section \<open>Beginning a frame\<close>

lemma halo_active_masks: "halo_active (buildActiveMasks t) = halo_active t"
proof -
  have "getRegionState (buildActiveMasks t) = getRegionState t" "in_blocks (buildActiveMasks t) = in_blocks t"
    by (auto simp: getRegionState_def getRegionMeta_def in_blocks_def buildActiveMasks_def Let_def
        fun_eq_iff regionIndex_def)
  then show ?thesis by (simp add: halo_active_def fun_eq_iff)
qed

text \<open>
  At the beginning of every frame a cell of the world is active exactly when its 8 by 8 region, or
  one of the regions around it, is not sleeping.
\<close>

theorem active_cells_are_halo:
  assumes "tracker_reach t" "frame_grid cs w h world"
  shows "isCellActive (beginFrame world (newGrid cs w h) ts t) x y \<longleftrightarrow>
    0 \<le> x \<and> x < w \<and> 0 \<le> y \<and> y < h \<and>
    (\<exists>bx by'. 0 \<le> bx \<and> bx < (w + 7) div 8 \<and> 0 \<le> by' \<and> by' < (h + 7) div 8 \<and>
       \<bar>x div 8 - bx\<bar> \<le> 1 \<and> \<bar>y div 8 - by'\<bar> \<le> 1 \<and>
       getRegionState (beginFrame world (newGrid cs w h) ts t) bx by' \<noteq> Sleeping)"
proof -
  have g: "grid_input cs w h" using assms(2) by (simp add: frame_grid_def)
  let ?f = "fitGrid (newGrid cs w h) t"
  let ?u = "applyWakeRequests ts (noteGravity (wv_gravity world) ?f)"
  note fit = fitGrid_ok [OF g tracker_reach_ok [OF assms(1)]]
  have d: "same_dims ?u ?f"
    by (rule same_dims_trans [OF applyWakeRequests_dims noteGravity_dims])
  then have u: "tracker_ok ?u" using same_dims_ok [OF d] fit(1) by simp
  have b: "beginFrame world (newGrid cs w h) ts t = buildActiveMasks ?u" by (simp add: beginFrame_def)
  have dims: "in_blocks (buildActiveMasks ?u) = in_blocks ?f" "in_world ?u = in_world ?f"
    using same_dims_coords(2,3) [OF d] same_dims_coords(2) [OF buildActiveMasks_dims, of ?u] by simp_all
  have "isCellActive (buildActiveMasks ?u) x y \<longleftrightarrow> in_world ?u x y \<and> halo_active ?u (x div 8) (y div 8)"
    unfolding isCellActive_masks [OF u] isRegionActive_masks [OF u] using world_blocks [OF u] by blast
  then show ?thesis
    unfolding b halo_active_masks [of ?u, symmetric] unfolding halo_active_def dims
    using fit by (simp add: in_world_def in_blocks_def tracker_ok_def)
qed

text \<open>Each wake request is served once, at its own region.\<close>

lemma applyWake_fold:
  assumes "distinct is" "set is \<subseteq> {..< length (tk_meta t)}"
    "length (tk_wake_requested t) = length (tk_meta t)" "i < length (tk_meta t)"
  shows "tk_meta (fold (wakeRegion ts) is t) ! i =
    (if i \<in> set is \<and> tk_wake_requested t ! i
     then \<lparr>rm_state = Awake, rm_quiet_frames = 0, rm_last_wake_reason = tk_pending_reason t ! i,
           rm_last_wake_step = ts\<rparr>
     else tk_meta t ! i)"
  using assms
proof (induction "is" arbitrary: t)
  case Nil
  then show ?case by simp
next
  case (Cons j js)
  let ?t = "wakeRegion ts j t"
  have d: "length (tk_meta ?t) = length (tk_meta t)" "length (tk_wake_requested ?t) = length (tk_meta t)"
    using wakeRegion_dims [of ts j t] Cons.prems(3) by (simp_all add: same_dims_def)
  have "tk_meta (fold (wakeRegion ts) js ?t) ! i =
    (if i \<in> set js \<and> tk_wake_requested ?t ! i
     then \<lparr>rm_state = Awake, rm_quiet_frames = 0, rm_last_wake_reason = tk_pending_reason ?t ! i,
           rm_last_wake_step = ts\<rparr>
     else tk_meta ?t ! i)"
    using Cons.IH [of ?t] Cons.prems d by simp
  moreover have "i \<noteq> j \<Longrightarrow> tk_wake_requested ?t ! i = tk_wake_requested t ! i"
    "i \<noteq> j \<Longrightarrow> tk_pending_reason ?t ! i = tk_pending_reason t ! i"
    "tk_meta ?t ! i = (if i = j \<and> tk_wake_requested t ! i
       then \<lparr>rm_state = Awake, rm_quiet_frames = 0, rm_last_wake_reason = tk_pending_reason t ! i,
             rm_last_wake_step = ts\<rparr> else tk_meta t ! i)"
    using Cons.prems by (auto simp: wakeRegion_def)
  ultimately show ?case using Cons.prems(1) by (cases "i = j") simp_all
qed

lemma applyWake_nth:
  assumes "tracker_ok t" "i < region_count t"
  shows "tk_meta (applyWakeRequests ts t) ! i =
    (if tk_wake_requested t ! i
     then \<lparr>rm_state = Awake, rm_quiet_frames = 0, rm_last_wake_reason = tk_pending_reason t ! i,
           rm_last_wake_step = ts\<rparr>
     else tk_meta t ! i)"
proof -
  have "set [0..<length (tk_meta t)] \<subseteq> {..<length (tk_meta t)}" by auto
  moreover have "i < length (tk_meta t)" "length (tk_wake_requested t) = length (tk_meta t)"
    using assms by (simp_all add: tracker_ok_def)
  ultimately show ?thesis
    using applyWake_fold [of "[0..<length (tk_meta t)]" t i ts] by (simp add: applyWakeRequests_def)
qed

text \<open>A pending request survives whatever is noted after it.\<close>

definition pending_at :: "nat \<Rightarrow> wake_reason \<Rightarrow> tracker \<Rightarrow> bool" where
  "pending_at i r t = (i < length (tk_touched t) \<and> i < length (tk_wake_requested t) \<and>
     i < length (tk_pending_reason t) \<and> tk_touched t ! i \<and> tk_wake_requested t ! i \<and> tk_pending_reason t ! i = r)"

lemma pending_noteWake:
  "pending_at i r t \<Longrightarrow> r \<noteq> Wake_None \<Longrightarrow> pending_at i r (noteWakeAtRegion bx by' r' t)"
  by (cases "regionIndex t bx by' = i") (auto simp: pending_at_def noteWakeAtRegion_def Let_def)

lemma pending_gravity:
  assumes "pending_at i r t" "r \<noteq> Wake_None"
  shows "pending_at i r (noteGravity gr t)"
proof -
  have "pending_at i r (fold (\<lambda>(bx, by'). noteWakeAtRegion bx by' Wake_GravityChanged) ps t)" for ps
    using assms(1)
    by (induction ps arbitrary: t) (auto intro: pending_noteWake [OF _ assms(2)])
  with assms(1) show ?thesis by (auto simp: noteGravity_def pending_at_def)
qed

lemma noteWakeAtCell_pending:
  assumes "tracker_ok t" "in_world t x y" "r \<noteq> Wake_None"
  shows "pending_at (regionIndex t (x div 8) (y div 8))
    (if tk_pending_reason t ! regionIndex t (x div 8) (y div 8) = Wake_None then r
     else tk_pending_reason t ! regionIndex t (x div 8) (y div 8)) (noteWakeAtCell x y r t)"
  using regionIndex_less [OF assms(1) world_blocks [OF assms(1,2)]] world_blocks [OF assms(1,2)] assms
  by (auto simp: noteWakeAtCell_def in_world_def noteWakeAtRegion_def in_blocks_def REGION_SIZE_def
      pending_at_def tracker_ok_def Let_def)

end
