(* ===== verification/RegionSleep.thy ===== *)
theory RegionSleep
  imports RegionProperties
begin

text \<open>
  When a region sleeps and when it wakes: a wake request holds its region awake for the whole next
  frame and activates every cell nearby; a region whose summary does not keep it awake has only
  quiet cells; and the counter of quiet frames decides when it sleeps.
\<close>

section \<open>The summary of a region\<close>

text \<open>The pass over the cells works on each region by itself.\<close>

lemma nth_summaryFold:
  assumes "i < length a" "i < length b"
  shows "(fst (fold (summaryStep world g t) ps (a, b)) ! i, snd (fold (summaryStep world g t) ps (a, b)) ! i)
    = fold (\<lambda>(x, y). summarizeCell world g t x y)
        (filter (\<lambda>(x, y). cellToRegionIndex t x y = i) ps) (a ! i, b ! i)"
  using assms
proof (induction ps arbitrary: a b)
  case Nil
  then show ?case by simp
next
  case (Cons p ps)
  obtain x y where p: "p = (x, y)" by (cases p)
  let ?j = "cellToRegionIndex t x y"
  obtain s q where e: "summarizeCell world g t x y (a ! ?j, b ! ?j) = (s, q)"
    by (cases "summarizeCell world g t x y (a ! ?j, b ! ?j)")
  have step: "summaryStep world g t p (a, b) = (a[?j := s], b[?j := q])"
    by (simp add: p summaryStep_def Let_def e)
  have "i < length (a[?j := s])" "i < length (b[?j := q])" using Cons.prems by simp_all
  note IH = Cons.IH [OF this]
  show ?case
  proof (cases "?j = i")
    case True
    then show ?thesis using IH e Cons.prems by (simp add: step [unfolded p] p)
  next
    case False
    then show ?thesis using IH by (simp add: step [unfolded p] p)
  qed
qed

text \<open>The region's summary after the pass, and the primary material it saw.\<close>

definition regionCells :: "tracker \<Rightarrow> nat \<Rightarrow> (int \<times> int) list" where
  "regionCells t i = filter (\<lambda>(x, y). cellToRegionIndex t x y = i)
     (gridCoords (tk_world_width t) (tk_world_height t))"

definition regionSummary :: "world_view \<Rightarrow> grid_of_cells \<Rightarrow> tracker \<Rightarrow> nat \<Rightarrow> region_summary \<times> int" where
  "regionSummary world g t i = fold (\<lambda>(x, y). summarizeCell world g t x y) (regionCells t i)
     (new_summary\<lparr>rs_touched := tk_touched t ! i\<rparr>, - 1)"

lemma summarizeFrame_nth:
  assumes "frame_grid cs w h world" "tracker_ok t" "i < region_count (fitGrid (newGrid cs w h) t)"
  defines "f \<equiv> fitGrid (newGrid cs w h) t" and "t' \<equiv> summarizeFrame world (newGrid cs w h) t"
  shows "tk_summary t' ! i = fst (regionSummary world (newGrid cs w h) f i)"
    "tk_meta t' ! i = settleRegion (tk_config f) (fst (regionSummary world (newGrid cs w h) f i)) (tk_meta f ! i)"
proof -
  have g: "grid_input cs w h" and v: "wv_width world = w" "wv_height world = h"
    using assms(1) by (simp_all add: frame_grid_def)
  have ok: "tracker_ok f" and d: "tk_world_width f = w" "tk_world_height f = h"
    using fitGrid_ok [OF g assms(2)] by (simp_all add: f_def)
  let ?a = "map (\<lambda>touched. new_summary\<lparr>rs_touched := touched\<rparr>) (tk_touched f)"
  let ?b = "replicate (length (tk_meta f)) (- 1)"
  let ?r = "fold (summaryStep world (newGrid cs w h) f) (gridCoords w h) (?a, ?b)"
  have i: "i < length ?a" "i < length ?b" "i < length (tk_meta f)"
    using ok assms(3) by (simp_all add: f_def tracker_ok_def)
  have "(fst ?r ! i, snd ?r ! i) = regionSummary world (newGrid cs w h) f i"
    unfolding nth_summaryFold [OF i(1,2)] using i by (simp add: regionSummary_def regionCells_def d)
  then have r: "fst ?r ! i = fst (regionSummary world (newGrid cs w h) f i)" by (metis fst_conv)
  have l: "length (fst ?r) = length ?a" using length_summaryStep by blast
  show "tk_summary t' ! i = fst (regionSummary world (newGrid cs w h) f i)"
    using r by (simp add: t'_def summarizeFrame_def Let_def v snapshotPreviousFields_def f_def [symmetric])
  show "tk_meta t' ! i = settleRegion (tk_config f) (fst (regionSummary world (newGrid cs w h) f i)) (tk_meta f ! i)"
    using r l i by (simp add: t'_def summarizeFrame_def Let_def v snapshotPreviousFields_def f_def [symmetric])
qed

lemma set_regionCells:
  assumes "tracker_ok t" "in_world t x y"
  shows "(x, y) \<in> set (regionCells t (regionIndex t (x div 8) (y div 8)))"
  using assms by (auto simp: regionCells_def set_gridCoords in_world_def cellToRegionIndex_def REGION_SIZE_def)

text \<open>A flag that is set under a condition.\<close>

lemma flag_updates:
  "(if b then s\<lparr>rs_has_organism := True\<rparr> else s) = s\<lparr>rs_has_organism := rs_has_organism s \<or> b\<rparr>"
  "(if b then s\<lparr>rs_has_empty_adjacency := True\<rparr> else s) = s\<lparr>rs_has_empty_adjacency := rs_has_empty_adjacency s \<or> b\<rparr>"
  "(if b then s\<lparr>rs_has_water_adjacency := True\<rparr> else s) = s\<lparr>rs_has_water_adjacency := rs_has_water_adjacency s \<or> b\<rparr>"
  "(case v of Some v \<Rightarrow> s\<lparr>rs_has_water_adjacency := rs_has_water_adjacency s \<or> W v\<rparr> | None \<Rightarrow> s)
     = s\<lparr>rs_has_water_adjacency := rs_has_water_adjacency s \<or> (case v of Some v \<Rightarrow> W v | None \<Rightarrow> False)\<rparr>"
  by (cases s; auto split: option.splits)+

text \<open>What one cell adds to a summary, as one update.\<close>

lemma summary_updates:
  fixes s :: region_summary
  shows "(let s1 = s\<lparr>rs_max_velocity := A, rs_max_live_pressure_delta := B, rs_max_static_load_delta := D\<rparr>;
       s2 = s1\<lparr>rs_has_organism := rs_has_organism s1 \<or> org\<rparr>;
       s3 = s2\<lparr>rs_has_water_adjacency := rs_has_water_adjacency s2 \<or> wat\<rparr>
     in if bare then (s3, p)
        else let s4 = s3\<lparr>rs_has_empty_adjacency := rs_has_empty_adjacency s3 \<or> E\<rparr>;
                 s5 = s4\<lparr>rs_has_water_adjacency := rs_has_water_adjacency s4 \<or> rs_has_water_adjacency s4 \<or> M\<rparr>
             in if wall then (s5, p)
                else if p < 0 then (s5, v)
                else if p \<noteq> v then (s5\<lparr>rs_has_mixed_material := True\<rparr>, p) else (s5, p))
     = (s\<lparr>rs_max_velocity := A, rs_max_live_pressure_delta := B, rs_max_static_load_delta := D,
          rs_has_organism := rs_has_organism s \<or> org,
          rs_has_empty_adjacency := rs_has_empty_adjacency s \<or> (\<not> bare \<and> E),
          rs_has_water_adjacency := rs_has_water_adjacency s \<or> wat \<or> (\<not> bare \<and> M),
          rs_has_mixed_material := rs_has_mixed_material s \<or> (\<not> bare \<and> \<not> wall \<and> \<not> p < 0 \<and> p \<noteq> v)\<rparr>,
        if \<not> bare \<and> \<not> wall \<and> p < 0 then v else p)"
  unfolding Let_def by (cases s; cases bare; cases wall; cases "p < 0"; cases "p = v"; cases M; simp)

lemma summarizeCell_eq:
  defines "ci world x y \<equiv> nat y * nat (wv_width world) + nat x"
  defines "c world x y \<equiv> wv_cells world ! ci world x y"
  shows "summarizeCell world g t x y (s, p) =
    (s\<lparr>rs_max_velocity := max (rs_max_velocity s) (vec_mag (velocity (c world x y))),
       rs_max_live_pressure_delta := max (rs_max_live_pressure_delta s)
         \<bar>pressure (c world x y) - tk_previous_pressure t ! ci world x y\<bar>,
       rs_max_static_load_delta := max (rs_max_static_load_delta s)
         \<bar>static_load (c world x y) - tk_previous_load t ! ci world x y\<bar>,
       rs_has_organism := rs_has_organism s \<or>
         (ci world x y < length (wv_organisms world) \<and> wv_organisms world ! ci world x y \<noteq> INVALID_ORGANISM_ID),
       rs_has_empty_adjacency := rs_has_empty_adjacency s \<or>
         (\<not> cell_isEmpty (c world x y) \<and> en_countEmptyNeighbors (getEmptyNeighborhood g x y) > 0),
       rs_has_water_adjacency := rs_has_water_adjacency s \<or>
         (case wv_water world of
            Some v \<Rightarrow> wat_width v = wv_width world \<and> wat_height v = wv_height world \<and> hasWaterVolumeAdjacency v x y
          | None \<Rightarrow> False) \<or>
         (\<not> cell_isEmpty (c world x y) \<and> (isWaterCell (c world x y) \<or>
            mn_countMaterial (getMaterialNeighborhood g x y) (material_value Mat_Water) > 0)),
       rs_has_mixed_material := rs_has_mixed_material s \<or>
         (\<not> cell_isEmpty (c world x y) \<and> \<not> cell_isWall (c world x y) \<and> \<not> p < 0 \<and>
          p \<noteq> int (material_value (material_type (c world x y))))\<rparr>,
     if \<not> cell_isEmpty (c world x y) \<and> \<not> cell_isWall (c world x y) \<and> p < 0
     then int (material_value (material_type (c world x y))) else p)"
  unfolding ci_def c_def summarizeCell_def prod.case flag_updates
  unfolding Let_def [of "nat y * nat (wv_width world) + nat x"]
    Let_def [of "wv_cells world ! (nat y * nat (wv_width world) + nat x)"]
    Let_def [of "int (material_value (material_type (wv_cells world ! (nat y * nat (wv_width world) + nat x))))"]
  by (rule summary_updates)

text \<open>What a summary has to say of a cell it has seen.\<close>

definition covers :: "world_view \<Rightarrow> grid_of_cells \<Rightarrow> tracker \<Rightarrow> int \<Rightarrow> int \<Rightarrow> region_summary \<times> int \<Rightarrow> bool" where
  "covers world g t x y q =
     (let ci = nat y * nat (wv_width world) + nat x; c = wv_cells world ! ci in
       vec_mag (velocity c) \<le> rs_max_velocity (fst q) \<and>
       \<bar>pressure c - tk_previous_pressure t ! ci\<bar> \<le> rs_max_live_pressure_delta (fst q) \<and>
       \<bar>static_load c - tk_previous_load t ! ci\<bar> \<le> rs_max_static_load_delta (fst q) \<and>
       (ci < length (wv_organisms world) \<and> wv_organisms world ! ci \<noteq> INVALID_ORGANISM_ID
          \<longrightarrow> rs_has_organism (fst q)) \<and>
       (\<not> cell_isEmpty c \<and> en_countEmptyNeighbors (getEmptyNeighborhood g x y) > 0
          \<longrightarrow> rs_has_empty_adjacency (fst q)) \<and>
       (isWaterCell c \<longrightarrow> rs_has_water_adjacency (fst q)) \<and>
       (\<not> cell_isEmpty c \<and> \<not> cell_isWall c
          \<longrightarrow> rs_has_mixed_material (fst q) \<or> snd q = int (material_value (material_type c))))"

lemma covers_new: "covers world g t x y (summarizeCell world g t x y (s, p))"
  unfolding covers_def Let_def by (auto simp: summarizeCell_eq isWaterCell_def)

lemma covers_keep:
  "covers world g t x y (s, p) \<Longrightarrow> covers world g t x y (summarizeCell world g t x' y' (s, p))"
  unfolding covers_def Let_def by (auto simp: summarizeCell_eq isWaterCell_def le_max_iff_disj)

lemma covers_fold:
  "(\<forall>(x, y) \<in> set ps. covers world g t x y (fold (\<lambda>(x, y). summarizeCell world g t x y) ps q)) \<and>
   (covers world g t x' y' q \<longrightarrow> covers world g t x' y' (fold (\<lambda>(x, y). summarizeCell world g t x y) ps q))"
proof (induction ps arbitrary: q x' y')
  case Nil
  then show ?case by simp
next
  case (Cons a ps)
  obtain x y where a: "a = (x, y)" by (cases a)
  let ?q = "summarizeCell world g t x y q"
  have "covers world g t x y ?q" using covers_new by (cases q) auto
  moreover have "covers world g t x' y' q \<longrightarrow> covers world g t x' y' ?q" using covers_keep by (cases q) auto
  ultimately show ?case using Cons.IH [of ?q x y] Cons.IH [of ?q x' y'] by (simp add: a)
qed

lemma touched_fold:
  "rs_touched (fst (fold (\<lambda>(x, y). summarizeCell world g t x y) ps q)) = rs_touched (fst q)"
  by (induction ps arbitrary: q) (auto simp: summarizeCell_eq)

section \<open>Waking\<close>

text \<open>A pending request wakes its region at the next frame, and the frame's summary keeps it awake.\<close>

lemma pending_beginFrame:
  assumes "grid_input cs w h" "tracker_ok t" "tk_world_width t = w" "tk_world_height t = h"
    "pending_at i r t" "r \<noteq> Wake_None" "i < region_count t"
  shows "tk_meta (beginFrame world (newGrid cs w h) ts t) ! i =
      \<lparr>rm_state = Awake, rm_quiet_frames = 0, rm_last_wake_reason = r, rm_last_wake_step = ts\<rparr>"
    "tk_touched (beginFrame world (newGrid cs w h) ts t) ! i"
proof -
  let ?g = "noteGravity (wv_gravity world) t"
  have d: "same_dims ?g t" by (rule noteGravity_dims)
  have ok: "tracker_ok ?g" using same_dims_ok [OF d] assms(2) by simp
  have n: "region_count ?g = region_count t" using d by (simp add: region_count_def same_dims_def)
  have p: "pending_at i r ?g" by (rule pending_gravity [OF assms(5,6)])
  have b: "beginFrame world (newGrid cs w h) ts t = buildActiveMasks (applyWakeRequests ts ?g)"
    unfolding beginFrame_def fitGrid_same [OF assms(1-4)] ..
  have "tk_touched (fold (wakeRegion ts) js u) = tk_touched u" for js u
    by (induction js arbitrary: u) (auto simp: wakeRegion_def)
  then have "tk_touched (buildActiveMasks (applyWakeRequests ts ?g)) = tk_touched ?g"
    by (simp add: buildActiveMasks_def Let_def applyWakeRequests_def)
  then show "tk_touched (beginFrame world (newGrid cs w h) ts t) ! i"
    using p by (simp add: b pending_at_def)
  have "tk_meta (buildActiveMasks u) = tk_meta u" for u by (simp add: buildActiveMasks_def Let_def)
  then show "tk_meta (beginFrame world (newGrid cs w h) ts t) ! i =
      \<lparr>rm_state = Awake, rm_quiet_frames = 0, rm_last_wake_reason = r, rm_last_wake_step = ts\<rparr>"
    using p applyWake_nth [OF ok, of i ts] assms(7) by (simp add: b n pending_at_def)
qed

lemma getRegionMeta_in: "in_blocks t bx by' \<Longrightarrow> getRegionMeta t bx by' = tk_meta t ! regionIndex t bx by'"
  by (simp add: getRegionMeta_def in_blocks_def)

lemma touched_stays_awake:
  assumes "frame_grid cs w h world" "tracker_ok t" "tk_world_width t = w" "tk_world_height t = h"
    "in_blocks t bx by'" "tk_touched t ! regionIndex t bx by'"
  shows "getRegionState (summarizeFrame world (newGrid cs w h) t) bx by' = Awake"
proof -
  have g: "grid_input cs w h" using assms(1) by (simp add: frame_grid_def)
  note f = fitGrid_same [OF g assms(2-4)]
  have i: "regionIndex t bx by' < region_count t" by (rule regionIndex_less [OF assms(2,5)])
  have d: "same_dims (summarizeFrame world (newGrid cs w h) t) t"
    using summarizeFrame_ok(2) [OF g assms(2), of world] unfolding f .
  have "rs_touched (fst (regionSummary world (newGrid cs w h) t (regionIndex t bx by')))"
    unfolding regionSummary_def touched_fold using assms(6) by simp
  then have "rm_state (tk_meta (summarizeFrame world (newGrid cs w h) t) ! regionIndex t bx by') = Awake"
    using summarizeFrame_nth(2) [OF assms(1,2)] i
    by (simp add: f settleRegion_def shouldForceAwake_def)
  moreover have "in_blocks (summarizeFrame world (newGrid cs w h) t) bx by'"
    unfolding same_dims_coords(2) [OF d] by (rule assms(5))
  ultimately show ?thesis by (simp add: getRegionState_in same_dims_coords(1) [OF d])
qed

text \<open>A region that is not asleep activates every cell of the regions around it.\<close>

lemma near_active:
  assumes "tracker_ok t" "in_world t x y" "in_blocks t bx by'" "getRegionState t bx by' \<noteq> Sleeping"
    "\<bar>x div 8 - bx\<bar> \<le> 1" "\<bar>y div 8 - by'\<bar> \<le> 1"
  shows "isCellActive (buildActiveMasks t) x y"
proof -
  have "halo_active t (x div 8) (y div 8)" unfolding halo_active_def using assms(3-6) by blast
  then show ?thesis
    unfolding isCellActive_masks [OF assms(1)] isRegionActive_masks [OF assms(1)]
    using assms(2) world_blocks [OF assms(1,2)] by blast
qed

lemma beginFrame_near:
  fixes t cs w h world ts
  defines "t' \<equiv> beginFrame world (newGrid cs w h) ts t"
  assumes "grid_input cs w h" "tracker_ok t" "tk_world_width t = w" "tk_world_height t = h"
    "in_world t x y" "in_blocks t bx by'" "getRegionState t' bx by' \<noteq> Sleeping"
    "\<bar>x div 8 - bx\<bar> \<le> 1" "\<bar>y div 8 - by'\<bar> \<le> 1"
  shows "isCellActive t' x y"
proof -
  let ?u = "applyWakeRequests ts (noteGravity (wv_gravity world) t)"
  have t': "t' = buildActiveMasks ?u"
    unfolding t'_def beginFrame_def fitGrid_same [OF assms(2-5)] ..
  have u: "same_dims ?u t" by (rule same_dims_trans [OF applyWakeRequests_dims noteGravity_dims])
  have "tracker_ok ?u" "in_world ?u x y" "in_blocks ?u bx by'"
    using same_dims_ok [OF u] assms(3) same_dims_coords(2,3) [OF u] assms(6,7) by simp_all
  moreover have "same_dims t' ?u" unfolding t' by (rule buildActiveMasks_dims)
  then have "getRegionState ?u bx by' = getRegionState t' bx by'"
    using calculation(3) by (simp add: getRegionState_in same_dims_coords(1,2) t' buildActiveMasks_def Let_def regionIndex_def in_blocks_def)
  ultimately show ?thesis unfolding t' using assms(8-10) by (intro near_active) (simp_all add: t')
qed

text \<open>
  C24: a wake noted at a cell (a move, a blocked transfer, an outside change) takes effect at the next
  frame: the cell's region is awake with its counter of quiet frames at zero and the reason on record
  (an earlier pending reason is kept), every cell of the world within 8 cells of it is simulated, and
  the region is still awake when that frame has been summarised, whatever the frame's world looks like.
\<close>

theorem wake_reaches_neighbourhood:
  fixes t cs w h world ts x y r
  defines "t' \<equiv> beginFrame world (newGrid cs w h) ts (noteWakeAtCell x y r t)"
    and "noted \<equiv> (if tk_pending_reason t ! cellToRegionIndex t x y = Wake_None then r
                   else tk_pending_reason t ! cellToRegionIndex t x y)"
  assumes "tracker_reach t" "frame_grid cs w h world" "tk_world_width t = w" "tk_world_height t = h"
    "0 \<le> x" "x < w" "0 \<le> y" "y < h" "r \<noteq> Wake_None"
  shows "getRegionMeta t' (x div 8) (y div 8) =
      \<lparr>rm_state = Awake, rm_quiet_frames = 0, rm_last_wake_reason = noted, rm_last_wake_step = ts\<rparr> \<and>
    (\<forall>x' y'. 0 \<le> x' \<and> x' < w \<and> 0 \<le> y' \<and> y' < h \<and> \<bar>x' - x\<bar> \<le> 8 \<and> \<bar>y' - y\<bar> \<le> 8
       \<longrightarrow> isCellActive t' x' y') \<and>
    (frame_grid cs' w h world' \<longrightarrow>
       getRegionState (summarizeFrame world' (newGrid cs' w h) t') (x div 8) (y div 8) = Awake)"
proof -
  have ok: "tracker_ok t" by (rule tracker_reach_ok [OF assms(3)])
  have g: "grid_input cs w h" using assms(4) by (simp add: frame_grid_def)
  have xy: "in_world t x y" using assms by (simp add: in_world_def)
  note blocks = world_blocks [OF ok xy]
  let ?i = "regionIndex t (x div 8) (y div 8)"
  let ?n = "noteWakeAtCell x y r t"
  have i: "?i < region_count t" by (rule regionIndex_less [OF ok blocks])
  have noted: "noted = (if tk_pending_reason t ! ?i = Wake_None then r else tk_pending_reason t ! ?i)"
    by (simp add: noted_def cellToRegionIndex_def REGION_SIZE_def)
  then have nn: "noted \<noteq> Wake_None" using assms(11) by simp
  have p: "pending_at ?i noted ?n"
    unfolding noted by (rule noteWakeAtCell_pending [OF ok xy assms(11)])
  have nd: "same_dims ?n t" by (rule noteWakeAtCell_dims)
  have nok: "tracker_ok ?n" using same_dims_ok [OF nd] ok by simp
  have nw: "tk_world_width ?n = w" "tk_world_height ?n = h" "?i < region_count ?n"
    using nd i assms(5,6) by (simp_all add: same_dims_def region_count_def)
  note start = pending_beginFrame [OF g nok nw(1,2) p nn nw(3), of world ts, folded t'_def]
  have d: "same_dims t' t"
    unfolding t'_def using beginFrame_dims [of world "newGrid cs w h" ts ?n] same_dims_trans [OF _ nd]
    by (simp add: fitGrid_same [OF g nok nw(1,2)])
  have ok': "tracker_ok t'" using same_dims_ok [OF d] ok by simp
  note c = same_dims_coords(1,2) [OF d]
  have b': "in_blocks t' (x div 8) (y div 8)" unfolding c by (rule blocks)
  have meta: "getRegionMeta t' (x div 8) (y div 8) = tk_meta t' ! ?i"
    unfolding getRegionMeta_in [OF b'] c ..
  have awake: "getRegionState t' (x div 8) (y div 8) \<noteq> Sleeping"
    unfolding getRegionState_def meta start(1) by simp
  have blocksn: "in_blocks ?n (x div 8) (y div 8)" unfolding same_dims_coords(2) [OF nd] by (rule blocks)
  have "isCellActive t' x' y'"
    if a: "0 \<le> x'" "x' < w" "0 \<le> y'" "y' < h" "\<bar>x' - x\<bar> \<le> 8" "\<bar>y' - y\<bar> \<le> 8" for x' y'
  proof -
    have near: "\<bar>x' div 8 - x div 8\<bar> \<le> 1" "\<bar>y' div 8 - y div 8\<bar> \<le> 1" using a by linarith+
    have "in_world ?n x' y'" using a nw by (simp add: in_world_def)
    then show ?thesis
      unfolding t'_def using awake unfolding t'_def
      by (rule beginFrame_near [OF g nok nw(1,2) _ blocksn _ near])
  qed
  moreover have "getRegionState (summarizeFrame world' (newGrid cs' w h) t') (x div 8) (y div 8) = Awake"
    if "frame_grid cs' w h world'"
    using that ok' _ _ b'
  proof (rule touched_stays_awake)
    show "tk_world_width t' = w" "tk_world_height t' = h" "tk_touched t' ! regionIndex t' (x div 8) (y div 8)"
      using d assms(5,6) start(2) unfolding c by (simp_all add: same_dims_def)
  qed
  ultimately show ?thesis unfolding meta start(1) by blast
qed

section \<open>Going to sleep\<close>

lemma covers_region:
  assumes "tracker_ok t" "in_world t x y"
  shows "covers world g t x y (regionSummary world g t (regionIndex t (x div 8) (y div 8)))"
  using covers_fold [of "regionCells t (regionIndex t (x div 8) (y div 8))" world g t]
    set_regionCells [OF assms] unfolding regionSummary_def by fastforce

lemma emptyNeighbors_zero:
  assumes "grid_input cs w h" "0 \<le> x" "x < w" "0 \<le> y" "y < h"
    "en_countEmptyNeighbors (getEmptyNeighborhood (newGrid cs w h) x y) = 0"
    "(dx, dy) \<in> set nbOthers" "0 \<le> x + dx" "x + dx < w" "0 \<le> y + dy" "y + dy < h"
  shows "\<not> cell_isEmpty (cs ! cellIndex w (x + dx) (y + dy))"
proof -
  let ?g = "newGrid cs w h"
  note f = newGrid_fields [OF assms(1)]
  have i: "g_inside ?g x y" "g_inside ?g (x + dx) (y + dy)" unfolding f using assms by (simp_all add: g_inside_def)
  have "packs (emptyWord ?g x y) (\<lambda>dx dy. g_inside ?g (x + dx) (y + dy)) (\<lambda>dx dy. cellEmpty ?g (x + dx) (y + dy))"
    by (rule packs_fold)
  from views_answer(4) [OF this] assms(6)
  have "filter (\<lambda>(dx, dy). g_inside ?g (x + dx) (y + dy) \<and> cellEmpty ?g (x + dx) (y + dy)) nbOthers = []"
    unfolding newGrid_words [OF assms(1) i(1)] by (simp add: nbCount_def)
  then have "\<not> cellEmpty ?g (x + dx) (y + dy)" using assms(7) i(2) by (auto simp: filter_empty_conv)
  then show ?thesis unfolding f by (simp add: g_at_def)
qed

text \<open>The summary of a region that is not kept awake covers each of its cells.\<close>

lemma quiet_region:
  fixes t cs w h world
  defines "t' \<equiv> summarizeFrame world (newGrid cs w h) t"
  assumes "tracker_ok t" "frame_grid cs w h world" "tk_world_width t = w" "tk_world_height t = h"
    "0 \<le> x" "x < w" "0 \<le> y" "y < h" "getRegionState t' (x div 8) (y div 8) \<noteq> Awake"
  obtains q where "\<not> shouldForceAwake (fst q) (tk_config t)"
    "\<And>x' y'. 0 \<le> x' \<Longrightarrow> x' < w \<Longrightarrow> 0 \<le> y' \<Longrightarrow> y' < h \<Longrightarrow> x' div 8 = x div 8 \<Longrightarrow>
       y' div 8 = y div 8 \<Longrightarrow> covers world (newGrid cs w h) t x' y' q"
proof -
  have g: "grid_input cs w h" using assms(3) by (simp add: frame_grid_def)
  note f = fitGrid_same [OF g assms(2,4,5)]
  let ?r = "regionIndex t (x div 8) (y div 8)"
  let ?q = "regionSummary world (newGrid cs w h) t ?r"
  have inw: "in_world t x' y'" if "0 \<le> x'" "x' < w" "0 \<le> y'" "y' < h" for x' y'
    using that assms(4,5) by (simp add: in_world_def)
  note blocks = world_blocks [OF assms(2) inw [OF assms(6-9)]]
  have d: "same_dims t' t"
    unfolding t'_def using summarizeFrame_ok(2) [OF g assms(2), of world] unfolding f .
  have b': "in_blocks t' (x div 8) (y div 8)" unfolding same_dims_coords(2) [OF d] by (rule blocks)
  have "tk_meta t' ! ?r = settleRegion (tk_config t) (fst ?q) (tk_meta t ! ?r)"
    unfolding t'_def using summarizeFrame_nth(2) [OF assms(3,2)] regionIndex_less [OF assms(2) blocks]
    by (simp add: f)
  then have "\<not> shouldForceAwake (fst ?q) (tk_config t)"
    using assms(10) unfolding getRegionState_in [OF b'] same_dims_coords(1) [OF d] by (auto simp: settleRegion_def)
  moreover have "covers world (newGrid cs w h) t x' y' ?q"
    if "0 \<le> x'" "x' < w" "0 \<le> y'" "y' < h" "x' div 8 = x div 8" "y' div 8 = y div 8" for x' y'
    using covers_region [OF assms(2) inw [OF that(1-4)], of world "newGrid cs w h"] that(5,6) by simp
  ultimately show ?thesis using that by blast
qed

text \<open>
  C25: a region that is not awake after a frame really is quiet. Every cell of it moves no faster and
  has seen no larger change of pressure or load than the configured thresholds; and, for each of the
  four conditions that the configuration keeps awake: it holds no organism, no water, no two
  different loose materials, and no cell with an empty cell beside it.
\<close>

theorem sleeping_cells_are_quiet:
  fixes t cs w h world x y
  defines "t' \<equiv> summarizeFrame world (newGrid cs w h) t" and "i \<equiv> cellIndex w x y" and "c \<equiv> cs ! cellIndex w x y"
  assumes "tracker_reach t" "frame_grid cs w h world" "tk_world_width t = w" "tk_world_height t = h"
    "0 \<le> x" "x < w" "0 \<le> y" "y < h" "getRegionState t' (x div 8) (y div 8) \<noteq> Awake"
  shows "vec_mag (velocity c) \<le> tc_velocity_epsilon (tk_config t) \<and>
    \<bar>pressure c - tk_previous_pressure t ! i\<bar> \<le> tc_live_pressure_delta_epsilon (tk_config t) \<and>
    \<bar>static_load c - tk_previous_load t ! i\<bar> \<le> tc_static_load_delta_epsilon (tk_config t) \<and>
    (tc_keep_organism_regions_awake (tk_config t) \<and> i < length (wv_organisms world)
       \<longrightarrow> wv_organisms world ! i = INVALID_ORGANISM_ID) \<and>
    (tc_keep_water_adjacent_awake (tk_config t) \<longrightarrow> \<not> isWaterCell c) \<and>
    (\<forall>x' y'. tc_keep_mixed_material_awake (tk_config t) \<and> 0 \<le> x' \<and> x' < w \<and> 0 \<le> y' \<and> y' < h \<and>
       x' div 8 = x div 8 \<and> y' div 8 = y div 8 \<and>
       \<not> cell_isEmpty c \<and> \<not> cell_isWall c \<and>
       \<not> cell_isEmpty (cs ! cellIndex w x' y') \<and> \<not> cell_isWall (cs ! cellIndex w x' y')
       \<longrightarrow> material_type (cs ! cellIndex w x' y') = material_type c) \<and>
    (\<forall>(dx, dy) \<in> set nbOthers. tc_keep_empty_adjacent_awake (tk_config t) \<and> \<not> cell_isEmpty c \<and>
       0 \<le> x + dx \<and> x + dx < w \<and> 0 \<le> y + dy \<and> y + dy < h
       \<longrightarrow> \<not> cell_isEmpty (cs ! cellIndex w (x + dx) (y + dy)))"
proof -
  have g: "grid_input cs w h" and v: "wv_cells world = cs" "wv_width world = w"
    using assms(5) by (simp_all add: frame_grid_def)
  obtain q where calm: "\<not> shouldForceAwake (fst q) (tk_config t)" and
    cov: "\<And>x' y'. 0 \<le> x' \<Longrightarrow> x' < w \<Longrightarrow> 0 \<le> y' \<Longrightarrow> y' < h \<Longrightarrow> x' div 8 = x div 8 \<Longrightarrow>
       y' div 8 = y div 8 \<Longrightarrow> covers world (newGrid cs w h) t x' y' q"
    using quiet_region [OF tracker_reach_ok [OF assms(4)] assms(5-11)] assms(12) unfolding t'_def by blast
  have n: "nat y' * nat w + nat x' = cellIndex w x' y'" if "0 \<le> x'" "x' < w" "0 \<le> y'" for x' y'
    using that by (simp add: cellIndex_def nat_add_distrib nat_mult_distrib)
  note here = cov [OF assms(8-11) refl refl, unfolded covers_def Let_def v n [OF assms(8-10)], folded c_def, folded i_def]
  note calm = calm [unfolded shouldForceAwake_def]
  have "material_type (cs ! cellIndex w x' y') = material_type c"
    if a: "tc_keep_mixed_material_awake (tk_config t)" "0 \<le> x'" "x' < w" "0 \<le> y'" "y' < h"
      "x' div 8 = x div 8" "y' div 8 = y div 8" "\<not> cell_isEmpty c" "\<not> cell_isWall c"
      "\<not> cell_isEmpty (cs ! cellIndex w x' y')" "\<not> cell_isWall (cs ! cellIndex w x' y')" for x' y'
  proof -
    note there = cov [OF a(2-7), unfolded covers_def Let_def v n [OF a(2-4)]]
    have "\<not> rs_has_mixed_material (fst q)" using calm a(1) by (simp split: if_splits)
    then have "snd q = int (material_value (material_type c))"
      "snd q = int (material_value (material_type (cs ! cellIndex w x' y')))"
      using here there a by blast+
    then show ?thesis using material_value_inject by simp
  qed
  moreover have "\<not> cell_isEmpty (cs ! cellIndex w (x + dx) (y + dy))"
    if a: "(dx, dy) \<in> set nbOthers" "tc_keep_empty_adjacent_awake (tk_config t)" "\<not> cell_isEmpty c"
      "0 \<le> x + dx" "x + dx < w" "0 \<le> y + dy" "y + dy < h" for dx dy
  proof -
    have "\<not> rs_has_empty_adjacency (fst q)" using calm a(2) by (simp split: if_splits)
    then have "en_countEmptyNeighbors (getEmptyNeighborhood (newGrid cs w h) x y) = 0"
      using here a(3) by auto
    then show ?thesis using emptyNeighbors_zero [OF g assms(8-11) _ a(1) a(4-7)] by blast
  qed
  moreover have "rs_max_velocity (fst q) \<le> tc_velocity_epsilon (tk_config t)"
    "rs_max_live_pressure_delta (fst q) \<le> tc_live_pressure_delta_epsilon (tk_config t)"
    "rs_max_static_load_delta (fst q) \<le> tc_static_load_delta_epsilon (tk_config t)"
    "tc_keep_organism_regions_awake (tk_config t) \<longrightarrow> \<not> rs_has_organism (fst q)"
    "tc_keep_water_adjacent_awake (tk_config t) \<longrightarrow> \<not> rs_has_water_adjacency (fst q)"
    using calm by (simp_all split: if_splits)
  ultimately show ?thesis using here by (auto intro: order_trans)
qed

section \<open>Counting quiet frames\<close>

lemma unat_saturating: "unat (saturatingIncrement q) = min 65535 (unat q + 1)"
proof (cases "q = 65535")
  case True
  then show ?thesis by (simp add: saturatingIncrement_def)
next
  case False
  have "unat q \<noteq> 65535"
    using False by (metis of_nat_numeral of_nat_unat unsigned_of_nat ucast_id)
  moreover have "unat q < 65536" using unsigned_less [of q, where ?'a = nat] by simp
  ultimately show ?thesis using False by (simp add: saturatingIncrement_def unat_word_ariths)
qed

lemma settle_fields:
  "unat (rm_quiet_frames (settleRegion config s m)) =
     (if shouldForceAwake s config then 0 else min 65535 (unat (rm_quiet_frames m) + 1))"
  "rm_state (settleRegion config s m) =
     (if shouldForceAwake s config then Awake
      else if unat (rm_quiet_frames (settleRegion config s m)) \<ge> unat (tc_quiet_frames_to_sleep config)
      then Sleeping else LoadedQuiet)"
  by (simp_all add: settleRegion_def Let_def unat_saturating word_le_nat_alt)

text \<open>
  C26: over any run of frames a region's counter is the number of quiet frames since it was last kept
  awake (it stops at 65535 instead of wrapping), and after each frame the region is awake if the frame
  kept it awake, else asleep when the counter has reached the threshold, else loaded but quiet.
\<close>

theorem sleep_after_quiet_frames:
  fixes config summaries meta
  defines "meta' \<equiv> fold (settleRegion config) summaries meta"
    and "quiet \<equiv> length (takeWhile (\<lambda>s. \<not> shouldForceAwake s config) (rev summaries))"
  shows "unat (rm_quiet_frames meta') =
      min 65535 (if quiet = length summaries then unat (rm_quiet_frames meta) + quiet else quiet) \<and>
    (summaries \<noteq> [] \<longrightarrow> rm_state meta' =
      (if quiet = 0 then Awake
       else if unat (rm_quiet_frames meta') \<ge> unat (tc_quiet_frames_to_sleep config) then Sleeping
       else LoadedQuiet))"
  unfolding meta'_def quiet_def
proof (induction summaries rule: rev_induct)
  case Nil
  have "unat (rm_quiet_frames meta) < 65536" using unsigned_less [of "rm_quiet_frames meta", where ?'a = nat] by simp
  then show ?case by simp
next
  case (snoc s ss)
  have "length (takeWhile (\<lambda>s. \<not> shouldForceAwake s config) (rev ss)) \<le> length ss"
    using length_takeWhile_le by (metis length_rev)
  with snoc show ?case by (cases "shouldForceAwake s config") (auto simp: settle_fields)
qed

theorem sleep_after_quiet_frames_witness:
  "rm_state (fold (settleRegion default_config) (replicate 11 new_summary) new_meta) = LoadedQuiet \<and>
   rm_state (fold (settleRegion default_config) (replicate 12 new_summary) new_meta) = Sleeping"
proof -
  have q: "\<not> shouldForceAwake new_summary default_config"
    by (simp add: shouldForceAwake_def new_summary_def default_config_def)
  then have "takeWhile (\<lambda>s. \<not> shouldForceAwake s default_config) (replicate n new_summary) = replicate n new_summary" for n
    by (induction n) auto
  then show ?thesis
    using sleep_after_quiet_frames [of default_config "replicate 11 new_summary" new_meta]
      sleep_after_quiet_frames [of default_config "replicate 12 new_summary" new_meta]
    by (simp add: new_meta_def default_config_def)
qed

section \<open>A world to run\<close>

text \<open>Ten by one empty cells, watched from a new tracker.\<close>

definition quiet_world :: world_view where
  "quiet_world = \<lparr>wv_cells = replicate 10 new_cell, wv_width = 10, wv_height = 1, wv_gravity = 9,
     wv_organisms = [], wv_water = None\<rparr>"

definition quiet_grid :: grid_of_cells where
  "quiet_grid = newGrid (replicate 10 new_cell) 10 1"

lemma quiet_frame: "frame_grid (replicate 10 new_cell) 10 1 quiet_world"
  by (simp add: frame_grid_def grid_input_def dims_ok_def quiet_world_def)

definition started :: tracker where
  "started = beginFrame quiet_world quiet_grid 1 newTracker"

lemma started_reach: "tracker_reach newTracker" "tracker_reach started"
  unfolding tracker_reach_def started_def quiet_grid_def
  by (auto intro: r_into_rtranclp op_begin [OF quiet_frame])

lemma started_dims: "tk_world_width started = 10" "tk_world_height started = 1"
proof -
  have "same_dims started (fitGrid quiet_grid newTracker)" unfolding started_def by (rule beginFrame_dims)
  moreover have "grid_input (replicate 10 new_cell) 10 1" using quiet_frame by (simp add: frame_grid_def)
  ultimately show "tk_world_width started = 10" "tk_world_height started = 1"
    using fitGrid_ok(2,3) [OF _ newTracker_ok] by (simp_all add: same_dims_def quiet_grid_def)
qed

theorem wake_reaches_neighbourhood_witness:
  "isCellActive (beginFrame quiet_world quiet_grid 2 (noteWakeAtCell 3 0 Wake_Move started)) 9 0"
  using wake_reaches_neighbourhood [OF started_reach(2) quiet_frame started_dims, of 3 0 Wake_Move 2]
  by (simp add: quiet_grid_def)

theorem active_cells_are_halo_witness:
  "\<not> isCellActive (beginFrame quiet_world quiet_grid 1 newTracker) 10 0"
  using active_cells_are_halo [OF started_reach(1) quiet_frame, of 1 10 0] by (simp add: quiet_grid_def)

text \<open>What a first frame leaves of the fresh lists.\<close>

lemma wakes_fields:
  "tk_previous_pressure (fold (wakeRegion ts) js t) = tk_previous_pressure t"
  "tk_previous_load (fold (wakeRegion ts) js t) = tk_previous_load t"
  "tk_touched (fold (wakeRegion ts) js t) = tk_touched t" "tk_config (fold (wakeRegion ts) js t) = tk_config t"
  by (induction js arbitrary: t) (simp_all add: wakeRegion_def)

lemma started_fields:
  "tk_previous_pressure started = replicate 10 0" "tk_previous_load started = replicate 10 0"
  "tk_touched started = [False, False]" "tk_config started = default_config"
proof -
  have g: "grid_input (replicate 10 new_cell) 10 1" using quiet_frame by (simp add: frame_grid_def)
  have f: "fitGrid quiet_grid newTracker = tk_resize 10 1 2 1 newTracker"
    unfolding quiet_grid_def fitGrid_def newGrid_fields [OF g] newGrid_blocks [OF g] by (simp add: newTracker_def)
  have r: "replicate (nat 2) False = [False, False]" by (simp add: numeral_2_eq_2)
  show "tk_previous_pressure started = replicate 10 0" "tk_previous_load started = replicate 10 0"
    "tk_touched started = [False, False]" "tk_config started = default_config"
    unfolding started_def beginFrame_def f
    by (simp_all add: noteGravity_def tk_resize_def tk_reset_def Let_def
        buildActiveMasks_def applyWakeRequests_def wakeRegion_def newTracker_def r numeral_2_eq_2)
qed

lemma quiet_cell:
  assumes "0 \<le> x" "x < 10"
  shows "summarizeCell quiet_world g started x 0 (new_summary, - 1) = (new_summary, - 1)"
proof -
  have "nat x < 10" using assms by auto
  then show ?thesis
    by (simp add: summarizeCell_eq quiet_world_def started_fields new_summary_def new_cell_def vec_mag_def zero_vec_def
        cell_isEmpty_def cell_consts)
qed

lemma quiet_cells:
  assumes "\<forall>(x, y) \<in> set ps. 0 \<le> x \<and> x < 10 \<and> y = 0"
  shows "fold (\<lambda>(x, y). summarizeCell quiet_world g started x y) ps (new_summary, - 1) = (new_summary, - 1)"
  using assms by (induction ps) (auto simp: quiet_cell)

theorem sleeping_cells_are_quiet_witness:
  "vec_mag (velocity (replicate 10 new_cell ! cellIndex 10 9 0)) \<le> tc_velocity_epsilon (tk_config started)"
proof -
  let ?t = "summarizeFrame quiet_world (newGrid (replicate 10 new_cell) 10 1) started"
  have g: "grid_input (replicate 10 new_cell) 10 1" using quiet_frame by (simp add: frame_grid_def)
  have ok: "tracker_ok started" by (rule tracker_reach_ok [OF started_reach(2)])
  note f = fitGrid_same [OF g ok started_dims]
  have b: "in_blocks started 1 0" using ok started_dims by (simp add: in_blocks_def tracker_ok_def)
  have i: "regionIndex started 1 0 = 1" by (simp add: regionIndex_def)
  have "fst (regionSummary quiet_world (newGrid (replicate 10 new_cell) 10 1) started 1) = new_summary"
    using quiet_cells [of "regionCells started 1" "newGrid (replicate 10 new_cell) 10 1"]
    by (simp add: regionSummary_def started_fields started_dims regionCells_def set_gridCoords new_summary_def)
  then have "rm_state (tk_meta ?t ! 1) \<noteq> Awake"
    using summarizeFrame_nth(2) [OF quiet_frame ok, of 1] regionIndex_less [OF ok b]
    by (simp add: f i settleRegion_def started_fields shouldForceAwake_def new_summary_def default_config_def Let_def)
  moreover have d: "same_dims ?t started" using summarizeFrame_ok(2) [OF g ok, of quiet_world] unfolding f .
  ultimately have "getRegionState ?t (9 div 8) (0 div 8) \<noteq> Awake"
    using b i by (simp add: getRegionState_in same_dims_coords(1,2) [OF d])
  from sleeping_cells_are_quiet [OF started_reach(2) quiet_frame started_dims _ _ _ _ this] show ?thesis
    by simp
qed

end
