(* ===== verification/ScannerTypes.thy ===== *)
theory ScannerTypes
  imports Prelude
begin

text \<open>
  The vocabulary of the Wi-Fi scanner, \<open>os-manager/ScannerTypes.h\<close>: bands, channels, tunings and
  configurations, and which of them are supported. An exception of the JSON conversions is an error
  value. A C++ \<open>int\<close> is an \<open>int\<close>; the channel arithmetic stays within a few hundred.
\<close>

section \<open>Enumerations and their names\<close>

datatype scanner_band = Band24Ghz | Band5Ghz

datatype scanner_mode = Mode_Auto | Mode_Manual

datatype observation_kind = Kind_Direct | Kind_Incidental

fun bandToJson :: "scanner_band \<Rightarrow> string" where
  "bandToJson Band24Ghz = ''2.4GHz''"
| "bandToJson Band5Ghz = ''5GHz''"

definition bandFromJson :: "string \<Rightarrow> scanner_band result" where
  "bandFromJson s =
     (if s = ''2.4GHz'' then okay Band24Ghz
      else if s = ''5GHz'' then okay Band5Ghz
      else error (''Invalid ScannerBand: '' @ s))"

fun modeToJson :: "scanner_mode \<Rightarrow> string" where
  "modeToJson Mode_Auto = ''Auto''"
| "modeToJson Mode_Manual = ''Manual''"

definition modeFromJson :: "string \<Rightarrow> scanner_mode result" where
  "modeFromJson s =
     (if s = ''Auto'' then okay Mode_Auto
      else if s = ''Manual'' then okay Mode_Manual
      else error (''Invalid ScannerConfigMode: '' @ s))"

fun kindToJson :: "observation_kind \<Rightarrow> string" where
  "kindToJson Kind_Direct = ''Direct''"
| "kindToJson Kind_Incidental = ''Incidental''"

definition kindFromJson :: "string \<Rightarrow> observation_kind result" where
  "kindFromJson s =
     (if s = ''Direct'' then okay Kind_Direct
      else if s = ''Incidental'' then okay Kind_Incidental
      else error (''Invalid ScannerObservationKind: '' @ s))"

fun scannerBandLabel :: "scanner_band \<Rightarrow> string" where
  "scannerBandLabel Band24Ghz = ''2.4 GHz''"
| "scannerBandLabel Band5Ghz = ''5 GHz''"

section \<open>Channels\<close>

definition kScannerBand24PrimaryChannels :: "int list" where
  "kScannerBand24PrimaryChannels = [1, 2, 3, 4, 5, 6, 7, 8, 9, 10, 11]"

definition kScannerBand5PrimaryChannels :: "int list" where
  "kScannerBand5PrimaryChannels =
     [36, 40, 44, 48, 52, 56, 60, 64, 100, 104, 108, 112, 116,
      120, 124, 128, 132, 136, 140, 144, 149, 153, 157, 161, 165]"

definition kScannerBand5_40MhzCenterChannels :: "int list" where
  "kScannerBand5_40MhzCenterChannels = [38, 46, 54, 62, 102, 110, 118, 126, 134, 142, 151, 159]"

definition kScannerBand5_80MhzCenterChannels :: "int list" where
  "kScannerBand5_80MhzCenterChannels = [42, 58, 106, 122, 138, 155]"

definition scannerChannelListContains :: "int list \<Rightarrow> int \<Rightarrow> bool" where
  "scannerChannelListContains channels channel = list_ex (\<lambda>c. c = channel) channels"

definition scannerChannelSpanLabel :: "int list \<Rightarrow> int \<Rightarrow> string" where
  "scannerChannelSpanLabel channels widthMhz =
     (if channels = [] then ''''
      else if length channels = 1 then to_string (hd channels)
      else if widthMhz = 40 \<and> length channels = 2
      then to_string (hd channels) @ ''+'' @ to_string (last channels)
      else to_string (hd channels) @ ''-'' @ to_string (last channels))"

definition scannerDefaultWidthMhz :: "scanner_band \<Rightarrow> int" where
  "scannerDefaultWidthMhz band = 20"

fun scannerWidthSupported :: "scanner_band \<Rightarrow> int \<Rightarrow> bool" where
  "scannerWidthSupported Band24Ghz w = (w = 20)"
| "scannerWidthSupported Band5Ghz w = (w = 20 \<or> w = 40 \<or> w = 80)"

fun scannerBandPrimaryChannels :: "scanner_band \<Rightarrow> int list" where
  "scannerBandPrimaryChannels Band24Ghz = kScannerBand24PrimaryChannels"
| "scannerBandPrimaryChannels Band5Ghz = kScannerBand5PrimaryChannels"

fun scannerManualTargetChannels :: "scanner_band \<Rightarrow> int \<Rightarrow> int list" where
  "scannerManualTargetChannels Band24Ghz w = (if w \<noteq> 20 then [] else kScannerBand24PrimaryChannels)"
| "scannerManualTargetChannels Band5Ghz w =
     (if w = 20 then kScannerBand5PrimaryChannels
      else if w = 40 then kScannerBand5_40MhzCenterChannels
      else if w = 80 then kScannerBand5_80MhzCenterChannels
      else [])"

definition scannerBandFromChannel :: "int \<Rightarrow> scanner_band option" where
  "scannerBandFromChannel channel =
     (if channel \<ge> 1 \<and> channel \<le> 14 then Some Band24Ghz
      else if channel \<ge> 32 then Some Band5Ghz
      else None)"

section \<open>Tunings\<close>

record tuning =
  tn_band :: scanner_band
  tn_primary :: int
  tn_width :: int
  tn_center :: "int option"

definition scannerTuningCoveredPrimaryChannels :: "tuning \<Rightarrow> int list" where
  "scannerTuningCoveredPrimaryChannels t =
     (if tn_width t \<le> 20 then [tn_primary t]
      else case tn_center t of
          None \<Rightarrow> [tn_primary t]
        | Some center \<Rightarrow>
            if tn_band t \<noteq> Band5Ghz then [tn_primary t]
            else if tn_width t = 40 then [center - 2, center + 2]
            else if tn_width t = 80 then [center - 6, center - 2, center + 2, center + 6]
            else [tn_primary t])"

definition scannerTuningIncludesPrimaryChannel :: "tuning \<Rightarrow> int \<Rightarrow> bool" where
  "scannerTuningIncludesPrimaryChannel t channel =
     list_ex (\<lambda>c. c = channel) (scannerTuningCoveredPrimaryChannels t)"

definition scannerObservationKindForPrimaryChannel :: "tuning \<Rightarrow> int \<Rightarrow> observation_kind" where
  "scannerObservationKindForPrimaryChannel t channel =
     (if scannerTuningIncludesPrimaryChannel t channel then Kind_Direct else Kind_Incidental)"

definition scannerTuningIncludesObservedChannel :: "tuning \<Rightarrow> int \<Rightarrow> bool" where
  "scannerTuningIncludesObservedChannel t channel =
     (if scannerTuningIncludesPrimaryChannel t channel then True else tn_center t = Some channel)"

definition scannerObservationKindForObservedChannel :: "tuning \<Rightarrow> int \<Rightarrow> observation_kind" where
  "scannerObservationKindForObservedChannel t channel =
     (if scannerTuningIncludesObservedChannel t channel then Kind_Direct else Kind_Incidental)"

section \<open>Configurations\<close>

record auto_config =
  ac_band :: scanner_band
  ac_width :: int

record manual_config =
  mc_band :: scanner_band
  mc_width :: int
  mc_target :: int

record scanner_config =
  sc_mode :: scanner_mode
  sc_auto :: auto_config
  sc_manual :: manual_config

definition scannerDefaultConfig :: scanner_config where
  "scannerDefaultConfig =
     \<lparr>sc_mode = Mode_Auto, sc_auto = \<lparr>ac_band = Band5Ghz, ac_width = 20\<rparr>,
      sc_manual = \<lparr>mc_band = Band5Ghz, mc_width = 20, mc_target = 36\<rparr>\<rparr>"

definition scannerConfigBand :: "scanner_config \<Rightarrow> scanner_band" where
  "scannerConfigBand c = (if sc_mode c = Mode_Manual then mc_band (sc_manual c) else ac_band (sc_auto c))"

definition scannerConfigWidthMhz :: "scanner_config \<Rightarrow> int" where
  "scannerConfigWidthMhz c = (if sc_mode c = Mode_Manual then mc_width (sc_manual c) else ac_width (sc_auto c))"

definition scannerManualTargetShortLabel :: "scanner_band \<Rightarrow> int \<Rightarrow> int \<Rightarrow> string" where
  "scannerManualTargetShortLabel band w target =
     (if w = 20 then ''Ch '' @ to_string target else ''Center '' @ to_string target)"

definition targetSpan :: "scanner_band \<Rightarrow> int \<Rightarrow> int \<Rightarrow> int list" where
  "targetSpan band w target = scannerTuningCoveredPrimaryChannels
     \<lparr>tn_band = band, tn_primary = target, tn_width = w, tn_center = Some target\<rparr>"

definition scannerManualTargetLabel :: "scanner_band \<Rightarrow> int \<Rightarrow> int \<Rightarrow> string" where
  "scannerManualTargetLabel band w target =
     (if w = 20 then scannerManualTargetShortLabel band w target
      else if band \<noteq> Band5Ghz then scannerManualTargetShortLabel band w target
      else if targetSpan band w target \<noteq> []
      then ''Center '' @ to_string target @ '' ('' @ scannerChannelSpanLabel (targetSpan band w target) w @ '')''
      else scannerManualTargetShortLabel band w target)"

definition scannerConfigSummaryLabel :: "scanner_config \<Rightarrow> string" where
  "scannerConfigSummaryLabel c =
     (let prefix = scannerBandLabel (scannerConfigBand c) @ '' / ''
            @ to_string (scannerConfigWidthMhz c) @ '' MHz / ''
      in if sc_mode c = Mode_Manual
         then prefix @ scannerManualTargetShortLabel (mc_band (sc_manual c)) (mc_width (sc_manual c))
                (mc_target (sc_manual c))
         else prefix @ ''Auto'')"

text \<open>A manual target as a tuning, or the reason why it is none.\<close>

definition scannerManualTargetToTuning :: "manual_config \<Rightarrow> tuning result" where
  "scannerManualTargetToTuning c =
     (if \<not> scannerWidthSupported (mc_band c) (mc_width c) then
        error (''Unsupported '' @ scannerBandLabel (mc_band c) @ '' scanner width ''
               @ to_string (mc_width c) @ '' MHz'')
      else if mc_target c \<notin> set (scannerManualTargetChannels (mc_band c) (mc_width c)) then
        error (''Unsupported '' @ scannerBandLabel (mc_band c) @ '' manual target ''
               @ to_string (mc_target c) @ '' @ '' @ to_string (mc_width c) @ '' MHz'')
      else if mc_width c = 20 then
        okay \<lparr>tn_band = mc_band c, tn_primary = mc_target c, tn_width = 20, tn_center = None\<rparr>
      else if mc_band c \<noteq> Band5Ghz then
        error (''Unsupported manual tuning target '' @ to_string (mc_target c))
      else
        let covered = targetSpan (mc_band c) (mc_width c) (mc_target c)
        in if covered = [] then error (''Unsupported manual tuning target '' @ to_string (mc_target c))
           else if \<not> list_all (\<lambda>channel.
               scannerChannelListContains (scannerBandPrimaryChannels (mc_band c)) channel) covered
           then error (''Unsupported manual tuning target '' @ to_string (mc_target c))
           else okay \<lparr>tn_band = mc_band c, tn_primary = hd covered, tn_width = mc_width c,
                      tn_center = Some (mc_target c)\<rparr>)"

definition targetCovers :: "scanner_band \<Rightarrow> int \<Rightarrow> int \<Rightarrow> int \<Rightarrow> bool" where
  "targetCovers band w primary target =
     (case scannerManualTargetToTuning \<lparr>mc_band = band, mc_width = w, mc_target = target\<rparr> of
        Inl _ \<Rightarrow> False
      | Inr t \<Rightarrow> scannerTuningIncludesPrimaryChannel t primary)"

definition scannerManualTargetForPrimaryChannel :: "scanner_band \<Rightarrow> int \<Rightarrow> int \<Rightarrow> int option" where
  "scannerManualTargetForPrimaryChannel band w primary =
     (let targets = scannerManualTargetChannels band w
      in if targets = [] then None
         else if w = 20 then (if primary \<notin> set targets then None else Some primary)
         else find (targetCovers band w primary) targets)"

section \<open>Supported tunings\<close>

lemmas channel_tables = kScannerBand24PrimaryChannels_def kScannerBand5PrimaryChannels_def
  kScannerBand5_40MhzCenterChannels_def kScannerBand5_80MhzCenterChannels_def

lemma listContains [simp]: "scannerChannelListContains cs c \<longleftrightarrow> c \<in> set cs"
  by (auto simp: scannerChannelListContains_def list_ex_iff)

lemma includesPrimary: "scannerTuningIncludesPrimaryChannel t c \<longleftrightarrow> c \<in> set (scannerTuningCoveredPrimaryChannels t)"
  by (auto simp: scannerTuningIncludesPrimaryChannel_def list_ex_iff)

text \<open>What makes a tuning one the scanner can use.\<close>

definition tuning_ok :: "tuning \<Rightarrow> bool" where
  "tuning_ok t =
     (scannerWidthSupported (tn_band t) (tn_width t) \<and>
      (if tn_width t = 20
       then tn_center t = None \<and> tn_primary t \<in> set (scannerBandPrimaryChannels (tn_band t))
       else \<exists>c \<in> set (scannerManualTargetChannels (tn_band t) (tn_width t)).
              tn_center t = Some c \<and> tn_primary t \<in> set (targetSpan (tn_band t) (tn_width t) c)))"

text \<open>The channels under each wide centre are primary channels, and no two centres share one.\<close>

lemma spans_primary:
  "\<forall>w \<in> {40, 80}. \<forall>c \<in> set (scannerManualTargetChannels Band5Ghz w).
     set (targetSpan Band5Ghz w c) \<subseteq> set (scannerBandPrimaryChannels Band5Ghz)"
  by (simp add: targetSpan_def scannerTuningCoveredPrimaryChannels_def channel_tables)

lemma spans_nonempty:
  "w \<in> {40, 80} \<Longrightarrow> targetSpan Band5Ghz w c = (if w = 40 then [c - 2, c + 2] else [c - 6, c - 2, c + 2, c + 6])"
  by (auto simp: targetSpan_def scannerTuningCoveredPrimaryChannels_def)

lemma spans_disjoint:
  "\<forall>w \<in> {40, 80}. \<forall>c \<in> set (scannerManualTargetChannels Band5Ghz w).
     \<forall>d \<in> set (scannerManualTargetChannels Band5Ghz w).
     c \<noteq> d \<longrightarrow> set (targetSpan Band5Ghz w c) \<inter> set (targetSpan Band5Ghz w d) = {}"
  by (simp add: targetSpan_def scannerTuningCoveredPrimaryChannels_def channel_tables)

section \<open>Manual targets\<close>

declare scannerManualTargetChannels.simps [simp del]
declare scannerBandPrimaryChannels.simps [simp del]
declare scannerWidthSupported.simps [simp del]

lemmas table_simps = scannerManualTargetChannels.simps scannerBandPrimaryChannels.simps
  scannerWidthSupported.simps

lemma wide_supported:
  assumes "scannerWidthSupported band w" "w \<noteq> 20"
  shows "band = Band5Ghz" "w \<in> {40, 80}"
  using assms by (cases band; auto simp: table_simps)+

lemma toTuning_eq:
  "scannerManualTargetToTuning c =
     (if \<not> scannerWidthSupported (mc_band c) (mc_width c) then
        error (''Unsupported '' @ scannerBandLabel (mc_band c) @ '' scanner width ''
               @ to_string (mc_width c) @ '' MHz'')
      else if mc_target c \<notin> set (scannerManualTargetChannels (mc_band c) (mc_width c)) then
        error (''Unsupported '' @ scannerBandLabel (mc_band c) @ '' manual target ''
               @ to_string (mc_target c) @ '' @ '' @ to_string (mc_width c) @ '' MHz'')
      else if mc_width c = 20 then
        okay \<lparr>tn_band = mc_band c, tn_primary = mc_target c, tn_width = 20, tn_center = None\<rparr>
      else okay \<lparr>tn_band = mc_band c, tn_primary = hd (targetSpan (mc_band c) (mc_width c) (mc_target c)),
                 tn_width = mc_width c, tn_center = Some (mc_target c)\<rparr>)"
proof (cases "scannerWidthSupported (mc_band c) (mc_width c) \<and> mc_width c \<noteq> 20
    \<and> mc_target c \<in> set (scannerManualTargetChannels (mc_band c) (mc_width c))")
  case True
  note w = wide_supported [of "mc_band c" "mc_width c"]
  have b: "mc_band c = Band5Ghz" "mc_width c \<in> {40, 80}" using w True by blast+
  have "targetSpan Band5Ghz (mc_width c) (mc_target c) \<noteq> []" using spans_nonempty [OF b(2)] by simp
  moreover have "\<forall>ch \<in> set (targetSpan Band5Ghz (mc_width c) (mc_target c)).
      ch \<in> set (scannerBandPrimaryChannels Band5Ghz)"
    using spans_primary b True by (metis subsetD)
  ultimately show ?thesis
    using True by (simp add: scannerManualTargetToTuning_def b(1) Let_def list_all_iff)
next
  case False
  then show ?thesis by (auto simp: scannerManualTargetToTuning_def)
qed

lemma span_tuning:
  assumes "tn_center t = Some c" "tn_band t = Band5Ghz" "tn_width t \<in> {40, 80}"
  shows "scannerTuningCoveredPrimaryChannels t = targetSpan Band5Ghz (tn_width t) c"
proof -
  consider "tn_width t = 40" | "tn_width t = 80" using assms(3) by blast
  then show ?thesis
    by cases (simp_all add: targetSpan_def scannerTuningCoveredPrimaryChannels_def assms(1,2))
qed

lemma find_unique:
  assumes "c \<in> set ts" "P c" "\<forall>d \<in> set ts. P d \<longrightarrow> d = c"
  shows "find P ts = Some c"
proof (cases "find P ts")
  case None
  then show ?thesis using assms(1,2) by (simp add: find_None_iff)
next
  case (Some d)
  then have "d \<in> set ts" "P d" by (auto simp: find_Some_iff)
  with assms(3) Some show ?thesis by blast
qed

lemma targetCovers_eq:
  assumes "w \<in> {40, 80}" "d \<in> set (scannerManualTargetChannels Band5Ghz w)"
  shows "targetCovers Band5Ghz w ch d \<longleftrightarrow> ch \<in> set (targetSpan Band5Ghz w d)"
proof -
  have "w \<noteq> 20" "scannerWidthSupported Band5Ghz w" using assms(1) by (auto simp: table_simps)
  then show ?thesis
    using assms span_tuning [of "\<lparr>tn_band = Band5Ghz, tn_primary = p, tn_width = w, tn_center = Some d\<rparr>" d for p]
    by (simp add: targetCovers_def toTuning_eq includesPrimary)
qed

lemma target_of_span:
  assumes "w \<in> {40, 80}" "c \<in> set (scannerManualTargetChannels Band5Ghz w)" "ch \<in> set (targetSpan Band5Ghz w c)"
  shows "scannerManualTargetForPrimaryChannel Band5Ghz w ch = Some c"
proof -
  have "\<forall>d \<in> set (scannerManualTargetChannels Band5Ghz w). targetCovers Band5Ghz w ch d \<longrightarrow> d = c"
    using spans_disjoint assms targetCovers_eq by blast
  then have "find (targetCovers Band5Ghz w ch) (scannerManualTargetChannels Band5Ghz w) = Some c"
    using find_unique [OF assms(2), of "targetCovers Band5Ghz w ch"] targetCovers_eq [OF assms(1,2)] assms(3) by blast
  then show ?thesis
    using assms(1,2) by (auto simp: scannerManualTargetForPrimaryChannel_def Let_def)
qed

text \<open>
  A manual target is refused exactly when its width is not supported in its band or it is not a
  target of that width, with the message that says which; otherwise it becomes a supported tuning
  of the same band and width, and each primary channel of that tuning leads back to the target.
\<close>

theorem manual_target_tuning:
  "case scannerManualTargetToTuning c of
     Inl msg \<Rightarrow>
       if \<not> scannerWidthSupported (mc_band c) (mc_width c)
       then msg = ''Unsupported '' @ scannerBandLabel (mc_band c) @ '' scanner width ''
                  @ to_string (mc_width c) @ '' MHz''
       else mc_target c \<notin> set (scannerManualTargetChannels (mc_band c) (mc_width c)) \<and>
            msg = ''Unsupported '' @ scannerBandLabel (mc_band c) @ '' manual target ''
                  @ to_string (mc_target c) @ '' @ '' @ to_string (mc_width c) @ '' MHz''
   | Inr t \<Rightarrow>
       mc_target c \<in> set (scannerManualTargetChannels (mc_band c) (mc_width c)) \<and>
       tn_band t = mc_band c \<and> tn_width t = mc_width c \<and> tuning_ok t \<and>
       (\<forall>ch \<in> set (scannerTuningCoveredPrimaryChannels t).
          ch \<in> set (scannerBandPrimaryChannels (mc_band c)) \<and>
          scannerManualTargetForPrimaryChannel (mc_band c) (mc_width c) ch = Some (mc_target c))"
proof (cases "scannerWidthSupported (mc_band c) (mc_width c) \<and>
    mc_target c \<in> set (scannerManualTargetChannels (mc_band c) (mc_width c))")
  case False
  then show ?thesis by (simp add: toTuning_eq)
next
  case True
  show ?thesis
  proof (cases "mc_width c = 20")
    case w: True
    then have "scannerManualTargetChannels (mc_band c) 20 = scannerBandPrimaryChannels (mc_band c)"
      by (cases "mc_band c") (simp_all add: table_simps)
    with True w show ?thesis
      by (auto simp: toTuning_eq tuning_ok_def scannerTuningCoveredPrimaryChannels_def
          scannerManualTargetForPrimaryChannel_def Let_def)
  next
    case False
    note b = wide_supported [OF conjunct1 [OF True] False]
    let ?span = "targetSpan Band5Ghz (mc_width c) (mc_target c)"
    let ?t = "\<lparr>tn_band = Band5Ghz, tn_primary = hd ?span, tn_width = mc_width c, tn_center = Some (mc_target c)\<rparr>"
    have t: "mc_target c \<in> set (scannerManualTargetChannels Band5Ghz (mc_width c))" using True b(1) by simp
    have r: "scannerManualTargetToTuning c = okay ?t" using True False by (simp add: toTuning_eq b(1))
    have s: "scannerTuningCoveredPrimaryChannels ?t = ?span" using False b(2) by (simp add: span_tuning)
    have "hd ?span \<in> set ?span" using spans_nonempty [OF b(2)] by simp
    then have "tuning_ok ?t" using True False t by (auto simp: tuning_ok_def b(1))
    moreover have "\<forall>ch \<in> set ?span. ch \<in> set (scannerBandPrimaryChannels Band5Ghz)"
      using spans_primary b(2) t by blast
    ultimately show ?thesis
      using True target_of_span [OF b(2) t] by (simp add: r s b(1))
  qed
qed

theorem manual_target_tuning_witness:
  "scannerManualTargetForPrimaryChannel Band5Ghz 80 48 = Some 42"
proof -
  let ?c = "\<lparr>mc_band = Band5Ghz, mc_width = 80, mc_target = 42\<rparr>"
  have "scannerManualTargetToTuning ?c =
      okay \<lparr>tn_band = Band5Ghz, tn_primary = 36, tn_width = 80, tn_center = Some 42\<rparr>"
    by (simp add: toTuning_eq spans_nonempty table_simps channel_tables)
  with manual_target_tuning [of ?c] show ?thesis
    by (simp add: scannerTuningCoveredPrimaryChannels_def)
qed

text \<open>The names written to JSON are read back, and nothing else is read.\<close>

lemma band_names: "bandFromJson s = okay b \<longleftrightarrow> s = bandToJson b"
  by (cases b) (auto simp: bandFromJson_def)

lemma mode_names: "modeFromJson s = okay m \<longleftrightarrow> s = modeToJson m"
  by (cases m) (auto simp: modeFromJson_def)

lemma kind_names: "kindFromJson s = okay k \<longleftrightarrow> s = kindToJson k"
  by (cases k) (auto simp: kindFromJson_def)

end
