(* ===== verification/ChannelProtocol.thy ===== *)
theory ChannelProtocol
  imports ScannerTypes
begin

text \<open>
  The channel commands of the patched Wi-Fi firmware, \<open>os-manager/network/NexmonChannelProtocol.cpp\<close>:
  a tuning as a 16-bit chanspec, the payloads that get and set it, and how replies are read. The
  lemmas show that supported tunings survive the encoding and that the decoder returns nothing else.
\<close>

unbundle bit_operations_syntax

section \<open>Constants\<close>

definition kMagicPrefix :: "u8 list" where "kMagicPrefix = [0x4e, 0x45, 0x58, 0, 0, 0, 0, 0]"
definition kChanspecName :: "u8 list" where
  "kChanspecName = [0x63, 0x68, 0x61, 0x6e, 0x73, 0x70, 0x65, 0x63, 0]"
definition kGetChanspecCommandId :: u32 where "kGetChanspecCommandId = 0x106"
definition kSetChanspecCommandId :: u32 where "kSetChanspecCommandId = 0x107"
definition kBand24Ghz :: u32 where "kBand24Ghz = 0"
definition kBand5Ghz :: u32 where "kBand5Ghz = 0xc000"
definition kControlSidebandLower :: u32 where "kControlSidebandLower = 0"
definition kControlSidebandLowerUpper :: u32 where "kControlSidebandLowerUpper = 0x100"
definition kControlSidebandUpperLower :: u32 where "kControlSidebandUpperLower = 0x200"
definition kControlSidebandUpperUpper :: u32 where "kControlSidebandUpperUpper = 0x300"
definition kWidth20Mhz :: u32 where "kWidth20Mhz = 0x1000"
definition kWidth40Mhz :: u32 where "kWidth40Mhz = 0x1800"
definition kWidth80Mhz :: u32 where "kWidth80Mhz = 0x2000"
definition kGetPayloadSize :: nat where "kGetPayloadSize = 28"
definition kSetPayloadSize :: nat where "kSetPayloadSize = 32"
definition kChanspecValueOffset :: nat where "kChanspecValueOffset = 16"

lemmas chanspec_bits = kBand24Ghz_def kBand5Ghz_def kControlSidebandLower_def
  kControlSidebandLowerUpper_def kControlSidebandUpperLower_def kControlSidebandUpperUpper_def
  kWidth20Mhz_def kWidth40Mhz_def kWidth80Mhz_def

section \<open>Bytes\<close>

definition writeLe32 :: "nat \<Rightarrow> u32 \<Rightarrow> u8 list \<Rightarrow> u8 list" where
  "writeLe32 offset value payload =
     payload[offset := ucast (value AND 0xff), offset + 1 := ucast (drop_bit 8 value AND 0xff),
             offset + 2 := ucast (drop_bit 16 value AND 0xff),
             offset + 3 := ucast (drop_bit 24 value AND 0xff)]"

definition readLe32 :: "u8 list \<Rightarrow> nat \<Rightarrow> u32" where
  "readLe32 payload offset =
     ucast (payload ! offset) OR push_bit 8 (ucast (payload ! (offset + 1)))
     OR push_bit 16 (ucast (payload ! (offset + 2))) OR push_bit 24 (ucast (payload ! (offset + 3)))"

text \<open>\<open>std::copy(src.begin(), src.end(), payload.begin() + offset)\<close>.\<close>

definition copyAt :: "nat \<Rightarrow> u8 list \<Rightarrow> u8 list \<Rightarrow> u8 list" where
  "copyAt offset src payload = take offset payload @ src @ drop (offset + length src) payload"

definition writeCommonPayloadPrefix :: "u32 \<Rightarrow> u32 \<Rightarrow> u8 list \<Rightarrow> u8 list" where
  "writeCommonPayloadPrefix commandId flag payload =
     writeLe32 12 flag (writeLe32 8 commandId (copyAt 0 kMagicPrefix payload))"

section \<open>Encoding\<close>

definition isSupported5GHzScannerChannel :: "int \<Rightarrow> bool" where
  "isSupported5GHzScannerChannel channel =
     scannerChannelListContains (scannerBandPrimaryChannels Band5Ghz) channel"

definition isSupported5GHzScannerChannelForWidth :: "int \<Rightarrow> int \<Rightarrow> bool" where
  "isSupported5GHzScannerChannelForWidth w channel =
     (if w = 20 then isSupported5GHzScannerChannel channel
      else list_ex (\<lambda>center. scannerChannelListContains
             (scannerTuningCoveredPrimaryChannels
                \<lparr>tn_band = Band5Ghz, tn_primary = center, tn_width = w, tn_center = Some center\<rparr>) channel)
           (scannerManualTargetChannels Band5Ghz w))"

definition encode5GHz40MHzChanspec :: "tuning \<Rightarrow> u32 result" where
  "encode5GHz40MHzChanspec t =
     (if \<not> isSupported5GHzScannerChannelForWidth 40 (tn_primary t)
      then error (''Unsupported 40 MHz scanner channel '' @ to_string (tn_primary t))
      else case tn_center t of
          None \<Rightarrow> error (''Missing 40 MHz center channel for primary channel '' @ to_string (tn_primary t))
        | Some center \<Rightarrow>
            let invalid = ''Invalid 40 MHz center channel '' @ to_string center
                  @ '' for primary channel '' @ to_string (tn_primary t)
            in if \<not> scannerChannelListContains (scannerManualTargetChannels Band5Ghz 40) center
               then error (''Unsupported 40 MHz center channel '' @ to_string center)
               else if \<not> scannerChannelListContains (scannerTuningCoveredPrimaryChannels
                   \<lparr>tn_band = Band5Ghz, tn_primary = tn_primary t, tn_width = 40, tn_center = Some center\<rparr>)
                   (tn_primary t)
               then error invalid
               else if tn_primary t - center = - 2
               then okay (kBand5Ghz OR kWidth40Mhz OR kControlSidebandLower OR of_int center)
               else if tn_primary t - center = 2
               then okay (kBand5Ghz OR kWidth40Mhz OR kControlSidebandLowerUpper OR of_int center)
               else error invalid)"

definition encode5GHz80MHzChanspec :: "tuning \<Rightarrow> u32 result" where
  "encode5GHz80MHzChanspec t =
     (if \<not> isSupported5GHzScannerChannelForWidth 80 (tn_primary t)
      then error (''Unsupported 80 MHz scanner channel '' @ to_string (tn_primary t))
      else case tn_center t of
          None \<Rightarrow> error (''Missing 80 MHz center channel for primary channel '' @ to_string (tn_primary t))
        | Some center \<Rightarrow>
            let invalid = ''Invalid 80 MHz center channel '' @ to_string center
                  @ '' for primary channel '' @ to_string (tn_primary t)
            in if \<not> scannerChannelListContains (scannerManualTargetChannels Band5Ghz 80) center
               then error (''Unsupported 80 MHz center channel '' @ to_string center)
               else if \<not> scannerChannelListContains (scannerTuningCoveredPrimaryChannels
                   \<lparr>tn_band = Band5Ghz, tn_primary = tn_primary t, tn_width = 80, tn_center = Some center\<rparr>)
                   (tn_primary t)
               then error invalid
               else if tn_primary t - center = - 6
               then okay (kBand5Ghz OR kWidth80Mhz OR kControlSidebandLower OR of_int center)
               else if tn_primary t - center = - 2
               then okay (kBand5Ghz OR kWidth80Mhz OR kControlSidebandLowerUpper OR of_int center)
               else if tn_primary t - center = 2
               then okay (kBand5Ghz OR kWidth80Mhz OR kControlSidebandUpperLower OR of_int center)
               else if tn_primary t - center = 6
               then okay (kBand5Ghz OR kWidth80Mhz OR kControlSidebandUpperUpper OR of_int center)
               else error invalid)"

definition encodeChanspec20MHz :: "int \<Rightarrow> u32 result" where
  "encodeChanspec20MHz channel =
     (if channel \<ge> 1 \<and> channel \<le> 11 then okay (kBand24Ghz OR kWidth20Mhz OR of_int channel)
      else if isSupported5GHzScannerChannel channel then okay (kBand5Ghz OR kWidth20Mhz OR of_int channel)
      else error (''Unsupported 20 MHz scanner channel '' @ to_string channel))"

definition encodeChanspec :: "tuning \<Rightarrow> u32 result" where
  "encodeChanspec t =
     (let unsupported = error (''Unsupported scanner tuning width '' @ to_string (tn_width t) @ '' MHz'')
      in if \<not> scannerWidthSupported (tn_band t) (tn_width t)
         then error (''Unsupported '' @ scannerBandLabel (tn_band t) @ '' scanner width ''
                     @ to_string (tn_width t) @ '' MHz'')
         else if tn_width t = 20 then encodeChanspec20MHz (tn_primary t)
         else if tn_width t = 40
         then (if tn_band t \<noteq> Band5Ghz then unsupported else encode5GHz40MHzChanspec t)
         else if tn_width t = 80
         then (if tn_band t \<noteq> Band5Ghz then unsupported else encode5GHz80MHzChanspec t)
         else unsupported)"

section \<open>Decoding\<close>

text \<open>The checks after the \<open>switch\<close> of \<open>decodeChanspec\<close>.\<close>

definition checkDecoded :: "u32 \<Rightarrow> tuning \<Rightarrow> tuning result" where
  "checkDecoded w t =
     (if \<not> scannerWidthSupported (tn_band t) (tn_width t)
      then error (''Unsupported chanspec width 0x'' @ hex4 w)
      else if \<not> scannerChannelListContains (scannerTuningCoveredPrimaryChannels t) (tn_primary t)
      then error ''Decoded primary channel is outside chanspec span''
      else if \<not> scannerChannelListContains (scannerBandPrimaryChannels (tn_band t)) (tn_primary t)
      then error (''Unsupported decoded primary channel '' @ to_string (tn_primary t))
      else case tn_center t of
          None \<Rightarrow> okay t
        | Some center \<Rightarrow>
            if \<not> scannerChannelListContains (scannerManualTargetChannels (tn_band t) (tn_width t)) center
            then error (''Unsupported decoded center channel '' @ to_string center)
            else okay t)"

definition decodeChanspec :: "u32 \<Rightarrow> tuning result" where
  "decodeChanspec chanspec =
     (let band = chanspec AND 0xc000; w = chanspec AND 0x3800;
          channel = uint (chanspec AND 0xff); sideband = chanspec AND 0x300;
          t = \<lparr>tn_band = (if band = kBand5Ghz then Band5Ghz else Band24Ghz), tn_primary = channel,
               tn_width = 20, tn_center = None\<rparr>
      in if w = kWidth20Mhz then
           (if \<not> scannerChannelListContains (scannerBandPrimaryChannels (tn_band t)) channel
            then error (''Unsupported 20 MHz chanspec primary channel '' @ to_string channel)
            else okay t)
         else if w = kWidth40Mhz then
           (if tn_band t \<noteq> Band5Ghz then checkDecoded w t
            else let t40 = t\<lparr>tn_width := 40, tn_center := Some channel\<rparr>
                 in if sideband = kControlSidebandLower
                    then checkDecoded w (t40\<lparr>tn_primary := channel - 2\<rparr>)
                    else if sideband = kControlSidebandLowerUpper
                    then checkDecoded w (t40\<lparr>tn_primary := channel + 2\<rparr>)
                    else error (''Unsupported 40 MHz control sideband 0x'' @ hex4 sideband))
         else if w = kWidth80Mhz then
           (if tn_band t \<noteq> Band5Ghz then checkDecoded w t
            else let t80 = t\<lparr>tn_width := 80, tn_center := Some channel\<rparr>
                 in if sideband = kControlSidebandLower
                    then checkDecoded w (t80\<lparr>tn_primary := channel - 6\<rparr>)
                    else if sideband = kControlSidebandLowerUpper
                    then checkDecoded w (t80\<lparr>tn_primary := channel - 2\<rparr>)
                    else if sideband = kControlSidebandUpperLower
                    then checkDecoded w (t80\<lparr>tn_primary := channel + 2\<rparr>)
                    else if sideband = kControlSidebandUpperUpper
                    then checkDecoded w (t80\<lparr>tn_primary := channel + 6\<rparr>)
                    else error (''Unsupported 80 MHz control sideband 0x'' @ hex4 sideband))
         else checkDecoded w t)"

definition describeChanspec :: "u32 \<Rightarrow> string" where
  "describeChanspec chanspec =
     (let raw = ''0x'' @ hex4 (chanspec AND 0xffff)
      in case decodeChanspec chanspec of
           Inl msg \<Rightarrow> raw @ '' ('' @ msg @ '')''
         | Inr t \<Rightarrow>
             if tn_width t = 20
             then raw @ '' ('' @ scannerBandLabel (tn_band t) @ '' ch '' @ to_string (tn_primary t)
                  @ '' @ 20 MHz)''
             else raw @ '' ('' @ scannerBandLabel (tn_band t) @ '' center '' @ to_string (the (tn_center t))
                  @ '' @ '' @ to_string (tn_width t) @ '' MHz span ''
                  @ scannerChannelSpanLabel (scannerTuningCoveredPrimaryChannels t) (tn_width t) @ '')'')"

section \<open>Payloads\<close>

definition buildGetChanspecPayload :: "u8 list" where
  "buildGetChanspecPayload =
     copyAt 16 kChanspecName
       (writeCommonPayloadPrefix kGetChanspecCommandId 0 (replicate kGetPayloadSize 0))"

definition buildSetChanspecPayload :: "tuning \<Rightarrow> u8 list result" where
  "buildSetChanspecPayload t =
     (case encodeChanspec t of
        Inl msg \<Rightarrow> error msg
      | Inr chanspec \<Rightarrow>
          okay (writeLe32 25 chanspec (copyAt 16 kChanspecName
            (writeCommonPayloadPrefix kSetChanspecCommandId 1 (replicate kSetPayloadSize 0)))))"

definition parseGetChanspecPayload :: "u8 list \<Rightarrow> u32 result" where
  "parseGetChanspecPayload payload =
     (if length payload < kGetPayloadSize then error ''Nexmon get-chanspec reply is too short''
      else if take (length kMagicPrefix) payload \<noteq> kMagicPrefix
      then error ''Nexmon get-chanspec reply prefix mismatch''
      else if readLe32 payload 8 \<noteq> kGetChanspecCommandId
      then error ''Nexmon get-chanspec reply command mismatch''
      else okay (readLe32 payload kChanspecValueOffset))"

section \<open>The supported tunings\<close>

definition allTunings :: "tuning list" where
  "allTunings =
     map (\<lambda>c. \<lparr>tn_band = Band24Ghz, tn_primary = c, tn_width = 20, tn_center = None\<rparr>) kScannerBand24PrimaryChannels
     @ map (\<lambda>c. \<lparr>tn_band = Band5Ghz, tn_primary = c, tn_width = 20, tn_center = None\<rparr>) kScannerBand5PrimaryChannels
     @ concat (map (\<lambda>w. concat (map (\<lambda>c. map
           (\<lambda>p. \<lparr>tn_band = Band5Ghz, tn_primary = p, tn_width = w, tn_center = Some c\<rparr>) (targetSpan Band5Ghz w c))
         (scannerManualTargetChannels Band5Ghz w))) [40, 80])"

lemma tuning_in_all:
  assumes "tuning_ok t" shows "t \<in> set allTunings"
proof (cases "tn_width t = 20")
  case True
  then have c: "tn_center t = None" "tn_primary t \<in> set (scannerBandPrimaryChannels (tn_band t))"
    using assms by (simp_all add: tuning_ok_def)
  have "t = \<lparr>tn_band = tn_band t, tn_primary = tn_primary t, tn_width = 20, tn_center = None\<rparr>"
    using True c(1) by simp
  then show ?thesis
    using c(2) by (cases "tn_band t") (auto simp: allTunings_def table_simps)
next
  case False
  then have w: "tn_band t = Band5Ghz" "tn_width t \<in> {40, 80}"
    using wide_supported [of "tn_band t" "tn_width t"] assms by (simp_all add: tuning_ok_def)
  then obtain c where c: "c \<in> set (scannerManualTargetChannels Band5Ghz (tn_width t))" "tn_center t = Some c"
    "tn_primary t \<in> set (targetSpan Band5Ghz (tn_width t) c)"
    using assms False by (auto simp: tuning_ok_def)
  have "t = \<lparr>tn_band = Band5Ghz, tn_primary = tn_primary t, tn_width = tn_width t, tn_center = Some c\<rparr>"
    using w(1) c(2) by simp
  moreover have "\<dots> \<in> set allTunings" using w(2) c(1,3) by (auto simp: allTunings_def image_iff)
  ultimately show ?thesis by simp
qed

lemma encode_decode_all:
  "list_all (\<lambda>t. case encodeChanspec t of Inr c \<Rightarrow> decodeChanspec c = Inr t | Inl _ \<Rightarrow> False) allTunings"
  by code_simp

lemma checkDecoded_ok:
  assumes "checkDecoded w t = okay t'"
    and "tn_center t = None \<and> tn_width t = 20 \<or>
      tn_center t \<noteq> None \<and> tn_band t = Band5Ghz \<and> tn_width t \<in> {40, 80}"
  shows "tuning_ok t'"
proof -
  have t: "t' = t" "scannerWidthSupported (tn_band t) (tn_width t)"
    "tn_primary t \<in> set (scannerTuningCoveredPrimaryChannels t)"
    "tn_primary t \<in> set (scannerBandPrimaryChannels (tn_band t))"
    using assms(1) by (auto simp: checkDecoded_def split: if_splits option.splits)
  show ?thesis
  proof (cases "tn_center t")
    case None
    then show ?thesis using assms(2) t by (simp add: tuning_ok_def)
  next
    case (Some c)
    then have w: "tn_band t = Band5Ghz" "tn_width t \<in> {40, 80}" using assms(2) by auto
    have "c \<in> set (scannerManualTargetChannels Band5Ghz (tn_width t))"
      using assms(1) Some w(1) by (auto simp: checkDecoded_def split: if_splits)
    then show ?thesis
      using t(2,3) w unfolding t(1) span_tuning [OF Some w] by (auto simp: tuning_ok_def Some)
  qed
qed

lemma tuning_ok_20:
  "tuning_ok \<lparr>tn_band = b, tn_primary = p, tn_width = 20, tn_center = None\<rparr> \<longleftrightarrow>
   p \<in> set (scannerBandPrimaryChannels b)"
  by (cases b) (simp_all add: tuning_ok_def scannerWidthSupported.simps)

lemma decode_ok: "decodeChanspec w = okay t \<Longrightarrow> tuning_ok t"
  unfolding decodeChanspec_def Let_def
  by (auto simp: tuning_ok_20 split: if_splits dest!: checkDecoded_ok)

text \<open>The wide encoders accept supported tunings only.\<close>

lemma encode_wide_ok:
  assumes "encodeChanspec t = okay c" "tn_width t \<noteq> 20"
  shows "tuning_ok t"
proof -
  have s: "scannerWidthSupported (tn_band t) (tn_width t)"
    using assms(1) by (auto simp: encodeChanspec_def Let_def split: if_splits)
  note w = wide_supported [OF s assms(2)]
  have "\<exists>c \<in> set (scannerManualTargetChannels Band5Ghz (tn_width t)).
      tn_center t = Some c \<and> tn_primary t \<in> set (targetSpan Band5Ghz (tn_width t) c)"
    using w(2)
  proof (elim insertE emptyE)
    assume "tn_width t = 40"
    with assms(1) w(1) show ?thesis
      by (auto simp: encodeChanspec_def encode5GHz40MHzChanspec_def Let_def spans_nonempty
          split: if_splits option.splits)
  next
    assume "tn_width t = 80"
    with assms(1) w(1) show ?thesis
      by (auto simp: encodeChanspec_def encode5GHz80MHzChanspec_def Let_def spans_nonempty
          split: if_splits option.splits)
  qed
  then show ?thesis using s assms(2) w(1) by (simp add: tuning_ok_def)
qed

text \<open>
  C33: every supported tuning is encoded, and decoding its chanspec gives the tuning back; whatever
  word is decoded, what comes out is a supported tuning; and an unsupported 40 or 80 MHz tuning is
  refused by the encoder.
\<close>

theorem chanspec_roundtrip:
  "(tuning_ok t \<longrightarrow> (\<exists>c. encodeChanspec t = okay c \<and> decodeChanspec c = okay t)) \<and>
   (decodeChanspec w = okay t \<longrightarrow> tuning_ok t) \<and>
   (\<not> tuning_ok t \<and> tn_width t \<noteq> 20 \<longrightarrow> isError (encodeChanspec t))"
proof -
  have "\<exists>c. encodeChanspec t = okay c \<and> decodeChanspec c = okay t" if "tuning_ok t"
  proof (cases "encodeChanspec t")
    case (Inl m)
    then show ?thesis using encode_decode_all tuning_in_all [OF that] by (auto simp: list_all_iff)
  next
    case (Inr c)
    then show ?thesis using encode_decode_all tuning_in_all [OF that] by (auto simp: list_all_iff)
  qed
  moreover have "isError (encodeChanspec t)" if "\<not> tuning_ok t" "tn_width t \<noteq> 20"
    using encode_wide_ok that by (cases "encodeChanspec t") auto
  ultimately show ?thesis using decode_ok by blast
qed

theorem chanspec_roundtrip_witness:
  "\<exists>c. encodeChanspec \<lparr>tn_band = Band5Ghz, tn_primary = 48, tn_width = 80, tn_center = Some 42\<rparr> = okay c
     \<and> decodeChanspec c = okay \<lparr>tn_band = Band5Ghz, tn_primary = 48, tn_width = 80, tn_center = Some 42\<rparr>"
proof -
  have "tuning_ok \<lparr>tn_band = Band5Ghz, tn_primary = 48, tn_width = 80, tn_center = Some 42\<rparr>"
    by (simp add: tuning_ok_def table_simps channel_tables spans_nonempty)
  then show ?thesis using chanspec_roundtrip by blast
qed

text \<open>
  Two corners of the code. A chanspec whose width bits name no supported width of its band is
  decoded as a 20 MHz tuning when its channel number allows it; the message for an unsupported width
  is never produced. And the 20 MHz encoder goes by the channel number alone, so a tuning of the 5 GHz
  band with a channel up to 11 becomes a chanspec of the 2.4 GHz band.
\<close>

lemma unknown_width_is_20MHz:
  assumes "w AND 0x3800 \<notin> {kWidth20Mhz, kWidth40Mhz, kWidth80Mhz}"
    and "uint (w AND 0xff) \<in> set (scannerBandPrimaryChannels b)"
    and "b = (if w AND 0xc000 = kBand5Ghz then Band5Ghz else Band24Ghz)"
  shows "decodeChanspec w = okay \<lparr>tn_band = b, tn_primary = uint (w AND 0xff), tn_width = 20, tn_center = None\<rparr>"
  using assms
  by (auto simp: decodeChanspec_def Let_def checkDecoded_def scannerWidthSupported.simps
      scannerTuningCoveredPrimaryChannels_def)

lemma encode_20MHz_ignores_band:
  "encodeChanspec \<lparr>tn_band = Band5Ghz, tn_primary = 6, tn_width = 20, tn_center = None\<rparr>
     = encodeChanspec \<lparr>tn_band = Band24Ghz, tn_primary = 6, tn_width = 20, tn_center = None\<rparr>"
  by (simp add: encodeChanspec_def Let_def scannerWidthSupported.simps)

section \<open>Reading and writing payloads\<close>

lemma length_writeLe32 [simp]: "length (writeLe32 n v p) = length p"
  by (simp add: writeLe32_def)

lemma length_copyAt [simp]: "n + length src \<le> length p \<Longrightarrow> length (copyAt n src p) = length p"
  by (simp add: copyAt_def)

lemma bit_ff: "bit (0xff :: int) n \<longleftrightarrow> n < 8"
proof -
  have "(0xff :: int) = mask 8" by (simp add: mask_eq_exp_minus_1)
  then show ?thesis by (simp only: bit_mask_iff) auto
qed

lemma bytes_of_word:
  "(ucast (ucast (v AND 0xff :: u32) :: u8) :: u32) OR push_bit 8 (ucast (ucast (drop_bit 8 v AND 0xff) :: u8))
   OR push_bit 16 (ucast (ucast (drop_bit 16 v AND 0xff) :: u8))
   OR push_bit 24 (ucast (ucast (drop_bit 24 v AND 0xff) :: u8)) = v"
proof (rule bit_word_eqI)
  fix n assume "n < LENGTH(32)"
  then consider "n < 8" | "8 \<le> n" "n < 16" | "16 \<le> n" "n < 24" | "24 \<le> n" "n < 32" by fastforce
  then show "bit ((ucast (ucast (v AND 0xff :: u32) :: u8) :: u32)
      OR push_bit 8 (ucast (ucast (drop_bit 8 v AND 0xff) :: u8))
      OR push_bit 16 (ucast (ucast (drop_bit 16 v AND 0xff) :: u8))
      OR push_bit 24 (ucast (ucast (drop_bit 24 v AND 0xff) :: u8))) n = bit v n"
    by cases (auto simp: bit_simps bit_ff)
qed

lemma read_write:
  assumes "n + 4 \<le> length p"
  shows "readLe32 (writeLe32 n v p) n = v"
  using assms bytes_of_word [of v] by (simp add: readLe32_def writeLe32_def)

lemma readLe32_cong:
  assumes "\<And>j. k \<le> j \<Longrightarrow> j < k + 4 \<Longrightarrow> p ! j = q ! j"
  shows "readLe32 p k = readLe32 q k"
  using assms [of k] assms [of "k + 1"] assms [of "k + 2"] assms [of "k + 3"] by (simp add: readLe32_def)

lemma read_write_other:
  assumes "n + 4 \<le> k \<or> k + 4 \<le> n"
  shows "readLe32 (writeLe32 n v p) k = readLe32 p k"
proof -
  have "writeLe32 n v p ! j = p ! j" if "j < n \<or> n + 4 \<le> j" for j
    using that by (elim disjE) (simp_all add: writeLe32_def)
  with assms show ?thesis by (intro readLe32_cong) auto
qed

lemma take_writeLe32: "k \<le> n \<Longrightarrow> take k (writeLe32 n v p) = take k p"
  by (simp add: writeLe32_def)

lemma drop_writeLe32: "n + 4 \<le> k \<Longrightarrow> drop k (writeLe32 n v p) = drop k p"
  by (simp add: writeLe32_def drop_update_cancel)

lemma nth_copyAt_other:
  "n + length src \<le> length p \<Longrightarrow> k < n \<or> n + length src \<le> k \<Longrightarrow> k < length p \<Longrightarrow> copyAt n src p ! k = p ! k"
  by (auto simp: copyAt_def nth_append)

lemma read_copyAt_other:
  assumes "n + length src \<le> length p" "k + 4 \<le> n \<or> n + length src \<le> k" "k + 4 \<le> length p"
  shows "readLe32 (copyAt n src p) k = readLe32 p k"
  using assms by (intro readLe32_cong nth_copyAt_other) auto

lemma name_length [simp]: "length kChanspecName = 9" "length kMagicPrefix = 8"
  by (simp_all add: kChanspecName_def kMagicPrefix_def)

text \<open>
  A set-channel payload has 32 bytes with the magic prefix, the set command, the flag 1, the
  variable's name and, right after it, the chanspec of the tuning; and a get reply is accepted
  exactly when it is long enough, has the prefix and echoes the get command, so a set payload is not
  taken for one.
\<close>

theorem payload_fields:
  "(case buildSetChanspecPayload t of
      Inl msg \<Rightarrow> encodeChanspec t = error msg
    | Inr p \<Rightarrow> encodeChanspec t = okay (readLe32 p 25) \<and> length p = 32 \<and> take 8 p = kMagicPrefix \<and>
        readLe32 p 8 = kSetChanspecCommandId \<and> readLe32 p 12 = 1 \<and> take 9 (drop 16 p) = kChanspecName \<and>
        parseGetChanspecPayload p = error ''Nexmon get-chanspec reply command mismatch'') \<and>
   (parseGetChanspecPayload reply = okay v \<longleftrightarrow>
      28 \<le> length reply \<and> take 8 reply = kMagicPrefix \<and> readLe32 reply 8 = kGetChanspecCommandId \<and>
      v = readLe32 reply 16)"
proof
  let ?q = "writeCommonPayloadPrefix kSetChanspecCommandId 1 (replicate 32 0)"
  let ?r = "copyAt 16 kChanspecName ?q"
  have len: "length ?q = 32" "length ?r = 32"
    by (simp_all add: writeCommonPayloadPrefix_def)
  have q: "take 8 ?q = kMagicPrefix" "readLe32 ?q 8 = kSetChanspecCommandId" "readLe32 ?q 12 = 1"
    by (simp_all add: writeCommonPayloadPrefix_def take_writeLe32 read_write read_write_other)
      (simp add: copyAt_def)
  have r: "take 8 ?r = kMagicPrefix" "readLe32 ?r 8 = kSetChanspecCommandId" "readLe32 ?r 12 = 1"
    "take 9 (drop 16 ?r) = kChanspecName"
    using q len by (simp_all add: read_copyAt_other) (simp_all add: copyAt_def min_def)
  have "readLe32 (writeLe32 25 c ?r) 25 = c" "length (writeLe32 25 c ?r) = 32"
    "take 8 (writeLe32 25 c ?r) = kMagicPrefix" "readLe32 (writeLe32 25 c ?r) 8 = kSetChanspecCommandId"
    "readLe32 (writeLe32 25 c ?r) 12 = 1" "take 9 (drop 16 (writeLe32 25 c ?r)) = kChanspecName" for c
    using r len by (simp_all add: read_write read_write_other take_writeLe32 take_drop)
  then show "case buildSetChanspecPayload t of
      Inl msg \<Rightarrow> encodeChanspec t = error msg
    | Inr p \<Rightarrow> encodeChanspec t = okay (readLe32 p 25) \<and> length p = 32 \<and> take 8 p = kMagicPrefix \<and>
        readLe32 p 8 = kSetChanspecCommandId \<and> readLe32 p 12 = 1 \<and> take 9 (drop 16 p) = kChanspecName \<and>
        parseGetChanspecPayload p = error ''Nexmon get-chanspec reply command mismatch''"
    by (cases "encodeChanspec t")
      (simp_all add: buildSetChanspecPayload_def parseGetChanspecPayload_def kSetPayloadSize_def
        kGetPayloadSize_def kSetChanspecCommandId_def kGetChanspecCommandId_def)
  show "parseGetChanspecPayload reply = okay v \<longleftrightarrow>
      28 \<le> length reply \<and> take 8 reply = kMagicPrefix \<and> readLe32 reply 8 = kGetChanspecCommandId \<and>
      v = readLe32 reply 16"
    by (auto simp: parseGetChanspecPayload_def kGetPayloadSize_def kChanspecValueOffset_def)
qed

end
