(* ===== verification/ScanPlanner.thy ===== *)
theory ScanPlanner
  imports ChannelProtocol
begin

text \<open>
  Which channel the Wi-Fi scanner listens to next: the interface \<open>os-manager/network/ScanPlanner.h\<close> and
  its implementation \<open>AdaptiveScanPlanner.cpp\<close>. Times are nanoseconds of the steady clock. A result
  \<open>None\<close> stands for the undefined behaviour of an empty candidate list or of a tuning the planner
  does not know; the lemmas show that it does not happen. The lemmas also show that no channel of the
  chosen band is left out.
\<close>

section \<open>Steps and observations\<close>

record scan_step =
  st_tuning :: tuning
  st_dwellMs :: int

record observation =
  ob_step :: scan_step
  ob_sawTraffic :: bool
  ob_radiosSeen :: nat
  ob_newRadiosSeen :: nat
  ob_strongestSignalDbm :: "int option"
  ob_observedChannels :: "int list"

section \<open>State\<close>

record planner_config =
  pc_trackingDwellMs :: int
  pc_discoveryDwellMs :: int
  pc_minDwellMs :: int
  pc_maxDwellMs :: int
  pc_trackingStepsPerDiscovery :: int
  pc_trackingJitterMs :: int
  pc_discoveryJitterMs :: int
  pc_maxRevisitAgeMs :: int
  pc_rngSeed :: u32

definition default_planner_config :: planner_config where
  "default_planner_config =
     \<lparr>pc_trackingDwellMs = 150, pc_discoveryDwellMs = 250, pc_minDwellMs = 100, pc_maxDwellMs = 300,
      pc_trackingStepsPerDiscovery = 3, pc_trackingJitterMs = 10, pc_discoveryJitterMs = 20,
      pc_maxRevisitAgeMs = 3000, pc_rngSeed = 0x6d2b79f5\<rparr>"

record tuning_state =
  ts_tuning :: tuning
  ts_emptyVisits :: int
  ts_newRadios :: nat
  ts_observedAt :: "int option"
  ts_visitedAt :: "int option"
  ts_signal :: "int option"

record planner =
  ap_config :: planner_config
  ap_autoConfig :: auto_config
  ap_nextTracking :: nat
  ap_states :: "tuning_state list"
  ap_steps :: int
  ap_jitter :: u32

section \<open>The tunings\<close>

definition scannerTuningMatchesConfig :: "tuning \<Rightarrow> auto_config \<Rightarrow> bool" where
  "scannerTuningMatchesConfig t c = (tn_band t = ac_band c \<and> tn_width t = ac_width c)"

definition makeScannerTuning :: "scanner_band \<Rightarrow> int \<Rightarrow> int \<Rightarrow> int option \<Rightarrow> tuning" where
  "makeScannerTuning band primary w center =
     \<lparr>tn_band = band, tn_primary = primary, tn_width = w, tn_center = center\<rparr>"

text \<open>The two loops over centres, for one width.\<close>

definition centerTunings :: "int \<Rightarrow> tuning list" where
  "centerTunings w =
     concat (map (\<lambda>center.
       let covered = scannerTuningCoveredPrimaryChannels
             \<lparr>tn_band = Band5Ghz, tn_primary = center, tn_width = w, tn_center = Some center\<rparr>
       in if covered \<noteq> [] then [makeScannerTuning Band5Ghz (hd covered) w (Some center)] else [])
     (scannerManualTargetChannels Band5Ghz w))"

definition supportedScannerTunings :: "tuning list" where
  "supportedScannerTunings =
     map (\<lambda>c. makeScannerTuning Band24Ghz c 20 None) (scannerBandPrimaryChannels Band24Ghz)
     @ map (\<lambda>c. makeScannerTuning Band5Ghz c 20 None) (scannerBandPrimaryChannels Band5Ghz)
     @ centerTunings 40 @ centerTunings 80"

text \<open>\<open>duration_cast<milliseconds>\<close> drops the fraction, towards zero.\<close>

definition toMillis :: "int \<Rightarrow> int" where
  "toMillis ns = (if ns < 0 then - (\<bar>ns\<bar> div 1000000) else ns div 1000000)"

definition ageMsOrMax :: "int option \<Rightarrow> int \<Rightarrow> int" where
  "ageMsOrMax timePoint now =
     (case timePoint of None \<Rightarrow> 2 ^ 63 - 1 | Some t \<Rightarrow> toMillis (now - t))"

section \<open>Operations\<close>

definition freshState :: "tuning \<Rightarrow> tuning_state" where
  "freshState t = \<lparr>ts_tuning = t, ts_emptyVisits = 0, ts_newRadios = 0, ts_observedAt = None,
     ts_visitedAt = None, ts_signal = None\<rparr>"

definition planner_reset :: "planner \<Rightarrow> planner" where
  "planner_reset p =
     p\<lparr>ap_states := map (\<lambda>s. s\<lparr>ts_emptyVisits := 0, ts_newRadios := 0, ts_observedAt := None,
                                ts_visitedAt := None, ts_signal := None\<rparr>) (ap_states p),
       ap_autoConfig := \<lparr>ac_band = Band5Ghz, ac_width = 20\<rparr>, ap_nextTracking := 0,
       ap_steps := pc_trackingStepsPerDiscovery (ap_config p), ap_jitter := pc_rngSeed (ap_config p)\<rparr>"

definition newPlanner :: "planner_config \<Rightarrow> planner" where
  "newPlanner c =
     planner_reset
       \<lparr>ap_config = c, ap_autoConfig = \<lparr>ac_band = Band5Ghz, ac_width = 20\<rparr>, ap_nextTracking = 0,
        ap_states = map freshState supportedScannerTunings, ap_steps = 0, ap_jitter = 0\<rparr>"

definition setAutoConfig :: "auto_config \<Rightarrow> planner \<Rightarrow> planner" where
  "setAutoConfig c p =
     (let w = (if scannerWidthSupported (ac_band c) (ac_width c) then ac_width c
               else scannerDefaultWidthMhz (ac_band c))
      in if ac_band (ap_autoConfig p) = ac_band c \<and> ac_width (ap_autoConfig p) = w then p
         else p\<lparr>ap_autoConfig := \<lparr>ac_band = ac_band c, ac_width = w\<rparr>, ap_nextTracking := 0,
                ap_steps := pc_trackingStepsPerDiscovery (ap_config p)\<rparr>)"

definition focusCandidates :: "planner \<Rightarrow> tuning_state list" where
  "focusCandidates p =
     filter (\<lambda>s. scannerTuningMatchesConfig (ts_tuning s) (ap_autoConfig p)) (ap_states p)"

definition candidatePreferredForDiscovery :: "int \<Rightarrow> tuning_state \<Rightarrow> tuning_state \<Rightarrow> bool" where
  "candidatePreferredForDiscovery now c b =
     (let cv = ageMsOrMax (ts_visitedAt c) now; bv = ageMsOrMax (ts_visitedAt b) now
      in if cv \<noteq> bv then cv > bv
         else if (ts_observedAt c \<noteq> None) \<noteq> (ts_observedAt b \<noteq> None) then ts_observedAt c = None
         else
           let co = ageMsOrMax (ts_observedAt c) now; bo = ageMsOrMax (ts_observedAt b) now
           in if co \<noteq> bo then co > bo
              else if ts_emptyVisits c \<noteq> ts_emptyVisits b then ts_emptyVisits c < ts_emptyVisits b
              else tn_primary (ts_tuning c) < tn_primary (ts_tuning b))"

definition hasOverdueCandidate :: "int \<Rightarrow> planner \<Rightarrow> bool" where
  "hasOverdueCandidate now p =
     list_ex (\<lambda>s. case ts_visitedAt s of None \<Rightarrow> False
                  | Some t \<Rightarrow> toMillis (now - t) > pc_maxRevisitAgeMs (ap_config p)) (focusCandidates p)"

definition jitteredDwellMs :: "int \<Rightarrow> int \<Rightarrow> planner \<Rightarrow> int \<times> planner" where
  "jitteredDwellMs baseDwellMs maxJitterMs p =
     (let j = ap_jitter p * 1664525 + 1013904223;
          span = maxJitterMs * 2 + 1;
          jitter = sint (j mod word_of_int span) - maxJitterMs
      in (clamp (baseDwellMs + jitter) (pc_minDwellMs (ap_config p)) (pc_maxDwellMs (ap_config p)),
          p\<lparr>ap_jitter := j\<rparr>))"

text \<open>The scan starts with the first candidate as the best one and skips it.\<close>

definition selectDiscoveryTuning :: "int \<Rightarrow> planner \<Rightarrow> tuning option" where
  "selectDiscoveryTuning now p =
     (case focusCandidates p of
        [] \<Rightarrow> None
      | c # cs \<Rightarrow>
          Some (ts_tuning (fold (\<lambda>c b. if candidatePreferredForDiscovery now c b then c else b) cs c)))"

definition selectTrackingTuning :: "planner \<Rightarrow> (tuning \<times> planner) option" where
  "selectTrackingTuning p =
     (let candidates = focusCandidates p; n = length candidates
      in if n = 0 then None
         else Some (ts_tuning (candidates ! (ap_nextTracking p mod n)),
                    p\<lparr>ap_nextTracking := (ap_nextTracking p + 1) mod n\<rparr>))"

fun findIndex :: "('a \<Rightarrow> bool) \<Rightarrow> 'a list \<Rightarrow> nat option" where
  "findIndex P [] = None"
| "findIndex P (x # xs) = (if P x then Some 0 else map_option Suc (findIndex P xs))"

definition syncTrackingCursorAfterTuning :: "tuning \<Rightarrow> planner \<Rightarrow> planner" where
  "syncTrackingCursorAfterTuning t p =
     (let candidates = focusCandidates p
      in case findIndex (\<lambda>s. ts_tuning s = t) candidates of
           None \<Rightarrow> p\<lparr>ap_nextTracking := 0\<rparr>
         | Some i \<Rightarrow> p\<lparr>ap_nextTracking := (i + 1) mod length candidates\<rparr>)"

definition shouldUseDiscovery :: "int \<Rightarrow> planner \<Rightarrow> bool" where
  "shouldUseDiscovery now p =
     (hasOverdueCandidate now p \<or> ap_steps p \<ge> pc_trackingStepsPerDiscovery (ap_config p))"

definition nextStep :: "int \<Rightarrow> planner \<Rightarrow> (scan_step \<times> planner) option" where
  "nextStep now p =
     (if shouldUseDiscovery now p
      then do {
        t \<leftarrow> selectDiscoveryTuning now p;
        let p1 = syncTrackingCursorAfterTuning t (p\<lparr>ap_steps := 0\<rparr>);
        let (dwell, p2) = jitteredDwellMs (pc_discoveryDwellMs (ap_config p))
                            (pc_discoveryJitterMs (ap_config p)) p1;
        Some (\<lparr>st_tuning = t, st_dwellMs = dwell\<rparr>, p2)
      }
      else do {
        (t, p1) \<leftarrow> selectTrackingTuning p;
        let (dwell, p2) = jitteredDwellMs (pc_trackingDwellMs (ap_config p))
                            (pc_trackingJitterMs (ap_config p)) (p1\<lparr>ap_steps := ap_steps p1 + 1\<rparr>);
        Some (\<lparr>st_tuning = t, st_dwellMs = dwell\<rparr>, p2)
      })"

definition noteObservation :: "observation \<Rightarrow> int \<Rightarrow> tuning_state \<Rightarrow> tuning_state" where
  "noteObservation ob now s0 =
     (let s = s0\<lparr>ts_visitedAt := Some now\<rparr>
      in if ob_sawTraffic ob
         then s\<lparr>ts_emptyVisits := 0, ts_newRadios := ob_newRadiosSeen ob, ts_observedAt := Some now,
                ts_signal := ob_strongestSignalDbm ob\<rparr>
         else s\<lparr>ts_emptyVisits := ts_emptyVisits s + 1, ts_newRadios := 0\<rparr>)"

definition recordObservation :: "observation \<Rightarrow> int \<Rightarrow> planner \<Rightarrow> planner option" where
  "recordObservation ob now p =
     (case findIndex (\<lambda>s. ts_tuning s = st_tuning (ob_step ob)) (ap_states p) of
        None \<Rightarrow> None
      | Some i \<Rightarrow> Some (p\<lparr>ap_states := (ap_states p)[i := noteObservation ob now (ap_states p ! i)]\<rparr>))"

section \<open>The contract of a scan planner\<close>

text \<open>A run of the scanner's loop: each round asks for a step, then records what was seen.\<close>

fun scanRounds ::
  "(int \<Rightarrow> 'p \<Rightarrow> (scan_step \<times> 'p) option) \<Rightarrow> (observation \<Rightarrow> int \<Rightarrow> 'p \<Rightarrow> 'p option)
   \<Rightarrow> (int \<times> observation \<times> int) list \<Rightarrow> 'p \<Rightarrow> (scan_step list \<times> 'p) option" where
  "scanRounds nxt rec [] p = Some ([], p)"
| "scanRounds nxt rec ((now, ob, later) # rs) p = do {
     (step, p1) \<leftarrow> nxt now p;
     p2 \<leftarrow> rec (ob\<lparr>ob_step := step\<rparr>) later p1;
     (steps, p3) \<leftarrow> scanRounds nxt rec rs p2;
     Some (step # steps, p3)
   }"

text \<open>
  What the scanner service relies on: on a valid planner a step is always found, it is one the current
  configuration asks for, its observation can be recorded, and neither changes what is asked for.
\<close>

locale scan_planner =
  fixes reset :: "'p \<Rightarrow> 'p"
    and setAuto :: "auto_config \<Rightarrow> 'p \<Rightarrow> 'p"
    and nxt :: "int \<Rightarrow> 'p \<Rightarrow> (scan_step \<times> 'p) option"
    and rec :: "observation \<Rightarrow> int \<Rightarrow> 'p \<Rightarrow> 'p option"
    and valid :: "'p \<Rightarrow> bool"
    and focus :: "'p \<Rightarrow> tuning set"
  assumes valid_reset: "valid p \<Longrightarrow> valid (reset p)"
    and valid_setAuto: "valid p \<Longrightarrow> valid (setAuto c p)"
    and step: "valid p \<Longrightarrow> \<exists>s p'. nxt now p = Some (s, p') \<and> valid p' \<and> st_tuning s \<in> focus p \<and> focus p' = focus p"
    and recorded: "valid p \<Longrightarrow> st_tuning (ob_step ob) \<in> focus p \<Longrightarrow>
      \<exists>p'. rec ob now p = Some p' \<and> valid p' \<and> focus p' = focus p"
begin

lemma round:
  assumes "valid p"
  shows "\<exists>s p1 p2. nxt now p = Some (s, p1) \<and> rec (ob\<lparr>ob_step := s\<rparr>) later p1 = Some p2 \<and>
    st_tuning s \<in> focus p \<and> valid p2 \<and> focus p2 = focus p"
proof -
  obtain s p1 where s: "nxt now p = Some (s, p1)" "valid p1" "st_tuning s \<in> focus p" "focus p1 = focus p"
    using step [OF assms] by blast
  then obtain p2 where "rec (ob\<lparr>ob_step := s\<rparr>) later p1 = Some p2" "valid p2" "focus p2 = focus p1"
    using recorded [OF s(2), of "ob\<lparr>ob_step := s\<rparr>"] by fastforce
  with s show ?thesis by auto
qed

lemma rounds:
  "valid p \<Longrightarrow> \<exists>steps p'. scanRounds nxt rec rs p = Some (steps, p') \<and> valid p' \<and> focus p' = focus p \<and>
     length steps = length rs \<and> st_tuning ` set steps \<subseteq> focus p"
proof (induction rs arbitrary: p)
  case Nil
  then show ?case by simp
next
  case (Cons r rs)
  obtain now ob later where r: "r = (now, ob, later)" by (cases r)
  obtain s p1 p2 where n: "nxt now p = Some (s, p1)" "rec (ob\<lparr>ob_step := s\<rparr>) later p1 = Some p2"
    "st_tuning s \<in> focus p" "valid p2" "focus p2 = focus p"
    using round [OF Cons.prems] by blast
  with Cons.IH [OF n(4)] show ?case by (auto simp: r)
qed

end

section \<open>The adaptive planner keeps the contract\<close>

definition planner_ok :: "planner \<Rightarrow> bool" where
  "planner_ok p =
     (map ts_tuning (ap_states p) = supportedScannerTunings \<and>
      scannerWidthSupported (ac_band (ap_autoConfig p)) (ac_width (ap_autoConfig p)) \<and>
      min 0 (pc_trackingStepsPerDiscovery (ap_config p)) \<le> ap_steps p)"

definition focusTunings :: "planner \<Rightarrow> tuning set" where
  "focusTunings p = ts_tuning ` set (focusCandidates p)"

lemma focus_list:
  "map ts_tuning (focusCandidates p) =
     filter (\<lambda>t. scannerTuningMatchesConfig t (ap_autoConfig p)) (map ts_tuning (ap_states p))"
  by (simp add: focusCandidates_def filter_map o_def)

lemma tunings_facts:
  "distinct supportedScannerTunings"
  "list_all (\<lambda>t. case encodeChanspec t of Inl _ \<Rightarrow> False | Inr _ \<Rightarrow> True) supportedScannerTunings"
  by code_simp+

lemma focus_nonempty_table:
  "filter (\<lambda>t. scannerTuningMatchesConfig t \<lparr>ac_band = Band24Ghz, ac_width = 20\<rparr>) supportedScannerTunings \<noteq> []"
  "filter (\<lambda>t. scannerTuningMatchesConfig t \<lparr>ac_band = Band5Ghz, ac_width = 20\<rparr>) supportedScannerTunings \<noteq> []"
  "filter (\<lambda>t. scannerTuningMatchesConfig t \<lparr>ac_band = Band5Ghz, ac_width = 40\<rparr>) supportedScannerTunings \<noteq> []"
  "filter (\<lambda>t. scannerTuningMatchesConfig t \<lparr>ac_band = Band5Ghz, ac_width = 80\<rparr>) supportedScannerTunings \<noteq> []"
  by code_simp+

lemma focus_nonempty:
  assumes "planner_ok p" shows "focusCandidates p \<noteq> []"
proof -
  obtain b w where c: "ap_autoConfig p = \<lparr>ac_band = b, ac_width = w\<rparr>" by (cases "ap_autoConfig p") auto
  have "scannerWidthSupported b w" using assms by (simp add: planner_ok_def c)
  then have "filter (\<lambda>t. scannerTuningMatchesConfig t (ap_autoConfig p)) supportedScannerTunings \<noteq> []"
    unfolding c using focus_nonempty_table by (cases b) (auto simp: scannerWidthSupported.simps)
  then have "map ts_tuning (focusCandidates p) \<noteq> []"
    using assms by (simp add: focus_list planner_ok_def)
  then show ?thesis by simp
qed

lemma findIndex_Some:
  "(\<exists>x \<in> set xs. P x) \<Longrightarrow> \<exists>i. findIndex P xs = Some i \<and> i < length xs \<and> P (xs ! i)"
proof (induction xs)
  case Nil
  then show ?case by simp
next
  case (Cons a xs)
  show ?case
  proof (cases "P a")
    case True
    then show ?thesis by simp
  next
    case False
    then obtain i where "findIndex P xs = Some i" "i < length xs" "P (xs ! i)" using Cons by auto
    with False show ?thesis by (intro exI [of _ "Suc i"]) simp
  qed
qed

text \<open>A step changes the cursor, the counter and the jitter only.\<close>

definition same_states :: "planner \<Rightarrow> planner \<Rightarrow> bool" where
  "same_states p q = (ap_states p = ap_states q \<and> ap_autoConfig p = ap_autoConfig q \<and> ap_config p = ap_config q)"

lemma same_states_focus: "same_states p q \<Longrightarrow> focusCandidates p = focusCandidates q"
  by (simp add: same_states_def focusCandidates_def)

lemma jittered_same: "jitteredDwellMs b m p = (d, q) \<Longrightarrow> same_states q p \<and> ap_steps q = ap_steps p"
  by (auto simp: jitteredDwellMs_def Let_def same_states_def)

lemma sync_same: "same_states (syncTrackingCursorAfterTuning t p) p \<and> ap_steps (syncTrackingCursorAfterTuning t p) = ap_steps p"
  by (simp add: syncTrackingCursorAfterTuning_def Let_def same_states_def split: option.split)

lemma jittered_bounds:
  "jitteredDwellMs b m p = (d, q) \<Longrightarrow> pc_minDwellMs (ap_config p) \<le> pc_maxDwellMs (ap_config p) \<Longrightarrow>
   pc_minDwellMs (ap_config p) \<le> d \<and> d \<le> pc_maxDwellMs (ap_config p)"
  using clamp_bounds by (auto simp: jitteredDwellMs_def Let_def)

text \<open>Discovery takes a candidate whose last visit is at least as long ago as any other's.\<close>

lemma preferred_age:
  "candidatePreferredForDiscovery now c b \<Longrightarrow> ageMsOrMax (ts_visitedAt b) now \<le> ageMsOrMax (ts_visitedAt c) now"
  "\<not> candidatePreferredForDiscovery now c b \<Longrightarrow> ageMsOrMax (ts_visitedAt c) now \<le> ageMsOrMax (ts_visitedAt b) now"
  by (auto simp: candidatePreferredForDiscovery_def Let_def split: if_splits)

lemma discovery_fold:
  fixes now cs c
  defines "r \<equiv> fold (\<lambda>c b. if candidatePreferredForDiscovery now c b then c else b) cs c"
  shows "r \<in> insert c (set cs) \<and>
    (\<forall>d \<in> insert c (set cs). ageMsOrMax (ts_visitedAt d) now \<le> ageMsOrMax (ts_visitedAt r) now)"
  unfolding r_def
proof (induction cs arbitrary: c)
  case Nil
  then show ?case by simp
next
  case (Cons d ds)
  let ?b = "if candidatePreferredForDiscovery now d c then d else c"
  have "ageMsOrMax (ts_visitedAt c) now \<le> ageMsOrMax (ts_visitedAt ?b) now"
    "ageMsOrMax (ts_visitedAt d) now \<le> ageMsOrMax (ts_visitedAt ?b) now"
    using preferred_age [of now d c] by auto
  with Cons.IH [of ?b] show ?case by (auto intro: order_trans)
qed

lemma discovery_oldest:
  assumes "focusCandidates p \<noteq> []"
  shows "\<exists>b \<in> set (focusCandidates p). selectDiscoveryTuning now p = Some (ts_tuning b) \<and>
    (\<forall>d \<in> set (focusCandidates p). ageMsOrMax (ts_visitedAt d) now \<le> ageMsOrMax (ts_visitedAt b) now)"
proof -
  obtain c cs where e: "focusCandidates p = c # cs" using assms by (cases "focusCandidates p") auto
  show ?thesis
    using discovery_fold [of now cs c] by (auto simp: e selectDiscoveryTuning_def intro!: bexI)
qed

text \<open>Both kinds of step find a tuning of the focus; they differ in the counter.\<close>

lemma nextStep_cases:
  assumes "planner_ok p"
  shows "\<exists>s q. nextStep now p = Some (s, q) \<and> same_states q p \<and> st_tuning s \<in> focusTunings p \<and>
    (if shouldUseDiscovery now p then ap_steps q = 0 \<and> selectDiscoveryTuning now p = Some (st_tuning s)
     else ap_steps q = ap_steps p + 1)"
proof (cases "shouldUseDiscovery now p")
  case True
  obtain b where b: "b \<in> set (focusCandidates p)" "selectDiscoveryTuning now p = Some (ts_tuning b)"
    using discovery_oldest [OF focus_nonempty [OF assms]] by blast
  let ?p1 = "syncTrackingCursorAfterTuning (ts_tuning b) (p\<lparr>ap_steps := 0\<rparr>)"
  obtain d q where q: "jitteredDwellMs (pc_discoveryDwellMs (ap_config p)) (pc_discoveryJitterMs (ap_config p)) ?p1 = (d, q)"
    by fastforce
  have "same_states q p \<and> ap_steps q = 0"
    using jittered_same [OF q] sync_same [of "ts_tuning b" "p\<lparr>ap_steps := 0\<rparr>"] by (simp add: same_states_def)
  then show ?thesis using True b q by (auto simp: nextStep_def focusTunings_def Let_def)
next
  case False
  let ?c = "focusCandidates p" and ?n = "length (focusCandidates p)"
  let ?t = "ts_tuning (?c ! (ap_nextTracking p mod ?n))"
  have n: "?n \<noteq> 0" "?c \<noteq> []" using focus_nonempty [OF assms] by auto
  obtain d q where q: "jitteredDwellMs (pc_trackingDwellMs (ap_config p)) (pc_trackingJitterMs (ap_config p))
      (p\<lparr>ap_nextTracking := (ap_nextTracking p + 1) mod ?n, ap_steps := ap_steps p + 1\<rparr>) = (d, q)"
    by fastforce
  have "same_states q p \<and> ap_steps q = ap_steps p + 1"
    using jittered_same [OF q] by (simp add: same_states_def)
  moreover have "?t \<in> focusTunings p" using n by (simp add: focusTunings_def)
  ultimately show ?thesis using False n q by (simp add: nextStep_def selectTrackingTuning_def Let_def)
qed

lemma nextStep_dwell:
  assumes "nextStep now p = Some (s, q)" "pc_minDwellMs (ap_config p) \<le> pc_maxDwellMs (ap_config p)"
  shows "pc_minDwellMs (ap_config p) \<le> st_dwellMs s \<and> st_dwellMs s \<le> pc_maxDwellMs (ap_config p)"
proof -
  obtain b m p1 d where d: "jitteredDwellMs b m p1 = (d, q)" "ap_config p1 = ap_config p" "st_dwellMs s = d"
    using assms(1) sync_same
    by (fastforce simp: nextStep_def selectTrackingTuning_def same_states_def Let_def
        split: if_splits prod.splits option.splits bind_splits)
  then show ?thesis using jittered_bounds [OF d(1)] assms(2) by simp
qed

text \<open>The tunings are distinct, so the update at the found index is the update of that tuning.\<close>

lemma update_at_index:
  assumes "distinct (map f xs)" "i < length xs" "f (xs ! i) = t"
  shows "xs[i := g (xs ! i)] = map (\<lambda>x. if f x = t then g x else x) xs"
proof (rule nth_equalityI)
  fix j assume "j < length (xs[i := g (xs ! i)])"
  then have j: "j < length xs" by simp
  have "f (xs ! j) = f (xs ! i) \<longleftrightarrow> j = i"
    using assms j nth_eq_iff_index_eq [OF assms(1), of j i] by simp
  then show "xs[i := g (xs ! i)] ! j = map (\<lambda>x. if f x = t then g x else x) xs ! j"
    using assms j by (cases "j = i") auto
qed simp

definition noteFor :: "observation \<Rightarrow> int \<Rightarrow> tuning_state \<Rightarrow> tuning_state" where
  "noteFor ob now s = (if ts_tuning s = st_tuning (ob_step ob) then noteObservation ob now s else s)"

lemma noteFor_tuning [simp]: "ts_tuning (noteFor ob now s) = ts_tuning s"
  by (simp add: noteFor_def noteObservation_def Let_def)

lemma noteFor_visited:
  "ts_visitedAt (noteFor ob now s) =
     (if ts_tuning s = st_tuning (ob_step ob) then Some now else ts_visitedAt s)"
  by (simp add: noteFor_def noteObservation_def Let_def)

lemma recordObservation_update:
  assumes "planner_ok p" "st_tuning (ob_step ob) \<in> set supportedScannerTunings"
  shows "recordObservation ob now p = Some (p\<lparr>ap_states := map (noteFor ob now) (ap_states p)\<rparr>)"
proof -
  have d: "distinct (map ts_tuning (ap_states p))" and e: "map ts_tuning (ap_states p) = supportedScannerTunings"
    using assms(1) tunings_facts(1) by (auto simp: planner_ok_def)
  have "\<exists>s \<in> set (ap_states p). ts_tuning s = st_tuning (ob_step ob)"
    using assms(2) by (force simp flip: e)
  from findIndex_Some [OF this] obtain i where i:
    "findIndex (\<lambda>s. ts_tuning s = st_tuning (ob_step ob)) (ap_states p) = Some i" "i < length (ap_states p)"
    "ts_tuning (ap_states p ! i) = st_tuning (ob_step ob)" by blast
  show ?thesis
    using update_at_index [OF d i(2,3), of "noteObservation ob now"]
    by (simp add: recordObservation_def i(1) noteFor_def [abs_def])
qed

lemma focus_supported: "planner_ok p \<Longrightarrow> focusTunings p \<subseteq> set supportedScannerTunings"
  by (auto simp: focusTunings_def focusCandidates_def planner_ok_def dest!: arg_cong [where f = set])

lemma focus_cong:
  "map ts_tuning (ap_states p) = map ts_tuning (ap_states q) \<Longrightarrow> ap_autoConfig p = ap_autoConfig q \<Longrightarrow>
   focusTunings p = focusTunings q"
  by (simp add: focusTunings_def focus_list flip: set_map)

lemma recorded_ok:
  assumes "planner_ok p"
  shows "planner_ok (p\<lparr>ap_states := map (noteFor ob now) (ap_states p)\<rparr>)"
    "focusTunings (p\<lparr>ap_states := map (noteFor ob now) (ap_states p)\<rparr>) = focusTunings p"
  using assms by (auto simp: planner_ok_def o_def intro!: focus_cong)

lemma stepped_ok:
  assumes "planner_ok p" "same_states q p" "min 0 (pc_trackingStepsPerDiscovery (ap_config p)) \<le> ap_steps q"
  shows "planner_ok q" "focusTunings q = focusTunings p"
  using assms by (auto simp: planner_ok_def same_states_def focusTunings_def focusCandidates_def)

lemma default_width_supported: "scannerWidthSupported b (scannerDefaultWidthMhz b)"
  by (cases b) (simp_all add: scannerWidthSupported.simps scannerDefaultWidthMhz_def)

lemma setAuto_ok: "planner_ok p \<Longrightarrow> planner_ok (setAutoConfig c p)"
  using default_width_supported by (auto simp: planner_ok_def setAutoConfig_def Let_def)

lemma reset_ok: "planner_ok p \<Longrightarrow> planner_ok (planner_reset p)"
  by (simp add: planner_ok_def planner_reset_def o_def scannerWidthSupported.simps)

interpretation adaptive: scan_planner planner_reset setAutoConfig nextStep recordObservation planner_ok focusTunings
proof unfold_locales
  fix p now assume ok: "planner_ok p"
  obtain s q where q: "nextStep now p = Some (s, q)" "same_states q p" "st_tuning s \<in> focusTunings p"
    "ap_steps q = 0 \<or> ap_steps q = ap_steps p + 1"
    using nextStep_cases [OF ok, of now] by (auto split: if_splits)
  have "min 0 (pc_trackingStepsPerDiscovery (ap_config p)) \<le> ap_steps q"
    using q(4) ok by (auto simp: planner_ok_def)
  from stepped_ok [OF ok q(2) this] q show
    "\<exists>s p'. nextStep now p = Some (s, p') \<and> planner_ok p' \<and> st_tuning s \<in> focusTunings p \<and> focusTunings p' = focusTunings p"
    by blast
next
  fix p :: planner and ob :: observation and now :: int
  assume ok: "planner_ok p" "st_tuning (ob_step ob) \<in> focusTunings p"
  show "\<exists>p'. recordObservation ob now p = Some p' \<and> planner_ok p' \<and> focusTunings p' = focusTunings p"
    using recordObservation_update [OF ok(1)] recorded_ok [OF ok(1)] focus_supported [OF ok(1)] ok(2) by blast
qed (simp_all add: reset_ok setAuto_ok)

section \<open>Reachable planners\<close>

text \<open>The planners a run can produce from a fresh one, by any calls at any times.\<close>

inductive planner_reach :: "planner_config \<Rightarrow> planner \<Rightarrow> bool" for c :: planner_config where
  reach_new: "planner_reach c (newPlanner c)"
| reach_reset: "planner_reach c p \<Longrightarrow> planner_reach c (planner_reset p)"
| reach_auto: "planner_reach c p \<Longrightarrow> planner_reach c (setAutoConfig a p)"
| reach_next: "planner_reach c p \<Longrightarrow> nextStep now p = Some (s, q) \<Longrightarrow> planner_reach c q"
| reach_record: "planner_reach c p \<Longrightarrow> recordObservation ob now p = Some q \<Longrightarrow> planner_reach c q"

lemma freshState_tuning [simp]: "ts_tuning (freshState t) = t"
  by (simp add: freshState_def)

lemma newPlanner_ok: "planner_ok (newPlanner c)" "ap_config (newPlanner c) = c"
  by (simp_all add: newPlanner_def planner_reset_def planner_ok_def o_def scannerWidthSupported.simps)

lemma noteObservation_tuning [simp]: "ts_tuning (noteObservation ob now s) = ts_tuning s"
  by (simp add: noteObservation_def Let_def)

lemma recordObservation_ok:
  assumes "planner_ok p" "recordObservation ob now p = Some q"
  shows "planner_ok q \<and> ap_config q = ap_config p"
proof -
  obtain i where q: "q = p\<lparr>ap_states := (ap_states p)[i := noteObservation ob now (ap_states p ! i)]\<rparr>"
    using assms(2) by (auto simp: recordObservation_def split: option.splits)
  have "map ts_tuning (ap_states q) = map ts_tuning (ap_states p)"
    unfolding q
    by simp (metis list_update_beyond list_update_id map_update linorder_not_less noteObservation_tuning nth_map)
  with assms(1) show ?thesis by (simp add: q planner_ok_def)
qed

lemma operations_config: "ap_config (planner_reset p) = ap_config p" "ap_config (setAutoConfig a p) = ap_config p"
  by (simp_all add: planner_reset_def setAutoConfig_def Let_def)

lemma reach_ok: "planner_reach c p \<Longrightarrow> planner_ok p \<and> ap_config p = c"
proof (induction rule: planner_reach.induct)
  case (reach_next p now s q)
  then have "same_states q p" using nextStep_cases [of p now] by auto
  moreover have "planner_ok q" using adaptive.step [of p now] reach_next by auto
  ultimately show ?case using reach_next by (simp add: same_states_def)
next
  case (reach_record p ob now q)
  then show ?case using recordObservation_ok by blast
next
  case (reach_reset p)
  then show ?case by (simp add: reset_ok operations_config)
next
  case (reach_auto p a)
  then show ?case by (simp add: setAuto_ok operations_config)
qed (simp add: newPlanner_ok)

text \<open>The tunings of manual mode are the planner's own, in every width.\<close>

lemma manual_tunings_table:
  "list_all (\<lambda>(b, w). list_all (\<lambda>target.
       case scannerManualTargetToTuning \<lparr>mc_band = b, mc_width = w, mc_target = target\<rparr> of
         Inl _ \<Rightarrow> True | Inr t \<Rightarrow> t \<in> set supportedScannerTunings)
     (scannerManualTargetChannels b w)) [(Band24Ghz, 20), (Band5Ghz, 20), (Band5Ghz, 40), (Band5Ghz, 80)]"
  by code_simp

lemma manual_tuning_supported:
  assumes "scannerManualTargetToTuning m = okay t" shows "t \<in> set supportedScannerTunings"
proof -
  obtain b w target where m: "m = \<lparr>mc_band = b, mc_width = w, mc_target = target\<rparr>"
    by (cases m) auto
  have s: "scannerWidthSupported b w" "target \<in> set (scannerManualTargetChannels b w)"
    using assms by (auto simp: m scannerManualTargetToTuning_def split: if_splits)
  have "(b, w) \<in> set [(Band24Ghz, 20), (Band5Ghz, 20), (Band5Ghz, 40), (Band5Ghz, 80)]"
    using s(1) by (cases b) (auto simp: scannerWidthSupported.simps)
  with manual_tunings_table s(2) assms show ?thesis
    unfolding list_all_iff m by fastforce
qed

section \<open>Every channel is revisited\<close>

text \<open>
  The times of a run: each round asks at \<open>now\<close> and records at \<open>later\<close>, on a clock that never goes back.
  The second argument of \<open>visits_since\<close> is the set of tunings listened to since the start.
\<close>

fun rounds_from :: "int \<Rightarrow> (int \<times> observation \<times> int) list \<Rightarrow> bool" where
  "rounds_from t [] = True"
| "rounds_from t ((now, ob, later) # rs) = (t \<le> now \<and> now \<le> later \<and> later < 2 ^ 63 \<and> rounds_from later rs)"

definition visits_since :: "int \<Rightarrow> tuning set \<Rightarrow> int \<Rightarrow> planner \<Rightarrow> bool" where
  "visits_since t0 W t p =
     (\<forall>s \<in> set (ap_states p).
        if ts_tuning s \<in> W then \<exists>v. ts_visitedAt s = Some v \<and> t0 \<le> v \<and> v \<le> t
        else \<forall>v. ts_visitedAt s = Some v \<longrightarrow> v + 1000000 \<le> t0)"

lemma younger:
  assumes "0 \<le> t0" "t0 \<le> v" "v \<le> now" "now < 2 ^ 63" "\<forall>u. w = Some u \<longrightarrow> u + 1000000 \<le> t0"
  shows "ageMsOrMax (Some v) now < ageMsOrMax w now"
  using assms by (cases w) (auto simp: ageMsOrMax_def toMillis_def)

text \<open>While a tuning of the focus is left, discovery takes one of those left.\<close>

lemma discovery_takes_unvisited:
  assumes "0 \<le> t0" "visits_since t0 W t p" "t \<le> now" "now < 2 ^ 63" "\<not> focusTunings p \<subseteq> W"
    and d: "selectDiscoveryTuning now p = Some x"
  shows "x \<in> focusTunings p - W"
proof -
  obtain u where u: "u \<in> set (focusCandidates p)" "ts_tuning u \<notin> W"
    using assms(5) by (auto simp: focusTunings_def)
  then have ne: "focusCandidates p \<noteq> []" by auto
  obtain b where b: "b \<in> set (focusCandidates p)" "x = ts_tuning b"
    "ageMsOrMax (ts_visitedAt u) now \<le> ageMsOrMax (ts_visitedAt b) now"
    using discovery_oldest [OF ne, of now] u(1) d by auto
  have states: "u \<in> set (ap_states p)" "b \<in> set (ap_states p)"
    using u b by (simp_all add: focusCandidates_def)
  have "ts_tuning b \<notin> W"
  proof
    assume "ts_tuning b \<in> W"
    with assms(2) states(2) obtain v where v: "ts_visitedAt b = Some v" "t0 \<le> v" "v \<le> t"
      by (fastforce simp: visits_since_def)
    have w: "\<forall>y. ts_visitedAt u = Some y \<longrightarrow> y + 1000000 \<le> t0"
      using assms(2) states(1) u(2) by (auto simp: visits_since_def)
    have "v \<le> now" using v(3) assms(3) by simp
    from younger [OF assms(1) v(2) this assms(4) w] b(3) v(1) show False by simp
  qed
  with b show ?thesis by (simp add: focusTunings_def)
qed

lemma visits_recorded:
  assumes "visits_since t0 W t p" "t0 \<le> later" "t \<le> later" "st_tuning (ob_step ob) = x"
  shows "visits_since t0 (insert x W) later (p\<lparr>ap_states := map (noteFor ob later) (ap_states p)\<rparr>)"
  using assms unfolding visits_since_def by (fastforce simp: noteFor_visited)

definition work_left :: "tuning set \<Rightarrow> planner \<Rightarrow> nat" where
  "work_left W p =
     (let T = pc_trackingStepsPerDiscovery (ap_config p)
      in card (focusTunings p - W) * (nat T + 1) + nat (T - ap_steps p))"

lemma finite_focus [simp]: "finite (focusTunings p)"
  by (simp add: focusTunings_def)

lemma work_discovery:
  fixes T s :: int
  assumes "card B + 1 = card A"
  shows "card B * (nat T + 1) + nat (T - 0) < card A * (nat T + 1) + nat (T - s)"
  using assms by (simp flip: assms)

text \<open>One round does some of the work.\<close>

lemma round_works:
  assumes ok: "planner_ok p" and v: "0 \<le> t0" "t0 \<le> t" "visits_since t0 W t p"
    and t: "t \<le> now" "now \<le> later" "later < 2 ^ 63" and left: "\<not> focusTunings p \<subseteq> W"
  shows "\<exists>s p1 p2. nextStep now p = Some (s, p1) \<and> recordObservation (ob\<lparr>ob_step := s\<rparr>) later p1 = Some p2 \<and>
    planner_ok p2 \<and> focusTunings p2 = focusTunings p \<and> visits_since t0 (insert (st_tuning s) W) later p2 \<and>
    work_left (insert (st_tuning s) W) p2 < work_left W p"
proof -
  let ?T = "pc_trackingStepsPerDiscovery (ap_config p)"
  obtain s p1 where s: "nextStep now p = Some (s, p1)" "same_states p1 p" "st_tuning s \<in> focusTunings p"
    and c: "if shouldUseDiscovery now p then ap_steps p1 = 0 \<and> selectDiscoveryTuning now p = Some (st_tuning s)
            else ap_steps p1 = ap_steps p + 1"
    using nextStep_cases [OF ok, of now] by blast
  have ok1: "planner_ok p1" "focusTunings p1 = focusTunings p"
    using adaptive.step [OF ok, of now] s(1) by auto
  let ?ob = "ob\<lparr>ob_step := s\<rparr>"
  let ?p2 = "p1\<lparr>ap_states := map (noteFor ?ob later) (ap_states p1)\<rparr>"
  have r: "recordObservation ?ob later p1 = Some ?p2"
    using recordObservation_update [OF ok1(1)] s(3) focus_supported [OF ok] by auto
  have v1: "visits_since t0 W t p1" using v(3) s(2) by (simp add: visits_since_def same_states_def)
  have v2: "visits_since t0 (insert (st_tuning s) W) later ?p2"
    by (rule visits_recorded [OF v1]) (use v(2) t in auto)
  let ?A = "focusTunings p - W" and ?B = "focusTunings p - insert (st_tuning s) W"
  have "card ?B * (nat ?T + 1) + nat (?T - ap_steps p1) < card ?A * (nat ?T + 1) + nat (?T - ap_steps p)"
  proof (cases "shouldUseDiscovery now p")
    case True
    then have "st_tuning s \<in> ?A"
      using discovery_takes_unvisited [OF v(1,3) t(1) _ left] c t by auto
    then have "card ?B + 1 = card ?A"
      by (metis Diff_insert Suc_eq_plus1 card_Suc_Diff1 finite_Diff finite_focus)
    with True c work_discovery show ?thesis by simp
  next
    case False
    then have "ap_steps p < ?T" "ap_steps p1 = ap_steps p + 1" using c by (simp_all add: shouldUseDiscovery_def)
    moreover have "card ?B * (nat ?T + 1) \<le> card ?A * (nat ?T + 1)"
      by (intro mult_le_mono1 card_mono) auto
    ultimately show ?thesis by linarith
  qed
  then have "work_left (insert (st_tuning s) W) ?p2 < work_left W p"
    using ok1(2) recorded_ok(2) [OF ok1(1)] s(2) by (simp add: work_left_def same_states_def Let_def)
  with s(1) r v2 recorded_ok [OF ok1(1)] ok1(2) show ?thesis by blast
qed

lemma all_visited:
  assumes "planner_ok p" "0 \<le> t0" "t0 \<le> t" "visits_since t0 W t p" "rounds_from t rs" "work_left W p \<le> length rs"
  shows "\<exists>steps q. scanRounds nextStep recordObservation rs p = Some (steps, q) \<and>
    focusTunings p \<subseteq> W \<union> st_tuning ` set steps"
  using assms
proof (induction rs arbitrary: p t W)
  case Nil
  then have "card (focusTunings p - W) = 0" by (auto simp: work_left_def Let_def)
  then show ?case by simp
next
  case (Cons r rs)
  obtain now ob later where r: "r = (now, ob, later)" by (cases r)
  show ?case
  proof (cases "focusTunings p \<subseteq> W")
    case True
    with adaptive.rounds [OF Cons.prems(1), of "r # rs"] show ?thesis by blast
  next
    case False
    have t: "t \<le> now" "now \<le> later" "later < 2 ^ 63" "rounds_from later rs" using Cons.prems(5) by (simp_all add: r)
    obtain s p1 p2 where s: "nextStep now p = Some (s, p1)" "recordObservation (ob\<lparr>ob_step := s\<rparr>) later p1 = Some p2"
      "planner_ok p2" "focusTunings p2 = focusTunings p" "visits_since t0 (insert (st_tuning s) W) later p2"
      "work_left (insert (st_tuning s) W) p2 < work_left W p"
      using round_works [OF Cons.prems(1-4) t(1-3) False] by blast
    have "t0 \<le> later" "work_left (insert (st_tuning s) W) p2 \<le> length rs"
      using Cons.prems(3,6) t s(6) by auto
    from Cons.IH [OF s(3) Cons.prems(2) this(1) s(5) t(4) this(2)] s(1,2,4)
    show ?thesis by (auto simp: r)
  qed
qed

section \<open>Properties\<close>

lemma tunings_tunable:
  "list_all (\<lambda>t. case encodeChanspec t of Inl _ \<Rightarrow> False | Inr w \<Rightarrow> decodeChanspec w = okay t) supportedScannerTunings"
  by code_simp

text \<open>
  C32: On every planner a run can produce, the next step exists; its tuning is one of the configured
  band and width, one the radio can be tuned to (its chanspec exists and decodes to the same tuning),
  its dwell time lies within the configured bounds, and what is observed on it can be recorded.
\<close>

theorem planner_step_supported:
  assumes "planner_reach c p"
  shows "\<exists>s q. nextStep now p = Some (s, q) \<and> planner_reach c q \<and>
    scannerTuningMatchesConfig (st_tuning s) (ap_autoConfig p) \<and>
    (\<exists>w. encodeChanspec (st_tuning s) = okay w \<and> decodeChanspec w = okay (st_tuning s)) \<and>
    (pc_minDwellMs c \<le> pc_maxDwellMs c \<longrightarrow> pc_minDwellMs c \<le> st_dwellMs s \<and> st_dwellMs s \<le> pc_maxDwellMs c) \<and>
    recordObservation (ob\<lparr>ob_step := s\<rparr>) later q \<noteq> None"
proof -
  have ok: "planner_ok p" "ap_config p = c" using reach_ok [OF assms] by auto
  obtain s q q2 where s: "nextStep now p = Some (s, q)" "st_tuning s \<in> focusTunings p"
    "recordObservation (ob\<lparr>ob_step := s\<rparr>) later q = Some q2"
    using adaptive.round [OF ok(1)] by blast
  have "scannerTuningMatchesConfig (st_tuning s) (ap_autoConfig p)"
    using s(2) by (auto simp: focusTunings_def focusCandidates_def)
  moreover have "\<exists>w. encodeChanspec (st_tuning s) = okay w \<and> decodeChanspec w = okay (st_tuning s)"
    using s(2) focus_supported [OF ok(1)] tunings_tunable
    by (cases "encodeChanspec (st_tuning s)") (auto simp: list_all_iff dest!: subsetD)
  ultimately show ?thesis
    using s(1,3) nextStep_dwell [OF s(1)] planner_reach.reach_next [OF assms s(1)] ok(2) by auto
qed

theorem planner_step_supported_witness:
  "\<exists>s q. nextStep 5 (newPlanner default_planner_config) = Some (s, q) \<and> 100 \<le> st_dwellMs s \<and> st_dwellMs s \<le> 300"
proof -
  have "pc_minDwellMs default_planner_config = 100" "pc_maxDwellMs default_planner_config = 300"
    by (simp_all add: default_planner_config_def)
  then show ?thesis
    using planner_step_supported [OF planner_reach.reach_new, of 5 default_planner_config] by force
qed

text \<open>
  A tuning chosen by hand can be recorded with the planner too. The scanner service reads its
  configuration again after listening, so an observation made in manual mode reaches the planner when
  the mode was changed to automatic meanwhile: the planner finds the tuning, and changes its state only.
\<close>

theorem manual_observation_recordable:
  assumes "planner_reach c p" "scannerManualTargetToTuning m = okay (st_tuning (ob_step ob))"
  shows "\<exists>q. recordObservation ob now p = Some q \<and> planner_reach c q \<and>
    ap_autoConfig q = ap_autoConfig p \<and> ap_steps q = ap_steps p \<and> ap_nextTracking q = ap_nextTracking p \<and>
    ap_states q = map (\<lambda>s. if ts_tuning s = st_tuning (ob_step ob) then noteObservation ob now s else s) (ap_states p)"
  using recordObservation_update [of p ob now] reach_ok [OF assms(1)] manual_tuning_supported [OF assms(2)]
    planner_reach.reach_record [OF assms(1), of ob now]
  by (simp add: noteFor_def [abs_def])

theorem manual_observation_recordable_witness:
  "\<exists>q. recordObservation
      \<lparr>ob_step = \<lparr>st_tuning = \<lparr>tn_band = Band5Ghz, tn_primary = 36, tn_width = 40, tn_center = Some 38\<rparr>, st_dwellMs = 250\<rparr>,
       ob_sawTraffic = True, ob_radiosSeen = 1, ob_newRadiosSeen = 1, ob_strongestSignalDbm = Some (- 40),
       ob_observedChannels = [36]\<rparr> 7 (newPlanner default_planner_config) = Some q"
proof -
  have "scannerManualTargetToTuning \<lparr>mc_band = Band5Ghz, mc_width = 40, mc_target = 38\<rparr>
      = okay \<lparr>tn_band = Band5Ghz, tn_primary = 36, tn_width = 40, tn_center = Some 38\<rparr>"
    by code_simp
  from manual_observation_recordable [OF planner_reach.reach_new, of _
      "\<lparr>ob_step = \<lparr>st_tuning = \<lparr>tn_band = Band5Ghz, tn_primary = 36, tn_width = 40, tn_center = Some 38\<rparr>, st_dwellMs = 250\<rparr>,
       ob_sawTraffic = True, ob_radiosSeen = 1, ob_newRadiosSeen = 1, ob_strongestSignalDbm = Some (- 40),
       ob_observedChannels = [36]\<rparr>"] this
  show ?thesis by simp blast
qed

text \<open>
  C31: No channel is starved. Starting a millisecond after the last visit, on a clock that never goes
  back, the planner listens to every supported tuning of the configured band and width within
  \<open>(n + 1) * (k + 1)\<close> rounds, where \<open>n\<close> is the number of those tunings and \<open>k\<close> the configured number of
  tracking steps between two discoveries.
\<close>

theorem planner_revisits_every_channel:
  assumes "planner_reach c p" "0 \<le> t0"
    and "\<forall>s \<in> set (ap_states p). \<forall>v. ts_visitedAt s = Some v \<longrightarrow> v + 1000000 \<le> t0"
    and "rounds_from t0 rs"
    and "(length (focusCandidates p) + 1) * (nat (pc_trackingStepsPerDiscovery c) + 1) \<le> length rs"
  shows "\<exists>steps q. scanRounds nextStep recordObservation rs p = Some (steps, q) \<and> length steps = length rs \<and>
    (\<forall>t \<in> set supportedScannerTunings.
       scannerTuningMatchesConfig t (ap_autoConfig p) \<longrightarrow> t \<in> st_tuning ` set steps)"
proof -
  let ?T = "pc_trackingStepsPerDiscovery c" and ?n = "length (focusCandidates p)"
  have ok: "planner_ok p" "ap_config p = c" using reach_ok [OF assms(1)] by auto
  have "card (focusTunings p) \<le> ?n"
    using card_length [of "map ts_tuning (focusCandidates p)"] by (simp add: focusTunings_def)
  then have "card (focusTunings p) * (nat ?T + 1) \<le> ?n * (nat ?T + 1)" by (rule mult_le_mono1)
  moreover have "nat (?T - ap_steps p) \<le> nat ?T" using ok by (auto simp: planner_ok_def)
  ultimately have "work_left {} p \<le> length rs" using assms(5) by (simp add: work_left_def ok(2) Let_def)
  moreover have "visits_since t0 {} t0 p" using assms(3) by (simp add: visits_since_def)
  ultimately obtain steps q where q: "scanRounds nextStep recordObservation rs p = Some (steps, q)"
    "focusTunings p \<subseteq> st_tuning ` set steps"
    using all_visited [OF ok(1) assms(2) order_refl _ assms(4), of "{}"] by auto
  have "length steps = length rs" using adaptive.rounds [OF ok(1), of rs] q(1) by auto
  moreover have "t \<in> focusTunings p"
    if "t \<in> set supportedScannerTunings" "scannerTuningMatchesConfig t (ap_autoConfig p)" for t
  proof -
    have "t \<in> set (map ts_tuning (ap_states p))" using that(1) ok(1) by (simp add: planner_ok_def)
    with that(2) show ?thesis by (auto simp: focusTunings_def focusCandidates_def)
  qed
  ultimately show ?thesis using q by blast
qed

theorem planner_revisits_every_channel_witness:
  "\<exists>steps q. scanRounds nextStep recordObservation
      (replicate 28 (0, \<lparr>ob_step = \<lparr>st_tuning = makeScannerTuning Band5Ghz 36 20 None, st_dwellMs = 0\<rparr>,
        ob_sawTraffic = False, ob_radiosSeen = 0, ob_newRadiosSeen = 0, ob_strongestSignalDbm = None,
        ob_observedChannels = []\<rparr>, 0))
      (setAutoConfig \<lparr>ac_band = Band5Ghz, ac_width = 80\<rparr> (newPlanner default_planner_config)) = Some (steps, q) \<and>
    makeScannerTuning Band5Ghz 149 80 (Some 155) \<in> st_tuning ` set steps"
proof -
  let ?p = "setAutoConfig \<lparr>ac_band = Band5Ghz, ac_width = 80\<rparr> (newPlanner default_planner_config)"
  let ?ob = "\<lparr>ob_step = \<lparr>st_tuning = makeScannerTuning Band5Ghz 36 20 None, st_dwellMs = 0\<rparr>,
        ob_sawTraffic = False, ob_radiosSeen = 0, ob_newRadiosSeen = 0, ob_strongestSignalDbm = None,
        ob_observedChannels = []\<rparr>"
  let ?t = "makeScannerTuning Band5Ghz 149 80 (Some 155)"
  have p: "planner_reach default_planner_config ?p" by (intro planner_reach.intros)
  have facts: "length (focusCandidates ?p) = 6" "list_all (\<lambda>s. ts_visitedAt s = None) (ap_states ?p)"
    "pc_trackingStepsPerDiscovery default_planner_config = 3" "ap_autoConfig ?p = \<lparr>ac_band = Band5Ghz, ac_width = 80\<rparr>"
    "?t \<in> set supportedScannerTunings"
    by code_simp+
  have r: "rounds_from 0 (replicate n (0, ob, 0))" for n ob by (induction n) auto
  have "\<forall>s \<in> set (ap_states ?p). \<forall>v. ts_visitedAt s = Some v \<longrightarrow> v + 1000000 \<le> 0"
    using facts(2) by (auto simp: list_all_iff)
  then obtain steps q where
    "scanRounds nextStep recordObservation (replicate 28 (0, ?ob, 0)) ?p = Some (steps, q)"
    "\<forall>t \<in> set supportedScannerTunings. scannerTuningMatchesConfig t (ap_autoConfig ?p) \<longrightarrow> t \<in> st_tuning ` set steps"
    using planner_revisits_every_channel [OF p order_refl _ r, of 28 ?ob] facts(1,3) by auto
  moreover have "scannerTuningMatchesConfig ?t (ap_autoConfig ?p)"
    by (simp add: facts(4) scannerTuningMatchesConfig_def makeScannerTuning_def)
  ultimately show ?thesis using facts(5) by blast
qed

end
