(* ===== verification/Organisms.thy ===== *)
theory Organisms
  imports RegionActivity
begin

text \<open>
  Organisms and who owns which cell: \<open>core/organisms/Body.{h,cpp}\<close>, the data of \<open>TreeCommands.h\<close>,
  \<open>Tree.h\<close> and the rigid-body components, and the bookkeeping of \<open>OrganismManager.{h,cpp}\<close>.

  The manager keeps the owner of each grid cell in a flat array and, in every organism, the set of the
  cells it occupies. An \<open>unordered_set\<close> is the list of its elements without repetition, an
  \<open>unordered_map\<close> a partial map; a function that walks over the map takes the order of the walk as a
  list of ids. The type parameter is the state of a tree's brain. \<open>None\<close> stands for an abort by
  \<open>DIRTSIM_ASSERT\<close>. The invariant \<open>tracked\<close> says that the owner of a cell exists and lists the cell.
\<close>

section \<open>Data\<close>

type_synonym pos = "int \<times> int"

datatype organism_type = Org_Duck | Org_Goose | Org_Tree | Org_NesDuck

record local_cell =
  lc_pos :: pos
  lc_material :: material
  lc_fill :: real

text \<open>\<open>RigidBodyComponent\<close> with its physics and projection parts.\<close>

record rigid_body =
  rb_material :: material
  rb_force :: vec2
  rb_shape :: "local_cell list"
  rb_occupied :: "pos list"
  rb_lastOwner :: nat

text \<open>The commands of \<open>TreeCommands.h\<close>; action commands carry a target and their execution time.\<close>

datatype tree_command =
    WaitCommand
  | CancelCommand
  | GrowWoodCommand pos real
  | GrowLeafCommand pos real
  | GrowRootCommand pos real
  | ProduceSeedCommand pos real

datatype tree_command_type = Cmd_Wait | Cmd_Cancel | Cmd_GrowWood | Cmd_GrowLeaf | Cmd_GrowRoot | Cmd_ProduceSeed

fun getCommandType :: "tree_command \<Rightarrow> tree_command_type" where
  "getCommandType WaitCommand = Cmd_Wait"
| "getCommandType CancelCommand = Cmd_Cancel"
| "getCommandType (GrowWoodCommand _ _) = Cmd_GrowWood"
| "getCommandType (GrowLeafCommand _ _) = Cmd_GrowLeaf"
| "getCommandType (GrowRootCommand _ _) = Cmd_GrowRoot"
| "getCommandType (ProduceSeedCommand _ _) = Cmd_ProduceSeed"

datatype growth_stage = Stage_Seed | Stage_Germination | Stage_Sapling | Stage_Mature | Stage_Decline

record landed_seed =
  ls_position :: pos
  ls_distance :: real

record resource_totals =
  rt_water :: real
  rt_energy :: real
  rt_seeds :: int
  rt_landed :: "landed_seed list"

record 'b tree_state =
  tree_stage :: growth_stage
  tree_energy :: real
  tree_water :: real
  tree_accepted :: int
  tree_rejected :: int
  tree_idleCancels :: int
  tree_hasLastResult :: bool
  tree_lastAccepted :: bool
  tree_reserved :: real
  tree_hasReserved :: bool
  tree_reservedType :: tree_command_type
  tree_command :: "tree_command option"
  tree_commandSeed :: "pos option"
  tree_seedParent :: nat
  tree_timeRemaining :: real
  tree_totalTime :: real
  tree_brain :: "'b option"
  tree_totals :: resource_totals

text \<open>\<open>Organism::Body\<close>; the anchor is a field of ducks only, and the last field belongs to trees.\<close>

record 'b organism =
  og_type :: organism_type
  og_active :: bool
  og_cells :: "pos list"
  og_anchor :: pos
  og_position :: vec2
  og_velocity :: vec2
  og_mass :: real
  og_com :: vec2
  og_age :: real
  og_shape :: "local_cell list"
  og_occupied :: "pos list"
  og_rigid :: "rigid_body option"
  og_signatures :: "string \<Rightarrow> int"
  og_outcomes :: "string \<Rightarrow> int"
  og_tree :: "'b tree_state option"

record 'b organism_manager =
  om_organisms :: "nat \<Rightarrow> 'b organism option"
  om_genomes :: "nat \<Rightarrow> nat option"
  om_next :: nat
  om_grid :: "nat list"
  om_width :: int
  om_height :: int

section \<open>The body\<close>

definition cellOf :: "vec2 \<Rightarrow> pos" where
  "cellOf p = (\<lfloor>vx p\<rfloor>, \<lfloor>vy p\<rfloor>)"

fun isDuckClass :: "organism_type \<Rightarrow> bool" where
  "isDuckClass Org_Duck = True"
| "isDuckClass Org_NesDuck = True"
| "isDuckClass Org_Goose = False"
| "isDuckClass Org_Tree = False"

definition getAnchorCell :: "'b organism \<Rightarrow> pos" where
  "getAnchorCell og = (if isDuckClass (og_type og) then og_anchor og else cellOf (og_position og))"

definition setAnchorCell :: "pos \<Rightarrow> 'b organism \<Rightarrow> 'b organism" where
  "setAnchorCell p og =
     (let og1 = og\<lparr>og_position := \<lparr>vx = real_of_int (fst p) + 1 / 2, vy = real_of_int (snd p) + 1 / 2\<rparr>\<rparr>
      in if isDuckClass (og_type og) then og1\<lparr>og_anchor := p\<rparr> else og1)"

definition usesRigidBodyPhysics :: "'b organism \<Rightarrow> bool" where
  "usesRigidBodyPhysics og = (og_type og = Org_Goose \<or> og_type og = Org_Tree)"

definition onCellTransfer :: "pos \<Rightarrow> pos \<Rightarrow> 'b organism \<Rightarrow> 'b organism" where
  "onCellTransfer frm to og = (if frm = getAnchorCell og then setAnchorCell to og else og)"

definition cellMass :: "local_cell \<Rightarrow> real" where
  "cellMass c = getDensity (lc_material c) * lc_fill c"

definition recomputeMass :: "'b organism \<Rightarrow> 'b organism" where
  "recomputeMass og = og\<lparr>og_mass := fold (\<lambda>c m. m + cellMass c) (og_shape og) 0\<rparr>"

definition recomputeCenterOfMass :: "'b organism \<Rightarrow> 'b organism" where
  "recomputeCenterOfMass og =
     (if og_shape og = [] \<or> og_mass og < 1 / 10000 then og\<lparr>og_com := zero_vec\<rparr>
      else let s = fold (\<lambda>c s. \<lparr>vx = vx s + real_of_int (fst (lc_pos c)) * cellMass c,
                                vy = vy s + real_of_int (snd (lc_pos c)) * cellMass c\<rparr>)
                     (og_shape og) zero_vec
           in og\<lparr>og_com := \<lparr>vx = vx s / og_mass og, vy = vy s / og_mass og\<rparr>\<rparr>)"

definition integratePosition :: "real \<Rightarrow> 'b organism \<Rightarrow> 'b organism" where
  "integratePosition dt og = og\<lparr>og_position := vec_add (og_position og) (vec_times (og_velocity og) dt)\<rparr>"

definition applyForce :: "vec2 \<Rightarrow> real \<Rightarrow> 'b organism \<Rightarrow> 'b organism" where
  "applyForce force dt og =
     (if og_mass og < 1 / 10000 then og
      else og\<lparr>og_velocity := vec_add (og_velocity og)
                (vec_times \<lparr>vx = vx force / og_mass og, vy = vy force / og_mass og\<rparr> dt)\<rparr>)"

definition recordCommandSignature :: "string \<Rightarrow> 'b organism \<Rightarrow> 'b organism" where
  "recordCommandSignature s og =
     (if s = [] then og else og\<lparr>og_signatures := (og_signatures og)(s := og_signatures og s + 1)\<rparr>)"

definition recordCommandOutcomeSignature :: "string \<Rightarrow> 'b organism \<Rightarrow> 'b organism" where
  "recordCommandOutcomeSignature s og =
     (if s = [] then og else og\<lparr>og_outcomes := (og_outcomes og)(s := og_outcomes og s + 1)\<rparr>)"

section \<open>The manager: cells\<close>

definition insertCell :: "pos \<Rightarrow> pos list \<Rightarrow> pos list" where
  "insertCell p cs = (if p \<in> set cs then cs else cs @ [p])"

definition eraseCell :: "pos \<Rightarrow> pos list \<Rightarrow> pos list" where
  "eraseCell p cs = filter (\<lambda>q. q \<noteq> p) cs"

definition om_inside :: "'b organism_manager \<Rightarrow> pos \<Rightarrow> bool" where
  "om_inside m p = (\<not> (fst p < 0 \<or> snd p < 0 \<or> fst p \<ge> om_width m \<or> snd p \<ge> om_height m))"

definition om_index :: "'b organism_manager \<Rightarrow> pos \<Rightarrow> nat" where
  "om_index m p = cellIndex (om_width m) (fst p) (snd p)"

definition om_at :: "'b organism_manager \<Rightarrow> pos \<Rightarrow> nat" where
  "om_at m p = (if \<not> om_inside m p then INVALID_ORGANISM_ID else om_grid m ! om_index m p)"

definition hasOrganism :: "'b organism_manager \<Rightarrow> pos \<Rightarrow> bool" where
  "hasOrganism m p = (om_at m p \<noteq> INVALID_ORGANISM_ID)"

definition setOrganismAt :: "pos \<Rightarrow> nat \<Rightarrow> 'b organism_manager \<Rightarrow> 'b organism_manager" where
  "setOrganismAt p oid m = (if \<not> om_inside m p then m else m\<lparr>om_grid := (om_grid m)[om_index m p := oid]\<rparr>)"

definition clearOrganismAt :: "pos \<Rightarrow> 'b organism_manager \<Rightarrow> 'b organism_manager" where
  "clearOrganismAt p = setOrganismAt p INVALID_ORGANISM_ID"

definition getOrganism :: "'b organism_manager \<Rightarrow> nat \<Rightarrow> 'b organism option" where
  "getOrganism m oid = om_organisms m oid"

text \<open>A method called through the pointer changes the organism in the map.\<close>

definition updateOrganism :: "nat \<Rightarrow> ('b organism \<Rightarrow> 'b organism) \<Rightarrow> 'b organism_manager \<Rightarrow> 'b organism_manager" where
  "updateOrganism oid f m = m\<lparr>om_organisms := (om_organisms m)(oid := map_option f (om_organisms m oid))\<rparr>"

definition addCellToOrganism :: "nat \<Rightarrow> pos \<Rightarrow> 'b organism_manager \<Rightarrow> 'b organism_manager option" where
  "addCellToOrganism oid p m =
     (case getOrganism m oid of None \<Rightarrow> None
      | Some _ \<Rightarrow> Some (setOrganismAt p oid
                         (updateOrganism oid (\<lambda>og. og\<lparr>og_cells := insertCell p (og_cells og)\<rparr>) m)))"

definition removeCell :: "nat \<Rightarrow> pos \<Rightarrow> 'b organism_manager \<Rightarrow> 'b organism_manager" where
  "removeCell oid p m =
     clearOrganismAt p (updateOrganism oid (\<lambda>og. og\<lparr>og_cells := eraseCell p (og_cells og)\<rparr>) m)"

definition removeCellsFromOrganism :: "nat \<Rightarrow> pos list \<Rightarrow> 'b organism_manager \<Rightarrow> 'b organism_manager" where
  "removeCellsFromOrganism oid ps m =
     (case getOrganism m oid of None \<Rightarrow> m | Some _ \<Rightarrow> fold (removeCell oid) ps m)"

text \<open>The organism's part of a move: one cell out, one in, and the anchor follows.\<close>

definition moveTracking :: "pos \<Rightarrow> pos \<Rightarrow> 'b organism \<Rightarrow> 'b organism" where
  "moveTracking frm to og =
     onCellTransfer frm to (og\<lparr>og_cells := insertCell to (eraseCell frm (og_cells og))\<rparr>)"

definition swapSide :: "nat \<Rightarrow> pos \<Rightarrow> pos \<Rightarrow> 'b organism_manager \<Rightarrow> 'b organism_manager option" where
  "swapSide oid frm to m =
     (if oid = INVALID_ORGANISM_ID then Some m
      else case getOrganism m oid of None \<Rightarrow> None | Some _ \<Rightarrow> Some (updateOrganism oid (moveTracking frm to) m))"

definition swapOrganisms :: "pos \<Rightarrow> pos \<Rightarrow> 'b organism_manager \<Rightarrow> 'b organism_manager option" where
  "swapOrganisms p1 p2 m =
     (let org1 = om_at m p1; org2 = om_at m p2
      in if org1 = org2 \<and> org1 \<noteq> INVALID_ORGANISM_ID then None
         else do {
           m1 \<leftarrow> swapSide org1 p1 p2 (setOrganismAt p2 org1 (setOrganismAt p1 org2 m));
           swapSide org2 p2 p1 m1
         })"

definition moveOrganismCell :: "pos \<Rightarrow> pos \<Rightarrow> nat \<Rightarrow> 'b organism_manager \<Rightarrow> 'b organism_manager option" where
  "moveOrganismCell frm to oid m =
     (case getOrganism m oid of None \<Rightarrow> Some m
      | Some og \<Rightarrow>
          if usesRigidBodyPhysics og then Some m
          else if om_at m frm \<noteq> oid then None
          else Some (updateOrganism oid (moveTracking frm to) (setOrganismAt to oid (clearOrganismAt frm m))))"

section \<open>The manager: organisms\<close>

definition registerOrganism :: "'b organism \<Rightarrow> 'b organism_manager \<Rightarrow> 'b organism_manager" where
  "registerOrganism og m = m\<lparr>om_organisms := (om_organisms m)(om_next m \<mapsto> og), om_next := om_next m + 1\<rparr>"

text \<open>\<open>removeOrganism\<close> asserts in debug builds that the organism exists; otherwise it is undefined.\<close>

definition removeOrganism :: "nat \<Rightarrow> 'b organism_manager \<Rightarrow> 'b organism_manager option" where
  "removeOrganism oid m =
     (case getOrganism m oid of None \<Rightarrow> None
      | Some og \<Rightarrow>
          let m1 = fold clearOrganismAt (og_cells og) m
          in Some (m1\<lparr>om_organisms := (om_organisms m1)(oid := None),
                      om_genomes := (om_genomes m1)(oid := None)\<rparr>))"

definition clearOrganisms :: "'b organism_manager \<Rightarrow> 'b organism_manager" where
  "clearOrganisms m = m\<lparr>om_organisms := Map.empty, om_genomes := Map.empty,
     om_grid := map (\<lambda>_. INVALID_ORGANISM_ID) (om_grid m)\<rparr>"

definition setGenomeId :: "nat \<Rightarrow> nat \<Rightarrow> 'b organism_manager \<Rightarrow> 'b organism_manager" where
  "setGenomeId oid g m = m\<lparr>om_genomes := (om_genomes m)(oid \<mapsto> g)\<rparr>"

definition getGenomeId :: "'b organism_manager \<Rightarrow> nat \<Rightarrow> nat option" where
  "getGenomeId m oid = om_genomes m oid"

definition getOfType :: "organism_type \<Rightarrow> 'b organism_manager \<Rightarrow> nat \<Rightarrow> 'b organism option" where
  "getOfType ty m oid =
     (case getOrganism m oid of None \<Rightarrow> None | Some og \<Rightarrow> if og_type og = ty then Some og else None)"

definition getTree :: "'b organism_manager \<Rightarrow> nat \<Rightarrow> 'b organism option" where
  "getTree = getOfType Org_Tree"

definition getDuck :: "'b organism_manager \<Rightarrow> nat \<Rightarrow> 'b organism option" where
  "getDuck = getOfType Org_Duck"

definition getGoose :: "'b organism_manager \<Rightarrow> nat \<Rightarrow> 'b organism option" where
  "getGoose = getOfType Org_Goose"

definition shift :: "pos \<Rightarrow> pos \<Rightarrow> pos" where
  "shift offset p = (fst p + fst offset, snd p + snd offset)"

text \<open>The body of the first loop of \<open>resizeGrid\<close>. A real divided by zero is zero here, infinite there.\<close>

definition repositionOrganism :: "int \<Rightarrow> int \<Rightarrow> int \<Rightarrow> int \<Rightarrow> 'b organism \<Rightarrow> 'b organism" where
  "repositionOrganism oldW oldH newW newH og =
     (let oldAnchor = getAnchorCell og;
          newPosition = \<lparr>vx = vx (og_position og) * (real_of_int newW / real_of_int oldW),
                         vy = vy (og_position og) * (real_of_int newH / real_of_int oldH)\<rparr>;
          newAnchor = (max 0 (min \<lfloor>vx newPosition\<rfloor> (newW - 1)), max 0 (min \<lfloor>vy newPosition\<rfloor> (newH - 1)));
          newCom = \<lparr>vx = frac (vx newPosition) * 2 - 1, vy = frac (vy newPosition) * 2 - 1\<rparr>;
          offset = (fst newAnchor - fst oldAnchor, snd newAnchor - snd oldAnchor);
          og1 = setAnchorCell newAnchor (og\<lparr>og_position := newPosition\<rparr>)
      in og1\<lparr>og_cells := filter (\<lambda>p. fst p \<ge> 0 \<and> snd p \<ge> 0 \<and> fst p < newW \<and> snd p < newH)
                           (map (shift offset) (og_cells og1)),
             og_com := newCom\<rparr>)"

definition reproject :: "nat \<Rightarrow> 'b organism_manager \<Rightarrow> 'b organism_manager" where
  "reproject oid m =
     (case getOrganism m oid of None \<Rightarrow> m
      | Some og \<Rightarrow> fold (\<lambda>p. setOrganismAt p oid) (og_cells og) m)"

definition om_resizeGrid :: "nat list \<Rightarrow> int \<Rightarrow> int \<Rightarrow> 'b organism_manager \<Rightarrow> 'b organism_manager" where
  "om_resizeGrid order w h m =
     (if om_width m = w \<and> om_height m = h then m
      else fold reproject order
             (m\<lparr>om_organisms := (\<lambda>i. map_option (repositionOrganism (om_width m) (om_height m) w h) (om_organisms m i)),
                om_width := w, om_height := h,
                om_grid := replicate (nat (w * h)) INVALID_ORGANISM_ID\<rparr>))"

section \<open>The owner of a cell\<close>

definition om_shape :: "'b organism_manager \<Rightarrow> bool" where
  "om_shape m = (0 \<le> om_width m \<and> 0 \<le> om_height m \<and> length (om_grid m) = nat (om_width m * om_height m))"

definition tracked :: "'b organism_manager \<Rightarrow> bool" where
  "tracked m =
     (om_shape m \<and>
      (\<forall>p. om_at m p \<noteq> INVALID_ORGANISM_ID \<longrightarrow>
         (\<exists>og. om_organisms m (om_at m p) = Some og \<and> p \<in> set (og_cells og))) \<and>
      (\<forall>i og. om_organisms m i = Some og \<longrightarrow> i \<noteq> INVALID_ORGANISM_ID \<and> i < om_next m) \<and>
      INVALID_ORGANISM_ID < om_next m)"

lemma om_index_inj:
  assumes "om_inside m p" "om_inside m q" "om_index m p = om_index m q"
  shows "p = q"
  using assms cellIndex_inject [of "fst p" "om_width m" "snd p" "fst q" "snd q"]
  by (auto simp: om_inside_def om_index_def prod_eq_iff)

lemma om_index_less:
  assumes "om_shape m" "om_inside m p" shows "om_index m p < length (om_grid m)"
  using assms cellIndex_less [of "fst p" "om_width m" "snd p" "om_height m"]
  by (simp add: om_inside_def om_index_def om_shape_def)

lemma setOrganismAt_frame [simp]:
  "om_organisms (setOrganismAt p oid m) = om_organisms m" "om_next (setOrganismAt p oid m) = om_next m"
  "om_inside (setOrganismAt p oid m) q = om_inside m q" "om_shape (setOrganismAt p oid m) = om_shape m"
  "om_width (setOrganismAt p oid m) = om_width m" "om_height (setOrganismAt p oid m) = om_height m"
  by (simp_all add: setOrganismAt_def om_inside_def om_shape_def)

lemma om_at_set:
  assumes "om_shape m"
  shows "om_at (setOrganismAt p oid m) q = (if q = p \<and> om_inside m p then oid else om_at m q)"
proof (cases "om_inside m p")
  case True
  have i: "om_inside (m\<lparr>om_grid := g\<rparr>) r = om_inside m r" "om_index (m\<lparr>om_grid := g\<rparr>) r = om_index m r" for g r
    by (simp_all add: om_inside_def om_index_def)
  show ?thesis
  proof (cases "q = p")
    case True
    with \<open>om_inside m p\<close> show ?thesis
      using om_index_less [OF assms \<open>om_inside m p\<close>] by (simp add: om_at_def setOrganismAt_def i True)
  next
    case False
    then have "om_inside m q \<Longrightarrow> om_index m p \<noteq> om_index m q" using om_index_inj True by metis
    with True False show ?thesis by (auto simp: om_at_def setOrganismAt_def i)
  qed
qed (simp add: setOrganismAt_def)

lemma updateOrganism_frame [simp]:
  "om_at (updateOrganism oid f m) q = om_at m q" "om_next (updateOrganism oid f m) = om_next m"
  "om_inside (updateOrganism oid f m) q = om_inside m q" "om_shape (updateOrganism oid f m) = om_shape m"
  "om_organisms (updateOrganism oid f m) i = (if i = oid then map_option f (om_organisms m i) else om_organisms m i)"
  by (simp_all add: updateOrganism_def om_at_def om_inside_def om_index_def om_shape_def)

end
