(* ===== verification/OrganismTracking.thy ===== *)
theory OrganismTracking
  imports Organisms
begin

text \<open>
  What the operations of \<open>OrganismManager\<close> keep of the ownership of cells: the invariant \<open>tracked\<close>
  holds after every operation, and the stronger \<open>exact\<close>, that an organism owns every cell it lists,
  after every operation that does not take a cell from another organism.
\<close>

section \<open>What the operations do to the owner map and the cell sets\<close>

lemma set_insertCell [simp]: "set (insertCell p cs) = insert p (set cs)"
  by (auto simp: insertCell_def)

lemma set_eraseCell [simp]: "set (eraseCell p cs) = set cs - {p}"
  by (auto simp: eraseCell_def)

lemma setAnchorCell_cells [simp]: "og_cells (setAnchorCell p og) = og_cells og" "og_type (setAnchorCell p og) = og_type og"
  by (simp_all add: setAnchorCell_def Let_def)

lemma moveTracking_cells [simp]:
  "set (og_cells (moveTracking frm to og)) = insert to (set (og_cells og) - {frm})"
  by (auto simp: moveTracking_def onCellTransfer_def)

lemma at_outside: "\<not> om_inside m p \<Longrightarrow> om_at m p = INVALID_ORGANISM_ID"
  by (simp add: om_at_def)

lemma clearOrganismAt_frame [simp]:
  "om_organisms (clearOrganismAt p m) = om_organisms m" "om_next (clearOrganismAt p m) = om_next m"
  "om_inside (clearOrganismAt p m) q = om_inside m q" "om_shape (clearOrganismAt p m) = om_shape m"
  by (simp_all add: clearOrganismAt_def)

lemma om_at_clear:
  "om_shape m \<Longrightarrow> om_at (clearOrganismAt p m) q = (if q = p then INVALID_ORGANISM_ID else om_at m q)"
  by (simp add: clearOrganismAt_def om_at_set at_outside)

lemma fold_clear:
  "om_shape m \<Longrightarrow>
   om_shape (fold clearOrganismAt ps m) \<and> om_organisms (fold clearOrganismAt ps m) = om_organisms m \<and>
   om_next (fold clearOrganismAt ps m) = om_next m \<and> om_inside (fold clearOrganismAt ps m) = om_inside m \<and>
   om_at (fold clearOrganismAt ps m) = (\<lambda>q. if q \<in> set ps then INVALID_ORGANISM_ID else om_at m q)"
proof (induction ps arbitrary: m)
  case (Cons p ps)
  then show ?case by (auto simp: om_at_clear fun_eq_iff)
qed auto

lemma fold_set:
  "om_shape m \<Longrightarrow>
   om_shape (fold (\<lambda>p. setOrganismAt p oid) ps m) \<and>
   om_organisms (fold (\<lambda>p. setOrganismAt p oid) ps m) = om_organisms m \<and>
   om_next (fold (\<lambda>p. setOrganismAt p oid) ps m) = om_next m \<and>
   om_inside (fold (\<lambda>p. setOrganismAt p oid) ps m) = om_inside m \<and>
   om_at (fold (\<lambda>p. setOrganismAt p oid) ps m) = (\<lambda>q. if q \<in> set ps \<and> om_inside m q then oid else om_at m q)"
proof (induction ps arbitrary: m)
  case (Cons p ps)
  then show ?case by (auto simp: om_at_set fun_eq_iff)
qed auto

text \<open>The cells of an organism, none for an unknown id.\<close>

definition cellsOf :: "'b organism_manager \<Rightarrow> nat \<Rightarrow> pos set" where
  "cellsOf m i = (case om_organisms m i of None \<Rightarrow> {} | Some og \<Rightarrow> set (og_cells og))"

lemma mem_cellsOf: "p \<in> cellsOf m i \<longleftrightarrow> (\<exists>og. om_organisms m i = Some og \<and> p \<in> set (og_cells og))"
  by (simp add: cellsOf_def split: option.split)

lemma tracked_iff:
  "tracked m \<longleftrightarrow> om_shape m \<and> INVALID_ORGANISM_ID < om_next m \<and>
     (\<forall>p. om_at m p \<noteq> INVALID_ORGANISM_ID \<longrightarrow> p \<in> cellsOf m (om_at m p)) \<and>
     (\<forall>i og. om_organisms m i = Some og \<longrightarrow> i \<noteq> INVALID_ORGANISM_ID \<and> i < om_next m)"
  unfolding tracked_def mem_cellsOf by blast

lemma cellsOf_update [simp]:
  "cellsOf (updateOrganism oid f m) i =
     (if i = oid then case om_organisms m i of None \<Rightarrow> {} | Some og \<Rightarrow> set (og_cells (f og)) else cellsOf m i)"
  by (auto simp: cellsOf_def split: option.splits)

lemma cellsOf_set [simp]: "cellsOf (setOrganismAt p oid m) = cellsOf m" "cellsOf (clearOrganismAt p m) = cellsOf m"
  by (simp_all add: cellsOf_def [abs_def])

text \<open>The four operations on cells, as updates of the owner map and of one set each.\<close>

lemma addCell_effect:
  assumes "om_shape m" "om_organisms m oid = Some og"
  obtains m' where "addCellToOrganism oid p m = Some m'" "om_shape m'" "om_next m' = om_next m"
    "om_inside m' = om_inside m" "dom (om_organisms m') = dom (om_organisms m)"
    "\<And>q. om_at m' q = (if q = p \<and> om_inside m p then oid else om_at m q)"
    "\<And>i. cellsOf m' i = (if i = oid then insert p (cellsOf m i) else cellsOf m i)"
proof
  let ?m = "setOrganismAt p oid (updateOrganism oid (\<lambda>og. og\<lparr>og_cells := insertCell p (og_cells og)\<rparr>) m)"
  show "addCellToOrganism oid p m = Some ?m" by (simp add: addCellToOrganism_def getOrganism_def assms(2))
  show "om_inside ?m = om_inside m" by auto
  show "dom (om_organisms ?m) = dom (om_organisms m)" by (auto simp: dom_def assms(2))
  show "om_at ?m q = (if q = p \<and> om_inside m p then oid else om_at m q)" for q
    using assms(1) by (simp add: om_at_set)
  show "cellsOf ?m i = (if i = oid then insert p (cellsOf m i) else cellsOf m i)" for i
    by (simp add: assms(2)) (simp add: cellsOf_def assms(2))
qed (use assms(1) in simp_all)

lemma removeCell_effect:
  assumes "om_shape m"
  shows "om_shape (removeCell oid p m)" "om_next (removeCell oid p m) = om_next m"
    "om_inside (removeCell oid p m) q = om_inside m q"
    "dom (om_organisms (removeCell oid p m)) = dom (om_organisms m)"
    "om_at (removeCell oid p m) q = (if q = p then INVALID_ORGANISM_ID else om_at m q)"
    "cellsOf (removeCell oid p m) i = (if i = oid then cellsOf m i - {p} else cellsOf m i)"
  using assms by (auto simp: removeCell_def om_at_clear dom_def cellsOf_def split: option.splits)

lemma removeCells_effect:
  fixes ps and oid and m :: "'b organism_manager"
  assumes "om_shape m" "om_organisms m oid \<noteq> None"
  defines "m' \<equiv> removeCellsFromOrganism oid ps m"
  shows "om_shape m' \<and> om_next m' = om_next m \<and> om_inside m' = om_inside m \<and>
    dom (om_organisms m') = dom (om_organisms m) \<and>
    om_at m' = (\<lambda>q. if q \<in> set ps then INVALID_ORGANISM_ID else om_at m q) \<and>
    cellsOf m' = (\<lambda>i. if i = oid then cellsOf m i - set ps else cellsOf m i)"
proof -
  have "m' = fold (removeCell oid) ps m"
    using assms(2) by (auto simp: m'_def removeCellsFromOrganism_def getOrganism_def split: option.splits)
  moreover have "om_shape m \<Longrightarrow> om_shape (fold (removeCell oid) ps m) \<and>
      om_next (fold (removeCell oid) ps m) = om_next m \<and> om_inside (fold (removeCell oid) ps m) = om_inside m \<and>
      dom (om_organisms (fold (removeCell oid) ps m)) = dom (om_organisms m) \<and>
      om_at (fold (removeCell oid) ps m) = (\<lambda>q. if q \<in> set ps then INVALID_ORGANISM_ID else om_at m q) \<and>
      cellsOf (fold (removeCell oid) ps m) = (\<lambda>i. if i = oid then cellsOf m i - set ps else cellsOf m i)"
  proof (induction ps arbitrary: m)
    case (Cons p ps)
    from Cons.IH [of "removeCell oid p m"] removeCell_effect [OF Cons.prems] show ?case
      by (auto simp: fun_eq_iff)
  qed (simp add: fun_eq_iff)
  ultimately show ?thesis using assms(1) by simp
qed

text \<open>Each side of a swap, and a move, change the lists of one organism.\<close>

lemma swapSide_effect:
  assumes "oid = INVALID_ORGANISM_ID \<or> om_organisms m oid \<noteq> None"
  obtains m' where "swapSide oid frm to m = Some m'" "om_shape m' = om_shape m" "om_next m' = om_next m"
    "om_inside m' = om_inside m" "dom (om_organisms m') = dom (om_organisms m)" "om_at m' = om_at m"
    "\<And>i. cellsOf m' i =
      (if i = oid \<and> oid \<noteq> INVALID_ORGANISM_ID then insert to (cellsOf m i - {frm}) else cellsOf m i)"
proof (cases "oid = INVALID_ORGANISM_ID")
  case True
  show ?thesis by (rule that [of m]) (simp_all add: swapSide_def True)
next
  case False
  then obtain og where og: "om_organisms m oid = Some og" using assms by auto
  let ?m = "updateOrganism oid (moveTracking frm to) m"
  show ?thesis
  proof (rule that [of ?m])
    show "swapSide oid frm to m = Some ?m" using False og by (simp add: swapSide_def getOrganism_def)
    show "om_inside ?m = om_inside m" "om_at ?m = om_at m" by (auto simp: fun_eq_iff)
    show "dom (om_organisms ?m) = dom (om_organisms m)" by (auto simp: dom_def og)
    show "cellsOf ?m i =
      (if i = oid \<and> oid \<noteq> INVALID_ORGANISM_ID then insert to (cellsOf m i - {frm}) else cellsOf m i)" for i
      using False by (simp add: og) (simp add: cellsOf_def og)
  qed simp_all
qed

lemma swap_effect:
  assumes t: "tracked m" and ne: "om_at m p1 \<noteq> om_at m p2 \<or> om_at m p1 = INVALID_ORGANISM_ID"
  obtains m' where "swapOrganisms p1 p2 m = Some m'" "om_shape m'" "om_next m' = om_next m"
    "om_inside m' = om_inside m" "dom (om_organisms m') = dom (om_organisms m)"
    "\<And>q. om_at m' q = (if q = p2 \<and> om_inside m q then om_at m p1
                       else if q = p1 \<and> om_inside m q then om_at m p2 else om_at m q)"
    "\<And>i. cellsOf m' i =
      (if i = INVALID_ORGANISM_ID then cellsOf m i
       else if i = om_at m p1 then insert p2 (cellsOf m i - {p1})
       else if i = om_at m p2 then insert p1 (cellsOf m i - {p2}) else cellsOf m i)"
proof -
  let ?o1 = "om_at m p1" and ?o2 = "om_at m p2"
  let ?m0 = "setOrganismAt p2 ?o1 (setOrganismAt p1 ?o2 m)"
  have s: "om_shape m" using t by (simp add: tracked_def)
  have known: "om_at m p = INVALID_ORGANISM_ID \<or> om_organisms m (om_at m p) \<noteq> None" for p
    using t unfolding tracked_def by (metis option.distinct(1))
  obtain m1 where m1: "swapSide ?o1 p1 p2 ?m0 = Some m1" "om_shape m1 = om_shape ?m0" "om_next m1 = om_next ?m0"
    "om_inside m1 = om_inside ?m0" "dom (om_organisms m1) = dom (om_organisms ?m0)" "om_at m1 = om_at ?m0"
    "\<And>i. cellsOf m1 i =
      (if i = ?o1 \<and> ?o1 \<noteq> INVALID_ORGANISM_ID then insert p2 (cellsOf ?m0 i - {p1}) else cellsOf ?m0 i)"
    using known [of p1] by (rule_tac swapSide_effect [of ?o1 ?m0 p1 p2]) auto
  have "?o2 = INVALID_ORGANISM_ID \<or> om_organisms m1 ?o2 \<noteq> None"
    using known [of p2] m1(5) by (auto simp: dom_def set_eq_iff)
  then obtain m2 where m2: "swapSide ?o2 p2 p1 m1 = Some m2" "om_shape m2 = om_shape m1" "om_next m2 = om_next m1"
    "om_inside m2 = om_inside m1" "dom (om_organisms m2) = dom (om_organisms m1)" "om_at m2 = om_at m1"
    "\<And>i. cellsOf m2 i =
      (if i = ?o2 \<and> ?o2 \<noteq> INVALID_ORGANISM_ID then insert p1 (cellsOf m1 i - {p2}) else cellsOf m1 i)"
    by (rule swapSide_effect [where frm = p2 and to = p1]) blast
  show ?thesis
  proof (rule that [of m2])
    show "swapOrganisms p1 p2 m = Some m2"
      using m1(1) m2(1) ne by (auto simp: swapOrganisms_def Let_def)
    show "om_inside m2 = om_inside m" using m1(4) m2(4) by (auto simp: fun_eq_iff)
    show "om_at m2 q = (if q = p2 \<and> om_inside m q then om_at m p1
                       else if q = p1 \<and> om_inside m q then om_at m p2 else om_at m q)" for q
      using s by (auto simp: m2(6) m1(6) om_at_set)
    show "cellsOf m2 i =
      (if i = INVALID_ORGANISM_ID then cellsOf m i
       else if i = om_at m p1 then insert p2 (cellsOf m i - {p1})
       else if i = om_at m p2 then insert p1 (cellsOf m i - {p2}) else cellsOf m i)" for i
      using ne by (auto simp: m2(7) m1(7))
  qed (use s m1 m2 in simp_all)
qed

lemma move_effect:
  assumes "om_shape m" "om_organisms m oid = Some og" "\<not> usesRigidBodyPhysics og" "om_at m frm = oid"
  obtains m' where "moveOrganismCell frm to oid m = Some m'" "om_shape m'" "om_next m' = om_next m"
    "om_inside m' = om_inside m" "dom (om_organisms m') = dom (om_organisms m)"
    "\<And>q. om_at m' q = (if q = to \<and> om_inside m to then oid else if q = frm then INVALID_ORGANISM_ID else om_at m q)"
    "\<And>i. cellsOf m' i = (if i = oid then insert to (cellsOf m i - {frm}) else cellsOf m i)"
proof
  let ?m = "updateOrganism oid (moveTracking frm to) (setOrganismAt to oid (clearOrganismAt frm m))"
  show "moveOrganismCell frm to oid m = Some ?m"
    using assms by (simp add: moveOrganismCell_def getOrganism_def)
  show "om_inside ?m = om_inside m" by (auto simp: fun_eq_iff)
  show "dom (om_organisms ?m) = dom (om_organisms m)" by (auto simp: dom_def assms(2))
  show "om_at ?m q = (if q = to \<and> om_inside m to then oid else if q = frm then INVALID_ORGANISM_ID else om_at m q)" for q
    using assms(1) by (simp add: om_at_set om_at_clear)
  show "cellsOf ?m i = (if i = oid then insert to (cellsOf m i - {frm}) else cellsOf m i)" for i
    by (simp add: assms(2)) (simp add: cellsOf_def assms(2))
qed (use assms(1) in simp_all)

section \<open>The owner of a cell is always known\<close>

definition newManager :: "'b organism_manager" where
  "newManager = \<lparr>om_organisms = Map.empty, om_genomes = Map.empty, om_next = 1, om_grid = [],
     om_width = 0, om_height = 0\<rparr>"

text \<open>
  The managers a run can produce. \<open>reach_plant\<close> is the bookkeeping of \<open>createTree\<close> and \<open>createDuck\<close>,
  \<open>reach_register\<close> that of \<open>createGoose\<close>; \<open>reach_body\<close> stands for the updates of an organism that
  leave its cells to the manager.
\<close>

inductive om_reach :: "'b organism_manager \<Rightarrow> bool" where
  reach_newManager: "om_reach newManager"
| reach_plant: "om_reach m \<Longrightarrow> p \<in> set (og_cells og) \<Longrightarrow> om_reach (setOrganismAt p (om_next m) (registerOrganism og m))"
| reach_register: "om_reach m \<Longrightarrow> om_reach (registerOrganism og m)"
| reach_add: "om_reach m \<Longrightarrow> addCellToOrganism oid p m = Some m' \<Longrightarrow> om_reach m'"
| reach_removeCells: "om_reach m \<Longrightarrow> om_reach (removeCellsFromOrganism oid ps m)"
| reach_swap: "om_reach m \<Longrightarrow> swapOrganisms p q m = Some m' \<Longrightarrow> om_reach m'"
| reach_move: "om_reach m \<Longrightarrow> moveOrganismCell p q oid m = Some m' \<Longrightarrow> om_reach m'"
| reach_remove: "om_reach m \<Longrightarrow> removeOrganism oid m = Some m' \<Longrightarrow> om_reach m'"
| reach_clear: "om_reach m \<Longrightarrow> om_reach (clearOrganisms m)"
| reach_resize: "om_reach m \<Longrightarrow> 0 \<le> w \<Longrightarrow> 0 \<le> h \<Longrightarrow> om_reach (om_resizeGrid order w h m)"
| reach_body: "om_reach m \<Longrightarrow> (\<And>og. og_cells (f og) = og_cells og) \<Longrightarrow> om_reach (updateOrganism oid f m)"

text \<open>Tracking is kept by an operation that lists what it assigns and forgets no id.\<close>

lemma tracked_step:
  assumes "tracked m" "om_shape m'" "om_next m' = om_next m" "dom (om_organisms m') \<subseteq> dom (om_organisms m)"
    "\<And>q. om_at m' q = INVALID_ORGANISM_ID \<or> q \<in> cellsOf m' (om_at m' q)"
  shows "tracked m'"
  using assms unfolding tracked_iff by (metis domI domD subsetD)

lemma tracked_owner: "tracked m \<Longrightarrow> om_at m q = INVALID_ORGANISM_ID \<or> q \<in> cellsOf m (om_at m q)"
  unfolding tracked_iff by blast

lemma tracked_shape: "tracked m \<Longrightarrow> om_shape m"
  by (simp add: tracked_def)

lemma invalid_no_cells: "tracked m \<Longrightarrow> cellsOf m INVALID_ORGANISM_ID = {}"
  by (auto simp: tracked_def cellsOf_def split: option.split)

lemma register_effect:
  assumes "tracked m"
  shows "om_at (registerOrganism og m) q = om_at m q" "om_shape (registerOrganism og m)"
    "om_inside (registerOrganism og m) q = om_inside m q" "om_next (registerOrganism og m) = om_next m + 1"
    "om_organisms (registerOrganism og m) = (om_organisms m)(om_next m \<mapsto> og)"
    "cellsOf (registerOrganism og m) i = (if i = om_next m then set (og_cells og) else cellsOf m i)"
  using assms
  by (simp_all add: registerOrganism_def om_at_def om_inside_def om_index_def om_shape_def tracked_def cellsOf_def)

lemma tracked_register:
  assumes "tracked m" shows "tracked (registerOrganism og m)"
proof -
  have "om_at m q \<noteq> om_next m" if "om_at m q \<noteq> INVALID_ORGANISM_ID" for q
    using assms that unfolding tracked_def by (metis less_irrefl)
  then show ?thesis
    using assms register_effect [OF assms, of og] unfolding tracked_iff
    by (auto simp: less_Suc_eq split: if_splits)
qed

lemma tracked_set_owned:
  assumes "tracked m" "p \<in> cellsOf m oid" shows "tracked (setOrganismAt p oid m)"
  using assms tracked_owner [OF assms(1)]
  by (intro tracked_step [OF assms(1)]) (auto simp: tracked_def om_at_set)

lemma tracked_fold_set:
  assumes "tracked m" "set ps \<subseteq> cellsOf m oid"
  shows "tracked (fold (\<lambda>p. setOrganismAt p oid) ps m)"
  using assms
proof (induction ps arbitrary: m)
  case (Cons p ps)
  then show ?case using tracked_set_owned [of m p oid] by simp
qed simp

lemma tracked_reproject: "tracked m \<Longrightarrow> tracked (reproject oid m)"
  by (auto simp: reproject_def getOrganism_def cellsOf_def split: option.split intro!: tracked_fold_set)

lemma tracked_resize:
  assumes "tracked m" "0 \<le> w" "0 \<le> h" shows "tracked (om_resizeGrid order w h m)"
proof (cases "om_width m = w \<and> om_height m = h")
  case False
  let ?m = "m\<lparr>om_organisms := (\<lambda>i. map_option (repositionOrganism (om_width m) (om_height m) w h) (om_organisms m i)),
              om_width := w, om_height := h, om_grid := replicate (nat (w * h)) INVALID_ORGANISM_ID\<rparr>"
  have "om_at ?m q = INVALID_ORGANISM_ID" for q
    using cellIndex_less [of "fst q" w "snd q" h] by (auto simp: om_at_def om_inside_def om_index_def)
  then have "tracked ?m"
    using assms by (auto simp: tracked_def om_shape_def)
  then have "tracked (fold reproject order ?m)"
    by (induction order arbitrary: m rule: rev_induct) (simp_all add: tracked_reproject)
  then show ?thesis using False unfolding om_resizeGrid_def by (simp only: if_False)
qed (simp add: om_resizeGrid_def assms)

lemma tracked_add:
  assumes "tracked m" "addCellToOrganism oid p m = Some m'" shows "tracked m'"
proof -
  obtain og where og: "om_organisms m oid = Some og"
    using assms(2) by (auto simp: addCellToOrganism_def getOrganism_def split: option.splits)
  obtain n where n: "addCellToOrganism oid p m = Some n" "om_shape n" "om_next n = om_next m"
    "om_inside n = om_inside m" "dom (om_organisms n) = dom (om_organisms m)"
    "\<And>q. om_at n q = (if q = p \<and> om_inside m p then oid else om_at m q)"
    "\<And>i. cellsOf n i = (if i = oid then insert p (cellsOf m i) else cellsOf m i)"
    by (rule addCell_effect [OF tracked_shape [OF assms(1)] og, where p = p]) blast
  have "tracked n"
  proof (rule tracked_step [OF assms(1)])
    show "om_at n q = INVALID_ORGANISM_ID \<or> q \<in> cellsOf n (om_at n q)" for q
      using tracked_owner [OF assms(1), of q] unfolding n(6) n(7) by auto
  qed (use n in simp_all)
  with n(1) assms(2) show ?thesis by simp
qed

lemma tracked_removeCells: "tracked m \<Longrightarrow> tracked (removeCellsFromOrganism oid ps m)"
proof (cases "om_organisms m oid")
  case None
  then show "tracked m \<Longrightarrow> ?thesis" by (simp add: removeCellsFromOrganism_def getOrganism_def)
next
  case (Some og)
  assume t: "tracked m"
  from removeCells_effect [OF tracked_shape [OF t], of oid ps] Some tracked_owner [OF t]
  show ?thesis by (intro tracked_step [OF t]) auto
qed

lemma tracked_swap:
  assumes "tracked m" "swapOrganisms p1 p2 m = Some m'" shows "tracked m'"
proof -
  have ne: "om_at m p1 \<noteq> om_at m p2 \<or> om_at m p1 = INVALID_ORGANISM_ID"
    using assms(2) by (auto simp: swapOrganisms_def Let_def split: if_splits)
  obtain n where n: "swapOrganisms p1 p2 m = Some n" "om_shape n" "om_next n = om_next m"
    "dom (om_organisms n) = dom (om_organisms m)"
    "\<And>q. om_at n q = (if q = p2 \<and> om_inside m q then om_at m p1
                       else if q = p1 \<and> om_inside m q then om_at m p2 else om_at m q)"
    "\<And>i. cellsOf n i =
      (if i = INVALID_ORGANISM_ID then cellsOf m i
       else if i = om_at m p1 then insert p2 (cellsOf m i - {p1})
       else if i = om_at m p2 then insert p1 (cellsOf m i - {p2}) else cellsOf m i)"
    by (rule swap_effect [OF assms(1) ne]) blast
  have "tracked n"
  proof (rule tracked_step [OF assms(1)])
    fix q
    consider "q = p2" "om_inside m q" | "q = p1" "q \<noteq> p2" "om_inside m q" | "q \<noteq> p1" "q \<noteq> p2" | "\<not> om_inside m q"
      by blast
    then show "om_at n q = INVALID_ORGANISM_ID \<or> q \<in> cellsOf n (om_at n q)"
    proof cases
      case 3
      then have "om_at n q = om_at m q" "q \<in> cellsOf n i \<longleftrightarrow> q \<in> cellsOf m i" for i by (simp_all add: n(5) n(6))
      with tracked_owner [OF assms(1), of q] show ?thesis by metis
    next
      case 2
      with ne show ?thesis by (simp add: n(5) n(6)) metis
    qed (simp_all add: n(5) n(6) at_outside)
  qed (use n in simp_all)
  with n(1) assms(2) show ?thesis by simp
qed

lemma tracked_move:
  assumes "tracked m" "moveOrganismCell p1 p2 oid m = Some m'" shows "tracked m'"
proof (cases "\<exists>og. om_organisms m oid = Some og \<and> \<not> usesRigidBodyPhysics og")
  case True
  then obtain og where og: "om_organisms m oid = Some og" "\<not> usesRigidBodyPhysics og" by blast
  then have at: "om_at m p1 = oid" using assms(2) by (auto simp: moveOrganismCell_def getOrganism_def split: if_splits)
  obtain n where n: "moveOrganismCell p1 p2 oid m = Some n" "om_shape n" "om_next n = om_next m"
    "dom (om_organisms n) = dom (om_organisms m)"
    "\<And>q. om_at n q = (if q = p2 \<and> om_inside m p2 then oid else if q = p1 then INVALID_ORGANISM_ID else om_at m q)"
    "\<And>i. cellsOf n i = (if i = oid then insert p2 (cellsOf m i - {p1}) else cellsOf m i)"
    by (rule move_effect [OF tracked_shape [OF assms(1)] og at, where to = p2]) blast
  have "tracked n"
  proof (rule tracked_step [OF assms(1)])
    show "om_at n q = INVALID_ORGANISM_ID \<or> q \<in> cellsOf n (om_at n q)" for q
      using tracked_owner [OF assms(1), of q] unfolding n(5) n(6) by auto
  qed (use n in simp_all)
  with n(1) assms(2) show ?thesis by simp
next
  case False
  then have "m' = m" using assms(2) by (auto simp: moveOrganismCell_def getOrganism_def split: option.splits)
  with assms(1) show ?thesis by simp
qed

lemma removeOrganism_effect:
  assumes "om_shape m" "removeOrganism oid m = Some m'"
  shows "\<exists>og. om_organisms m oid = Some og \<and> om_shape m' \<and> om_next m' = om_next m \<and> om_inside m' = om_inside m \<and>
    om_organisms m' = (om_organisms m)(oid := None) \<and>
    om_at m' = (\<lambda>q. if q \<in> set (og_cells og) then INVALID_ORGANISM_ID else om_at m q)"
proof -
  obtain og where og: "om_organisms m oid = Some og"
    using assms(2) by (auto simp: removeOrganism_def getOrganism_def split: option.splits)
  let ?m1 = "fold clearOrganismAt (og_cells og) m"
  have e: "om_at (?m1\<lparr>om_organisms := f, om_genomes := g\<rparr>) = om_at ?m1"
    "om_shape (?m1\<lparr>om_organisms := f, om_genomes := g\<rparr>) = om_shape ?m1"
    "om_inside (?m1\<lparr>om_organisms := f, om_genomes := g\<rparr>) = om_inside ?m1" for f g
    by (simp_all add: om_at_def om_inside_def om_index_def om_shape_def fun_eq_iff)
  have m': "m' = ?m1\<lparr>om_organisms := (om_organisms ?m1)(oid := None), om_genomes := (om_genomes ?m1)(oid := None)\<rparr>"
    using assms(2) og by (simp add: removeOrganism_def getOrganism_def Let_def)
  show ?thesis using og fold_clear [OF assms(1), of "og_cells og"] unfolding m' e by simp
qed

lemma tracked_remove:
  assumes "tracked m" "removeOrganism oid m = Some m'" shows "tracked m'"
proof -
  obtain og where r: "om_organisms m oid = Some og" "om_shape m'" "om_next m' = om_next m"
    "om_organisms m' = (om_organisms m)(oid := None)"
    "om_at m' = (\<lambda>q. if q \<in> set (og_cells og) then INVALID_ORGANISM_ID else om_at m q)"
    using removeOrganism_effect [OF tracked_shape [OF assms(1)] assms(2)] by blast
  show ?thesis
  proof (rule tracked_step [OF assms(1)])
    show "om_at m' q = INVALID_ORGANISM_ID \<or> q \<in> cellsOf m' (om_at m' q)" for q
      using tracked_owner [OF assms(1), of q] r(1) by (auto simp: r(4,5) cellsOf_def split: if_splits)
  qed (use r in auto)
qed

lemma tracked_clear: "tracked m \<Longrightarrow> tracked (clearOrganisms m)"
proof -
  assume t: "tracked m"
  have "om_at (clearOrganisms m) q = INVALID_ORGANISM_ID" for q
    using om_index_less [of m q] tracked_shape [OF t]
    by (simp add: clearOrganisms_def om_at_def om_inside_def om_index_def)
  then show ?thesis
    using t by (intro tracked_step [OF t]) (auto simp: clearOrganisms_def tracked_def om_shape_def)
qed

lemma tracked_body:
  assumes "tracked m" "\<And>og. og_cells (f og) = og_cells og" shows "tracked (updateOrganism oid f m)"
proof (rule tracked_step [OF assms(1)])
  have "cellsOf (updateOrganism oid f m) = cellsOf m"
    by (auto simp: fun_eq_iff cellsOf_def assms(2) split: option.split)
  then show "om_at (updateOrganism oid f m) q = INVALID_ORGANISM_ID \<or>
      q \<in> cellsOf (updateOrganism oid f m) (om_at (updateOrganism oid f m) q)" for q
    using tracked_owner [OF assms(1), of q] by (simp only: updateOrganism_frame)
qed (use tracked_shape [OF assms(1)] in \<open>auto simp: dom_def\<close>)

lemma reach_tracked: "om_reach m \<Longrightarrow> tracked m"
proof (induction rule: om_reach.induct)
  case reach_newManager
  show ?case by (simp add: tracked_def newManager_def om_shape_def om_at_def om_inside_def INVALID_ORGANISM_ID_def)
next
  case (reach_plant m p og)
  then show ?case
    using register_effect(6) [of m og "om_next m"] by (intro tracked_set_owned tracked_register) auto
qed (blast intro: tracked_register tracked_add tracked_removeCells tracked_swap tracked_move tracked_remove
      tracked_clear tracked_resize tracked_body)+


definition demo_organism :: "unit organism" where
  "demo_organism = \<lparr>og_type = Org_Duck, og_active = True, og_cells = [(0, 0)], og_anchor = (0, 0),
     og_position = \<lparr>vx = 1 / 2, vy = 1 / 2\<rparr>, og_velocity = zero_vec, og_mass = 0, og_com = zero_vec, og_age = 0,
     og_shape = [], og_occupied = [], og_rigid = None, og_signatures = (\<lambda>_. 0), og_outcomes = (\<lambda>_. 0),
     og_tree = None\<rparr>"

definition demo_manager :: "unit organism_manager" where
  "demo_manager = setOrganismAt (0, 0) 1 (registerOrganism demo_organism (om_resizeGrid [] 2 1 newManager))"

lemma demo_reach: "om_reach demo_manager"
proof -
  let ?m = "om_resizeGrid [] 2 1 newManager :: unit organism_manager"
  have r: "om_reach ?m" by (rule reach_resize [OF reach_newManager]) simp_all
  have n: "om_next ?m = 1" by (simp add: om_resizeGrid_def newManager_def)
  have "(0, 0) \<in> set (og_cells demo_organism)" by (simp add: demo_organism_def)
  from reach_plant [OF r this] show ?thesis by (simp add: demo_manager_def n)
qed


section \<open>Exact ownership\<close>

definition exact :: "'b organism_manager \<Rightarrow> bool" where
  "exact m = (tracked m \<and> (\<forall>i p. p \<in> cellsOf m i \<longrightarrow> om_inside m p \<longrightarrow> om_at m p = i))"

lemma exact_at: "exact m \<Longrightarrow> p \<in> cellsOf m i \<Longrightarrow> om_inside m p \<Longrightarrow> om_at m p = i"
  unfolding exact_def by blast

lemma exact_tracked: "exact m \<Longrightarrow> tracked m"
  by (simp add: exact_def)

lemma exactI:
  assumes "tracked m" "\<And>i p. p \<in> cellsOf m i \<Longrightarrow> om_inside m p \<Longrightarrow> om_at m p = i"
  shows "exact m"
  using assms unfolding exact_def by blast

lemma exact_swap:
  assumes e: "exact m" and s: "swapOrganisms p1 p2 m = Some m'"
  shows "exact m'"
    "om_inside m p1 \<Longrightarrow> om_inside m p2 \<Longrightarrow> om_at m' q = om_at m (if q = p1 then p2 else if q = p2 then p1 else q)"
proof -
  note t = exact_tracked [OF e]
  have ne: "om_at m p1 \<noteq> om_at m p2 \<or> om_at m p1 = INVALID_ORGANISM_ID"
    using s by (auto simp: swapOrganisms_def Let_def split: if_splits)
  obtain n where n: "swapOrganisms p1 p2 m = Some n" "om_inside n = om_inside m"
    "\<And>q. om_at n q = (if q = p2 \<and> om_inside m q then om_at m p1
                       else if q = p1 \<and> om_inside m q then om_at m p2 else om_at m q)"
    "\<And>i. cellsOf n i =
      (if i = INVALID_ORGANISM_ID then cellsOf m i
       else if i = om_at m p1 then insert p2 (cellsOf m i - {p1})
       else if i = om_at m p2 then insert p1 (cellsOf m i - {p2}) else cellsOf m i)"
    by (rule swap_effect [OF t ne]) blast
  have m': "m' = n" using n(1) s by simp
  show "exact m'"
  proof (rule exactI)
    show "tracked m'" by (rule tracked_swap [OF t s])
    fix i p assume p: "p \<in> cellsOf m' i" "om_inside m' p"
    then have ins: "om_inside m p" by (simp add: m' n(2))
    have i: "i \<noteq> INVALID_ORGANISM_ID" using p(1) invalid_no_cells [OF t] by (auto simp: m' n(4))
    consider "p = p2" | "p = p1" "p \<noteq> p2" | "p \<noteq> p1" "p \<noteq> p2" by blast
    then show "om_at m' p = i"
    proof cases
      case 1
      then have "i = om_at m p1"
        using p(1) i exact_at [OF e _ ins, of i] by (auto simp: m' n(4) split: if_splits)
      with 1 ins show ?thesis by (simp add: m' n(3))
    next
      case 2
      then have "i = om_at m p2"
        using p(1) i exact_at [OF e _ ins, of i] by (auto simp: m' n(4) split: if_splits)
      with 2 ins show ?thesis by (simp add: m' n(3))
    next
      case 3
      then have "p \<in> cellsOf m i" using p(1) by (auto simp: m' n(4) split: if_splits)
      with 3 exact_at [OF e this ins] show ?thesis by (simp add: m' n(3))
    qed
  qed
  show "om_at m' q = om_at m (if q = p1 then p2 else if q = p2 then p1 else q)" if "om_inside m p1" "om_inside m p2"
    using that by (auto simp: m' n(3))
qed

lemma exact_add:
  assumes e: "exact m" and s: "addCellToOrganism oid p m = Some m'"
    and free: "om_at m p = INVALID_ORGANISM_ID \<or> om_at m p = oid"
  shows "exact m'"
proof -
  note t = exact_tracked [OF e]
  obtain og where og: "om_organisms m oid = Some og"
    using s by (auto simp: addCellToOrganism_def getOrganism_def split: option.splits)
  obtain n where n: "addCellToOrganism oid p m = Some n" "om_inside n = om_inside m"
    "\<And>q. om_at n q = (if q = p \<and> om_inside m p then oid else om_at m q)"
    "\<And>i. cellsOf n i = (if i = oid then insert p (cellsOf m i) else cellsOf m i)"
    by (rule addCell_effect [OF tracked_shape [OF t] og, where p = p]) blast
  have m': "m' = n" using n(1) s by simp
  show ?thesis
  proof (rule exactI)
    show "tracked m'" by (rule tracked_add [OF t s])
    fix i q assume q: "q \<in> cellsOf m' i" "om_inside m' q"
    then have ins: "om_inside m q" by (simp add: m' n(2))
    show "om_at m' q = i"
    proof (cases "q = p")
      case True
      have "i = oid"
      proof (rule ccontr)
        assume ne: "i \<noteq> oid"
        then have "q \<in> cellsOf m i" using q(1) by (simp add: m' n(4))
        with exact_at [OF e this ins] free True ne invalid_no_cells [OF t] show False by auto
      qed
      with True ins show ?thesis by (simp add: m' n(3))
    next
      case False
      then have "q \<in> cellsOf m i" using q(1) by (auto simp: m' n(4) split: if_splits)
      with False exact_at [OF e this ins] show ?thesis by (simp add: m' n(3))
    qed
  qed
qed

lemma exact_removeCells:
  assumes e: "exact m" and own: "\<And>p. p \<in> set ps \<Longrightarrow> om_at m p = INVALID_ORGANISM_ID \<or> om_at m p = oid"
  shows "exact (removeCellsFromOrganism oid ps m)"
proof (cases "om_organisms m oid")
  case None
  then show ?thesis using e by (simp add: removeCellsFromOrganism_def getOrganism_def)
next
  case (Some og)
  note t = exact_tracked [OF e]
  have r: "om_inside (removeCellsFromOrganism oid ps m) = om_inside m"
    "om_at (removeCellsFromOrganism oid ps m) = (\<lambda>q. if q \<in> set ps then INVALID_ORGANISM_ID else om_at m q)"
    "cellsOf (removeCellsFromOrganism oid ps m) = (\<lambda>i. if i = oid then cellsOf m i - set ps else cellsOf m i)"
    using removeCells_effect [OF tracked_shape [OF t], of oid ps] Some by auto
  show ?thesis
  proof (rule exactI)
    show "tracked (removeCellsFromOrganism oid ps m)" by (rule tracked_removeCells [OF t])
    fix i q assume q: "q \<in> cellsOf (removeCellsFromOrganism oid ps m) i"
      "om_inside (removeCellsFromOrganism oid ps m) q"
    then have c: "q \<in> cellsOf m i" "om_inside m q" "i = oid \<Longrightarrow> q \<notin> set ps" by (auto simp: r split: if_splits)
    have at: "om_at m q = i" by (rule exact_at [OF e c(1,2)])
    have "i \<noteq> INVALID_ORGANISM_ID" using c(1) invalid_no_cells [OF t] by auto
    then have "q \<notin> set ps" using own [of q] at c(3) by auto
    with at show "om_at (removeCellsFromOrganism oid ps m) q = i" by (simp add: r(2))
  qed
qed

lemma exact_move:
  assumes e: "exact m" and s: "moveOrganismCell p1 p2 oid m = Some m'"
    and free: "om_at m p2 = INVALID_ORGANISM_ID \<or> om_at m p2 = oid"
  shows "exact m'"
proof (cases "\<exists>og. om_organisms m oid = Some og \<and> \<not> usesRigidBodyPhysics og")
  case False
  then have "m' = m" using s by (auto simp: moveOrganismCell_def getOrganism_def split: option.splits)
  with e show ?thesis by simp
next
  case True
  note t = exact_tracked [OF e]
  obtain og where og: "om_organisms m oid = Some og" "\<not> usesRigidBodyPhysics og" using True by blast
  then have at: "om_at m p1 = oid" using s by (auto simp: moveOrganismCell_def getOrganism_def split: if_splits)
  obtain n where n: "moveOrganismCell p1 p2 oid m = Some n" "om_inside n = om_inside m"
    "\<And>q. om_at n q = (if q = p2 \<and> om_inside m p2 then oid else if q = p1 then INVALID_ORGANISM_ID else om_at m q)"
    "\<And>i. cellsOf n i = (if i = oid then insert p2 (cellsOf m i - {p1}) else cellsOf m i)"
    by (rule move_effect [OF tracked_shape [OF t] og at, where to = p2]) blast
  have m': "m' = n" using n(1) s by simp
  show ?thesis
  proof (rule exactI)
    show "tracked m'" by (rule tracked_move [OF t s])
    fix i q assume q: "q \<in> cellsOf m' i" "om_inside m' q"
    then have ins: "om_inside m q" by (simp add: m' n(2))
    show "om_at m' q = i"
    proof (cases "i = oid")
      case True
      with q(1) have "q = p2 \<or> q \<noteq> p1 \<and> q \<in> cellsOf m i" by (auto simp: m' n(4))
      with True ins exact_at [OF e _ ins, of i] show ?thesis by (auto simp: m' n(3))
    next
      case False
      then have "q \<in> cellsOf m i" using q(1) by (simp add: m' n(4))
      then have "om_at m q = i" "i \<noteq> INVALID_ORGANISM_ID"
        using exact_at [OF e _ ins] invalid_no_cells [OF t] by auto
      then have "q \<noteq> p1" "q \<noteq> p2" using at free False by auto
      with \<open>om_at m q = i\<close> show ?thesis by (simp add: m' n(3))
    qed
  qed
qed

lemma exact_remove:
  assumes e: "exact m" and s: "removeOrganism oid m = Some m'"
  shows "exact m'" "om_at m' p \<noteq> oid"
proof -
  note t = exact_tracked [OF e]
  obtain og where r: "om_organisms m oid = Some og" "om_inside m' = om_inside m"
    "om_organisms m' = (om_organisms m)(oid := None)"
    "om_at m' = (\<lambda>q. if q \<in> set (og_cells og) then INVALID_ORGANISM_ID else om_at m q)"
    using removeOrganism_effect [OF tracked_shape [OF t] s] by blast
  have own: "set (og_cells og) = cellsOf m oid" using r(1) by (simp add: cellsOf_def)
  have cells: "cellsOf m' i = (if i = oid then {} else cellsOf m i)" for i by (simp add: cellsOf_def r(3))
  have oid: "oid \<noteq> INVALID_ORGANISM_ID" using t r(1) unfolding tracked_def by blast
  show "exact m'"
  proof (rule exactI)
    show "tracked m'" by (rule tracked_remove [OF t s])
    fix i q assume q: "q \<in> cellsOf m' i" "om_inside m' q"
    then have c: "q \<in> cellsOf m i" "om_inside m q" "i \<noteq> oid" by (auto simp: cells r(2) split: if_splits)
    then have "om_at m q = i" "q \<notin> cellsOf m oid" using exact_at [OF e, of q] by auto
    then show "om_at m' q = i" by (simp add: r(4) own)
  qed
  show "om_at m' p \<noteq> oid"
    using tracked_owner [OF t, of p] oid by (auto simp: r(4) own)
qed

text \<open>
  Ownership is exact, every organism owning each grid cell it lists, and stays so: after every swap,
  which exchanges the owners of the two cells and changes no other; after adding a cell or moving to one
  that is free or the organism's own; after removing cells the organism owns; and after removing an
  organism, which leaves no cell of the grid with its id.
\<close>

theorem exact_ownership_kept:
  assumes "exact m"
  shows "(swapOrganisms p q m = Some m1 \<longrightarrow> exact m1 \<and>
      (om_inside m p \<and> om_inside m q \<longrightarrow>
        (\<forall>r. om_at m1 r = om_at m (if r = p then q else if r = q then p else r)))) \<and>
    (addCellToOrganism i p m = Some m2 \<longrightarrow> om_at m p \<in> {INVALID_ORGANISM_ID, i} \<longrightarrow> exact m2) \<and>
    (moveOrganismCell q p i m = Some m3 \<longrightarrow> om_at m p \<in> {INVALID_ORGANISM_ID, i} \<longrightarrow> exact m3) \<and>
    (om_at m ` set ps \<subseteq> {INVALID_ORGANISM_ID, i} \<longrightarrow> exact (removeCellsFromOrganism i ps m)) \<and>
    (removeOrganism i m = Some m4 \<longrightarrow> exact m4 \<and> (\<forall>r. om_at m4 r \<noteq> i))"
proof (intro conjI impI)
  show "exact m2" if "addCellToOrganism i p m = Some m2" "om_at m p \<in> {INVALID_ORGANISM_ID, i}"
    using exact_add [OF assms that(1)] that(2) by blast
  show "exact m3" if "moveOrganismCell q p i m = Some m3" "om_at m p \<in> {INVALID_ORGANISM_ID, i}"
    using exact_move [OF assms that(1)] that(2) by blast
  show "exact (removeCellsFromOrganism i ps m)" if "om_at m ` set ps \<subseteq> {INVALID_ORGANISM_ID, i}"
    using exact_removeCells [OF assms] that by blast
qed (use exact_swap [OF assms] exact_remove [OF assms] in blast)+

theorem exact_ownership_kept_witness:
  "\<exists>m1. swapOrganisms (0, 0) (1, 0) demo_manager = Some m1 \<and> om_at m1 (1, 0) = 1 \<and> exact m1"
proof -
  have t: "tracked demo_manager" by (rule reach_tracked [OF demo_reach])
  have c: "om_at demo_manager (0, 0) = 1" "om_at demo_manager (1, 0) = 0" "om_inside demo_manager (0, 0)"
    "om_inside demo_manager (1, 0)" by code_simp+
  have swaps: "\<not> Option.is_none (swapOrganisms (0, 0) (1, 0) demo_manager)" by code_simp
  have o: "om_organisms demo_manager = [1 \<mapsto> demo_organism]"
    by (simp add: demo_manager_def registerOrganism_def om_resizeGrid_def newManager_def)
  have "exact demo_manager"
    by (rule exactI [OF t]) (auto simp: cellsOf_def o demo_organism_def c split: if_splits)
  note kept = exact_ownership_kept [OF this, THEN conjunct1]
  obtain m1 where m1: "swapOrganisms (0, 0) (1, 0) demo_manager = Some m1"
    using swaps by (cases "swapOrganisms (0, 0) (1, 0) demo_manager") simp_all
  have "exact m1" "\<forall>r. om_at m1 r = om_at demo_manager (if r = (0, 0) then (1, 0) else if r = (1, 0) then (0, 0) else r)"
    using kept m1 c(3,4) by blast+
  moreover from this(2) [rule_format, of "(1, 0)"] c(1) have "om_at m1 (1, 0) = 1" by simp
  ultimately show ?thesis using m1 by blast
qed

text \<open>
  The exception. \<open>removeCellsFromOrganism\<close> clears the grid whoever owns the cell: when an organism
  drops a cell that another one has taken over, the grid forgets the new owner, which still lists it.
\<close>

lemma dropping_lost_cell_orphans_it:
  assumes "tracked m" "om_organisms m i = Some og" "om_at m p = j" "j \<noteq> INVALID_ORGANISM_ID" "j \<noteq> i"
  shows "om_at (removeCellsFromOrganism i [p] m) p = INVALID_ORGANISM_ID \<and>
    p \<in> cellsOf (removeCellsFromOrganism i [p] m) j"
  using removeCells_effect [OF tracked_shape [OF assms(1)], of i "[p]"] tracked_owner [OF assms(1), of p] assms
  by auto

end
