(* ===== verification/WorldEdits.thy ===== *)
theory WorldEdits
  imports OrganismTracking
begin

text \<open>
  Edits of single cells of the world, with the organisms that live there: \<open>swapCells\<close>,
  \<open>addMaterialAtCell\<close>, \<open>replaceMaterialAtCell\<close> and \<open>clearCellAtPosition\<close> of \<open>core/World.cpp\<close>, the
  creation and removal of organisms in \<open>OrganismManager.cpp\<close>, and the switch between the two water
  models in \<open>core/water/WaterSimSystem.cpp\<close>. Of the projection water simulation only its volume grid
  is kept. The 16-bit casts of coordinates are the identity on the coordinates of a grid and take any
  other coordinate to one outside it. \<open>None\<close> is an abort by \<open>DIRTSIM_ASSERT\<close>.
\<close>

section \<open>State\<close>

datatype water_mode = LegacyCell | MacProjection

record mac_sim =
  mac_width :: int
  mac_height :: int
  mac_volume :: "real list"

record water_system =
  ws_mode :: water_mode
  ws_width :: int
  ws_height :: int
  ws_sim :: "mac_sim option"

record light_buffer =
  lb_width :: int
  lb_height :: int
  lb_data :: "u32 list"

record 'b world_state =
  wd_width :: int
  wd_height :: int
  wd_cells :: "cell list"
  wd_timestep :: int
  wd_manager :: "'b organism_manager"
  wd_tracker :: tracker
  wd_cacheDirty :: bool
  wd_waterMode :: water_mode
  wd_water :: water_system
  wd_gravity :: real
  wd_airResistance :: real
  wd_light :: light_buffer

section \<open>The water system\<close>

fun createWaterSim :: "water_mode \<Rightarrow> mac_sim option" where
  "createWaterSim LegacyCell = None"
| "createWaterSim MacProjection = Some \<lparr>mac_width = 0, mac_height = 0, mac_volume = []\<rparr>"

definition mac_resize :: "int \<Rightarrow> int \<Rightarrow> mac_sim \<Rightarrow> mac_sim" where
  "mac_resize w h s = s\<lparr>mac_width := w, mac_height := h, mac_volume := replicate (nat (w * h)) 0\<rparr>"

definition mac_reset :: "mac_sim \<Rightarrow> mac_sim" where
  "mac_reset s = s\<lparr>mac_volume := map (\<lambda>_. 0) (mac_volume s)\<rparr>"

definition resizeIfNeeded :: "int \<Rightarrow> int \<Rightarrow> water_system \<Rightarrow> water_system" where
  "resizeIfNeeded w h s =
     (case ws_sim s of None \<Rightarrow> s
      | Some sim \<Rightarrow>
          if w = ws_width s \<and> h = ws_height s then s
          else s\<lparr>ws_width := w, ws_height := h, ws_sim := Some (mac_reset (mac_resize w h sim))\<rparr>)"

definition setMode :: "water_mode \<Rightarrow> int \<Rightarrow> int \<Rightarrow> water_system \<Rightarrow> water_system" where
  "setMode mode w h s =
     resizeIfNeeded w h (s\<lparr>ws_mode := mode, ws_sim := createWaterSim mode, ws_width := 0, ws_height := 0\<rparr>)"

definition syncToSettings :: "water_mode \<Rightarrow> int \<Rightarrow> int \<Rightarrow> water_system \<Rightarrow> water_system" where
  "syncToSettings mode w h s = (if mode \<noteq> ws_mode s then setMode mode w h s else resizeIfNeeded w h s)"

definition tryGetWaterVolumeView :: "water_system \<Rightarrow> mac_sim option" where
  "tryGetWaterVolumeView s =
     (case ws_sim s of None \<Rightarrow> None
      | Some sim \<Rightarrow> if mac_width sim \<le> 0 \<or> mac_height sim \<le> 0 then None else Some sim)"

definition setVolume :: "nat \<Rightarrow> real \<Rightarrow> water_system \<Rightarrow> water_system" where
  "setVolume i v s = s\<lparr>ws_sim := map_option (\<lambda>sim. sim\<lparr>mac_volume := (mac_volume sim)[i := v]\<rparr>) (ws_sim s)\<rparr>"

section \<open>Cells of the world\<close>

definition inBounds :: "'b world_state \<Rightarrow> pos \<Rightarrow> bool" where
  "inBounds w p = (fst p \<ge> 0 \<and> snd p \<ge> 0 \<and> fst p < wd_width w \<and> snd p < wd_height w)"

definition wd_index :: "'b world_state \<Rightarrow> pos \<Rightarrow> nat" where
  "wd_index w p = cellIndex (wd_width w) (fst p) (snd p)"

definition cellAt :: "'b world_state \<Rightarrow> pos \<Rightarrow> cell" where
  "cellAt w p = wd_cells w ! wd_index w p"

definition setCell :: "pos \<Rightarrow> cell \<Rightarrow> 'b world_state \<Rightarrow> 'b world_state" where
  "setCell p c w = w\<lparr>wd_cells := (wd_cells w)[wd_index w p := c]\<rparr>"

definition ownerAt :: "'b world_state \<Rightarrow> pos \<Rightarrow> nat" where
  "ownerAt w p = om_at (wd_manager w) p"

definition newCell :: "material \<Rightarrow> real \<Rightarrow> cell" where
  "newCell m ratio = new_cell\<lparr>material_type := m, fill_ratio := ratio\<rparr>"

text \<open>The grid cache and the static loads are dirty together; the one flag stands for both.\<close>

definition markGridCacheDirty :: "'b world_state \<Rightarrow> 'b world_state" where
  "markGridCacheDirty w = w\<lparr>wd_cacheDirty := True\<rparr>"

definition noteMutation :: "pos \<Rightarrow> 'b world_state \<Rightarrow> 'b world_state" where
  "noteMutation p w = w\<lparr>wd_tracker := noteWakeAtCell (fst p) (snd p) Wake_ExternalMutation (wd_tracker w)\<rparr>"

definition syncWater :: "'b world_state \<Rightarrow> 'b world_state" where
  "syncWater w = w\<lparr>wd_water := syncToSettings (wd_waterMode w) (wd_width w) (wd_height w) (wd_water w)\<rparr>"

definition blockedBySolid :: "cell \<Rightarrow> bool" where
  "blockedBySolid c = (\<not> cell_isEmpty c \<and> material_type c \<noteq> Mat_Air)"

section \<open>Edits\<close>

definition swapCells :: "pos \<Rightarrow> pos \<Rightarrow> 'b world_state \<Rightarrow> 'b world_state option" where
  "swapCells p1 p2 w =
     (if \<not> inBounds w p1 \<or> \<not> inBounds w p2 then Some w
      else
        let org1 = ownerAt w p1; org2 = ownerAt w p2;
            w1 = noteMutation p2 (noteMutation p1 (markGridCacheDirty
                   (setCell p2 (cellAt w p1) (setCell p1 (cellAt w p2) w))))
        in if org1 \<noteq> INVALID_ORGANISM_ID \<or> org2 \<noteq> INVALID_ORGANISM_ID
           then map_option (\<lambda>m. w1\<lparr>wd_manager := m\<rparr>) (swapOrganisms p1 p2 (wd_manager w1))
           else Some w1)"

text \<open>Water that goes to the projection model instead of the cell, where no solid stands.\<close>

definition addWaterVolume :: "pos \<Rightarrow> real \<Rightarrow> 'b world_state \<Rightarrow> 'b world_state" where
  "addWaterVolume p amount w =
     (let w1 = syncWater w
      in case tryGetWaterVolumeView (wd_water w1) of None \<Rightarrow> w1
         | Some view \<Rightarrow>
             if blockedBySolid (cellAt w1 p) then w1
             else
               let i = wd_index w1 p; current = mac_volume view ! i;
                   added = min amount (max 0 (1 - current))
               in if added \<le> 0 then w1
                  else noteMutation p (w1\<lparr>wd_water := setVolume i (current + added) (wd_water w1)\<rparr>))"

definition addMaterialAtCell :: "pos \<Rightarrow> material \<Rightarrow> real \<Rightarrow> 'b world_state \<Rightarrow> 'b world_state" where
  "addMaterialAtCell p m amount w =
     (if \<not> inBounds w p then w
      else if m = Mat_Water \<and> wd_waterMode w = MacProjection then addWaterVolume p amount w
      else case addMaterial m amount (cellAt w p) of (c, added) \<Rightarrow>
        let w1 = setCell p c w
        in if added > 0 then noteMutation p (markGridCacheDirty w1) else w1)"

definition clearCellAtPosition :: "pos \<Rightarrow> 'b world_state \<Rightarrow> 'b world_state" where
  "clearCellAtPosition p w =
     (if \<not> inBounds w p then w
      else if ownerAt w p \<noteq> INVALID_ORGANISM_ID then w
      else
        let (changed, w1) =
              (if wd_waterMode w = MacProjection
               then let w0 = syncWater w
                    in case tryGetWaterVolumeView (wd_water w0) of None \<Rightarrow> (False, w0)
                       | Some view \<Rightarrow>
                           let i = wd_index w0 p
                           in if i < length (mac_volume view) \<and> mac_volume view ! i > 0
                              then (True, w0\<lparr>wd_water := setVolume i 0 (wd_water w0)\<rparr>) else (False, w0)
               else (False, w))
        in if cell_isEmpty (cellAt w1 p) then (if \<not> changed then w1 else noteMutation p w1)
           else noteMutation p (markGridCacheDirty (setCell p (clearCell (cellAt w1 p)) w1)))"

definition replaceWaterVolume :: "pos \<Rightarrow> 'b world_state \<Rightarrow> 'b world_state" where
  "replaceWaterVolume p w =
     (if ownerAt w p \<noteq> INVALID_ORGANISM_ID then w
      else
        let w1 = syncWater w
        in case tryGetWaterVolumeView (wd_water w1) of None \<Rightarrow> w1
           | Some view \<Rightarrow>
               if blockedBySolid (cellAt w1 p) then w1
               else if wd_index w1 p \<ge> length (mac_volume view) then w1
               else noteMutation p (w1\<lparr>wd_water := setVolume (wd_index w1 p) 1 (wd_water w1)\<rparr>))"

definition removeOrganismFromWorld :: "nat \<Rightarrow> 'b world_state \<Rightarrow> 'b world_state option" where
  "removeOrganismFromWorld oid w =
     (case getOrganism (wd_manager w) oid of None \<Rightarrow> Some w
      | Some og \<Rightarrow>
          let w1 = fold (\<lambda>p w. if inBounds w p then setCell p new_cell w else w) (og_cells og) w
          in map_option (\<lambda>m. w1\<lparr>wd_manager := m\<rparr>) (removeOrganism oid (wd_manager w1)))"

text \<open>
  Where displaced material goes: the search keeps the best score, the best direction and the fill
  ratio found there, 2 when there is none. The loops over neighbours have one body.
\<close>

type_synonym displacement = "real \<times> pos \<times> real"

definition displaceStep :: "'b world_state \<Rightarrow> pos \<Rightarrow> pos \<Rightarrow> displacement \<Rightarrow> displacement" where
  "displaceStep w p d = (\<lambda>(score, best, fill).
     let n = shift d p
     in if \<not> inBounds w n then (score, best, fill)
        else if ownerAt w n \<noteq> INVALID_ORGANISM_ID then (score, best, fill)
        else
          let c = cellAt w p; nb = cellAt w n;
              s = vx (com c) * real_of_int (fst d) + vy (com c) * real_of_int (snd d)
          in if cell_isEmpty nb
             then (if s > score \<or> fill > 1 / 2 then (s, d, 0) else (score, best, fill))
             else if fill > 1 / 2 \<and> fill_ratio nb < fill then (s, d, fill_ratio nb)
             else (score, best, fill))"

definition nearDirections :: "pos list" where
  "nearDirections = [(1, 0), (- 1, 0), (0, 1), (0, - 1)]"

definition ringDirections :: "int \<Rightarrow> pos list" where
  "ringDirections radius =
     filter (\<lambda>(dx, dy). \<not> (\<bar>dx\<bar> \<noteq> radius \<and> \<bar>dy\<bar> \<noteq> radius))
       (concat (map (\<lambda>dy. map (\<lambda>dx. (dx, dy)) [- radius..radius]) [- radius..radius]))"

definition bestDisplacement :: "'b world_state \<Rightarrow> pos \<Rightarrow> pos" where
  "bestDisplacement w p =
     (let near = fold (displaceStep w p) nearDirections (- 999, (0, 0), 2)
      in fst (snd (if snd (snd near) > 1 / 2
                   then fold (displaceStep w p) (concat (map ringDirections [2, 3, 4])) near else near)))"

definition displaceMaterial :: "pos \<Rightarrow> material \<Rightarrow> 'b world_state \<Rightarrow> 'b world_state option" where
  "displaceMaterial p m w =
     (let d = bestDisplacement w p
      in if d = (0, 0) then do {
           w1 \<leftarrow> (if ownerAt w p \<noteq> INVALID_ORGANISM_ID then removeOrganismFromWorld (ownerAt w p) w else Some w);
           Some (markGridCacheDirty (setCell p (replaceMaterial m 1 (cellAt w1 p)) w1))
         }
         else
           let e = shift d p
           in if ownerAt w e \<noteq> INVALID_ORGANISM_ID then None
              else do {
                w1 \<leftarrow> swapCells e p w;
                Some (noteMutation e (noteMutation p (markGridCacheDirty (setCell p (newCell m 1) w1))))
              })"

definition replaceMaterialAtCell :: "pos \<Rightarrow> material \<Rightarrow> 'b world_state \<Rightarrow> 'b world_state option" where
  "replaceMaterialAtCell p m w =
     (if \<not> inBounds w p then Some w
      else if m = Mat_Air then Some (clearCellAtPosition p w)
      else if m = Mat_Water \<and> wd_waterMode w = MacProjection then Some (replaceWaterVolume p w)
      else if cell_isEmpty (cellAt w p) \<or> material_type (cellAt w p) = m
      then if ownerAt w p \<noteq> INVALID_ORGANISM_ID then None
           else Some (noteMutation p (markGridCacheDirty (setCell p (replaceMaterial m 1 (cellAt w p)) w)))
      else displaceMaterial p m w)"

section \<open>Replacing a cell\<close>

definition world_ok :: "'b world_state \<Rightarrow> bool" where
  "world_ok w =
     (0 \<le> wd_width w \<and> 0 \<le> wd_height w \<and> length (wd_cells w) = nat (wd_width w * wd_height w) \<and>
      om_width (wd_manager w) = wd_width w \<and> om_height (wd_manager w) = wd_height w \<and> tracked (wd_manager w))"

lemma inBounds_inside: "world_ok w \<Longrightarrow> om_inside (wd_manager w) p \<longleftrightarrow> inBounds w p"
  by (auto simp: world_ok_def om_inside_def inBounds_def)

lemma wd_index_less: "world_ok w \<Longrightarrow> inBounds w p \<Longrightarrow> wd_index w p < length (wd_cells w)"
  using cellIndex_less [of "fst p" "wd_width w" "snd p" "wd_height w"]
  by (simp add: world_ok_def inBounds_def wd_index_def)

lemma wd_index_inj: "inBounds w p \<Longrightarrow> inBounds w q \<Longrightarrow> wd_index w p = wd_index w q \<Longrightarrow> p = q"
  using cellIndex_inject [of "fst p" "wd_width w" "snd p" "fst q" "snd q"]
  by (auto simp: inBounds_def wd_index_def prod_eq_iff)

lemma setCell_frame [simp]:
  "wd_width (setCell p c w) = wd_width w" "wd_height (setCell p c w) = wd_height w"
  "wd_manager (setCell p c w) = wd_manager w" "inBounds (setCell p c w) q = inBounds w q"
  "wd_index (setCell p c w) q = wd_index w q" "ownerAt (setCell p c w) q = ownerAt w q"
  "world_ok (setCell p c w) = world_ok w"
  by (simp_all add: setCell_def inBounds_def wd_index_def ownerAt_def world_ok_def)

lemma cellAt_setCell:
  assumes "world_ok w" "inBounds w p" "inBounds w q"
  shows "cellAt (setCell p c w) q = (if q = p then c else cellAt w q)"
proof (cases "q = p")
  case True
  with wd_index_less [OF assms(1,2)] show ?thesis by (simp add: cellAt_def) (simp add: setCell_def)
next
  case False
  then have "wd_index w p \<noteq> wd_index w q" using wd_index_inj assms(2,3) by metis
  with False show ?thesis by (simp add: cellAt_def) (simp add: setCell_def)
qed

lemma note_frame [simp]:
  "wd_width (noteMutation p w) = wd_width w" "wd_height (noteMutation p w) = wd_height w"
  "wd_manager (noteMutation p w) = wd_manager w" "inBounds (noteMutation p w) q = inBounds w q"
  "ownerAt (noteMutation p w) q = ownerAt w q" "cellAt (noteMutation p w) q = cellAt w q"
  "world_ok (noteMutation p w) = world_ok w" "wd_index (noteMutation p w) q = wd_index w q"
  by (simp_all add: noteMutation_def inBounds_def ownerAt_def cellAt_def wd_index_def world_ok_def)

lemma dirty_frame [simp]:
  "wd_width (markGridCacheDirty w) = wd_width w" "wd_height (markGridCacheDirty w) = wd_height w"
  "wd_manager (markGridCacheDirty w) = wd_manager w" "inBounds (markGridCacheDirty w) q = inBounds w q"
  "ownerAt (markGridCacheDirty w) q = ownerAt w q" "cellAt (markGridCacheDirty w) q = cellAt w q"
  "world_ok (markGridCacheDirty w) = world_ok w" "wd_index (markGridCacheDirty w) q = wd_index w q"
  by (simp_all add: markGridCacheDirty_def inBounds_def ownerAt_def cellAt_def wd_index_def world_ok_def)

text \<open>The search only ever chooses a cell inside the world that no organism owns.\<close>

definition displacement_ok :: "'b world_state \<Rightarrow> pos \<Rightarrow> displacement \<Rightarrow> bool" where
  "displacement_ok w p = (\<lambda>(score, best, fill).
     best \<noteq> (0, 0) \<longrightarrow> inBounds w (shift best p) \<and> ownerAt w (shift best p) = INVALID_ORGANISM_ID)"

lemma displaceStep_ok: "displacement_ok w p st \<Longrightarrow> displacement_ok w p (displaceStep w p d st)"
  by (cases st) (auto simp: displaceStep_def displacement_ok_def Let_def)

lemma displace_fold_ok: "displacement_ok w p st \<Longrightarrow> displacement_ok w p (fold (displaceStep w p) ds st)"
  by (induction ds arbitrary: st) (simp_all add: displaceStep_ok)

lemma bestDisplacement_free:
  assumes "bestDisplacement w p \<noteq> (0, 0)"
  shows "inBounds w (shift (bestDisplacement w p) p) \<and>
    ownerAt w (shift (bestDisplacement w p) p) = INVALID_ORGANISM_ID \<and> shift (bestDisplacement w p) p \<noteq> p"
proof -
  have z: "displacement_ok w p (- 999, (0, 0), 2)" by (simp add: displacement_ok_def)
  let ?near = "fold (displaceStep w p) nearDirections (- 999, (0, 0), 2)"
  let ?st = "if snd (snd ?near) > 1 / 2 then fold (displaceStep w p) (concat (map ringDirections [2, 3, 4])) ?near else ?near"
  have ok: "displacement_ok w p ?st"
    by (cases "snd (snd ?near) > 1 / 2") (simp_all only: if_True if_False displace_fold_ok z)
  have e: "bestDisplacement w p = fst (snd ?st)" by (simp only: bestDisplacement_def Let_def)
  obtain a b f where st: "?st = (a, b, f)" by (cases "?st")
  have best: "bestDisplacement w p = b" by (simp only: e st fst_conv snd_conv)
  have "shift (bestDisplacement w p) p \<noteq> p" using assms by (auto simp: shift_def prod_eq_iff)
  with ok assms show ?thesis unfolding st best by (simp add: displacement_ok_def)
qed

lemma ownerAt_inBounds: "world_ok w \<Longrightarrow> ownerAt w p \<noteq> INVALID_ORGANISM_ID \<Longrightarrow> inBounds w p"
  using at_outside [of "wd_manager w" p] inBounds_inside [of w p] by (auto simp: ownerAt_def)

text \<open>A swap of two cells of the world swaps contents and owners.\<close>

lemma manager_frame [simp]:
  "wd_width (w\<lparr>wd_manager := m\<rparr>) = wd_width w" "wd_height (w\<lparr>wd_manager := m\<rparr>) = wd_height w"
  "inBounds (w\<lparr>wd_manager := m\<rparr>) q = inBounds w q" "cellAt (w\<lparr>wd_manager := m\<rparr>) q = cellAt w q"
  "ownerAt (w\<lparr>wd_manager := m\<rparr>) q = om_at m q" "wd_index (w\<lparr>wd_manager := m\<rparr>) q = wd_index w q"
  by (simp_all add: inBounds_def cellAt_def ownerAt_def wd_index_def)

lemma om_dims: "om_width m = wd \<Longrightarrow> om_height m = ht \<Longrightarrow> om_inside m = (\<lambda>p. fst p \<ge> 0 \<and> snd p \<ge> 0 \<and> fst p < wd \<and> snd p < ht)"
  by (auto simp: om_inside_def fun_eq_iff)

lemma swapOrganisms_dims:
  fixes m m' :: "'b organism_manager"
  assumes "swapOrganisms p q m = Some m'" shows "om_width m' = om_width m \<and> om_height m' = om_height m"
proof -
  have u: "om_width (updateOrganism i f n) = om_width n \<and> om_height (updateOrganism i f n) = om_height n" for i f and n :: "'b organism_manager"
    by (simp add: updateOrganism_def)
  have side: "swapSide i a b n = Some n' \<Longrightarrow> om_width n' = om_width n \<and> om_height n' = om_height n"
    for i a b and n n' :: "'b organism_manager"
    by (auto simp: swapSide_def u split: if_splits option.splits)
  obtain m1 where m1: "swapSide (om_at m p) p q (setOrganismAt q (om_at m p) (setOrganismAt p (om_at m q) m)) = Some m1"
    "swapSide (om_at m q) q p m1 = Some m'"
    using assms by (auto simp: swapOrganisms_def Let_def split: if_splits Option.bind_splits)
  from side [OF m1(1)] side [OF m1(2)] show ?thesis by simp
qed

lemma swapCells_effect:
  assumes ok: "world_ok w" and inb: "inBounds w p1" "inBounds w p2"
    and ne: "ownerAt w p1 \<noteq> ownerAt w p2 \<or> ownerAt w p1 = INVALID_ORGANISM_ID"
  obtains w' where "swapCells p1 p2 w = Some w'" "world_ok w'" "wd_width w' = wd_width w" "wd_height w' = wd_height w"
    "\<And>q. inBounds w q \<Longrightarrow> cellAt w' q = cellAt w (if q = p1 then p2 else if q = p2 then p1 else q)"
    "\<And>q. ownerAt w' q = ownerAt w (if q = p1 then p2 else if q = p2 then p1 else q)"
proof -
  define w1 where "w1 = noteMutation p2 (noteMutation p1 (markGridCacheDirty
                   (setCell p2 (cellAt w p1) (setCell p1 (cellAt w p2) w))))"
  have w1: "world_ok w1" "wd_manager w1 = wd_manager w" "wd_width w1 = wd_width w" "wd_height w1 = wd_height w"
    using ok by (simp_all add: w1_def)
  have cells: "cellAt w1 q = cellAt w (if q = p1 then p2 else if q = p2 then p1 else q)" if "inBounds w q" for q
    using that inb ok by (auto simp: w1_def cellAt_setCell)
  have t: "tracked (wd_manager w)" using ok by (simp add: world_ok_def)
  have ins: "om_inside (wd_manager w) p1" "om_inside (wd_manager w) p2" using inb by (simp_all add: inBounds_inside ok)
  show ?thesis
  proof (cases "ownerAt w p1 \<noteq> INVALID_ORGANISM_ID \<or> ownerAt w p2 \<noteq> INVALID_ORGANISM_ID")
    case True
    obtain m where m: "swapOrganisms p1 p2 (wd_manager w) = Some m"
      "\<And>q. om_at m q = (if q = p2 \<and> om_inside (wd_manager w) q then om_at (wd_manager w) p1
                       else if q = p1 \<and> om_inside (wd_manager w) q then om_at (wd_manager w) p2 else om_at (wd_manager w) q)"
      by (rule swap_effect [OF t, of p1 p2]) (use ne in \<open>auto simp: ownerAt_def\<close>)
    show ?thesis
    proof (rule that)
      show "swapCells p1 p2 w = Some (w1\<lparr>wd_manager := m\<rparr>)"
        using True inb m(1) by (simp add: swapCells_def Let_def w1_def [symmetric] w1(2))
      show "world_ok (w1\<lparr>wd_manager := m\<rparr>)"
        using w1(1) tracked_swap [OF t m(1)] swapOrganisms_dims [OF m(1)] ok by (simp add: world_ok_def w1(2))
      show "ownerAt (w1\<lparr>wd_manager := m\<rparr>) q = ownerAt w (if q = p1 then p2 else if q = p2 then p1 else q)" for q
        using ins by (auto simp: m(2) ownerAt_def)
    qed (simp_all add: w1 cells)
  next
    case False
    show ?thesis
    proof (rule that)
      show "swapCells p1 p2 w = Some w1" using False inb by (simp add: swapCells_def Let_def w1_def)
      show "ownerAt w1 q = ownerAt w (if q = p1 then p2 else if q = p2 then p1 else q)" for q
        using False by (simp add: ownerAt_def w1(2))
    qed (simp_all add: w1 cells)
  qed
qed

lemma clear_cells_fold:
  assumes "world_ok w"
  defines "step \<equiv> \<lambda>p w. if inBounds w p then setCell p new_cell w else w"
  shows "world_ok (fold step ps w) \<and> wd_manager (fold step ps w) = wd_manager w \<and>
    wd_width (fold step ps w) = wd_width w \<and> wd_height (fold step ps w) = wd_height w \<and>
    (\<forall>q. inBounds w q \<longrightarrow> cellAt (fold step ps w) q = (if q \<in> set ps then new_cell else cellAt w q))"
  using assms(1)
proof (induction ps arbitrary: w)
  case (Cons p ps)
  have "world_ok (step p w)" "wd_manager (step p w) = wd_manager w" "wd_width (step p w) = wd_width w"
    "wd_height (step p w) = wd_height w" "inBounds (step p w) q = inBounds w q" for q
    using Cons.prems by (simp_all add: step_def)
  moreover have "cellAt (step p w) q = (if q = p then new_cell else cellAt w q)" if "inBounds w q" for q
    using Cons.prems that by (auto simp: step_def cellAt_setCell)
  ultimately show ?case using Cons.IH [of "step p w"] by auto
qed simp

lemma removeOrganismFromWorld_effect:
  assumes ok: "world_ok w" and og: "getOrganism (wd_manager w) oid = Some og"
  obtains w' where "removeOrganismFromWorld oid w = Some w'" "world_ok w'" "wd_width w' = wd_width w"
    "wd_height w' = wd_height w"
    "\<And>q. ownerAt w' q = (if q \<in> set (og_cells og) then INVALID_ORGANISM_ID else ownerAt w q)"
    "\<And>q. inBounds w q \<Longrightarrow> cellAt w' q = (if q \<in> set (og_cells og) then new_cell else cellAt w q)"
proof -
  define w1 where "w1 = fold (\<lambda>p w. if inBounds w p then setCell p new_cell w else w) (og_cells og) w"
  have w1: "world_ok w1" "wd_manager w1 = wd_manager w" "wd_width w1 = wd_width w" "wd_height w1 = wd_height w"
    "\<And>q. inBounds w q \<Longrightarrow> cellAt w1 q = (if q \<in> set (og_cells og) then new_cell else cellAt w q)"
    using clear_cells_fold [OF ok, of "og_cells og"] unfolding w1_def by blast+
  have t: "tracked (wd_manager w)" using ok by (simp add: world_ok_def)
  obtain m where m: "removeOrganism oid (wd_manager w) = Some m"
    using og by (auto simp: removeOrganism_def Let_def)
  have e: "om_at m = (\<lambda>q. if q \<in> set (og_cells og) then INVALID_ORGANISM_ID else om_at (wd_manager w) q)"
    using removeOrganism_effect [OF tracked_shape [OF t] m] og by (auto simp: getOrganism_def)
  have clr: "om_width (fold clearOrganismAt ps n) = om_width n \<and> om_height (fold clearOrganismAt ps n) = om_height n"
    for ps and n :: "'a organism_manager"
    by (induction ps arbitrary: n) (simp_all add: clearOrganismAt_def)
  have d: "om_width m = om_width (wd_manager w)" "om_height m = om_height (wd_manager w)"
    using m og clr [of "og_cells og" "wd_manager w"] by (auto simp: removeOrganism_def Let_def)
  show ?thesis
  proof (rule that)
    show "removeOrganismFromWorld oid w = Some (w1\<lparr>wd_manager := m\<rparr>)"
      by (simp add: removeOrganismFromWorld_def og Let_def w1_def [symmetric] w1(2) m)
    show "world_ok (w1\<lparr>wd_manager := m\<rparr>)"
      using w1(1) d tracked_remove [OF t m] by (simp add: world_ok_def w1(2))
  qed (simp_all add: w1 e ownerAt_def)
qed

lemma replaceMaterial_full: "material_type (replaceMaterial m 1 c) = m" "fill_ratio (replaceMaterial m 1 c) = 1"
  by (simp_all add: replaceMaterial_def setFillRatio_def clamp_def MIN_FILL_def Let_def)

lemma newCell_fields: "material_type (newCell m r) = m" "fill_ratio (newCell m r) = r"
  by (simp_all add: newCell_def)

text \<open>
  What became of the old content: the search found no place, and an organism there is gone with all
  its cells; or the content and its owner moved to a cell that was free.
\<close>

definition replaced :: "'b world_state \<Rightarrow> pos \<Rightarrow> material \<Rightarrow> 'b world_state \<Rightarrow> bool" where
  "replaced w p m w' =
     (material_type (cellAt w' p) = m \<and> fill_ratio (cellAt w' p) = 1 \<and> ownerAt w' p = INVALID_ORGANISM_ID \<and>
      (if cell_isEmpty (cellAt w p) \<or> material_type (cellAt w p) = m then \<forall>q. ownerAt w' q = ownerAt w q
       else if bestDisplacement w p = (0, 0)
       then \<forall>q. ownerAt w' q = ownerAt w q \<or>
             ownerAt w' q = INVALID_ORGANISM_ID \<and> q \<in> cellsOf (wd_manager w) (ownerAt w p)
       else let e = shift (bestDisplacement w p) p
            in inBounds w e \<and> ownerAt w e = INVALID_ORGANISM_ID \<and> cellAt w' e = cellAt w p \<and>
               ownerAt w' e = ownerAt w p \<and>
               (\<forall>q. q \<noteq> p \<longrightarrow> q \<noteq> e \<longrightarrow> ownerAt w' q = ownerAt w q \<and> (inBounds w q \<longrightarrow> cellAt w' q = cellAt w q))))"

lemma displaceMaterial_effect:
  assumes ok: "world_ok w" and p: "inBounds w p"
    and c: "\<not> cell_isEmpty (cellAt w p)" "material_type (cellAt w p) \<noteq> m"
  shows "\<exists>w'. displaceMaterial p m w = Some w' \<and> world_ok w' \<and> replaced w p m w'"
proof (cases "bestDisplacement w p = (0, 0)")
  case none: True
  have t: "tracked (wd_manager w)" using ok by (simp add: world_ok_def)
  show ?thesis
  proof (cases "ownerAt w p = INVALID_ORGANISM_ID")
    case True
    with none p ok c show ?thesis
      by (simp add: displaceMaterial_def replaced_def Let_def cellAt_setCell replaceMaterial_full)
  next
    case False
    then obtain og where og: "getOrganism (wd_manager w) (ownerAt w p) = Some og" "p \<in> set (og_cells og)"
      using t unfolding tracked_def ownerAt_def getOrganism_def by blast
    obtain w1 where w1: "removeOrganismFromWorld (ownerAt w p) w = Some w1" "world_ok w1"
      "wd_width w1 = wd_width w" "wd_height w1 = wd_height w"
      "\<And>q. ownerAt w1 q = (if q \<in> set (og_cells og) then INVALID_ORGANISM_ID else ownerAt w q)"
      by (rule removeOrganismFromWorld_effect [OF ok og(1)]) blast
    have "inBounds w1 p" using p w1(3,4) by (simp add: inBounds_def)
    moreover have "cellsOf (wd_manager w) (ownerAt w p) = set (og_cells og)"
      using og(1) by (simp add: cellsOf_def getOrganism_def)
    ultimately show ?thesis
      using none False w1 og(2) c
      by (simp add: displaceMaterial_def replaced_def Let_def cellAt_setCell replaceMaterial_full)
  qed
next
  case some: False
  let ?e = "shift (bestDisplacement w p) p"
  have e: "inBounds w ?e" "ownerAt w ?e = INVALID_ORGANISM_ID" "?e \<noteq> p"
    using bestDisplacement_free [OF some] by auto
  obtain w1 where w1: "swapCells ?e p w = Some w1" "world_ok w1" "wd_width w1 = wd_width w" "wd_height w1 = wd_height w"
    "\<And>q. inBounds w q \<Longrightarrow> cellAt w1 q = cellAt w (if q = ?e then p else if q = p then ?e else q)"
    "\<And>q. ownerAt w1 q = ownerAt w (if q = ?e then p else if q = p then ?e else q)"
    by (rule swapCells_effect [OF ok e(1) p]) (use e(2) in blast)+
  have inb: "inBounds w1 q = inBounds w q" for q using w1(3,4) by (simp add: inBounds_def)
  show ?thesis
    using some e w1 p c
    by (simp add: displaceMaterial_def replaced_def Let_def cellAt_setCell inb newCell_fields)
qed


definition demo_world :: "unit world_state" where
  "demo_world = \<lparr>wd_width = 2, wd_height = 1, wd_cells = [newCell Mat_Wood 1, new_cell], wd_timestep = 0,
     wd_manager = demo_manager, wd_tracker = newTracker, wd_cacheDirty = False, wd_waterMode = LegacyCell,
     wd_water = \<lparr>ws_mode = LegacyCell, ws_width = 0, ws_height = 0, ws_sim = None\<rparr>, wd_gravity = 10,
     wd_airResistance = 0, wd_light = \<lparr>lb_width = 0, lb_height = 0, lb_data = []\<rparr>\<rparr>"

lemma demo_world_ok: "world_ok demo_world"
proof -
  have "om_width demo_manager = 2" "om_height demo_manager = 1" by code_simp+
  then show ?thesis using reach_tracked [OF demo_reach] by (simp add: world_ok_def demo_world_def)
qed


text \<open>\<open>CellSet\<close> of the server's API, in \<open>server/states/SimRunning.cpp\<close>, on a session with a grid world.\<close>

definition onCellSet :: "int \<Rightarrow> int \<Rightarrow> material \<Rightarrow> 'b world_state \<Rightarrow> (unit result \<times> 'b world_state) option" where
  "onCellSet x y m w =
     (if \<not> inBounds w (x, y) then Some (error ''Invalid coordinates'', w)
      else map_option (\<lambda>w1. (okay (), w1)) (replaceMaterialAtCell (x, y) m w))"

lemma cell_set_aborts_on_organism_of_that_material:
  assumes "world_ok w" "ownerAt w (x, y) \<noteq> INVALID_ORGANISM_ID" "material_type (cellAt w (x, y)) = m" "m \<noteq> Mat_Air"
    "m \<noteq> Mat_Water"
  shows "onCellSet x y m w = None"
  using assms ownerAt_inBounds [OF assms(1,2)] by (simp add: onCellSet_def replaceMaterialAtCell_def)

section \<open>New organisms\<close>

record spawn_params =
  sp_startingEnergy :: real
  sp_passive :: bool
  sp_seedParent :: nat

definition default_spawn :: spawn_params where
  "default_spawn = \<lparr>sp_startingEnergy = 50, sp_passive = False, sp_seedParent = INVALID_ORGANISM_ID\<rparr>"

definition newBody :: "organism_type \<Rightarrow> 'b organism" where
  "newBody ty = \<lparr>og_type = ty, og_active = True, og_cells = [], og_anchor = (0, 0), og_position = zero_vec,
     og_velocity = zero_vec, og_mass = 0, og_com = zero_vec, og_age = 0, og_shape = [], og_occupied = [],
     og_rigid = None, og_signatures = (\<lambda>_. 0), og_outcomes = (\<lambda>_. 0), og_tree = None\<rparr>"

definition newRigidBody :: "material \<Rightarrow> rigid_body" where
  "newRigidBody m = \<lparr>rb_material = m, rb_force = zero_vec, rb_shape = [], rb_occupied = [], rb_lastOwner = 0\<rparr>"

definition rb_addCell :: "local_cell \<Rightarrow> rigid_body \<Rightarrow> rigid_body" where
  "rb_addCell c rb = rb\<lparr>rb_shape := rb_shape rb @ [c]\<rparr>"

definition newTreeState :: "'b option \<Rightarrow> 'b tree_state" where
  "newTreeState brain =
     \<lparr>tree_stage = Stage_Seed, tree_energy = 0, tree_water = 0, tree_accepted = 0, tree_rejected = 0,
      tree_idleCancels = 0, tree_hasLastResult = False, tree_lastAccepted = False, tree_reserved = 0,
      tree_hasReserved = False, tree_reservedType = Cmd_Wait, tree_command = None, tree_commandSeed = None,
      tree_seedParent = INVALID_ORGANISM_ID, tree_timeRemaining = 0, tree_totalTime = 0, tree_brain = brain,
      tree_totals = \<lparr>rt_water = 0, rt_energy = 0, rt_seeds = 0, rt_landed = []\<rparr>\<rparr>"

definition newTree :: "'b option \<Rightarrow> 'b organism" where
  "newTree brain =
     (let seed = \<lparr>lc_pos = (0, 0), lc_material = Mat_Seed, lc_fill = 1\<rparr>
      in recomputeCenterOfMass (recomputeMass
           ((newBody Org_Tree)\<lparr>og_rigid := Some (rb_addCell seed (newRigidBody Mat_Seed)), og_shape := [seed],
              og_tree := Some (newTreeState brain)\<rparr>)))"

definition updateTree :: "('b tree_state \<Rightarrow> 'b tree_state) \<Rightarrow> 'b organism \<Rightarrow> 'b organism" where
  "updateTree f og = og\<lparr>og_tree := map_option f (og_tree og)\<rparr>"

text \<open>The brain a tree gets when none is given, a \<open>RuleBasedBrain\<close>, is a parameter.\<close>

definition createTree ::
  "'b \<Rightarrow> pos \<Rightarrow> 'b option \<Rightarrow> spawn_params \<Rightarrow> 'b world_state \<Rightarrow> nat \<times> 'b world_state" where
  "createTree ruleBased p brain params w =
     (let oid = om_next (wd_manager w);
          brain1 = (case brain of None \<Rightarrow> if \<not> sp_passive params then Some ruleBased else None | Some _ \<Rightarrow> brain);
          tree = updateTree (\<lambda>t. t\<lparr>tree_energy := sp_startingEnergy params, tree_seedParent := sp_seedParent params\<rparr>)
                   (setAnchorCell p (newTree brain1));
          w1 = addMaterialAtCell p Mat_Seed 1 w;
          tree1 = tree\<lparr>og_cells := insertCell p (og_cells tree)\<rparr>
      in (oid, w1\<lparr>wd_manager := registerOrganism tree1 (setOrganismAt p oid (wd_manager w1))\<rparr>))"

text \<open>Outside the grid the duck's cell does not exist: undefined in a release build, \<open>None\<close> here.\<close>

definition createDuck :: "pos \<Rightarrow> 'b world_state \<Rightarrow> (nat \<times> 'b world_state) option" where
  "createDuck p w =
     (if ownerAt w p \<noteq> INVALID_ORGANISM_ID \<or> \<not> inBounds w p then None
      else
        let oid = om_next (wd_manager w);
            duck = setAnchorCell p (newBody Org_Duck);
            w1 = setCell p (replaceMaterial Mat_Wood 1 (cellAt w p)) w;
            duck1 = duck\<lparr>og_cells := insertCell p (og_cells duck)\<rparr>
        in Some (oid, w1\<lparr>wd_manager := registerOrganism duck1 (setOrganismAt p oid (wd_manager w1))\<rparr>))"

lemma plant_commutes:
  "registerOrganism og (setOrganismAt p (om_next m) m) = setOrganismAt p (om_next m) (registerOrganism og m)"
  by (simp add: registerOrganism_def setOrganismAt_def om_inside_def om_index_def)

lemma tracked_plant:
  assumes "tracked m" "p \<in> set (og_cells og)"
  shows "tracked (registerOrganism og (setOrganismAt p (om_next m) m))"
  unfolding plant_commutes
  using tracked_set_owned [OF tracked_register [OF assms(1), of og], of p "om_next m"] assms(2)
    register_effect(6) [OF assms(1), of og "om_next m"] by simp

lemma plant_owner:
  assumes "tracked m"
  shows "om_at (registerOrganism og (setOrganismAt p (om_next m) m)) q =
    (if q = p \<and> om_inside m p then om_next m else om_at m q)"
  unfolding plant_commutes using register_effect [OF assms, of og] by (simp add: om_at_set)

lemma exact_plant:
  assumes e: "exact m" and p: "om_at m p = INVALID_ORGANISM_ID" and og: "og_cells og = [p]"
  shows "exact (registerOrganism og (setOrganismAt p (om_next m) m))"
proof (rule exactI)
  note t = exact_tracked [OF e]
  let ?m = "registerOrganism og (setOrganismAt p (om_next m) m)"
  show "tracked ?m" using tracked_plant [OF t, of p og] og by simp
  fix i q assume q: "q \<in> cellsOf ?m i" "om_inside ?m q"
  have c: "cellsOf ?m i = (if i = om_next m then {p} else cellsOf m i)"
    unfolding plant_commutes using register_effect(6) [OF t, of og i] og by simp
  have ins: "om_inside m q" using q(2) by (simp add: registerOrganism_def om_inside_def)
  show "om_at ?m q = i"
  proof (cases "i = om_next m")
    case True
    with q(1) c ins show ?thesis by (simp add: plant_owner [OF t])
  next
    case False
    then have own: "om_at m q = i" "i \<noteq> INVALID_ORGANISM_ID"
      using q(1) c exact_at [OF e _ ins, of i] invalid_no_cells [OF t] by auto
    then have "q \<noteq> p" using p by auto
    with own show ?thesis by (simp add: plant_owner [OF t])
  qed
qed

lemma plant_dims [simp]:
  "om_width (registerOrganism og m) = om_width m" "om_height (registerOrganism og m) = om_height m"
  by (simp_all add: registerOrganism_def)

lemma addSeed_frame:
  assumes "world_ok w" "m \<noteq> Mat_Water"
  shows "world_ok (addMaterialAtCell p m r w)" "wd_manager (addMaterialAtCell p m r w) = wd_manager w"
    "wd_width (addMaterialAtCell p m r w) = wd_width w" "wd_height (addMaterialAtCell p m r w) = wd_height w"
  using assms by (simp_all add: addMaterialAtCell_def Let_def split: prod.split)

lemma world_ok_manager:
  assumes "world_ok w" "tracked m" "om_width m = wd_width w" "om_height m = wd_height w"
  shows "world_ok (w\<lparr>wd_manager := m\<rparr>)"
  using assms by (simp add: world_ok_def)

lemma newBody_cells [simp]: "og_cells (newBody ty) = []"
  by (simp add: newBody_def)

lemma newTree_cells [simp]: "og_cells (newTree b) = []" "og_cells (updateTree f og) = og_cells og"
  by (simp_all add: newTree_def recomputeCenterOfMass_def recomputeMass_def updateTree_def Let_def)

lemma insertCell_Nil [simp]: "insertCell p [] = [p]"
  by (simp add: insertCell_def)

text \<open>
  A created organism owns its cell and the registry stays consistent. A duck is refused, by aborting,
  on a cell that has an owner; exact ownership is kept. A tree is not: it takes the cell over, and
  ownership stays exact only if the cell was free.
\<close>

theorem creation_keeps_registry:
  assumes "world_ok w" "inBounds w p"
  defines "next_id \<equiv> om_next (wd_manager w)"
  shows "(case createDuck p w of
      None \<Rightarrow> ownerAt w p \<noteq> INVALID_ORGANISM_ID
    | Some (oid, w1) \<Rightarrow> ownerAt w p = INVALID_ORGANISM_ID \<and> oid = next_id \<and> world_ok w1 \<and>
        ownerAt w1 = (ownerAt w)(p := oid) \<and> (exact (wd_manager w) \<longrightarrow> exact (wd_manager w1))) \<and>
    (case createTree ruleBased p brain params w of
      (oid, w1) \<Rightarrow> oid = next_id \<and> world_ok w1 \<and> ownerAt w1 = (ownerAt w)(p := oid) \<and>
        (exact (wd_manager w) \<and> ownerAt w p = INVALID_ORGANISM_ID \<longrightarrow> exact (wd_manager w1)))"
proof -
  have t: "tracked (wd_manager w)" using assms(1) by (simp add: world_ok_def)
  have dims: "om_width (wd_manager w) = wd_width w" "om_height (wd_manager w) = wd_height w"
    using assms(1) by (simp_all add: world_ok_def)
  have ins: "om_inside (wd_manager w) p" using assms(1,2) by (simp add: inBounds_inside)
  have own: "(\<lambda>q. om_at (registerOrganism og (setOrganismAt p (om_next (wd_manager w)) (wd_manager w))) q) =
      (ownerAt w)(p := om_next (wd_manager w))" for og
    using ins by (auto simp: plant_owner [OF t] ownerAt_def fun_eq_iff)
  have trk: "og_cells og = [p] \<Longrightarrow>
      tracked (registerOrganism og (setOrganismAt p (om_next (wd_manager w)) (wd_manager w)))" for og
    by (rule tracked_plant [OF t]) simp
  show ?thesis
  proof (intro conjI)
    show "case createDuck p w of
      None \<Rightarrow> ownerAt w p \<noteq> INVALID_ORGANISM_ID
    | Some (oid, w1) \<Rightarrow> ownerAt w p = INVALID_ORGANISM_ID \<and> oid = next_id \<and> world_ok w1 \<and>
        ownerAt w1 = (ownerAt w)(p := oid) \<and> (exact (wd_manager w) \<longrightarrow> exact (wd_manager w1))"
      using assms(1,2) own trk exact_plant [of "wd_manager w" p] dims
      by (auto simp: createDuck_def Let_def next_id_def ownerAt_def fun_eq_iff intro!: world_ok_manager)
    show "case createTree ruleBased p brain params w of
      (oid, w1) \<Rightarrow> oid = next_id \<and> world_ok w1 \<and> ownerAt w1 = (ownerAt w)(p := oid) \<and>
        (exact (wd_manager w) \<and> ownerAt w p = INVALID_ORGANISM_ID \<longrightarrow> exact (wd_manager w1))"
      using assms(1,2) own trk exact_plant [of "wd_manager w" p] dims
        addSeed_frame [OF assms(1), of Mat_Seed p 1]
      by (auto simp: createTree_def Let_def next_id_def ownerAt_def fun_eq_iff intro!: world_ok_manager)
  qed
qed

theorem creation_keeps_registry_witness:
  "\<exists>w1. createDuck (1, 0) demo_world = Some (2, w1) \<and> ownerAt w1 (1, 0) = 2 \<and> ownerAt w1 (0, 0) = 1"
proof -
  have f: "inBounds demo_world (1, 0)" "ownerAt demo_world (1, 0) = 0" "ownerAt demo_world (0, 0) = 1"
    "om_next (wd_manager demo_world) = 2"
    by code_simp+
  note created = creation_keeps_registry [OF demo_world_ok f(1), THEN conjunct1]
  show ?thesis
  proof (cases "createDuck (1, 0) demo_world")
    case None
    with created f(2) show ?thesis by (simp add: INVALID_ORGANISM_ID_def)
  next
    case (Some r)
    with created f show ?thesis by (cases r) simp
  qed
qed

end

