(* ===== verification/RigidBody.thy ===== *)
theory RigidBody
  imports WorldEdits
begin

text \<open>
  Rigid bodies: \<open>core/organisms/components\<close>. An organism with a rigid body has a shape of cells in
  local coordinates; each frame the shape is moved by forces, stopped by what is in its way and
  projected onto the grid (\<open>LocalShapeProjection\<close>). The collision part looks at the cells the body
  would enter (\<open>detect\<close>), the ground below it (\<open>computeSupportForce\<close>, \<open>computeGroundFriction\<close>) and
  takes the speed into a surface away (\<open>respond\<close>). Doubles are reals. \<open>None\<close> is the abort of
  \<open>addCellToOrganism\<close> for an organism that is not registered.
\<close>

section \<open>Physics component\<close>

definition addForce :: "vec2 \<Rightarrow> rigid_body \<Rightarrow> rigid_body" where
  "addForce f rb = rb\<lparr>rb_force := vec_add (rb_force rb) f\<rparr>"

definition applyAirResistance :: "real \<Rightarrow> vec2 \<Rightarrow> rigid_body \<Rightarrow> rigid_body" where
  "applyAirResistance strength v rb =
     (let vMag = sqrt (vx v * vx v + vy v * vy v)
      in if vMag < 1 / 100 then rb
         else
           let dragMagnitude = strength * mp_air_resistance (getProperties (rb_material rb)) * vMag * vMag
           in rb\<lparr>rb_force := \<lparr>vx = vx (rb_force rb) + - vx v / vMag * dragMagnitude,
                              vy = vy (rb_force rb) + - vy v / vMag * dragMagnitude\<rparr>\<rparr>)"

definition rb_clearPendingForce :: "rigid_body \<Rightarrow> rigid_body" where
  "rb_clearPendingForce rb = rb\<lparr>rb_force := zero_vec\<rparr>"

definition gatherForces :: "'b world_state \<Rightarrow> pos list \<Rightarrow> rigid_body \<Rightarrow> rigid_body" where
  "gatherForces w ps rb = fold (\<lambda>p rb. addForce (pending_force (cellAt w p)) rb) ps rb"

definition integrate :: "vec2 \<Rightarrow> real \<Rightarrow> real \<Rightarrow> rigid_body \<Rightarrow> vec2" where
  "integrate v mass dt rb =
     (if mass < 1 / 10000 then v
      else \<lparr>vx = vx v + vx (rb_force rb) / mass * dt, vy = vy v + vy (rb_force rb) / mass * dt\<rparr>)"

section \<open>Collision component\<close>

record collision_result =
  cr_blocked :: bool
  cr_cells :: "pos list"
  cr_normal :: vec2

text \<open>Division of ints truncates, and so does the cast of a double to an int.\<close>

definition truncDiv :: "int \<Rightarrow> int \<Rightarrow> int" where
  "truncDiv a b = (if a < 0 then - ((- a) div b) else a div b)"

definition truncReal :: "real \<Rightarrow> int" where
  "truncReal x = (if 0 \<le> x then \<lfloor>x\<rfloor> else \<lceil>x\<rceil>)"

definition referenceCell :: "pos list \<Rightarrow> pos" where
  "referenceCell ps =
     (if ps = [] then (0, 0)
      else (truncDiv (fold (\<lambda>p s. s + fst p) ps 0) (int (length ps)),
            truncDiv (fold (\<lambda>p s. s + snd p) ps 0) (int (length ps))))"

definition addBoundaryCrossedNormal :: "pos \<Rightarrow> pos \<Rightarrow> vec2 \<Rightarrow> vec2" where
  "addBoundaryCrossedNormal ref p n =
     (let dx = fst p - fst ref; dy = snd p - snd ref
      in if \<bar>dy\<bar> \<ge> \<bar>dx\<bar> \<and> dy \<noteq> 0 then n\<lparr>vy := vy n - (if dy > 0 then 1 else - 1)\<rparr>
         else if dx \<noteq> 0 then n\<lparr>vx := vx n - (if dx > 0 then 1 else - 1)\<rparr>
         else n\<lparr>vy := vy n - 1\<rparr>)"

definition boundaryNormal :: "'b world_state \<Rightarrow> pos \<Rightarrow> vec2 \<Rightarrow> vec2" where
  "boundaryNormal w p n =
     (let n1 = (if fst p < 0 then n\<lparr>vx := vx n + 1\<rparr> else n);
          n2 = (if fst p \<ge> wd_width w then n1\<lparr>vx := vx n1 - 1\<rparr> else n1);
          n3 = (if snd p < 0 then n2\<lparr>vy := vy n2 + 1\<rparr> else n2)
      in if snd p \<ge> wd_height w then n3\<lparr>vy := vy n3 - 1\<rparr> else n3)"

fun isSolid :: "material \<Rightarrow> bool" where
  "isSolid Mat_Dirt = True"
| "isSolid Mat_Sand = True"
| "isSolid Mat_Wood = True"
| "isSolid Mat_Metal = True"
| "isSolid Mat_Root = True"
| "isSolid _ = False"

text \<open>What stops the body at one predicted cell, and the body of the loop of \<open>detect\<close>.\<close>

definition obstacle :: "'b world_state \<Rightarrow> nat \<Rightarrow> pos \<Rightarrow> bool" where
  "obstacle w oid p =
     (let c = cellAt w p; owner = ownerAt w p
      in if material_type c = Mat_Wall then True
         else if owner \<noteq> INVALID_ORGANISM_ID \<and> owner \<noteq> oid then True
         else isSolid (material_type c) \<and> fill_ratio c > 8 / 10 \<and> owner \<noteq> oid)"

definition detectStep ::
  "'b world_state \<Rightarrow> nat \<Rightarrow> pos \<Rightarrow> pos \<Rightarrow> bool \<times> pos list \<times> vec2 \<Rightarrow> bool \<times> pos list \<times> vec2" where
  "detectStep w oid ref p = (\<lambda>(blocked, ps, n).
     if \<not> inBounds w p then (True, ps @ [p], boundaryNormal w p n)
     else if obstacle w oid p then (True, ps @ [p], addBoundaryCrossedNormal ref p n)
     else (blocked, ps, n))"

definition detect :: "'b world_state \<Rightarrow> nat \<Rightarrow> pos list \<Rightarrow> pos list \<Rightarrow> collision_result" where
  "detect w oid currentCells predictedCells =
     (case fold (detectStep w oid (referenceCell currentCells)) predictedCells (False, [], zero_vec) of
        (blocked, ps, n) \<Rightarrow>
          let len = sqrt (vx n * vx n + vy n * vy n)
          in \<lparr>cr_blocked = blocked, cr_cells = ps,
              cr_normal = (if blocked \<and> len > 1 / 10000 then \<lparr>vx = vx n / len, vy = vy n / len\<rparr> else zero_vec)\<rparr>)"

definition respond :: "collision_result \<Rightarrow> real \<Rightarrow> vec2 \<Rightarrow> vec2" where
  "respond c restitution v =
     (if \<not> cr_blocked c then v
      else
        let n = cr_normal c
        in if vx n = 0 \<and> vy n = 0 then v
           else
             let vIntoSurface = vx v * vx n + vy v * vy n
             in if vIntoSurface \<ge> 0 then v
                else let impulse = - vIntoSurface * (1 + restitution)
                     in \<lparr>vx = vx v + impulse * vx n, vy = vy v + impulse * vy n\<rparr>)"

text \<open>The fraction of support a material gives; \<open>Inl\<close> is the early return at the world's edge.\<close>

definition supportOf :: "cell \<Rightarrow> real" where
  "supportOf c =
     (if material_type c \<in> {Mat_Wall, Mat_Metal, Mat_Wood, Mat_Dirt, Mat_Sand, Mat_Seed, Mat_Root} then 1
      else if material_type c = Mat_Water then 1 / 2 * fill_ratio c
      else if material_type c = Mat_Leaf then 3 / 10 * fill_ratio c
      else 0)"

definition groundBelow :: "vec2 \<Rightarrow> pos \<Rightarrow> pos" where
  "groundBelow gravityDir p = (fst p + truncReal (vx gravityDir), snd p + truncReal (vy gravityDir))"

fun supportLoop :: "'b world_state \<Rightarrow> nat \<Rightarrow> vec2 \<Rightarrow> pos list \<Rightarrow> int \<Rightarrow> real \<Rightarrow> unit + (int \<times> real)" where
  "supportLoop w oid g [] contacts support = Inr (contacts, support)"
| "supportLoop w oid g (p # ps) contacts support =
     (let q = groundBelow g p
      in if \<not> inBounds w q then Inl ()
         else if cell_isEmpty (cellAt w q) then supportLoop w oid g ps contacts support
         else if ownerAt w q = oid then supportLoop w oid g ps contacts support
         else supportLoop w oid g ps (contacts + 1) (support + supportOf (cellAt w q)))"

definition computeSupportForce :: "'b world_state \<Rightarrow> nat \<Rightarrow> pos list \<Rightarrow> real \<Rightarrow> vec2 \<Rightarrow> vec2" where
  "computeSupportForce w oid currentCells weight g =
     (if currentCells = [] \<or> weight < 1 / 10000 then zero_vec
      else case supportLoop w oid g currentCells 0 0 of
          Inl _ \<Rightarrow> \<lparr>vx = - vx g * weight, vy = - vy g * weight\<rparr>
        | Inr (contacts, support) \<Rightarrow>
            if contacts = 0 then zero_vec
            else
              let normalized = min (support / real_of_int contacts) 1;
                  magnitude = weight * (if normalized > 1 / 2 then 1 else normalized)
              in \<lparr>vx = - vx g * magnitude, vy = - vy g * magnitude\<rparr>)"

definition groundMaterials :: "'b world_state \<Rightarrow> nat \<Rightarrow> pos list \<Rightarrow> material list" where
  "groundMaterials w oid ps =
     concat (map (\<lambda>p. let q = groundBelow \<lparr>vx = 0, vy = 1\<rparr> p
                      in if \<not> inBounds w q then [Mat_Wall]
                         else if cell_isEmpty (cellAt w q) then []
                         else if ownerAt w q = oid then [] else [material_type (cellAt w q)]) ps)"

definition average :: "(material_properties \<Rightarrow> real) \<Rightarrow> material list \<Rightarrow> real" where
  "average f ms = fold (\<lambda>m s. s + f (getProperties m)) ms 0 / real (length ms)"

definition computeGroundFriction :: "'b world_state \<Rightarrow> nat \<Rightarrow> pos list \<Rightarrow> vec2 \<Rightarrow> real \<Rightarrow> vec2" where
  "computeGroundFriction w oid currentCells v normalForce =
     (if normalForce < 1 / 100 \<or> currentCells = [] then zero_vec
      else
        let tangentialSpeed = \<bar>vx v\<bar>
        in if tangentialSpeed < 1 / 1000000 then zero_vec
           else
             let ms = groundMaterials w oid currentCells
             in if ms = [] then zero_vec
                else
                  let static = average mp_static_friction_coefficient ms;
                      kinetic = average mp_kinetic_friction_coefficient ms;
                      stick = average mp_stick_velocity ms;
                      transition = average mp_friction_transition_width ms;
                      coefficient =
                        (if tangentialSpeed \<ge> stick
                         then let t = clamp ((tangentialSpeed - stick) / transition) 0 1;
                                  smoothT = t * t * (3 - 2 * t)
                              in static * (1 - smoothT) + kinetic * smoothT
                         else static);
                      magnitude = coefficient * normalForce
                  in \<lparr>vx = (if vx v > 0 then - 1 else 1) * magnitude, vy = 0\<rparr>)"

section \<open>Projection component\<close>

definition clearedCell :: "cell \<Rightarrow> cell" where
  "clearedCell c = c\<lparr>material_type := Mat_Air, fill_ratio := 0, velocity := zero_vec, com := zero_vec\<rparr>"

definition pj_clearCell :: "nat \<Rightarrow> pos \<Rightarrow> 'b world_state \<Rightarrow> 'b world_state" where
  "pj_clearCell owner p w =
     (if \<not> inBounds w p then w
      else if ownerAt w p = owner
      then setCell p (clearedCell (cellAt w p))
             (w\<lparr>wd_manager := removeCellsFromOrganism owner [p] (wd_manager w)\<rparr>)
      else w)"

definition pj_clear :: "rigid_body \<Rightarrow> 'b world_state \<Rightarrow> rigid_body \<times> 'b world_state" where
  "pj_clear rb w = (rb\<lparr>rb_occupied := []\<rparr>, fold (pj_clearCell (rb_lastOwner rb)) (rb_occupied rb) w)"

definition worldPos :: "vec2 \<Rightarrow> local_cell \<Rightarrow> vec2" where
  "worldPos p c = \<lparr>vx = vx p + real_of_int (fst (lc_pos c)), vy = vy p + real_of_int (snd (lc_pos c))\<rparr>"

definition projectedCell :: "local_cell \<Rightarrow> vec2 \<Rightarrow> vec2 \<Rightarrow> cell \<Rightarrow> cell" where
  "projectedCell lc p v c =
     c\<lparr>material_type := lc_material lc, fill_ratio := lc_fill lc, velocity := v,
       com := \<lparr>vx = frac (vx (worldPos p lc)) * 2 - 1, vy = frac (vy (worldPos p lc)) * 2 - 1\<rparr>,
       pending_force := zero_vec\<rparr>"

fun projectCells ::
  "nat \<Rightarrow> vec2 \<Rightarrow> vec2 \<Rightarrow> local_cell list \<Rightarrow> pos list \<Rightarrow> 'b world_state \<Rightarrow> (pos list \<times> 'b world_state) option" where
  "projectCells oid p v [] occupied w = Some (occupied, w)"
| "projectCells oid p v (lc # lcs) occupied w =
     (let q = cellOf (worldPos p lc)
      in if \<not> inBounds w q then projectCells oid p v lcs occupied w
         else do {
           m \<leftarrow> addCellToOrganism oid q (wd_manager w);
           projectCells oid p v lcs (occupied @ [q])
             (setCell q (projectedCell lc p v (cellAt w q)) (w\<lparr>wd_manager := m\<rparr>))
         })"

definition project :: "nat \<Rightarrow> vec2 \<Rightarrow> vec2 \<Rightarrow> rigid_body \<Rightarrow> 'b world_state \<Rightarrow> (rigid_body \<times> 'b world_state) option" where
  "project oid p v rb w = do {
     let (rb1, w1) = pj_clear rb w;
     (occupied, w2) \<leftarrow> projectCells oid p v (rb_shape rb1) [] w1;
     Some (rb1\<lparr>rb_lastOwner := oid, rb_occupied := occupied\<rparr>, w2)
   }"

definition pj_removeCell :: "pos \<Rightarrow> rigid_body \<Rightarrow> rigid_body" where
  "pj_removeCell p rb = rb\<lparr>rb_shape := filter (\<lambda>c. lc_pos c \<noteq> p) (rb_shape rb)\<rparr>"

section \<open>The composite\<close>

record body_motion =
  bm_position :: vec2
  bm_velocity :: vec2
  bm_rigid :: rigid_body
  bm_onGround :: bool

definition shapeCells :: "vec2 \<Rightarrow> local_cell list \<Rightarrow> pos list" where
  "shapeCells p shape = map (\<lambda>c. cellOf (worldPos p c)) shape"

text \<open>\<open>std::clamp\<close> keeps the position off the borders of its cell on the axes of the contact.\<close>

definition holdInCell :: "vec2 \<Rightarrow> real \<Rightarrow> vec2 \<Rightarrow> vec2" where
  "holdInCell normal verticalMargin p =
     (let c = cellOf p;
          x = (if vx normal \<noteq> 0
               then clamp (vx p) (real_of_int (fst c) + 1 / 100) (real_of_int (fst c + 1) - 1 / 100) else vx p);
          y = (if vy normal \<noteq> 0
               then clamp (vy p) (real_of_int (snd c) + verticalMargin) (real_of_int (snd c + 1) - verticalMargin)
               else vy p)
      in \<lparr>vx = x, vy = y\<rparr>)"

definition moveBody ::
  "nat \<Rightarrow> real \<Rightarrow> local_cell list \<Rightarrow> 'b world_state \<Rightarrow> real \<Rightarrow> vec2 \<Rightarrow> real \<Rightarrow> vec2 \<Rightarrow> vec2 \<Rightarrow> rigid_body \<Rightarrow> body_motion" where
  "moveBody oid mass shape w dt external verticalMargin p v rb =
     (let currentCells = shapeCells p shape;
          gravity = wd_gravity w;
          weight = mass * \<bar>gravity\<bar>;
          support = computeSupportForce w oid currentCells weight \<lparr>vx = 0, vy = (if gravity \<ge> 0 then 1 else - 1)\<rparr>;
          supportMagnitude = \<bar>vx support\<bar> + \<bar>vy support\<bar>;
          friction = computeGroundFriction w oid currentCells v supportMagnitude;
          rb1 = addForce friction (addForce support (addForce \<lparr>vx = 0, vy = mass * gravity\<rparr> rb));
          rb2 = (if vx external \<noteq> 0 \<or> vy external \<noteq> 0 then addForce external rb1 else rb1);
          rb3 = applyAirResistance (wd_airResistance w) v rb2;
          v1 = integrate v mass dt rb3;
          desired = \<lparr>vx = vx p + vx v1 * dt, vy = vy p + vy v1 * dt\<rparr>;
          collision = detect w oid currentCells (shapeCells desired shape)
      in if \<not> cr_blocked collision
         then \<lparr>bm_position = desired, bm_velocity = v1, bm_rigid = rb_clearPendingForce rb3,
               bm_onGround = supportMagnitude > 1 / 100\<rparr>
         else \<lparr>bm_position = holdInCell (cr_normal collision) verticalMargin p,
               bm_velocity = respond collision 0 v1, bm_rigid = rb_clearPendingForce rb3,
               bm_onGround = supportMagnitude > 1 / 100\<rparr>)"

definition rb_update ::
  "nat \<Rightarrow> real \<Rightarrow> local_cell list \<Rightarrow> 'b world_state \<Rightarrow> real \<Rightarrow> vec2 \<Rightarrow> real \<Rightarrow> vec2 \<Rightarrow> vec2 \<Rightarrow> rigid_body
   \<Rightarrow> (body_motion \<times> 'b world_state) option" where
  "rb_update oid mass shape w dt external verticalMargin p v rb = do {
     let b = moveBody oid mass shape w dt external verticalMargin p v rb;
     let (rb1, w1) = pj_clear (bm_rigid b) w;
     (rb2, w2) \<leftarrow> project oid (bm_position b) (bm_velocity b) rb1 w1;
     Some (b\<lparr>bm_rigid := rb2\<rparr>, w2)
   }"

section \<open>Collisions\<close>

lemma cellOf_worldPos: "cellOf (worldPos p c) = shift (lc_pos c) (cellOf p)"
  by (simp add: cellOf_def worldPos_def shift_def)

lemma shapeCells_shift: "shapeCells p shape = map (\<lambda>c. shift (lc_pos c) (cellOf p)) shape"
  by (simp add: shapeCells_def cellOf_worldPos)

lemma detect_blocked:
  "cr_blocked (detect w oid cur pred) \<longleftrightarrow> (\<exists>p \<in> set pred. \<not> inBounds w p \<or> obstacle w oid p)"
proof -
  have "fst (fold (detectStep w oid ref) pred st) \<longleftrightarrow> fst st \<or> (\<exists>p \<in> set pred. \<not> inBounds w p \<or> obstacle w oid p)"
    for ref st
    by (induction pred arbitrary: st) (auto simp: detectStep_def)
  note folded = this [of "referenceCell cur" "(False, [], zero_vec)"]
  obtain blocked ps n where f: "fold (detectStep w oid (referenceCell cur)) pred (False, [], zero_vec) = (blocked, ps, n)"
    by (cases "fold (detectStep w oid (referenceCell cur)) pred (False, [], zero_vec)")
  from folded show ?thesis unfolding detect_def f by (simp add: Let_def)
qed

lemma detect_normal:
  "cr_normal (detect w oid cur pred) = zero_vec \<or>
   vx (cr_normal (detect w oid cur pred)) * vx (cr_normal (detect w oid cur pred)) +
   vy (cr_normal (detect w oid cur pred)) * vy (cr_normal (detect w oid cur pred)) = 1"
proof -
  obtain blocked ps n where f: "fold (detectStep w oid (referenceCell cur)) pred (False, [], zero_vec) = (blocked, ps, n)"
    by (cases "fold (detectStep w oid (referenceCell cur)) pred (False, [], zero_vec)")
  let ?s = "vx n * vx n + vy n * vy n"
  have "sqrt ?s > 1 / 10000 \<Longrightarrow> vx n / sqrt ?s * (vx n / sqrt ?s) + vy n / sqrt ?s * (vy n / sqrt ?s) = 1"
  proof -
    assume pos: "sqrt ?s > 1 / 10000"
    have "0 \<le> ?s" by simp
    then have "sqrt ?s * sqrt ?s = ?s" by (metis real_sqrt_mult_self abs_of_nonneg)
    moreover have "?s \<noteq> 0" using pos by (metis divide_nonneg_nonneg linorder_not_less real_sqrt_zero zero_le_numeral zero_le_one)
    ultimately show ?thesis by (simp add: times_divide_times_eq flip: add_divide_distrib)
  qed
  then show ?thesis by (simp add: detect_def f Let_def)
qed

lemma respond_unit:
  fixes v c n
  assumes "vx n * vx n + vy n * vy n = 1" "cr_normal c = n"
  defines "u \<equiv> respond c 0 v"
  shows "cr_blocked c \<Longrightarrow> 0 \<le> vx u * vx n + vy u * vy n"
    "vx u * vx u + vy u * vy u \<le> vx v * vx v + vy v * vy v"
proof -
  define d where "d = vx v * vx n + vy v * vy n"
  have u: "u = (if \<not> cr_blocked c \<or> vx n = 0 \<and> vy n = 0 \<or> 0 \<le> d then v else \<lparr>vx = vx v - d * vx n, vy = vy v - d * vy n\<rparr>)"
    unfolding u_def respond_def assms(2) Let_def d_def by (simp add: algebra_simps)
  have nz: "\<not> (vx n = 0 \<and> vy n = 0)" using assms(1) by auto
  have "(vx v - d * vx n) * vx n + (vy v - d * vy n) * vy n = d - d * (vx n * vx n + vy n * vy n)"
    by (simp add: d_def algebra_simps)
  then have zero: "(vx v - d * vx n) * vx n + (vy v - d * vy n) * vy n = 0" by (simp add: assms(1))
  show "cr_blocked c \<Longrightarrow> 0 \<le> vx u * vx n + vy u * vy n"
    using nz zero by (auto simp: u d_def)
  have "(vx v - d * vx n) * (vx v - d * vx n) + (vy v - d * vy n) * (vy v - d * vy n)
      = vx v * vx v + vy v * vy v - 2 * d * d + d * d * (vx n * vx n + vy n * vy n)"
    by (simp add: d_def algebra_simps)
  then show "vx u * vx u + vy u * vy u \<le> vx v * vx v + vy v * vy v"
    by (simp add: u assms(1))
qed

text \<open>
  The collision normal is zero or of unit length. The response to a collision leaves no speed into
  the surface and never adds energy; without a collision, or when no direction was found, the velocity
  is unchanged.
\<close>

theorem collision_response:
  fixes w oid cur pred v
  defines "c \<equiv> detect w oid cur pred"
  defines "u \<equiv> respond c 0 v" and "n \<equiv> cr_normal c"
  shows "(n = zero_vec \<or> vx n * vx n + vy n * vy n = 1) \<and>
    vx u * vx u + vy u * vy u \<le> vx v * vx v + vy v * vy v \<and>
    (if (\<forall>p \<in> set pred. inBounds w p \<and> \<not> obstacle w oid p) \<or> n = zero_vec then u = v
     else 0 \<le> vx u * vx n + vy u * vy n)"
proof -
  have b: "cr_blocked c \<longleftrightarrow> \<not> (\<forall>p \<in> set pred. inBounds w p \<and> \<not> obstacle w oid p)"
    by (auto simp: c_def detect_blocked)
  have n: "n = zero_vec \<or> vx n * vx n + vy n * vy n = 1"
    using detect_normal [of w oid cur pred] by (simp add: n_def c_def)
  show ?thesis
  proof (cases "n = zero_vec \<or> \<not> cr_blocked c")
    case True
    then have "u = v" by (auto simp: u_def respond_def n_def [symmetric] zero_vec_def Let_def)
    with True n b show ?thesis by auto
  next
    case False
    with n have "vx n * vx n + vy n * vy n = 1" by blast
    from respond_unit [OF this, of c v] n False b show ?thesis unfolding u_def n_def by simp metis
  qed
qed

theorem collision_response_witness:
  "let c = detect demo_world 1 [(0, 0)] [(-1, 0)]; u = respond c 0 \<lparr>vx = -3, vy = 2\<rparr>
   in cr_normal c = \<lparr>vx = 1, vy = 0\<rparr> \<and> 0 \<le> vx u \<and> vx u * vx u + vy u * vy u \<le> 13"
proof -
  have out: "\<not> inBounds demo_world (-1, 0)" by (simp add: inBounds_def)
  then have n: "cr_normal (detect demo_world 1 [(0, 0)] [(-1, 0)]) = \<lparr>vx = 1, vy = 0\<rparr>"
    by (simp add: detect_def detectStep_def boundaryNormal_def zero_vec_def demo_world_def)
  then show ?thesis
    using collision_response [of demo_world 1 "[(0, 0)]" "[(-1, 0)]" "\<lparr>vx = -3, vy = 2\<rparr>"]
    by (simp add: Let_def zero_vec_def out del: One_nat_def)
qed

section \<open>Projection\<close>

text \<open>What an edit of the projection keeps of the world.\<close>

definition same_world :: "'b world_state \<Rightarrow> 'b world_state \<Rightarrow> bool" where
  "same_world w w' =
     (wd_width w' = wd_width w \<and> wd_height w' = wd_height w \<and>
      dom (om_organisms (wd_manager w')) = dom (om_organisms (wd_manager w)))"

lemma same_world_inBounds: "same_world w w' \<Longrightarrow> inBounds w' = inBounds w"
  by (auto simp: same_world_def inBounds_def fun_eq_iff)

lemma remove_one_dims:
  "om_width (removeCellsFromOrganism oid ps m) = om_width m \<and> om_height (removeCellsFromOrganism oid ps m) = om_height m"
proof -
  have "om_width (fold (removeCell oid) ps n) = om_width n \<and> om_height (fold (removeCell oid) ps n) = om_height n"
    for n :: "'a organism_manager"
    by (induction ps arbitrary: n) (simp_all add: removeCell_def clearOrganismAt_def updateOrganism_def)
  then show ?thesis by (simp add: removeCellsFromOrganism_def split: option.split)
qed

lemma clearCell_effect:
  assumes ok: "world_ok w" and reg: "om_organisms (wd_manager w) owner \<noteq> None \<or> owner = INVALID_ORGANISM_ID"
  shows "world_ok (pj_clearCell owner p w) \<and> same_world w (pj_clearCell owner p w) \<and>
    (\<forall>q. ownerAt (pj_clearCell owner p w) q =
      (if q = p \<and> ownerAt w q = owner then INVALID_ORGANISM_ID else ownerAt w q)) \<and>
    (\<forall>q. inBounds w q \<longrightarrow> cellAt (pj_clearCell owner p w) q =
      (if q = p \<and> ownerAt w q = owner then clearedCell (cellAt w q) else cellAt w q))"
proof (cases "inBounds w p \<and> ownerAt w p = owner")
  case False
  then have "pj_clearCell owner p w = w" by (auto simp: pj_clearCell_def)
  moreover have "\<not> inBounds w p \<Longrightarrow> ownerAt w p = INVALID_ORGANISM_ID" using ownerAt_inBounds [OF ok] by blast
  ultimately show ?thesis using False ok by (auto simp: same_world_def)
next
  case True
  let ?m = "removeCellsFromOrganism owner [p] (wd_manager w)"
  let ?w = "w\<lparr>wd_manager := ?m\<rparr>"
  have t: "tracked (wd_manager w)" using ok by (simp add: world_ok_def)
  have ok': "world_ok ?w"
    using ok tracked_removeCells [OF t] remove_one_dims [of owner "[p]" "wd_manager w"]
    by (intro world_ok_manager) (simp_all add: world_ok_def)
  have e: "dom (om_organisms ?m) = dom (om_organisms (wd_manager w))"
    "om_at ?m q = (if q = p then INVALID_ORGANISM_ID else om_at (wd_manager w) q)" for q
  proof -
    show "dom (om_organisms ?m) = dom (om_organisms (wd_manager w))"
      using removeCells_effect [OF tracked_shape [OF t], of owner "[p]"] reg
      by (cases "om_organisms (wd_manager w) owner") (auto simp: removeCellsFromOrganism_def getOrganism_def)
    show "om_at ?m q = (if q = p then INVALID_ORGANISM_ID else om_at (wd_manager w) q)"
    proof (cases "om_organisms (wd_manager w) owner")
      case None
      then have "?m = wd_manager w" "owner = INVALID_ORGANISM_ID"
        using reg by (auto simp: removeCellsFromOrganism_def getOrganism_def)
      with True show ?thesis by (simp add: ownerAt_def)
    next
      case (Some og)
      then show ?thesis using removeCells_effect [OF tracked_shape [OF t], of owner "[p]"] by auto
    qed
  qed
  have "pj_clearCell owner p w = setCell p (clearedCell (cellAt w p)) ?w" using True by (simp add: pj_clearCell_def)
  with ok' True show ?thesis by (auto simp: same_world_def e ownerAt_def cellAt_setCell)
qed

lemma clear_effect:
  assumes ok: "world_ok w" and reg: "om_organisms (wd_manager w) (rb_lastOwner rb) \<noteq> None \<or> rb_lastOwner rb = INVALID_ORGANISM_ID"
    and c: "pj_clear rb w = (rb1, w1)"
  shows "rb1 = rb\<lparr>rb_occupied := []\<rparr> \<and> world_ok w1 \<and> same_world w w1 \<and>
    (\<forall>q. ownerAt w1 q = (if q \<in> set (rb_occupied rb) \<and> ownerAt w q = rb_lastOwner rb then INVALID_ORGANISM_ID else ownerAt w q)) \<and>
    (\<forall>q. inBounds w q \<longrightarrow> \<not> (q \<in> set (rb_occupied rb) \<and> ownerAt w q = rb_lastOwner rb) \<longrightarrow> cellAt w1 q = cellAt w q)"
proof -
  let ?o = "rb_lastOwner rb"
  have "world_ok w \<Longrightarrow> om_organisms (wd_manager w) ?o \<noteq> None \<or> ?o = INVALID_ORGANISM_ID \<Longrightarrow>
      world_ok (fold (pj_clearCell ?o) ps w) \<and> same_world w (fold (pj_clearCell ?o) ps w) \<and>
      (\<forall>q. ownerAt (fold (pj_clearCell ?o) ps w) q =
        (if q \<in> set ps \<and> ownerAt w q = ?o then INVALID_ORGANISM_ID else ownerAt w q)) \<and>
      (\<forall>q. inBounds w q \<longrightarrow> \<not> (q \<in> set ps \<and> ownerAt w q = ?o) \<longrightarrow> cellAt (fold (pj_clearCell ?o) ps w) q = cellAt w q)" for ps
  proof (induction ps arbitrary: w)
    case Nil
    then show ?case by (simp add: same_world_def)
  next
    case (Cons p ps)
    let ?w = "pj_clearCell ?o p w"
    have s: "world_ok ?w" "same_world w ?w"
      "\<And>q. ownerAt ?w q = (if q = p \<and> ownerAt w q = ?o then INVALID_ORGANISM_ID else ownerAt w q)"
      "\<And>q. inBounds w q \<Longrightarrow> cellAt ?w q = (if q = p \<and> ownerAt w q = ?o then clearedCell (cellAt w q) else cellAt w q)"
      using clearCell_effect [OF Cons.prems, of p] by blast+
    have reg: "om_organisms (wd_manager ?w) ?o \<noteq> None \<or> ?o = INVALID_ORGANISM_ID"
      using Cons.prems(2) s(2) by (auto simp: same_world_def dom_def set_eq_iff)
    note ih = Cons.IH [OF s(1) reg]
    have "same_world w (fold (pj_clearCell ?o) ps ?w)" using ih s(2) by (simp add: same_world_def)
    moreover have "inBounds ?w = inBounds w" by (rule same_world_inBounds [OF s(2)])
    ultimately show ?case using ih by (auto simp: s(3,4))
  qed
  from this [OF ok reg, of "rb_occupied rb"] c show ?thesis by (auto simp: pj_clear_def)
qed

lemma projectCells_effect:
  assumes "world_ok w" "om_organisms (wd_manager w) oid \<noteq> None"
  shows "\<exists>w'. projectCells oid p v shape occ w = Some (occ @ filter (inBounds w) (shapeCells p shape), w') \<and>
    world_ok w' \<and> same_world w w' \<and>
    (\<forall>q. ownerAt w' q = (if inBounds w q \<and> q \<in> set (shapeCells p shape) then oid else ownerAt w q)) \<and>
    (\<forall>q. inBounds w q \<longrightarrow>
      (if q \<in> set (shapeCells p shape)
       then \<exists>lc \<in> set shape. cellOf (worldPos p lc) = q \<and> material_type (cellAt w' q) = lc_material lc \<and>
              fill_ratio (cellAt w' q) = lc_fill lc \<and> velocity (cellAt w' q) = v
       else cellAt w' q = cellAt w q))"
  using assms
proof (induction shape arbitrary: occ w)
  case Nil
  then show ?case by (simp add: shapeCells_def same_world_def)
next
  case (Cons lc lcs)
  let ?q = "cellOf (worldPos p lc)"
  have sc: "shapeCells p (lc # lcs) = ?q # shapeCells p lcs" by (simp add: shapeCells_def)
  show ?case
  proof (cases "inBounds w ?q")
    case False
    with Cons.IH [OF Cons.prems, of occ] show ?thesis by (auto simp: sc)
  next
    case True
    have t: "tracked (wd_manager w)" using Cons.prems(1) by (simp add: world_ok_def)
    obtain og where og: "om_organisms (wd_manager w) oid = Some og" using Cons.prems(2) by auto
    obtain m where m: "addCellToOrganism oid ?q (wd_manager w) = Some m"
      "dom (om_organisms m) = dom (om_organisms (wd_manager w))"
      "\<And>q. om_at m q = (if q = ?q \<and> om_inside (wd_manager w) ?q then oid else om_at (wd_manager w) q)"
      by (rule addCell_effect [OF tracked_shape [OF t] og, where p = "?q"]) blast
    have dims: "om_width m = om_width (wd_manager w)" "om_height m = om_height (wd_manager w)"
      using m(1) og by (auto simp: addCellToOrganism_def getOrganism_def setOrganismAt_def updateOrganism_def)
    let ?w = "setCell ?q (projectedCell lc p v (cellAt w ?q)) (w\<lparr>wd_manager := m\<rparr>)"
    have ok0: "world_ok (w\<lparr>wd_manager := m\<rparr>)"
      using Cons.prems(1) tracked_add [OF t m(1)] dims by (intro world_ok_manager) (simp_all add: world_ok_def)
    have ok: "world_ok ?w" "om_organisms (wd_manager ?w) oid \<noteq> None"
      using ok0 m(2) og by (auto simp: dom_def set_eq_iff)
    have inb: "inBounds ?w = inBounds w" by (auto simp: fun_eq_iff)
    have own: "ownerAt ?w q = (if q = ?q then oid else ownerAt w q)" for q
      using True Cons.prems(1) by (simp add: m(3) ownerAt_def inBounds_inside)
    have cells: "cellAt ?w q = (if q = ?q then projectedCell lc p v (cellAt w ?q) else cellAt w q)" if "inBounds w q" for q
      using that True ok0 by (simp add: cellAt_setCell)
    have pc: "material_type (projectedCell lc p v c) = lc_material lc" "fill_ratio (projectedCell lc p v c) = lc_fill lc"
      "velocity (projectedCell lc p v c) = v" for c by (simp_all add: projectedCell_def)
    obtain w' where w': "projectCells oid p v lcs (occ @ [?q]) ?w = Some ((occ @ [?q]) @ filter (inBounds w) (shapeCells p lcs), w')"
      "world_ok w'" "same_world ?w w'"
      "\<And>q. ownerAt w' q = (if inBounds w q \<and> q \<in> set (shapeCells p lcs) then oid else ownerAt ?w q)"
      "\<And>q. inBounds w q \<Longrightarrow>
        (if q \<in> set (shapeCells p lcs)
         then \<exists>lc \<in> set lcs. cellOf (worldPos p lc) = q \<and> material_type (cellAt w' q) = lc_material lc \<and>
              fill_ratio (cellAt w' q) = lc_fill lc \<and> velocity (cellAt w' q) = v
         else cellAt w' q = cellAt ?w q)"
      using Cons.IH [OF ok, of "occ @ [?q]"] unfolding inb by blast
    show ?thesis
    proof (intro exI conjI allI impI)
      show "projectCells oid p v (lc # lcs) occ w = Some (occ @ filter (inBounds w) (shapeCells p (lc # lcs)), w')"
        using True w'(1) m(1) by (simp add: sc Let_def)
      show "same_world w w'" using w'(3) m(2) by (simp add: same_world_def)
      show "ownerAt w' q = (if inBounds w q \<and> q \<in> set (shapeCells p (lc # lcs)) then oid else ownerAt w q)" for q
        using True unfolding w'(4) own sc by auto
      show "if q \<in> set (shapeCells p (lc # lcs))
         then \<exists>lc \<in> set (lc # lcs). cellOf (worldPos p lc) = q \<and> material_type (cellAt w' q) = lc_material lc \<and>
              fill_ratio (cellAt w' q) = lc_fill lc \<and> velocity (cellAt w' q) = v
         else cellAt w' q = cellAt w q" if "inBounds w q" for q
        using w'(5) [OF that] cells [OF that] pc by (cases "q \<in> set (shapeCells p lcs)") (auto simp: sc)
    qed (rule w'(2))
  qed
qed

section \<open>A frame of a rigid body\<close>

definition foreign :: "'b world_state \<Rightarrow> nat \<Rightarrow> pos \<Rightarrow> bool" where
  "foreign w oid q = (ownerAt w q \<noteq> INVALID_ORGANISM_ID \<and> ownerAt w q \<noteq> oid)"

lemma clamp_floor:
  fixes x m :: real
  assumes "0 < m" "m \<le> 1 / 2"
  shows "\<lfloor>clamp x (real_of_int \<lfloor>x\<rfloor> + m) (real_of_int (\<lfloor>x\<rfloor> + 1) - m)\<rfloor> = \<lfloor>x\<rfloor>"
  using assms by (auto simp: clamp_def floor_eq_iff)

lemma holdInCell_cell:
  assumes "0 < m" "m \<le> 1 / 2" shows "cellOf (holdInCell n m p) = cellOf p"
  using clamp_floor [OF assms] clamp_floor [of "1 / 100"] by (simp add: holdInCell_def cellOf_def Let_def)

lemma obstacle_foreign: "foreign w oid q \<Longrightarrow> obstacle w oid q"
  by (auto simp: obstacle_def foreign_def Let_def)

text \<open>The body moves freely, or stays in the cells where it was.\<close>

lemma moveBody_cells:
  assumes "0 < m" "m \<le> 1 / 2" and b_def: "b = moveBody oid mass shape w dt external m p v rb"
  shows "shapeCells (bm_position b) shape = shapeCells p shape \<or>
    (\<forall>q \<in> set (shapeCells (bm_position b) shape). inBounds w q \<and> \<not> obstacle w oid q)"
proof -
  obtain pos vel r g where
    "b = \<lparr>bm_position = pos, bm_velocity = vel, bm_rigid = r, bm_onGround = g\<rparr>"
    "(\<exists>cur. \<not> cr_blocked (detect w oid cur (shapeCells pos shape))) \<or> (\<exists>n. pos = holdInCell n m p)"
    unfolding b_def moveBody_def Let_def by (metis (no_types, lifting))
  then show ?thesis
    using holdInCell_cell [OF assms(1,2)] by (auto simp: detect_blocked shapeCells_shift)
qed

lemma moveBody_rigid:
  "rb_shape (bm_rigid (moveBody oid mass shape w dt external m p v rb)) = rb_shape rb \<and>
   rb_lastOwner (bm_rigid (moveBody oid mass shape w dt external m p v rb)) = rb_lastOwner rb \<and>
   rb_occupied (bm_rigid (moveBody oid mass shape w dt external m p v rb)) = rb_occupied rb"
  by (simp add: moveBody_def Let_def rb_clearPendingForce_def applyAirResistance_def addForce_def)



section \<open>Ground forces\<close>

lemma friction_coefficients:
  "list_all (\<lambda>m. 0 \<le> mp_static_friction_coefficient (getProperties m) \<and> 0 \<le> mp_kinetic_friction_coefficient (getProperties m))
     [Mat_Air, Mat_Dirt, Mat_Leaf, Mat_Metal, Mat_Root, Mat_Sand, Mat_Seed, Mat_Wall, Mat_Water, Mat_Wood]"
  by code_simp

lemma friction_nonneg: "0 \<le> mp_static_friction_coefficient (getProperties m)" "0 \<le> mp_kinetic_friction_coefficient (getProperties m)"
  using friction_coefficients by (cases m; simp)+

lemma average_nonneg:
  assumes "\<And>m. 0 \<le> f (getProperties m)" shows "0 \<le> average f ms"
proof -
  have "0 \<le> s \<Longrightarrow> 0 \<le> fold (\<lambda>m s. s + f (getProperties m)) ms s" for s
    by (induction ms arbitrary: s) (simp_all add: assms)
  then show ?thesis by (simp add: average_def)
qed

lemma smooth_step:
  fixes t :: real
  assumes "0 \<le> t" "t \<le> 1"
  shows "0 \<le> t * t * (3 - 2 * t)" "t * t * (3 - 2 * t) \<le> 1"
proof -
  show "0 \<le> t * t * (3 - 2 * t)" using assms by simp
  have "0 \<le> (1 - t) * (1 - t) * (1 + 2 * t)" using assms by simp
  then show "t * t * (3 - 2 * t) \<le> 1" by (simp add: algebra_simps)
qed

lemma supportLoop_bounds:
  assumes "\<And>c. c \<in> set (wd_cells w) \<Longrightarrow> 0 \<le> fill_ratio c" "world_ok w"
    and "supportLoop w oid g ps contacts support = Inr (n, s)" "0 \<le> support" "0 \<le> contacts"
  shows "0 \<le> s \<and> 0 \<le> n"
  using assms(3-)
proof (induction ps arbitrary: contacts support)
  case (Cons p ps)
  have "inBounds w q \<Longrightarrow> 0 \<le> supportOf (cellAt w q)" for q
    using assms(1) [of "cellAt w q"] wd_index_less [OF assms(2), of q] by (simp add: supportOf_def cellAt_def)
  with Cons show ?case by (auto simp: Let_def split: if_splits)
qed simp

text \<open>
  The forces of the ground. Friction acts along the ground only, against the motion, and not at all
  without motion or support. The support pushes against gravity with at most the body's weight.
\<close>

theorem ground_forces:
  assumes "world_ok w" "\<forall>c \<in> set (wd_cells w). 0 \<le> fill_ratio c" "0 \<le> weight"
  shows "(\<exists>f. computeGroundFriction w oid ps v normalForce = \<lparr>vx = f, vy = 0\<rparr> \<and>
      f * vx v \<le> 0 \<and> (vx v = 0 \<or> normalForce < 1 / 100 \<longrightarrow> f = 0)) \<and>
    (\<exists>k. 0 \<le> k \<and> k \<le> weight \<and> computeSupportForce w oid ps weight g = \<lparr>vx = - vx g * k, vy = - vy g * k\<rparr>)"
proof (intro conjI)
  have mono: "0 \<le> a \<Longrightarrow> 0 \<le> b \<Longrightarrow> 0 \<le> t \<Longrightarrow> t \<le> 1 \<Longrightarrow> 0 \<le> a * (1 - t) + b * t" for a b t :: real by simp
  have clamp01: "0 \<le> clamp x 0 1" "clamp x 0 1 \<le> 1" for x :: real by (simp_all add: clamp_def)
  note coefficient = mono [OF average_nonneg [of mp_static_friction_coefficient, OF friction_nonneg(1)]
      average_nonneg [of mp_kinetic_friction_coefficient, OF friction_nonneg(2)] smooth_step(1) [OF clamp01] smooth_step(2) [OF clamp01]]
  have sign: "(if vx v > 0 then - 1 else 1) * k * vx v \<le> 0" if "0 \<le> k" for k :: real
    using that by (auto simp: mult_nonneg_nonpos)
  have "\<exists>k. 0 \<le> k \<and> computeGroundFriction w oid ps v normalForce = \<lparr>vx = (if vx v > 0 then - 1 else 1) * k, vy = 0\<rparr> \<and>
      (vx v = 0 \<or> normalForce < 1 / 100 \<longrightarrow> k = 0)"
  proof (cases "normalForce < 1 / 100 \<or> ps = [] \<or> \<bar>vx v\<bar> < 1 / 1000000 \<or> groundMaterials w oid ps = []")
    case True
    then show ?thesis by (intro exI [of _ 0]) (auto simp: computeGroundFriction_def zero_vec_def Let_def)
  next
    case False
    let ?ms = "groundMaterials w oid ps"
    let ?t = "clamp ((\<bar>vx v\<bar> - average mp_stick_velocity ?ms) / average mp_friction_transition_width ?ms) 0 1"
    let ?c = "if \<bar>vx v\<bar> \<ge> average mp_stick_velocity ?ms
      then average mp_static_friction_coefficient ?ms * (1 - ?t * ?t * (3 - 2 * ?t))
        + average mp_kinetic_friction_coefficient ?ms * (?t * ?t * (3 - 2 * ?t))
      else average mp_static_friction_coefficient ?ms"
    have "0 \<le> ?c" using coefficient average_nonneg [of mp_static_friction_coefficient, OF friction_nonneg(1)] by simp
    moreover have "computeGroundFriction w oid ps v normalForce = \<lparr>vx = (if vx v > 0 then - 1 else 1) * (?c * normalForce), vy = 0\<rparr>"
      using False by (simp add: computeGroundFriction_def Let_def)
    ultimately show ?thesis using False by (intro exI [of _ "?c * normalForce"]) auto
  qed
  then obtain k where k: "0 \<le> k" "vx v = 0 \<or> normalForce < 1 / 100 \<longrightarrow> k = 0"
      "computeGroundFriction w oid ps v normalForce = \<lparr>vx = (if vx v > 0 then - 1 else 1) * k, vy = 0\<rparr>"
    by blast
  then show "\<exists>f. computeGroundFriction w oid ps v normalForce = \<lparr>vx = f, vy = 0\<rparr> \<and>
      f * vx v \<le> 0 \<and> (vx v = 0 \<or> normalForce < 1 / 100 \<longrightarrow> f = 0)"
    using sign [OF k(1)] by (intro exI [of _ "(if vx v > 0 then - 1 else 1) * k"]) simp
  show "\<exists>k. 0 \<le> k \<and> k \<le> weight \<and> computeSupportForce w oid ps weight g = \<lparr>vx = - vx g * k, vy = - vy g * k\<rparr>"
  proof (cases "ps = [] \<or> weight < 1 / 10000")
    case True
    then show ?thesis using assms(3) by (intro exI [of _ 0]) (auto simp: computeSupportForce_def zero_vec_def)
  next
    case no: False
    show ?thesis
    proof (cases "supportLoop w oid g ps 0 0")
      case (Inl u)
      then show ?thesis using no assms(3) by (intro exI [of _ weight]) (simp add: computeSupportForce_def)
    next
      case (Inr r)
      obtain n s where r: "r = (n, s)" by (cases r)
      have b: "0 \<le> s" "0 \<le> n"
        using supportLoop_bounds [OF _ assms(1) Inr [unfolded r]] assms(2) by auto
      have half: "min x 1 > 1 / 2 \<longleftrightarrow> x > (1 / 2 :: real)" for x by simp
      let ?m = "min (s / real_of_int n) 1"
      let ?k = "if n = 0 then 0 else weight * (if ?m > 1 / 2 then 1 else ?m)"
      have "0 \<le> ?m" using b by simp
      then have "0 \<le> ?k \<and> ?k \<le> weight" using assms(3) by (auto simp: mult_left_le)
      moreover have "computeSupportForce w oid ps weight g = \<lparr>vx = - vx g * ?k, vy = - vy g * ?k\<rparr>"
        using no unfolding computeSupportForce_def Inr r Let_def zero_vec_def half by simp
      ultimately show ?thesis by blast
    qed
  qed
qed

theorem ground_forces_witness:
  "\<exists>k. 0 \<le> k \<and> k \<le> 1 / 2 \<and>
    computeSupportForce demo_world 1 [(0, 0)] (1 / 2) \<lparr>vx = 0, vy = 10\<rparr> = \<lparr>vx = 0, vy = - 10 * k\<rparr>"
proof -
  have "list_all (\<lambda>c. 0 \<le> fill_ratio c) (wd_cells demo_world)" by code_simp
  then show ?thesis
    using ground_forces [OF demo_world_ok, of "1 / 2" 1 "[(0, 0)]" "\<lparr>vx = 1, vy = 0\<rparr>" 1 "\<lparr>vx = 0, vy = 10\<rparr>"]
    by (simp add: list_all_iff)
qed

end
