(* ===== verification/TreeCommands.thy ===== *)
theory TreeCommands
  imports RigidBody
begin

text \<open>
  What a tree may do: \<open>core/organisms/TreeCommandProcessor.{h,cpp}\<close>, with the accounting of energy for a
  command in \<open>core/organisms/Tree.cpp\<close> (\<open>isEnergyReservedForCommand\<close>, \<open>addCellToLocalShape\<close>,
  \<open>executeCommand\<close>, and the handling of a decision in \<open>processBrainDecision\<close>). The tree lives in the
  organism manager of the world, so its operations take the world and the tree's id; they are \<open>None\<close>
  where the source would use a tree that does not exist, or abort. The messages of the results are kept.
\<close>

section \<open>Results\<close>

datatype command_result = SUCCESS | INSUFFICIENT_ENERGY | INVALID_TARGET | BLOCKED

record execution_result =
  xr_result :: command_result
  xr_message :: string

definition succeeded :: "execution_result \<Rightarrow> bool" where
  "succeeded r = (xr_result r = SUCCESS)"

definition xr :: "command_result \<Rightarrow> string \<Rightarrow> execution_result" where
  "xr r s = \<lparr>xr_result = r, xr_message = s\<rparr>"

lemma xr_simps [simp]: "xr_result (xr r s) = r" "xr_message (xr r s) = s" "succeeded (xr r s) \<longleftrightarrow> r = SUCCESS"
  by (simp_all add: xr_def succeeded_def)

section \<open>The tree in the world\<close>

definition theTree :: "nat \<Rightarrow> 'b world_state \<Rightarrow> ('b organism \<times> 'b tree_state) option" where
  "theTree oid w =
     (case getOrganism (wd_manager w) oid of None \<Rightarrow> None | Some og \<Rightarrow> map_option (Pair og) (og_tree og))"

definition onBody :: "nat \<Rightarrow> ('b organism \<Rightarrow> 'b organism) \<Rightarrow> 'b world_state \<Rightarrow> 'b world_state" where
  "onBody oid f w = w\<lparr>wd_manager := updateOrganism oid f (wd_manager w)\<rparr>"

definition onTree :: "nat \<Rightarrow> ('b tree_state \<Rightarrow> 'b tree_state) \<Rightarrow> 'b world_state \<Rightarrow> 'b world_state" where
  "onTree oid f = onBody oid (updateTree f)"

text \<open>The setters of \<open>Tree.h\<close>; setting the current command records where the seed stood.\<close>

definition setStage :: "growth_stage \<Rightarrow> 'b tree_state \<Rightarrow> 'b tree_state" where
  "setStage stage t = t\<lparr>tree_stage := stage\<rparr>"

definition setEnergy :: "real \<Rightarrow> 'b tree_state \<Rightarrow> 'b tree_state" where
  "setEnergy energy t = t\<lparr>tree_energy := energy\<rparr>"

definition setWater :: "real \<Rightarrow> 'b tree_state \<Rightarrow> 'b tree_state" where
  "setWater water t = t\<lparr>tree_water := water\<rparr>"

definition setCurrentCommand :: "tree_command option \<Rightarrow> 'b organism \<Rightarrow> 'b organism" where
  "setCurrentCommand cmd og =
     updateTree (\<lambda>t. t\<lparr>tree_command := cmd,
       tree_commandSeed := (if cmd = None then None else Some (getAnchorCell og))\<rparr>) og"

definition setTimeRemaining :: "real \<Rightarrow> 'b tree_state \<Rightarrow> 'b tree_state" where
  "setTimeRemaining time t = t\<lparr>tree_timeRemaining := time\<rparr>"

definition setBrain :: "'b option \<Rightarrow> 'b tree_state \<Rightarrow> 'b tree_state" where
  "setBrain brain t = t\<lparr>tree_brain := brain\<rparr>"

definition addLandedSeed :: "landed_seed \<Rightarrow> 'b tree_state \<Rightarrow> 'b tree_state" where
  "addLandedSeed seed t = t\<lparr>tree_totals := (tree_totals t)\<lparr>rt_landed := rt_landed (tree_totals t) @ [seed]\<rparr>\<rparr>"

definition setSeedParentId :: "nat \<Rightarrow> 'b tree_state \<Rightarrow> 'b tree_state" where
  "setSeedParentId oid t = t\<lparr>tree_seedParent := oid\<rparr>"

section \<open>Energy\<close>

definition ENERGY_COST_WOOD :: real where "ENERGY_COST_WOOD = 10"

definition ENERGY_COST_LEAF :: real where "ENERGY_COST_LEAF = 8"

definition ENERGY_COST_ROOT :: real where "ENERGY_COST_ROOT = 12"

definition ENERGY_COST_PRODUCE_SEED :: real where "ENERGY_COST_PRODUCE_SEED = 50"

definition kEnergyCap :: real where "kEnergyCap = 100"

fun getEnergyCostForCommand :: "tree_command \<Rightarrow> real" where
  "getEnergyCostForCommand (GrowWoodCommand _ _) = ENERGY_COST_WOOD"
| "getEnergyCostForCommand (GrowLeafCommand _ _) = ENERGY_COST_LEAF"
| "getEnergyCostForCommand (GrowRootCommand _ _) = ENERGY_COST_ROOT"
| "getEnergyCostForCommand (ProduceSeedCommand _ _) = ENERGY_COST_PRODUCE_SEED"
| "getEnergyCostForCommand WaitCommand = 0"
| "getEnergyCostForCommand CancelCommand = 0"

definition isEnergyReservedForCommand :: "'b tree_state \<Rightarrow> tree_command \<Rightarrow> real \<Rightarrow> bool" where
  "isEnergyReservedForCommand t cmd energyCost =
     (if energyCost \<le> 0 then True
      else if \<not> tree_hasReserved t then False
      else if tree_reservedType t \<noteq> getCommandType cmd then False
      else tree_reserved t \<ge> energyCost)"

section \<open>Validation\<close>

definition kCardinalDirections :: "pos list" where
  "kCardinalDirections = [(0, 1), (0, -1), (-1, 0), (1, 0)]"

definition isTargetOwnedByTree :: "nat \<Rightarrow> 'b world_state \<Rightarrow> pos \<Rightarrow> bool" where
  "isTargetOwnedByTree oid w p = (ownerAt w p = oid)"

definition hasOwnedNeighborWithMaterial :: "nat \<Rightarrow> 'b world_state \<Rightarrow> pos \<Rightarrow> material list \<Rightarrow> bool" where
  "hasOwnedNeighborWithMaterial oid w p allowed =
     list_ex (\<lambda>d. let q = shift d p
                  in if \<not> inBounds w q then False
                     else if ownerAt w q \<noteq> oid then False
                     else material_type (cellAt w q) \<in> set allowed) kCardinalDirections"

text \<open>The three growth commands differ in their cost, their names and where they may be attached.\<close>

definition validateGrowth ::
  "nat \<Rightarrow> 'b tree_state \<Rightarrow> 'b world_state \<Rightarrow> bool \<Rightarrow> real \<Rightarrow> string \<Rightarrow> material list \<Rightarrow> string \<Rightarrow> pos \<Rightarrow> execution_result" where
  "validateGrowth oid t w checkEnergy cost name allowed allowedText p =
     (if checkEnergy \<and> tree_energy t < cost
      then xr INSUFFICIENT_ENERGY (''Not enough energy for '' @ name @ '' growth'')
      else if \<not> inBounds w p then xr INVALID_TARGET (name @ '' target out of bounds'')
      else if isTargetOwnedByTree oid w p then xr INVALID_TARGET (name @ '' target already owned by tree'')
      else if hasOwnedNeighborWithMaterial oid w p allowed then xr SUCCESS (name @ '' target valid'')
      else xr INVALID_TARGET (name @ '' requires cardinal adjacency to '' @ allowedText))"

definition validateSeed :: "nat \<Rightarrow> 'b tree_state \<Rightarrow> 'b world_state \<Rightarrow> bool \<Rightarrow> pos \<Rightarrow> execution_result" where
  "validateSeed oid t w checkEnergy p =
     (if checkEnergy \<and> tree_energy t < ENERGY_COST_PRODUCE_SEED
      then xr INSUFFICIENT_ENERGY ''Not enough energy for seed production''
      else if \<not> inBounds w p then xr INVALID_TARGET ''Seed position out of bounds''
      else if \<not> hasOwnedNeighborWithMaterial oid w p [Mat_Leaf, Mat_Wood]
      then xr INVALID_TARGET ''SEED requires cardinal adjacency to WOOD or LEAF''
      else if material_type (cellAt w p) \<noteq> Mat_Air then xr BLOCKED ''SEED can only be placed in AIR cells''
      else if ownerAt w p \<noteq> INVALID_ORGANISM_ID \<and> ownerAt w p \<noteq> oid
      then xr BLOCKED ''Cannot place SEED in another organism's cell''
      else xr SUCCESS ''SEED target valid'')"

fun treeCommandValidate :: "nat \<Rightarrow> 'b tree_state \<Rightarrow> 'b world_state \<Rightarrow> tree_command \<Rightarrow> bool \<Rightarrow> execution_result" where
  "treeCommandValidate oid t w (GrowWoodCommand p _) checkEnergy =
     validateGrowth oid t w checkEnergy ENERGY_COST_WOOD ''WOOD'' [Mat_Seed, Mat_Wood] ''WOOD or SEED'' p"
| "treeCommandValidate oid t w (GrowLeafCommand p _) checkEnergy =
     validateGrowth oid t w checkEnergy ENERGY_COST_LEAF ''LEAF'' [Mat_Wood] ''WOOD'' p"
| "treeCommandValidate oid t w (GrowRootCommand p _) checkEnergy =
     validateGrowth oid t w checkEnergy ENERGY_COST_ROOT ''ROOT'' [Mat_Root, Mat_Seed] ''SEED or ROOT'' p"
| "treeCommandValidate oid t w (ProduceSeedCommand p _) checkEnergy = validateSeed oid t w checkEnergy p"
| "treeCommandValidate oid t w WaitCommand checkEnergy = xr SUCCESS ''Wait''"
| "treeCommandValidate oid t w CancelCommand checkEnergy = xr SUCCESS ''Cancel''"

section \<open>Execution\<close>

definition addCellToLocalShape :: "pos \<Rightarrow> material \<Rightarrow> real \<Rightarrow> 'b organism \<Rightarrow> 'b organism" where
  "addCellToLocalShape p m fill og =
     (let c = \<lparr>lc_pos = p, lc_material = m, lc_fill = fill\<rparr>
      in recomputeCenterOfMass (recomputeMass
           (og\<lparr>og_rigid := map_option (rb_addCell c) (og_rigid og), og_shape := og_shape og @ [c]\<rparr>)))"

definition growCell :: "nat \<Rightarrow> pos \<Rightarrow> material \<Rightarrow> 'b world_state \<Rightarrow> 'b world_state" where
  "growCell oid target m =
     onBody oid (\<lambda>og. let anchor = getAnchorCell og
                      in addCellToLocalShape (fst target - fst anchor, snd target - snd anchor) m 1 og)"

definition incrementSeedsProduced :: "'b tree_state \<Rightarrow> 'b tree_state" where
  "incrementSeedsProduced t = t\<lparr>tree_totals := (tree_totals t)\<lparr>rt_seeds := rt_seeds (tree_totals t) + 1\<rparr>\<rparr>"

fun executeValid :: "'b \<Rightarrow> nat \<Rightarrow> tree_command \<Rightarrow> 'b world_state \<Rightarrow> execution_result \<times> 'b world_state" where
  "executeValid ruleBased oid (GrowWoodCommand p _) w =
     (xr SUCCESS ''WOOD growth successful'', growCell oid p Mat_Wood w)"
| "executeValid ruleBased oid (GrowLeafCommand p _) w =
     (xr SUCCESS ''LEAF growth successful'', growCell oid p Mat_Leaf w)"
| "executeValid ruleBased oid (GrowRootCommand p _) w =
     (xr SUCCESS ''ROOT growth successful'', growCell oid p Mat_Root w)"
| "executeValid ruleBased oid (ProduceSeedCommand p _) w =
     (xr SUCCESS ''Seed production successful'',
      onTree oid incrementSeedsProduced
        (snd (createTree ruleBased p None
           \<lparr>sp_startingEnergy = 0, sp_passive = True, sp_seedParent = oid\<rparr> w)))"
| "executeValid ruleBased oid WaitCommand w = (xr SUCCESS ''Wait'', w)"
| "executeValid ruleBased oid CancelCommand w = (xr SUCCESS ''Cancel'', w)"

definition execute ::
  "'b \<Rightarrow> nat \<Rightarrow> tree_command \<Rightarrow> 'b world_state \<Rightarrow> (execution_result \<times> 'b world_state) option" where
  "execute ruleBased oid cmd w = do {
     (_, t) \<leftarrow> theTree oid w;
     let validation = treeCommandValidate oid t w cmd False;
     let energyCost = getEnergyCostForCommand cmd;
     Some (if \<not> succeeded validation then (validation, w)
           else if energyCost > 0 \<and> \<not> isEnergyReservedForCommand t cmd energyCost
           then (xr INSUFFICIENT_ENERGY ''Energy not reserved for command'', w)
           else executeValid ruleBased oid cmd w)
   }"

section \<open>Signatures\<close>

definition formatDelta :: "int \<Rightarrow> string" where
  "formatDelta v = (if v \<ge> 0 then ''+'' @ to_string v else to_string v)"

definition targetSignature :: "string \<Rightarrow> pos \<Rightarrow> pos \<Rightarrow> string" where
  "targetSignature name p seed =
     name @ ''('' @ formatDelta (fst p - fst seed) @ '','' @ formatDelta (snd p - snd seed) @ '')''"

fun treeCommandSignature :: "tree_command \<Rightarrow> pos \<Rightarrow> string" where
  "treeCommandSignature WaitCommand seed = ''Wait''"
| "treeCommandSignature CancelCommand seed = ''Cancel''"
| "treeCommandSignature (GrowWoodCommand p _) seed = targetSignature ''GrowWood'' p seed"
| "treeCommandSignature (GrowLeafCommand p _) seed = targetSignature ''GrowLeaf'' p seed"
| "treeCommandSignature (GrowRootCommand p _) seed = targetSignature ''GrowRoot'' p seed"
| "treeCommandSignature (ProduceSeedCommand p _) seed = targetSignature ''ProduceSeed'' p seed"

fun commandResultName :: "command_result \<Rightarrow> string" where
  "commandResultName SUCCESS = ''SUCCESS''"
| "commandResultName INSUFFICIENT_ENERGY = ''INSUFFICIENT_ENERGY''"
| "commandResultName INVALID_TARGET = ''INVALID_TARGET''"
| "commandResultName BLOCKED = ''BLOCKED''"

definition treeCommandOutcomeSignature :: "tree_command \<Rightarrow> pos \<Rightarrow> command_result \<Rightarrow> string" where
  "treeCommandOutcomeSignature cmd seed r = treeCommandSignature cmd seed @ '' -> '' @ commandResultName r"

section \<open>The current command\<close>

text \<open>What \<open>executeCommand\<close> does to the tree's state after the command was carried out or refused.\<close>

definition settleCommand :: "bool \<Rightarrow> 'b tree_state \<Rightarrow> 'b tree_state" where
  "settleCommand accepted t =
     t\<lparr>tree_hasLastResult := True, tree_lastAccepted := accepted,
       tree_accepted := (if accepted then tree_accepted t + 1 else tree_accepted t),
       tree_rejected := (if accepted then tree_rejected t else tree_rejected t + 1),
       tree_energy := (if \<not> accepted \<and> tree_hasReserved t \<and> tree_reserved t > 0
                       then min (tree_energy t + tree_reserved t) kEnergyCap else tree_energy t),
       tree_reserved := 0, tree_hasReserved := False, tree_reservedType := Cmd_Wait\<rparr>"

definition executeCommand :: "'b \<Rightarrow> nat \<Rightarrow> 'b world_state \<Rightarrow> 'b world_state option" where
  "executeCommand ruleBased oid w = do {
     (og, t) \<leftarrow> theTree oid w;
     cmd \<leftarrow> tree_command t;
     let seedPosition = (case tree_commandSeed t of Some p \<Rightarrow> p | None \<Rightarrow> getAnchorCell og);
     (r, w1) \<leftarrow> execute ruleBased oid cmd w;
     Some (onTree oid (settleCommand (succeeded r))
       (onBody oid (recordCommandOutcomeSignature (treeCommandOutcomeSignature cmd seedPosition (xr_result r))) w1))
   }"

definition cancelCommand :: "'b tree_state \<Rightarrow> 'b tree_state" where
  "cancelCommand t =
     (case tree_command t of
        None \<Rightarrow> t\<lparr>tree_idleCancels := tree_idleCancels t + 1\<rparr>
      | Some _ \<Rightarrow>
          let t1 = (if tree_hasReserved t \<and> tree_reserved t > 0
                    then t\<lparr>tree_energy := min (tree_energy t + tree_reserved t) kEnergyCap, tree_reserved := 0,
                           tree_hasReserved := False, tree_reservedType := Cmd_Wait\<rparr>
                    else t)
          in t1\<lparr>tree_command := None, tree_commandSeed := None, tree_timeRemaining := 0, tree_totalTime := 0\<rparr>)"

definition rejectCommand :: "'b tree_state \<Rightarrow> 'b tree_state" where
  "rejectCommand t = t\<lparr>tree_hasLastResult := True, tree_lastAccepted := False, tree_rejected := tree_rejected t + 1\<rparr>"

definition reserveEnergy :: "tree_command \<Rightarrow> 'b tree_state \<Rightarrow> 'b tree_state" where
  "reserveEnergy cmd t =
     (let energyCost = getEnergyCostForCommand cmd
      in if energyCost > 0
         then t\<lparr>tree_energy := max 0 (tree_energy t - energyCost), tree_reserved := energyCost,
                tree_hasReserved := True, tree_reservedType := getCommandType cmd\<rparr>
         else t\<lparr>tree_reserved := 0, tree_hasReserved := False, tree_reservedType := Cmd_Wait\<rparr>)"

fun executionTime :: "tree_command \<Rightarrow> real" where
  "executionTime (GrowWoodCommand _ s) = s"
| "executionTime (GrowLeafCommand _ s) = s"
| "executionTime (GrowRootCommand _ s) = s"
| "executionTime (ProduceSeedCommand _ s) = s"
| "executionTime WaitCommand = 0"
| "executionTime CancelCommand = 0"

definition beginCommand :: "tree_command \<Rightarrow> pos \<Rightarrow> 'b tree_state \<Rightarrow> 'b tree_state" where
  "beginCommand cmd seed t =
     (reserveEnergy cmd t)\<lparr>tree_command := Some cmd, tree_commandSeed := Some seed,
        tree_timeRemaining := executionTime cmd, tree_totalTime := executionTime cmd\<rparr>"

definition rejectWith :: "nat \<Rightarrow> tree_command \<Rightarrow> pos \<Rightarrow> command_result \<Rightarrow> 'b world_state \<Rightarrow> 'b world_state" where
  "rejectWith oid cmd seed r w =
     onTree oid rejectCommand (onBody oid (recordCommandOutcomeSignature (treeCommandOutcomeSignature cmd seed r)) w)"

definition startCommand :: "nat \<Rightarrow> tree_command \<Rightarrow> pos \<Rightarrow> 'b world_state \<Rightarrow> 'b world_state option" where
  "startCommand oid cmd seed w = do {
     (_, t) \<leftarrow> theTree oid w;
     let validation = treeCommandValidate oid t w cmd True;
     let energyCost = getEnergyCostForCommand cmd;
     Some (if tree_command t \<noteq> None then w
           else if \<not> succeeded validation then rejectWith oid cmd seed (xr_result validation) w
           else if energyCost > 0 \<and> tree_energy t < energyCost
           then rejectWith oid cmd seed INSUFFICIENT_ENERGY w
           else onTree oid (beginCommand cmd seed) w)
   }"

text \<open>The visitor of \<open>processBrainDecision\<close>.\<close>

definition handleCommand :: "nat \<Rightarrow> tree_command \<Rightarrow> pos \<Rightarrow> 'b world_state \<Rightarrow> 'b world_state option" where
  "handleCommand oid cmd seed w =
     (case cmd of
        WaitCommand \<Rightarrow> Some w
      | CancelCommand \<Rightarrow> Some (onTree oid cancelCommand w)
      | _ \<Rightarrow> startCommand oid cmd seed w)"

section \<open>Frames\<close>

lemma onBody_frame [simp]:
  "wd_width (onBody oid f w) = wd_width w" "wd_height (onBody oid f w) = wd_height w"
  "inBounds (onBody oid f w) = inBounds w" "cellAt (onBody oid f w) = cellAt w" "ownerAt (onBody oid f w) = ownerAt w"
  "wd_cells (onBody oid f w) = wd_cells w" "om_next (wd_manager (onBody oid f w)) = om_next (wd_manager w)"
  by (simp_all add: onBody_def inBounds_def cellAt_def wd_index_def ownerAt_def updateOrganism_def om_at_def
      om_inside_def om_index_def fun_eq_iff)

lemma onTree_frame [simp]:
  "wd_width (onTree oid f w) = wd_width w" "wd_height (onTree oid f w) = wd_height w"
  "inBounds (onTree oid f w) = inBounds w" "cellAt (onTree oid f w) = cellAt w" "ownerAt (onTree oid f w) = ownerAt w"
  "wd_cells (onTree oid f w) = wd_cells w" "om_next (wd_manager (onTree oid f w)) = om_next (wd_manager w)"
  by (simp_all add: onTree_def)

lemma onBody_organism:
  "getOrganism (wd_manager (onBody oid f w)) i =
    (if i = oid then map_option f (getOrganism (wd_manager w) i) else getOrganism (wd_manager w) i)"
  by (simp add: onBody_def updateOrganism_def getOrganism_def)

lemma theTree_iff: "theTree oid w = Some (og, t) \<longleftrightarrow> getOrganism (wd_manager w) oid = Some og \<and> og_tree og = Some t"
  by (auto simp: theTree_def split: option.splits)

lemma updateTree_frame [simp]:
  "og_tree (updateTree f og) = map_option f (og_tree og)" "og_cells (updateTree f og) = og_cells og"
  "og_shape (updateTree f og) = og_shape og" "og_rigid (updateTree f og) = og_rigid og"
  "og_position (updateTree f og) = og_position og" "og_type (updateTree f og) = og_type og"
  "getAnchorCell (updateTree f og) = getAnchorCell og" "og_age (updateTree f og) = og_age og"
  by (simp_all add: updateTree_def getAnchorCell_def)

lemma recordOutcome_frame [simp]:
  "og_tree (recordCommandOutcomeSignature s og) = og_tree og" "og_cells (recordCommandOutcomeSignature s og) = og_cells og"
  "og_shape (recordCommandOutcomeSignature s og) = og_shape og" "og_rigid (recordCommandOutcomeSignature s og) = og_rigid og"
  "og_tree (recordCommandSignature s og) = og_tree og" "og_cells (recordCommandSignature s og) = og_cells og"
  "og_shape (recordCommandSignature s og) = og_shape og" "og_rigid (recordCommandSignature s og) = og_rigid og"
  by (simp_all add: recordCommandOutcomeSignature_def recordCommandSignature_def)

lemma theTree_onTree [simp]:
  "theTree oid (onTree oid f w) = map_option (\<lambda>(og, t). (updateTree f og, f t)) (theTree oid w)"
proof (cases "getOrganism (wd_manager w) oid")
  case (Some og)
  then show ?thesis by (cases "og_tree og") (simp_all add: theTree_def onTree_def onBody_organism)
qed (simp add: theTree_def onTree_def onBody_organism)

lemma theTree_onBody:
  assumes "\<And>og. og_tree (f og) = og_tree og"
  shows "theTree oid (onBody oid f w) = map_option (\<lambda>(og, t). (f og, t)) (theTree oid w)"
  using assms by (auto simp: theTree_def onBody_organism option.map_comp comp_def split: option.splits)

lemma world_ok_onBody:
  assumes "world_ok w" "\<And>og. og_cells (f og) = og_cells og"
  shows "world_ok (onBody oid f w)"
  using assms tracked_body [of "wd_manager w" f oid] unfolding onBody_def
  by (intro world_ok_manager) (simp_all add: world_ok_def updateOrganism_def)

lemma world_ok_onTree [simp]: "world_ok w \<Longrightarrow> world_ok (onTree oid f w)"
  by (simp add: onTree_def world_ok_onBody)

section \<open>Validation and execution\<close>

text \<open>Where the commands put their cell, and of which material.\<close>

fun commandTarget :: "tree_command \<Rightarrow> pos option" where
  "commandTarget (GrowWoodCommand p _) = Some p"
| "commandTarget (GrowLeafCommand p _) = Some p"
| "commandTarget (GrowRootCommand p _) = Some p"
| "commandTarget (ProduceSeedCommand p _) = Some p"
| "commandTarget WaitCommand = None"
| "commandTarget CancelCommand = None"

fun growthMaterial :: "tree_command \<Rightarrow> material option" where
  "growthMaterial (GrowWoodCommand _ _) = Some Mat_Wood"
| "growthMaterial (GrowLeafCommand _ _) = Some Mat_Leaf"
| "growthMaterial (GrowRootCommand _ _) = Some Mat_Root"
| "growthMaterial _ = None"

lemma validate_target:
  assumes "succeeded (treeCommandValidate oid t w cmd b)" "commandTarget cmd = Some p"
  shows "inBounds w p" "\<exists>d \<in> set kCardinalDirections. inBounds w (shift d p) \<and> ownerAt w (shift d p) = oid"
  using assms
  by (cases cmd; auto simp: validateGrowth_def validateSeed_def hasOwnedNeighborWithMaterial_def list_ex_iff Let_def
      split: if_splits)+

lemma validate_energy:
  "succeeded (treeCommandValidate oid t w cmd True) \<longleftrightarrow>
    succeeded (treeCommandValidate oid t w cmd False) \<and> (getEnergyCostForCommand cmd > 0 \<longrightarrow> getEnergyCostForCommand cmd \<le> tree_energy t)"
  by (cases cmd) (auto simp: validateGrowth_def validateSeed_def ENERGY_COST_WOOD_def ENERGY_COST_LEAF_def
      ENERGY_COST_ROOT_def ENERGY_COST_PRODUCE_SEED_def)

lemma validate_without_energy: "xr_result (treeCommandValidate oid t w cmd False) \<noteq> INSUFFICIENT_ENERGY"
  by (cases cmd) (simp_all add: validateGrowth_def validateSeed_def)

lemma validate_seed_free:
  assumes "succeeded (treeCommandValidate oid t w (ProduceSeedCommand p s) b)"
  shows "ownerAt w p \<in> {INVALID_ORGANISM_ID, oid}" "material_type (cellAt w p) = Mat_Air"
  using assms by (auto simp: validateSeed_def split: if_splits)

lemma addCell_local [simp]:
  "og_shape (addCellToLocalShape p m r og) = og_shape og @ [\<lparr>lc_pos = p, lc_material = m, lc_fill = r\<rparr>]"
  "og_rigid (addCellToLocalShape p m r og) = map_option (rb_addCell \<lparr>lc_pos = p, lc_material = m, lc_fill = r\<rparr>) (og_rigid og)"
  "og_cells (addCellToLocalShape p m r og) = og_cells og" "og_tree (addCellToLocalShape p m r og) = og_tree og"
  "og_position (addCellToLocalShape p m r og) = og_position og" "og_type (addCellToLocalShape p m r og) = og_type og"
  by (simp_all add: addCellToLocalShape_def recomputeCenterOfMass_def recomputeMass_def Let_def)

lemma growCell_tree:
  assumes "theTree oid w = Some (og, t)"
  shows "theTree oid (growCell oid p m w) =
    Some (addCellToLocalShape (fst p - fst (getAnchorCell og), snd p - snd (getAnchorCell og)) m 1 og, t)"
  using theTree_onBody [of "\<lambda>og. let anchor = getAnchorCell og
      in addCellToLocalShape (fst p - fst anchor, snd p - snd anchor) m 1 og" oid w] assms
  by (simp add: growCell_def Let_def)

text \<open>Planting a tree leaves every registered organism as it is and adds one.\<close>

lemma createTree_effect:
  assumes ok: "world_ok w" and p: "inBounds w p" and c: "createTree ruleBased p None sp w = (n, w1)"
  shows "n = om_next (wd_manager w)" "world_ok w1" "ownerAt w1 = (ownerAt w)(p := n)"
    "i \<noteq> n \<Longrightarrow> getOrganism (wd_manager w1) i = getOrganism (wd_manager w) i"
    "getOrganism (wd_manager w) n = None"
    "\<exists>og t. theTree n w1 = Some (og, t) \<and> getAnchorCell og = p \<and> tree_energy t = sp_startingEnergy sp \<and>
      tree_seedParent t = sp_seedParent sp \<and> tree_command t = None \<and> (tree_brain t = None \<longleftrightarrow> sp_passive sp)"
proof -
  have t: "tracked (wd_manager w)" using ok by (simp add: world_ok_def)
  note seed = addSeed_frame [OF ok, of Mat_Seed p 1, simplified]
  let ?b = "if sp_passive sp then None else Some ruleBased"
  define tree where "tree = updateTree (\<lambda>t. t\<lparr>tree_energy := sp_startingEnergy sp, tree_seedParent := sp_seedParent sp\<rparr>)
      (setAnchorCell p (newTree ?b))"
  let ?tree = "tree\<lparr>og_cells := insertCell p (og_cells tree)\<rparr>"
  have n: "n = om_next (wd_manager w)" and w1: "w1 = (addMaterialAtCell p Mat_Seed 1 w)
      \<lparr>wd_manager := registerOrganism ?tree (setOrganismAt p n (wd_manager w))\<rparr>"
    using c unfolding tree_def by (auto simp: createTree_def Let_def seed(2))
  show "n = om_next (wd_manager w)" by (rule n)
  have new: "getOrganism (wd_manager w1) = (om_organisms (wd_manager w))(n \<mapsto> ?tree)"
    unfolding w1 n by (simp add: registerOrganism_def getOrganism_def fun_eq_iff setOrganismAt_def)
  have "og_cells ?tree = [p]" by (simp add: tree_def)
  then have "tracked (registerOrganism ?tree (setOrganismAt p n (wd_manager w)))"
    using tracked_plant [OF t, of p ?tree] by (simp add: n)
  then show "world_ok w1"
    using seed ok unfolding w1 by (intro world_ok_manager) (simp_all add: world_ok_def setOrganismAt_def)
  have "om_inside (wd_manager w) p" using p ok by (simp add: inBounds_inside)
  then show "ownerAt w1 = (ownerAt w)(p := n)"
    using plant_owner [OF t, of ?tree p] unfolding w1 n by (auto simp: fun_eq_iff ownerAt_def)
  show "getOrganism (wd_manager w1) i = getOrganism (wd_manager w) i" if "i \<noteq> n"
    using that unfolding new by (simp add: getOrganism_def)
  show "getOrganism (wd_manager w) n = None"
    using t unfolding tracked_def n getOrganism_def
    by (cases "om_organisms (wd_manager w) (om_next (wd_manager w))") auto
  have "og_tree tree = Some ((newTreeState ?b)\<lparr>tree_energy := sp_startingEnergy sp, tree_seedParent := sp_seedParent sp\<rparr>)"
    "og_type tree = Org_Tree" "og_position tree = \<lparr>vx = real_of_int (fst p) + 1 / 2, vy = real_of_int (snd p) + 1 / 2\<rparr>"
    by (simp_all add: tree_def newTree_def setAnchorCell_def newBody_def recomputeCenterOfMass_def recomputeMass_def Let_def)
  moreover have "\<lfloor>real_of_int k + 1 / 2\<rfloor> = k" for k by linarith
  ultimately show "\<exists>og t. theTree n w1 = Some (og, t) \<and> getAnchorCell og = p \<and> tree_energy t = sp_startingEnergy sp \<and>
      tree_seedParent t = sp_seedParent sp \<and> tree_command t = None \<and> (tree_brain t = None \<longleftrightarrow> sp_passive sp)"
    by (auto simp: theTree_def new newTreeState_def getAnchorCell_def cellOf_def)
qed

lemma executeValid_tree:
  assumes ok: "world_ok w" and tr: "theTree oid w = Some (og, t)"
    and v: "succeeded (treeCommandValidate oid t w cmd b)" and e: "executeValid ruleBased oid cmd w = (r, w1)"
  shows "succeeded r" "world_ok w1"
    "\<exists>og1 t1. theTree oid w1 = Some (og1, t1) \<and>
      t1 = (if getCommandType cmd = Cmd_ProduceSeed then incrementSeedsProduced t else t)"
proof -
  show "succeeded r" using e by (cases cmd) auto
  show "world_ok w1"
  proof (cases cmd)
    case (ProduceSeedCommand p s)
    obtain n w2 where c: "createTree ruleBased p None \<lparr>sp_startingEnergy = 0, sp_passive = True, sp_seedParent = oid\<rparr> w = (n, w2)"
      by fastforce
    have "inBounds w p" using validate_target(1) [OF v] ProduceSeedCommand by simp
    from createTree_effect(2) [OF ok this c] show ?thesis using e c ProduceSeedCommand by auto
  qed (use e ok in \<open>auto simp: growCell_def intro!: world_ok_onBody simp: Let_def\<close>)
  show "\<exists>og1 t1. theTree oid w1 = Some (og1, t1) \<and>
      t1 = (if getCommandType cmd = Cmd_ProduceSeed then incrementSeedsProduced t else t)"
  proof (cases cmd)
    case (ProduceSeedCommand p s)
    obtain n w2 where c: "createTree ruleBased p None \<lparr>sp_startingEnergy = 0, sp_passive = True, sp_seedParent = oid\<rparr> w = (n, w2)"
      by fastforce
    have "inBounds w p" using validate_target(1) [OF v] ProduceSeedCommand by simp
    note ct = createTree_effect [OF ok this c]
    have "oid \<noteq> n" using ct(5) tr by (auto simp: theTree_def)
    then have "theTree oid w2 = Some (og, t)" using ct(4) [of oid] tr by (simp add: theTree_def)
    then show ?thesis using e c ProduceSeedCommand by auto
  qed (use e tr growCell_tree [OF tr] in auto)
qed

text \<open>
  Carrying out a command of a tree. A refused command changes nothing. An accepted growth command adds
  one cell of its material to the tree's shape, which lies at the target, next to a cell the tree owns, and
  changes neither cells nor owners; an accepted seed command plants a passive tree without energy on the
  target, which is free or the tree's own, and leaves all other owners.
\<close>

theorem execute_effect:
  assumes "world_ok w" "theTree oid w = Some (og, t)" "og_type og = Org_Tree"
  shows "\<exists>r w1. execute ruleBased oid cmd w = Some (r, w1) \<and> world_ok w1 \<and>
    (\<not> succeeded r \<longrightarrow> w1 = w) \<and>
    (\<forall>m p. succeeded r \<longrightarrow> growthMaterial cmd = Some m \<longrightarrow> commandTarget cmd = Some p \<longrightarrow>
      (\<exists>og1 c. theTree oid w1 = Some (og1, t) \<and> og_shape og1 = og_shape og @ [c] \<and> lc_material c = m \<and>
         cellOf (worldPos (og_position og) c) = p \<and> ownerAt w1 = ownerAt w \<and> cellAt w1 = cellAt w \<and>
         (\<exists>d \<in> set kCardinalDirections. ownerAt w (shift d p) = oid))) \<and>
    (\<forall>p s. succeeded r \<longrightarrow> cmd = ProduceSeedCommand p s \<longrightarrow>
      ownerAt w p \<in> {INVALID_ORGANISM_ID, oid} \<and>
      ownerAt w1 = (ownerAt w)(p := om_next (wd_manager w)) \<and>
      (\<exists>seed ts. theTree (om_next (wd_manager w)) w1 = Some (seed, ts) \<and> getAnchorCell seed = p \<and>
         tree_energy ts = 0 \<and> tree_brain ts = None \<and> tree_seedParent ts = oid))"
proof -
  let ?v = "treeCommandValidate oid t w cmd False"
  show ?thesis
  proof (cases "succeeded ?v \<and> (getEnergyCostForCommand cmd > 0 \<longrightarrow> isEnergyReservedForCommand t cmd (getEnergyCostForCommand cmd))")
    case False
    obtain r where "execute ruleBased oid cmd w = Some (r, w)" "\<not> succeeded r"
      using False assms(2) unfolding execute_def by (cases "succeeded ?v") (auto simp: Let_def)
    then show ?thesis using assms(1) by blast
  next
    case True
    obtain r w1 where ev: "executeValid ruleBased oid cmd w = (r, w1)" by fastforce
    have v: "succeeded ?v" using True by simp
    have ex: "execute ruleBased oid cmd w = Some (r, w1)"
      using True assms(2) ev unfolding execute_def by (auto simp: Let_def)
    note eff = executeValid_tree [OF assms(1,2) v ev]
    have growth: "\<exists>og1 c. theTree oid w1 = Some (og1, t) \<and> og_shape og1 = og_shape og @ [c] \<and> lc_material c = m \<and>
         cellOf (worldPos (og_position og) c) = p \<and> ownerAt w1 = ownerAt w \<and> cellAt w1 = cellAt w \<and>
         (\<exists>d \<in> set kCardinalDirections. ownerAt w (shift d p) = oid)"
      if "growthMaterial cmd = Some m" "commandTarget cmd = Some p" for m p
    proof -
      have w1: "w1 = growCell oid p m w" using that ev by (cases cmd) auto
      have "cellOf (worldPos (og_position og)
          \<lparr>lc_pos = (fst p - fst (getAnchorCell og), snd p - snd (getAnchorCell og)), lc_material = m, lc_fill = 1\<rparr>) = p"
        using assms(3) by (simp add: cellOf_worldPos getAnchorCell_def shift_def)
      then show ?thesis
        using growCell_tree [OF assms(2), of p m] validate_target(2) [OF v that(2)] unfolding w1
        by (auto simp: growCell_def)
    qed
    have seed: "ownerAt w p \<in> {INVALID_ORGANISM_ID, oid} \<and> ownerAt w1 = (ownerAt w)(p := om_next (wd_manager w)) \<and>
      (\<exists>seed ts. theTree (om_next (wd_manager w)) w1 = Some (seed, ts) \<and> getAnchorCell seed = p \<and>
         tree_energy ts = 0 \<and> tree_brain ts = None \<and> tree_seedParent ts = oid)"
      if cmd: "cmd = ProduceSeedCommand p s" for p s
    proof -
      obtain n w2 where c: "createTree ruleBased p None \<lparr>sp_startingEnergy = 0, sp_passive = True, sp_seedParent = oid\<rparr> w = (n, w2)"
        by fastforce
      have "inBounds w p" using validate_target(1) [OF v] cmd by simp
      note ct = createTree_effect [OF assms(1) this c]
      have w1: "w1 = onTree oid incrementSeedsProduced w2" using ev c cmd by simp
      have "oid \<noteq> n" using ct(5) assms(2) by (auto simp: theTree_def)
      then have "theTree n w1 = theTree n w2" unfolding w1 by (simp add: theTree_def onTree_def onBody_organism)
      then show ?thesis using ct validate_seed_free(1) [OF v [unfolded cmd]] unfolding w1 by auto
    qed
    show ?thesis using ex eff(2) growth seed eff(1) by blast
  qed
qed

section \<open>Energy\<close>

text \<open>The reserve belongs to the command in progress.\<close>

definition reserved_ok :: "'b tree_state \<Rightarrow> bool" where
  "reserved_ok t =
     (case tree_command t of
        None \<Rightarrow> \<not> tree_hasReserved t \<and> tree_reserved t = 0
      | Some cmd \<Rightarrow> getEnergyCostForCommand cmd > 0 \<and> tree_hasReserved t \<and>
          tree_reservedType t = getCommandType cmd \<and> tree_reserved t = getEnergyCostForCommand cmd)"

definition energy_ok :: "'b tree_state \<Rightarrow> bool" where
  "energy_ok t = (0 \<le> tree_energy t \<and> tree_energy t \<le> kEnergyCap)"

lemma reserved_nonneg: "reserved_ok t \<Longrightarrow> 0 \<le> tree_reserved t"
  by (auto simp: reserved_ok_def split: option.splits)

lemma isEnergyReserved: "reserved_ok t \<Longrightarrow> tree_command t = Some c \<Longrightarrow> isEnergyReservedForCommand t c (getEnergyCostForCommand c)"
  by (simp add: reserved_ok_def isEnergyReservedForCommand_def)

lemma cancel_energy:
  assumes "reserved_ok t" "energy_ok t"
  shows "reserved_ok (cancelCommand t)" "energy_ok (cancelCommand t)" "tree_command (cancelCommand t) = None"
    "tree_energy (cancelCommand t) = min (tree_energy t + tree_reserved t) kEnergyCap"
  using assms by (cases "tree_command t"; auto simp: cancelCommand_def reserved_ok_def energy_ok_def Let_def)+

lemma settle_energy:
  assumes "reserved_ok t" "energy_ok t"
  shows "energy_ok (settleCommand a t)" "\<not> tree_hasReserved (settleCommand a t)" "tree_reserved (settleCommand a t) = 0"
    "tree_energy (settleCommand a t) = (if a then tree_energy t else min (tree_energy t + tree_reserved t) kEnergyCap)"
  using assms reserved_nonneg [OF assms(1)]
  by (cases "tree_command t"; auto simp: settleCommand_def reserved_ok_def energy_ok_def)+

lemma begin_energy:
  assumes "tree_command t = None" "reserved_ok t" "energy_ok t" "0 < getEnergyCostForCommand cmd" "getEnergyCostForCommand cmd \<le> tree_energy t"
  shows "reserved_ok (beginCommand cmd seed t)" "energy_ok (beginCommand cmd seed t)" "tree_command (beginCommand cmd seed t) = Some cmd"
    "tree_energy (beginCommand cmd seed t) + tree_reserved (beginCommand cmd seed t) = tree_energy t"
  using assms by (auto simp: beginCommand_def reserveEnergy_def reserved_ok_def energy_ok_def Let_def)

lemma rejectWith_tree:
  assumes "theTree oid w = Some (og, t)"
  shows "\<exists>og1. theTree oid (rejectWith oid cmd seed r w) = Some (og1, rejectCommand t)"
  using assms theTree_onBody [of "recordCommandOutcomeSignature (treeCommandOutcomeSignature cmd seed r)" oid w]
  by (simp add: rejectWith_def)

lemma rejectCommand_frame [simp]:
  "tree_command (rejectCommand t) = tree_command t" "tree_energy (rejectCommand t) = tree_energy t"
  "tree_reserved (rejectCommand t) = tree_reserved t" "reserved_ok (rejectCommand t) = reserved_ok t"
  "energy_ok (rejectCommand t) = energy_ok t" "tree_water (rejectCommand t) = tree_water t"
  by (simp_all add: rejectCommand_def reserved_ok_def energy_ok_def split: option.split)

lemma action_cost: "cmd \<noteq> WaitCommand \<Longrightarrow> cmd \<noteq> CancelCommand \<Longrightarrow> 0 < getEnergyCostForCommand cmd"
  by (cases cmd) (simp_all add: ENERGY_COST_WOOD_def ENERGY_COST_LEAF_def ENERGY_COST_ROOT_def ENERGY_COST_PRODUCE_SEED_def)

text \<open>An idle tree starts an action exactly when validation accepts it.\<close>

lemma startCommand_effect:
  assumes tr: "theTree oid w = Some (og, t)" and c: "0 < getEnergyCostForCommand cmd"
  shows "startCommand oid cmd seed w = Some
    (if tree_command t \<noteq> None then w
     else if succeeded (treeCommandValidate oid t w cmd True) then onTree oid (beginCommand cmd seed) w
     else rejectWith oid cmd seed (xr_result (treeCommandValidate oid t w cmd True)) w)"
  using tr c validate_energy [of oid t w cmd] by (auto simp: startCommand_def Let_def)

lemma handleCommand_tree:
  assumes tr: "theTree oid w = Some (og, t)" and r: "reserved_ok t" and e: "energy_ok t"
  shows "\<exists>w1 og1 t1. handleCommand oid cmd seed w = Some w1 \<and> theTree oid w1 = Some (og1, t1) \<and>
      reserved_ok t1 \<and> energy_ok t1 \<and>
      (if cmd = CancelCommand
       then tree_command t1 = None \<and> tree_energy t1 = min (tree_energy t + tree_reserved t) kEnergyCap
       else tree_energy t1 + tree_reserved t1 = tree_energy t + tree_reserved t)"
proof (cases "cmd = WaitCommand \<or> cmd = CancelCommand")
  case True
  then show ?thesis using tr r e cancel_energy [OF r e] by (auto simp: handleCommand_def)
next
  case False
  then have c: "0 < getEnergyCostForCommand cmd" using action_cost by blast
  have h: "handleCommand oid cmd seed w = startCommand oid cmd seed w"
    using False by (cases cmd) (auto simp: handleCommand_def)
  show ?thesis
  proof (cases "tree_command t = None \<and> succeeded (treeCommandValidate oid t w cmd True)")
    case True
    then have "getEnergyCostForCommand cmd \<le> tree_energy t" using validate_energy [of oid t w cmd] c by blast
    note b = begin_energy [OF _ r e c this]
    show ?thesis
      using True False b tr r unfolding h startCommand_effect [OF tr c] by (auto simp: reserved_ok_def)
  next
    case no: False
    obtain og1 where og1: "theTree oid (rejectWith oid cmd seed (xr_result (treeCommandValidate oid t w cmd True)) w) = Some (og1, rejectCommand t)"
      using rejectWith_tree [OF tr] by blast
    show ?thesis
    proof (cases "tree_command t = None")
      case True
      then show ?thesis using no False og1 r e unfolding h startCommand_effect [OF tr c] by auto
    next
      case busy: False
      then show ?thesis using False tr r e unfolding h startCommand_effect [OF tr c] by auto
    qed
  qed
qed

lemma executeCommand_tree:
  assumes ok: "world_ok w" and tr: "theTree oid w = Some (og, t)" and c: "tree_command t = Some c"
    and r: "reserved_ok t" and e: "energy_ok t"
  obtains x w1 w2 og2 t2 where "execute ruleBased oid c w = Some (x, w1)" "xr_result x \<noteq> INSUFFICIENT_ENERGY"
    "executeCommand ruleBased oid w = Some w2" "world_ok w2" "theTree oid w2 = Some (og2, t2)"
    "\<not> tree_hasReserved t2" "tree_reserved t2 = 0" "energy_ok t2"
    "tree_energy t2 = (if succeeded x then tree_energy t else min (tree_energy t + tree_reserved t) kEnergyCap)"
    "tree_water t2 = tree_water t"
proof -
  let ?v = "treeCommandValidate oid t w c False"
  have "\<exists>x w1 og1 t1. execute ruleBased oid c w = Some (x, w1) \<and> xr_result x \<noteq> INSUFFICIENT_ENERGY \<and> world_ok w1 \<and>
    theTree oid w1 = Some (og1, t1) \<and> t1 \<in> {t, incrementSeedsProduced t}"
  proof (cases "succeeded ?v")
    case True
    obtain x w1 where ev: "executeValid ruleBased oid c w = (x, w1)" by fastforce
    have "execute ruleBased oid c w = Some (x, w1)"
      using True tr ev isEnergyReserved [OF r c] by (simp add: execute_def Let_def)
    moreover have "xr_result x \<noteq> INSUFFICIENT_ENERGY"
      using executeValid_tree(1) [OF ok tr True ev] by (simp add: succeeded_def)
    ultimately show ?thesis using executeValid_tree(2,3) [OF ok tr True ev] by auto
  next
    case False
    then have "execute ruleBased oid c w = Some (?v, w)" using tr by (simp add: execute_def Let_def)
    then show ?thesis using validate_without_energy tr ok by blast
  qed
  then obtain x w1 og1 t1 where x: "execute ruleBased oid c w = Some (x, w1)" "xr_result x \<noteq> INSUFFICIENT_ENERGY" "world_ok w1"
    "theTree oid w1 = Some (og1, t1)" "t1 \<in> {t, incrementSeedsProduced t}" by blast
  have t1: "reserved_ok t1" "energy_ok t1" "tree_energy t1 = tree_energy t" "tree_reserved t1 = tree_reserved t" "tree_water t1 = tree_water t"
    using x(5) r e c by (auto simp: incrementSeedsProduced_def reserved_ok_def energy_ok_def)
  let ?seed = "case tree_commandSeed t of Some p \<Rightarrow> p | None \<Rightarrow> getAnchorCell og"
  let ?w2 = "onTree oid (settleCommand (succeeded x))
       (onBody oid (recordCommandOutcomeSignature (treeCommandOutcomeSignature c ?seed (xr_result x))) w1)"
  have w2: "executeCommand ruleBased oid w = Some ?w2"
    using tr c x(1) by (simp add: executeCommand_def Let_def)
  have "\<exists>og2. theTree oid ?w2 = Some (og2, settleCommand (succeeded x) t1)"
    using x(4) theTree_onBody [of "recordCommandOutcomeSignature (treeCommandOutcomeSignature c ?seed (xr_result x))" oid w1]
    by simp
  then obtain og2 where "theTree oid ?w2 = Some (og2, settleCommand (succeeded x) t1)" by blast
  moreover have "world_ok ?w2" using x(3) by (simp add: world_ok_onBody)
  moreover have "tree_water (settleCommand (succeeded x) t1) = tree_water t" using t1(5) by (simp add: settleCommand_def)
  ultimately show ?thesis using that x(1,2) w2 settle_energy [OF t1(1,2)] t1(3,4) by metis
qed

text \<open>
  C39: The energy of a tree's command. Whatever the brain decides, the tree's energy stays between zero and
  the cap and its reserve stays exactly the cost of the action in progress; starting an action moves its
  cost into the reserve and loses nothing, cancelling gives it back up to the cap. When the time of the
  action has come it is never refused for want of energy: it either spends the reserve, or fails for
  another reason and gives it back.
\<close>

theorem command_energy:
  assumes "world_ok w" "theTree oid w = Some (og, t)" "reserved_ok t" "energy_ok t"
  shows "(\<exists>w1 og1 t1. handleCommand oid cmd seed w = Some w1 \<and> theTree oid w1 = Some (og1, t1) \<and>
      reserved_ok t1 \<and> energy_ok t1 \<and>
      (if cmd = CancelCommand
       then tree_command t1 = None \<and> tree_energy t1 = min (tree_energy t + tree_reserved t) kEnergyCap
       else tree_energy t1 + tree_reserved t1 = tree_energy t + tree_reserved t)) \<and>
    (\<forall>c. tree_command t = Some c \<longrightarrow>
      (\<exists>x w1 w2 og2 t2. execute ruleBased oid c w = Some (x, w1) \<and> xr_result x \<noteq> INSUFFICIENT_ENERGY \<and>
        executeCommand ruleBased oid w = Some w2 \<and> theTree oid w2 = Some (og2, t2) \<and> tree_reserved t2 = 0 \<and>
        tree_energy t2 = (if succeeded x then tree_energy t
                          else min (tree_energy t + getEnergyCostForCommand c) kEnergyCap)))"
proof (intro conjI allI impI)
  fix c assume c: "tree_command t = Some c"
  then have cost: "tree_reserved t = getEnergyCostForCommand c" using assms(3) by (simp add: reserved_ok_def)
  obtain x w1 w2 og2 t2 where "execute ruleBased oid c w = Some (x, w1)" "xr_result x \<noteq> INSUFFICIENT_ENERGY"
    "executeCommand ruleBased oid w = Some w2" "theTree oid w2 = Some (og2, t2)" "tree_reserved t2 = 0"
    "tree_energy t2 = (if succeeded x then tree_energy t else min (tree_energy t + tree_reserved t) kEnergyCap)"
    by (rule executeCommand_tree [OF assms(1,2) c assms(3,4), of ruleBased]) blast
  then show "\<exists>x w1 w2 og2 t2. execute ruleBased oid c w = Some (x, w1) \<and> xr_result x \<noteq> INSUFFICIENT_ENERGY \<and>
      executeCommand ruleBased oid w = Some w2 \<and> theTree oid w2 = Some (og2, t2) \<and> tree_reserved t2 = 0 \<and>
      tree_energy t2 = (if succeeded x then tree_energy t else min (tree_energy t + getEnergyCostForCommand c) kEnergyCap)"
    unfolding cost by blast
qed (rule handleCommand_tree [OF assms(2-4)])

text \<open>A tree planted on an empty grid, for the witnesses; its state of mind is the unit.\<close>

definition empty_world :: "unit world_state" where
  "empty_world = \<lparr>wd_width = 3, wd_height = 2, wd_cells = replicate 6 new_cell, wd_timestep = 0,
     wd_manager = om_resizeGrid [] 3 2 newManager, wd_tracker = newTracker, wd_cacheDirty = False, wd_waterMode = LegacyCell,
     wd_water = \<lparr>ws_mode = LegacyCell, ws_width = 0, ws_height = 0, ws_sim = None\<rparr>, wd_gravity = 10,
     wd_airResistance = 0, wd_light = \<lparr>lb_width = 0, lb_height = 0, lb_data = []\<rparr>\<rparr>"

definition tree_world :: "unit world_state" where
  "tree_world = snd (createTree () (1, 0) None default_spawn empty_world)"

lemma empty_world_ok: "world_ok empty_world"
proof -
  have "om_reach (om_resizeGrid [] 3 2 newManager :: unit organism_manager)"
    by (rule reach_resize [OF reach_newManager]) simp_all
  then have "tracked (wd_manager empty_world)" using reach_tracked by (simp add: empty_world_def)
  moreover have "om_width (wd_manager empty_world) = 3" "om_height (wd_manager empty_world) = 2" by code_simp+
  ultimately show ?thesis by (simp add: world_ok_def) (simp add: empty_world_def)
qed

lemma tree_world_ok: "world_ok tree_world"
proof -
  obtain n w where c: "createTree () (1, 0) None default_spawn empty_world = (n, w)" by fastforce
  have "inBounds empty_world (1, 0)" by code_simp
  from createTree_effect(2) [OF empty_world_ok this c] show ?thesis by (simp add: tree_world_def c)
qed

lemma tree_world_tree:
  obtains og t where "theTree 1 tree_world = Some (og, t)" "og_type og = Org_Tree" "tree_energy t = 50"
    "tree_command t = None" "\<not> tree_hasReserved t" "tree_reserved t = 0" "tree_water t = 0"
proof -
  have "map_option (\<lambda>(og, t). (og_type og, tree_energy t, tree_command t, tree_hasReserved t, tree_reserved t, tree_water t))
      (theTree 1 tree_world) = Some (Org_Tree, 50, None, False, 0, 0)" by code_simp
  then show ?thesis using that by auto
qed

definition planned_world :: "unit world_state" where
  "planned_world = onTree 1 (beginCommand (GrowWoodCommand (1, 1) 3) (1, 0)) tree_world"

lemma planned_tree:
  obtains og t where "theTree 1 planned_world = Some (og, t)" "og_type og = Org_Tree" "reserved_ok t" "energy_ok t"
    "tree_command t = Some (GrowWoodCommand (1, 1) 3)" "tree_energy t = 40"
proof -
  obtain og t where t: "theTree 1 tree_world = Some (og, t)" "og_type og = Org_Tree" "tree_energy t = 50"
    "tree_command t = None" "\<not> tree_hasReserved t" "tree_reserved t = 0" by (rule tree_world_tree) blast
  then have "reserved_ok t" "energy_ok t" by (simp_all add: reserved_ok_def energy_ok_def kEnergyCap_def)
  then have "reserved_ok (beginCommand (GrowWoodCommand (1, 1) 3) (1, 0) t)"
    "energy_ok (beginCommand (GrowWoodCommand (1, 1) 3) (1, 0) t)"
    using begin_energy [of t "GrowWoodCommand (1, 1) 3"] t by (simp_all add: ENERGY_COST_WOOD_def)
  moreover have "tree_energy (beginCommand (GrowWoodCommand (1, 1) 3) (1, 0) t) = 40"
    using t by (simp add: beginCommand_def reserveEnergy_def ENERGY_COST_WOOD_def)
  ultimately show ?thesis using that t by (simp add: planned_world_def beginCommand_def)
qed

lemma planned_world_ok: "world_ok planned_world"
  using tree_world_ok by (simp add: planned_world_def)

theorem execute_effect_witness:
  "\<exists>r w1 og1. execute () 1 (GrowWoodCommand (1, 1) 3) planned_world = Some (r, w1) \<and> succeeded r \<and> world_ok w1 \<and>
    map_option (\<lambda>(og, t). map lc_material (og_shape og)) (theTree 1 w1) = Some [Mat_Seed, Mat_Wood]"
proof -
  obtain og t where tr: "theTree 1 planned_world = Some (og, t)" "og_type og = Org_Tree" by (rule planned_tree) blast
  obtain r w1 where e: "execute () 1 (GrowWoodCommand (1, 1) 3) planned_world = Some (r, w1)" "world_ok w1"
    "succeeded r \<longrightarrow> (\<exists>og1 c. theTree 1 w1 = Some (og1, t) \<and> og_shape og1 = og_shape og @ [c] \<and> lc_material c = Mat_Wood)"
    using execute_effect [OF planned_world_ok tr, of "()" "GrowWoodCommand (1, 1) 3"] by (metis commandTarget.simps(1) growthMaterial.simps(1))
  have "map_option (succeeded \<circ> fst) (execute () 1 (GrowWoodCommand (1, 1) 3) planned_world) = Some True" by code_simp
  then have "succeeded r" using e(1) by simp
  moreover have "map_option (\<lambda>(og, t). map lc_material (og_shape og)) (theTree 1 planned_world) = Some [Mat_Seed]" by code_simp
  ultimately show ?thesis using e tr by auto
qed

theorem command_energy_witness:
  "\<exists>x w1 w2. execute () 1 (GrowWoodCommand (1, 1) 3) planned_world = Some (x, w1) \<and> xr_result x \<noteq> INSUFFICIENT_ENERGY \<and>
    executeCommand () 1 planned_world = Some w2 \<and>
    map_option (\<lambda>(og, t). tree_energy t) (theTree 1 w2) = Some (if succeeded x then 40 else 50)"
proof -
  obtain og t where tr: "theTree 1 planned_world = Some (og, t)" "reserved_ok t" "energy_ok t"
    "tree_command t = Some (GrowWoodCommand (1, 1) 3)" "tree_energy t = 40" by (rule planned_tree) blast
  show ?thesis
    using command_energy [THEN conjunct2, OF planned_world_ok tr(1-3), of "()"] tr(4,5)
    by (fastforce simp: ENERGY_COST_WOOD_def kEnergyCap_def)
qed

end
