(* ===== verification/Trees.thy ===== *)
theory Trees
  imports TreeCommands
begin

text \<open>
  The life of a tree: \<open>core/organisms/Tree.cpp\<close>. A frame prunes the tree's cells, lets time pass for the
  command in progress, moves the rigid body, updates energy and water, the growth stage, and asks the
  brain. The brain is a function from its state and the sensory data to a command and its next state.
  Doubles are reals; the fitness fields and the log are not kept.
\<close>

section \<open>Constants\<close>

definition kMaintenanceCostPerCell :: real where "kMaintenanceCostPerCell = 2 / 10"
definition kPhotosynthesisRate :: real where "kPhotosynthesisRate = 6 / 10"
definition kWaterCapacity :: real where "kWaterCapacity = 120"
definition kWaterDecayRate :: real where "kWaterDecayRate = 2 / 100"
definition kWaterFromAir :: real where "kWaterFromAir = 2 / 100"
definition kWaterFromSoil :: real where "kWaterFromSoil = 3 / 10"
definition kWaterFromWater :: real where "kWaterFromWater = 12 / 10"
definition kWaterUsePerLeaf :: real where "kWaterUsePerLeaf = 12 / 100"
definition kMatureAgeSeconds :: real where "kMatureAgeSeconds = 300"
definition kMatureLeafCount :: int where "kMatureLeafCount = 10"
definition kMatureRootCount :: int where "kMatureRootCount = 10"
definition kMatureWoodCount :: int where "kMatureWoodCount = 10"

section \<open>Growth stage\<close>

record material_counts =
  mc_leafCount :: int
  mc_rootCount :: int
  mc_woodCount :: int
  mc_hasSeed :: bool
  mc_minWoodY :: int

fun countCell :: "local_cell \<Rightarrow> material_counts \<Rightarrow> material_counts" where
  "countCell c counts =
     (case lc_material c of
        Mat_Leaf \<Rightarrow> counts\<lparr>mc_leafCount := mc_leafCount counts + 1\<rparr>
      | Mat_Root \<Rightarrow> counts\<lparr>mc_rootCount := mc_rootCount counts + 1\<rparr>
      | Mat_Seed \<Rightarrow> counts\<lparr>mc_hasSeed := True\<rparr>
      | Mat_Wood \<Rightarrow> counts\<lparr>mc_woodCount := mc_woodCount counts + 1,
                         mc_minWoodY := min (mc_minWoodY counts) (snd (lc_pos c))\<rparr>
      | _ \<Rightarrow> counts)"

definition countTreeMaterials :: "'b organism \<Rightarrow> material_counts" where
  "countTreeMaterials og = fold countCell (og_shape og)
     \<lparr>mc_leafCount = 0, mc_rootCount = 0, mc_woodCount = 0, mc_hasSeed = False, mc_minWoodY = 2147483647\<rparr>"

definition computeDynamicStage :: "'b organism \<Rightarrow> material_counts \<Rightarrow> growth_stage" where
  "computeDynamicStage og counts =
     (if \<not> mc_hasSeed counts \<or> mc_rootCount counts = 0 then Stage_Seed
      else if mc_woodCount counts = 0 \<or> mc_minWoodY counts \<ge> 0 then Stage_Germination
      else if og_age og \<ge> kMatureAgeSeconds \<and> mc_leafCount counts \<ge> kMatureLeafCount
        \<and> mc_rootCount counts \<ge> kMatureRootCount \<and> mc_woodCount counts \<ge> kMatureWoodCount
      then Stage_Mature
      else Stage_Sapling)"

section \<open>Pruning\<close>

definition structural :: "nat \<Rightarrow> 'b world_state \<Rightarrow> pos \<Rightarrow> bool" where
  "structural oid w p =
     (inBounds w p \<and> ownerAt w p = oid \<and> material_type (cellAt w p) \<in> {Mat_Seed, Mat_Root, Mat_Wood})"

definition neighbors4 :: "pos \<Rightarrow> pos list" where
  "neighbors4 p = [(fst p - 1, snd p), (fst p + 1, snd p), (fst p, snd p - 1), (fst p, snd p + 1)]"

lemma finite_inBounds: "finite {p. inBounds w p}"
proof (rule finite_subset)
  show "{p. inBounds w p} \<subseteq> {0..<wd_width w} \<times> {0..<wd_height w}" by (auto simp: inBounds_def)
qed simp

text \<open>The breadth-first search of the connected structure, with its queue.\<close>

function floodFill :: "nat \<Rightarrow> 'b world_state \<Rightarrow> pos list \<Rightarrow> pos list \<Rightarrow> pos list" where
  "floodFill oid w [] linked = linked"
| "floodFill oid w (p # frontier) linked =
     (if p \<in> set linked \<or> \<not> structural oid w p then floodFill oid w frontier linked
      else floodFill oid w (frontier @ neighbors4 p) (linked @ [p]))"
  by pat_completeness auto

termination
proof (relation "measures [\<lambda>(oid, w, f, c). card {p. inBounds w p \<and> p \<notin> set c}, \<lambda>(oid, w, f, c). length f]")
  fix oid and w :: "'b world_state" and p frontier linked
  assume p: "\<not> (p \<in> set linked \<or> \<not> structural oid w p)"
  have "{q. inBounds w q \<and> q \<notin> set (linked @ [p])} \<subset> {q. inBounds w q \<and> q \<notin> set linked}"
    using p by (auto simp: structural_def)
  then have "card {q. inBounds w q \<and> q \<notin> set (linked @ [p])} < card {q. inBounds w q \<and> q \<notin> set linked}"
    by (intro psubset_card_mono finite_subset [OF _ finite_inBounds [of w]]) auto
  then show "((oid, w, frontier @ neighbors4 p, linked @ [p]), (oid, w, p # frontier, linked)) \<in>
      measures [\<lambda>(oid, w, f, c). card {p. inBounds w p \<and> p \<notin> set c}, \<lambda>(oid, w, f, c). length f]"
    by simp
qed simp_all

declare floodFill.simps(2) [simp del]

definition stale :: "nat \<Rightarrow> 'b world_state \<Rightarrow> pos \<Rightarrow> bool" where
  "stale oid w p =
     (if \<not> inBounds w p then True
      else if cell_isEmpty (cellAt w p) then True
      else ownerAt w p \<noteq> oid)"

text \<open>The source computes the connected structure and discards it; so does the model.\<close>

definition pruneDisconnectedCells :: "nat \<Rightarrow> 'b world_state \<Rightarrow> 'b world_state option" where
  "pruneDisconnectedCells oid w =
     (case getOrganism (wd_manager w) oid of
        None \<Rightarrow> None
      | Some og \<Rightarrow>
          let linked = floodFill oid w [getAnchorCell og] [];
              to_remove = filter (stale oid w) (og_cells og)
          in Some (if to_remove \<noteq> []
                   then w\<lparr>wd_manager := removeCellsFromOrganism oid to_remove (wd_manager w)\<rparr> else w))"

section \<open>Resources\<close>

definition byteOf :: "nat \<Rightarrow> u32 \<Rightarrow> real" where
  "byteOf n c = real (unat (and (drop_bit n c) 255)) / 255"

definition brightness :: "u32 \<Rightarrow> real" where
  "brightness c = 299 / 1000 * byteOf 24 c + 587 / 1000 * byteOf 16 c + 114 / 1000 * byteOf 8 c"

definition useLight :: "'b world_state \<Rightarrow> bool" where
  "useLight w = (wd_timestep w > 0 \<and> lb_width (wd_light w) = wd_width w \<and> lb_height (wd_light w) = wd_height w)"

definition lightAt :: "'b world_state \<Rightarrow> pos \<Rightarrow> u32" where
  "lightAt w p = lb_data (wd_light w) ! nat (snd p * lb_width (wd_light w) + fst p)"

record resource_scan =
  rs_leaf :: int
  rs_cells :: int
  rs_light :: real
  rs_water :: real

definition neighborWater :: "'b world_state \<Rightarrow> pos \<Rightarrow> pos \<Rightarrow> real" where
  "neighborWater w p d =
     (let q = shift d p
      in if \<not> inBounds w q then 0
         else let fill = fill_ratio (cellAt w q); m = material_type (cellAt w q)
              in if m = Mat_Water then kWaterFromWater * fill
                 else if m = Mat_Dirt \<or> m = Mat_Sand then kWaterFromSoil * fill
                 else if m = Mat_Air then kWaterFromAir
                 else 0)"

definition scanCell :: "'b world_state \<Rightarrow> pos \<Rightarrow> resource_scan \<Rightarrow> resource_scan" where
  "scanCell w p s =
     (if \<not> inBounds w p then s
      else
        let m = material_type (cellAt w p)
        in if m \<notin> {Mat_Seed, Mat_Root, Mat_Leaf, Mat_Wood} then s
           else
             let s1 = s\<lparr>rs_cells := rs_cells s + 1\<rparr>;
                 s2 = (if m = Mat_Leaf
                       then s1\<lparr>rs_leaf := rs_leaf s1 + 1,
                               rs_light := (if useLight w then rs_light s1 + brightness (lightAt w p) else rs_light s1)\<rparr>
                       else s1)
             in if m = Mat_Seed \<or> m = Mat_Root
                then s2\<lparr>rs_water := fold (\<lambda>d g. g + neighborWater w p d) kCardinalDirections (rs_water s2)\<rparr>
                else s2)"

definition scanCells :: "'b world_state \<Rightarrow> pos list \<Rightarrow> resource_scan" where
  "scanCells w ps = fold (scanCell w) ps \<lparr>rs_leaf = 0, rs_cells = 0, rs_light = 0, rs_water = 0\<rparr>"

definition absorbWater :: "real \<Rightarrow> real \<Rightarrow> 'b tree_state \<Rightarrow> 'b tree_state" where
  "absorbWater gain dt t =
     (if gain > 0
      then let headroom = max 0 (kWaterCapacity - tree_water t); added = min headroom (gain * dt)
           in if added > 0
              then t\<lparr>tree_water := tree_water t + added,
                     tree_totals := (tree_totals t)\<lparr>rt_water := rt_water (tree_totals t) + added\<rparr>\<rparr>
              else t
      else t)"

definition decayWater :: "real \<Rightarrow> 'b tree_state \<Rightarrow> 'b tree_state" where
  "decayWater dt t =
     (if tree_water t > 0 then t\<lparr>tree_water := max 0 (tree_water t - tree_water t * kWaterDecayRate * dt)\<rparr> else t)"

definition photosynthesize :: "bool \<Rightarrow> resource_scan \<Rightarrow> real \<Rightarrow> 'b tree_state \<Rightarrow> 'b tree_state" where
  "photosynthesize use_light s dt t =
     (let avg_light = (if rs_leaf s > 0 \<and> use_light then rs_light s / real_of_int (rs_leaf s) else 0);
          needed = real_of_int (rs_leaf s) * kWaterUsePerLeaf * dt;
          used = (if needed > 0 then min (tree_water t) needed else 0);
          factor = (if needed > 0 then used / needed else 0);
          produced = real_of_int (rs_leaf s) * avg_light * kPhotosynthesisRate * dt * factor;
          maintenance = real_of_int (rs_cells s) * kMaintenanceCostPerCell * dt
      in t\<lparr>tree_water := clamp (tree_water t - used) 0 kWaterCapacity,
           tree_totals := (tree_totals t)\<lparr>rt_energy := rt_energy (tree_totals t) + produced\<rparr>,
           tree_energy := clamp (tree_energy t + (produced - maintenance)) 0 kEnergyCap\<rparr>)"

definition updateResources :: "nat \<Rightarrow> real \<Rightarrow> 'b world_state \<Rightarrow> 'b world_state option" where
  "updateResources oid dt w = do {
     (og, _) \<leftarrow> theTree oid w;
     Some (if dt \<le> 0 \<or> og_cells og = [] then w
           else let s = scanCells w (og_cells og)
                in onTree oid (photosynthesize (useLight w) s dt \<circ> decayWater dt \<circ> absorbWater (rs_water s) dt) w)
   }"

section \<open>The senses\<close>

definition GRID_SIZE :: int where "GRID_SIZE = 15"

record tree_sensory =
  ts_histograms :: "real list list list"
  ts_light :: "real list list"
  ts_width :: int
  ts_height :: int
  ts_scale :: real
  ts_offset :: pos
  ts_seed :: pos
  ts_age :: real
  ts_stage :: growth_stage
  ts_energy :: real
  ts_water :: real
  ts_thought :: string
  ts_action :: "tree_command_type option"
  ts_progress :: real
  ts_lastResult :: real
  ts_wood :: "bool list"
  ts_leaf :: "bool list"
  ts_root :: "bool list"
  ts_seeds :: "bool list"

definition newSensory :: tree_sensory where
  "newSensory = \<lparr>ts_histograms = replicate 15 (replicate 15 (replicate 10 0)), ts_light = replicate 15 (replicate 15 0),
     ts_width = 0, ts_height = 0, ts_scale = 1, ts_offset = (0, 0), ts_seed = (0, 0), ts_age = 0,
     ts_stage = Stage_Seed, ts_energy = 0, ts_water = 0, ts_thought = [], ts_action = None, ts_progress = 0,
     ts_lastResult = 0, ts_wood = replicate 225 False, ts_leaf = replicate 225 False,
     ts_root = replicate 225 False, ts_seeds = replicate 225 False\<rparr>"

fun buildTargetedCommand :: "tree_command_type \<Rightarrow> pos \<Rightarrow> tree_command" where
  "buildTargetedCommand Cmd_Wait p = WaitCommand"
| "buildTargetedCommand Cmd_Cancel p = CancelCommand"
| "buildTargetedCommand Cmd_GrowWood p = GrowWoodCommand p 3"
| "buildTargetedCommand Cmd_GrowLeaf p = GrowLeafCommand p (1 / 2)"
| "buildTargetedCommand Cmd_GrowRoot p = GrowRootCommand p 2"
| "buildTargetedCommand Cmd_ProduceSeed p = ProduceSeedCommand p 2"

text \<open>The cells the grid gives to the tree, in the order of the scan, and their bounding box.\<close>

definition ownedCells :: "nat \<Rightarrow> 'b world_state \<Rightarrow> pos list" where
  "ownedCells oid w =
     filter (\<lambda>p. ownerAt w p = oid)
       (concat (map (\<lambda>y. map (\<lambda>x. (x, y)) [0..wd_width w - 1]) [0..wd_height w - 1]))"

definition boundingBox :: "pos list \<Rightarrow> int \<times> int \<times> int \<times> int" where
  "boundingBox ps =
     fold (\<lambda>p (x0, y0, x1, y1). (min x0 (fst p), min y0 (snd p), max x1 (fst p), max y1 (snd p))) ps
       (2147483647, 2147483647, - 2147483648, - 2147483648)"

definition clampOffset :: "int \<Rightarrow> int \<Rightarrow> int" where
  "clampOffset extent v = (if extent \<ge> GRID_SIZE then max 0 (min (extent - GRID_SIZE) v) else v)"

text \<open>Small trees see a window around their anchor, large ones their padded bounding box, scaled down.\<close>

definition setWindow :: "'b world_state \<Rightarrow> pos \<Rightarrow> int \<times> int \<times> int \<times> int \<Rightarrow> tree_sensory \<Rightarrow> tree_sensory" where
  "setWindow w anchor bbox s =
     (case bbox of (x0, y0, x1, y1) \<Rightarrow>
        if x1 - x0 + 1 \<le> GRID_SIZE \<and> y1 - y0 + 1 \<le> GRID_SIZE
        then s\<lparr>ts_width := GRID_SIZE, ts_height := GRID_SIZE, ts_scale := 1,
               ts_offset := (clampOffset (wd_width w) (fst anchor - GRID_SIZE div 2),
                             clampOffset (wd_height w) (snd anchor - GRID_SIZE div 2))\<rparr>
        else
          let x0' = max 0 (x0 - 1); y0' = max 0 (y0 - 1);
              x1' = min (wd_width w - 1) (x1 + 1); y1' = min (wd_height w - 1) (y1 + 1);
              aw = x1' - x0' + 1; ah = y1' - y0' + 1
          in s\<lparr>ts_width := aw, ts_height := ah, ts_offset := (x0', y0'),
               ts_scale := max (real_of_int aw / real_of_int GRID_SIZE) (real_of_int ah / real_of_int GRID_SIZE)\<rparr>)"

definition windowPos :: "tree_sensory \<Rightarrow> int \<Rightarrow> int \<Rightarrow> pos" where
  "windowPos s nx ny =
     (fst (ts_offset s) + truncReal (real_of_int nx * ts_scale s),
      snd (ts_offset s) + truncReal (real_of_int ny * ts_scale s))"

text \<open>The cells of the world behind one cell of the window; \<open>None\<close> is the early \<open>continue\<close>.\<close>

definition windowRegion :: "'b world_state \<Rightarrow> tree_sensory \<Rightarrow> int \<Rightarrow> int \<Rightarrow> pos list option" where
  "windowRegion w s nx ny =
     (let (x0, y0) = windowPos s nx ny; (x1, y1) = windowPos s (nx + 1) (ny + 1)
      in if x1 \<le> 0 \<or> x0 \<ge> wd_width w \<or> y1 \<le> 0 \<or> y0 \<ge> wd_height w then None
         else
           let x0' = max 0 (min (wd_width w - 1) x0); y0' = max 0 (min (wd_height w - 1) y0);
               x1' = max 0 (min (wd_width w) x1); y1' = max 0 (min (wd_height w) y1)
           in Some (concat (map (\<lambda>y. map (\<lambda>x. (x, y)) [x0'..x1' - 1]) [y0'..y1' - 1])))"

definition histogramAt :: "'b world_state \<Rightarrow> tree_sensory \<Rightarrow> int \<Rightarrow> int \<Rightarrow> real list" where
  "histogramAt w s nx ny =
     (case windowRegion w s nx ny of
        None \<Rightarrow> replicate 10 0
      | Some ps \<Rightarrow>
          if ps = [] then replicate 10 0
          else map (\<lambda>i. real (length (filter (\<lambda>p. material_value (material_type (cellAt w p)) = i) ps)) / real (length ps))
                 [0..<10])"

definition lightLevelAt :: "'b world_state \<Rightarrow> tree_sensory \<Rightarrow> int \<Rightarrow> int \<Rightarrow> real" where
  "lightLevelAt w s nx ny =
     (case windowRegion w s nx ny of
        None \<Rightarrow> 0
      | Some ps \<Rightarrow>
          if \<not> useLight w \<or> ps = [] then 0
          else clamp (fold (\<lambda>p g. g + brightness (lightAt w p)) ps 0 / real (length ps)) 0 1)"

definition windowRows :: "(int \<Rightarrow> int \<Rightarrow> 'a) \<Rightarrow> 'a list list" where
  "windowRows f = map (\<lambda>ny. map (\<lambda>nx. f nx ny) [0..GRID_SIZE - 1]) [0..GRID_SIZE - 1]"

definition computeCommandMask :: "nat \<Rightarrow> 'b tree_state \<Rightarrow> 'b world_state \<Rightarrow> tree_sensory \<Rightarrow> tree_command_type \<Rightarrow> bool list" where
  "computeCommandMask oid t w s ty =
     concat (windowRows (\<lambda>nx ny. succeeded (treeCommandValidate oid t w (buildTargetedCommand ty (windowPos s nx ny)) True)))"

definition targetThought :: "string \<Rightarrow> pos \<Rightarrow> string" where
  "targetThought what p = what @ '' at ('' @ to_string (fst p) @ '', '' @ to_string (snd p) @ '')''"

fun commandThought :: "tree_command \<Rightarrow> string" where
  "commandThought WaitCommand = ''Waiting''"
| "commandThought CancelCommand = ''Cancelling''"
| "commandThought (GrowWoodCommand p _) = targetThought ''Growing WOOD'' p"
| "commandThought (GrowLeafCommand p _) = targetThought ''Growing LEAF'' p"
| "commandThought (GrowRootCommand p _) = targetThought ''Growing ROOT'' p"
| "commandThought (ProduceSeedCommand p _) = targetThought ''Producing SEED'' p"

definition senseAction :: "'b tree_state \<Rightarrow> tree_sensory \<Rightarrow> tree_sensory" where
  "senseAction t s =
     (case tree_command t of
        None \<Rightarrow> s\<lparr>ts_action := None, ts_progress := 0, ts_thought := ''Idle''\<rparr>
      | Some cmd \<Rightarrow>
          s\<lparr>ts_action := Some (getCommandType cmd),
            ts_progress := (if tree_totalTime t > 0
                            then clamp (1 - tree_timeRemaining t / tree_totalTime t) 0 1 else ts_progress s),
            ts_thought := commandThought cmd\<rparr>)"

definition gatherSensoryData :: "nat \<Rightarrow> 'b organism \<Rightarrow> 'b tree_state \<Rightarrow> 'b world_state \<Rightarrow> tree_sensory" where
  "gatherSensoryData oid og t w =
     (let owned = ownedCells oid w
      in if owned = []
         then newSensory\<lparr>ts_width := GRID_SIZE, ts_height := GRID_SIZE, ts_scale := 1, ts_offset := (0, 0)\<rparr>
         else
           let s = setWindow w (getAnchorCell og) (boundingBox owned) newSensory
           in senseAction t
                (s\<lparr>ts_histograms := windowRows (histogramAt w s), ts_light := windowRows (lightLevelAt w s),
                   ts_wood := computeCommandMask oid t w s Cmd_GrowWood,
                   ts_leaf := computeCommandMask oid t w s Cmd_GrowLeaf,
                   ts_root := computeCommandMask oid t w s Cmd_GrowRoot,
                   ts_seeds := computeCommandMask oid t w s Cmd_ProduceSeed,
                   ts_seed := getAnchorCell og, ts_age := og_age og, ts_stage := tree_stage t,
                   ts_energy := tree_energy t, ts_water := tree_water t,
                   ts_lastResult := (if tree_hasLastResult t then (if tree_lastAccepted t then 1 else - 1) else 0)\<rparr>))"

section \<open>A frame\<close>

type_synonym 'b brain = "'b \<Rightarrow> tree_sensory \<Rightarrow> tree_command \<times> 'b"

definition processBrainDecision :: "'b brain \<Rightarrow> nat \<Rightarrow> 'b world_state \<Rightarrow> 'b world_state option" where
  "processBrainDecision decide oid w = do {
     (og, t) \<leftarrow> theTree oid w;
     (case tree_brain t of
        None \<Rightarrow> Some w
      | Some brain \<Rightarrow>
          let s = gatherSensoryData oid og t w;
              (cmd, brain1) = decide brain s;
              w1 = onTree oid (\<lambda>t. t\<lparr>tree_hasLastResult := False, tree_brain := Some brain1\<rparr>) w
          in handleCommand oid cmd (ts_seed s)
               (onBody oid (recordCommandSignature (treeCommandSignature cmd (ts_seed s))) w1))
   }"

definition tickCommand :: "'b \<Rightarrow> nat \<Rightarrow> real \<Rightarrow> 'b world_state \<Rightarrow> 'b world_state option" where
  "tickCommand ruleBased oid dt w = do {
     (_, t) \<leftarrow> theTree oid w;
     (if tree_command t = None then Some w
      else
        let w1 = onTree oid (\<lambda>t. t\<lparr>tree_timeRemaining := tree_timeRemaining t - dt\<rparr>) w
        in if tree_timeRemaining t - dt \<le> 0
           then do {
             w2 \<leftarrow> executeCommand ruleBased oid w1;
             Some (onTree oid (\<lambda>t. t\<lparr>tree_command := None, tree_commandSeed := None\<rparr>) w2)
           }
           else Some w1)
   }"

definition moveTree :: "nat \<Rightarrow> real \<Rightarrow> 'b world_state \<Rightarrow> 'b world_state option" where
  "moveTree oid dt w = do {
     (og, _) \<leftarrow> theTree oid w;
     rb \<leftarrow> og_rigid og;
     (b, w1) \<leftarrow> rb_update oid (og_mass og) (og_shape og) w dt zero_vec (1 / 100) (og_position og) (og_velocity og) rb;
     Some (onBody oid (\<lambda>og. og\<lparr>og_position := bm_position b, og_velocity := bm_velocity b, og_rigid := Some (bm_rigid b),
                                og_occupied := rb_occupied (bm_rigid b),
                                og_cells := fold insertCell (rb_occupied (bm_rigid b)) []\<rparr>) w1)
   }"

definition updateStage :: "nat \<Rightarrow> 'b world_state \<Rightarrow> 'b world_state option" where
  "updateStage oid w = do {
     (og, _) \<leftarrow> theTree oid w;
     Some (onTree oid (\<lambda>t. t\<lparr>tree_stage := computeDynamicStage og (countTreeMaterials og)\<rparr>) w)
   }"

definition tree_update :: "'b brain \<Rightarrow> 'b \<Rightarrow> nat \<Rightarrow> real \<Rightarrow> 'b world_state \<Rightarrow> 'b world_state option" where
  "tree_update decide ruleBased oid dt w = do {
     w1 \<leftarrow> pruneDisconnectedCells oid w;
     w2 \<leftarrow> tickCommand ruleBased oid dt (onBody oid (\<lambda>og. og\<lparr>og_age := og_age og + dt\<rparr>) w1);
     w3 \<leftarrow> moveTree oid dt w2;
     w4 \<leftarrow> updateResources oid dt w3;
     w5 \<leftarrow> updateStage oid w4;
     processBrainDecision decide oid w5
   }"

text \<open>\<open>OrganismManager::advanceTime\<close> on the trees among the organisms, in the order of the map's walk.\<close>

fun advanceTrees :: "'b brain \<Rightarrow> 'b \<Rightarrow> nat list \<Rightarrow> real \<Rightarrow> 'b world_state \<Rightarrow> 'b world_state option" where
  "advanceTrees decide ruleBased [] dt w = Some w"
| "advanceTrees decide ruleBased (oid # order) dt w =
     (case getOrganism (wd_manager w) oid of
        None \<Rightarrow> advanceTrees decide ruleBased order dt w
      | Some og \<Rightarrow>
          if og_active og \<and> og_type og = Org_Tree
          then do { w1 \<leftarrow> tree_update decide ruleBased oid dt w; advanceTrees decide ruleBased order dt w1 }
          else advanceTrees decide ruleBased order dt w)"

section \<open>The flood fill\<close>

text \<open>The structural cells that chains of structural neighbours link to a cell.\<close>

inductive linked_to :: "nat \<Rightarrow> 'b world_state \<Rightarrow> pos \<Rightarrow> pos \<Rightarrow> bool" for oid w a where
  linked_start: "structural oid w a \<Longrightarrow> linked_to oid w a a"
| linked_step: "linked_to oid w a p \<Longrightarrow> q \<in> set (neighbors4 p) \<Longrightarrow> structural oid w q \<Longrightarrow> linked_to oid w a q"

lemma floodFill_sound:
  assumes "\<forall>p \<in> set c. linked_to oid w a p" "\<forall>p \<in> set f. structural oid w p \<longrightarrow> linked_to oid w a p"
  shows "\<forall>p \<in> set (floodFill oid w f c). linked_to oid w a p"
  using assms
proof (induction oid w f c rule: floodFill.induct)
  case (2 oid w p f c)
  show ?case
  proof (cases "p \<in> set c \<or> \<not> structural oid w p")
    case True
    have "\<forall>p \<in> set (floodFill oid w f c). linked_to oid w a p"
      using "2.IH"(1) [OF True "2.prems"(1)] "2.prems"(2) by simp
    with True show ?thesis by (simp add: floodFill.simps(2))
  next
    case False
    then have p: "linked_to oid w a p" using "2.prems"(2) by simp
    have "\<forall>q \<in> set (c @ [p]). linked_to oid w a q" using "2.prems"(1) p by simp
    moreover have "\<forall>q \<in> set (f @ neighbors4 p). structural oid w q \<longrightarrow> linked_to oid w a q"
      using "2.prems"(2) linked_step [OF p] by (simp, blast)
    ultimately have "\<forall>p \<in> set (floodFill oid w (f @ neighbors4 p) (c @ [p])). linked_to oid w a p"
      by (rule "2.IH"(2) [OF False])
    with False show ?thesis by (simp add: floodFill.simps(2))
  qed
qed simp

text \<open>Every structural neighbour of a found cell is found or waiting.\<close>

definition fill_closed :: "nat \<Rightarrow> 'b world_state \<Rightarrow> pos set \<Rightarrow> pos set \<Rightarrow> bool" where
  "fill_closed oid w found waiting =
     (\<forall>p \<in> found. \<forall>q \<in> set (neighbors4 p). structural oid w q \<longrightarrow> q \<in> found \<union> waiting)"

lemma floodFill_closed:
  assumes "fill_closed oid w (set c) (set f)"
  shows "set c \<subseteq> set (floodFill oid w f c) \<and> (\<forall>p \<in> set f. structural oid w p \<longrightarrow> p \<in> set (floodFill oid w f c)) \<and>
    fill_closed oid w (set (floodFill oid w f c)) {}"
  using assms
proof (induction oid w f c rule: floodFill.induct)
  case (1 oid w c)
  then show ?case by simp
next
  case (2 oid w p f c)
  show ?case
  proof (cases "p \<in> set c \<or> \<not> structural oid w p")
    case True
    have eq: "floodFill oid w (p # f) c = floodFill oid w f c" using True by (simp add: floodFill.simps(2))
    have "fill_closed oid w (set c) (set f)"
      using "2.prems" True unfolding fill_closed_def by (metis Un_iff set_ConsD)
    note ih = "2.IH"(1) [OF True this]
    show ?thesis unfolding eq using ih True by (metis set_ConsD subsetD)
  next
    case False
    have eq: "floodFill oid w (p # f) c = floodFill oid w (f @ neighbors4 p) (c @ [p])"
      using False by (simp add: floodFill.simps(2))
    have "fill_closed oid w (set (c @ [p])) (set (f @ neighbors4 p))"
      using "2.prems" unfolding fill_closed_def by (simp, blast)
    note ih = "2.IH"(2) [OF False this]
    show ?thesis unfolding eq using ih by simp
  qed
qed

lemma floodFill_distinct: "distinct c \<Longrightarrow> distinct (floodFill oid w f c)"
proof (induction oid w f c rule: floodFill.induct)
  case (2 oid w p f c)
  then show ?case by (cases "p \<in> set c \<or> \<not> structural oid w p") (simp_all add: floodFill.simps(2))
qed simp

text \<open>
  The flood fill of \<open>pruneDisconnectedCells\<close> ends, visits no cell twice, and finds exactly the seed, root
  and wood cells of the organism that are linked to the anchor by such cells.
\<close>

theorem flood_fill_linked:
  "set (floodFill oid w [a] []) = {p. linked_to oid w a p} \<and> distinct (floodFill oid w [a] [])"
proof (intro conjI set_eqI)
  fix p
  have start: "\<forall>p \<in> set [a]. structural oid w p \<longrightarrow> linked_to oid w a p" by (simp add: linked_start)
  have closed: "\<forall>p \<in> set [a]. structural oid w p \<longrightarrow> p \<in> set (floodFill oid w [a] [])"
    "fill_closed oid w (set (floodFill oid w [a] [])) {}"
    using floodFill_closed [of oid w "[]" "[a]"] by (simp_all add: fill_closed_def)
  show "p \<in> set (floodFill oid w [a] []) \<longleftrightarrow> p \<in> {p. linked_to oid w a p}"
  proof
    assume "p \<in> set (floodFill oid w [a] [])"
    then show "p \<in> {p. linked_to oid w a p}" using floodFill_sound [OF _ start, of "[]"] by auto
  next
    assume "p \<in> {p. linked_to oid w a p}"
    then have "linked_to oid w a p" by simp
    then show "p \<in> set (floodFill oid w [a] [])"
    proof (induction rule: linked_to.induct)
      case linked_start
      then show ?case using closed(1) by simp
    next
      case (linked_step p q)
      then show ?case using closed(2) unfolding fill_closed_def by blast
    qed
  qed
qed (simp add: floodFill_distinct)

section \<open>Water and energy\<close>

definition water_ok :: "'b tree_state \<Rightarrow> bool" where
  "water_ok t = (0 \<le> tree_water t \<and> tree_water t \<le> kWaterCapacity)"

lemma byteOf_bounds: "0 \<le> byteOf n c" "byteOf n c \<le> 1"
proof -
  have "and (drop_bit n c) 255 \<le> (255 :: u32)" by (rule word_and_le1)
  then have "unat (and (drop_bit n c) 255) \<le> unat (255 :: u32)" unfolding word_le_nat_alt .
  then have le: "unat (and (drop_bit n c) 255) \<le> 255" by simp
  define k where "k = unat (and (drop_bit n c) 255)"
  have "byteOf n c = real k / 255" by (simp only: byteOf_def k_def)
  moreover have "real k \<le> 255" using le unfolding k_def [symmetric] by simp
  ultimately show "0 \<le> byteOf n c" "byteOf n c \<le> 1" by simp_all
qed

lemma brightness_bounds: "0 \<le> brightness c \<and> brightness c \<le> 1"
  using byteOf_bounds [of 24 c] byteOf_bounds [of 16 c] byteOf_bounds [of 8 c] unfolding brightness_def
  by (intro conjI) (simp, linarith)

lemma absorb_water:
  assumes "water_ok t" "0 \<le> gain" "0 < dt"
  shows "water_ok (absorbWater gain dt t) \<and> tree_water t \<le> tree_water (absorbWater gain dt t) \<and>
    tree_energy (absorbWater gain dt t) = tree_energy t \<and>
    rt_water (tree_totals (absorbWater gain dt t)) - rt_water (tree_totals t) = tree_water (absorbWater gain dt t) - tree_water t"
  using assms by (auto simp: absorbWater_def water_ok_def Let_def)

lemma decay_water:
  assumes "water_ok t" "0 < dt"
  shows "water_ok (decayWater dt t) \<and> tree_water (decayWater dt t) \<le> tree_water t \<and>
    tree_energy (decayWater dt t) = tree_energy t \<and> tree_totals (decayWater dt t) = tree_totals t"
proof -
  have "0 \<le> tree_water t * kWaterDecayRate * dt" if "0 < tree_water t"
    using that assms(2) by (simp add: kWaterDecayRate_def)
  then show ?thesis using assms by (auto simp: decayWater_def water_ok_def)
qed

text \<open>What the scan of the tree's cells counts.\<close>

definition scan_ok :: "resource_scan \<Rightarrow> bool" where
  "scan_ok s = (0 \<le> rs_leaf s \<and> rs_leaf s \<le> rs_cells s \<and> 0 \<le> rs_light s \<and> rs_light s \<le> real_of_int (rs_leaf s) \<and> 0 \<le> rs_water s)"

lemma neighborWater_nonneg:
  assumes "\<And>q. inBounds w q \<Longrightarrow> 0 \<le> fill_ratio (cellAt w q)" shows "0 \<le> neighborWater w p d"
  using assms by (simp add: neighborWater_def Let_def kWaterFromWater_def kWaterFromSoil_def kWaterFromAir_def)

lemma scanCell_ok:
  assumes "\<And>q. inBounds w q \<Longrightarrow> 0 \<le> fill_ratio (cellAt w q)" "scan_ok s"
  shows "scan_ok (scanCell w p s)"
proof -
  have "0 \<le> g \<Longrightarrow> 0 \<le> fold (\<lambda>d g. g + neighborWater w p d) ds g" for ds g
    by (induction ds arbitrary: g) (simp_all add: neighborWater_nonneg [OF assms(1)])
  then show ?thesis using assms(2) brightness_bounds [of "lightAt w p"] by (auto simp: scanCell_def scan_ok_def Let_def)
qed

lemma scanCells_ok:
  assumes "\<And>q. inBounds w q \<Longrightarrow> 0 \<le> fill_ratio (cellAt w q)" shows "scan_ok (scanCells w ps)"
proof -
  have "scan_ok s \<Longrightarrow> scan_ok (fold (scanCell w) ps s)" for s
    by (induction ps arbitrary: s) (simp_all add: scanCell_ok [OF assms])
  then show ?thesis by (simp add: scanCells_def scan_ok_def)
qed

lemma unit_fraction: "0 \<le> x \<Longrightarrow> x \<le> y \<Longrightarrow> 0 < y \<Longrightarrow> 0 \<le> x / y \<and> x / y \<le> (1 :: real)"
  by simp

lemma clamp_gain:
  fixes e p m cap :: real
  assumes "0 \<le> e" "0 \<le> p" "0 \<le> m" shows "clamp (e + (p - m)) 0 cap \<le> e + p"
  using assms by (simp add: clamp_def)

lemma photosynthesis:
  fixes ul and s :: resource_scan and dt and t :: "'b tree_state"
  assumes s: "scan_ok s" and t: "water_ok t" "energy_ok t" and dt: "0 < dt"
  defines "u \<equiv> photosynthesize ul s dt t"
  defines "produced \<equiv> rt_energy (tree_totals u) - rt_energy (tree_totals t)"
  shows "water_ok u" "energy_ok u" "tree_water u \<le> tree_water t" "rt_water (tree_totals u) = rt_water (tree_totals t)"
    "0 \<le> produced" "produced \<le> real_of_int (rs_leaf s) * kPhotosynthesisRate * dt"
    "tree_energy u \<le> tree_energy t + produced" "rs_leaf s = 0 \<or> \<not> ul \<Longrightarrow> produced = 0"
proof -
  let ?n = "real_of_int (rs_leaf s)"
  let ?avg = "if rs_leaf s > 0 \<and> ul then rs_light s / ?n else 0"
  let ?need = "?n * kWaterUsePerLeaf * dt"
  let ?used = "if ?need > 0 then min (tree_water t) ?need else 0"
  let ?factor = "if ?need > 0 then ?used / ?need else 0"
  let ?prod = "?n * ?avg * kPhotosynthesisRate * dt * ?factor"
  have n: "0 \<le> ?n" using s by (simp add: scan_ok_def)
  have avg: "0 \<le> ?avg" "?avg \<le> 1" using s unit_fraction [of "rs_light s" ?n] by (auto simp: scan_ok_def)
  have used: "0 \<le> ?used" "?used \<le> tree_water t" using t(1) by (auto simp: water_ok_def)
  have factor: "0 \<le> ?factor" "?factor \<le> 1" using unit_fraction [of ?used ?need] used(1) by auto
  have "?avg * ?factor \<le> 1 * 1" using avg factor by (intro mult_mono) auto
  moreover have k: "0 \<le> ?n * kPhotosynthesisRate * dt" using n dt by (simp add: kPhotosynthesisRate_def)
  ultimately have "(?n * kPhotosynthesisRate * dt) * (?avg * ?factor) \<le> (?n * kPhotosynthesisRate * dt) * (1 * 1)"
    by (intro mult_left_mono) auto
  moreover have eq: "?prod = (?n * kPhotosynthesisRate * dt) * (?avg * ?factor)" by (simp only: ac_simps)
  ultimately have prod: "0 \<le> ?prod" "?prod \<le> ?n * kPhotosynthesisRate * dt"
    using k avg(1) factor(1) by (simp_all only: eq mult_nonneg_nonneg)
  have u: "u = t\<lparr>tree_water := clamp (tree_water t - ?used) 0 kWaterCapacity,
      tree_totals := (tree_totals t)\<lparr>rt_energy := rt_energy (tree_totals t) + ?prod\<rparr>,
      tree_energy := clamp (tree_energy t + (?prod - real_of_int (rs_cells s) * kMaintenanceCostPerCell * dt)) 0 kEnergyCap\<rparr>"
    unfolding u_def photosynthesize_def Let_def ..
  have p: "produced = ?prod" unfolding produced_def u by simp
  have w: "tree_water u = tree_water t - ?used" using used t(1) unfolding u by (simp add: clamp_def water_ok_def)
  show "water_ok u" using w used t(1) by (simp add: water_ok_def)
  show "tree_water u \<le> tree_water t" using w used by simp
  show "rt_water (tree_totals u) = rt_water (tree_totals t)" unfolding u by simp
  show "0 \<le> produced" "produced \<le> ?n * kPhotosynthesisRate * dt" using prod unfolding p by blast+
  have e: "tree_energy u = clamp (tree_energy t + (?prod - real_of_int (rs_cells s) * kMaintenanceCostPerCell * dt)) 0 kEnergyCap"
    unfolding u by simp
  have cap: "(0 :: real) \<le> kEnergyCap" by (simp add: kEnergyCap_def)
  show "energy_ok u" unfolding energy_ok_def e using clamp_bounds [OF cap] by blast
  have "0 \<le> real_of_int (rs_cells s) * kMaintenanceCostPerCell * dt"
    using s dt by (simp add: scan_ok_def kMaintenanceCostPerCell_def)
  from clamp_gain [OF _ prod(1) this] t(2)
  show "tree_energy u \<le> tree_energy t + produced" unfolding e p energy_ok_def by blast
  show "produced = 0" if "rs_leaf s = 0 \<or> \<not> ul" using that unfolding p by auto
qed

lemma scanCells_leaf:
  "rs_leaf (scanCells w ps) = int (length (filter (\<lambda>p. inBounds w p \<and> material_type (cellAt w p) = Mat_Leaf) ps))"
proof -
  have one: "rs_leaf (scanCell w p s) = rs_leaf s + (if inBounds w p \<and> material_type (cellAt w p) = Mat_Leaf then 1 else 0)" for p s
    by (auto simp: scanCell_def Let_def)
  have "rs_leaf (fold (scanCell w) ps s) = rs_leaf s + int (length (filter (\<lambda>p. inBounds w p \<and> material_type (cellAt w p) = Mat_Leaf) ps))" for s
    by (induction ps arbitrary: s) (simp_all add: one)
  then show ?thesis by (simp add: scanCells_def)
qed

lemma resources_effect:
  fixes ul and s :: resource_scan and dt and t :: "'b tree_state"
  assumes "water_ok t" "energy_ok t" "scan_ok s" "0 < dt"
  defines "u \<equiv> (photosynthesize ul s dt \<circ> decayWater dt \<circ> absorbWater (rs_water s) dt) t"
  defines "produced \<equiv> rt_energy (tree_totals u) - rt_energy (tree_totals t)"
    and "absorbed \<equiv> rt_water (tree_totals u) - rt_water (tree_totals t)"
  shows "water_ok u \<and> energy_ok u \<and> 0 \<le> absorbed \<and> tree_water u \<le> tree_water t + absorbed \<and>
    0 \<le> produced \<and> produced \<le> real_of_int (rs_leaf s) * kPhotosynthesisRate * dt \<and>
    tree_energy u \<le> tree_energy t + produced \<and> (rs_leaf s = 0 \<or> \<not> ul \<longrightarrow> produced = 0)"
proof -
  let ?a = "absorbWater (rs_water s) dt t"
  let ?d = "decayWater dt ?a"
  have a: "water_ok ?a" "tree_water t \<le> tree_water ?a" "tree_energy ?a = tree_energy t"
    "rt_water (tree_totals ?a) - rt_water (tree_totals t) = tree_water ?a - tree_water t"
    using absorb_water [OF assms(1), of "rs_water s" dt] assms(3,4) by (simp_all add: scan_ok_def)
  have totals: "rt_energy (tree_totals ?a) = rt_energy (tree_totals t)" by (simp add: absorbWater_def Let_def)
  have d: "water_ok ?d" "tree_water ?d \<le> tree_water ?a" "tree_energy ?d = tree_energy ?a" "tree_totals ?d = tree_totals ?a"
    using decay_water [OF a(1) assms(4)] by blast+
  have e: "energy_ok ?d" using assms(2) a(3) d(3) by (simp add: energy_ok_def)
  have u: "u = photosynthesize ul s dt ?d" by (simp add: u_def)
  note p = photosynthesis [OF assms(3) d(1) e assms(4), of ul, folded u]
  have prod: "produced = rt_energy (tree_totals u) - rt_energy (tree_totals ?d)" by (simp add: produced_def d(4) totals)
  have abso: "absorbed = tree_water ?a - tree_water t" using p(4) d(4) a(4) by (simp add: absorbed_def)
  show ?thesis using p a d(2,3) unfolding prod abso by simp
qed

lemma cellAt_fill:
  assumes "world_ok w" "\<forall>c \<in> set (wd_cells w). 0 \<le> fill_ratio c" "inBounds w q" shows "0 \<le> fill_ratio (cellAt w q)"
  using assms(2) wd_index_less [OF assms(1,3)] by (simp add: cellAt_def)

text \<open>
  The resources of a frame. Water stays between zero and the capacity and energy between zero and the
  cap. Water comes only from what the totals record as absorbed; the energy produced is never negative, is
  at most the photosynthesis rate for each leaf, is none without leaves or light, and is all the energy
  that can be gained.
\<close>

theorem tree_resources:
  assumes "world_ok w" "\<forall>c \<in> set (wd_cells w). 0 \<le> fill_ratio c" "theTree oid w = Some (og, t)" "water_ok t" "energy_ok t"
  shows "\<exists>w1 og1 u. updateResources oid dt w = Some w1 \<and> theTree oid w1 = Some (og1, u) \<and> water_ok u \<and> energy_ok u \<and>
    tree_water u \<le> tree_water t + (rt_water (tree_totals u) - rt_water (tree_totals t)) \<and>
    tree_energy u \<le> tree_energy t + (rt_energy (tree_totals u) - rt_energy (tree_totals t)) \<and>
    rt_water (tree_totals t) \<le> rt_water (tree_totals u) \<and> rt_energy (tree_totals t) \<le> rt_energy (tree_totals u) \<and>
    (let leaves = filter (\<lambda>p. inBounds w p \<and> material_type (cellAt w p) = Mat_Leaf) (og_cells og)
     in rt_energy (tree_totals u) - rt_energy (tree_totals t) \<le> real (length leaves) * kPhotosynthesisRate * max 0 dt \<and>
        (leaves = [] \<or> \<not> useLight w \<longrightarrow> rt_energy (tree_totals u) = rt_energy (tree_totals t)))"
proof (cases "dt \<le> 0 \<or> og_cells og = []")
  case True
  then have "updateResources oid dt w = Some w" using assms(3) by (simp add: updateResources_def)
  then show ?thesis using assms(3-) by (simp add: kPhotosynthesisRate_def Let_def)
next
  case False
  let ?s = "scanCells w (og_cells og)"
  let ?f = "photosynthesize (useLight w) ?s dt \<circ> decayWater dt \<circ> absorbWater (rs_water ?s) dt"
  have s: "scan_ok ?s" using scanCells_ok cellAt_fill [OF assms(1,2)] by blast
  have dt: "0 < dt" using False by simp
  have "updateResources oid dt w = Some (onTree oid ?f w)" using False assms(3) by (simp add: updateResources_def Let_def)
  moreover have "theTree oid (onTree oid ?f w) = Some (updateTree ?f og, ?f t)" using assms(3) by simp
  moreover note resources_effect [OF assms(4,5) s dt, of "useLight w"]
  ultimately show ?thesis using dt by (fastforce simp: Let_def scanCells_leaf)
qed

theorem tree_resources_witness:
  "\<exists>w1 og1 u. updateResources 1 (1 / 60) tree_world = Some w1 \<and> theTree 1 w1 = Some (og1, u) \<and> water_ok u \<and> energy_ok u \<and>
    tree_energy u \<le> 50"
proof -
  obtain og t where t: "theTree 1 tree_world = Some (og, t)" "tree_energy t = 50" "tree_water t = 0"
    by (rule tree_world_tree) blast
  have "water_ok t" "energy_ok t" using t by (simp_all add: water_ok_def energy_ok_def kWaterCapacity_def kEnergyCap_def)
  moreover have "list_all (\<lambda>c. 0 \<le> fill_ratio c) (wd_cells tree_world)" by code_simp
  then have "\<forall>c \<in> set (wd_cells tree_world). 0 \<le> fill_ratio c" by (simp add: list_all_iff)
  moreover have "\<not> useLight tree_world" by code_simp
  ultimately show ?thesis using tree_resources [OF tree_world_ok _ t(1), of "1 / 60"] t(2) by (fastforce simp: Let_def)
qed

section \<open>What a tree sees it can do\<close>

lemma concat_nth_rows:
  assumes "\<forall>xs \<in> set xss. length xs = n" "i < length xss" "j < n"
  shows "concat xss ! (i * n + j) = xss ! i ! j"
  using assms by (induction xss arbitrary: i) (auto simp: nth_append nth_Cons split: nat.split)

lemma windowRows_nth:
  assumes "0 \<le> nx" "nx < GRID_SIZE" "0 \<le> ny" "ny < GRID_SIZE"
  shows "concat (windowRows f) ! nat (ny * GRID_SIZE + nx) = f nx ny"
proof -
  have n: "nat (ny * GRID_SIZE + nx) = nat ny * 15 + nat nx"
    using assms by (simp add: GRID_SIZE_def nat_add_distrib nat_mult_distrib)
  have rows: "\<forall>xs \<in> set (windowRows f). length xs = 15" by (simp add: windowRows_def GRID_SIZE_def)
  have "nat ny < length (windowRows f)" "nat nx < 15" using assms by (simp_all add: windowRows_def GRID_SIZE_def)
  from concat_nth_rows [OF rows this] show ?thesis
    using assms unfolding n by (simp add: windowRows_def nth_map_upt nth_upto GRID_SIZE_def)
qed

fun targetMask :: "tree_command_type \<Rightarrow> tree_sensory \<Rightarrow> bool list" where
  "targetMask Cmd_GrowWood s = ts_wood s"
| "targetMask Cmd_GrowLeaf s = ts_leaf s"
| "targetMask Cmd_GrowRoot s = ts_root s"
| "targetMask Cmd_ProduceSeed s = ts_seeds s"
| "targetMask _ s = []"

lemma gather_windowPos:
  assumes "ownedCells oid w \<noteq> []"
  shows "windowPos (gatherSensoryData oid og t w) nx ny =
    windowPos (setWindow w (getAnchorCell og) (boundingBox (ownedCells oid w)) newSensory) nx ny"
  using assms by (simp add: gatherSensoryData_def Let_def windowPos_def senseAction_def split: option.split)

lemma targetMask_validates:
  fixes w :: "'b world_state" and og t oid nx ny ty
  assumes "ownedCells oid w \<noteq> []" "0 \<le> nx" "nx < GRID_SIZE" "0 \<le> ny" "ny < GRID_SIZE"
    and "ty \<in> {Cmd_GrowWood, Cmd_GrowLeaf, Cmd_GrowRoot, Cmd_ProduceSeed}"
  defines "s \<equiv> gatherSensoryData oid og t w"
  shows "targetMask ty s ! nat (ny * GRID_SIZE + nx) =
    succeeded (treeCommandValidate oid t w (buildTargetedCommand ty (windowPos s nx ny)) True)"
proof -
  let ?s = "setWindow w (getAnchorCell og) (boundingBox (ownedCells oid w)) newSensory"
  have sense: "ts_wood (senseAction t x) = ts_wood x" "ts_leaf (senseAction t x) = ts_leaf x"
    "ts_root (senseAction t x) = ts_root x" "ts_seeds (senseAction t x) = ts_seeds x" for x
    by (simp_all add: senseAction_def split: option.split)
  have pos: "windowPos s nx ny = windowPos ?s nx ny"
    unfolding s_def by (rule gather_windowPos [OF assms(1)])
  have "targetMask ty s = computeCommandMask oid t w ?s ty"
    using assms(1,6) by (auto simp: s_def gatherSensoryData_def Let_def sense)
  then show ?thesis unfolding pos using windowRows_nth [OF assms(2-5)] by (simp add: computeCommandMask_def)
qed

lemma validate_cong:
  assumes "tree_energy t' = tree_energy t" "inBounds w' = inBounds w" "ownerAt w' = ownerAt w" "cellAt w' = cellAt w"
  shows "treeCommandValidate oid t' w' cmd b = treeCommandValidate oid t w cmd b"
  using assms by (cases cmd) (simp_all add: validateGrowth_def validateSeed_def isTargetOwnedByTree_def hasOwnedNeighborWithMaterial_def)

lemma targeted_cost:
  "ty \<in> {Cmd_GrowWood, Cmd_GrowLeaf, Cmd_GrowRoot, Cmd_ProduceSeed} \<Longrightarrow>
    0 < getEnergyCostForCommand (buildTargetedCommand ty p) \<and> buildTargetedCommand ty p \<notin> {WaitCommand, CancelCommand}"
  by (auto simp: ENERGY_COST_WOOD_def ENERGY_COST_LEAF_def ENERGY_COST_ROOT_def ENERGY_COST_PRODUCE_SEED_def)



end
