(* ===== verification/TreeFrames.thy ===== *)
theory TreeFrames
  imports Trees
begin

text \<open>
  A frame of a tree as a whole: what \<open>tree_update\<close> keeps. \<open>tree_ok\<close> collects the invariant of a tree in the
  world: the registry is consistent, its energy, water and reserve are in order, the shape its rigid body
  projects is its shape, and the grid gives it no cell that its last projection did not put there
  (\<open>settled\<close>). Other organisms keep their state, and lose cells at most.
\<close>

section \<open>Steps that change cell sets only\<close>

definition recells :: "nat \<Rightarrow> 'b organism_manager \<Rightarrow> 'b organism_manager \<Rightarrow> bool" where
  "recells oid m m' =
     ((\<forall>i. i \<noteq> oid \<longrightarrow> om_organisms m' i = om_organisms m i) \<and>
      (\<exists>cs. om_organisms m' oid = map_option (\<lambda>og. og\<lparr>og_cells := cs\<rparr>) (om_organisms m oid)) \<and>
      om_next m' = om_next m)"

lemma recells_refl [simp]: "recells oid m m"
proof -
  have "om_organisms m oid = map_option (\<lambda>og. og\<lparr>og_cells := (case om_organisms m oid of None \<Rightarrow> [] | Some og \<Rightarrow> og_cells og)\<rparr>) (om_organisms m oid)"
    by (cases "om_organisms m oid") simp_all
  then show ?thesis unfolding recells_def by blast
qed

lemma recells_trans:
  assumes "recells oid m m1" "recells oid m1 m2" shows "recells oid m m2"
proof -
  obtain c1 c2 where "om_organisms m1 oid = map_option (\<lambda>og. og\<lparr>og_cells := c1\<rparr>) (om_organisms m oid)"
    "om_organisms m2 oid = map_option (\<lambda>og. og\<lparr>og_cells := c2\<rparr>) (om_organisms m1 oid)"
    using assms unfolding recells_def by blast
  then have "om_organisms m2 oid = map_option (\<lambda>og. og\<lparr>og_cells := c2\<rparr>) (om_organisms m oid)"
    by (cases "om_organisms m oid") simp_all
  then show ?thesis using assms unfolding recells_def by auto
qed

lemma recells_update: "recells oid m (updateOrganism oid (\<lambda>og. og\<lparr>og_cells := f (og_cells og)\<rparr>) m)"
proof -
  have "map_option (\<lambda>og. og\<lparr>og_cells := f (og_cells og)\<rparr>) x =
      map_option (\<lambda>og. og\<lparr>og_cells := (case x of None \<Rightarrow> [] | Some og \<Rightarrow> f (og_cells og))\<rparr>) x" for x :: "'a organism option"
    by (cases x) simp_all
  then show ?thesis unfolding recells_def updateOrganism_def by auto
qed

lemma recells_set [simp]: "recells oid m (setOrganismAt p i m') = recells oid m m'"
  by (simp add: recells_def setOrganismAt_def)

lemma recells_add: "addCellToOrganism oid p m = Some m' \<Longrightarrow> recells oid m m'"
  using recells_update [of oid m "insertCell p"] by (auto simp: addCellToOrganism_def split: option.splits)

lemma recells_remove: "recells oid m (removeCellsFromOrganism oid ps m)"
proof -
  have one: "recells oid n (removeCell oid p n)" for p and n :: "'a organism_manager"
    using recells_update [of oid n "eraseCell p"] by (simp add: removeCell_def clearOrganismAt_def)
  have "recells oid n (fold (removeCell oid) ps n)" for n :: "'a organism_manager"
    by (induction ps arbitrary: n) (auto intro: recells_trans one)
  then show ?thesis by (simp add: removeCellsFromOrganism_def split: option.split)
qed

lemma recells_clear: "recells (rb_lastOwner rb) (wd_manager w) (wd_manager (snd (pj_clear rb w)))"
proof -
  have one: "recells o' (wd_manager v) (wd_manager (pj_clearCell o' p v))" for o' p and v :: "'a world_state"
    by (simp add: pj_clearCell_def recells_remove)
  have "recells o' (wd_manager v) (wd_manager (fold (pj_clearCell o') ps v))" for o' ps and v :: "'a world_state"
    by (induction ps arbitrary: v) (auto intro: recells_trans one)
  then show ?thesis by (simp add: pj_clear_def)
qed

lemma recells_project:
  "projectCells oid p v shape occ w = Some (occ', w') \<Longrightarrow> recells oid (wd_manager w) (wd_manager w')"
proof (induction shape arbitrary: occ w)
  case (Cons lc lcs)
  let ?q = "cellOf (worldPos p lc)"
  show ?case
  proof (cases "inBounds w ?q")
    case False
    then show ?thesis using Cons by simp
  next
    case True
    then obtain m where m: "addCellToOrganism oid ?q (wd_manager w) = Some m"
      "projectCells oid p v lcs (occ @ [?q]) (setCell ?q (projectedCell lc p v (cellAt w ?q)) (w\<lparr>wd_manager := m\<rparr>)) = Some (occ', w')"
      using Cons.prems by (auto simp: Let_def bind_eq_Some_conv)
    show ?thesis using recells_trans [OF recells_add [OF m(1)]] Cons.IH [OF m(2)] by simp
  qed
qed simp

text \<open>A frame of a rigid body, whoever owns the cells it stands on.\<close>

lemma rb_update_effect:
  assumes ok: "world_ok w" and og: "om_organisms (wd_manager w) oid = Some og"
    and last: "rb_lastOwner rb = oid \<or> rb_lastOwner rb = INVALID_ORGANISM_ID"
  obtains b w' where "rb_update oid mass shape w dt ext vm p v rb = Some (b, w')" "world_ok w'" "same_world w w'"
    "recells oid (wd_manager w) (wd_manager w')"
    "rb_lastOwner (bm_rigid b) = oid" "rb_shape (bm_rigid b) = rb_shape rb"
    "rb_occupied (bm_rigid b) = filter (inBounds w) (shapeCells (bm_position b) (rb_shape rb))"
    "\<And>q. ownerAt w' q = (if q \<in> set (rb_occupied (bm_rigid b)) then oid
      else if q \<in> set (rb_occupied rb) \<and> ownerAt w q = rb_lastOwner rb then INVALID_ORGANISM_ID else ownerAt w q)"
proof -
  let ?b = "moveBody oid mass shape w dt ext vm p v rb"
  have t: "tracked (wd_manager w)" using ok by (simp add: world_ok_def)
  have rigid: "rb_shape (bm_rigid ?b) = rb_shape rb" "rb_lastOwner (bm_rigid ?b) = rb_lastOwner rb"
    "rb_occupied (bm_rigid ?b) = rb_occupied rb"
    using moveBody_rigid [of oid mass shape w dt ext vm p v rb] by blast+
  obtain rb1 w1 where c: "pj_clear (bm_rigid ?b) w = (rb1, w1)" by fastforce
  have reg: "om_organisms (wd_manager w) (rb_lastOwner (bm_rigid ?b)) \<noteq> None \<or> rb_lastOwner (bm_rigid ?b) = INVALID_ORGANISM_ID"
    using last og rigid by auto
  have c1: "rb1 = (bm_rigid ?b)\<lparr>rb_occupied := []\<rparr>" "world_ok w1" "same_world w w1"
    "\<And>q. ownerAt w1 q = (if q \<in> set (rb_occupied rb) \<and> ownerAt w q = rb_lastOwner rb then INVALID_ORGANISM_ID else ownerAt w q)"
    using clear_effect [OF ok reg c] unfolding rigid by blast+
  have none: "om_organisms (wd_manager w) INVALID_ORGANISM_ID = None"
    using t unfolding tracked_def by (cases "om_organisms (wd_manager w) INVALID_ORGANISM_ID") auto
  have "recells (rb_lastOwner rb) (wd_manager w) (wd_manager w1)"
    using recells_clear [of "bm_rigid ?b" w] c rigid by simp
  then have r1: "recells oid (wd_manager w) (wd_manager w1)"
  proof (cases "rb_lastOwner rb = oid")
    case False
    then have inv: "rb_lastOwner rb = INVALID_ORGANISM_ID" using last by blast
    assume "recells (rb_lastOwner rb) (wd_manager w) (wd_manager w1)"
    then have "om_organisms (wd_manager w1) i = om_organisms (wd_manager w) i" "om_next (wd_manager w1) = om_next (wd_manager w)" for i
      using none unfolding recells_def inv by (cases "i = INVALID_ORGANISM_ID"; simp)+
    then have "om_organisms (wd_manager w1) = om_organisms (wd_manager w)" "om_next (wd_manager w1) = om_next (wd_manager w)"
      by auto
    then show ?thesis using recells_refl [of oid "wd_manager w"] unfolding recells_def by simp
  qed simp
  have "om_organisms (wd_manager w1) oid \<noteq> None" using r1 og unfolding recells_def by auto
  note pe = projectCells_effect [OF c1(2) this, of "bm_position ?b" "bm_velocity ?b" "rb_shape rb" "[]", unfolded append_Nil]
  obtain w2 where w2: "projectCells oid (bm_position ?b) (bm_velocity ?b) (rb_shape rb) [] w1 =
      Some (filter (inBounds w1) (shapeCells (bm_position ?b) (rb_shape rb)), w2)"
    "world_ok w2" "same_world w1 w2"
    "\<And>q. ownerAt w2 q = (if inBounds w1 q \<and> q \<in> set (shapeCells (bm_position ?b) (rb_shape rb)) then oid else ownerAt w1 q)"
    using pe by blast
  have inb: "inBounds w1 = inBounds w" by (rule same_world_inBounds [OF c1(3)])
  let ?occ = "filter (inBounds w) (shapeCells (bm_position ?b) (rb_shape rb))"
  let ?rb = "(rb1\<lparr>rb_lastOwner := oid, rb_occupied := ?occ\<rparr>)"
  have "pj_clear rb1 w1 = (rb1, w1)" using c1(1) by (simp add: pj_clear_def)
  then have "rb_update oid mass shape w dt ext vm p v rb = Some (?b\<lparr>bm_rigid := ?rb\<rparr>, w2)"
    using c w2(1) c1(1) rigid inb by (simp add: rb_update_def project_def Let_def)
  moreover have "same_world w w2" using c1(3) w2(3) by (simp add: same_world_def)
  moreover have "recells oid (wd_manager w) (wd_manager w2)" by (rule recells_trans [OF r1 recells_project [OF w2(1)]])
  moreover have "ownerAt w2 q = (if q \<in> set ?occ then oid
      else if q \<in> set (rb_occupied rb) \<and> ownerAt w q = rb_lastOwner rb then INVALID_ORGANISM_ID else ownerAt w q)" for q
    unfolding w2(4) c1(4) inb by simp
  ultimately show ?thesis using that [of "?b\<lparr>bm_rigid := ?rb\<rparr>" w2] w2(2) c1(1) rigid(1) by simp
qed

section \<open>The invariant of a tree\<close>

definition settled :: "nat \<Rightarrow> 'b world_state \<Rightarrow> 'b organism \<Rightarrow> bool" where
  "settled oid w og =
     (\<exists>rb. og_rigid og = Some rb \<and> rb_shape rb = og_shape og \<and>
        (rb_lastOwner rb = oid \<or> rb_lastOwner rb = INVALID_ORGANISM_ID) \<and>
        (\<forall>q. ownerAt w q = oid \<longrightarrow> rb_lastOwner rb = oid \<and> q \<in> set (rb_occupied rb)))"

definition tree_state_ok :: "'b tree_state \<Rightarrow> bool" where
  "tree_state_ok t = (reserved_ok t \<and> energy_ok t \<and> water_ok t)"

definition tree_ok :: "nat \<Rightarrow> 'b world_state \<Rightarrow> bool" where
  "tree_ok oid w =
     (world_ok w \<and>
      (\<exists>og t. theTree oid w = Some (og, t) \<and> og_type og = Org_Tree \<and> settled oid w og \<and> tree_state_ok t))"

definition others_kept :: "nat \<Rightarrow> 'b world_state \<Rightarrow> 'b world_state \<Rightarrow> bool" where
  "others_kept oid w w' =
     (\<forall>i og. i \<noteq> oid \<longrightarrow> getOrganism (wd_manager w) i = Some og \<longrightarrow>
        getOrganism (wd_manager w') i = Some og \<and> (\<forall>q. ownerAt w' q = i \<longrightarrow> ownerAt w q = i))"

definition frame_ok :: "nat \<Rightarrow> 'b world_state \<Rightarrow> 'b world_state \<Rightarrow> bool" where
  "frame_ok oid w w' = (tree_ok oid w' \<and> others_kept oid w w')"

lemma others_kept_refl: "others_kept oid w w"
  by (simp add: others_kept_def)

lemma others_kept_trans: "others_kept oid w w1 \<Longrightarrow> others_kept oid w1 w2 \<Longrightarrow> others_kept oid w w2"
  unfolding others_kept_def by blast

lemma frame_trans: "others_kept oid w w1 \<Longrightarrow> frame_ok oid w1 w2 \<Longrightarrow> frame_ok oid w w2"
  unfolding frame_ok_def using others_kept_trans by blast

lemma settled_mono:
  assumes "settled oid w og" "og_rigid og' = og_rigid og" "og_shape og' = og_shape og"
    and "\<And>q. ownerAt w' q = oid \<Longrightarrow> ownerAt w q = oid"
  shows "settled oid w' og'"
  using assms unfolding settled_def by metis

lemma tree_okI:
  assumes "world_ok w" "theTree oid w = Some (og, t)" "og_type og = Org_Tree" "settled oid w og" "tree_state_ok t"
  shows "tree_ok oid w"
  using assms unfolding tree_ok_def by blast

lemma tree_okE:
  assumes "tree_ok oid w"
  obtains og t where "world_ok w" "theTree oid w = Some (og, t)" "og_type og = Org_Tree" "settled oid w og" "tree_state_ok t"
    "getOrganism (wd_manager w) oid = Some og" "oid \<noteq> INVALID_ORGANISM_ID"
proof -
  obtain og t where o: "world_ok w" "theTree oid w = Some (og, t)" "og_type og = Org_Tree" "settled oid w og" "tree_state_ok t"
    using assms unfolding tree_ok_def by blast
  then have g: "getOrganism (wd_manager w) oid = Some og" by (simp add: theTree_iff)
  then have "oid \<noteq> INVALID_ORGANISM_ID" using o(1) unfolding world_ok_def tracked_def getOrganism_def by blast
  with o g that show ?thesis by blast
qed

lemma tree_ok_other:
  assumes "tree_ok i w" "world_ok w'" "others_kept oid w w'" "i \<noteq> oid"
  shows "tree_ok i w'"
proof -
  obtain og t where o: "theTree i w = Some (og, t)" "og_type og = Org_Tree" "settled i w og" "tree_state_ok t"
    "getOrganism (wd_manager w) i = Some og" by (rule tree_okE [OF assms(1)]) blast
  have k: "getOrganism (wd_manager w') i = Some og" "\<And>q. ownerAt w' q = i \<Longrightarrow> ownerAt w q = i"
    using assms(3,4) o(5) unfolding others_kept_def by blast+
  have "theTree i w' = Some (og, t)" using o(1) k(1) by (simp add: theTree_iff)
  from tree_okI [OF assms(2) this o(2) settled_mono [OF o(3) refl refl] o(4)] k(2) show ?thesis by blast
qed

section \<open>Steps that leave the body's shape\<close>

definition quiet :: "('b organism \<Rightarrow> 'b organism) \<Rightarrow> bool" where
  "quiet f = (\<forall>og. og_cells (f og) = og_cells og \<and> og_shape (f og) = og_shape og \<and> og_rigid (f og) = og_rigid og \<and>
     og_type (f og) = og_type og)"

lemma onBody_comp: "onBody oid f (onBody oid g w) = onBody oid (f \<circ> g) w"
  by (auto simp: onBody_def updateOrganism_def option.map_comp)

lemma quiet_comp: "quiet f \<Longrightarrow> quiet g \<Longrightarrow> quiet (f \<circ> g)"
  by (simp add: quiet_def)

lemma quiet_updateTree [simp]: "quiet (updateTree f)"
  by (simp add: quiet_def)

lemma quiet_record [simp]: "quiet (recordCommandSignature s)" "quiet (recordCommandOutcomeSignature s)"
  by (simp_all add: quiet_def recordCommandSignature_def recordCommandOutcomeSignature_def)

lemma others_kept_onBody: "others_kept oid w (onBody oid f w)"
  by (simp add: others_kept_def onBody_organism)

lemma quiet_step:
  assumes ok: "tree_ok oid w" and f: "quiet f" and t: "theTree oid (onBody oid f w) = Some (og1, t1)" "tree_state_ok t1"
  shows "frame_ok oid w (onBody oid f w)"
proof -
  obtain og where o: "world_ok w" "og_type og = Org_Tree" "settled oid w og" "getOrganism (wd_manager w) oid = Some og"
    by (rule tree_okE [OF ok]) blast
  have og1: "og1 = f og" using t(1) o(4) by (simp add: theTree_iff onBody_organism)
  have "settled oid (onBody oid f w) og1"
    using settled_mono [OF o(3), of og1 "onBody oid f w"] f unfolding og1 quiet_def by simp
  moreover have "world_ok (onBody oid f w)" using world_ok_onBody [OF o(1)] f by (simp add: quiet_def)
  moreover have "og_type og1 = Org_Tree" using o(2) f unfolding og1 quiet_def by simp
  ultimately show ?thesis
    unfolding frame_ok_def using tree_okI t others_kept_onBody by blast
qed

lemma onTree_step:
  assumes "tree_ok oid w" "\<And>og t. theTree oid w = Some (og, t) \<Longrightarrow> tree_state_ok t \<Longrightarrow> tree_state_ok (f t)"
  shows "frame_ok oid w (onTree oid f w)"
proof -
  obtain og t where o: "theTree oid w = Some (og, t)" "tree_state_ok t" by (rule tree_okE [OF assms(1)]) blast
  then have "theTree oid (onBody oid (updateTree f) w) = Some (updateTree f og, f t)"
    using theTree_onTree [of oid f w] by (simp add: onTree_def)
  from quiet_step [OF assms(1) _ this assms(2) [OF o]] show ?thesis by (simp add: onTree_def)
qed

lemma onBody_step:
  assumes "tree_ok oid w" "quiet f" "\<And>og. og_tree (f og) = og_tree og"
  shows "frame_ok oid w (onBody oid f w)"
proof -
  obtain og t where o: "theTree oid w = Some (og, t)" "tree_state_ok t" by (rule tree_okE [OF assms(1)]) blast
  then have "theTree oid (onBody oid f w) = Some (f og, t)" using theTree_onBody [OF assms(3)] by simp
  from quiet_step [OF assms(1,2) this o(2)] show ?thesis .
qed

lemma handleCommand_quiet:
  "handleCommand oid cmd seed w = Some w1 \<Longrightarrow> \<exists>f. quiet f \<and> w1 = onBody oid f w"
proof -
  have same: "w = onBody oid (\<lambda>og. og) w" by (simp add: onBody_def updateOrganism_def option.map_ident)
  have q: "quiet (\<lambda>og. og)" by (simp add: quiet_def)
  have rej: "rejectWith oid cmd seed r w = onBody oid (updateTree rejectCommand \<circ>
      recordCommandOutcomeSignature (treeCommandOutcomeSignature cmd seed r)) w" for r
    by (simp add: rejectWith_def onTree_def onBody_comp)
  have start: "\<exists>f. quiet f \<and> w1 = onBody oid f w" if s: "startCommand oid cmd seed w = Some w1"
  proof -
    obtain og t where "theTree oid w = Some (og, t)" using s by (auto simp: startCommand_def bind_eq_Some_conv)
    then have "w1 = w \<or> (\<exists>r. w1 = rejectWith oid cmd seed r w) \<or> w1 = onTree oid (beginCommand cmd seed) w"
      using s by (simp add: startCommand_def Let_def split: if_splits) blast+
    then show ?thesis unfolding rej onTree_def using same q quiet_comp quiet_updateTree quiet_record by metis
  qed
  have cancel: "\<exists>f. quiet f \<and> onTree oid cancelCommand w = onBody oid f w"
    unfolding onTree_def using quiet_updateTree by blast
  have wait: "\<exists>f. quiet f \<and> w = onBody oid f w" using same q by blast
  assume h: "handleCommand oid cmd seed w = Some w1"
  then consider "w1 = w" | "w1 = onTree oid cancelCommand w" | "startCommand oid cmd seed w = Some w1"
    by (cases cmd) (simp_all add: handleCommand_def)
  then show "\<exists>f. quiet f \<and> w1 = onBody oid f w" using wait cancel start by cases simp_all
qed

lemma handleCommand_water:
  assumes h: "handleCommand oid cmd seed w = Some w1" and tr: "theTree oid w = Some (og, t)" and t1: "theTree oid w1 = Some (og1, t1)"
  shows "tree_water t1 = tree_water t"
proof -
  obtain og2 where rej: "theTree oid (rejectWith oid cmd seed r w) = Some (og2 r, rejectCommand t)" for r
    using rejectWith_tree [OF tr] by metis
  have parts: "tree_water (cancelCommand t) = tree_water t" "tree_water (beginCommand cmd seed t) = tree_water t"
    by (simp_all add: cancelCommand_def beginCommand_def reserveEnergy_def Let_def split: option.split)
  consider "w1 = w" | "w1 = onTree oid cancelCommand w" | r where "w1 = rejectWith oid cmd seed r w"
    | "w1 = onTree oid (beginCommand cmd seed) w"
    using h tr by (cases cmd) (auto simp: handleCommand_def startCommand_def Let_def split: if_splits)
  then show ?thesis using t1 tr rej parts by cases auto
qed

lemma handleCommand_step:
  assumes ok: "tree_ok oid w"
  shows "\<exists>w1. handleCommand oid cmd seed w = Some w1 \<and> frame_ok oid w w1"
proof -
  obtain og t where o: "theTree oid w = Some (og, t)" "tree_state_ok t" by (rule tree_okE [OF ok]) blast
  obtain w1 og1 t1 where h: "handleCommand oid cmd seed w = Some w1" "theTree oid w1 = Some (og1, t1)" "reserved_ok t1" "energy_ok t1"
    using handleCommand_tree [OF o(1)] o(2) unfolding tree_state_ok_def by blast
  obtain f where f: "quiet f" "w1 = onBody oid f w" using handleCommand_quiet [OF h(1)] by blast
  have "tree_state_ok t1" using h(3,4) handleCommand_water [OF h(1) o(1) h(2)] o(2) by (simp add: tree_state_ok_def water_ok_def)
  with quiet_step [OF ok f(1) h(2) [unfolded f(2)]] h(1) f(2) show ?thesis by blast
qed

section \<open>The steps of a frame\<close>

lemma recells_getOrganism:
  assumes "recells oid m m'"
  shows "i \<noteq> oid \<Longrightarrow> getOrganism m' i = getOrganism m i"
    "getOrganism m oid = Some og \<Longrightarrow> \<exists>cs. getOrganism m' oid = Some (og\<lparr>og_cells := cs\<rparr>)"
  using assms unfolding recells_def getOrganism_def by auto

text \<open>A step that changes only cell sets, and takes no cell from another organism's view of its own.\<close>

lemma recells_frame:
  assumes ok: "tree_ok oid w" and w': "world_ok w'" "recells oid (wd_manager w) (wd_manager w')"
    and own: "\<And>q. ownerAt w' q = INVALID_ORGANISM_ID \<or> ownerAt w' q = ownerAt w q"
  shows "frame_ok oid w w'"
proof -
  obtain og t where o: "world_ok w" "theTree oid w = Some (og, t)" "og_type og = Org_Tree" "settled oid w og" "tree_state_ok t"
    "getOrganism (wd_manager w) oid = Some og" "oid \<noteq> INVALID_ORGANISM_ID" by (rule tree_okE [OF ok]) blast
  obtain cs where cs: "getOrganism (wd_manager w') oid = Some (og\<lparr>og_cells := cs\<rparr>)"
    using recells_getOrganism(2) [OF w'(2) o(6)] by blast
  have "theTree oid w' = Some (og\<lparr>og_cells := cs\<rparr>, t)" using cs o(2) by (simp add: theTree_iff)
  moreover have "settled oid w' (og\<lparr>og_cells := cs\<rparr>)"
    using settled_mono [OF o(4), of "og\<lparr>og_cells := cs\<rparr>" w'] own o(7) by fastforce
  ultimately have "tree_ok oid w'" using tree_okI [OF w'(1)] o(3,5) by fastforce
  moreover have "others_kept oid w w'"
    unfolding others_kept_def
  proof (intro allI impI conjI)
    fix i og q assume i: "i \<noteq> oid" "getOrganism (wd_manager w) i = Some og"
    show "getOrganism (wd_manager w') i = Some og" using recells_getOrganism(1) [OF w'(2) i(1)] i(2) by simp
    have "i \<noteq> INVALID_ORGANISM_ID" using i(2) o(1) unfolding world_ok_def tracked_def getOrganism_def by blast
    then show "ownerAt w q = i" if "ownerAt w' q = i" using own [of q] that by auto
  qed
  ultimately show ?thesis by (simp add: frame_ok_def)
qed

lemma prune_step:
  assumes ok: "tree_ok oid w"
  shows "\<exists>w1. pruneDisconnectedCells oid w = Some w1 \<and> frame_ok oid w w1"
proof -
  obtain og where o: "world_ok w" "getOrganism (wd_manager w) oid = Some og" by (rule tree_okE [OF ok]) blast
  let ?ps = "filter (stale oid w) (og_cells og)"
  let ?w1 = "if ?ps \<noteq> [] then w\<lparr>wd_manager := removeCellsFromOrganism oid ?ps (wd_manager w)\<rparr> else w"
  have t: "tracked (wd_manager w)" using o(1) by (simp add: world_ok_def)
  have "om_organisms (wd_manager w) oid \<noteq> None" using o(2) by (simp add: getOrganism_def)
  note e = removeCells_effect [OF tracked_shape [OF t] this, of ?ps]
  have "world_ok ?w1"
    using o(1) tracked_removeCells [OF t, of oid ?ps] remove_one_dims [of oid ?ps "wd_manager w"]
    by (auto intro!: world_ok_manager simp: world_ok_def)
  moreover have "recells oid (wd_manager w) (wd_manager ?w1)" using recells_remove [of oid "wd_manager w" ?ps] by simp
  moreover have "ownerAt ?w1 q = INVALID_ORGANISM_ID \<or> ownerAt ?w1 q = ownerAt w q" for q
    using e by (simp add: ownerAt_def)
  ultimately have "frame_ok oid w ?w1" by (rule recells_frame [OF ok])
  moreover have "pruneDisconnectedCells oid w = Some ?w1" using o(2) by (simp add: pruneDisconnectedCells_def Let_def)
  ultimately show ?thesis by blast
qed

text \<open>Carrying out a valid command.\<close>

lemma executeValid_step:
  assumes ok: "tree_ok oid w" and tr: "theTree oid w = Some (og, t)"
    and v: "succeeded (treeCommandValidate oid t w cmd b)" and e: "executeValid ruleBased oid cmd w = (r, w1)"
  shows "frame_ok oid w w1"
proof -
  obtain og' t' where o: "world_ok w" "og_type og = Org_Tree" "settled oid w og" "tree_state_ok t"
    "getOrganism (wd_manager w) oid = Some og" "oid \<noteq> INVALID_ORGANISM_ID"
    using tree_okE [OF ok] tr by (metis option.inject prod.inject)
  note ev = executeValid_tree [OF o(1) tr v e]
  obtain og1 t1 where tr1: "theTree oid w1 = Some (og1, t1)"
    "t1 = (if getCommandType cmd = Cmd_ProduceSeed then incrementSeedsProduced t else t)"
    using ev(3) by blast
  have t1: "tree_state_ok t1"
    using o(4) unfolding tr1(2)
    by (auto simp: tree_state_ok_def incrementSeedsProduced_def reserved_ok_def energy_ok_def water_ok_def split: option.splits)
  have grow: "frame_ok oid w (growCell oid p m w)" for p m
  proof -
    let ?og = "addCellToLocalShape (fst p - fst (getAnchorCell og), snd p - snd (getAnchorCell og)) m 1 og"
    obtain rb where rb: "og_rigid og = Some rb" "rb_shape rb = og_shape og"
      "rb_lastOwner rb = oid \<or> rb_lastOwner rb = INVALID_ORGANISM_ID"
      "\<And>q. ownerAt w q = oid \<Longrightarrow> rb_lastOwner rb = oid \<and> q \<in> set (rb_occupied rb)"
      using o(3) unfolding settled_def by blast
    have own: "ownerAt (growCell oid p m w) = ownerAt w" by (simp add: growCell_def)
    have "settled oid (growCell oid p m w) ?og"
      using rb unfolding settled_def own by (simp add: rb_addCell_def)
    moreover have "world_ok (growCell oid p m w)"
      using o(1) by (auto simp: growCell_def Let_def intro!: world_ok_onBody)
    ultimately have "tree_ok oid (growCell oid p m w)"
      using tree_okI growCell_tree [OF tr, of p m] o(2,4) by fastforce
    then show ?thesis unfolding frame_ok_def growCell_def by (simp add: others_kept_onBody)
  qed
  show ?thesis
  proof (cases cmd)
    case (ProduceSeedCommand p s)
    obtain n w2 where c: "createTree ruleBased p None \<lparr>sp_startingEnergy = 0, sp_passive = True, sp_seedParent = oid\<rparr> w = (n, w2)"
      by fastforce
    have "inBounds w p" using validate_target(1) [OF v] ProduceSeedCommand by simp
    note ct = createTree_effect [OF o(1) this c]
    have w1: "w1 = onTree oid incrementSeedsProduced w2" using e c ProduceSeedCommand by simp
    have n: "n \<noteq> oid" using ct(5) o(5) by auto
    have keep: "ownerAt w2 q = i \<Longrightarrow> getOrganism (wd_manager w) i \<noteq> None \<Longrightarrow> ownerAt w q = i" for q i
      using ct(3,5) by (auto split: if_splits)
    have others: "others_kept oid w w2"
      unfolding others_kept_def using ct(4,5) keep by (metis option.distinct(1))
    have "theTree oid w2 = Some (og, t)" using tr ct(4) [of oid] n by (simp add: theTree_def)
    moreover have "settled oid w2 og" using settled_mono [OF o(3) refl refl, of w2] keep o(5) by blast
    ultimately have "tree_ok oid w2" using tree_okI [OF ct(2)] o(2,4) by blast
    moreover have "tree_state_ok (incrementSeedsProduced t)" if "tree_state_ok t" for t :: "'a tree_state"
      using that by (auto simp: tree_state_ok_def incrementSeedsProduced_def reserved_ok_def energy_ok_def water_ok_def split: option.splits)
    ultimately have "frame_ok oid w2 (onTree oid incrementSeedsProduced w2)" by (intro onTree_step)
    then show ?thesis unfolding w1 by (rule frame_trans [OF others])
  qed (use e grow ok others_kept_refl in \<open>auto simp: frame_ok_def\<close>)
qed

lemma tree_state_ok_cong:
  assumes "tree_command t' = tree_command t" "tree_hasReserved t' = tree_hasReserved t" "tree_reservedType t' = tree_reservedType t"
    "tree_reserved t' = tree_reserved t" "tree_energy t' = tree_energy t" "tree_water t' = tree_water t"
  shows "tree_state_ok t' = tree_state_ok t"
  using assms by (cases "tree_command t") (simp_all add: tree_state_ok_def reserved_ok_def energy_ok_def water_ok_def)

lemma settled_command_ok:
  assumes "tree_state_ok t"
  shows "tree_state_ok ((settleCommand a t)\<lparr>tree_command := None, tree_commandSeed := None\<rparr>)"
  using assms settle_energy [of t a]
  by (simp add: tree_state_ok_def reserved_ok_def energy_ok_def water_ok_def settleCommand_def)

lemma execute_step:
  assumes ok: "tree_ok oid w" and tr: "theTree oid w = Some (og, t)"
  shows "\<exists>x w1. execute ruleBased oid cmd w = Some (x, w1) \<and> frame_ok oid w w1"
proof -
  obtain r w1 where ev: "executeValid ruleBased oid cmd w = (r, w1)" by fastforce
  have same: "frame_ok oid w w" using ok others_kept_refl by (simp add: frame_ok_def)
  show ?thesis
  proof (cases "succeeded (treeCommandValidate oid t w cmd False)")
    case True
    from executeValid_step [OF ok tr True ev] same show ?thesis using tr ev by (auto simp: execute_def Let_def)
  next
    case False
    then show ?thesis using tr same by (simp add: execute_def Let_def)
  qed
qed

lemma tick_step:
  assumes ok: "tree_ok oid w"
  shows "\<exists>w1. tickCommand ruleBased oid dt w = Some w1 \<and> frame_ok oid w w1"
proof -
  obtain og t where o: "theTree oid w = Some (og, t)" "tree_state_ok t" by (rule tree_okE [OF ok]) blast
  show ?thesis
  proof (cases "tree_command t")
    case None
    then show ?thesis using o(1) ok others_kept_refl by (auto simp: tickCommand_def frame_ok_def)
  next
    case (Some c)
    let ?f = "\<lambda>t. t\<lparr>tree_timeRemaining := tree_timeRemaining t - dt\<rparr>"
    let ?w = "onTree oid ?f w"
    have f: "tree_state_ok t \<Longrightarrow> tree_state_ok (?f t)" for t :: "'a tree_state"
      by (subst tree_state_ok_cong [of _ t]) simp_all
    have w: "frame_ok oid w ?w" by (rule onTree_step [OF ok f])
    then have ok1: "tree_ok oid ?w" by (simp add: frame_ok_def)
    have tr: "theTree oid ?w = Some (updateTree ?f og, ?f t)" using o(1) by simp
    show ?thesis
    proof (cases "tree_timeRemaining t - dt \<le> 0")
      case False
      then show ?thesis using o(1) Some w by (simp add: tickCommand_def Let_def)
    next
      case True
      obtain x w1 where x: "execute ruleBased oid c ?w = Some (x, w1)" "frame_ok oid ?w w1"
        using execute_step [OF ok1 tr] by blast
      have ok2: "tree_ok oid w1" using x(2) by (simp add: frame_ok_def)
      obtain og2 t2 where o2: "theTree oid w1 = Some (og2, t2)" "tree_state_ok t2" by (rule tree_okE [OF ok2]) blast
      let ?seed = "case tree_commandSeed t of Some p \<Rightarrow> p | None \<Rightarrow> getAnchorCell og"
      let ?s = "recordCommandOutcomeSignature (treeCommandOutcomeSignature c ?seed (xr_result x))"
      let ?r = "\<lambda>t. t\<lparr>tree_command := None, tree_commandSeed := None\<rparr>"
      let ?F = "updateTree ?r \<circ> (updateTree (settleCommand (succeeded x)) \<circ> ?s)"
      have "executeCommand ruleBased oid ?w = Some (onTree oid (settleCommand (succeeded x)) (onBody oid ?s w1))"
        using o(1) Some x(1) by (simp add: executeCommand_def Let_def cong: option.case_cong)
      then have tick: "tickCommand ruleBased oid dt w = Some (onBody oid ?F w1)"
        using o(1) Some True by (simp add: tickCommand_def Let_def onTree_def onBody_comp)
      have "theTree oid (onBody oid ?F w1) = Some (?F og2, ?r (settleCommand (succeeded x) t2))"
        using o2(1) by (simp add: theTree_iff onBody_organism)
      moreover have "quiet ?F" by (intro quiet_comp quiet_updateTree quiet_record)
      ultimately have "frame_ok oid w1 (onBody oid ?F w1)" using quiet_step [OF ok2] settled_command_ok [OF o2(2)] by blast
      then show ?thesis using tick w x(2) frame_trans unfolding frame_ok_def by (meson others_kept_trans)
    qed
  qed
qed

lemma set_fold_insertCell: "set (fold insertCell ps cs) = set cs \<union> set ps"
  by (induction ps arbitrary: cs) auto

lemma move_step:
  assumes ok: "tree_ok oid w"
  shows "\<exists>w1. moveTree oid dt w = Some w1 \<and> frame_ok oid w w1"
proof -
  obtain og t where o: "world_ok w" "theTree oid w = Some (og, t)" "og_type og = Org_Tree" "settled oid w og" "tree_state_ok t"
    "getOrganism (wd_manager w) oid = Some og" "oid \<noteq> INVALID_ORGANISM_ID" by (rule tree_okE [OF ok]) blast
  obtain rb where rb: "og_rigid og = Some rb" "rb_shape rb = og_shape og"
    "rb_lastOwner rb = oid \<or> rb_lastOwner rb = INVALID_ORGANISM_ID"
    "\<And>q. ownerAt w q = oid \<Longrightarrow> rb_lastOwner rb = oid \<and> q \<in> set (rb_occupied rb)"
    using o(4) unfolding settled_def by blast
  have g: "om_organisms (wd_manager w) oid = Some og" using o(6) by (simp add: getOrganism_def)
  obtain b w1 where u: "rb_update oid (og_mass og) (og_shape og) w dt zero_vec (1 / 100) (og_position og) (og_velocity og) rb = Some (b, w1)"
    "world_ok w1" "same_world w w1" "recells oid (wd_manager w) (wd_manager w1)" "rb_lastOwner (bm_rigid b) = oid"
    "rb_shape (bm_rigid b) = rb_shape rb"
    "\<And>q. ownerAt w1 q = (if q \<in> set (rb_occupied (bm_rigid b)) then oid
      else if q \<in> set (rb_occupied rb) \<and> ownerAt w q = rb_lastOwner rb then INVALID_ORGANISM_ID else ownerAt w q)"
    by (rule rb_update_effect [OF o(1) g rb(3), of "og_mass og" "og_shape og" dt zero_vec "1 / 100" "og_position og" "og_velocity og"]) blast
  let ?occ = "rb_occupied (bm_rigid b)"
  let ?f = "\<lambda>og. og\<lparr>og_position := bm_position b, og_velocity := bm_velocity b, og_rigid := Some (bm_rigid b),
      og_occupied := ?occ, og_cells := fold insertCell ?occ []\<rparr>"
  let ?w = "onBody oid ?f w1"
  have move: "moveTree oid dt w = Some ?w" using o(2) rb(1) u(1) by (simp add: moveTree_def)
  obtain cs where cs: "getOrganism (wd_manager w1) oid = Some (og\<lparr>og_cells := cs\<rparr>)"
    using recells_getOrganism(2) [OF u(4) o(6)] by blast
  have own: "ownerAt ?w q = oid \<Longrightarrow> q \<in> set ?occ" for q
    using u(7) [of q] rb(4) [of q] o(7) by (auto split: if_splits)
  have og1: "getOrganism (wd_manager ?w) oid = Some (?f (og\<lparr>og_cells := cs\<rparr>))"
    using cs by (simp only: onBody_organism if_True option.map refl)
  have tr: "theTree oid ?w = Some (?f (og\<lparr>og_cells := cs\<rparr>), t)" using og1 o(2) by (simp add: theTree_iff)
  have "settled oid ?w (?f (og\<lparr>og_cells := cs\<rparr>))"
    using own u(5,6) rb(2) unfolding settled_def by auto
  moreover have "world_ok ?w"
  proof -
    have t1: "tracked (wd_manager w1)" using u(2) by (simp add: world_ok_def)
    have "tracked (updateOrganism oid ?f (wd_manager w1))"
    proof (rule tracked_step [OF t1])
      show "om_at (updateOrganism oid ?f (wd_manager w1)) q = INVALID_ORGANISM_ID \<or>
          q \<in> cellsOf (updateOrganism oid ?f (wd_manager w1)) (om_at (updateOrganism oid ?f (wd_manager w1)) q)" for q
      proof (cases "om_at (wd_manager w1) q = oid")
        case True
        then have "q \<in> set ?occ" using own [of q] by (simp add: ownerAt_def)
        then show ?thesis using True cs by (simp add: getOrganism_def set_fold_insertCell)
      next
        case False
        then show ?thesis using tracked_owner [OF t1, of q] by simp
      qed
    qed (use tracked_shape [OF t1] in \<open>auto simp: dom_def\<close>)
    then show ?thesis
      using u(2) unfolding onBody_def by (intro world_ok_manager) (simp_all add: world_ok_def updateOrganism_def)
  qed
  ultimately have "tree_ok oid ?w" using tree_okI [OF _ tr] o(3,5) by simp
  moreover have "others_kept oid w ?w"
    unfolding others_kept_def
  proof (intro allI impI conjI)
    fix i og' q assume i: "i \<noteq> oid" "getOrganism (wd_manager w) i = Some og'"
    show "getOrganism (wd_manager ?w) i = Some og'"
      using recells_getOrganism(1) [OF u(4) i(1)] i by (simp add: onBody_organism)
    have "i \<noteq> INVALID_ORGANISM_ID" using i(2) o(1) unfolding world_ok_def tracked_def getOrganism_def by blast
    then show "ownerAt w q = i" if "ownerAt ?w q = i" using that u(7) [of q] i(1) by (auto split: if_splits)
  qed
  ultimately show ?thesis using move unfolding frame_ok_def by blast
qed

lemma resource_frames:
  "tree_command (photosynthesize ul s dt t) = tree_command t" "tree_command (decayWater dt t) = tree_command t"
  "tree_command (absorbWater g dt t) = tree_command t"
  "tree_hasReserved (photosynthesize ul s dt t) = tree_hasReserved t" "tree_hasReserved (decayWater dt t) = tree_hasReserved t"
  "tree_hasReserved (absorbWater g dt t) = tree_hasReserved t"
  "tree_reservedType (photosynthesize ul s dt t) = tree_reservedType t" "tree_reservedType (decayWater dt t) = tree_reservedType t"
  "tree_reservedType (absorbWater g dt t) = tree_reservedType t"
  "tree_reserved (photosynthesize ul s dt t) = tree_reserved t" "tree_reserved (decayWater dt t) = tree_reserved t"
  "tree_reserved (absorbWater g dt t) = tree_reserved t"
  by (simp_all add: photosynthesize_def decayWater_def absorbWater_def Let_def)

lemma photosynthesize_ok: "energy_ok (photosynthesize ul s dt t) \<and> water_ok (photosynthesize ul s dt t)"
proof -
  have "(0 :: real) \<le> kEnergyCap" "(0 :: real) \<le> kWaterCapacity" by (simp_all add: kEnergyCap_def kWaterCapacity_def)
  note c = clamp_bounds [OF this(1)] clamp_bounds [OF this(2)]
  have "\<exists>e x. tree_energy (photosynthesize ul s dt t) = clamp e 0 kEnergyCap \<and> tree_water (photosynthesize ul s dt t) = clamp x 0 kWaterCapacity"
    unfolding photosynthesize_def Let_def by (intro exI conjI) simp_all
  then show ?thesis using c unfolding energy_ok_def water_ok_def by metis
qed

lemma resources_step:
  assumes ok: "tree_ok oid w"
  shows "\<exists>w1. updateResources oid dt w = Some w1 \<and> frame_ok oid w w1"
proof -
  obtain og t where o: "theTree oid w = Some (og, t)" by (rule tree_okE [OF ok]) blast
  let ?s = "scanCells w (og_cells og)"
  let ?f = "photosynthesize (useLight w) ?s dt \<circ> decayWater dt \<circ> absorbWater (rs_water ?s) dt"
  have "tree_state_ok (?f t)" if "tree_state_ok t" for t :: "'a tree_state"
  proof -
    have "energy_ok (?f t) \<and> water_ok (?f t)" unfolding comp_apply by (rule photosynthesize_ok)
    moreover have "reserved_ok (?f t)"
      using that unfolding tree_state_ok_def reserved_ok_def comp_apply resource_frames by simp
    ultimately show ?thesis by (simp add: tree_state_ok_def)
  qed
  then have "frame_ok oid w (onTree oid ?f w)" by (intro onTree_step [OF ok])
  then show ?thesis using o ok by (simp add: updateResources_def Let_def frame_ok_def others_kept_refl)
qed

lemma stage_step:
  assumes ok: "tree_ok oid w"
  shows "\<exists>w1. updateStage oid w = Some w1 \<and> frame_ok oid w w1"
proof -
  obtain og t where o: "theTree oid w = Some (og, t)" by (rule tree_okE [OF ok]) blast
  have "tree_state_ok (t\<lparr>tree_stage := x\<rparr>)" if "tree_state_ok t" for x and t :: "'a tree_state"
    using that by (subst tree_state_ok_cong [of _ t]) simp_all
  then have "frame_ok oid w (onTree oid (\<lambda>t. t\<lparr>tree_stage := computeDynamicStage og (countTreeMaterials og)\<rparr>) w)"
    by (intro onTree_step [OF ok])
  then show ?thesis using o by (simp add: updateStage_def)
qed

lemma brain_step:
  assumes ok: "tree_ok oid w"
  shows "\<exists>w1. processBrainDecision decide oid w = Some w1 \<and> frame_ok oid w w1"
proof -
  obtain og t where o: "theTree oid w = Some (og, t)" by (rule tree_okE [OF ok]) blast
  show ?thesis
  proof (cases "tree_brain t")
    case None
    then show ?thesis using o ok others_kept_refl by (auto simp: processBrainDecision_def frame_ok_def)
  next
    case (Some brain)
    let ?s = "gatherSensoryData oid og t w"
    obtain cmd b1 where d: "decide brain ?s = (cmd, b1)" by fastforce
    let ?w1 = "onTree oid (\<lambda>t. t\<lparr>tree_hasLastResult := False, tree_brain := Some b1\<rparr>) w"
    let ?w2 = "onBody oid (recordCommandSignature (treeCommandSignature cmd (ts_seed ?s))) ?w1"
    have "tree_state_ok (t\<lparr>tree_hasLastResult := False, tree_brain := Some b1\<rparr>)" if "tree_state_ok t" for t
      using that by (subst tree_state_ok_cong [of _ t]) simp_all
    then have w1: "frame_ok oid w ?w1" by (intro onTree_step [OF ok])
    then have w2: "frame_ok oid ?w1 ?w2" unfolding frame_ok_def [of oid w] by (intro onBody_step) simp_all
    obtain w3 where w3: "handleCommand oid cmd (ts_seed ?s) ?w2 = Some w3" "frame_ok oid ?w2 w3"
      using handleCommand_step w2 unfolding frame_ok_def by blast
    have "frame_ok oid w w3"
      using frame_trans [OF others_kept_trans] w1 w2 w3(2) unfolding frame_ok_def by blast
    then show ?thesis using o Some d w3(1) by (simp add: processBrainDecision_def Let_def)
  qed
qed

lemma frame_then:
  assumes w1: "frame_ok oid w w1" and f: "\<And>v. tree_ok oid v \<Longrightarrow> \<exists>v'. f v = Some v' \<and> frame_ok oid v v'"
  obtains w2 where "f w1 = Some w2" "frame_ok oid w w2"
proof -
  obtain w2 where "f w1 = Some w2" "frame_ok oid w1 w2" using f [of w1] w1 unfolding frame_ok_def [of oid w w1] by blast
  with w1 that show ?thesis using frame_trans [of oid w w1 w2] unfolding frame_ok_def [of oid w w1] by blast
qed

lemma tree_update_frame:
  assumes ok: "tree_ok oid w"
  shows "\<exists>w'. tree_update decide ruleBased oid dt w = Some w' \<and> frame_ok oid w w'"
proof -
  let ?f = "\<lambda>og. og\<lparr>og_age := og_age og + dt\<rparr>"
  obtain w1 where w1: "pruneDisconnectedCells oid w = Some w1" "frame_ok oid w w1" using prune_step [OF ok] by blast
  have age: "\<exists>v'. Some (onBody oid ?f v) = Some v' \<and> frame_ok oid v v'" if "tree_ok oid v" for v :: "'a world_state"
    using onBody_step [OF that, of ?f] by (simp add: quiet_def)
  have a: "frame_ok oid w (onBody oid ?f w1)" by (rule frame_then [OF w1(2) age]) simp_all
  obtain w2 where w2: "tickCommand ruleBased oid dt (onBody oid ?f w1) = Some w2" "frame_ok oid w w2"
    by (rule frame_then [OF a tick_step])
  obtain w3 where w3: "moveTree oid dt w2 = Some w3" "frame_ok oid w w3" by (rule frame_then [OF w2(2) move_step])
  obtain w4 where w4: "updateResources oid dt w3 = Some w4" "frame_ok oid w w4" by (rule frame_then [OF w3(2) resources_step])
  obtain w5 where w5: "updateStage oid w4 = Some w5" "frame_ok oid w w5" by (rule frame_then [OF w4(2) stage_step])
  obtain w6 where w6: "processBrainDecision decide oid w5 = Some w6" "frame_ok oid w w6" by (rule frame_then [OF w5(2) brain_step])
  have "tree_update decide ruleBased oid dt w = Some w6"
    by (simp add: tree_update_def w1(1) w2(1) w3(1) w4(1) w5(1) w6(1))
  with w6(2) show ?thesis by blast
qed

text \<open>A tree on an empty grid after its first projection, for the witnesses.\<close>

definition settled_world :: "unit world_state" where
  "settled_world = onBody 1 (\<lambda>og. og\<lparr>og_rigid := map_option (\<lambda>rb. rb\<lparr>rb_occupied := [(1, 0)], rb_lastOwner := 1\<rparr>) (og_rigid og)\<rparr>) tree_world"

lemma mem_ownedCells:
  assumes "world_ok w" "oid \<noteq> INVALID_ORGANISM_ID"
  shows "q \<in> set (ownedCells oid w) \<longleftrightarrow> ownerAt w q = oid"
proof -
  have "ownerAt w q = oid \<Longrightarrow> inBounds w q" using ownerAt_inBounds [OF assms(1), of q] assms(2) by auto
  moreover have "inBounds w q \<longleftrightarrow> fst q \<in> set [0..wd_width w - 1] \<and> snd q \<in> set [0..wd_height w - 1]"
    by (auto simp: inBounds_def)
  moreover have "q \<in> set (concat (map (\<lambda>y. map (\<lambda>x. (x, y)) xs) ys)) \<longleftrightarrow> fst q \<in> set xs \<and> snd q \<in> set ys" for xs ys
    by (cases q) auto
  ultimately show ?thesis unfolding ownedCells_def set_filter mem_Collect_eq by blast
qed

lemma settled_world_ok: "tree_ok 1 settled_world"
proof -
  let ?f = "\<lambda>og. og\<lparr>og_rigid := map_option (\<lambda>rb. rb\<lparr>rb_occupied := [(1, 0)], rb_lastOwner := 1\<rparr>) (og_rigid og)\<rparr>"
  obtain og t where t: "theTree 1 tree_world = Some (og, t)" "og_type og = Org_Tree" "tree_energy t = 50"
    "tree_command t = None" "\<not> tree_hasReserved t" "tree_reserved t = 0" "tree_water t = 0" by (rule tree_world_tree) blast
  have "tree_state_ok t" using t(3-) by (simp add: tree_state_ok_def reserved_ok_def energy_ok_def water_ok_def kEnergyCap_def kWaterCapacity_def)
  moreover have "theTree 1 settled_world = Some (?f og, t)"
    using theTree_onBody [of ?f 1 tree_world] t(1) unfolding settled_world_def by simp
  moreover have ok: "world_ok settled_world"
    unfolding settled_world_def by (rule world_ok_onBody [OF tree_world_ok]) simp
  moreover have "settled 1 settled_world (?f og)"
  proof -
    have "map_option (\<lambda>(og, t). map_option (\<lambda>rb. (rb_shape rb, og_shape og)) (og_rigid og)) (theTree 1 tree_world) =
        Some (Some ([\<lparr>lc_pos = (0, 0), lc_material = Mat_Seed, lc_fill = 1\<rparr>], [\<lparr>lc_pos = (0, 0), lc_material = Mat_Seed, lc_fill = 1\<rparr>]))"
      by code_simp
    then obtain rb where rb: "og_rigid og = Some rb" "rb_shape rb = og_shape og" using t(1) by auto
    have "ownedCells 1 settled_world = [(1, 0)]" by code_simp
    then have "q = (1, 0)" if "ownerAt settled_world q = 1" for q
      using mem_ownedCells [OF ok, of 1 q] that by (simp add: INVALID_ORGANISM_ID_def)
    with rb show ?thesis by (simp add: settled_def)
  qed
  ultimately show ?thesis using t(2) tree_okI by fastforce
qed





text \<open>
  What happens without \<open>settled\<close>: a cell of a tree that was displaced to where the tree does not project,
  which \<open>replaceMaterialAtCell\<close> does, is still the tree's in the grid after the frame, but no more in the
  tree's list: the grid names an owner that will not clear the cell when it is removed.
\<close>

lemma displaced_cell_orphaned:
  assumes "world_ok w" "theTree oid w = Some (og, t)" "og_rigid og = Some rb" "rb_lastOwner rb = oid"
    and "ownerAt w q = oid" "q \<notin> set (rb_occupied rb)" "moveTree oid dt w = Some w'"
    and "\<forall>og1. getOrganism (wd_manager w') oid = Some og1 \<longrightarrow> q \<notin> set (og_cells og1)"
  shows "ownerAt w' q = oid \<and> \<not> world_ok w'"
proof -
  have g: "om_organisms (wd_manager w) oid = Some og" using assms(2) by (simp add: theTree_iff getOrganism_def)
  have last: "rb_lastOwner rb = oid \<or> rb_lastOwner rb = INVALID_ORGANISM_ID" using assms(4) by simp
  obtain b w1 where u: "rb_update oid (og_mass og) (og_shape og) w dt zero_vec (1 / 100) (og_position og) (og_velocity og) rb = Some (b, w1)"
    "\<And>q. ownerAt w1 q = (if q \<in> set (rb_occupied (bm_rigid b)) then oid
      else if q \<in> set (rb_occupied rb) \<and> ownerAt w q = rb_lastOwner rb then INVALID_ORGANISM_ID else ownerAt w q)"
    by (rule rb_update_effect [OF assms(1) g last, of "og_mass og" "og_shape og" dt zero_vec "1 / 100" "og_position og" "og_velocity og"]) blast
  have "w' = onBody oid (\<lambda>og. og\<lparr>og_position := bm_position b, og_velocity := bm_velocity b, og_rigid := Some (bm_rigid b),
      og_occupied := rb_occupied (bm_rigid b), og_cells := fold insertCell (rb_occupied (bm_rigid b)) []\<rparr>) w1"
    using assms(2,3,7) u(1) by (simp add: moveTree_def)
  then have own: "ownerAt w' q = oid" using u(2) [of q] assms(5,6) by simp
  have "oid \<noteq> INVALID_ORGANISM_ID" using assms(1) g unfolding world_ok_def tracked_def by blast
  then have "\<not> tracked (wd_manager w')"
    using own assms(8) unfolding tracked_def ownerAt_def getOrganism_def by blast
  then show ?thesis using own by (simp add: world_ok_def)
qed

text \<open>
  Pruning takes a cell away from the organism that has taken it over: it removes the cells the tree lists
  but no longer owns through \<open>removeCellsFromOrganism\<close>, which clears the owner whoever it is.
\<close>

lemma prune_clears_new_owner:
  assumes "world_ok w" "getOrganism (wd_manager w) oid = Some og" "q \<in> set (og_cells og)" "ownerAt w q \<noteq> oid"
    and "pruneDisconnectedCells oid w = Some w1"
  shows "ownerAt w1 q = INVALID_ORGANISM_ID"
proof -
  let ?ps = "filter (stale oid w) (og_cells og)"
  have q: "q \<in> set ?ps" using assms(3,4) by (simp add: stale_def)
  then have "?ps \<noteq> []" by (metis empty_iff empty_set)
  then have w1: "w1 = w\<lparr>wd_manager := removeCellsFromOrganism oid ?ps (wd_manager w)\<rparr>"
    using assms(2,5) by (simp add: pruneDisconnectedCells_def Let_def)
  have t: "tracked (wd_manager w)" using assms(1) by (simp add: world_ok_def)
  have "om_organisms (wd_manager w) oid \<noteq> None" using assms(2) by (simp add: getOrganism_def)
  from removeCells_effect [OF tracked_shape [OF t] this, of ?ps] q
  have "om_at (removeCellsFromOrganism oid ?ps (wd_manager w)) q = INVALID_ORGANISM_ID" by simp
  then show ?thesis unfolding w1 by simp
qed

end
