(* ===== verification/Uuid.thy ===== *)
theory Uuid
  imports Prelude "HOL-Library.Char_ord" "HOL-Library.List_Lexorder"
begin

text \<open>
  core/UUID.h and core/UUID.cpp: 16-byte identifiers, their text form, and the parser that reads
  the text back. The bytes \<open>std::array<uint8_t, 16>\<close> are a list of length 16 (\<open>uuid_wf\<close>); a write
  past its end is the result \<open>Out_of_bounds\<close>, so that its absence is a theorem, and a throw is
  \<open>Invalid_argument\<close>. The draws of the random engine are arguments.
\<close>

unbundle bit_operations_syntax

section \<open>The identifier\<close>

datatype uuid = UUID (uuid_bytes: "u8 list")

definition uuid_wf :: "uuid \<Rightarrow> bool" where
  "uuid_wf u = (length (uuid_bytes u) = 16)"

definition uuid_nil :: uuid where
  "uuid_nil = UUID (replicate 16 0)"

definition isNil :: "uuid \<Rightarrow> bool" where
  "isNil u = list_all (\<lambda>b. b = 0) (uuid_bytes u)"

definition uuid_eq :: "uuid \<Rightarrow> uuid \<Rightarrow> bool" where
  "uuid_eq u v = (uuid_bytes u = uuid_bytes v)"

text \<open>\<open>operator<\<close> compares the arrays lexicographically.\<close>

instantiation uuid :: linorder
begin

definition less_uuid :: "uuid \<Rightarrow> uuid \<Rightarrow> bool" where
  "less_uuid u v = (uuid_bytes u < uuid_bytes v)"

definition less_eq_uuid :: "uuid \<Rightarrow> uuid \<Rightarrow> bool" where
  "less_eq_uuid u v = (uuid_bytes u \<le> uuid_bytes v)"

instance
  by standard (auto simp: less_uuid_def less_eq_uuid_def uuid.expand)

end

definition uuid_hash :: "uuid \<Rightarrow> u64" where
  "uuid_hash u = foldl (\<lambda>h b. (h XOR ucast b) * 1099511628211) 14695981039346656037 (uuid_bytes u)"

section \<open>Generation\<close>

text \<open>Byte \<open>i\<close> of a 64-bit draw, most significant first.\<close>

definition draw_byte :: "u64 \<Rightarrow> nat \<Rightarrow> u8" where
  "draw_byte w i = ucast (drop_bit (56 - i * 8) w AND 0xFF)"

definition uuid_generate :: "u64 \<Rightarrow> u64 \<Rightarrow> uuid" where
  "uuid_generate high low =
     (let bs = map (draw_byte high) [0..<8] @ map (draw_byte low) [0..<8];
          bs = bs[6 := (bs ! 6 AND 0x0F) OR 0x40];
          bs = bs[8 := (bs ! 8 AND 0x3F) OR 0x80]
      in UUID bs)"

section \<open>Text\<close>

text \<open>\<open>std::hex\<close> with \<open>setfill('0')\<close> and \<open>setw(2)\<close>.\<close>

definition hex2 :: "u8 \<Rightarrow> string" where
  "hex2 b = (let ds = digits_base 16 (unat b) in replicate (2 - length ds) CHR ''0'' @ ds)"

definition dash_at :: "nat \<Rightarrow> string" where
  "dash_at i = (if i = 4 \<or> i = 6 \<or> i = 8 \<or> i = 10 then ''-'' else [])"

definition uuid_toString :: "uuid \<Rightarrow> string" where
  "uuid_toString u = concat (map (\<lambda>i. dash_at i @ hex2 (uuid_bytes u ! i)) [0..<16])"

definition uuid_toShortString :: "uuid \<Rightarrow> string" where
  "uuid_toShortString u = concat (map (\<lambda>i. hex2 (uuid_bytes u ! i)) [0..<4])"

datatype uuid_error = Invalid_argument string | Out_of_bounds

definition char_code :: "char \<Rightarrow> nat" where
  "char_code c = of_char c"

definition hexCharToNibble :: "char \<Rightarrow> uuid_error + u8" where
  "hexCharToNibble c =
     (if char_code CHR ''0'' \<le> char_code c \<and> char_code c \<le> char_code CHR ''9''
        then Inr (of_nat (char_code c - char_code CHR ''0''))
      else if char_code CHR ''a'' \<le> char_code c \<and> char_code c \<le> char_code CHR ''f''
        then Inr (of_nat (char_code c - char_code CHR ''a'' + 10))
      else if char_code CHR ''A'' \<le> char_code c \<and> char_code c \<le> char_code CHR ''F''
        then Inr (of_nat (char_code c - char_code CHR ''A'' + 10))
      else Inl (Invalid_argument ''Invalid hex character in UUID string''))"

text \<open>\<open>str[i]\<close>; the element one past the end of a \<open>std::string\<close> is the null character.\<close>

definition char_at :: "string \<Rightarrow> nat \<Rightarrow> char" where
  "char_at s i = (if i < length s then s ! i else CHR 0x00)"

text \<open>
  The loop of \<open>fromString\<close>. On a dash the code takes one from \<open>i\<close> and the loop adds two; the
  \<open>size_t\<close> wraps around at \<open>i = 0\<close>, so the sum is \<open>i + 1\<close> there too.
\<close>

function parse_bytes :: "string \<Rightarrow> nat \<Rightarrow> u8 list \<Rightarrow> nat \<Rightarrow> uuid_error + u8 list" where
  "parse_bytes s i bs byteIndex =
     (if i \<ge> length s then Inr bs
      else if s ! i = CHR ''-'' then parse_bytes s (i + 1) bs byteIndex
      else case hexCharToNibble (char_at s i) of
             Inl e \<Rightarrow> Inl e
           | Inr high \<Rightarrow> (case hexCharToNibble (char_at s (i + 1)) of
               Inl e \<Rightarrow> Inl e
             | Inr low \<Rightarrow>
                 (if byteIndex < length bs
                  then parse_bytes s (i + 2) (bs[byteIndex := push_bit 4 high OR low]) (byteIndex + 1)
                  else Inl Out_of_bounds)))"
  by auto

termination
  by (relation "measure (\<lambda>(s, i, bs, k). length s - i)") auto

declare parse_bytes.simps [simp del]

definition uuid_fromString :: "string \<Rightarrow> uuid_error + uuid" where
  "uuid_fromString s =
     (if length s \<noteq> 36 then Inl (Invalid_argument ''UUID string must be 36 characters'')
      else if s ! 8 \<noteq> CHR ''-'' \<or> s ! 13 \<noteq> CHR ''-'' \<or> s ! 18 \<noteq> CHR ''-'' \<or> s ! 23 \<noteq> CHR ''-''
        then Inl (Invalid_argument ''UUID string must have dashes at positions 8, 13, 18, 23'')
      else map_sum id UUID (parse_bytes s 0 (replicate 16 0) 0))"

section \<open>The two directions agree\<close>

text \<open>The characters of one byte, and the nibbles read from them.\<close>

lemma nibble_range: "n < 16 \<Longrightarrow> n \<in> {0, 1, 2, 3, 4, 5, 6, 7, 8, 9, 10, 11, 12, 13, 14, 15 :: nat}"
  unfolding insert_iff empty_iff by presburger

lemma digit_char_nibble:
  assumes "n < 16"
  shows "hexCharToNibble (digit_char n) = Inr (of_nat n)" "digit_char n \<noteq> CHR ''-''"
  using nibble_range [OF assms]
  by (auto simp: digit_char_def hexCharToNibble_def char_code_def)

lemma hex2_digits: "hex2 b = [digit_char (unat b div 16), digit_char (unat b mod 16)]"
proof -
  have "unat b < 256" by (rule u8_less)
  then have q: "unat b div 16 < 16" by simp
  show ?thesis
  proof (cases "unat b < 16")
    case True
    then show ?thesis
      by (simp add: hex2_def digits_base.simps [of 16 "unat b"] Let_def) (simp add: digit_char_def)
  next
    case False
    with q show ?thesis
      by (simp add: hex2_def digits_base.simps [of 16 "unat b"]
          digits_base.simps [of 16 "unat b div 16"] Let_def)
  qed
qed

lemma byte_of_nibbles:
  "push_bit 4 (of_nat (unat b div 16)) OR of_nat (unat b mod 16) = (b :: u8)"
proof -
  have q: "unat (drop_bit 4 b) = unat b div 16"
    by (simp add: unat_drop_bit_eq drop_bit_eq_div [where ?'a = nat])
  have 1: "of_nat (unat b div 16) = drop_bit 4 b"
    unfolding q [symmetric] by simp
  have r: "unat (take_bit 4 b) = unat b mod 16"
    by (simp add: unsigned_take_bit_eq take_bit_eq_mod [where ?'a = nat])
  have 2: "of_nat (unat b mod 16) = take_bit 4 b"
    unfolding r [symmetric] by simp
  show ?thesis unfolding 1 2
    by (rule bit_word_eqI) (auto simp: bit_simps)
qed

lemma parse_bytes_done: "length s \<le> i \<Longrightarrow> parse_bytes s i bs k = Inr bs"
  by (simp add: parse_bytes.simps [of s i])

lemma parse_bytes_dash: "parse_bytes (pre @ CHR ''-'' # post) (length pre) bs k =
    parse_bytes (pre @ CHR ''-'' # post) (length pre + 1) bs k"
  by (simp add: parse_bytes.simps [of _ "length pre"])

lemma parse_bytes_hex2:
  assumes "k < length bs"
  shows "parse_bytes (pre @ hex2 b @ post) (length pre) bs k =
    parse_bytes (pre @ hex2 b @ post) (length pre + 2) (bs[k := b]) (k + 1)"
proof -
  have "unat b < 256" by (rule u8_less)
  then have "unat b div 16 < 16" "unat b mod 16 < 16" by simp_all
  note d = digit_char_nibble [OF this(1)] digit_char_nibble [OF this(2)]
  show ?thesis
    unfolding hex2_digits
    by (subst parse_bytes.simps) (simp add: char_at_def nth_append d assms byte_of_nibbles)
qed

text \<open>The text of the bytes from position \<open>k\<close> on, and its reading.\<close>

fun text_from :: "nat \<Rightarrow> u8 list \<Rightarrow> string" where
  "text_from k [] = []"
| "text_from k (b # bs) =
     dash_at k @ hex2 b @ text_from (Suc k) bs"

lemma parse_text_from:
  assumes "length acc = k + length vs"
  shows "parse_bytes (pre @ text_from k vs) (length pre) acc k = Inr (take k acc @ vs)"
  using assms
proof (induction vs arbitrary: pre acc k)
  case Nil
  then show ?case by (simp add: parse_bytes_done)
next
  case (Cons v vs)
  let ?dash = "dash_at k"
  let ?s = "pre @ text_from k (v # vs)"
  have "parse_bytes ?s (length pre) acc k = parse_bytes ?s (length (pre @ ?dash)) acc k"
    using parse_bytes_dash [of pre "hex2 v @ text_from (Suc k) vs"] by (simp add: dash_at_def)
  also have "\<dots> = parse_bytes ?s (length (pre @ ?dash @ hex2 v)) (acc[k := v]) (k + 1)"
    using parse_bytes_hex2 [of k acc "pre @ ?dash" v "text_from (Suc k) vs"] Cons.prems
    by (simp add: hex2_digits)
  also have "\<dots> = Inr (take (k + 1) (acc[k := v]) @ vs)"
    using Cons.IH [of "acc[k := v]" "Suc k" "pre @ ?dash @ hex2 v"] Cons.prems by simp
  also have "take (k + 1) (acc[k := v]) = take k acc @ [v]"
    using Cons.prems by (simp add: take_Suc_conv_app_nth)
  finally show ?case by simp
qed

lemma toString_text_from:
  "concat (map (\<lambda>i. dash_at i @ hex2 (vs ! (i - k)))
     [k..<k + length vs]) = text_from k vs"
proof (induction vs arbitrary: k)
  case (Cons v vs)
  have "map (\<lambda>i. dash_at i @ hex2 ((v # vs) ! (i - k))) [Suc k..<Suc k + length vs] =
        map (\<lambda>i. dash_at i @ hex2 (vs ! (i - Suc k))) [Suc k..<Suc k + length vs]"
  proof (rule map_cong)
    fix i assume "i \<in> set [Suc k..<Suc k + length vs]"
    then have "i - k = Suc (i - Suc k)" by auto
    then show "dash_at i @ hex2 ((v # vs) ! (i - k)) = dash_at i @ hex2 (vs ! (i - Suc k))" by simp
  qed simp
  moreover have "[k..<k + length (v # vs)] = k # [Suc k..<Suc k + length vs]"
    using upt_conv_Cons [of k "k + length (v # vs)"] by simp
  ultimately show ?case using Cons.IH [of "Suc k"] by (simp only: list.map concat.simps) simp
qed simp

lemma toString_text:
  assumes "uuid_wf u" shows "uuid_toString u = text_from 0 (uuid_bytes u)"
  using assms toString_text_from [of "uuid_bytes u" 0] by (simp add: uuid_toString_def uuid_wf_def)

lemma sixteen_bytes:
  assumes "length xs = 16"
  obtains a b c d e f g h i j k l m n p q where "xs = [a, b, c, d, e, f, g, h, i, j, k, l, m, n, p, q]"
  using assms by (auto simp: eval_nat_numeral length_Suc_conv)

lemma toString_shape:
  assumes "uuid_wf u"
  shows "length (uuid_toString u) = 36" "uuid_toString u ! 8 = CHR ''-''"
    "uuid_toString u ! 13 = CHR ''-''" "uuid_toString u ! 18 = CHR ''-''" "uuid_toString u ! 23 = CHR ''-''"
proof -
  from assms have "length (uuid_bytes u) = 16" by (simp add: uuid_wf_def)
  then obtain a b c d e f g h i j k l m n p q
    where *: "uuid_bytes u = [a, b, c, d, e, f, g, h, i, j, k, l, m, n, p, q]"
    by (rule sixteen_bytes)
  show "length (uuid_toString u) = 36" "uuid_toString u ! 8 = CHR ''-''"
    "uuid_toString u ! 13 = CHR ''-''" "uuid_toString u ! 18 = CHR ''-''" "uuid_toString u ! 23 = CHR ''-''"
    by (simp_all add: toString_text [OF assms] * hex2_digits dash_at_def)
qed

text \<open>
  Writing an identifier as text and reading it back gives the same identifier, for every
  array of sixteen bytes.
\<close>

theorem uuid_round_trip:
  assumes "uuid_wf u"
  shows "uuid_fromString (uuid_toString u) = Inr u"
proof -
  have "parse_bytes (uuid_toString u) 0 (replicate 16 0) 0 = Inr (uuid_bytes u)"
    using parse_text_from [of "replicate 16 0" 0 "uuid_bytes u" "[]"] assms
    by (simp add: toString_text uuid_wf_def)
  then show ?thesis using toString_shape [OF assms] by (simp add: uuid_fromString_def)
qed

theorem uuid_round_trip_witness:
  "uuid_fromString (uuid_toString (UUID [0x55, 0x0e, 0x84, 0, 0xe2, 0x9b, 0x41, 0xd4, 0xa7, 0x16, 0x44,
       0x66, 0x55, 0x44, 0, 0])) =
     Inr (UUID [0x55, 0x0e, 0x84, 0, 0xe2, 0x9b, 0x41, 0xd4, 0xa7, 0x16, 0x44, 0x66, 0x55, 0x44, 0, 0])"
  by (rule uuid_round_trip) (simp add: uuid_wf_def)

lemma toString_inj:
  assumes "uuid_wf u" "uuid_wf v" "uuid_toString u = uuid_toString v"
  shows "u = v"
proof -
  have "parse_bytes (uuid_toString u) 0 (replicate 16 0) 0 = Inr (uuid_bytes u)"
       "parse_bytes (uuid_toString v) 0 (replicate 16 0) 0 = Inr (uuid_bytes v)"
    using parse_text_from [of "replicate 16 0" 0 _ "[]"] assms(1,2)
    by (simp_all add: toString_text uuid_wf_def)
  with assms(3) show ?thesis by (simp add: uuid.expand)
qed

section \<open>The parser stays inside the array\<close>

abbreviation others :: "string \<Rightarrow> nat" where
  "others s \<equiv> length (filter (\<lambda>c. c \<noteq> CHR ''-'') s)"

lemma nibble_not_dash: "hexCharToNibble CHR ''-'' = Inl (Invalid_argument ''Invalid hex character in UUID string'')"
  "hexCharToNibble CHR 0x00 = Inl (Invalid_argument ''Invalid hex character in UUID string'')"
  by (simp_all add: hexCharToNibble_def char_code_def)

lemma nibble_error: "hexCharToNibble c = Inl e \<Longrightarrow> e \<noteq> Out_of_bounds"
  by (auto simp: hexCharToNibble_def split: if_splits)

lemma parse_bytes_room:
  assumes "2 * k + others (drop i s) \<le> 2 * length bs"
  shows "parse_bytes s i bs k \<noteq> Inl Out_of_bounds \<and>
    (\<forall>vs. parse_bytes s i bs k = Inr vs \<longrightarrow> length vs = length bs)"
  using assms
proof (induction s i bs k rule: parse_bytes.induct)
  case (1 s i bs k)
  show ?case
  proof (cases "length s \<le> i")
    case True
    then show ?thesis by (simp add: parse_bytes_done)
  next
    case False
    then have d: "drop i s = s ! i # drop (Suc i) s" by (simp add: Cons_nth_drop_Suc)
    show ?thesis
    proof (cases "s ! i = CHR ''-''")
      case True
      have "2 * k + others (drop (i + 1) s) \<le> 2 * length bs" using "1.prems" d True by simp
      from "1.IH"(1) [OF False True this] show ?thesis
        using False True by (simp add: parse_bytes.simps [of s i])
    next
      case nd: False
      note step = parse_bytes.simps [of s i bs k]
      show ?thesis
      proof (cases "hexCharToNibble (char_at s i)")
        case (Inl e)
        with False nd nibble_error [OF Inl] show ?thesis by (simp add: step)
      next
        case hi: (Inr high)
        show ?thesis
        proof (cases "hexCharToNibble (char_at s (i + 1))")
          case (Inl e)
          with False nd hi nibble_error [OF Inl] show ?thesis by (simp add: step)
        next
          case lo: (Inr low)
          from lo have i1: "i + 1 < length s" and n1: "s ! (i + 1) \<noteq> CHR ''-''"
            by (auto simp: char_at_def nibble_not_dash split: if_splits)
          then have "drop (Suc i) s = s ! (i + 1) # drop (i + 2) s"
            by (simp add: Cons_nth_drop_Suc)
          with d nd n1 have o: "others (drop i s) = 2 + others (drop (i + 2) s)" by simp
          with "1.prems" have k: "k < length bs" by simp
          have "2 * (k + 1) + others (drop (i + 2) s)
              \<le> 2 * length (bs[k := push_bit 4 high OR low])" using "1.prems" o by simp
          from "1.IH"(2) [OF False nd hi lo k this] show ?thesis
            using False nd hi lo k by (simp add: step)
        qed
      qed
    qed
  qed
qed

lemma four_dashes:
  assumes "length s = 36" "s ! 8 = CHR ''-''" "s ! 13 = CHR ''-''" "s ! 18 = CHR ''-''" "s ! 23 = CHR ''-''"
  shows "others s \<le> 32"
proof -
  have "{8, 13, 18, 23} \<subseteq> {i. i < length s \<and> s ! i = CHR ''-''}" using assms by auto
  then have "card {8, 13, 18, 23 :: nat} \<le> card {i. i < length s \<and> s ! i = CHR ''-''}"
    by (rule card_mono [rotated]) simp
  then have "4 \<le> length (filter (\<lambda>c. c = CHR ''-'') s)"
    by (simp add: length_filter_conv_card)
  with sum_length_filter_compl [of "\<lambda>c. c = CHR ''-''" s] assms(1) show ?thesis by simp
qed

text \<open>
  The parser never writes past the sixteen bytes of the identifier, whatever the text; what
  it accepts is an identifier of sixteen bytes, and what it refuses it refuses by the documented
  exception.
\<close>

theorem fromString_in_bounds:
  "case uuid_fromString s of Inr u \<Rightarrow> uuid_wf u | Inl e \<Rightarrow> e \<noteq> Out_of_bounds"
proof (cases "length s = 36 \<and> s ! 8 = CHR ''-'' \<and> s ! 13 = CHR ''-'' \<and> s ! 18 = CHR ''-'' \<and> s ! 23 = CHR ''-''")
  case True
  then have "2 * 0 + others (drop 0 s) \<le> 2 * length (replicate 16 (0 :: u8))"
    using four_dashes [of s] by simp
  from parse_bytes_room [OF this] True show ?thesis
    by (cases "parse_bytes s 0 (replicate 16 0) 0") (auto simp: uuid_fromString_def uuid_wf_def)
next
  case False
  then show ?thesis by (auto simp: uuid_fromString_def)
qed

text \<open>
  The parser skips dashes anywhere, so it also accepts texts that are not identifiers: extra
  dashes in the place of digits leave the last bytes zero.
\<close>

lemma fromString_extra_dashes:
  "uuid_fromString (replicate 36 CHR ''-'') = Inr uuid_nil"
proof -
  have "parse_bytes (replicate 36 CHR ''-'') i bs k = Inr bs" if "i \<le> 36" for i bs k
    using that
  proof (induction "36 - i" arbitrary: i)
    case 0
    then show ?case by (simp add: parse_bytes_done)
  next
    case (Suc n)
    then show ?case by (simp add: parse_bytes.simps [of _ i])
  qed
  then show ?thesis by (simp add: uuid_fromString_def uuid_nil_def)
qed

section \<open>Generated identifiers\<close>

lemma generate_wf: "uuid_wf (uuid_generate high low)"
  by (simp add: uuid_wf_def uuid_generate_def Let_def)

text \<open>The version and the variant are set whatever the draws, so an identifier is never nil.\<close>

lemma generate_version:
  "uuid_bytes (uuid_generate high low) ! 6 AND 0xF0 = 0x40"
  "uuid_bytes (uuid_generate high low) ! 8 AND 0xC0 = 0x80"
proof -
  have "((w AND 0x0F) OR 0x40) AND 0xF0 = (0x40 :: u8)" for w
    by (simp add: bit.conj_disj_distrib2 and.assoc)
  moreover have "((w AND 0x3F) OR 0x80) AND 0xC0 = (0x80 :: u8)" for w
    by (simp add: bit.conj_disj_distrib2 and.assoc)
  ultimately show "uuid_bytes (uuid_generate high low) ! 6 AND 0xF0 = 0x40"
    "uuid_bytes (uuid_generate high low) ! 8 AND 0xC0 = 0x80"
    by (simp_all add: uuid_generate_def Let_def)
qed

lemma generate_not_nil: "uuid_generate high low \<noteq> uuid_nil" "\<not> isNil (uuid_generate high low)"
proof -
  have z: "uuid_bytes (uuid_generate high low) ! 6 \<noteq> 0"
    using generate_version(1) [of high low] by auto
  moreover have "uuid_bytes uuid_nil ! 6 = 0" by (simp add: uuid_nil_def)
  ultimately show "uuid_generate high low \<noteq> uuid_nil" by metis
  show "\<not> isNil (uuid_generate high low)"
    using z generate_wf [of high low]
    by (auto simp: isNil_def list_all_length uuid_wf_def intro: exI [of _ 6])
qed

lemma uuid_nil_wf: "uuid_wf uuid_nil" "isNil u \<and> uuid_wf u \<longleftrightarrow> u = uuid_nil"
proof -
  show "uuid_wf uuid_nil" by (simp add: uuid_wf_def uuid_nil_def)
  show "isNil u \<and> uuid_wf u \<longleftrightarrow> u = uuid_nil"
    by (cases u) (auto simp: isNil_def uuid_wf_def uuid_nil_def list_all_iff
        intro!: replicate_eqI)
qed

end
