(* ===== verification/TrainingPhase.thy ===== *)
theory TrainingPhase
  imports Prelude
begin

text \<open>
  core/organisms/evolution/TrainingPhaseTracker.{h,cpp}, TrainingPhase.h, AdaptiveMutation.{h,cpp}
  and EvolutionConfig.h: the tracker that turns the best fitness of each completed generation into
  a training phase, and the mutation budget that follows the phase. An \<open>int\<close> is an integer: the
  counters would need 2^30 generations to leave the range of the machine type. The fitness values
  that the tracker tests with \<open>std::isfinite\<close> keep the special values of a double; other doubles
  are reals.
\<close>

section \<open>Doubles with their special values\<close>

datatype dbl = Fin real | Pos_inf | Neg_inf | NaN

definition dbl_isfinite :: "dbl \<Rightarrow> bool" where
  "dbl_isfinite x = (case x of Fin _ \<Rightarrow> True | _ \<Rightarrow> False)"

fun dbl_gt :: "dbl \<Rightarrow> dbl \<Rightarrow> bool" where
  "dbl_gt (Fin a) (Fin b) = (a > b)"
| "dbl_gt NaN y = False"
| "dbl_gt x NaN = False"
| "dbl_gt Pos_inf y = (y \<noteq> Pos_inf)"
| "dbl_gt x Pos_inf = False"
| "dbl_gt Neg_inf y = False"
| "dbl_gt x Neg_inf = True"

fun dbl_add :: "dbl \<Rightarrow> dbl \<Rightarrow> dbl" where
  "dbl_add (Fin a) (Fin b) = Fin (a + b)"
| "dbl_add NaN y = NaN"
| "dbl_add x NaN = NaN"
| "dbl_add Pos_inf y = (if y = Neg_inf then NaN else Pos_inf)"
| "dbl_add x Pos_inf = (if x = Neg_inf then NaN else Pos_inf)"
| "dbl_add x y = Neg_inf"

text \<open>\<open>std::max(0.0, x)\<close> and \<open>std::numeric_limits<double>::lowest()\<close>.\<close>

definition dbl_max0 :: "dbl \<Rightarrow> dbl" where
  "dbl_max0 x = (if dbl_gt x (Fin 0) then x else Fin 0)"

definition dbl_lowest :: dbl where
  "dbl_lowest = Fin (- (2 ^ 1024 - 2 ^ 971))"

section \<open>Configuration\<close>

record evolution_config =
  ec_populationSize :: int
  ec_tournamentSize :: int
  ec_maxGenerations :: int
  ec_maxParallelEvaluations :: int
  ec_targetCpuPercent :: int
  ec_genomeArchiveMaxSize :: int
  ec_diversityEliteCount :: int
  ec_diversityEliteFitnessEpsilon :: real
  ec_robustFitnessEvaluationCount :: int
  ec_warmStartSeedCount :: int
  ec_warmStartSeedPercent :: real
  ec_warmStartMinRobustEvalCount :: int
  ec_warmStartAlwaysIncludeBest :: bool
  ec_warmStartNoveltyWeight :: real
  ec_warmStartFitnessFloorPercentile :: real
  ec_stagnationImprovementEpsilon :: dbl
  ec_stagnationWindowGenerations :: int
  ec_recoveryWindowGenerations :: int
  ec_maxSimulationTime :: real
  ec_energyReference :: real
  ec_waterReference :: real

definition default_evolution_config :: evolution_config where
  "default_evolution_config =
     \<lparr>ec_populationSize = 50, ec_tournamentSize = 3, ec_maxGenerations = 1,
      ec_maxParallelEvaluations = 0, ec_targetCpuPercent = 0, ec_genomeArchiveMaxSize = 1000,
      ec_diversityEliteCount = 1, ec_diversityEliteFitnessEpsilon = 0,
      ec_robustFitnessEvaluationCount = 3, ec_warmStartSeedCount = 3, ec_warmStartSeedPercent = 20,
      ec_warmStartMinRobustEvalCount = 2, ec_warmStartAlwaysIncludeBest = True,
      ec_warmStartNoveltyWeight = 3 / 10, ec_warmStartFitnessFloorPercentile = 60,
      ec_stagnationImprovementEpsilon = Fin (1 / 1000), ec_stagnationWindowGenerations = 5,
      ec_recoveryWindowGenerations = 3, ec_maxSimulationTime = 1000, ec_energyReference = 100,
      ec_waterReference = 100\<rparr>"

record mutation_config =
  mc_perturbationsPerOffspring :: int
  mc_resetsPerOffspring :: int
  mc_sigma :: real

definition default_mutation_config :: mutation_config where
  "default_mutation_config =
     \<lparr>mc_perturbationsPerOffspring = 200, mc_resetsPerOffspring = 1, mc_sigma = 5 / 100\<rparr>"

section \<open>The phase tracker\<close>

datatype training_phase = Phase_Normal | Phase_Plateau | Phase_Stuck | Phase_Recovery

record phase_status =
  ps_generationsSinceImprovement :: int
  ps_lastImprovementGeneration :: int
  ps_stagnationLevel :: int
  ps_recoveryLevel :: int
  ps_phase :: training_phase

definition new_phase_status :: phase_status where
  "new_phase_status = \<lparr>ps_generationsSinceImprovement = 0, ps_lastImprovementGeneration = -1,
     ps_stagnationLevel = 0, ps_recoveryLevel = 0, ps_phase = Phase_Normal\<rparr>"

record phase_update =
  pu_improved :: bool
  pu_phaseChanged :: bool
  pu_previousPhase :: training_phase
  pu_phase :: training_phase

record phase_tracker =
  pt_lastMeaningfulBestFitness :: dbl
  pt_status :: phase_status

definition normalizeRecoveryWindow :: "int \<Rightarrow> int" where
  "normalizeRecoveryWindow v = max v 0"

definition normalizeStagnationWindow :: "int \<Rightarrow> int" where
  "normalizeStagnationWindow v = max v 1"

definition recoveryLevelNext :: "int \<Rightarrow> int" where
  "recoveryLevelNext level = max (level - 1) 0"

definition stagnationLevelCompute :: "int \<Rightarrow> int \<Rightarrow> int" where
  "stagnationLevelCompute since window =
     (if since \<ge> window * 2 then 2 else if since \<ge> window then 1 else 0)"

definition phaseResolve :: "phase_status \<Rightarrow> training_phase" where
  "phaseResolve st =
     (if ps_stagnationLevel st \<ge> 2 then Phase_Stuck
      else if ps_stagnationLevel st \<ge> 1 then Phase_Plateau
      else if ps_recoveryLevel st > 0 then Phase_Recovery
      else Phase_Normal)"

definition tracker_reset :: phase_tracker where
  "tracker_reset = \<lparr>pt_lastMeaningfulBestFitness = dbl_lowest, pt_status = new_phase_status\<rparr>"

definition updateCompletedGeneration ::
    "phase_tracker \<Rightarrow> int \<Rightarrow> dbl \<Rightarrow> evolution_config \<Rightarrow> phase_update \<times> phase_tracker" where
  "updateCompletedGeneration t generation fitness config =
     (let st = pt_status t;
          previousPhase = ps_phase st;
          recoveryWindow = normalizeRecoveryWindow (ec_recoveryWindowGenerations config);
          stagnationWindow = normalizeStagnationWindow (ec_stagnationWindowGenerations config);
          improvementEpsilon = dbl_max0 (ec_stagnationImprovementEpsilon config);
          improved = (\<not> dbl_isfinite (pt_lastMeaningfulBestFitness t) \<or>
                      dbl_gt fitness (dbl_add (pt_lastMeaningfulBestFitness t) improvementEpsilon));
          wasRecovery = (ps_phase st = Phase_Recovery);
          wasStagnated = (ps_stagnationLevel st > 0);
          t = (if improved then
                 t\<lparr>pt_lastMeaningfulBestFitness := fitness,
                   pt_status := st\<lparr>ps_lastImprovementGeneration := generation,
                     ps_generationsSinceImprovement := 0,
                     ps_stagnationLevel := 0,
                     ps_recoveryLevel :=
                       (if wasStagnated then recoveryWindow
                        else if wasRecovery then recoveryLevelNext (ps_recoveryLevel st)
                        else 0)\<rparr>\<rparr>
               else
                 (let since = ps_generationsSinceImprovement st + 1
                  in t\<lparr>pt_status := st\<lparr>ps_generationsSinceImprovement := since,
                       ps_stagnationLevel := stagnationLevelCompute since stagnationWindow,
                       ps_recoveryLevel := recoveryLevelNext (ps_recoveryLevel st)\<rparr>\<rparr>));
          st = pt_status t;
          st = st\<lparr>ps_phase := phaseResolve st\<rparr>
      in (\<lparr>pu_improved = improved, pu_phaseChanged = (ps_phase st \<noteq> previousPhase),
           pu_previousPhase = previousPhase, pu_phase = ps_phase st\<rparr>,
          t\<lparr>pt_status := st\<rparr>))"

section \<open>The mutation that follows the phase\<close>

datatype mutation_mode = Mode_Baseline | Mode_Explore | Mode_Rescue | Mode_Recover

datatype control_mode = Control_Auto | Control_Baseline | Control_Explore | Control_Rescue

record effective_mutation =
  em_mode :: mutation_mode
  em_mutationConfig :: mutation_config

definition kExplorePerturbationsScale :: real where "kExplorePerturbationsScale = 15 / 10"
definition kExplorePerturbationsMinIncrease :: int where "kExplorePerturbationsMinIncrease = 50"
definition kExploreResetsScale :: real where "kExploreResetsScale = 2"
definition kExploreResetsMinIncrease :: int where "kExploreResetsMinIncrease = 1"
definition kExploreSigmaScale :: real where "kExploreSigmaScale = 125 / 100"
definition kExploreSigmaMinIncrease :: real where "kExploreSigmaMinIncrease = 1 / 100"
definition kRescuePerturbationsScale :: real where "kRescuePerturbationsScale = 25 / 10"
definition kRescuePerturbationsMinIncrease :: int where "kRescuePerturbationsMinIncrease = 150"
definition kRescueResetsScale :: real where "kRescueResetsScale = 4"
definition kRescueResetsMinIncrease :: int where "kRescueResetsMinIncrease = 2"
definition kRescueSigmaScale :: real where "kRescueSigmaScale = 16 / 10"
definition kRescueSigmaMinIncrease :: real where "kRescueSigmaMinIncrease = 2 / 100"

definition int_max :: int where "int_max = 2147483647"

definition clampToInt :: "int \<Rightarrow> int" where
  "clampToInt v = (if v \<le> 0 then 0 else if v \<ge> int_max then int_max else v)"

definition scaledBudgetResolve :: "int \<Rightarrow> real \<Rightarrow> int \<Rightarrow> int" where
  "scaledBudgetResolve baseline scale minIncrease =
     (let scaled = lround (of_int baseline * scale);
          increased = baseline + minIncrease
      in clampToInt (max (max baseline scaled) increased))"

definition scaledSigmaResolve :: "real \<Rightarrow> real \<Rightarrow> real \<Rightarrow> real" where
  "scaledSigmaResolve baseline scale minIncrease =
     max (max baseline (baseline * scale)) (baseline + minIncrease)"

definition recoveryBudgetResolve :: "int \<Rightarrow> int \<Rightarrow> int \<Rightarrow> int \<Rightarrow> int" where
  "recoveryBudgetResolve baseline previous recoveryLevel window =
     (if recoveryLevel \<le> 0 \<or> window \<le> 0 \<or> previous \<le> baseline then baseline
      else let remainingSteps = max (recoveryLevel - 1) 0;
               factor = of_int remainingSteps / of_int window;
               resolved = of_int baseline + of_int (previous - baseline) * clamp factor (0 :: real) 1
           in clampToInt (lround resolved))"

definition recoverySigmaResolve :: "real \<Rightarrow> real \<Rightarrow> int \<Rightarrow> int \<Rightarrow> real" where
  "recoverySigmaResolve baseline previous recoveryLevel window =
     (if recoveryLevel \<le> 0 \<or> window \<le> 0 \<or> previous \<le> baseline then baseline
      else let remainingSteps = max (recoveryLevel - 1) 0;
               factor = of_int remainingSteps / of_int window
           in baseline + (previous - baseline) * clamp factor 0 1)"

definition adaptiveMutationPhaseResolve :: "training_phase \<Rightarrow> control_mode \<Rightarrow> training_phase" where
  "adaptiveMutationPhaseResolve phase mode =
     (case mode of
        Control_Auto \<Rightarrow> phase
      | Control_Baseline \<Rightarrow> Phase_Normal
      | Control_Explore \<Rightarrow> Phase_Plateau
      | Control_Rescue \<Rightarrow> Phase_Stuck)"

definition adaptiveMutationResolve ::
    "mutation_config \<Rightarrow> phase_status \<Rightarrow> effective_mutation \<Rightarrow> evolution_config \<Rightarrow> control_mode \<Rightarrow>
     effective_mutation" where
  "adaptiveMutationResolve baseline st previous config mode =
     (case adaptiveMutationPhaseResolve (ps_phase st) mode of
        Phase_Normal \<Rightarrow> \<lparr>em_mode = Mode_Baseline, em_mutationConfig = baseline\<rparr>
      | Phase_Plateau \<Rightarrow>
          \<lparr>em_mode = Mode_Explore, em_mutationConfig =
            \<lparr>mc_perturbationsPerOffspring =
               scaledBudgetResolve (mc_perturbationsPerOffspring baseline)
                 kExplorePerturbationsScale kExplorePerturbationsMinIncrease,
             mc_resetsPerOffspring =
               scaledBudgetResolve (mc_resetsPerOffspring baseline)
                 kExploreResetsScale kExploreResetsMinIncrease,
             mc_sigma = scaledSigmaResolve (mc_sigma baseline) kExploreSigmaScale kExploreSigmaMinIncrease\<rparr>\<rparr>
      | Phase_Stuck \<Rightarrow>
          \<lparr>em_mode = Mode_Rescue, em_mutationConfig =
            \<lparr>mc_perturbationsPerOffspring =
               scaledBudgetResolve (mc_perturbationsPerOffspring baseline)
                 kRescuePerturbationsScale kRescuePerturbationsMinIncrease,
             mc_resetsPerOffspring =
               scaledBudgetResolve (mc_resetsPerOffspring baseline)
                 kRescueResetsScale kRescueResetsMinIncrease,
             mc_sigma = scaledSigmaResolve (mc_sigma baseline) kRescueSigmaScale kRescueSigmaMinIncrease\<rparr>\<rparr>
      | Phase_Recovery \<Rightarrow>
          \<lparr>em_mode = Mode_Recover, em_mutationConfig =
            \<lparr>mc_perturbationsPerOffspring =
               recoveryBudgetResolve (mc_perturbationsPerOffspring baseline)
                 (mc_perturbationsPerOffspring (em_mutationConfig previous))
                 (ps_recoveryLevel st) (ec_recoveryWindowGenerations config),
             mc_resetsPerOffspring =
               recoveryBudgetResolve (mc_resetsPerOffspring baseline)
                 (mc_resetsPerOffspring (em_mutationConfig previous))
                 (ps_recoveryLevel st) (ec_recoveryWindowGenerations config),
             mc_sigma =
               recoverySigmaResolve (mc_sigma baseline) (mc_sigma (em_mutationConfig previous))
                 (ps_recoveryLevel st) (ec_recoveryWindowGenerations config)\<rparr>\<rparr>)"

section \<open>The phase follows the generations since the last improvement\<close>

text \<open>The generations of a training run, each with its number and its best fitness.\<close>

definition tracker_run :: "evolution_config \<Rightarrow> phase_tracker \<Rightarrow> (int \<times> dbl) list \<Rightarrow> phase_tracker" where
  "tracker_run config t gens = foldl (\<lambda>t (g, f). snd (updateCompletedGeneration t g f config)) t gens"

lemma tracker_run_simps [simp]:
  "tracker_run config t [] = t"
  "tracker_run config t (gens @ [(g, f)]) =
     snd (updateCompletedGeneration (tracker_run config t gens) g f config)"
  by (simp_all add: tracker_run_def)

definition improves :: "evolution_config \<Rightarrow> phase_tracker \<Rightarrow> dbl \<Rightarrow> bool" where
  "improves config t f =
     (\<not> dbl_isfinite (pt_lastMeaningfulBestFitness t) \<or>
      dbl_gt f (dbl_add (pt_lastMeaningfulBestFitness t) (dbl_max0 (ec_stagnationImprovementEpsilon config))))"

abbreviation stagnation_window :: "evolution_config \<Rightarrow> int" where
  "stagnation_window config \<equiv> normalizeStagnationWindow (ec_stagnationWindowGenerations config)"

abbreviation recovery_window :: "evolution_config \<Rightarrow> int" where
  "recovery_window config \<equiv> normalizeRecoveryWindow (ec_recoveryWindowGenerations config)"

text \<open>One lemma for each branch of the update.\<close>

lemma update_improved:
  assumes "improves config t f"
  shows "pt_lastMeaningfulBestFitness (snd (updateCompletedGeneration t g f config)) = f"
    "ps_generationsSinceImprovement (pt_status (snd (updateCompletedGeneration t g f config))) = 0"
    "ps_lastImprovementGeneration (pt_status (snd (updateCompletedGeneration t g f config))) = g"
    "ps_stagnationLevel (pt_status (snd (updateCompletedGeneration t g f config))) = 0"
    "ps_recoveryLevel (pt_status (snd (updateCompletedGeneration t g f config))) =
       (if ps_stagnationLevel (pt_status t) > 0 then recovery_window config
        else if ps_phase (pt_status t) = Phase_Recovery
        then recoveryLevelNext (ps_recoveryLevel (pt_status t)) else 0)"
  using assms by (simp_all add: updateCompletedGeneration_def improves_def Let_def)

lemma update_not_improved:
  assumes "\<not> improves config t f"
  shows "pt_lastMeaningfulBestFitness (snd (updateCompletedGeneration t g f config)) =
      pt_lastMeaningfulBestFitness t"
    "ps_generationsSinceImprovement (pt_status (snd (updateCompletedGeneration t g f config))) =
      ps_generationsSinceImprovement (pt_status t) + 1"
    "ps_lastImprovementGeneration (pt_status (snd (updateCompletedGeneration t g f config))) =
      ps_lastImprovementGeneration (pt_status t)"
    "ps_stagnationLevel (pt_status (snd (updateCompletedGeneration t g f config))) =
      stagnationLevelCompute (ps_generationsSinceImprovement (pt_status t) + 1) (stagnation_window config)"
    "ps_recoveryLevel (pt_status (snd (updateCompletedGeneration t g f config))) =
      recoveryLevelNext (ps_recoveryLevel (pt_status t))"
  using assms by (simp_all add: updateCompletedGeneration_def improves_def Let_def)

lemma update_phase:
  "ps_phase (pt_status (snd (updateCompletedGeneration t g f config))) =
     phaseResolve (pt_status (snd (updateCompletedGeneration t g f config)))"
  by (simp add: updateCompletedGeneration_def phaseResolve_def Let_def)

lemma update_report:
  "pu_improved (fst (updateCompletedGeneration t g f config)) = improves config t f"
  "pu_previousPhase (fst (updateCompletedGeneration t g f config)) = ps_phase (pt_status t)"
  "pu_phase (fst (updateCompletedGeneration t g f config)) =
     ps_phase (pt_status (snd (updateCompletedGeneration t g f config)))"
  "pu_phaseChanged (fst (updateCompletedGeneration t g f config)) \<longleftrightarrow>
     ps_phase (pt_status (snd (updateCompletedGeneration t g f config))) \<noteq> ps_phase (pt_status t)"
  by (simp_all add: updateCompletedGeneration_def improves_def Let_def)

lemma window_positive: "1 \<le> stagnation_window config" "0 \<le> recovery_window config"
  by (simp_all add: normalizeStagnationWindow_def normalizeRecoveryWindow_def)

text \<open>The state after \<open>n\<close> generations that do not improve on an improvement.\<close>

lemma stagnating_run:
  assumes "ps_generationsSinceImprovement (pt_status t) = 0" "ps_stagnationLevel (pt_status t) = 0"
    and "ps_phase (pt_status t) = phaseResolve (pt_status t)" "0 \<le> ps_recoveryLevel (pt_status t)"
    and "\<forall>(g, f) \<in> set gens. \<not> improves config t f"
  defines "t' \<equiv> tracker_run config t gens" and "n \<equiv> int (length gens)"
  shows "pt_lastMeaningfulBestFitness t' = pt_lastMeaningfulBestFitness t \<and>
    ps_generationsSinceImprovement (pt_status t') = n \<and>
    ps_lastImprovementGeneration (pt_status t') = ps_lastImprovementGeneration (pt_status t) \<and>
    ps_stagnationLevel (pt_status t') = stagnationLevelCompute n (stagnation_window config) \<and>
    ps_recoveryLevel (pt_status t') = max (ps_recoveryLevel (pt_status t) - n) 0 \<and>
    ps_phase (pt_status t') = phaseResolve (pt_status t')"
  using assms(5) unfolding t'_def n_def
proof (induction gens rule: rev_induct)
  case Nil
  then show ?case
    using assms(1-4) window_positive(1) [of config] by (simp add: stagnationLevelCompute_def)
next
  case (snoc x gens)
  obtain g f where x: "x = (g, f)" by (cases x)
  have IH: "pt_lastMeaningfulBestFitness (tracker_run config t gens) = pt_lastMeaningfulBestFitness t"
    "ps_generationsSinceImprovement (pt_status (tracker_run config t gens)) = int (length gens)"
    "ps_lastImprovementGeneration (pt_status (tracker_run config t gens)) =
       ps_lastImprovementGeneration (pt_status t)"
    "ps_recoveryLevel (pt_status (tracker_run config t gens)) =
       max (ps_recoveryLevel (pt_status t) - int (length gens)) 0"
    using snoc by simp_all
  have "\<not> improves config t f" using snoc.prems x by simp
  then have "\<not> improves config (tracker_run config t gens) f" by (simp add: improves_def IH(1))
  note u = update_not_improved [OF this, of g]
  show ?case
    unfolding x using u update_phase [of "tracker_run config t gens" g f config] assms(4)
    by (auto simp: IH recoveryLevelNext_def add.commute max_def)
qed

text \<open>
  C19: The timeline of the phases. Take a tracker whose last update was an improvement in a
  stagnated run, and then \<open>n\<close> completed generations of which none beats that improvement by more
  than the epsilon. With window \<open>W\<close> and recovery window \<open>R\<close> the tracker is stuck from \<open>2 * W\<close> such
  generations on, on a plateau from \<open>W\<close> on, before that in recovery for exactly \<open>R\<close> generations
  counted from the improvement, and normal otherwise; the improvement stays recorded.
\<close>

theorem phase_timeline:
  fixes config :: evolution_config
  defines "W \<equiv> normalizeStagnationWindow (ec_stagnationWindowGenerations config)"
    and "R \<equiv> normalizeRecoveryWindow (ec_recoveryWindowGenerations config)"
  assumes "ps_stagnationLevel (pt_status t0) > 0"
    and "pu_improved (fst (updateCompletedGeneration t0 g f config))"
  defines "t \<equiv> snd (updateCompletedGeneration t0 g f config)"
  assumes "\<forall>(g', f') \<in> set gens.
      dbl_isfinite f \<and> \<not> dbl_gt f' (dbl_add f (dbl_max0 (ec_stagnationImprovementEpsilon config)))"
  defines "n \<equiv> int (length gens)" and "s \<equiv> pt_status (tracker_run config t gens)"
  shows "ps_phase s = (if 2 * W \<le> n then Phase_Stuck else if W \<le> n then Phase_Plateau
      else if n < R then Phase_Recovery else Phase_Normal) \<and>
    ps_generationsSinceImprovement s = n \<and> ps_lastImprovementGeneration s = g"
proof -
  have imp: "improves config t0 f" using assms(4) by (simp add: update_report)
  note t = update_improved [OF imp, of g, folded t_def]
  have "\<forall>(g', f') \<in> set gens. \<not> improves config t f'"
    using assms(6) by (auto simp: improves_def t(1))
  from stagnating_run [OF t(2,4) update_phase [of t0 g f config, folded t_def] _ this] t(5) assms(3)
  show ?thesis
    unfolding s_def n_def W_def R_def using window_positive [of config]
    by (auto simp: t(3) phaseResolve_def stagnationLevelCompute_def)
qed

theorem phase_timeline_witness:
  "ps_phase (pt_status (tracker_run default_evolution_config
     (snd (updateCompletedGeneration
        \<lparr>pt_lastMeaningfulBestFitness = Fin 1, pt_status = \<lparr>ps_generationsSinceImprovement = 7,
          ps_lastImprovementGeneration = 2, ps_stagnationLevel = 1, ps_recoveryLevel = 0,
          ps_phase = Phase_Plateau\<rparr>\<rparr> 9 (Fin 2) default_evolution_config))
     [(10, Fin 2), (11, NaN)])) = Phase_Recovery"
  using phase_timeline [of "\<lparr>pt_lastMeaningfulBestFitness = Fin 1, pt_status =
      \<lparr>ps_generationsSinceImprovement = 7, ps_lastImprovementGeneration = 2, ps_stagnationLevel = 1,
       ps_recoveryLevel = 0, ps_phase = Phase_Plateau\<rparr>\<rparr>" 9 "Fin 2" default_evolution_config
      "[(10, Fin 2), (11, NaN)]"]
  by (simp add: update_report improves_def default_evolution_config_def dbl_max0_def
      dbl_isfinite_def normalizeStagnationWindow_def normalizeRecoveryWindow_def)

section \<open>The mutation budget stays between the baseline and the rescue\<close>

lemma lround_mono:
  assumes "0 \<le> x" "x \<le> y" shows "lround x \<le> lround y"
  using assms by (simp add: lround_def floor_mono)

lemma clampToInt_id: "0 \<le> v \<Longrightarrow> v \<le> int_max \<Longrightarrow> clampToInt v = v"
  by (auto simp: clampToInt_def)

lemma clampToInt_range: "0 \<le> clampToInt v \<and> clampToInt v \<le> int_max"
  by (auto simp: clampToInt_def int_max_def)

lemma scaledBudget_bounds:
  assumes "0 \<le> b" "b \<le> int_max"
  shows "b \<le> scaledBudgetResolve b s k" "scaledBudgetResolve b s k \<le> int_max"
    "min int_max (b + k) \<le> scaledBudgetResolve b s k"
  using assms by (auto simp: scaledBudgetResolve_def clampToInt_def Let_def int_max_def)

lemma scaledSigma_bounds: "b \<le> scaledSigmaResolve b s k" "b + k \<le> scaledSigmaResolve b s k"
  by (auto simp: scaledSigmaResolve_def)

lemma recovery_factor: "0 \<le> clamp f (0 :: real) 1" "clamp f (0 :: real) 1 \<le> 1"
  using clamp_bounds [of "0 :: real" 1 f] by simp_all

lemma interpolate:
  assumes "(b :: real) \<le> p"
  shows "b \<le> b + (p - b) * clamp f 0 1" "b + (p - b) * clamp f 0 1 \<le> p"
proof -
  have "0 \<le> (p - b) * clamp f 0 1" using assms recovery_factor [of f] by simp
  moreover have "(p - b) * clamp f 0 1 \<le> p - b"
    using assms recovery_factor [of f] by (simp add: mult_left_le)
  ultimately show "b \<le> b + (p - b) * clamp f 0 1" "b + (p - b) * clamp f 0 1 \<le> p" by linarith+
qed

lemma lround_interpolate:
  assumes "0 \<le> b" "b \<le> p"
  shows "b \<le> lround (of_int b + of_int (p - b) * clamp f (0 :: real) 1)"
    "lround (of_int b + of_int (p - b) * clamp f (0 :: real) 1) \<le> p"
proof -
  let ?r = "real_of_int b + of_int (p - b) * clamp f 0 1"
  have r: "real_of_int b \<le> ?r" "?r \<le> real_of_int p"
    using interpolate [of "real_of_int b" "real_of_int p" f] assms(2) by simp_all
  moreover have "0 \<le> real_of_int b" using assms(1) by simp
  ultimately have "lround (real_of_int b) \<le> lround ?r" "lround ?r \<le> lround (real_of_int p)"
    using lround_mono [of "real_of_int b" ?r] lround_mono [of ?r "real_of_int p"] by linarith+
  then show "b \<le> lround ?r" "lround ?r \<le> p" by simp_all
qed

lemma recoveryBudget_bounds:
  assumes "0 \<le> b" "b \<le> int_max" "p \<le> int_max"
  shows "b \<le> recoveryBudgetResolve b p l w" "recoveryBudgetResolve b p l w \<le> max b p"
proof -
  have "b \<le> recoveryBudgetResolve b p l w \<and> recoveryBudgetResolve b p l w \<le> max b p"
  proof (cases "l \<le> 0 \<or> w \<le> 0 \<or> p \<le> b")
    case True
    then show ?thesis by (auto simp: recoveryBudgetResolve_def)
  next
    case False
    let ?r = "lround (of_int b + of_int (p - b) * clamp (of_int (max (l - 1) 0) / of_int w) (0 :: real) 1)"
    from False have "b \<le> p" by simp
    note lround_interpolate [OF assms(1) this, of "of_int (max (l - 1) 0) / of_int w"]
    then have "b \<le> ?r" "?r \<le> p" by fast+
    moreover from this have "clampToInt ?r = ?r" using assms by (intro clampToInt_id) simp_all
    moreover have "recoveryBudgetResolve b p l w = clampToInt ?r"
      using False by (simp only: recoveryBudgetResolve_def Let_def if_False)
    ultimately show ?thesis by simp
  qed
  then show "b \<le> recoveryBudgetResolve b p l w" "recoveryBudgetResolve b p l w \<le> max b p" by auto
qed

lemma recoverySigma_bounds:
  "b \<le> recoverySigmaResolve b p l w" "recoverySigmaResolve b p l w \<le> max b p"
proof -
  have "b \<le> recoverySigmaResolve b p l w \<and> recoverySigmaResolve b p l w \<le> max b p"
  proof (cases "l \<le> 0 \<or> w \<le> 0 \<or> p \<le> b")
    case True
    then show ?thesis by (auto simp: recoverySigmaResolve_def)
  next
    case False
    then have "recoverySigmaResolve b p l w =
        b + (p - b) * clamp (of_int (max (l - 1) 0) / of_int w) 0 1"
      by (simp only: recoverySigmaResolve_def Let_def if_False)
    with False interpolate [of b p "of_int (max (l - 1) 0) / of_int w"] show ?thesis by simp
  qed
  then show "b \<le> recoverySigmaResolve b p l w" "recoverySigmaResolve b p l w \<le> max b p" by auto
qed

text \<open>The last generation of a recovery has no distance left to the baseline.\<close>

lemma recovery_last_step:
  assumes "l \<le> 1"
  shows "0 \<le> b \<Longrightarrow> b \<le> int_max \<Longrightarrow> recoveryBudgetResolve b p l w = b" "recoverySigmaResolve s q l w = s"
proof -
  from assms have "max (l - 1) 0 = 0" by simp
  then show "0 \<le> b \<Longrightarrow> b \<le> int_max \<Longrightarrow> recoveryBudgetResolve b p l w = b" "recoverySigmaResolve s q l w = s"
    by (simp_all add: recoveryBudgetResolve_def recoverySigmaResolve_def clampToInt_id)
qed



text \<open>
  A rescue ends. After the improvement that ends a stagnation, the generation at the end of
  the recovery window, and every one after it before the next plateau, breeds with the baseline
  mutation, whatever budget the earlier generations used.
\<close>

theorem rescue_ends:
  fixes config :: evolution_config and baseline :: mutation_config
  defines "W \<equiv> normalizeStagnationWindow (ec_stagnationWindowGenerations config)"
    and "R \<equiv> normalizeRecoveryWindow (ec_recoveryWindowGenerations config)"
  assumes "ps_stagnationLevel (pt_status t0) > 0"
    and "pu_improved (fst (updateCompletedGeneration t0 g f config))" "dbl_isfinite f"
    and "\<forall>(g', f') \<in> set gens.
      \<not> dbl_gt f' (dbl_add f (dbl_max0 (ec_stagnationImprovementEpsilon config)))"
    and "R \<le> int (length gens) + 1" "int (length gens) < W"
    and "0 \<le> mc_perturbationsPerOffspring baseline" "mc_perturbationsPerOffspring baseline \<le> int_max"
    and "0 \<le> mc_resetsPerOffspring baseline" "mc_resetsPerOffspring baseline \<le> int_max"
  defines "t \<equiv> tracker_run config (snd (updateCompletedGeneration t0 g f config)) gens"
  shows "em_mutationConfig (adaptiveMutationResolve baseline (pt_status t) previous config Control_Auto)
    = baseline"
proof -
  have imp: "improves config t0 f" using assms(4) by (simp add: update_report)
  let ?t = "snd (updateCompletedGeneration t0 g f config)"
  note u = update_improved [OF imp, of g]
  have "\<forall>(g', f') \<in> set gens. \<not> improves config ?t f'"
    using assms(5,6) by (auto simp: improves_def u(1))
  note s = stagnating_run [OF u(2,4) update_phase [of t0 g f config] _ this]
  have l: "ps_recoveryLevel (pt_status t) \<le> 1" and z: "ps_stagnationLevel (pt_status t) = 0"
    and p: "ps_phase (pt_status t) = phaseResolve (pt_status t)"
    using s u(5) assms(3,7,8) window_positive [of config]
    by (auto simp: t_def W_def R_def stagnationLevelCompute_def)
  have "adaptiveMutationPhaseResolve (ps_phase (pt_status t)) Control_Auto \<in> {Phase_Normal, Phase_Recovery}"
    by (simp add: adaptiveMutationPhaseResolve_def p phaseResolve_def z)
  then show ?thesis
    using recovery_last_step [OF l] assms(9-12) by (auto simp: adaptiveMutationResolve_def)
qed

theorem rescue_ends_witness:
  "em_mutationConfig (adaptiveMutationResolve default_mutation_config
     (pt_status (tracker_run default_evolution_config
       (snd (updateCompletedGeneration
          \<lparr>pt_lastMeaningfulBestFitness = Fin 1, pt_status = \<lparr>ps_generationsSinceImprovement = 11,
            ps_lastImprovementGeneration = 2, ps_stagnationLevel = 2, ps_recoveryLevel = 0,
            ps_phase = Phase_Stuck\<rparr>\<rparr> 13 (Fin 2) default_evolution_config))
       [(14, Fin 2), (15, Fin 1)]))
     \<lparr>em_mode = Mode_Recover, em_mutationConfig = default_mutation_config\<lparr>mc_perturbationsPerOffspring := 400\<rparr>\<rparr>
     default_evolution_config Control_Auto) = default_mutation_config"
  by (rule rescue_ends) (simp_all add: update_report improves_def default_evolution_config_def dbl_max0_def
      dbl_isfinite_def normalizeStagnationWindow_def normalizeRecoveryWindow_def default_mutation_config_def
      int_max_def)

end
