(* ===== verification/Mutation.thy ===== *)
theory Mutation
  imports TrainingPhase
begin

text \<open>
  core/organisms/evolution/Mutation.{h,cpp}, GenomeLayout.h and brains/Genome.h: the change of a
  genome by resets and Gaussian perturbations, with a budget spread over the segments of its
  layout. Weights and noise are reals. The random engine is an argument: a state, a function that
  draws a natural number from it, from which a uniform distribution takes the remainder, and one
  that draws Gaussian noise; so a statement about every engine is one about every possible
  sequence of draws. \<open>None\<close> is the abort of \<open>DIRTSIM_ASSERT\<close>.
\<close>

section \<open>Genomes, layouts and random draws\<close>

record 'w genome =
  weights :: "'w list"

record genome_segment =
  gs_name :: string
  gs_size :: int

type_synonym genome_layout = "genome_segment list"

definition totalSize :: "genome_layout \<Rightarrow> int" where
  "totalSize layout = foldl (\<lambda>total seg. total + gs_size seg) 0 layout"

record 'g random_source =
  rnd_draw :: "'g \<Rightarrow> nat \<times> 'g"
  rnd_noise :: "real \<Rightarrow> 'g \<Rightarrow> real \<times> 'g"

text \<open>\<open>std::uniform_int_distribution(lo, hi)\<close> and \<open>std::shuffle\<close>.\<close>

definition uniform_int :: "'g random_source \<Rightarrow> nat \<Rightarrow> nat \<Rightarrow> 'g \<Rightarrow> nat \<times> 'g" where
  "uniform_int R lo hi g = (let (d, g) = rnd_draw R g in (lo + d mod (hi - lo + 1), g))"

definition swap_at :: "'a list \<Rightarrow> nat \<Rightarrow> nat \<Rightarrow> 'a list" where
  "swap_at xs i j = xs[i := xs ! j, j := xs ! i]"

definition shuffle_list :: "'g random_source \<Rightarrow> 'a list \<Rightarrow> 'g \<Rightarrow> 'a list \<times> 'g" where
  "shuffle_list R xs g =
     foldl (\<lambda>(ys, g) i. let (j, g) = uniform_int R 0 i g in (swap_at ys i j, g)) (xs, g) [1..<length xs]"

text \<open>Insertion into a set held as the list of its elements.\<close>

definition set_add :: "'a \<Rightarrow> 'a list \<Rightarrow> 'a list" where
  "set_add x xs = (if x \<in> set xs then xs else xs @ [x])"

record mutation_stats =
  ms_perturbations :: int
  ms_resets :: int

definition totalChanges :: "mutation_stats \<Rightarrow> int" where
  "totalChanges st = ms_perturbations st + ms_resets st"

section \<open>Counts and indices\<close>

definition clampMutationCount :: "int \<Rightarrow> nat \<Rightarrow> nat" where
  "clampMutationCount v maxValue =
     (if v \<le> 0 \<or> maxValue = 0 then 0
      else if nat v \<ge> maxValue then maxValue
      else nat v)"

text \<open>One step of the loop over \<open>j\<close>: draw from \<open>0..j\<close>, and take \<open>j\<close> itself when the draw is taken.\<close>

definition sampleStep :: "'g random_source \<Rightarrow> nat list \<times> 'g \<Rightarrow> nat \<Rightarrow> nat list \<times> 'g" where
  "sampleStep R acc j =
     (let (selected, g) = acc;
          (t, g) = uniform_int R 0 j g
      in (if t \<in> set selected then set_add j selected else set_add t selected, g))"

definition sampleUniqueIndices :: "'g random_source \<Rightarrow> nat \<Rightarrow> nat \<Rightarrow> 'g \<Rightarrow> nat list \<times> 'g" where
  "sampleUniqueIndices R domainSize cnt g =
     (let cnt = min cnt domainSize
      in if cnt = 0 \<or> domainSize = 0 then ([], g)
         else let start = domainSize - cnt;
                  (selected, g) = foldl (sampleStep R) ([], g) [start..<domainSize]
              in shuffle_list R selected g)"

section \<open>The budget of a segment\<close>

text \<open>C++ division truncates towards zero.\<close>

definition quotient :: "int \<Rightarrow> int \<Rightarrow> int" where
  "quotient a b = (if (a < 0) = (b < 0) then \<bar>a\<bar> div \<bar>b\<bar> else - (\<bar>a\<bar> div \<bar>b\<bar>))"

text \<open>
  \<open>std::sort\<close> leaves open the order of segments of equal size; the model keeps them in the order of
  their indices, and the lemmas use only that the result is a permutation.
\<close>

definition largestFirst :: "genome_layout \<Rightarrow> nat list" where
  "largestFirst layout = sort_key (\<lambda>a. - gs_size (layout ! a)) [0..<length layout]"

definition distributeBudget :: "genome_layout \<Rightarrow> int \<Rightarrow> int list" where
  "distributeBudget layout budget =
     (let segmentCount = int (length layout);
          alloc = replicate (length layout) 0
      in if budget \<le> 0 \<or> segmentCount = 0 then alloc
         else
           let floorTotal = min budget segmentCount;
               alloc = map (\<lambda>i. if int i < floorTotal then 1 else 0) [0..<length layout];
               remaining = budget - floorTotal
           in if remaining \<le> 0 then alloc
              else if totalSize layout \<le> 0 then alloc
              else
                let shares = map (\<lambda>seg. quotient (remaining * gs_size seg) (totalSize layout)) layout;
                    alloc = map2 (+) alloc shares;
                    leftover = remaining - sum_list shares
                in foldl (\<lambda>alloc a. alloc[a := alloc ! a + 1]) alloc
                     (take (nat leftover) (largestFirst layout)))"

section \<open>Mutation\<close>

text \<open>The loop over the reset indices, and the one over the indices of a segment.\<close>

definition resetStep ::
    "'g random_source \<Rightarrow> real \<Rightarrow> real list \<times> mutation_stats \<times> 'g \<Rightarrow> nat \<Rightarrow> real list \<times> mutation_stats \<times> 'g" where
  "resetStep R sigma acc idx =
     (let (ws, st, g) = acc;
          (noise, g) = rnd_noise R sigma g
      in (ws[idx := noise * 2], st\<lparr>ms_resets := ms_resets st + 1\<rparr>, g))"

definition perturbStep ::
    "'g random_source \<Rightarrow> real \<Rightarrow> int \<Rightarrow> real list \<times> mutation_stats \<times> 'g \<Rightarrow> nat \<Rightarrow>
     real list \<times> mutation_stats \<times> 'g" where
  "perturbStep R sigma segOffset acc localIdx =
     (let (ws, st, g) = acc;
          globalIdx = nat segOffset + localIdx;
          (noise, g) = rnd_noise R sigma g
      in (ws[globalIdx := ws ! globalIdx + noise], st\<lparr>ms_perturbations := ms_perturbations st + 1\<rparr>, g))"

definition segmentStep ::
    "'g random_source \<Rightarrow> real \<Rightarrow> int \<times> real list \<times> mutation_stats \<times> 'g \<Rightarrow> genome_segment \<times> int \<Rightarrow>
     int \<times> real list \<times> mutation_stats \<times> 'g" where
  "segmentStep R sigma acc seg =
     (let (segOffset, ws, st, g) = acc;
          segSize = gs_size (fst seg);
          segBudget = snd seg;
          (ws, st, g) =
            (if segBudget > 0 \<and> segSize > 0
             then let (indices, g) = sampleUniqueIndices R (nat segSize) (nat segBudget) g
                  in foldl (perturbStep R sigma segOffset) (ws, st, g) indices
             else (ws, st, g))
      in (segOffset + segSize, ws, st, g))"

definition mutate ::
    "'g random_source \<Rightarrow> real genome \<Rightarrow> mutation_config \<Rightarrow> genome_layout \<Rightarrow> 'g \<Rightarrow>
     (real genome \<times> mutation_stats \<times> 'g) option" where
  "mutate R parent config layout g =
     (let st = \<lparr>ms_perturbations = 0, ms_resets = 0\<rparr>;
          ws = weights parent;
          weightCount = length ws;
          resetCount = clampMutationCount (mc_resetsPerOffspring config) weightCount;
          perturbCount = clampMutationCount (mc_perturbationsPerOffspring config) (weightCount - resetCount)
      in if layout = [] then None
         else if totalSize layout \<noteq> int weightCount then None
         else
           let (ws, st, g) =
                 (if resetCount > 0
                  then let (resetIndices, g) = sampleUniqueIndices R weightCount resetCount g
                       in foldl (resetStep R (mc_sigma config)) (ws, st, g) resetIndices
                  else (ws, st, g));
               segBudgets = distributeBudget layout (int perturbCount);
               (_, ws, st, g) = foldl (segmentStep R (mc_sigma config)) (0, ws, st, g) (zip layout segBudgets)
           in Some (parent\<lparr>weights := ws\<rparr>, st, g))"

section \<open>Sampled indices are distinct and in range\<close>

lemma uniform_int_range:
  assumes "lo \<le> hi" shows "lo \<le> fst (uniform_int R lo hi g) \<and> fst (uniform_int R lo hi g) \<le> hi"
proof -
  obtain d g' where d: "rnd_draw R g = (d, g')" by force
  have "d mod (hi - lo + 1) < hi - lo + 1" by (rule mod_less_divisor) simp
  then have "lo + d mod (hi - lo + 1) \<le> hi" using assms by linarith
  then show ?thesis by (simp add: uniform_int_def d)
qed

lemma mset_swap_at: "i < length xs \<Longrightarrow> j < length xs \<Longrightarrow> mset (swap_at xs i j) = mset xs"
  by (simp add: swap_at_def mset_swap)

lemma length_swap_at [simp]: "length (swap_at xs i j) = length xs"
  by (simp add: swap_at_def)

lemma mset_shuffle_list [simp]: "mset (fst (shuffle_list R xs g)) = mset xs"
proof -
  have "mset (fst (foldl (\<lambda>(ys, g) i. let (j, g) = uniform_int R 0 i g in (swap_at ys i j, g)) (ys, g) is))
      = mset ys" if "\<forall>i \<in> set is. i < length ys" for ys g "is"
    using that
  proof (induction "is" arbitrary: ys g)
    case (Cons i "is")
    obtain j g' where u: "uniform_int R 0 i g = (j, g')" by force
    then have "j \<le> i" using uniform_int_range [of 0 i R g] by simp
    then have "mset (swap_at ys i j) = mset ys" using Cons.prems by (intro mset_swap_at) auto
    with Cons.IH [of "swap_at ys i j" g'] Cons.prems show ?case by (simp add: u)
  qed simp
  from this [of "[1..<length xs]" xs g] show ?thesis by (simp add: shuffle_list_def)
qed

lemma shuffle_list_set [simp]:
  "set (fst (shuffle_list R xs g)) = set xs" "length (fst (shuffle_list R xs g)) = length xs"
  "distinct (fst (shuffle_list R xs g)) = distinct xs"
  by (metis mset_shuffle_list mset_eq_setD, metis mset_shuffle_list size_mset,
      metis mset_shuffle_list mset_eq_imp_distinct_iff)

lemma sample_loop:
  "distinct (fst (foldl (sampleStep R) ([], g) [start..<start + m])) \<and>
   length (fst (foldl (sampleStep R) ([], g) [start..<start + m])) = m \<and>
   (\<forall>x \<in> set (fst (foldl (sampleStep R) ([], g) [start..<start + m])). x < start + m)"
proof (induction m)
  case (Suc m)
  obtain sel g' where s: "foldl (sampleStep R) ([], g) [start..<start + m] = (sel, g')" by force
  obtain t g'' where u: "uniform_int R 0 (start + m) g' = (t, g'')" by force
  then have "t \<le> start + m" using uniform_int_range [of 0 "start + m" R g'] by simp
  moreover have "start + m \<notin> set sel" using Suc s by force
  moreover have "foldl (sampleStep R) ([], g) [start..<start + Suc m] =
      (if t \<in> set sel then set_add (start + m) sel else set_add t sel, g'')"
    by (simp add: s) (simp add: sampleStep_def u)
  ultimately show ?case
    using Suc.IH by (auto simp: s set_add_def less_Suc_eq)
qed simp

lemma sampleUniqueIndices_sound:
  "distinct (fst (sampleUniqueIndices R n k g))" "length (fst (sampleUniqueIndices R n k g)) = min k n"
  "x \<in> set (fst (sampleUniqueIndices R n k g)) \<Longrightarrow> x < n"
proof -
  have *: "distinct (fst (sampleUniqueIndices R n k g)) \<and> length (fst (sampleUniqueIndices R n k g)) = min k n \<and>
      (\<forall>x \<in> set (fst (sampleUniqueIndices R n k g)). x < n)"
  proof (cases "min k n = 0 \<or> n = 0")
    case True
    then show ?thesis by (auto simp: sampleUniqueIndices_def)
  next
    case False
    obtain sel g' where s: "foldl (sampleStep R) ([], g) [n - min k n..<n] = (sel, g')" by force
    have "distinct sel \<and> length sel = min k n \<and> (\<forall>x \<in> set sel. x < n)"
      using sample_loop [of R g "n - min k n" "min k n"] s by simp
    moreover have "sampleUniqueIndices R n k g = shuffle_list R sel g'"
      using False s by (auto simp: sampleUniqueIndices_def Let_def)
    ultimately show ?thesis by simp
  qed
  then show "distinct (fst (sampleUniqueIndices R n k g))"
    "length (fst (sampleUniqueIndices R n k g)) = min k n"
    "x \<in> set (fst (sampleUniqueIndices R n k g)) \<Longrightarrow> x < n" by blast+
qed

section \<open>The budget is spread completely\<close>

lemma totalSize_sum: "totalSize layout = sum_list (map gs_size layout)"
proof -
  have "foldl (\<lambda>total seg. total + gs_size seg) a layout = a + sum_list (map gs_size layout)" for a
    by (induction layout arbitrary: a) (simp_all add: add.assoc)
  then show ?thesis by (simp add: totalSize_def)
qed

lemma floor_ones_sum:
  assumes "0 \<le> b" "b \<le> int n"
  shows "sum_list (map (\<lambda>i. if int i < b then 1 else 0) [0..<n]) = b"
  using assms
proof (induction n)
  case (Suc n)
  show ?case
  proof (cases "b \<le> int n")
    case False
    then have "map (\<lambda>i. if int i < b then 1 else 0) [0..<n] = map (\<lambda>_. 1 :: int) [0..<n]" by auto
    then have "sum_list (map (\<lambda>i. if int i < b then 1 else 0) [0..<n]) = int n"
      by (simp only: sum_list_triv) simp
    with False Suc.prems show ?thesis by simp
  qed (use Suc in auto)
qed simp

lemma sum_list_map2_add: "length xs = length ys \<Longrightarrow> sum_list (map2 (+) xs ys) = sum_list xs + (sum_list ys :: int)"
  by (induction xs ys rule: list_induct2) simp_all

lemma sum_list_update_int:
  "a < length xs \<Longrightarrow> sum_list (xs[a := x]) = sum_list xs - xs ! a + (x :: int)"
  by (induction xs arbitrary: a) (auto split: nat.split)

lemma sum_list_bump:
  assumes "\<forall>a \<in> set is. a < length xs"
  shows "sum_list (foldl (\<lambda>xs a. xs[a := xs ! a + 1]) xs is) = sum_list xs + int (length is)"
    "length (foldl (\<lambda>xs a. xs[a := xs ! a + 1]) xs is) = length xs"
  using assms
proof (induction "is" arbitrary: xs)
  case (Cons a "is")
  {
    case 1
    then have "sum_list (xs[a := xs ! a + 1]) = sum_list xs + 1"
      by (simp add: sum_list_update_int)
    with 1 Cons.IH(1) [of "xs[a := xs ! a + 1]"] show ?case by simp
  next
    case 2
    with Cons.IH(2) [of "xs[a := xs ! a + 1]"] show ?case by simp
  }
qed simp_all

lemma bump_nonneg:
  assumes "\<forall>x \<in> set xs. (0 :: int) \<le> x" "\<forall>a \<in> set is. a < length xs"
  shows "\<forall>x \<in> set (foldl (\<lambda>xs a. xs[a := xs ! a + 1]) xs is). 0 \<le> x"
  using assms
proof (induction "is" arbitrary: xs)
  case (Cons a "is")
  have "\<forall>x \<in> set (xs[a := xs ! a + 1]). 0 \<le> x"
    using Cons.prems by (auto dest!: set_update_subset_insert [THEN subsetD] intro: add_nonneg_nonneg)
  with Cons show ?case by simp
qed simp

text \<open>The shares leave fewer units over than there are segments.\<close>

lemma quotient_nonneg: "0 \<le> a \<Longrightarrow> 0 < b \<Longrightarrow> quotient a b = a div b"
  by (simp add: quotient_def)

lemma shares_sum:
  assumes "\<forall>seg \<in> set layout. 0 \<le> gs_size seg" "0 \<le> r" "0 < T" "layout \<noteq> []"
  defines "q \<equiv> sum_list (map (\<lambda>seg. quotient (r * gs_size seg) T) layout)"
  shows "T * q \<le> r * sum_list (map gs_size layout)"
    "r * sum_list (map gs_size layout) < T * (q + int (length layout))"
    "\<forall>seg \<in> set layout. 0 \<le> quotient (r * gs_size seg) T"
proof -
  have *: "T * ((r * s) div T) \<le> r * s \<and> r * s < T * ((r * s) div T + 1)" for s
  proof -
    have "r * s = T * ((r * s) div T) + (r * s) mod T" by (rule mult_div_mod_eq [symmetric])
    moreover have "0 \<le> (r * s) mod T" "(r * s) mod T < T" using assms(3) by simp_all
    moreover have "T * ((r * s) div T + 1) = T * ((r * s) div T) + T" by (simp add: distrib_left)
    ultimately show ?thesis by linarith
  qed
  have "T * sum_list (map (\<lambda>seg. quotient (r * gs_size seg) T) xs) \<le> r * sum_list (map gs_size xs) \<and>
      (xs \<noteq> [] \<longrightarrow> r * sum_list (map gs_size xs) <
        T * (sum_list (map (\<lambda>seg. quotient (r * gs_size seg) T) xs) + int (length xs)))"
    if "set xs \<subseteq> set layout" for xs
    using that
  proof (induction xs)
    case (Cons x xs)
    have q: "quotient (r * gs_size x) T = r * gs_size x div T"
      using Cons.prems assms(1-3) by (intro quotient_nonneg) auto
    show ?case
      using Cons * [of "gs_size x"] by (cases "xs = []") (auto simp: q distrib_left)
  qed simp
  from this [of layout] assms(4)
  show "T * q \<le> r * sum_list (map gs_size layout)"
    "r * sum_list (map gs_size layout) < T * (q + int (length layout))" by (simp_all add: q_def)
  show "\<forall>seg \<in> set layout. 0 \<le> quotient (r * gs_size seg) T"
    using assms(1-3) by (simp add: quotient_nonneg pos_imp_zdiv_nonneg_iff)
qed

lemma largestFirst_perm:
  "length (largestFirst layout) = length layout" "set (largestFirst layout) = {..<length layout}"
  by (auto simp: largestFirst_def)

lemma take_largestFirst: "\<forall>a \<in> set (take k (largestFirst layout)). a < length layout"
  using largestFirst_perm(2) [of layout] by (auto dest: in_set_takeD)

text \<open>The budgets: one per segment, none negative, and together the whole budget.\<close>

lemma distributeBudget_sound:
  assumes "\<forall>seg \<in> set layout. 0 \<le> gs_size seg" "layout \<noteq> []" "0 \<le> budget"
    and "0 < budget \<Longrightarrow> 0 < totalSize layout"
  shows "length (distributeBudget layout budget) = length layout \<and>
    (\<forall>b \<in> set (distributeBudget layout budget). 0 \<le> b) \<and> sum_list (distributeBudget layout budget) = budget"
proof (cases "budget \<le> 0")
  case True
  with assms(3) show ?thesis by (simp add: distributeBudget_def sum_list_replicate)
next
  case pos: False
  let ?k = "int (length layout)"
  let ?f = "min budget ?k"
  let ?ones = "map (\<lambda>i. if int i < ?f then 1 else 0 :: int) [0..<length layout]"
  have ones: "sum_list ?ones = ?f" using pos by (intro floor_ones_sum) auto
  show ?thesis
  proof (cases "budget - ?f \<le> 0")
    case True
    then have "distributeBudget layout budget = ?ones"
      using pos assms(2) by (simp add: distributeBudget_def Let_def)
    with True ones show ?thesis by auto
  next
    case rem: False
    let ?r = "budget - ?f"
    let ?T = "totalSize layout"
    let ?shares = "map (\<lambda>seg. quotient (?r * gs_size seg) ?T) layout"
    let ?left = "?r - sum_list ?shares"
    have T: "0 < ?T" using assms(4) pos by simp
    have r: "0 \<le> ?r" using rem by simp
    note s = shares_sum [OF assms(1) r T assms(2), folded totalSize_sum]
    have "?T * sum_list ?shares \<le> ?T * ?r" using s(1) by (simp only: mult.commute)
    then have left0: "0 \<le> ?left" using T by simp
    have "?T * ?r < ?T * (sum_list ?shares + ?k)" using s(2) by (simp only: mult.commute)
    then have "?r < sum_list ?shares + ?k" using T by simp
    then have "nat ?left \<le> length layout" by simp
    then have len: "length (take (nat ?left) (largestFirst layout)) = nat ?left"
      by (simp add: largestFirst_perm)
    let ?base = "map2 (+) ?ones ?shares"
    let ?is = "take (nat ?left) (largestFirst layout)"
    have d: "distributeBudget layout budget = foldl (\<lambda>xs a. xs[a := xs ! a + 1]) ?base ?is"
      using pos rem T assms(2) by (simp add: distributeBudget_def Let_def)
    have bound: "\<forall>a \<in> set ?is. a < length ?base" using take_largestFirst by simp
    have "sum_list ?base = ?f + sum_list ?shares" using ones by (simp add: sum_list_map2_add del: upt_Suc)
    moreover have "0 \<le> x + y" if "(x, y) \<in> set (zip ?ones ?shares)" for x y
    proof -
      from that have "x \<in> set ?ones" "y \<in> set ?shares" by (rule set_zip_leftD, rule set_zip_rightD)
      then have "0 \<le> x" "0 \<le> y" using s(3) by auto
      then show ?thesis by simp
    qed
    then have "\<forall>x \<in> set ?base. 0 \<le> x" by auto
    moreover note bump_nonneg [OF this bound]
    ultimately show ?thesis
      unfolding d sum_list_bump [OF bound] len using left0 by (simp only: length_map length_zip) simp
  qed
qed

section \<open>What a mutation changes\<close>

definition changed :: "real list \<Rightarrow> real list \<Rightarrow> int" where
  "changed xs ys = int (card {i. i < length xs \<and> xs ! i \<noteq> ys ! i})"

lemma changed_refl [simp]: "changed xs xs = 0"
  by (simp add: changed_def)

lemma changed_update: "changed xs (ys[i := v]) \<le> changed xs ys + 1"
proof -
  have "{k. k < length xs \<and> xs ! k \<noteq> ys[i := v] ! k} \<subseteq> insert i {k. k < length xs \<and> xs ! k \<noteq> ys ! k}"
    by (auto simp: nth_list_update_other)
  then have "card {k. k < length xs \<and> xs ! k \<noteq> ys[i := v] ! k}
      \<le> card (insert i {k. k < length xs \<and> xs ! k \<noteq> ys ! k})"
    by (rule card_mono [rotated]) simp
  also have "\<dots> \<le> card {k. k < length xs \<and> xs ! k \<noteq> ys ! k} + 1"
    by (simp add: card_insert_if)
  finally show ?thesis by (simp add: changed_def)
qed

lemma changed_0: "length xs = length ys \<Longrightarrow> changed xs ys \<le> 0 \<Longrightarrow> xs = ys"
  by (auto simp: changed_def intro: nth_equalityI)

text \<open>The state of the loops: as long a genome, and no more changes than the statistics count.\<close>

definition changes_counted :: "real list \<Rightarrow> real list \<times> mutation_stats \<times> 'g \<Rightarrow> bool" where
  "changes_counted parent acc =
     (length (fst acc) = length parent \<and> changed parent (fst acc) \<le> totalChanges (fst (snd acc)))"

lemma resetStep_sound:
  assumes "changes_counted parent acc"
  shows "changes_counted parent (resetStep R sigma acc idx)"
    "ms_resets (fst (snd (resetStep R sigma acc idx))) = ms_resets (fst (snd acc)) + 1"
    "ms_perturbations (fst (snd (resetStep R sigma acc idx))) = ms_perturbations (fst (snd acc))"
proof -
  obtain ws st g where a: "acc = (ws, st, g)" by (cases acc)
  obtain v g' where v: "rnd_noise R sigma g = (v, g')" by force
  show "changes_counted parent (resetStep R sigma acc idx)"
    "ms_resets (fst (snd (resetStep R sigma acc idx))) = ms_resets (fst (snd acc)) + 1"
    "ms_perturbations (fst (snd (resetStep R sigma acc idx))) = ms_perturbations (fst (snd acc))"
    using assms changed_update [of parent ws idx "v * 2"]
    by (simp_all add: a v resetStep_def changes_counted_def totalChanges_def)
qed

lemma perturbStep_sound:
  assumes "changes_counted parent acc"
  shows "changes_counted parent (perturbStep R sigma off acc idx)"
    "ms_resets (fst (snd (perturbStep R sigma off acc idx))) = ms_resets (fst (snd acc))"
    "ms_perturbations (fst (snd (perturbStep R sigma off acc idx))) = ms_perturbations (fst (snd acc)) + 1"
proof -
  obtain ws st g where a: "acc = (ws, st, g)" by (cases acc)
  obtain v g' where v: "rnd_noise R sigma g = (v, g')" by force
  show "changes_counted parent (perturbStep R sigma off acc idx)"
    "ms_resets (fst (snd (perturbStep R sigma off acc idx))) = ms_resets (fst (snd acc))"
    "ms_perturbations (fst (snd (perturbStep R sigma off acc idx))) = ms_perturbations (fst (snd acc)) + 1"
    using assms changed_update [of parent ws "nat off + idx" "ws ! (nat off + idx) + v"]
    by (simp_all add: a v perturbStep_def changes_counted_def totalChanges_def Let_def)
qed

lemma reset_loop:
  assumes "changes_counted parent acc"
  shows "changes_counted parent (foldl (resetStep R sigma) acc is) \<and>
    ms_resets (fst (snd (foldl (resetStep R sigma) acc is))) = ms_resets (fst (snd acc)) + int (length is) \<and>
    ms_perturbations (fst (snd (foldl (resetStep R sigma) acc is))) = ms_perturbations (fst (snd acc))"
  using assms by (induction "is" arbitrary: acc) (simp_all add: resetStep_sound)

lemma perturb_loop:
  assumes "changes_counted parent acc"
  shows "changes_counted parent (foldl (perturbStep R sigma off) acc is) \<and>
    ms_resets (fst (snd (foldl (perturbStep R sigma off) acc is))) = ms_resets (fst (snd acc)) \<and>
    ms_perturbations (fst (snd (foldl (perturbStep R sigma off) acc is))) =
      ms_perturbations (fst (snd acc)) + int (length is)"
  using assms by (induction "is" arbitrary: acc) (simp_all add: perturbStep_sound)

text \<open>A segment receives its budget, or all its weights when the budget is larger.\<close>

definition segment_changes :: "genome_segment \<times> int \<Rightarrow> int" where
  "segment_changes sb = max 0 (min (snd sb) (gs_size (fst sb)))"

lemma segmentStep_sound:
  assumes "changes_counted parent (snd acc)"
  shows "changes_counted parent (snd (segmentStep R sigma acc sb)) \<and>
    ms_resets (fst (snd (snd (segmentStep R sigma acc sb)))) = ms_resets (fst (snd (snd acc))) \<and>
    ms_perturbations (fst (snd (snd (segmentStep R sigma acc sb)))) =
      ms_perturbations (fst (snd (snd acc))) + segment_changes sb \<and>
    fst (segmentStep R sigma acc sb) = fst acc + gs_size (fst sb)"
proof -
  obtain off ws st g where a: "acc = (off, ws, st, g)" by (cases acc)
  show ?thesis
  proof (cases "snd sb > 0 \<and> gs_size (fst sb) > 0")
    case False
    then have "segment_changes sb = 0" by (auto simp: segment_changes_def)
    moreover from False have "segmentStep R sigma acc sb = (off + gs_size (fst sb), ws, st, g)"
      by (simp only: a segmentStep_def Let_def prod.case if_False)
    ultimately show ?thesis using assms by (simp add: a)
  next
    case True
    obtain idxs g' where s: "sampleUniqueIndices R (nat (gs_size (fst sb))) (nat (snd sb)) g = (idxs, g')"
      by force
    have "length idxs = min (nat (snd sb)) (nat (gs_size (fst sb)))"
      using sampleUniqueIndices_sound(2) [of R "nat (gs_size (fst sb))" "nat (snd sb)" g] s by simp
    then have "int (length idxs) = segment_changes sb" using True by (auto simp: segment_changes_def)
    moreover have "changes_counted parent (ws, st, g')"
      using assms by (simp add: a changes_counted_def)
    moreover have "segmentStep R sigma acc sb =
        (off + gs_size (fst sb), foldl (perturbStep R sigma off) (ws, st, g') idxs)"
      using True s by (simp add: a segmentStep_def Let_def split: prod.split)
    ultimately show ?thesis
      using perturb_loop [of parent "(ws, st, g')" R sigma off idxs] by (simp add: a)
  qed
qed

lemma segment_loop:
  assumes "changes_counted parent (snd acc)"
  shows "changes_counted parent (snd (foldl (segmentStep R sigma) acc sbs)) \<and>
    ms_resets (fst (snd (snd (foldl (segmentStep R sigma) acc sbs)))) = ms_resets (fst (snd (snd acc))) \<and>
    ms_perturbations (fst (snd (snd (foldl (segmentStep R sigma) acc sbs)))) =
      ms_perturbations (fst (snd (snd acc))) + sum_list (map segment_changes sbs)"
  using assms
proof (induction sbs arbitrary: acc)
  case (Cons sb sbs)
  with segmentStep_sound [of parent acc R sigma sb] show ?case by simp
qed simp

lemma clampMutationCount_le: "clampMutationCount v n \<le> n"
  by (auto simp: clampMutationCount_def)

text \<open>The indices of a segment lie inside the genome: no weight outside the vector is written.\<close>

lemma segment_index_inside:
  assumes "layout = pre @ seg # post" "\<forall>seg \<in> set layout. 0 \<le> gs_size seg"
    and "idx \<in> set (fst (sampleUniqueIndices R (nat (gs_size seg)) k g))"
  shows "int (nat (totalSize pre) + idx) < totalSize layout"
proof -
  have "idx < nat (gs_size seg)" using assms(3) by (rule sampleUniqueIndices_sound(3))
  moreover have "0 \<le> totalSize pre" "0 \<le> totalSize post"
    using assms(1,2) by (auto simp: totalSize_sum intro!: sum_list_nonneg)
  moreover have "totalSize layout = totalSize pre + gs_size seg + totalSize post"
    using assms(1) by (simp add: totalSize_sum)
  ultimately show ?thesis by linarith
qed

lemma segment_changes_le: "0 \<le> b \<Longrightarrow> segment_changes (seg, b) \<le> b"
  by (simp add: segment_changes_def)

lemma segment_changes_sum:
  "length xs = length bs \<Longrightarrow> \<forall>b \<in> set bs. 0 \<le> b \<Longrightarrow>
     sum_list (map segment_changes (zip xs bs)) \<le> sum_list bs"
  by (induction xs bs rule: list_induct2) (simp_all add: segment_changes_le add_mono)

lemma mutate_sound:
  fixes R :: "'g random_source" and parent :: "real genome" and config :: mutation_config
  assumes "layout \<noteq> []" "totalSize layout = int (length (weights parent))"
    and "\<forall>seg \<in> set layout. 0 \<le> gs_size seg"
  defines "resets \<equiv> clampMutationCount (mc_resetsPerOffspring config) (length (weights parent))"
  defines "perturbations \<equiv> clampMutationCount (mc_perturbationsPerOffspring config)
      (length (weights parent) - resets)"
  shows "\<exists>child st g'. mutate R parent config layout g = Some (child, st, g') \<and>
    length (weights child) = length (weights parent) \<and>
    ms_resets st = int resets \<and>
    ms_perturbations st =
      sum_list (map segment_changes (zip layout (distributeBudget layout (int perturbations)))) \<and>
    ms_perturbations st \<le> int perturbations \<and>
    sum_list (distributeBudget layout (int perturbations)) = int perturbations \<and>
    changed (weights parent) (weights child) \<le> totalChanges st"
proof -
  let ?n = "length (weights parent)"
  let ?s = "mc_sigma config"
  let ?z = "\<lparr>ms_perturbations = 0, ms_resets = 0\<rparr>"
  define acc where "acc = (if resets > 0
    then let (is, g) = sampleUniqueIndices R ?n resets g in foldl (resetStep R ?s) (weights parent, ?z, g) is
    else (weights parent, ?z, g))"
  have acc: "changes_counted (weights parent) acc \<and> ms_resets (fst (snd acc)) = int resets \<and>
      ms_perturbations (fst (snd acc)) = 0"
  proof (cases "resets > 0")
    case True
    obtain idxs g' where i: "sampleUniqueIndices R ?n resets g = (idxs, g')" by force
    have "length idxs = resets"
      using sampleUniqueIndices_sound(2) [of R ?n resets g] i clampMutationCount_le [of _ ?n]
      by (simp add: resets_def)
    moreover have "changes_counted (weights parent) (weights parent, ?z, g')"
      by (simp add: changes_counted_def totalChanges_def)
    ultimately show ?thesis
      using reset_loop [of "weights parent" "(weights parent, ?z, g')" R ?s idxs] True
      by (simp add: acc_def i)
  next
    case False
    then show ?thesis by (simp add: acc_def changes_counted_def totalChanges_def)
  qed
  define ds where "ds = distributeBudget layout (int perturbations)"
  have "perturbations \<le> ?n - resets" by (simp add: perturbations_def clampMutationCount_le)
  then have "perturbations \<le> ?n" by (rule order_trans) simp
  then have "0 < totalSize layout" if "0 < int perturbations" using that assms(2) by linarith
  then have ds: "length ds = length layout" "\<forall>b \<in> set ds. 0 \<le> b" "sum_list ds = int perturbations"
    using distributeBudget_sound [OF assms(3,1), of "int perturbations"] by (simp_all add: ds_def)
  obtain off ws st g' where f: "foldl (segmentStep R ?s) (0, acc) (zip layout ds) = (off, ws, st, g')"
    by (metis prod_cases4)
  obtain ws0 st0 g0 where a0: "acc = (ws0, st0, g0)" by (cases acc)
  have "mutate R parent config layout g = Some (parent\<lparr>weights := ws\<rparr>, st, g')"
    using assms(1,2) f
    unfolding mutate_def Let_def resets_def [symmetric] perturbations_def [symmetric]
      acc_def [unfolded Let_def, symmetric] ds_def [symmetric] a0 prod.case
    by simp
  moreover have "changes_counted (weights parent) (ws, st, g') \<and> ms_resets st = int resets \<and>
      ms_perturbations st = sum_list (map segment_changes (zip layout ds))"
    using segment_loop [of "weights parent" "(0, acc)" R ?s "zip layout ds"] acc f by simp
  moreover have "sum_list (map segment_changes (zip layout ds)) \<le> int perturbations"
    using segment_changes_sum [of layout ds] ds by simp
  ultimately show ?thesis
    using ds by (auto simp: changes_counted_def ds_def)
qed

lemma mutation_keeps_length:
  assumes "layout \<noteq> []" "totalSize layout = int (length (weights parent))"
    and "\<forall>seg \<in> set layout. 0 \<le> gs_size seg"
  shows "\<exists>child st g'. mutate R parent config layout g = Some (child, st, g') \<and>
    length (weights child) = length (weights parent)"
  using mutate_sound [OF assms, of R config g] by blast

text \<open>
  C18: A mutation keeps the length of the genome, applies exactly the configured number of resets
  (all weights, when there are fewer), never more perturbations than configured and exactly those
  that fit into the segments, and reports them truly: no more weights differ from the parent than
  the statistics count. The budget of the perturbations is handed out completely.
\<close>

theorem mutate_budget:
  fixes R :: "'g random_source" and parent :: "real genome" and config :: mutation_config
  assumes "layout \<noteq> []" "totalSize layout = int (length (weights parent))"
    and "\<forall>seg \<in> set layout. 0 \<le> gs_size seg"
  defines "resets \<equiv> clampMutationCount (mc_resetsPerOffspring config) (length (weights parent))"
  defines "perturbations \<equiv> clampMutationCount (mc_perturbationsPerOffspring config)
      (length (weights parent) - resets)"
  shows "\<exists>child st g'. mutate R parent config layout g = Some (child, st, g') \<and>
    length (weights child) = length (weights parent) \<and>
    ms_resets st = int resets \<and>
    ms_perturbations st =
      sum_list (map segment_changes (zip layout (distributeBudget layout (int perturbations)))) \<and>
    ms_perturbations st \<le> int perturbations \<and>
    sum_list (distributeBudget layout (int perturbations)) = int perturbations \<and>
    changed (weights parent) (weights child) \<le> totalChanges st"
  using mutate_sound [OF assms(1-3), of R config g] unfolding resets_def perturbations_def .

theorem mutate_budget_witness:
  "ms_resets (fst (snd (the (mutate \<lparr>rnd_draw = \<lambda>n :: nat. (n, n + 1), rnd_noise = \<lambda>s n. (s, n + 1)\<rparr>
     \<lparr>weights = [1, 2, 3 :: real]\<rparr> default_mutation_config
     [\<lparr>gs_name = ''in'', gs_size = 2\<rparr>, \<lparr>gs_name = ''out'', gs_size = 1\<rparr>] 5)))) = 1"
  using mutate_budget [of "[\<lparr>gs_name = ''in'', gs_size = 2\<rparr>, \<lparr>gs_name = ''out'', gs_size = 1\<rparr>]"
      "\<lparr>weights = [1, 2, 3 :: real]\<rparr>" "\<lparr>rnd_draw = \<lambda>n :: nat. (n, n + 1), rnd_noise = \<lambda>s n. (s, n + 1)\<rparr>"
      default_mutation_config 5]
  by (auto simp: totalSize_def clampMutationCount_def default_mutation_config_def)

lemma mutate_zero_budget:
  assumes "layout \<noteq> []" "totalSize layout = int (length (weights parent))"
    and "mc_resetsPerOffspring config \<le> 0" "mc_perturbationsPerOffspring config \<le> 0"
  shows "\<exists>st g'. mutate R parent config layout g = Some (parent, st, g') \<and> totalChanges st = 0"
proof -
  have c: "clampMutationCount (mc_resetsPerOffspring config) n = 0"
    "clampMutationCount (mc_perturbationsPerOffspring config) n = 0" for n
    using assms(3,4) by (simp_all add: clampMutationCount_def)
  have d: "distributeBudget layout 0 = replicate (length layout) 0"
    by (simp add: distributeBudget_def)
  have z: "zip layout (replicate (length layout) (0 :: int)) = map (\<lambda>s. (s, 0)) layout" for layout :: genome_layout
    by (induction layout) simp_all
  have "snd (foldl (segmentStep R sigma) (off, ws, st, g) (map (\<lambda>s. (s, 0)) layout)) = (ws, st, g)"
    for off ws st g sigma and layout :: genome_layout
    by (induction layout arbitrary: off) (simp_all add: segmentStep_def)
  note f = this [of "mc_sigma config" 0 "weights parent" "\<lparr>ms_perturbations = 0, ms_resets = 0\<rparr>" g layout]
  obtain off where "foldl (segmentStep R (mc_sigma config))
      (0, weights parent, \<lparr>ms_perturbations = 0, ms_resets = 0\<rparr>, g) (map (\<lambda>s. (s, 0)) layout) =
      (off, weights parent, \<lparr>ms_perturbations = 0, ms_resets = 0\<rparr>, g)"
    using f by (metis prod.collapse)
  then show ?thesis
    using assms(1,2) by (simp add: mutate_def Let_def c d z totalChanges_def)
qed

text \<open>
  A budget as large as the genome does not reach every weight: the rounding leftovers go to the
  largest segments in turn, so a small segment can be given more than it has weights, and the
  excess is lost.
\<close>

lemma perturbation_budget_lost:
  "distributeBudget [\<lparr>gs_name = ''a'', gs_size = 5\<rparr>, \<lparr>gs_name = ''b'', gs_size = 1\<rparr>,
      \<lparr>gs_name = ''c'', gs_size = 1\<rparr>, \<lparr>gs_name = ''d'', gs_size = 1\<rparr>] 8 = [4, 2, 1, 1]"
  by code_simp

end
