(* ===== verification/Breeding.thy ===== *)
theory Breeding
  imports Mutation "HOL-Library.Product_Lexorder"
begin

text \<open>
  From one generation to the next: core/organisms/evolution/Selection.cpp, and the part of
  server/states/Evolution.cpp that ranks the evaluated population, keeps the survivors, breeds the
  offspring and advances the generation. The telemetry of the evaluations, the storage of the best
  genome and the thread pool are left out. Fitness values are reals. The brain registry is an
  argument that gives a layout for a kind of brain and its variant; \<open>None\<close> is an abort.
\<close>

section \<open>Individuals\<close>

datatype scenario_id = Scn_Benchmark | Scn_Clock | Scn_DamBreak | Scn_Empty | Scn_GooseTest
  | Scn_Lights | Scn_Raining | Scn_Sandbox | Scn_TreeGermination | Scn_NesFlappyParatroopa
  | Scn_NesSuperMarioBros | Scn_NesSuperTiltBro | Scn_WaterEqualization

datatype individual_origin =
  Origin_Unknown | Origin_Seed | Origin_EliteCarryover | Origin_OffspringMutated | Origin_OffspringClone

record individual =
  in_brainKind :: string
  in_brainVariant :: "string option"
  in_scenarioId :: scenario_id
  in_genome :: "real genome option"
  in_allowsMutation :: bool
  in_parentFitness :: "real option"

record ranked_individual =
  rk_fitness :: real
  rk_individual :: individual
  rk_origin :: individual_origin
  rk_order :: int

definition isOffspringOrigin :: "individual_origin \<Rightarrow> bool" where
  "isOffspringOrigin origin = (origin = Origin_OffspringMutated \<or> origin = Origin_OffspringClone)"

section \<open>Tournament and replacement\<close>

text \<open>The loop of the tournament, which both the library and the server have.\<close>

definition tournamentStep :: "'g random_source \<Rightarrow> real list \<Rightarrow> nat \<times> 'g \<Rightarrow> nat \<Rightarrow> nat \<times> 'g" where
  "tournamentStep R fitness acc i =
     (let (bestIdx, g) = acc;
          (idx, g) = uniform_int R 0 (length fitness - 1) g
      in (if fitness ! idx > fitness ! bestIdx then idx else bestIdx, g))"

definition tournamentSelectIndex :: "'g random_source \<Rightarrow> real list \<Rightarrow> int \<Rightarrow> 'g \<Rightarrow> (nat \<times> 'g) option" where
  "tournamentSelectIndex R fitness tournamentSize g =
     (if fitness = [] \<or> tournamentSize \<le> 0 then None
      else Some (foldl (tournamentStep R fitness) (uniform_int R 0 (length fitness - 1) g)
                   [1..<nat tournamentSize]))"

definition tournamentSelect ::
    "'g random_source \<Rightarrow> 'w genome list \<Rightarrow> real list \<Rightarrow> int \<Rightarrow> 'g \<Rightarrow> ('w genome \<times> 'g) option" where
  "tournamentSelect R population fitness tournamentSize g =
     (if population = [] \<or> length population \<noteq> length fitness \<or> tournamentSize \<le> 0 then None
      else let (bestIdx, g) = foldl (tournamentStep R fitness)
                                (uniform_int R 0 (length population - 1) g) [1..<nat tournamentSize]
           in Some (population ! bestIdx, g))"

text \<open>
  \<open>std::sort\<close> leaves the order of equally fit genomes open; the model keeps the order of the pool.
\<close>

definition elitistReplace ::
    "'w genome list \<Rightarrow> real list \<Rightarrow> 'w genome list \<Rightarrow> real list \<Rightarrow> int \<Rightarrow> 'w genome list option" where
  "elitistReplace parents parentFitness offspring offspringFitness populationSize =
     (if length parents \<noteq> length parentFitness \<or> length offspring \<noteq> length offspringFitness \<or>
         populationSize \<le> 0 then None
      else let pool = zip parentFitness parents @ zip offspringFitness offspring;
               pool = sort_key (\<lambda>a. - fst a) pool;
               cnt = min populationSize (int (length pool))
           in Some (map (\<lambda>i. snd (pool ! i)) [0..<nat cnt]))"

section \<open>Diversity elites\<close>

definition kBestFitnessTieRelativeEpsilon :: real where
  "kBestFitnessTieRelativeEpsilon = 1 / 10 ^ 12"

definition fitnessTiesBest :: "real \<Rightarrow> real \<Rightarrow> bool" where
  "fitnessTiesBest fitness bestFitness =
     (fitness = bestFitness \<or>
      \<bar>fitness - bestFitness\<bar> \<le> kBestFitnessTieRelativeEpsilon * max 1 \<bar>bestFitness\<bar>)"

definition isNearBestFitness :: "real \<Rightarrow> real \<Rightarrow> real \<Rightarrow> bool" where
  "isNearBestFitness fitness bestFitness eps =
     (fitnessTiesBest fitness bestFitness \<or> fitness + eps \<ge> bestFitness)"

definition canComputeGenomeWeightDistance :: "individual \<Rightarrow> individual \<Rightarrow> bool" where
  "canComputeGenomeWeightDistance l r =
     (case (in_genome l, in_genome r) of
        (Some a, Some b) \<Rightarrow> weights a \<noteq> [] \<and> length (weights a) = length (weights b)
      | _ \<Rightarrow> False)"

text \<open>Called only where the genomes are comparable.\<close>

definition computeGenomeWeightDistance :: "individual \<Rightarrow> individual \<Rightarrow> real" where
  "computeGenomeWeightDistance l r =
     (let a = weights (the (in_genome l)); b = weights (the (in_genome r));
          squared = foldl (\<lambda>d (x, y). d + (x - y) * (x - y)) 0 (zip a b)
      in sqrt (squared / of_nat (length a)))"

definition kDistanceTieEpsilon :: real where "kDistanceTieEpsilon = 1 / 10 ^ 12"

text \<open>
  The distance of a candidate to the nearest reference it can be compared to. \<open>None\<close> is the state
  with no comparable reference, where the code keeps a flag and the minimum at infinity.
\<close>

definition nearestReference :: "ranked_individual list \<Rightarrow> int list \<Rightarrow> individual \<Rightarrow> real option" where
  "nearestReference ranked refs candidate =
     foldl (\<lambda>m pos.
        let reference = rk_individual (ranked ! nat pos)
        in if \<not> canComputeGenomeWeightDistance candidate reference then m
           else let d = computeGenomeWeightDistance candidate reference
                in Some (case m of None \<Rightarrow> d | Some v \<Rightarrow> min v d)) None refs"

text \<open>One step of the loop over the candidates, with the best position so far and its distance.\<close>

definition candidateStep ::
    "ranked_individual list \<Rightarrow> int list \<Rightarrow> int list \<Rightarrow> int \<times> real \<Rightarrow> int \<Rightarrow> int \<times> real" where
  "candidateStep ranked refs selected acc pos =
     (let (bestCandidate, bestMinDistance) = acc
      in if pos \<in> set selected then acc
         else case nearestReference ranked refs (rk_individual (ranked ! nat pos)) of
                None \<Rightarrow> acc
              | Some d \<Rightarrow>
                  (if bestCandidate < 0 \<or> d > bestMinDistance + kDistanceTieEpsilon \<or>
                      (\<bar>d - bestMinDistance\<bar> \<le> kDistanceTieEpsilon \<and> pos < bestCandidate)
                   then (pos, d) else acc))"

text \<open>The \<open>while\<close> loop: each round fills one of the remaining slots or stops.\<close>

primrec pickDiverse :: "ranked_individual list \<Rightarrow> int list \<Rightarrow> nat \<Rightarrow> int list \<Rightarrow> int list" where
  "pickDiverse ranked candidates 0 selected = selected"
| "pickDiverse ranked candidates (Suc slots) selected =
     (let bestCandidate =
            fst (foldl (candidateStep ranked (0 # selected) selected) (-1, -1) candidates)
      in if bestCandidate < 0 then selected
         else pickDiverse ranked candidates slots (selected @ [bestCandidate]))"

definition diversityCandidates :: "ranked_individual list \<Rightarrow> real \<Rightarrow> int list" where
  "diversityCandidates ranked eps =
     filter (\<lambda>i. isNearBestFitness (rk_fitness (ranked ! nat i)) (rk_fitness (hd ranked)) eps \<and>
                 in_genome (rk_individual (ranked ! nat i)) \<noteq> None)
       (map int [1..<length ranked])"

definition selectDiversityElitePositions :: "ranked_individual list \<Rightarrow> int \<Rightarrow> int \<Rightarrow> real \<Rightarrow> int list" where
  "selectDiversityElitePositions ranked keepCount diversityEliteCount eps =
     (if ranked = [] \<or> keepCount \<le> 1 \<or> diversityEliteCount \<le> 0 then []
      else let diverseSlots = min diversityEliteCount (keepCount - 1)
           in if diverseSlots \<le> 0 then []
              else let candidates = diversityCandidates ranked eps
                   in if candidates = [] then []
                      else pickDiverse ranked candidates (nat diverseSlots) [])"

section \<open>Survivors\<close>

definition rankPopulation ::
    "individual list \<Rightarrow> individual_origin list \<Rightarrow> real list \<Rightarrow> ranked_individual list" where
  "rankPopulation population origins fitness =
     sort_key (\<lambda>r. (- rk_fitness r, \<not> isOffspringOrigin (rk_origin r), rk_order r))
       (map (\<lambda>i. \<lparr>rk_fitness = fitness ! i, rk_individual = population ! i,
                   rk_origin = (if i < length origins then origins ! i else Origin_Unknown),
                   rk_order = int i\<rparr>) [0..<length population])"

definition selectPosition :: "ranked_individual list \<Rightarrow> int list \<Rightarrow> int \<Rightarrow> int list" where
  "selectPosition ranked selected position =
     (if position < 0 \<or> position \<ge> int (length ranked) then selected
      else if position \<in> set selected then selected
      else selected @ [position])"

text \<open>A loop over positions that stops when enough are selected.\<close>

definition selectUpTo :: "ranked_individual list \<Rightarrow> int \<Rightarrow> int list \<Rightarrow> int list \<Rightarrow> int list" where
  "selectUpTo ranked keepCount selected positions =
     foldl (\<lambda>sel p. if int (length sel) \<ge> keepCount then sel else selectPosition ranked sel p)
       selected positions"

definition selectedPositions :: "ranked_individual list \<Rightarrow> int \<Rightarrow> int list \<Rightarrow> int list" where
  "selectedPositions ranked keepCount elites =
     (let sel = selectPosition ranked [] 0;
          sel = selectUpTo ranked keepCount sel elites
      in selectUpTo ranked keepCount sel (map int [1..<length ranked]))"

text \<open>The survivors and their fitness, best first.\<close>

definition pruneSurvivors ::
    "evolution_config \<Rightarrow> individual list \<Rightarrow> individual_origin list \<Rightarrow> real list \<Rightarrow>
     (individual list \<times> individual_origin list \<times> real list) option" where
  "pruneSurvivors config population origins fitness =
     (let ranked = rankPopulation population origins fitness;
          keepCount = min (ec_populationSize config) (int (length ranked))
      in if keepCount \<le> 0 then None
         else
           let elites = selectDiversityElitePositions ranked keepCount
                          (ec_diversityEliteCount config) (ec_diversityEliteFitnessEpsilon config);
               positions = selectedPositions ranked keepCount elites
           in if int (length positions) \<noteq> keepCount then None
              else Some (map (\<lambda>p. (rk_individual (ranked ! nat p))\<lparr>in_parentFitness := None\<rparr>) positions,
                         map (\<lambda>_. Origin_EliteCarryover) positions,
                         map (\<lambda>p. rk_fitness (ranked ! nat p)) positions))"

section \<open>Breeding\<close>

record outcome_stats =
  os_totalOffspring :: int
  os_mutated :: int
  os_cloneNoGenome :: int
  os_cloneMutationDisabled :: int
  os_cloneNoMutationDelta :: int

definition cloneCount :: "'z outcome_stats_scheme \<Rightarrow> int" where
  "cloneCount s = os_cloneNoGenome s + os_cloneMutationDisabled s + os_cloneNoMutationDelta s"

text \<open>The counters of the breeding loop: the outcome statistics and its local totals.\<close>

record breed_stats = outcome_stats +
  bs_perturbationsTotal :: int
  bs_resetsTotal :: int
  bs_weightChangesMin :: int
  bs_weightChangesMax :: int

definition new_breed_stats :: "int \<Rightarrow> breed_stats" where
  "new_breed_stats n = \<lparr>os_totalOffspring = n, os_mutated = 0, os_cloneNoGenome = 0,
     os_cloneMutationDisabled = 0, os_cloneNoMutationDelta = 0, bs_perturbationsTotal = 0,
     bs_resetsTotal = 0, bs_weightChangesMin = int_max, bs_weightChangesMax = 0\<rparr>"

definition noteWeightChanges :: "int \<Rightarrow> breed_stats \<Rightarrow> breed_stats" where
  "noteWeightChanges weightChanges s =
     s\<lparr>bs_weightChangesMin := min (bs_weightChangesMin s) weightChanges,
       bs_weightChangesMax := max (bs_weightChangesMax s) weightChanges\<rparr>"

type_synonym layouts = "string \<Rightarrow> string \<Rightarrow> genome_layout option"

text \<open>One offspring: its parent by tournament, and a mutation of its genome where it allows one.\<close>

definition breedOne ::
    "'g random_source \<Rightarrow> layouts \<Rightarrow> evolution_config \<Rightarrow> mutation_config \<Rightarrow> individual list \<Rightarrow> real list \<Rightarrow>
     breed_stats \<times> 'g \<Rightarrow> (individual \<times> individual_origin \<times> breed_stats \<times> 'g) option" where
  "breedOne R layoutOf config mutation population fitness acc =
     (let (stats, g) = acc
      in do {
        (parentIdx, g) \<leftarrow> tournamentSelectIndex R fitness (ec_tournamentSize config) g;
        let parent = population ! parentIdx;
        let child = parent\<lparr>in_parentFitness := Some (fitness ! parentIdx)\<rparr>;
        case in_genome parent of
          None \<Rightarrow> Some (child, Origin_OffspringClone,
                    noteWeightChanges 0 (stats\<lparr>os_cloneNoGenome := os_cloneNoGenome stats + 1\<rparr>), g)
        | Some genome \<Rightarrow>
            if \<not> in_allowsMutation parent
            then Some (child, Origin_OffspringClone, noteWeightChanges 0
                   (stats\<lparr>os_cloneMutationDisabled := os_cloneMutationDisabled stats + 1\<rparr>), g)
            else do {
              layout \<leftarrow> layoutOf (in_brainKind parent) (value_or (in_brainVariant parent) []);
              (mutated, st, g) \<leftarrow> mutate R genome mutation layout g;
              let stats = stats\<lparr>bs_perturbationsTotal := bs_perturbationsTotal stats + ms_perturbations st,
                                bs_resetsTotal := bs_resetsTotal stats + ms_resets st\<rparr>;
              let weightChanges = totalChanges st;
              let child = child\<lparr>in_genome := Some mutated\<rparr>;
              if weightChanges > 0
              then Some (child, Origin_OffspringMutated, noteWeightChanges weightChanges
                     (stats\<lparr>os_mutated := os_mutated stats + 1\<rparr>), g)
              else Some (child, Origin_OffspringClone, noteWeightChanges weightChanges
                     (stats\<lparr>os_cloneNoMutationDelta := os_cloneNoMutationDelta stats + 1\<rparr>), g)
            }
      })"

primrec breedLoop ::
    "'g random_source \<Rightarrow> layouts \<Rightarrow> evolution_config \<Rightarrow> mutation_config \<Rightarrow> individual list \<Rightarrow> real list \<Rightarrow>
     nat \<Rightarrow> breed_stats \<times> 'g \<Rightarrow> (individual list \<times> individual_origin list \<times> breed_stats \<times> 'g) option" where
  "breedLoop R layoutOf config mutation population fitness 0 acc = Some ([], [], fst acc, snd acc)"
| "breedLoop R layoutOf config mutation population fitness (Suc n) acc = do {
     (child, origin, stats, g) \<leftarrow> breedOne R layoutOf config mutation population fitness acc;
     (children, origins, stats, g) \<leftarrow>
        breedLoop R layoutOf config mutation population fitness n (stats, g);
     Some (child # children, origin # origins, stats, g)
   }"

text \<open>The fields of \<open>LastGenerationTelemetry\<close> that the breeding writes.\<close>

record breeding_telemetry =
  bt_usesBudget :: bool
  bt_mutationMode :: mutation_mode
  bt_resolvedPerturbationsPerOffspring :: int
  bt_resolvedResetsPerOffspring :: int
  bt_resolvedSigma :: real
  bt_perturbationsAvg :: real
  bt_resetsAvg :: real
  bt_weightChangesAvg :: real
  bt_weightChangesMin :: int
  bt_weightChangesMax :: int

definition breedingTelemetry :: "effective_mutation \<Rightarrow> int \<Rightarrow> breed_stats \<Rightarrow> breeding_telemetry" where
  "breedingTelemetry effective n s =
     \<lparr>bt_usesBudget = True,
      bt_mutationMode = em_mode effective,
      bt_resolvedPerturbationsPerOffspring = mc_perturbationsPerOffspring (em_mutationConfig effective),
      bt_resolvedResetsPerOffspring = mc_resetsPerOffspring (em_mutationConfig effective),
      bt_resolvedSigma = mc_sigma (em_mutationConfig effective),
      bt_perturbationsAvg = (if n > 0 then of_int (bs_perturbationsTotal s) / of_int n else 0),
      bt_resetsAvg = (if n > 0 then of_int (bs_resetsTotal s) / of_int n else 0),
      bt_weightChangesAvg =
        (if n > 0 then of_int (bs_perturbationsTotal s + bs_resetsTotal s) / of_int n else 0),
      bt_weightChangesMin = (if bs_weightChangesMin s = int_max then 0 else bs_weightChangesMin s),
      bt_weightChangesMax = bs_weightChangesMax s\<rparr>"

text \<open>The part of the server's state \<open>Evolution\<close> that the breeding reads and writes.\<close>

record evolution_state =
  ev_config :: evolution_config
  ev_mutationConfig :: mutation_config
  ev_population :: "individual list"
  ev_populationOrigins :: "individual_origin list"
  ev_fitnessScores :: "real list"
  ev_generation :: int
  ev_currentEval :: int
  ev_mutationControlMode :: control_mode
  ev_lastEffective :: effective_mutation
  ev_tracker :: phase_tracker
  ev_pruneBeforeBreeding :: bool
  ev_lastTelemetry :: breeding_telemetry
  ev_sumFitnessThisGen :: real
  ev_wingUpSeconds :: "real list"

text \<open>\<open>updateTrainingPhaseTelemetry\<close> without its log line.\<close>

definition updateTrainingPhaseTelemetry :: "dbl \<Rightarrow> evolution_state \<Rightarrow> evolution_state" where
  "updateTrainingPhaseTelemetry bestFitnessThisGen ev =
     ev\<lparr>ev_tracker := snd (updateCompletedGeneration (ev_tracker ev) (ev_generation ev)
                            bestFitnessThisGen (ev_config ev))\<rparr>"

text \<open>
  \<open>advanceGeneration\<close> from the choice of the survivors on, without the reset of the telemetry of the
  evaluations and the resizing of the thread pool.
\<close>

definition advanceGeneration ::
    "'g random_source \<Rightarrow> layouts \<Rightarrow> evolution_state \<Rightarrow> 'g \<Rightarrow> (evolution_state \<times> breed_stats \<times> 'g) option" where
  "advanceGeneration R layoutOf ev g =
     (let config = ev_config ev; survivorPopulationSize = ec_populationSize config
      in if survivorPopulationSize \<le> 0 then None
      else do {
        (population, origins, fitness) \<leftarrow>
          (if ev_pruneBeforeBreeding ev
           then pruneSurvivors config (ev_population ev) (ev_populationOrigins ev) (ev_fitnessScores ev)
           else Some (ev_population ev, ev_populationOrigins ev, ev_fitnessScores ev));
        if population = [] \<or> length population \<noteq> length fitness then None
        else do {
          let effective = adaptiveMutationResolve (ev_mutationConfig ev) (pt_status (ev_tracker ev))
                            (ev_lastEffective ev) config (ev_mutationControlMode ev);
          (offspring, offspringOrigins, stats, g) \<leftarrow>
            breedLoop R layoutOf config (em_mutationConfig effective) population fitness
              (nat survivorPopulationSize)
              (new_breed_stats survivorPopulationSize, g);
          let population = population @ offspring;
          let generation = ev_generation ev + 1;
          let more = (ec_maxGenerations config \<le> 0 \<or> generation < ec_maxGenerations config);
          Some (ev\<lparr>ev_population := population,
                   ev_populationOrigins := origins @ offspringOrigins,
                   ev_lastEffective := effective,
                   ev_lastTelemetry := breedingTelemetry effective survivorPopulationSize stats,
                   ev_pruneBeforeBreeding := (offspring \<noteq> []),
                   ev_generation := generation,
                   ev_currentEval := (if more then 0 else ev_currentEval ev),
                   ev_sumFitnessThisGen := (if more then 0 else ev_sumFitnessThisGen ev),
                   ev_wingUpSeconds := (if more then replicate (length population) 0 else ev_wingUpSeconds ev),
                   ev_fitnessScores := (if more then replicate (length population) 0 else fitness)\<rparr>,
                stats, g)
        }
      })"

definition estimateTotalEvaluations :: "evolution_config \<Rightarrow> int" where
  "estimateTotalEvaluations config =
     (if ec_maxGenerations config \<le> 0 \<or> ec_populationSize config \<le> 0 then 0
      else let basePopulation = ec_populationSize config;
               total = basePopulation +
                 (if ec_maxGenerations config > 1
                  then (ec_maxGenerations config - 1) * (basePopulation * 2) else 0)
           in if total > int_max then int_max else total)"

section \<open>The tournament returns the fittest of its draws\<close>

lemma tournament_loop:
  assumes "b < length fitness"
  shows "\<exists>draws. length draws = n \<and> (\<forall>d \<in> set draws. d < length fitness) \<and>
    fst (foldl (tournamentStep R fitness) (b, g) [1..<Suc n]) \<in> set (b # draws) \<and>
    (\<forall>d \<in> set (b # draws). fitness ! d \<le> fitness ! fst (foldl (tournamentStep R fitness) (b, g) [1..<Suc n]))"
proof (induction n)
  case (Suc n)
  then obtain draws where d: "length draws = n" "\<forall>d \<in> set draws. d < length fitness"
    "fst (foldl (tournamentStep R fitness) (b, g) [1..<Suc n]) \<in> set (b # draws)"
    "\<forall>d \<in> set (b # draws). fitness ! d \<le> fitness ! fst (foldl (tournamentStep R fitness) (b, g) [1..<Suc n])"
    by blast
  obtain w g' where w: "foldl (tournamentStep R fitness) (b, g) [1..<Suc n] = (w, g')" by force
  obtain x g'' where x: "uniform_int R 0 (length fitness - 1) g' = (x, g'')" by force
  have "x < length fitness"
    using uniform_int_range [of 0 "length fitness - 1" R g'] x assms by simp
  moreover have "foldl (tournamentStep R fitness) (b, g) [1..<Suc (Suc n)] =
      (if fitness ! x > fitness ! w then x else w, g'')"
  proof -
    have "[1..<Suc (Suc n)] = [1..<Suc n] @ [Suc n]" by simp
    then show ?thesis using w x by (simp only: foldl_append foldl.simps) (simp add: tournamentStep_def)
  qed
  ultimately show ?case
    using d w by (intro exI [of _ "draws @ [x]"]) auto
qed simp

lemma tournament_winner:
  assumes "fitness \<noteq> []" "0 < k"
  shows "\<exists>w g' draws. tournamentSelectIndex R fitness k g = Some (w, g') \<and>
    length draws = nat k \<and> (\<forall>d \<in> set draws. d < length fitness) \<and> w \<in> set draws \<and>
    (\<forall>d \<in> set draws. fitness ! d \<le> fitness ! w)"
proof -
  obtain b g0 where b: "uniform_int R 0 (length fitness - 1) g = (b, g0)" by force
  then have bl: "b < length fitness"
    using uniform_int_range [of 0 "length fitness - 1" R g] assms(1) by (simp add: Suc_le_eq flip: length_greater_0_conv)
  obtain n where n: "nat k = Suc n" using assms(2) by (metis Suc_pred zero_less_nat_eq)
  obtain w g' where w: "foldl (tournamentStep R fitness) (b, g0) [1..<Suc n] = (w, g')" by force
  from tournament_loop [OF bl, of n R g0] obtain draws where
    "length draws = n" "\<forall>d \<in> set draws. d < length fitness" "w \<in> set (b # draws)"
    "\<forall>d \<in> set (b # draws). fitness ! d \<le> fitness ! w" using w by auto
  with bl w b n assms show ?thesis
    by (intro exI [of _ w] exI [of _ g'] exI [of _ "b # draws"]) (simp add: tournamentSelectIndex_def)
qed

section \<open>Diversity elites are distinct candidates\<close>

lemma candidate_loop:
  assumes "\<forall>c \<in> set cs. 0 \<le> c" "fst acc = -1 \<or> (fst acc \<in> C \<and> fst acc \<notin> set sel)" "set cs \<subseteq> C"
  shows "fst (foldl (candidateStep ranked refs sel) acc cs) = -1 \<or>
    (fst (foldl (candidateStep ranked refs sel) acc cs) \<in> C \<and>
     fst (foldl (candidateStep ranked refs sel) acc cs) \<notin> set sel)"
  using assms
proof (induction cs arbitrary: acc)
  case (Cons c cs)
  have "fst (candidateStep ranked refs sel acc c) = -1 \<or>
      (fst (candidateStep ranked refs sel acc c) \<in> C \<and> fst (candidateStep ranked refs sel acc c) \<notin> set sel)"
    using Cons.prems by (auto simp: candidateStep_def Let_def split: prod.split option.split)
  with Cons show ?case by simp
qed simp

lemma pickDiverse_sound:
  assumes "\<forall>c \<in> set cs. 0 \<le> c" "distinct sel" "set sel \<subseteq> set cs"
  shows "distinct (pickDiverse ranked cs n sel) \<and> set (pickDiverse ranked cs n sel) \<subseteq> set cs \<and>
    length (pickDiverse ranked cs n sel) \<le> length sel + n"
  using assms(2,3)
proof (induction n arbitrary: sel)
  case (Suc n)
  let ?b = "fst (foldl (candidateStep ranked (0 # sel) sel) (-1, -1) cs)"
  have "?b = -1 \<or> (?b \<in> set cs \<and> ?b \<notin> set sel)"
    using candidate_loop [OF assms(1), of "(-1, -1)" "set cs" sel] by simp
  then show ?case
    using Suc.IH [of "sel @ [?b]"] Suc.prems by (auto simp: Let_def)
qed simp

lemma diversityCandidates_range:
  "c \<in> set (diversityCandidates ranked eps) \<Longrightarrow> 1 \<le> c \<and> c < int (length ranked) \<and>
     isNearBestFitness (rk_fitness (ranked ! nat c)) (rk_fitness (hd ranked)) eps"
  by (auto simp: diversityCandidates_def)

lemma diversity_elites:
  fixes ranked keepCount cnt eps
  defines "elites \<equiv> selectDiversityElitePositions ranked keepCount cnt eps"
  shows "distinct elites" "length elites \<le> nat cnt" "length elites \<le> nat (keepCount - 1)"
    "\<forall>c \<in> set elites. 1 \<le> c \<and> c < int (length ranked) \<and>
       isNearBestFitness (rk_fitness (ranked ! nat c)) (rk_fitness (hd ranked)) eps"
proof -
  let ?cs = "diversityCandidates ranked eps"
  have nn: "\<forall>c \<in> set ?cs. 0 \<le> c" using diversityCandidates_range by force
  have p: "distinct (pickDiverse ranked ?cs n []) \<and> set (pickDiverse ranked ?cs n []) \<subseteq> set ?cs \<and>
      length (pickDiverse ranked ?cs n []) \<le> n" for n
    using pickDiverse_sound [OF nn, of "[]" ranked n] by simp
  show "distinct elites" using p by (simp add: elites_def selectDiversityElitePositions_def Let_def)
  show "length elites \<le> nat cnt" "length elites \<le> nat (keepCount - 1)"
    using p [THEN conjunct2, THEN conjunct2, of "nat (min cnt (keepCount - 1))"]
    by (auto simp: elites_def selectDiversityElitePositions_def Let_def)
  have "set elites \<subseteq> set ?cs"
    using p by (auto simp: elites_def selectDiversityElitePositions_def Let_def)
  then show "\<forall>c \<in> set elites. 1 \<le> c \<and> c < int (length ranked) \<and>
       isNearBestFitness (rk_fitness (ranked ! nat c)) (rk_fitness (hd ranked)) eps"
    using diversityCandidates_range by blast
qed

section \<open>The loops that select positions\<close>

lemma selectUpTo_take:
  assumes "distinct ps" "\<forall>p \<in> set ps. 0 \<le> p \<and> p < int (length ranked)"
  shows "selectUpTo ranked K sel ps =
    sel @ take (nat (K - int (length sel))) (filter (\<lambda>p. p \<notin> set sel) ps)"
  using assms
proof (induction ps arbitrary: sel)
  case (Cons p ps)
  let ?step = "if int (length sel) \<ge> K then sel else selectPosition ranked sel p"
  have u: "selectUpTo ranked K sel (p # ps) = selectUpTo ranked K ?step ps"
    by (simp add: selectUpTo_def)
  have IH: "selectUpTo ranked K s ps = s @ take (nat (K - int (length s))) (filter (\<lambda>p. p \<notin> set s) ps)" for s
    using Cons by simp
  show ?case
  proof (cases "int (length sel) < K \<and> p \<notin> set sel")
    case True
    then have "?step = sel @ [p]" using Cons.prems by (simp add: selectPosition_def)
    moreover have "filter (\<lambda>q. q \<notin> set (sel @ [p])) ps = filter (\<lambda>q. q \<notin> set sel) ps"
      using Cons.prems(1) by (auto intro: filter_cong)
    moreover have "nat (K - int (length sel)) = Suc (nat (K - int (length (sel @ [p]))))"
      using True by (subst Suc_nat_eq_nat_zadd1) simp_all
    ultimately show ?thesis using True unfolding u by (simp add: IH)
  next
    case False
    then have "?step = sel" using Cons.prems by (auto simp: selectPosition_def)
    with False show ?thesis unfolding u by (auto simp: IH)
  qed
qed (simp add: selectUpTo_def)

lemma sorted_take_before:
  assumes "sorted xs" "distinct xs" "p \<in> set (take k xs)" "q \<in> set xs" "q \<notin> set (take k xs)"
  shows "p < (q :: int)"
proof -
  have "q \<in> set (drop k xs)" using assms(4,5) by (metis Un_iff append_take_drop_id set_append)
  then have "p \<le> q" using assms(1,3)
    by (metis append_take_drop_id sorted_append)
  moreover have "p \<noteq> q" using assms(3,5) by blast
  ultimately show ?thesis by simp
qed

lemma selectedPositions_sound:
  assumes "1 \<le> K" "K \<le> int (length ranked)" "distinct elites" "int (length elites) \<le> K - 1"
    and "\<forall>c \<in> set elites. 1 \<le> c \<and> c < int (length ranked)"
  defines "S \<equiv> selectedPositions ranked K elites"
  shows "distinct S" "int (length S) = K" "\<forall>p \<in> set S. 0 \<le> p \<and> p < int (length ranked)"
    "S \<noteq> [] \<and> hd S = 0"
    "p \<in> set S \<Longrightarrow> 0 \<le> q \<Longrightarrow> q < int (length ranked) \<Longrightarrow> q \<notin> set S \<Longrightarrow> p < q \<or> p \<in> set elites"
proof -
  let ?ps = "map int [1..<length ranked]"
  let ?rest = "filter (\<lambda>p. p \<notin> set (0 # elites)) ?ps"
  let ?k = "nat (K - int (length (0 # elites)))"
  have ps: "distinct ?ps" "\<forall>p \<in> set ?ps. 0 \<le> p \<and> p < int (length ranked)"
    "set ?ps = {1..<int (length ranked)}" "sorted ?ps"
    by (auto simp: distinct_map inj_on_def image_int_atLeastLessThan sorted_map intro: sorted_wrt_mono_rel [OF _ sorted_upt])
  have "ranked \<noteq> []" using assms(1,2) by auto
  then have h: "selectPosition ranked [] 0 = [0]" by (simp add: selectPosition_def)
  have e: "filter (\<lambda>p. p \<notin> set [0]) elites = elites"
    using assms(5) by (intro filter_True) auto
  have "selectUpTo ranked K [0] elites = 0 # elites"
    using selectUpTo_take [OF assms(3), of ranked K "[0]"] assms(4,5) unfolding e by force
  then have S: "S = (0 # elites) @ take ?k ?rest"
    unfolding S_def selectedPositions_def Let_def h
    using selectUpTo_take [OF ps(1,2), of K "0 # elites"] by simp
  have "set ?rest = {1..<int (length ranked)} - set elites" using ps(3) assms(5) by auto
  moreover have "distinct ?rest" using ps(1) by (rule distinct_filter)
  ultimately have "length ?rest = card ({1..<int (length ranked)} - set elites)"
    by (metis distinct_card)
  also have "\<dots> = nat (int (length ranked) - 1) - length elites"
    using assms(3,5) by (subst card_Diff_subset) (auto simp: distinct_card)
  finally have lr: "length ?rest = nat (int (length ranked) - 1) - length elites" .
  then have "length (take ?k ?rest) = ?k" using assms(2,4) by simp
  then show "int (length S) = K" using assms(4) unfolding S by simp
  show "S \<noteq> [] \<and> hd S = 0" unfolding S by simp
  show "distinct S" unfolding S
    using assms(3,5) ps(1) by (auto dest: in_set_takeD intro: distinct_take distinct_filter)
  show "\<forall>p \<in> set S. 0 \<le> p \<and> p < int (length ranked)"
    unfolding S using assms(5) ps(2) \<open>ranked \<noteq> []\<close> by (fastforce dest: in_set_takeD)
  show "p < q \<or> p \<in> set elites" if "p \<in> set S" "0 \<le> q" "q < int (length ranked)" "q \<notin> set S"
  proof -
    from that(4) have q0: "q \<noteq> 0" "q \<notin> set elites" "q \<notin> set (take ?k ?rest)" unfolding S by auto
    with that(2,3) ps(3) have q: "q \<in> set ?rest" by auto
    from that(1) consider "p = 0" | "p \<in> set elites" | "p \<in> set (take ?k ?rest)" unfolding S by auto
    then show ?thesis
    proof cases
      case 1
      then show ?thesis using q0 that(2) by simp
    next
      case 3
      have "sorted ?rest" using ps(4) by (rule sorted_wrt_filter)
      from sorted_take_before [OF this distinct_filter [OF ps(1)] 3 q q0(3)] show ?thesis ..
    qed simp
  qed
qed

text \<open>The ranking is a permutation of the population, best first.\<close>

lemma rankPopulation_length [simp]: "length (rankPopulation population origins fitness) = length population"
  by (simp add: rankPopulation_def)

lemma rankPopulation_entry:
  assumes "r \<in> set (rankPopulation population origins fitness)"
  shows "\<exists>i < length population. rk_order r = int i \<and> rk_individual r = population ! i \<and> rk_fitness r = fitness ! i"
  using assms by (auto simp: rankPopulation_def)

lemma rankPopulation_orders:
  "distinct (map rk_order (rankPopulation population origins fitness))"
  "set (map rk_order (rankPopulation population origins fitness)) = int ` {..<length population}"
proof -
  have "mset (map rk_order (rankPopulation population origins fitness)) = mset (map int [0..<length population])"
    unfolding rankPopulation_def by (simp only: mset_map mset_sort image_mset.compositionality comp_def)
      (simp only: ranked_individual.simps)
  moreover have "distinct (map int [0..<length population])" by (simp add: distinct_map inj_on_def)
  ultimately show "distinct (map rk_order (rankPopulation population origins fitness))"
    by (metis mset_eq_imp_distinct_iff)
  show "set (map rk_order (rankPopulation population origins fitness)) = int ` {..<length population}"
    by (force simp: rankPopulation_def)
qed

lemma rankPopulation_best_first:
  assumes "i \<le> j" "j < length population"
  shows "rk_fitness (rankPopulation population origins fitness ! j)
    \<le> rk_fitness (rankPopulation population origins fitness ! i)"
proof -
  let ?f = "\<lambda>r. (- rk_fitness r, \<not> isOffspringOrigin (rk_origin r), rk_order r)"
  let ?r = "rankPopulation population origins fitness"
  have "sorted (map ?f ?r)" unfolding rankPopulation_def by (rule sorted_sort_key)
  then have "map ?f ?r ! i \<le> map ?f ?r ! j" using assms by (intro sorted_nth_mono) simp_all
  then show ?thesis using assms by (auto simp: less_eq_prod_def)
qed

text \<open>The member of the population at a position of the ranking.\<close>

abbreviation member_at :: "ranked_individual list \<Rightarrow> int \<Rightarrow> nat" where
  "member_at ranked p \<equiv> nat (rk_order (ranked ! nat p))"

lemma member_at_entry:
  fixes population origins fitness p
  assumes "0 \<le> p" "p < int (length population)"
  defines "r \<equiv> rankPopulation population origins fitness"
  shows "member_at r p < length population" "rk_order (r ! nat p) = int (member_at r p)"
    "rk_individual (r ! nat p) = population ! member_at r p"
    "rk_fitness (r ! nat p) = fitness ! member_at r p"
proof -
  have "r ! nat p \<in> set r" using assms(1,2) by (simp add: r_def)
  then obtain i where "i < length population" "rk_order (r ! nat p) = int i"
    "rk_individual (r ! nat p) = population ! i" "rk_fitness (r ! nat p) = fitness ! i"
    using rankPopulation_entry unfolding r_def by blast
  then show "member_at r p < length population" "rk_order (r ! nat p) = int (member_at r p)"
    "rk_individual (r ! nat p) = population ! member_at r p"
    "rk_fitness (r ! nat p) = fitness ! member_at r p" by simp_all
qed

lemma member_at_inj:
  assumes "member_at r p = member_at r q" "0 \<le> p" "p < int (length population)" "0 \<le> q"
    "q < int (length population)" and r: "r = rankPopulation population origins fitness"
  shows "p = q"
proof -
  have "rk_order (r ! nat p) = int (member_at r q)"
    using member_at_entry(2) [OF assms(2,3), of origins fitness] assms(1) unfolding r by metis
  also have "\<dots> = rk_order (r ! nat q)"
    using member_at_entry(2) [OF assms(4,5), of origins fitness] unfolding r by metis
  finally have "map rk_order r ! nat p = map rk_order r ! nat q" using assms(2-5) by (simp add: r)
  then have "nat p = nat q"
    using nth_eq_iff_index_eq [OF rankPopulation_orders(1) [of population origins fitness], of "nat p" "nat q"]
      assms(2-5) by (simp add: r)
  then show ?thesis using assms(2,4) by simp
qed

lemma member_at_onto:
  assumes "i < length population" and r: "r = rankPopulation population origins fitness"
  shows "\<exists>p. 0 \<le> p \<and> p < int (length population) \<and> member_at r p = i"
proof -
  have "int i \<in> set (map rk_order r)" using rankPopulation_orders(2) assms by blast
  then obtain k where "k < length r" "rk_order (r ! k) = int i"
    by (auto simp: in_set_conv_nth)
  then have "k < length population" "rk_order (r ! k) = int i" by (simp_all add: r)
  then show ?thesis by (intro exI [of _ "int k"]) simp
qed

lemma member_at_best:
  assumes "population \<noteq> []" "length fitness = length population"
    and r: "r = rankPopulation population origins fitness"
  shows "Max (set fitness) = fitness ! member_at r 0" "rk_fitness (hd r) = Max (set fitness)"
proof -
  have n: "0 < int (length population)" using assms(1) by simp
  note z = member_at_entry [OF order_refl n, of origins fitness, folded r]
  show M: "Max (set fitness) = fitness ! member_at r 0"
  proof (rule Max_eqI)
    show "fitness ! member_at r 0 \<in> set fitness" using z(1) assms(2) by simp
    fix y assume "y \<in> set fitness"
    then obtain i where "i < length population" "y = fitness ! i" using assms(2) by (metis in_set_conv_nth)
    with member_at_onto [OF this(1) r] obtain p where
      p: "0 \<le> p" "p < int (length population)" "y = fitness ! member_at r p" by blast
    show "y \<le> fitness ! member_at r 0"
      using rankPopulation_best_first [of 0 "nat p" population origins fitness] p z
        member_at_entry(4) [OF p(1,2), of origins fitness] by (simp add: r)
  qed simp
  have "r \<noteq> []" using assms(1) by (metis r length_0_conv rankPopulation_length)
  then show "rk_fitness (hd r) = Max (set fitness)" using z(4) M by (simp add: hd_conv_nth)
qed

lemma survivors_sound:
  fixes config :: evolution_config and population :: "individual list" and fitness :: "real list"
  assumes "population \<noteq> []" "length fitness = length population" "0 < ec_populationSize config"
  shows "\<exists>idx. pruneSurvivors config population origins fitness =
      Some (map (\<lambda>i. (population ! i)\<lparr>in_parentFitness := None\<rparr>) idx,
            map (\<lambda>_. Origin_EliteCarryover) idx, map (\<lambda>i. fitness ! i) idx) \<and>
    distinct idx \<and> set idx \<subseteq> {..<length population} \<and>
    length idx = min (nat (ec_populationSize config)) (length population) \<and>
    fitness ! hd idx = Max (set fitness) \<and>
    (\<forall>i \<in> {..<length population} - set idx. \<forall>j \<in> set idx. fitness ! i \<le> fitness ! j \<or>
       (0 < ec_diversityEliteCount config \<and>
        isNearBestFitness (fitness ! j) (Max (set fitness)) (ec_diversityEliteFitnessEpsilon config)))"
proof -
  define r where r: "r = rankPopulation population origins fitness"
  let ?n = "length population"
  define K where K_def: "K = min (ec_populationSize config) (int ?n)"
  define el where el_def: "el = selectDiversityElitePositions r K (ec_diversityEliteCount config)
      (ec_diversityEliteFitnessEpsilon config)"
  define sel where sel_def: "sel = selectedPositions r K el"
  let ?idx = "map (member_at r) sel"
  have len: "length r = ?n" by (simp add: r)
  have K: "1 \<le> K" "K \<le> int (length r)" using assms(1,3) by (auto simp: K_def len Suc_le_eq)
  note E = diversity_elites [of r K "ec_diversityEliteCount config" "ec_diversityEliteFitnessEpsilon config", folded el_def]
  have "int (length el) \<le> K - 1" "\<forall>c \<in> set el. 1 \<le> c \<and> c < int (length r)"
    using E(3,4) K(1) by (linarith, blast)
  note S = selectedPositions_sound [OF K E(1) this, folded sel_def]
  note entry = member_at_entry [where population = population and origins = origins and fitness = fitness, folded r]
  note M = member_at_best [OF assms(1,2) r]
  have in_S: "0 \<le> p \<and> p < int ?n" if "p \<in> set sel" for p using S(3) that unfolding len by blast
  have e: "rk_individual (r ! nat p) = population ! member_at r p" "rk_fitness (r ! nat p) = fitness ! member_at r p"
    if "p \<in> set sel" for p using entry(3,4) in_S [OF that] by blast+
  have 1: "pruneSurvivors config population origins fitness =
      Some (map (\<lambda>i. (population ! i)\<lparr>in_parentFitness := None\<rparr>) ?idx,
            map (\<lambda>_. Origin_EliteCarryover) ?idx, map (\<lambda>i. fitness ! i) ?idx)"
  proof -
    have "map (\<lambda>p. (rk_individual (r ! nat p))\<lparr>in_parentFitness := None\<rparr>) sel =
        map (\<lambda>i. (population ! i)\<lparr>in_parentFitness := None\<rparr>) ?idx"
      "map (\<lambda>p. rk_fitness (r ! nat p)) sel = map (\<lambda>i. fitness ! i) ?idx"
      unfolding map_map comp_def by (rule map_cong [OF refl], simp only: e)+
    moreover have "\<not> K \<le> 0" "int (length sel) = K" using K(1) S(2) by linarith+
    ultimately show ?thesis
      unfolding pruneSurvivors_def Let_def r [symmetric] len K_def [symmetric] el_def [symmetric]
        sel_def [symmetric]
      by (simp only: if_False if_True simp_thms map_map comp_def)
  qed
  have "inj_on (member_at r) (set sel)"
    using in_S member_at_inj [OF _ _ _ _ _ r] by (intro inj_onI) blast
  then have 2: "distinct ?idx" using S(1) by (simp add: distinct_map)
  have 3: "set ?idx \<subseteq> {..<?n}" using in_S entry(1) by (simp only: set_map) blast
  have 4: "length ?idx = min (nat (ec_populationSize config)) ?n" using S(2) assms(3) K_def by auto
  have 5: "fitness ! hd ?idx = Max (set fitness)" using S(4) M(1) by (simp add: hd_map)
  have 6: "fitness ! i \<le> fitness ! j \<or> (0 < ec_diversityEliteCount config \<and>
        isNearBestFitness (fitness ! j) (Max (set fitness)) (ec_diversityEliteFitnessEpsilon config))"
    if ij: "i \<in> {..<?n} - set ?idx" "j \<in> set ?idx" for i j
  proof -
    from ij(2) obtain p where p: "p \<in> set sel" "j = member_at r p" by auto
    from ij(1) member_at_onto [OF _ r, of i]
    obtain q where q: "0 \<le> q" "q < int ?n" "i = member_at r q" by auto
    have "q \<notin> set sel" using ij(1) q(3) by auto
    with S(5) [OF p(1), of q] q len consider "p < q" | "p \<in> set el" by auto
    then show ?thesis
    proof cases
      case 1
      then have "rk_fitness (r ! nat q) \<le> rk_fitness (r ! nat p)"
        using rankPopulation_best_first [of "nat p" "nat q" population] q in_S [OF p(1)] by (simp add: r)
      then show ?thesis using entry(4) [of p] entry(4) [of q] q in_S [OF p(1)] p(2) by simp
    next
      case 2
      then have "0 < ec_diversityEliteCount config"
        by (auto simp: el_def selectDiversityElitePositions_def split: if_splits)
      then show ?thesis using E(4) 2 entry(4) [of p] in_S [OF p(1)] p(2) M(2) by auto
    qed
  qed
  show ?thesis using 1 2 3 4 5 6 by (intro exI [of _ ?idx] conjI ballI) assumption+
qed

text \<open>
  C16: The survivors of a generation. They are as many as the population size allows, are distinct
  members of the population with their own fitness, and the fittest of all comes first; nobody who
  is dropped is fitter than one who is kept, but for the diversity elites, which are as fit as the
  best up to the configured epsilon. Selecting them never aborts.
\<close>

theorem survivors_keep_the_best:
  fixes config :: evolution_config and population :: "individual list" and fitness :: "real list"
  assumes "population \<noteq> []" "length fitness = length population" "0 < ec_populationSize config"
  shows "\<exists>idx. pruneSurvivors config population origins fitness =
      Some (map (\<lambda>i. (population ! i)\<lparr>in_parentFitness := None\<rparr>) idx,
            map (\<lambda>_. Origin_EliteCarryover) idx, map (\<lambda>i. fitness ! i) idx) \<and>
    distinct idx \<and> set idx \<subseteq> {..<length population} \<and>
    length idx = min (nat (ec_populationSize config)) (length population) \<and>
    fitness ! hd idx = Max (set fitness) \<and>
    (\<forall>i \<in> {..<length population} - set idx. \<forall>j \<in> set idx. fitness ! i \<le> fitness ! j \<or>
       (0 < ec_diversityEliteCount config \<and>
        isNearBestFitness (fitness ! j) (Max (set fitness)) (ec_diversityEliteFitnessEpsilon config)))"
  using survivors_sound [OF assms] .

text \<open>An individual without a genome, for concrete runs.\<close>

definition plain_individual :: individual where
  "plain_individual = \<lparr>in_brainKind = ''kind'', in_brainVariant = None, in_scenarioId = Scn_Clock,
     in_genome = None, in_allowsMutation = False, in_parentFitness = None\<rparr>"

theorem survivors_keep_the_best_witness:
  "\<exists>S O' F. pruneSurvivors (default_evolution_config\<lparr>ec_populationSize := 2\<rparr>)
      [plain_individual, plain_individual, plain_individual] [] [1, 3, 2] = Some (S, O', F) \<and>
    length F = 2 \<and> hd F = 3"
proof -
  let ?c = "default_evolution_config\<lparr>ec_populationSize := 2\<rparr>"
  let ?p = "[plain_individual, plain_individual, plain_individual]"
  have "0 < ec_populationSize ?c" "length [1, 3, 2 :: real] = length ?p" by simp_all
  from survivors_keep_the_best [OF _ this(2,1), of "[]"] obtain idx where i:
    "pruneSurvivors ?c ?p [] [1, 3, 2] = Some (map (\<lambda>i. (?p ! i)\<lparr>in_parentFitness := None\<rparr>) idx,
       map (\<lambda>_. Origin_EliteCarryover) idx, map (\<lambda>i. [1, 3, 2] ! i) idx)"
    "length idx = 2" "[1, 3, 2] ! hd idx = (3 :: real)"
    by auto
  then have "idx \<noteq> []" by auto
  with i show ?thesis by (simp add: hd_map)
qed

section \<open>Breeding fills the population\<close>

text \<open>The registry knows a layout that fits the genome of every individual that may mutate.\<close>

definition breedable :: "layouts \<Rightarrow> individual \<Rightarrow> bool" where
  "breedable layoutOf ind =
     (case in_genome ind of None \<Rightarrow> True
      | Some genome \<Rightarrow> in_allowsMutation ind \<longrightarrow>
          (case layoutOf (in_brainKind ind) (value_or (in_brainVariant ind) []) of
             None \<Rightarrow> False
           | Some layout \<Rightarrow> layout \<noteq> [] \<and> totalSize layout = int (length (weights genome)) \<and>
                            list_all (\<lambda>seg. 0 \<le> gs_size seg) layout))"

lemma breedable_parentFitness [simp]: "breedable layoutOf (ind\<lparr>in_parentFitness := f\<rparr>) = breedable layoutOf ind"
  by (cases "in_genome ind") (simp_all add: breedable_def)

lemma noteWeightChanges_simps [simp]:
  "os_mutated (noteWeightChanges w s) = os_mutated s"
  "cloneCount (noteWeightChanges w s) = cloneCount s"
  "os_totalOffspring (noteWeightChanges w s) = os_totalOffspring s"
  by (simp_all add: noteWeightChanges_def cloneCount_def)

lemma breedOne_sound:
  assumes "fitness \<noteq> []" "length fitness = length population" "0 < ec_tournamentSize config"
    and "\<forall>ind \<in> set population. breedable layoutOf ind"
  shows "\<exists>child origin stats' g'.
    breedOne R layoutOf config mutation population fitness (stats, g) = Some (child, origin, stats', g') \<and>
    breedable layoutOf child \<and> isOffspringOrigin origin \<and>
    os_mutated stats' + cloneCount stats' = os_mutated stats + cloneCount stats + 1 \<and>
    os_totalOffspring stats' = os_totalOffspring stats"
proof -
  obtain w g0 draws where w: "tournamentSelectIndex R fitness (ec_tournamentSize config) g = Some (w, g0)"
    "w \<in> set draws" "\<forall>d \<in> set draws. d < length fitness"
    using tournament_winner [OF assms(1,3), of R g] by blast
  define parent where "parent = population ! w"
  have b: "breedable layoutOf parent" using w assms(2,4) by (simp add: parent_def)
  note clone = isOffspringOrigin_def cloneCount_def noteWeightChanges_def
  let ?child = "parent\<lparr>in_parentFitness := Some (fitness ! w)\<rparr>"
  consider "in_genome parent = None"
    | genome where "in_genome parent = Some genome" "\<not> in_allowsMutation parent"
    | genome where "in_genome parent = Some genome" "in_allowsMutation parent"
    by (cases "in_genome parent") auto
  then show ?thesis
  proof cases
    case 1
    then have "breedOne R layoutOf config mutation population fitness (stats, g) =
        Some (?child, Origin_OffspringClone,
          noteWeightChanges 0 (stats\<lparr>os_cloneNoGenome := os_cloneNoGenome stats + 1\<rparr>), g0)"
      by (simp add: breedOne_def w(1) parent_def)
    with b show ?thesis by (simp add: clone)
  next
    case 2
    then have "breedOne R layoutOf config mutation population fitness (stats, g) =
        Some (?child, Origin_OffspringClone,
          noteWeightChanges 0 (stats\<lparr>os_cloneMutationDisabled := os_cloneMutationDisabled stats + 1\<rparr>), g0)"
      by (simp add: breedOne_def w(1) parent_def)
    with b show ?thesis by (simp add: clone)
  next
    case 3
    from b 3 obtain layout where l:
      "layoutOf (in_brainKind parent) (value_or (in_brainVariant parent) []) = Some layout"
      "layout \<noteq> []" "totalSize layout = int (length (weights genome))" "\<forall>seg \<in> set layout. 0 \<le> gs_size seg"
      by (auto simp: breedable_def list_all_iff split: option.splits)
    obtain mutated st g1 where m: "mutate R genome mutation layout g0 = Some (mutated, st, g1)"
      "length (weights mutated) = length (weights genome)"
      using mutation_keeps_length [OF l(2-4), of R mutation g0] by blast
    define s where "s = stats\<lparr>bs_perturbationsTotal := bs_perturbationsTotal stats + ms_perturbations st,
        bs_resetsTotal := bs_resetsTotal stats + ms_resets st\<rparr>"
    have "breedable layoutOf (?child\<lparr>in_genome := Some mutated\<rparr>)"
      using l m(2) by (simp add: breedable_def list_all_iff)
    moreover have "breedOne R layoutOf config mutation population fitness (stats, g) =
        (if totalChanges st > 0
         then Some (?child\<lparr>in_genome := Some mutated\<rparr>, Origin_OffspringMutated,
                noteWeightChanges (totalChanges st) (s\<lparr>os_mutated := os_mutated s + 1\<rparr>), g1)
         else Some (?child\<lparr>in_genome := Some mutated\<rparr>, Origin_OffspringClone, noteWeightChanges (totalChanges st)
                (s\<lparr>os_cloneNoMutationDelta := os_cloneNoMutationDelta s + 1\<rparr>), g1))"
      using 3 l(1) m(1) by (simp add: breedOne_def w(1) s_def Let_def flip: parent_def)
    ultimately show ?thesis by (cases "totalChanges st > 0") (simp_all add: clone s_def)
  qed
qed

lemma breedLoop_sound:
  assumes "fitness \<noteq> []" "length fitness = length population" "0 < ec_tournamentSize config"
    and "\<forall>ind \<in> set population. breedable layoutOf ind"
  shows "\<exists>children origins stats' g'.
    breedLoop R layoutOf config mutation population fitness n (stats, g) = Some (children, origins, stats', g') \<and>
    length children = n \<and> length origins = n \<and> (\<forall>child \<in> set children. breedable layoutOf child) \<and>
    (\<forall>origin \<in> set origins. isOffspringOrigin origin) \<and>
    os_mutated stats' + cloneCount stats' = os_mutated stats + cloneCount stats + int n \<and>
    os_totalOffspring stats' = os_totalOffspring stats"
proof (induction n arbitrary: stats g)
  case (Suc n)
  obtain child origin st g1 where c:
    "breedOne R layoutOf config mutation population fitness (stats, g) = Some (child, origin, st, g1)"
    "breedable layoutOf child" "isOffspringOrigin origin"
    "os_mutated st + cloneCount st = os_mutated stats + cloneCount stats + 1"
    "os_totalOffspring st = os_totalOffspring stats"
    using breedOne_sound [OF assms, of R mutation stats g] by blast
  obtain children origins st' g2 where r:
    "breedLoop R layoutOf config mutation population fitness n (st, g1) = Some (children, origins, st', g2)"
    "length children = n" "length origins = n" "\<forall>child \<in> set children. breedable layoutOf child"
    "\<forall>origin \<in> set origins. isOffspringOrigin origin"
    "os_mutated st' + cloneCount st' = os_mutated st + cloneCount st + int n"
    "os_totalOffspring st' = os_totalOffspring st"
    using Suc.IH [of st g1] by blast
  show ?case using c r by simp
qed simp

definition evolution_ok :: "layouts \<Rightarrow> evolution_state \<Rightarrow> bool" where
  "evolution_ok layoutOf ev =
     (ev_population ev \<noteq> [] \<and> length (ev_fitnessScores ev) = length (ev_population ev) \<and>
      list_all (breedable layoutOf) (ev_population ev))"

text \<open>The population that breeds: after pruning, or as it is in the first generation.\<close>

lemma breeding_population:
  assumes "evolution_ok layoutOf ev" "0 < ec_populationSize (ev_config ev)"
  shows "\<exists>pop origins fit.
    (if ev_pruneBeforeBreeding ev
     then pruneSurvivors (ev_config ev) (ev_population ev) (ev_populationOrigins ev) (ev_fitnessScores ev)
     else Some (ev_population ev, ev_populationOrigins ev, ev_fitnessScores ev)) = Some (pop, origins, fit) \<and>
    pop \<noteq> [] \<and> length fit = length pop \<and> (\<forall>ind \<in> set pop. breedable layoutOf ind) \<and>
    length pop = (if ev_pruneBeforeBreeding ev
      then min (nat (ec_populationSize (ev_config ev))) (length (ev_population ev)) else length (ev_population ev)) \<and>
    Max (set fit) = Max (set (ev_fitnessScores ev))"
proof (cases "ev_pruneBeforeBreeding ev")
  case False
  with assms(1) show ?thesis by (auto simp: evolution_ok_def list_all_iff)
next
  case True
  let ?pop = "ev_population ev" and ?fit = "ev_fitnessScores ev"
  from survivors_sound [of ?pop ?fit "ev_config ev" "ev_populationOrigins ev"] assms obtain idx where i:
    "pruneSurvivors (ev_config ev) ?pop (ev_populationOrigins ev) ?fit =
       Some (map (\<lambda>i. (?pop ! i)\<lparr>in_parentFitness := None\<rparr>) idx,
         map (\<lambda>_. Origin_EliteCarryover) idx, map (\<lambda>i. ?fit ! i) idx)"
    "set idx \<subseteq> {..<length ?pop}"
    "length idx = min (nat (ec_populationSize (ev_config ev))) (length ?pop)"
    "?fit ! hd idx = Max (set ?fit)" by (auto simp: evolution_ok_def)
  have ne: "idx \<noteq> []" using i(3) assms by (auto simp: evolution_ok_def min_def split: if_splits)
  have b: "\<forall>i \<in> set idx. breedable layoutOf (?pop ! i)"
    using assms(1) i(2) by (auto simp: evolution_ok_def list_all_iff)
  have "Max (set (map (\<lambda>i. ?fit ! i) idx)) = Max (set ?fit)"
  proof (rule Max_eqI)
    show "Max (set ?fit) \<in> set (map (\<lambda>i. ?fit ! i) idx)" using i(4) ne by (auto intro: image_eqI [of _ _ "hd idx"])
    fix y assume "y \<in> set (map (\<lambda>i. ?fit ! i) idx)"
    then have "y \<in> set ?fit" using i(2) assms(1) by (auto simp: evolution_ok_def)
    then show "y \<le> Max (set ?fit)" by simp
  qed simp
  with True i ne b show ?thesis by auto
qed

lemma generation_sound:
  fixes R :: "'g random_source" and ev :: evolution_state
  assumes "evolution_ok layoutOf ev" "0 < ec_populationSize (ev_config ev)" "0 < ec_tournamentSize (ev_config ev)"
    and "ec_maxGenerations (ev_config ev) \<le> 0 \<or> ev_generation ev + 1 < ec_maxGenerations (ev_config ev)"
  shows "\<exists>ev' stats g'. advanceGeneration R layoutOf ev g = Some (ev', stats, g') \<and>
    evolution_ok layoutOf ev' \<and>
    int (length (ev_population ev')) = ec_populationSize (ev_config ev) +
      (if ev_pruneBeforeBreeding ev
       then min (ec_populationSize (ev_config ev)) (int (length (ev_population ev)))
       else int (length (ev_population ev))) \<and>
    os_mutated stats + cloneCount stats = ec_populationSize (ev_config ev) \<and>
    os_totalOffspring stats = ec_populationSize (ev_config ev) \<and>
    ev_pruneBeforeBreeding ev' \<and> ev_generation ev' = ev_generation ev + 1 \<and> ev_currentEval ev' = 0 \<and>
    ev_config ev' = ev_config ev"
proof -
  let ?c = "ev_config ev"
  obtain pop origins fit where p:
    "(if ev_pruneBeforeBreeding ev
      then pruneSurvivors ?c (ev_population ev) (ev_populationOrigins ev) (ev_fitnessScores ev)
      else Some (ev_population ev, ev_populationOrigins ev, ev_fitnessScores ev)) = Some (pop, origins, fit)"
    "pop \<noteq> []" "length fit = length pop" "\<forall>ind \<in> set pop. breedable layoutOf ind"
    "length pop = (if ev_pruneBeforeBreeding ev
      then min (nat (ec_populationSize ?c)) (length (ev_population ev)) else length (ev_population ev))"
    using breeding_population [OF assms(1,2)] by blast
  have "fit \<noteq> []" using p(2,3) by auto
  let ?e = "adaptiveMutationResolve (ev_mutationConfig ev) (pt_status (ev_tracker ev))
      (ev_lastEffective ev) ?c (ev_mutationControlMode ev)"
  let ?z = "new_breed_stats (ec_populationSize ?c)"
  obtain kids kidOrigins stats g' where k:
    "breedLoop R layoutOf ?c (em_mutationConfig ?e) pop fit (nat (ec_populationSize ?c)) (?z, g) =
       Some (kids, kidOrigins, stats, g')"
    "length kids = nat (ec_populationSize ?c)" "\<forall>child \<in> set kids. breedable layoutOf child"
    "os_mutated stats + cloneCount stats = 0 + int (nat (ec_populationSize ?c))"
    "os_totalOffspring stats = ec_populationSize ?c"
    using breedLoop_sound [OF \<open>fit \<noteq> []\<close> p(3) assms(3) p(4), of R "em_mutationConfig ?e"
        "nat (ec_populationSize ?c)" ?z g] by (auto simp: cloneCount_def new_breed_stats_def)
  have kids: "kids \<noteq> []" using k(2) assms(2) by auto
  have "advanceGeneration R layoutOf ev g =
      Some (ev\<lparr>ev_population := pop @ kids, ev_populationOrigins := origins @ kidOrigins,
        ev_lastEffective := ?e, ev_lastTelemetry := breedingTelemetry ?e (ec_populationSize ?c) stats,
        ev_pruneBeforeBreeding := (kids \<noteq> []), ev_generation := ev_generation ev + 1,
        ev_currentEval := 0, ev_sumFitnessThisGen := 0,
        ev_wingUpSeconds := replicate (length (pop @ kids)) 0, ev_fitnessScores := replicate (length (pop @ kids)) 0\<rparr>, stats, g')"
    using assms(2,4) p(1-3) k(1)
    by (simp only: advanceGeneration_def Let_def bind.bind_lunit prod.case not_le if_False simp_thms) simp
  with p k kids assms(2) show ?thesis
    by (auto simp: evolution_ok_def list_all_iff min_def)
qed


text \<open>The start of a run of two generations with two plain individuals.\<close>

definition plain_evolution :: evolution_state where
  "plain_evolution = \<lparr>ev_config = default_evolution_config\<lparr>ec_populationSize := 2, ec_maxGenerations := 2\<rparr>,
     ev_mutationConfig = default_mutation_config,
     ev_population = [plain_individual, plain_individual], ev_populationOrigins = [Origin_Seed, Origin_Seed],
     ev_fitnessScores = [0, 0], ev_generation = 0, ev_currentEval = 2, ev_mutationControlMode = Control_Auto,
     ev_lastEffective = \<lparr>em_mode = Mode_Baseline, em_mutationConfig = default_mutation_config\<rparr>,
     ev_tracker = tracker_reset, ev_pruneBeforeBreeding = False,
     ev_lastTelemetry = breedingTelemetry \<lparr>em_mode = Mode_Baseline, em_mutationConfig = default_mutation_config\<rparr> 0
       (new_breed_stats 0), ev_sumFitnessThisGen = 0, ev_wingUpSeconds = [0, 0]\<rparr>"

lemma plain_evolution_ok: "evolution_ok (\<lambda>_ _. None) plain_evolution"
  by (simp add: evolution_ok_def plain_evolution_def breedable_def plain_individual_def)


section \<open>The evaluations of a whole run\<close>

text \<open>
  The number of individuals evaluated over the current generation and \<open>n\<close> more. The simulation is
  an argument: it gives each individual of a population its fitness, and the generation its best.
\<close>

primrec evaluations ::
    "'g random_source \<Rightarrow> layouts \<Rightarrow> (individual list \<Rightarrow> real list \<times> dbl) \<Rightarrow> nat \<Rightarrow> evolution_state \<Rightarrow> 'g \<Rightarrow>
     int option" where
  "evaluations R layoutOf evaluate 0 ev g = Some (int (length (ev_population ev)))"
| "evaluations R layoutOf evaluate (Suc n) ev g =
     (let (fitness, best) = evaluate (ev_population ev);
          ev1 = updateTrainingPhaseTelemetry best (ev\<lparr>ev_fitnessScores := fitness\<rparr>)
      in do {
        (ev', _, g') \<leftarrow> advanceGeneration R layoutOf ev1 g;
        rest \<leftarrow> evaluations R layoutOf evaluate n ev' g';
        Some (int (length (ev_population ev)) + rest)
      })"

lemma evaluations_sound:
  assumes "\<forall>pop. length (fst (evaluate pop)) = length pop"
    and "evolution_ok layoutOf ev" "0 < ec_populationSize (ev_config ev)" "0 < ec_tournamentSize (ev_config ev)"
    and "ev_generation ev + int n < ec_maxGenerations (ev_config ev)"
    and "ev_pruneBeforeBreeding ev \<Longrightarrow> int (length (ev_population ev)) = 2 * ec_populationSize (ev_config ev)"
    and "\<not> ev_pruneBeforeBreeding ev \<Longrightarrow> int (length (ev_population ev)) = ec_populationSize (ev_config ev)"
  shows "evaluations R layoutOf evaluate n ev g =
    Some (int (length (ev_population ev)) + int n * (2 * ec_populationSize (ev_config ev)))"
  using assms(2-)
proof (induction n arbitrary: ev g)
  case (Suc n)
  obtain fit best where f: "evaluate (ev_population ev) = (fit, best)" by force
  define ev1 where "ev1 = updateTrainingPhaseTelemetry best (ev\<lparr>ev_fitnessScores := fit\<rparr>)"
  have l: "length fit = length (ev_population ev)" using assms(1) f by (metis fst_conv)
  have e1: "evolution_ok layoutOf ev1" "ev_config ev1 = ev_config ev" "ev_generation ev1 = ev_generation ev"
    "ev_population ev1 = ev_population ev" "ev_pruneBeforeBreeding ev1 = ev_pruneBeforeBreeding ev"
    using Suc.prems(1) l by (simp_all add: ev1_def evolution_ok_def updateTrainingPhaseTelemetry_def)
  obtain ev' stats g' where s: "advanceGeneration R layoutOf ev1 g = Some (ev', stats, g')"
    "evolution_ok layoutOf ev'" "ev_pruneBeforeBreeding ev'" "ev_generation ev' = ev_generation ev + 1"
    "ev_config ev' = ev_config ev"
    "int (length (ev_population ev')) = ec_populationSize (ev_config ev) +
      (if ev_pruneBeforeBreeding ev
       then min (ec_populationSize (ev_config ev)) (int (length (ev_population ev)))
       else int (length (ev_population ev)))"
    using generation_sound [OF e1(1), of R g] Suc.prems(2-4) e1 by auto
  have "int (length (ev_population ev')) = 2 * ec_populationSize (ev_config ev)"
    using s(6) Suc.prems(2,5,6) by (auto split: if_splits)
  with Suc.IH [of ev' g'] s Suc.prems(2-4)
  have "evaluations R layoutOf evaluate n ev' g' =
      Some (2 * ec_populationSize (ev_config ev) + int n * (2 * ec_populationSize (ev_config ev)))" by simp
  then show ?case using f s(1) by (simp add: ev1_def distrib_right)
qed simp

text \<open>
  The estimate of the evaluations of a training run is exact. A run of the configured number
  of generations, started with a population of the configured size whose genomes fit their
  layouts, never aborts and evaluates exactly the number of individuals that
  \<open>estimateTotalEvaluations\<close> announces, as long as that number fits an \<open>int\<close>.
\<close>

theorem estimate_is_exact:
  fixes R :: "'g random_source" and ev :: evolution_state
  assumes "\<forall>pop. length (fst (evaluate pop)) = length pop"
    and "evolution_ok layoutOf ev" "0 < ec_populationSize (ev_config ev)" "0 < ec_tournamentSize (ev_config ev)"
    and "int (length (ev_population ev)) = ec_populationSize (ev_config ev)" "\<not> ev_pruneBeforeBreeding ev"
    and "ev_generation ev = 0" "0 < ec_maxGenerations (ev_config ev)"
    and "estimateTotalEvaluations (ev_config ev) < int_max"
  shows "evaluations R layoutOf evaluate (nat (ec_maxGenerations (ev_config ev) - 1)) ev g =
    Some (estimateTotalEvaluations (ev_config ev))"
proof -
  have "estimateTotalEvaluations (ev_config ev) = ec_populationSize (ev_config ev) +
      (ec_maxGenerations (ev_config ev) - 1) * (2 * ec_populationSize (ev_config ev))"
    using assms(3,8,9) by (auto simp: estimateTotalEvaluations_def Let_def split: if_splits)
  then show ?thesis
    using evaluations_sound [OF assms(1-4), of "nat (ec_maxGenerations (ev_config ev) - 1)" R g] assms(5-8)
    by simp
qed

theorem estimate_is_exact_witness:
  "evaluations \<lparr>rnd_draw = \<lambda>n :: nat. (n, n + 1), rnd_noise = \<lambda>s n. (s, n + 1)\<rparr> (\<lambda>_ _. None)
     (\<lambda>pop. (map (\<lambda>_. 0) pop, Fin 0)) (nat (ec_maxGenerations (ev_config plain_evolution) - 1)) plain_evolution 0 =
   Some (estimateTotalEvaluations (ev_config plain_evolution))"
  by (rule estimate_is_exact [OF _ plain_evolution_ok])
    (simp_all add: plain_evolution_def default_evolution_config_def estimateTotalEvaluations_def int_max_def)

section \<open>Elitist replacement keeps the best of both generations\<close>

lemma elitistReplace_sound:
  assumes "length parents = length pf" "length offspring = length off" "0 < n"
  shows "\<exists>pool. mset pool = mset (zip pf parents @ zip off offspring) \<and> sorted (map (\<lambda>a. - fst a) pool) \<and>
    elitistReplace parents pf offspring off n = Some (take (nat n) (map snd pool))"
proof -
  let ?pool = "sort_key (\<lambda>a. - fst a) (zip pf parents @ zip off offspring)"
  have "map (\<lambda>i. snd (?pool ! i)) [0..<nat (min n (int (length ?pool)))] = take (nat n) (map snd ?pool)"
    by (rule nth_equalityI) auto
  then show ?thesis using assms
    by (intro exI [of _ ?pool]) (simp add: elitistReplace_def Let_def del: sort_key_simps)
qed

end
