(* ===== verification/GenomeArchive.thy ===== *)
theory GenomeArchive
  imports Uuid Breeding Organisms "HOL-Library.AList"
begin

text \<open>
  core/organisms/evolution/GenomeRepository.{h,cpp}, GenomeMetadata.h, GenomeMetadataUtils.h and
  core/GenomePoolId.h: the archive of evolved genomes, with its deduplication by content hash, its
  pruning, and its write-through to SQLite. A hash map is an association list; the order in which
  C++ iterates over it is open, and the lemmas do not depend on it. The weights are the bit
  patterns of the floats, the fitness values reals (so \<open>std::isfinite\<close> holds of them). The mutex
  makes each operation one step.

  SQLite and the JSON library are not under the source tree. SQLite's tables and what the
  statements of the code do to them are written out; whether a statement fails is an argument, as
  is the pair of functions that turn metadata into a JSON document and back.
\<close>

section \<open>Metadata\<close>

datatype genome_pool = Pool_DirtSim | Pool_FlappyParatroopa | Pool_Smb | Pool_SuperTiltBro

record tile_compatibility =
  tcm_schemaVersion :: int
  tcm_tileVocabularySize :: int
  tcm_tileEmbeddingDim :: int
  tcm_relativeTileColumns :: int
  tcm_relativeTileRows :: int
  tcm_scalarInputSize :: int
  tcm_h1Size :: int
  tcm_h2Size :: int
  tcm_outputSize :: int
  tcm_voidTokenId :: u16
  tcm_tokenizerVocabularyHash :: string

record genome_metadata =
  gm_name :: string
  gm_fitness :: real
  gm_robustFitness :: real
  gm_robustEvalCount :: int
  gm_robustFitnessSamples :: "real list"
  gm_generation :: int
  gm_createdTimestamp :: u64
  gm_scenarioId :: scenario_id
  gm_notes :: string
  gm_organismType :: "organism_type option"
  gm_brainKind :: "string option"
  gm_brainVariant :: "string option"
  gm_trainingSessionId :: "uuid option"
  gm_genomePoolId :: genome_pool
  gm_nesTileBrainCompatibility :: "tile_compatibility option"

definition isfinite :: "real \<Rightarrow> bool" where "isfinite x = True"

text \<open>\<open>std::nth_element\<close> puts the element of the sorted range at its place.\<close>

definition computeMedian :: "real list \<Rightarrow> real" where
  "computeMedian samples =
     (if samples = [] then 0
      else let mid = length samples div 2;
               upper = sort samples ! mid
           in if length samples mod 2 \<noteq> 0 then upper
              else (sort samples ! (mid - 1) + upper) * (1 / 2))"

definition effectiveRobustEvalCount :: "genome_metadata \<Rightarrow> int" where
  "effectiveRobustEvalCount m =
     (if gm_robustEvalCount m > 0 then gm_robustEvalCount m
      else if gm_robustFitnessSamples m \<noteq> [] then int (length (gm_robustFitnessSamples m))
      else 0)"

definition effectiveRobustFitness :: "genome_metadata \<Rightarrow> real" where
  "effectiveRobustFitness m =
     (if gm_robustEvalCount m > 0 \<or> gm_robustFitnessSamples m \<noteq> [] then gm_robustFitness m
      else gm_fitness m)"

definition kRobustFitnessSampleWindow :: nat where "kRobustFitnessSampleWindow = 7"

definition normalizeRobustMetadata :: "genome_metadata \<Rightarrow> genome_metadata" where
  "normalizeRobustMetadata input =
     (let m = input;
          m = (if gm_robustEvalCount m < 0 then m\<lparr>gm_robustEvalCount := 0\<rparr> else m)
      in if gm_robustFitnessSamples m \<noteq> [] then
           let samples = gm_robustFitnessSamples m;
               samples = (if length samples > kRobustFitnessSampleWindow
                          then drop (length samples - kRobustFitnessSampleWindow) samples else samples)
           in m\<lparr>gm_robustFitnessSamples := samples,
                gm_robustFitness := computeMedian samples,
                gm_robustEvalCount := max (gm_robustEvalCount m) (int (length samples))\<rparr>
         else if gm_robustEvalCount m > 0 then
           (if \<not> isfinite (gm_robustFitness m) then m\<lparr>gm_robustFitness := gm_fitness m\<rparr> else m)
         else m)"

definition appendRobustSample :: "genome_metadata \<Rightarrow> real \<Rightarrow> genome_metadata" where
  "appendRobustSample m fitnessSample =
     (if \<not> isfinite fitnessSample then m
      else let samples = gm_robustFitnessSamples m @ [fitnessSample];
               samples = (if length samples > kRobustFitnessSampleWindow then tl samples else samples)
           in m\<lparr>gm_robustEvalCount := max 0 (gm_robustEvalCount m) + 1,
                gm_robustFitnessSamples := samples,
                gm_robustFitness := computeMedian samples\<rparr>)"

definition or_else :: "'a option \<Rightarrow> 'a option \<Rightarrow> 'a option" where
  "or_else x y = (if x \<noteq> None then x else y)"

definition mergeMetadata :: "genome_metadata \<Rightarrow> genome_metadata \<Rightarrow> genome_metadata" where
  "mergeMetadata existingRaw incomingRaw =
     (let existing = normalizeRobustMetadata existingRaw;
          incoming = normalizeRobustMetadata incomingRaw;
          merged = incoming\<lparr>gm_fitness := max (gm_fitness existing) (gm_fitness incoming),
            gm_name := (if gm_name incoming = [] then gm_name existing else gm_name incoming),
            gm_notes := (if gm_notes incoming = [] then gm_notes existing else gm_notes incoming),
            gm_organismType := or_else (gm_organismType incoming) (gm_organismType existing),
            gm_brainKind := or_else (gm_brainKind incoming) (gm_brainKind existing),
            gm_brainVariant := or_else (gm_brainVariant incoming) (gm_brainVariant existing),
            gm_trainingSessionId := or_else (gm_trainingSessionId incoming) (gm_trainingSessionId existing),
            gm_nesTileBrainCompatibility :=
              or_else (gm_nesTileBrainCompatibility incoming) (gm_nesTileBrainCompatibility existing),
            gm_createdTimestamp :=
              (if gm_createdTimestamp incoming = 0 then gm_createdTimestamp existing
               else gm_createdTimestamp incoming),
            gm_robustFitnessSamples := gm_robustFitnessSamples existing\<rparr>;
          merged = (if gm_robustFitnessSamples merged \<noteq> []
                    then merged\<lparr>gm_robustFitness := computeMedian (gm_robustFitnessSamples merged)\<rparr> else merged);
          merged = merged\<lparr>gm_robustEvalCount := effectiveRobustEvalCount existing\<rparr>;
          merged = foldl appendRobustSample merged (gm_robustFitnessSamples incoming);
          missingEvalCount = max 0 (effectiveRobustEvalCount incoming
                                    - int (length (gm_robustFitnessSamples incoming)));
          merged = merged\<lparr>gm_robustEvalCount := gm_robustEvalCount merged + missingEvalCount\<rparr>
      in if gm_robustEvalCount merged \<le> 0 then normalizeRobustMetadata merged
         else if gm_robustFitnessSamples merged = []
         then merged\<lparr>gm_robustFitness := max (effectiveRobustFitness existing) (effectiveRobustFitness incoming)\<rparr>
         else merged)"

section \<open>The content hash\<close>

text \<open>The bytes of an object of \<open>n\<close> bytes, least significant first, as on the target.\<close>

definition le_bytes :: "nat \<Rightarrow> 'a::len word \<Rightarrow> u8 list" where
  "le_bytes n w = map (\<lambda>i. ucast (drop_bit (8 * i) w)) [0..<n]"

definition hashBytes :: "u64 \<Rightarrow> u8 list \<Rightarrow> u64" where
  "hashBytes hash bytes = foldl (\<lambda>h b. (h XOR ucast b) * 1099511628211) hash bytes"

definition hashInt :: "u64 \<Rightarrow> int \<Rightarrow> u64" where
  "hashInt hash v = hashBytes hash (le_bytes 4 (word_of_int v :: i32))"

definition hashSize :: "u64 \<Rightarrow> nat \<Rightarrow> u64" where
  "hashSize hash n = hashBytes hash (le_bytes 8 (of_nat n :: u64))"

definition hashString :: "u64 \<Rightarrow> string \<Rightarrow> u64" where
  "hashString hash s =
     (let hash = hashSize hash (length s)
      in if s \<noteq> [] then hashBytes hash (map (\<lambda>c. of_nat (char_code c)) s) else hash)"

definition toHexString :: "u64 \<Rightarrow> string" where
  "toHexString v = (let ds = digits_base 16 (unat v) in replicate (16 - length ds) CHR ''0'' @ ds)"

primrec scenario_number :: "scenario_id \<Rightarrow> int" where
  "scenario_number Scn_Benchmark = 0" | "scenario_number Scn_Clock = 1"
| "scenario_number Scn_DamBreak = 2" | "scenario_number Scn_Empty = 3"
| "scenario_number Scn_GooseTest = 4" | "scenario_number Scn_Lights = 5"
| "scenario_number Scn_Raining = 6" | "scenario_number Scn_Sandbox = 7"
| "scenario_number Scn_TreeGermination = 8" | "scenario_number Scn_NesFlappyParatroopa = 9"
| "scenario_number Scn_NesSuperMarioBros = 10" | "scenario_number Scn_NesSuperTiltBro = 11"
| "scenario_number Scn_WaterEqualization = 12"

primrec organism_number :: "organism_type \<Rightarrow> int" where
  "organism_number Org_Duck = 0" | "organism_number Org_Goose = 1"
| "organism_number Org_Tree = 2" | "organism_number Org_NesDuck = 3"

definition organism_or_minus1 :: "genome_metadata \<Rightarrow> int" where
  "organism_or_minus1 m = (case gm_organismType m of None \<Rightarrow> -1 | Some t \<Rightarrow> organism_number t)"

definition computeContentHash :: "u32 genome \<Rightarrow> genome_metadata \<Rightarrow> string" where
  "computeContentHash genome m =
     (let h = 1469598103934665603;
          h = hashInt h (scenario_number (gm_scenarioId m));
          h = hashInt h (organism_or_minus1 m);
          h = hashString h (value_or (gm_brainKind m) []);
          h = hashString h (value_or (gm_brainVariant m) []);
          h = hashBytes h [if gm_nesTileBrainCompatibility m \<noteq> None then 1 else 0];
          h = (case gm_nesTileBrainCompatibility m of None \<Rightarrow> h
               | Some c \<Rightarrow>
                   let h = foldl hashInt h [tcm_schemaVersion c, tcm_tileVocabularySize c, tcm_tileEmbeddingDim c,
                             tcm_relativeTileColumns c, tcm_relativeTileRows c, tcm_scalarInputSize c,
                             tcm_h1Size c, tcm_h2Size c, tcm_outputSize c];
                       h = hashBytes h (le_bytes 2 (tcm_voidTokenId c))
                   in hashString h (tcm_tokenizerVocabularyHash c));
          h = hashSize h (length (weights genome));
          h = (if weights genome \<noteq> [] then hashBytes h (concat (map (le_bytes 4) (weights genome))) else h)
      in toHexString h)"

section \<open>The database\<close>

record 'j genome_row =
  row_weights :: "u32 list"
  row_metadata_json :: 'j
  row_content_hash :: "string option"

text \<open>
  The tables of the schema: \<open>genomes\<close> by its primary key, in the order of a scan, and the value of
  \<open>best_id\<close> in \<open>repository_state\<close>. An open transaction keeps the tables to return to.
\<close>

record 'j db_tables =
  dt_genomes :: "(string \<times> 'j genome_row) list"
  dt_best :: "string option"

record 'j genome_db =
  db_tables :: "'j db_tables"
  db_transaction :: "'j db_tables option"

datatype 'j statement =
  Insert_or_replace_genome string "'j genome_row"
  | Update_content_hash string string
  | Delete_genome string
  | Put_best_id string
  | Begin_transaction
  | Delete_all_genomes
  | Delete_best_id
  | Commit

text \<open>
  What is not in the source: which statements fail, and the JSON of metadata (\<open>None\<close>: a parse
  error).
\<close>

record 'j archive_env =
  env_fails :: "'j statement \<Rightarrow> 'j genome_db \<Rightarrow> bool"
  env_dump :: "genome_metadata \<Rightarrow> 'j"
  env_parse :: "'j \<Rightarrow> genome_metadata option"

definition on_genomes ::
    "((string \<times> 'j genome_row) list \<Rightarrow> (string \<times> 'j genome_row) list) \<Rightarrow> 'j genome_db \<Rightarrow> 'j genome_db" where
  "on_genomes f db = db\<lparr>db_tables := (db_tables db)\<lparr>dt_genomes := f (dt_genomes (db_tables db))\<rparr>\<rparr>"

definition on_best :: "string option \<Rightarrow> 'j genome_db \<Rightarrow> 'j genome_db" where
  "on_best v db = db\<lparr>db_tables := (db_tables db)\<lparr>dt_best := v\<rparr>\<rparr>"

text \<open>A statement that SQLite carries out; \<open>None\<close> is its error.\<close>

definition run_statement :: "'j statement \<Rightarrow> 'j genome_db \<Rightarrow> 'j genome_db option" where
  "run_statement stmt db =
     (case stmt of
        Insert_or_replace_genome k row \<Rightarrow> Some (on_genomes (\<lambda>rs. filter (\<lambda>r. fst r \<noteq> k) rs @ [(k, row)]) db)
      | Update_content_hash h k \<Rightarrow>
          Some (on_genomes (map (\<lambda>r. if fst r = k then (fst r, (snd r)\<lparr>row_content_hash := Some h\<rparr>) else r)) db)
      | Delete_genome k \<Rightarrow> Some (on_genomes (filter (\<lambda>r. fst r \<noteq> k)) db)
      | Put_best_id v \<Rightarrow> Some (on_best (Some v) db)
      | Begin_transaction \<Rightarrow>
          (if db_transaction db = None then Some (db\<lparr>db_transaction := Some (db_tables db)\<rparr>) else None)
      | Delete_all_genomes \<Rightarrow> Some (on_genomes (\<lambda>_. []) db)
      | Delete_best_id \<Rightarrow> Some (on_best None db)
      | Commit \<Rightarrow> (if db_transaction db = None then None else Some (db\<lparr>db_transaction := None\<rparr>)))"

text \<open>\<open>execDb\<close>: the first statement that throws ends the call, and the error is only logged.\<close>

primrec execDb :: "'j archive_env \<Rightarrow> 'j statement list \<Rightarrow> 'j genome_db \<Rightarrow> 'j genome_db" where
  "execDb env [] db = db"
| "execDb env (stmt # stmts) db =
     (if env_fails env stmt db then db
      else case run_statement stmt db of None \<Rightarrow> db | Some db \<Rightarrow> execDb env stmts db)"

section \<open>The repository\<close>

record 'j repository =
  rp_genomes :: "(uuid \<times> u32 genome) list"
  rp_hashToId :: "(string \<times> uuid) list"
  rp_idToHash :: "(uuid \<times> string) list"
  rp_metadata :: "(uuid \<times> genome_metadata) list"
  rp_bestId :: "uuid option"
  rp_db :: "'j genome_db option"

definition new_repository :: "'j genome_db option \<Rightarrow> 'j repository" where
  "new_repository db = \<lparr>rp_genomes = [], rp_hashToId = [], rp_idToHash = [], rp_metadata = [],
     rp_bestId = None, rp_db = db\<rparr>"

definition with_db :: "'j archive_env \<Rightarrow> 'j statement list \<Rightarrow> 'j repository \<Rightarrow> 'j repository" where
  "with_db env stmts r =
     (case rp_db r of None \<Rightarrow> r | Some db \<Rightarrow> r\<lparr>rp_db := Some (execDb env stmts db)\<rparr>)"

definition persistGenome ::
    "'j archive_env \<Rightarrow> uuid \<Rightarrow> u32 genome \<Rightarrow> genome_metadata \<Rightarrow> string \<Rightarrow> 'j repository \<Rightarrow> 'j repository" where
  "persistGenome env i genome m hash =
     with_db env [Insert_or_replace_genome (uuid_toString i)
       \<lparr>row_weights = weights genome, row_metadata_json = env_dump env m, row_content_hash = Some hash\<rparr>]"

definition persistGenomeHash :: "'j archive_env \<Rightarrow> uuid \<Rightarrow> string \<Rightarrow> 'j repository \<Rightarrow> 'j repository" where
  "persistGenomeHash env i hash = with_db env [Update_content_hash hash (uuid_toString i)]"

definition deleteGenome :: "'j archive_env \<Rightarrow> uuid \<Rightarrow> 'j repository \<Rightarrow> 'j repository" where
  "deleteGenome env i = with_db env [Delete_genome (uuid_toString i)]"

definition persistBestId :: "'j archive_env \<Rightarrow> 'j repository \<Rightarrow> 'j repository" where
  "persistBestId env r =
     with_db env [Put_best_id (case rp_bestId r of None \<Rightarrow> [] | Some b \<Rightarrow> uuid_toString b)] r"

definition clearDb :: "'j archive_env \<Rightarrow> 'j repository \<Rightarrow> 'j repository" where
  "clearDb env = with_db env [Begin_transaction, Delete_all_genomes, Delete_best_id, Commit]"

text \<open>\<open>store\<close>; \<open>fresh\<close> is the identifier that \<open>UUID::generate\<close> gives if it is called.\<close>

definition repo_store ::
    "'j archive_env \<Rightarrow> uuid \<Rightarrow> u32 genome \<Rightarrow> genome_metadata \<Rightarrow> uuid \<Rightarrow> 'j repository \<Rightarrow> 'j repository" where
  "repo_store env i genome m fresh r =
     (let i = (if i = uuid_nil then fresh else i);
          normalizedMeta = normalizeRobustMetadata m;
          contentHash = computeContentHash genome normalizedMeta;
          r = (case map_of (rp_idToHash r) i of
                 Some oldHash \<Rightarrow>
                   (if oldHash \<noteq> contentHash \<and> map_of (rp_hashToId r) oldHash = Some i
                    then r\<lparr>rp_hashToId := AList.delete oldHash (rp_hashToId r)\<rparr> else r)
               | None \<Rightarrow> r);
          r = r\<lparr>rp_genomes := AList.update i genome (rp_genomes r),
                rp_metadata := AList.update i normalizedMeta (rp_metadata r),
                rp_hashToId := AList.update contentHash i (rp_hashToId r),
                rp_idToHash := AList.update i contentHash (rp_idToHash r)\<rparr>
      in persistGenome env i genome normalizedMeta contentHash r)"

record store_result =
  sr_id :: uuid
  sr_inserted :: bool
  sr_deduplicated :: bool

text \<open>
  The choice of an identifier that is not in use: the candidate, and then the draws of
  \<open>UUID::generate\<close> one after the other. \<open>None\<close>: the given draws are used up and all are in use.
\<close>

fun pickUnused :: "(uuid \<times> u32 genome) list \<Rightarrow> uuid \<Rightarrow> uuid list \<Rightarrow> uuid option" where
  "pickUnused genomes i gens =
     (if map_of genomes i = None then Some i
      else case gens of [] \<Rightarrow> None | g # gs \<Rightarrow> pickUnused genomes g gs)"

declare pickUnused.simps [simp del]

definition storeOrUpdateByHash ::
    "'j archive_env \<Rightarrow> u32 genome \<Rightarrow> genome_metadata \<Rightarrow> uuid option \<Rightarrow> uuid list \<Rightarrow> 'j repository \<Rightarrow>
     (store_result \<times> 'j repository) option" where
  "storeOrUpdateByHash env genome m preferredId gens r =
     (let normalizedMeta = normalizeRobustMetadata m;
          contentHash = computeContentHash genome normalizedMeta
      in case map_of (rp_hashToId r) contentHash of
           Some existingId \<Rightarrow>
             let mergedMeta = (case map_of (rp_metadata r) existingId of
                                 Some existing \<Rightarrow> mergeMetadata existing normalizedMeta
                               | None \<Rightarrow> normalizedMeta);
                 r = r\<lparr>rp_genomes := AList.update existingId genome (rp_genomes r),
                       rp_metadata := AList.update existingId mergedMeta (rp_metadata r),
                       rp_idToHash := AList.update existingId contentHash (rp_idToHash r)\<rparr>
             in Some (\<lparr>sr_id = existingId, sr_inserted = False, sr_deduplicated = True\<rparr>,
                      persistGenome env existingId genome mergedMeta contentHash r)
         | None \<Rightarrow>
             let candidates = (case preferredId of Some p \<Rightarrow> p # gens | None \<Rightarrow> gens);
                 candidates = (case candidates of p # gs \<Rightarrow> (if p = uuid_nil then gs else p # gs) | [] \<Rightarrow> [])
             in case candidates of [] \<Rightarrow> None
                | c # gs \<Rightarrow>
                  (case pickUnused (rp_genomes r) c gs of None \<Rightarrow> None
                   | Some i \<Rightarrow>
                      let r = r\<lparr>rp_genomes := AList.update i genome (rp_genomes r),
                                rp_metadata := AList.update i normalizedMeta (rp_metadata r),
                                rp_hashToId := AList.update contentHash i (rp_hashToId r),
                                rp_idToHash := AList.update i contentHash (rp_idToHash r)\<rparr>
                      in Some (\<lparr>sr_id = i, sr_inserted = True, sr_deduplicated = False\<rparr>,
                               persistGenome env i genome normalizedMeta contentHash r)))"

definition removeNoLock :: "'j archive_env \<Rightarrow> uuid \<Rightarrow> 'j repository \<Rightarrow> 'j repository" where
  "removeNoLock env i r =
     (let r = r\<lparr>rp_genomes := AList.delete i (rp_genomes r), rp_metadata := AList.delete i (rp_metadata r)\<rparr>;
          r = (case map_of (rp_idToHash r) i of
                 Some h \<Rightarrow>
                   let r = (if map_of (rp_hashToId r) h = Some i
                            then r\<lparr>rp_hashToId := AList.delete h (rp_hashToId r)\<rparr> else r)
                   in r\<lparr>rp_idToHash := AList.delete i (rp_idToHash r)\<rparr>
               | None \<Rightarrow> r);
          r = (if rp_bestId r = Some i then persistBestId env (r\<lparr>rp_bestId := None\<rparr>) else r)
      in deleteGenome env i r)"

definition repo_clear :: "'j archive_env \<Rightarrow> 'j repository \<Rightarrow> 'j repository" where
  "repo_clear env r =
     clearDb env (r\<lparr>rp_genomes := [], rp_hashToId := [], rp_idToHash := [], rp_metadata := [],
                    rp_bestId := None\<rparr>)"

definition markAsBest :: "'j archive_env \<Rightarrow> uuid \<Rightarrow> 'j repository \<Rightarrow> 'j repository" where
  "markAsBest env i r =
     (if map_of (rp_genomes r) i \<noteq> None then persistBestId env (r\<lparr>rp_bestId := Some i\<rparr>) else r)"

definition repo_exists :: "uuid \<Rightarrow> 'j repository \<Rightarrow> bool" where
  "repo_exists i r = (map_of (rp_genomes r) i \<noteq> None)"

definition repo_get :: "uuid \<Rightarrow> 'j repository \<Rightarrow> u32 genome option" where
  "repo_get i r = map_of (rp_genomes r) i"

definition getMetadata :: "uuid \<Rightarrow> 'j repository \<Rightarrow> genome_metadata option" where
  "getMetadata i r = map_of (rp_metadata r) i"

definition repo_list :: "'j repository \<Rightarrow> (uuid \<times> genome_metadata) list" where
  "repo_list r = rp_metadata r"

definition getBest :: "'j repository \<Rightarrow> u32 genome option" where
  "getBest r = (case rp_bestId r of None \<Rightarrow> None | Some b \<Rightarrow> map_of (rp_genomes r) b)"

definition repo_count :: "'j repository \<Rightarrow> nat" where
  "repo_count r = length (rp_genomes r)"

definition repo_empty :: "'j repository \<Rightarrow> bool" where
  "repo_empty r = (rp_genomes r = [])"

definition isPersistent :: "'j repository \<Rightarrow> bool" where
  "isPersistent r = (rp_db r \<noteq> None)"

section \<open>Pruning\<close>

type_synonym bucket_key = "int \<times> string \<times> genome_pool"

definition bucketKey :: "genome_metadata \<Rightarrow> bucket_key" where
  "bucketKey m = (organism_or_minus1 m, value_or (gm_brainKind m) [], gm_genomePoolId m)"

definition bucketPush :: "bucket_key \<Rightarrow> uuid \<Rightarrow> (bucket_key \<times> uuid list) list \<Rightarrow> (bucket_key \<times> uuid list) list" where
  "bucketPush k i bs = AList.update k (value_or (map_of bs k) [] @ [i]) bs"

definition managedBuckets :: "'j repository \<Rightarrow> (bucket_key \<times> uuid list) list" where
  "managedBuckets r =
     foldl (\<lambda>bs (i, m). if gm_trainingSessionId m \<noteq> None then bucketPush (bucketKey m) i bs else bs)
       [] (rp_metadata r)"

text \<open>The comparison of the sort; it is total, since the texts of the identifiers differ.\<close>

definition pruneRank :: "'j repository \<Rightarrow> uuid \<Rightarrow> real \<times> u64 \<times> string" where
  "pruneRank r i =
     (let m = the (map_of (rp_metadata r) i)
      in (effectiveRobustFitness m, gm_createdTimestamp m, uuid_toString i))"

definition pruneStep :: "'j archive_env \<Rightarrow> nat \<Rightarrow> 'j repository \<times> nat \<Rightarrow> uuid \<Rightarrow> 'j repository \<times> nat" where
  "pruneStep env targetRemovals acc i =
     (let (r, removedFromBucket) = acc
      in if removedFromBucket \<ge> targetRemovals then acc
         else if rp_bestId r = Some i then acc
         else (removeNoLock env i r, removedFromBucket + 1))"

definition pruneBucket :: "'j archive_env \<Rightarrow> nat \<Rightarrow> 'j repository \<times> nat \<Rightarrow> bucket_key \<times> uuid list \<Rightarrow> 'j repository \<times> nat" where
  "pruneBucket env maxManaged acc bucket =
     (let (r, removed) = acc; managedIds = snd bucket
      in if length managedIds \<le> maxManaged then acc
         else let managedIds = sort_key (pruneRank r) managedIds;
                  targetRemovals = length managedIds - maxManaged;
                  (r, removedFromBucket) = foldl (pruneStep env targetRemovals) (r, 0) managedIds
              in (r, removed + removedFromBucket))"

definition pruneManagedByFitness :: "'j archive_env \<Rightarrow> nat \<Rightarrow> 'j repository \<Rightarrow> nat \<times> 'j repository" where
  "pruneManagedByFitness env maxManaged r =
     (if maxManaged = 0 then (0, r)
      else let (r, removed) = foldl (pruneBucket env maxManaged) (r, 0) (managedBuckets r)
           in (removed, r))"

definition countManagedByBucket :: "organism_type \<Rightarrow> string \<Rightarrow> genome_pool \<Rightarrow> 'j repository \<Rightarrow> nat" where
  "countManagedByBucket t kind pool r =
     length (filter (\<lambda>(_, m). gm_trainingSessionId m \<noteq> None \<and> gm_organismType m = Some t \<and>
                              gm_brainKind m = Some kind \<and> gm_genomePoolId m = pool) (rp_metadata r))"

section \<open>Opening a database\<close>

text \<open>
  One row. An identifier that cannot be read throws out of the load; metadata that cannot be read
  are logged and skipped.
\<close>

definition loadRow ::
    "'j archive_env \<Rightarrow> 'j repository \<Rightarrow> string \<times> 'j genome_row \<Rightarrow> uuid_error + 'j repository" where
  "loadRow env r row =
     (case uuid_fromString (fst row) of Inl e \<Rightarrow> Inl e
      | Inr i \<Rightarrow>
         if i = uuid_nil then Inr r
         else let genome = \<lparr>weights = row_weights (snd row)\<rparr>
              in case env_parse env (row_metadata_json (snd row)) of None \<Rightarrow> Inr r
                 | Some parsed \<Rightarrow>
                    let m = normalizeRobustMetadata parsed;
                        stored = value_or (row_content_hash (snd row)) [];
                        contentHash = (if stored = [] then computeContentHash genome m else stored);
                        r = (if stored = [] then persistGenomeHash env i contentHash r else r);
                        r = r\<lparr>rp_genomes := AList.update i genome (rp_genomes r),
                              rp_metadata := AList.update i m (rp_metadata r)\<rparr>
                    in case map_of (rp_hashToId r) contentHash of
                         None \<Rightarrow> Inr (r\<lparr>rp_hashToId := AList.update contentHash i (rp_hashToId r),
                                        rp_idToHash := AList.update i contentHash (rp_idToHash r)\<rparr>)
                       | Some existingId \<Rightarrow>
                           if (case map_of (rp_metadata r) existingId of None \<Rightarrow> True
                               | Some existing \<Rightarrow> effectiveRobustFitness m > effectiveRobustFitness existing)
                           then Inr (r\<lparr>rp_idToHash := AList.update i contentHash
                                         (AList.delete existingId (rp_idToHash r)),
                                       rp_hashToId := AList.update contentHash i (rp_hashToId r)\<rparr>)
                           else Inr r)"

primrec loadRows ::
    "'j archive_env \<Rightarrow> (string \<times> 'j genome_row) list \<Rightarrow> 'j repository \<Rightarrow> uuid_error + 'j repository" where
  "loadRows env [] r = Inr r"
| "loadRows env (row # rows) r =
     (case loadRow env r row of Inl e \<Rightarrow> Inl e | Inr r \<Rightarrow> loadRows env rows r)"

definition loadBest :: "string option \<Rightarrow> 'j repository \<Rightarrow> uuid_error + 'j repository" where
  "loadBest v r =
     (case v of None \<Rightarrow> Inr r
      | Some s \<Rightarrow>
          if s = [] then Inr r
          else case uuid_fromString s of Inl e \<Rightarrow> Inl e
               | Inr b \<Rightarrow> Inr (if b \<noteq> uuid_nil \<and> repo_exists b r then r\<lparr>rp_bestId := Some b\<rparr> else r))"

definition open_repository :: "'j archive_env \<Rightarrow> 'j genome_db \<Rightarrow> uuid_error + 'j repository" where
  "open_repository env db =
     (case loadRows env (dt_genomes (db_tables db)) (new_repository (Some db)) of
        Inl e \<Rightarrow> Inl e
      | Inr r \<Rightarrow> loadBest (dt_best (db_tables db)) r)"

text \<open>What a closed database keeps: an open transaction is rolled back.\<close>

definition closed_db :: "'j genome_db \<Rightarrow> 'j genome_db" where
  "closed_db db = (case db_transaction db of None \<Rightarrow> db | Some saved \<Rightarrow> \<lparr>db_tables = saved, db_transaction = None\<rparr>)"

end
