(* ===== verification/GenomeArchiveProps.thy ===== *)
theory GenomeArchiveProps
  imports GenomeArchive
begin

text \<open>
  What the genome archive promises: the invariant that ties its maps together, for every sequence
  of operations; the deduplication by content; the pruning that keeps the fittest genomes of every
  bucket and the best of all; and the write-through, by which a reopened database gives the same
  genomes, metadata and best genome. Then three behaviours that the code does not mean to have.
\<close>

section \<open>Normal metadata\<close>

definition meta_normal :: "genome_metadata \<Rightarrow> bool" where
  "meta_normal m =
     (0 \<le> gm_robustEvalCount m \<and> length (gm_robustFitnessSamples m) \<le> kRobustFitnessSampleWindow \<and>
      (gm_robustFitnessSamples m \<noteq> [] \<longrightarrow>
         gm_robustFitness m = computeMedian (gm_robustFitnessSamples m) \<and>
         int (length (gm_robustFitnessSamples m)) \<le> gm_robustEvalCount m))"

lemma normalize_normal: "meta_normal (normalizeRobustMetadata m)"
  by (auto simp: normalizeRobustMetadata_def meta_normal_def Let_def kRobustFitnessSampleWindow_def isfinite_def)

lemma normalize_id: "meta_normal m \<Longrightarrow> normalizeRobustMetadata m = m"
  by (auto simp: normalizeRobustMetadata_def meta_normal_def Let_def isfinite_def
      intro: genome_metadata.equality)

lemma append_sample_normal:
  fixes m x
  assumes "0 \<le> gm_robustEvalCount m" "length (gm_robustFitnessSamples m) \<le> kRobustFitnessSampleWindow"
    and "int (length (gm_robustFitnessSamples m)) \<le> gm_robustEvalCount m"
  defines "m' \<equiv> appendRobustSample m x"
  shows "0 < gm_robustEvalCount m'" "length (gm_robustFitnessSamples m') \<le> kRobustFitnessSampleWindow"
    "int (length (gm_robustFitnessSamples m')) \<le> gm_robustEvalCount m'"
    "gm_robustFitness m' = computeMedian (gm_robustFitnessSamples m')" "gm_robustFitnessSamples m' \<noteq> []"
proof -
  have "tl (xs @ [x]) \<noteq> []" if "6 < length xs" for xs using that by (cases xs) auto
  then show "0 < gm_robustEvalCount m'" "length (gm_robustFitnessSamples m') \<le> kRobustFitnessSampleWindow"
    "int (length (gm_robustFitnessSamples m')) \<le> gm_robustEvalCount m'"
    "gm_robustFitness m' = computeMedian (gm_robustFitnessSamples m')" "gm_robustFitnessSamples m' \<noteq> []"
    using assms by (auto simp: m'_def appendRobustSample_def isfinite_def Let_def kRobustFitnessSampleWindow_def)
qed

lemma append_samples_normal:
  assumes "0 \<le> gm_robustEvalCount m" "length (gm_robustFitnessSamples m) \<le> kRobustFitnessSampleWindow"
    and "int (length (gm_robustFitnessSamples m)) \<le> gm_robustEvalCount m"
    and "gm_robustFitnessSamples m \<noteq> [] \<Longrightarrow> gm_robustFitness m = computeMedian (gm_robustFitnessSamples m)"
  shows "meta_normal (foldl appendRobustSample m xs) \<and>
    int (length (gm_robustFitnessSamples (foldl appendRobustSample m xs)))
      \<le> gm_robustEvalCount (foldl appendRobustSample m xs)"
  using assms
proof (induction xs arbitrary: m)
  case (Cons x xs)
  note a = append_sample_normal [OF Cons.prems(1-3), of x]
  from Cons.IH [OF less_imp_le [OF a(1)] a(2,3,4)] show ?case by simp
qed (simp add: meta_normal_def)

lemma merge_normal: "meta_normal (mergeMetadata a b)"
proof -
  define e where "e = normalizeRobustMetadata a"
  define i where "i = normalizeRobustMetadata b"
  have e: "meta_normal e" by (simp add: e_def normalize_normal)
  define m0 where "m0 = i\<lparr>gm_fitness := max (gm_fitness e) (gm_fitness i),
      gm_name := (if gm_name i = [] then gm_name e else gm_name i),
      gm_notes := (if gm_notes i = [] then gm_notes e else gm_notes i),
      gm_organismType := or_else (gm_organismType i) (gm_organismType e),
      gm_brainKind := or_else (gm_brainKind i) (gm_brainKind e),
      gm_brainVariant := or_else (gm_brainVariant i) (gm_brainVariant e),
      gm_trainingSessionId := or_else (gm_trainingSessionId i) (gm_trainingSessionId e),
      gm_nesTileBrainCompatibility :=
        or_else (gm_nesTileBrainCompatibility i) (gm_nesTileBrainCompatibility e),
      gm_createdTimestamp := (if gm_createdTimestamp i = 0 then gm_createdTimestamp e else gm_createdTimestamp i),
      gm_robustFitnessSamples := gm_robustFitnessSamples e\<rparr>"
  define m1 where "m1 = (if gm_robustFitnessSamples m0 \<noteq> []
      then m0\<lparr>gm_robustFitness := computeMedian (gm_robustFitnessSamples m0)\<rparr> else m0)"
  define m2 where "m2 = m1\<lparr>gm_robustEvalCount := effectiveRobustEvalCount e\<rparr>"
  define m3 where "m3 = foldl appendRobustSample m2 (gm_robustFitnessSamples i)"
  define k where "k = max 0 (effectiveRobustEvalCount i - int (length (gm_robustFitnessSamples i)))"
  define m4 where "m4 = m3\<lparr>gm_robustEvalCount := gm_robustEvalCount m3 + k\<rparr>"
  have merge: "mergeMetadata a b =
     (if gm_robustEvalCount m4 \<le> 0 then normalizeRobustMetadata m4
      else if gm_robustFitnessSamples m4 = []
      then m4\<lparr>gm_robustFitness := max (effectiveRobustFitness e) (effectiveRobustFitness i)\<rparr> else m4)"
    unfolding mergeMetadata_def Let_def e_def [symmetric] i_def [symmetric] m0_def [symmetric]
      m1_def [symmetric] m2_def [symmetric] m3_def [symmetric] k_def [symmetric] m4_def [symmetric] ..
  have "0 \<le> gm_robustEvalCount m2" "length (gm_robustFitnessSamples m2) \<le> kRobustFitnessSampleWindow"
    "int (length (gm_robustFitnessSamples m2)) \<le> gm_robustEvalCount m2"
    "gm_robustFitnessSamples m2 \<noteq> [] \<Longrightarrow> gm_robustFitness m2 = computeMedian (gm_robustFitnessSamples m2)"
    using e by (auto simp: m2_def m1_def m0_def meta_normal_def effectiveRobustEvalCount_def)
  from append_samples_normal [OF this, of "gm_robustFitnessSamples i"]
  have "meta_normal m3" "int (length (gm_robustFitnessSamples m3)) \<le> gm_robustEvalCount m3"
    by (simp_all add: m3_def)
  moreover have "0 \<le> k" by (simp add: k_def)
  ultimately have "meta_normal m4" by (auto simp: m4_def meta_normal_def)
  then show ?thesis unfolding merge by (auto simp: normalize_normal) (auto simp: meta_normal_def)
qed

lemma merge_fitness:
  "gm_fitness (mergeMetadata a b) = max (gm_fitness a) (gm_fitness b)"
proof -
  have n: "gm_fitness (normalizeRobustMetadata m) = gm_fitness m" for m
    by (simp add: normalizeRobustMetadata_def Let_def)
  have "gm_fitness (foldl appendRobustSample m xs) = gm_fitness m" for m xs
    by (induction xs arbitrary: m) (simp_all add: appendRobustSample_def Let_def)
  then show ?thesis by (simp add: mergeMetadata_def Let_def n)
qed

section \<open>The invariant\<close>

text \<open>The maps as functions: genomes, hash to identifier, identifier to hash, metadata.\<close>

definition maps_ok :: "(uuid \<rightharpoonup> u32 genome) \<Rightarrow> (string \<rightharpoonup> uuid) \<Rightarrow> (uuid \<rightharpoonup> string) \<Rightarrow>
    (uuid \<rightharpoonup> genome_metadata) \<Rightarrow> uuid option \<Rightarrow> bool" where
  "maps_ok G H I M best =
     ((\<forall>i. (G i = None) = (M i = None)) \<and> (\<forall>i. M i = None \<longrightarrow> I i = None) \<and>
      (\<forall>h i. H h = Some i \<longrightarrow> I i = Some h) \<and> (\<forall>b. best = Some b \<longrightarrow> M b \<noteq> None) \<and>
      (\<forall>i m. M i = Some m \<longrightarrow> meta_normal m) \<and> (\<forall>i. M i \<noteq> None \<longrightarrow> uuid_wf i \<and> i \<noteq> uuid_nil))"

definition repo_ok :: "'j repository \<Rightarrow> bool" where
  "repo_ok r =
     (distinct (map fst (rp_genomes r)) \<and> distinct (map fst (rp_metadata r)) \<and>
      maps_ok (map_of (rp_genomes r)) (map_of (rp_hashToId r)) (map_of (rp_idToHash r))
        (map_of (rp_metadata r)) (rp_bestId r))"

lemma repo_okD:
  "repo_ok r \<Longrightarrow> maps_ok (map_of (rp_genomes r)) (map_of (rp_hashToId r)) (map_of (rp_idToHash r))
     (map_of (rp_metadata r)) (rp_bestId r)"
  by (simp add: repo_ok_def)

lemma maps_okI:
  assumes "\<And>i. (G i = None) = (M i = None)" "\<And>i. M i = None \<Longrightarrow> I i = None"
    and "\<And>h i. H h = Some i \<Longrightarrow> I i = Some h" "\<And>b. best = Some b \<Longrightarrow> M b \<noteq> None"
    and "\<And>i m. M i = Some m \<Longrightarrow> meta_normal m" "\<And>i. M i \<noteq> None \<Longrightarrow> uuid_wf i \<and> i \<noteq> uuid_nil"
  shows "maps_ok G H I M best"
  using assms unfolding maps_ok_def by blast

lemma maps_okD:
  assumes "maps_ok G H I M best"
  shows "(G i = None) = (M i = None)" "M i = None \<Longrightarrow> I i = None" "H h = Some i \<Longrightarrow> I i = Some h"
    "best = Some b \<Longrightarrow> M b \<noteq> None" "M i = Some m \<Longrightarrow> meta_normal m"
    "M i \<noteq> None \<Longrightarrow> uuid_wf i" "M i \<noteq> None \<Longrightarrow> i \<noteq> uuid_nil" "H h = Some i \<Longrightarrow> M i \<noteq> None"
  using assms unfolding maps_ok_def by (blast, blast, blast, blast, blast, blast, blast, metis option.distinct(1))

lemma maps_ok_put:
  assumes "maps_ok G H I M best" "meta_normal m" "uuid_wf i" "i \<noteq> uuid_nil"
    and "\<And>h'. H h' = Some i \<Longrightarrow> h' = h"
  shows "maps_ok (G(i \<mapsto> g)) (H(h \<mapsto> i)) (I(i \<mapsto> h)) (M(i \<mapsto> m)) best"
  by (rule maps_okI) (use maps_okD [OF assms(1)] assms(2-) in \<open>auto split: if_splits\<close>)

lemma maps_ok_update:
  assumes "maps_ok G H I M best" "meta_normal m" "H h = Some i"
  shows "maps_ok (G(i \<mapsto> g)) H (I(i \<mapsto> h)) (M(i \<mapsto> m)) best"
proof -
  have "M i \<noteq> None" using maps_okD(8) [OF assms(1)] assms(3) by blast
  moreover have "H h' = Some i \<Longrightarrow> h' = h" for h'
    using maps_okD(3) [OF assms(1), of h' i] maps_okD(3) [OF assms(1,3)] by simp
  ultimately have "maps_ok (G(i \<mapsto> g)) (H(h \<mapsto> i)) (I(i \<mapsto> h)) (M(i \<mapsto> m)) best"
    using maps_okD(6,7) [OF assms(1), of i] by (intro maps_ok_put assms(1,2)) simp_all
  moreover have "H(h \<mapsto> i) = H" using assms(3) by (rule fun_upd_idem)
  ultimately show ?thesis by simp
qed

lemma maps_ok_forget:
  assumes "maps_ok G H I M best" shows "maps_ok G (H(h := None)) I M best"
  by (rule maps_okI) (use maps_okD [OF assms] in \<open>auto split: if_splits\<close>)

lemma maps_ok_remove:
  assumes "maps_ok G H I M best" "\<And>h. H h \<noteq> Some i"
  shows "maps_ok (G(i := None)) H (I(i := None)) (M(i := None)) (if best = Some i then None else best)"
  by (rule maps_okI) (use maps_okD [OF assms(1)] assms(2) in \<open>auto split: if_splits\<close>)

lemma with_db_maps [simp]:
  "rp_genomes (with_db env stmts r) = rp_genomes r" "rp_hashToId (with_db env stmts r) = rp_hashToId r"
  "rp_idToHash (with_db env stmts r) = rp_idToHash r" "rp_metadata (with_db env stmts r) = rp_metadata r"
  "rp_bestId (with_db env stmts r) = rp_bestId r"
  by (simp_all add: with_db_def split: option.split)

lemma with_db_db: "rp_db (with_db env stmts r) = map_option (execDb env stmts) (rp_db r)"
  by (simp add: with_db_def split: option.split)

lemmas db_calls = persistGenome_def persistGenomeHash_def deleteGenome_def persistBestId_def clearDb_def

lemma repo_ok_with_db [simp]: "repo_ok (with_db env stmts r) = repo_ok r"
  by (simp add: repo_ok_def)

lemma repo_ok_new: "repo_ok (new_repository db)"
  by (simp add: repo_ok_def maps_ok_def new_repository_def)

text \<open>Putting a genome under an identifier and a hash that nobody else claims.\<close>

definition put_genome ::
    "uuid \<Rightarrow> u32 genome \<Rightarrow> genome_metadata \<Rightarrow> string \<Rightarrow> 'j repository \<Rightarrow> 'j repository" where
  "put_genome i genome m h r =
     r\<lparr>rp_genomes := AList.update i genome (rp_genomes r),
       rp_metadata := AList.update i m (rp_metadata r),
       rp_hashToId := AList.update h i (rp_hashToId r),
       rp_idToHash := AList.update i h (rp_idToHash r)\<rparr>"

lemma put_genome_ok:
  assumes "repo_ok r" "meta_normal m" "uuid_wf i" "i \<noteq> uuid_nil"
    and "\<And>h'. map_of (rp_hashToId r) h' = Some i \<Longrightarrow> h' = h"
  shows "repo_ok (put_genome i genome m h r)"
  using assms maps_ok_put [OF _ assms(2-5)] unfolding repo_ok_def put_genome_def
  by (simp add: update_conv' distinct_update)

lemma store_ok:
  assumes "repo_ok r" "i = uuid_nil \<or> uuid_wf i" "uuid_wf fresh" "fresh \<noteq> uuid_nil"
  shows "repo_ok (repo_store env i genome m fresh r)"
proof -
  define j where "j = (if i = uuid_nil then fresh else i)"
  define n where "n = normalizeRobustMetadata m"
  define h where "h = computeContentHash genome n"
  define r1 where "r1 = (case map_of (rp_idToHash r) j of
       Some oldHash \<Rightarrow>
         (if oldHash \<noteq> h \<and> map_of (rp_hashToId r) oldHash = Some j
          then r\<lparr>rp_hashToId := AList.delete oldHash (rp_hashToId r)\<rparr> else r)
     | None \<Rightarrow> r)"
  have j: "uuid_wf j" "j \<noteq> uuid_nil" using assms(2-4) by (auto simp: j_def)
  have "repo_store env i genome m fresh r = persistGenome env j genome n h (put_genome j genome n h r1)"
    unfolding repo_store_def put_genome_def Let_def j_def [symmetric] n_def [symmetric] h_def [symmetric]
      r1_def [symmetric] ..
  moreover have "repo_ok r1"
    using assms(1) maps_ok_forget unfolding repo_ok_def r1_def by (simp add: delete_conv' split: option.split)
  moreover have "h' = h" if "map_of (rp_hashToId r1) h' = Some j" for h'
  proof -
    have H: "map_of (rp_hashToId r) h' = Some j"
      using that by (simp add: r1_def delete_conv' split: option.splits if_splits)
    then have "map_of (rp_idToHash r) j = Some h'"
      using assms(1) maps_okD(3) unfolding repo_ok_def by blast
    with H that show ?thesis by (auto simp: r1_def delete_conv' split: if_splits)
  qed
  ultimately show ?thesis
    using put_genome_ok [of r1 n j h genome] j normalize_normal by (simp add: db_calls n_def)
qed

lemma pickUnused_sound:
  "pickUnused genomes i gens = Some u \<Longrightarrow> map_of genomes u = None \<and> u \<in> set (i # gens)"
  by (induction genomes i gens rule: pickUnused.induct)
    (subst (asm) pickUnused.simps, auto split: if_splits list.splits)

text \<open>The choice ends as soon as one of the draws is not in use.\<close>

lemma pickUnused_ends:
  "\<exists>u \<in> set (i # gens). map_of genomes u = None \<Longrightarrow> pickUnused genomes i gens \<noteq> None"
  by (induction genomes i gens rule: pickUnused.induct)
    (subst pickUnused.simps, force split: list.splits)

lemma storeByHash_cases:
  assumes "storeOrUpdateByHash env genome m preferred gens r = Some (res, r')"
  defines "n \<equiv> normalizeRobustMetadata m"
  defines "h \<equiv> computeContentHash genome n"
  obtains (update) i mm where "map_of (rp_hashToId r) h = Some i" "res = \<lparr>sr_id = i, sr_inserted = False, sr_deduplicated = True\<rparr>"
      "mm = (case map_of (rp_metadata r) i of Some e \<Rightarrow> mergeMetadata e n | None \<Rightarrow> n)"
      "r' = persistGenome env i genome mm h (r\<lparr>rp_genomes := AList.update i genome (rp_genomes r),
              rp_metadata := AList.update i mm (rp_metadata r), rp_idToHash := AList.update i h (rp_idToHash r)\<rparr>)"
    | (insert) i where "map_of (rp_hashToId r) h = None" "map_of (rp_genomes r) i = None"
      "i \<in> set gens \<or> (preferred = Some i \<and> i \<noteq> uuid_nil)" "res = \<lparr>sr_id = i, sr_inserted = True, sr_deduplicated = False\<rparr>"
      "r' = persistGenome env i genome n h (put_genome i genome n h r)"
proof (cases "map_of (rp_hashToId r) h")
  case (Some i)
  show ?thesis
    using update [OF Some _ refl] assms(1) Some unfolding n_def h_def
    by (simp add: storeOrUpdateByHash_def Let_def)
next
  case None
  define cs where "cs = (case (case preferred of Some p \<Rightarrow> p # gens | None \<Rightarrow> gens) of
      p # gs \<Rightarrow> (if p = uuid_nil then gs else p # gs) | [] \<Rightarrow> [])"
  from assms(1) None obtain c gs where c: "cs = c # gs"
    by (cases cs) (simp_all add: storeOrUpdateByHash_def Let_def n_def h_def cs_def)
  with assms(1) None obtain i where i: "pickUnused (rp_genomes r) c gs = Some i"
    by (cases "pickUnused (rp_genomes r) c gs")
      (simp_all add: storeOrUpdateByHash_def Let_def n_def h_def cs_def)
  have "u \<in> set gens \<or> (preferred = Some u \<and> u \<noteq> uuid_nil)" if "u \<in> set cs" for u
    using that by (auto simp: cs_def split: option.splits list.splits if_splits)
  with pickUnused_sound [OF i] c have "map_of (rp_genomes r) i = None"
    "i \<in> set gens \<or> (preferred = Some i \<and> i \<noteq> uuid_nil)" by auto
  then show ?thesis using insert [of i] assms(1) None i c
    by (simp add: storeOrUpdateByHash_def Let_def n_def h_def cs_def put_genome_def)
qed

lemma storeByHash_ok:
  assumes "repo_ok r" "storeOrUpdateByHash env genome m preferred gens r = Some (res, r')"
    and "\<forall>g \<in> set gens. uuid_wf g \<and> g \<noteq> uuid_nil" "\<forall>p. preferred = Some p \<longrightarrow> uuid_wf p"
  shows "repo_ok r'"
  using assms(2)
proof (cases rule: storeByHash_cases)
  case (update i mm)
  have "meta_normal mm"
    using update(3) merge_normal normalize_normal by (auto split: option.splits)
  with assms(1) update(1) show ?thesis
    unfolding repo_ok_def update(4) db_calls by (simp add: update_conv' distinct_update maps_ok_update)
next
  case (insert i)
  have "map_of (rp_hashToId r) h' \<noteq> Some i" for h'
    using assms(1) insert(2) maps_okD(1,8) unfolding repo_ok_def by blast
  moreover have "uuid_wf i" "i \<noteq> uuid_nil" using insert(3) assms(3,4) by auto
  ultimately show ?thesis
    unfolding insert(5) db_calls repo_ok_with_db using put_genome_ok [OF assms(1) normalize_normal] by blast
qed

text \<open>The maps after a removal.\<close>

lemma remove_maps:
  "map_of (rp_genomes (removeNoLock env i r)) = (map_of (rp_genomes r))(i := None)"
  "map_of (rp_metadata (removeNoLock env i r)) = (map_of (rp_metadata r))(i := None)"
  "map_of (rp_idToHash (removeNoLock env i r)) = (map_of (rp_idToHash r))(i := None)"
  "rp_bestId (removeNoLock env i r) = (if rp_bestId r = Some i then None else rp_bestId r)"
  by (auto simp: removeNoLock_def Let_def db_calls delete_conv' split: option.split)

lemma remove_hashes:
  "map_of (rp_hashToId (removeNoLock env i r)) =
     (case map_of (rp_idToHash r) i of
        Some h \<Rightarrow> (if map_of (rp_hashToId r) h = Some i then (map_of (rp_hashToId r))(h := None)
                   else map_of (rp_hashToId r))
      | None \<Rightarrow> map_of (rp_hashToId r))"
  by (auto simp: removeNoLock_def Let_def db_calls delete_conv' split: option.split)

lemma remove_distinct:
  "distinct (map fst (rp_genomes r)) \<Longrightarrow> distinct (map fst (rp_genomes (removeNoLock env i r)))"
  "distinct (map fst (rp_metadata r)) \<Longrightarrow> distinct (map fst (rp_metadata (removeNoLock env i r)))"
  by (auto simp: removeNoLock_def Let_def db_calls distinct_delete split: option.split)

lemma remove_ok:
  assumes "repo_ok r" shows "repo_ok (removeNoLock env i r)"
proof -
  let ?H = "map_of (rp_hashToId (removeNoLock env i r))"
  note m = assms [unfolded repo_ok_def, THEN conjunct2, THEN conjunct2]
  have "maps_ok (map_of (rp_genomes r)) ?H (map_of (rp_idToHash r)) (map_of (rp_metadata r)) (rp_bestId r)"
    using m maps_ok_forget [OF m] by (simp add: remove_hashes split: option.split)
  moreover have "?H h \<noteq> Some i" for h
    using maps_okD(3) [OF m, of h i] by (auto simp: remove_hashes split: option.splits)
  ultimately show ?thesis
    using maps_ok_remove remove_distinct assms unfolding repo_ok_def remove_maps by blast
qed

lemma clear_ok: "repo_ok (repo_clear env r)"
  by (simp add: repo_ok_def maps_ok_def repo_clear_def db_calls)

lemma markAsBest_ok: "repo_ok r \<Longrightarrow> repo_ok (markAsBest env i r)"
  by (auto simp: repo_ok_def maps_ok_def markAsBest_def db_calls)

section \<open>The buckets\<close>

definition in_bucket :: "bucket_key \<Rightarrow> genome_metadata \<Rightarrow> bool" where
  "in_bucket k m = (gm_trainingSessionId m \<noteq> None \<and> bucketKey m = k)"

definition bucket_ids :: "'j repository \<Rightarrow> bucket_key \<Rightarrow> uuid list" where
  "bucket_ids r k = map fst (filter (\<lambda>x. in_bucket k (snd x)) (rp_metadata r))"

lemma bucket_fold:
  "map_of (foldl (\<lambda>bs (i, m). if gm_trainingSessionId m \<noteq> None then bucketPush (bucketKey m) i bs else bs) bs ms) k =
     (let new = map fst (filter (\<lambda>x. in_bucket k (snd x)) ms)
      in if new = [] then map_of bs k else Some (value_or (map_of bs k) [] @ new))"
proof (induction ms arbitrary: bs)
  case (Cons x ms)
  obtain i m where x: "x = (i, m)" by force
  show ?case
    by (cases "gm_trainingSessionId m = None"; cases "bucketKey m = k")
      (simp_all add: x Cons Let_def in_bucket_def bucketPush_def update_conv' del: not_None_eq)
qed simp

lemma bucket_fold_distinct:
  "distinct (map fst bs) \<Longrightarrow> distinct (map fst
     (foldl (\<lambda>bs (i, m). if gm_trainingSessionId m \<noteq> None then bucketPush (bucketKey m) i bs else bs) bs ms))"
  by (induction ms arbitrary: bs) (auto simp: bucketPush_def distinct_update)

lemma managedBuckets_map:
  "map_of (managedBuckets r) k = (if bucket_ids r k = [] then None else Some (bucket_ids r k))"
  unfolding managedBuckets_def bucket_fold by (simp add: Let_def bucket_ids_def)

lemma managedBuckets_distinct: "distinct (map fst (managedBuckets r))"
  unfolding managedBuckets_def by (rule bucket_fold_distinct) simp

lemma managedBuckets_entry:
  assumes "(k, ids) \<in> set (managedBuckets r)" shows "ids = bucket_ids r k"
proof -
  have "map_of (managedBuckets r) k = Some ids"
    by (simp add: map_of_eq_Some_iff managedBuckets_distinct assms)
  then show ?thesis by (auto simp: managedBuckets_map split: if_splits)
qed

lemma bucket_ids_mem:
  assumes "distinct (map fst (rp_metadata r))"
  shows "i \<in> set (bucket_ids r k) \<longleftrightarrow> (\<exists>m. map_of (rp_metadata r) i = Some m \<and> in_bucket k m)"
  using assms by (force simp: bucket_ids_def)

lemma bucket_ids_set:
  assumes "distinct (map fst (rp_metadata r))"
  shows "set (bucket_ids r k) = {i. \<exists>m. map_of (rp_metadata r) i = Some m \<and> in_bucket k m}"
  using bucket_ids_mem [OF assms, of _ k] by blast

lemma bucket_ids_distinct:
  "distinct (map fst (rp_metadata r)) \<Longrightarrow> distinct (bucket_ids r k)"
  by (simp add: bucket_ids_def distinct_map_filter)

section \<open>The steps of a repository\<close>

text \<open>
  The public operations, in any order and with any arguments. The
  identifiers come from \<open>UUID\<close> values, and generated ones are never nil (\<open>generate_not_nil\<close>).
\<close>

inductive archive_step :: "'j archive_env \<Rightarrow> 'j repository \<Rightarrow> 'j repository \<Rightarrow> bool" for env where
  step_store: "i = uuid_nil \<or> uuid_wf i \<Longrightarrow> uuid_wf fresh \<Longrightarrow> fresh \<noteq> uuid_nil \<Longrightarrow>
     archive_step env r (repo_store env i genome m fresh r)"
| step_storeByHash: "storeOrUpdateByHash env genome m preferred gens r = Some (res, r') \<Longrightarrow>
     \<forall>g \<in> set gens. uuid_wf g \<and> g \<noteq> uuid_nil \<Longrightarrow> \<forall>p. preferred = Some p \<longrightarrow> uuid_wf p \<Longrightarrow>
     archive_step env r r'"
| step_prune: "archive_step env r (snd (pruneManagedByFitness env k r))"
| step_remove: "uuid_wf i \<Longrightarrow> archive_step env r (removeNoLock env i r)"
| step_clear: "archive_step env r (repo_clear env r)"
| step_markAsBest: "archive_step env r (markAsBest env i r)"

inductive_cases archive_stepE: "archive_step env r r'"

inductive archive_reachable :: "'j archive_env \<Rightarrow> 'j genome_db option \<Rightarrow> 'j repository \<Rightarrow> bool" for env db where
  reach_new: "archive_reachable env db (new_repository db)"
| reach_step: "archive_reachable env db r \<Longrightarrow> archive_step env r r' \<Longrightarrow> archive_reachable env db r'"

text \<open>
  What an invariant of the archive must promise of every operation. Pruning is not among the laws:
  it is a sequence of removals of identifiers that the repository lists.
\<close>

locale archive_contract =
  fixes env :: "'j archive_env" and inv :: "'j repository \<Rightarrow> bool"
  assumes store_keeps: "inv r \<Longrightarrow> i = uuid_nil \<or> uuid_wf i \<Longrightarrow> uuid_wf fresh \<Longrightarrow> fresh \<noteq> uuid_nil \<Longrightarrow>
      inv (repo_store env i genome m fresh r)"
    and storeByHash_keeps: "inv r \<Longrightarrow> storeOrUpdateByHash env genome m preferred gens r = Some (res, r') \<Longrightarrow>
      \<forall>g \<in> set gens. uuid_wf g \<and> g \<noteq> uuid_nil \<Longrightarrow> \<forall>p. preferred = Some p \<longrightarrow> uuid_wf p \<Longrightarrow> inv r'"
    and remove_keeps: "inv r \<Longrightarrow> uuid_wf i \<Longrightarrow> inv (removeNoLock env i r)"
    and clear_keeps: "inv r \<Longrightarrow> inv (repo_clear env r)"
    and markAsBest_keeps: "inv r \<Longrightarrow> inv (markAsBest env i r)"
    and known_ids: "inv r \<Longrightarrow> (i, m) \<in> set (rp_metadata r) \<Longrightarrow> uuid_wf i"
begin

lemma prune_steps_keep:
  "inv (fst acc) \<Longrightarrow> \<forall>i \<in> set is. uuid_wf i \<Longrightarrow> inv (fst (foldl (pruneStep env t) acc is))"
proof (induction "is" arbitrary: acc)
  case (Cons i "is")
  then have "inv (fst (pruneStep env t acc i))"
    using remove_keeps [of "fst acc" i] by (cases acc) (simp add: pruneStep_def)
  with Cons show ?case by simp
qed simp

lemma prune_bucket_keeps:
  assumes "inv (fst acc)" "\<forall>i \<in> set (snd b). uuid_wf i"
  shows "inv (fst (pruneBucket env k acc b))"
proof (cases "length (snd b) \<le> k")
  case True
  then show ?thesis using assms(1) by (cases acc) (simp add: pruneBucket_def)
next
  case False
  let ?ids = "sort_key (pruneRank (fst acc)) (snd b)"
  have "fst (pruneBucket env k acc b) = fst (foldl (pruneStep env (length ?ids - k)) (fst acc, 0) ?ids)"
    using False by (cases acc) (simp add: pruneBucket_def Let_def split: prod.split)
  then show ?thesis using prune_steps_keep [of "(fst acc, 0)" ?ids] assms by simp
qed

lemma prune_buckets_keep:
  "inv (fst acc) \<Longrightarrow> \<forall>b \<in> set bs. \<forall>i \<in> set (snd b). uuid_wf i \<Longrightarrow>
   inv (fst (foldl (pruneBucket env k) acc bs))"
  by (induction bs arbitrary: acc) (simp_all add: prune_bucket_keeps)

lemma prune_keeps:
  assumes "inv r" shows "inv (snd (pruneManagedByFitness env k r))"
proof -
  have "uuid_wf i" if "b \<in> set (managedBuckets r)" "i \<in> set (snd b)" for b i
  proof -
    obtain key ids where b: "b = (key, ids)" by (cases b)
    with managedBuckets_entry that have "i \<in> set (bucket_ids r key)" by fastforce
    then show ?thesis using known_ids [OF assms] by (auto simp: bucket_ids_def)
  qed
  then have "inv (fst (foldl (pruneBucket env k) (r, 0) (managedBuckets r)))"
    using prune_buckets_keep [of "(r, 0)" "managedBuckets r"] assms by simp
  then show ?thesis using assms by (auto simp: pruneManagedByFitness_def split: prod.splits)
qed

lemma step_keeps: "archive_step env r r' \<Longrightarrow> inv r \<Longrightarrow> inv r'"
  by (erule archive_stepE)
    (simp_all add: store_keeps storeByHash_keeps prune_keeps remove_keeps clear_keeps markAsBest_keeps)

lemma steps_keep: "(archive_step env)\<^sup>*\<^sup>* r r' \<Longrightarrow> inv r \<Longrightarrow> inv r'"
  by (induction rule: rtranclp_induct) (simp_all add: step_keeps)

lemma reachable_keeps: "archive_reachable env db r \<Longrightarrow> inv (new_repository db) \<Longrightarrow> inv r"
  by (induction rule: archive_reachable.induct) (simp_all add: step_keeps)

end

lemma listed_id_wf: "repo_ok r \<Longrightarrow> (i, m) \<in> set (rp_metadata r) \<Longrightarrow> uuid_wf i"
  using maps_okD(6) [OF repo_okD, of r i] by (force simp: repo_ok_def)

interpretation maps_contract: archive_contract env repo_ok for env
proof unfold_locales
  fix r r' :: "'a repository" and genome m preferred gens res
  assume "repo_ok r" "storeOrUpdateByHash env genome m preferred gens r = Some (res, r')"
    "\<forall>g \<in> set gens. uuid_wf g \<and> g \<noteq> uuid_nil" "\<forall>p. preferred = Some p \<longrightarrow> uuid_wf p"
  then show "repo_ok r'" by (rule storeByHash_ok)
qed (simp_all add: store_ok remove_ok clear_ok markAsBest_ok listed_id_wf)

lemmas reachable_ok = maps_contract.reachable_keeps [OF _ repo_ok_new]

text \<open>
  C14: After every sequence of operations on a repository, in memory or with a database whose
  statements may fail at any point, the maps agree: every genome has metadata and the other way
  round, a hash leads only to a stored genome that carries that very hash, the best genome is
  stored, no identifier is nil, and the robust fitness of every entry is the median of its last
  seven samples.
\<close>

theorem archive_invariant:
  assumes "archive_reachable env db r"
  shows "(repo_exists i r \<longleftrightarrow> getMetadata i r \<noteq> None) \<and>
    (map_of (rp_hashToId r) h = Some i \<longrightarrow> repo_exists i r \<and> map_of (rp_idToHash r) i = Some h) \<and>
    (rp_bestId r = Some b \<longrightarrow> getBest r = repo_get b r \<and> repo_get b r \<noteq> None) \<and>
    \<not> repo_exists uuid_nil r \<and>
    (\<forall>m. getMetadata i r = Some m \<longrightarrow> length (gm_robustFitnessSamples m) \<le> 7 \<and> 0 \<le> gm_robustEvalCount m \<and>
       (gm_robustFitnessSamples m \<noteq> [] \<longrightarrow> gm_robustFitness m = computeMedian (gm_robustFitnessSamples m)))"
proof -
  note d = maps_okD [OF reachable_ok [OF assms, unfolded repo_ok_def, THEN conjunct2, THEN conjunct2]]
  have "meta_normal m" if "getMetadata i r = Some m" for m using that d(5) by (simp add: getMetadata_def)
  moreover have "map_of (rp_metadata r) uuid_nil = None" using d(7) [of uuid_nil] by blast
  ultimately show ?thesis
    using d(1,3,4,8) by (auto simp: repo_exists_def getMetadata_def getBest_def repo_get_def meta_normal_def
        kRobustFitnessSampleWindow_def)
qed

text \<open>An environment in which no statement fails, and in which a JSON document is the metadata.\<close>

definition plain_env :: "genome_metadata archive_env" where
  "plain_env = \<lparr>env_fails = \<lambda>_ _. False, env_dump = \<lambda>m. m, env_parse = Some\<rparr>"

definition plain_metadata :: genome_metadata where
  "plain_metadata = \<lparr>gm_name = ''g'', gm_fitness = 1, gm_robustFitness = 0, gm_robustEvalCount = 0,
     gm_robustFitnessSamples = [3, 1, 2], gm_generation = 0, gm_createdTimestamp = 5,
     gm_scenarioId = Scn_Clock, gm_notes = [], gm_organismType = Some Org_Duck, gm_brainKind = Some ''net'',
     gm_brainVariant = None, gm_trainingSessionId = Some (UUID (replicate 16 9)),
     gm_genomePoolId = Pool_DirtSim, gm_nesTileBrainCompatibility = None\<rparr>"

definition empty_db :: "'j genome_db" where
  "empty_db = \<lparr>db_tables = \<lparr>dt_genomes = [], dt_best = None\<rparr>, db_transaction = None\<rparr>"

definition id_a :: uuid where "id_a = UUID (replicate 16 1)"
definition id_b :: uuid where "id_b = UUID (replicate 16 2)"

lemma ids_ok: "uuid_wf id_a" "uuid_wf id_b" "id_a \<noteq> uuid_nil" "id_b \<noteq> uuid_nil" "id_a \<noteq> id_b"
proof -
  have "uuid_bytes id_a ! 0 = 1" "uuid_bytes id_b ! 0 = 2" "uuid_bytes uuid_nil ! 0 = 0"
    by (simp_all add: id_a_def id_b_def uuid_nil_def)
  then show "id_a \<noteq> uuid_nil" "id_b \<noteq> uuid_nil" "id_a \<noteq> id_b" by force+
  show "uuid_wf id_a" "uuid_wf id_b" by (simp_all add: uuid_wf_def id_a_def id_b_def)
qed

text \<open>A repository with one genome, marked as the best.\<close>

definition one_genome :: "genome_metadata repository" where
  "one_genome = markAsBest plain_env id_a
     (repo_store plain_env id_a \<lparr>weights = [1, 2]\<rparr> plain_metadata id_b (new_repository (Some empty_db)))"

lemma one_genome_reachable: "archive_reachable plain_env (Some empty_db) one_genome"
  unfolding one_genome_def
  by (rule reach_step [OF reach_step [OF reach_new step_store] step_markAsBest]) (simp_all add: ids_ok)

lemma one_genome_best: "rp_bestId one_genome = Some id_a"
  by (simp add: one_genome_def markAsBest_def repo_store_def new_repository_def db_calls Let_def ids_ok)

theorem archive_invariant_witness:
  "getBest one_genome = repo_get id_a one_genome \<and> repo_get id_a one_genome \<noteq> None"
  using archive_invariant [OF one_genome_reachable, of _ _ id_a] one_genome_best by blast

section \<open>The database follows the memory\<close>

definition row_for :: "'j archive_env \<Rightarrow> u32 genome \<Rightarrow> genome_metadata \<Rightarrow> string \<Rightarrow> 'j genome_row" where
  "row_for env g m h = \<lparr>row_weights = weights g, row_metadata_json = env_dump env m, row_content_hash = Some h\<rparr>"

definition rows_sync :: "'j archive_env \<Rightarrow> (string \<times> 'j genome_row) list \<Rightarrow> (uuid \<rightharpoonup> u32 genome) \<Rightarrow>
    (uuid \<rightharpoonup> genome_metadata) \<Rightarrow> bool" where
  "rows_sync env rows G M =
     (distinct (map fst rows) \<and>
      (\<forall>k row. map_of rows k = Some row \<longrightarrow>
         (\<exists>i g m h. k = uuid_toString i \<and> G i = Some g \<and> M i = Some m \<and> row = row_for env g m h \<and> h \<noteq> [])) \<and>
      (\<forall>i. G i \<noteq> None \<longrightarrow> map_of rows (uuid_toString i) \<noteq> None))"

definition best_sync :: "uuid option \<Rightarrow> string option \<Rightarrow> bool" where
  "best_sync best v = (case best of Some b \<Rightarrow> v = Some (uuid_toString b) | None \<Rightarrow> v = None \<or> v = Some [])"

definition in_sync :: "'j archive_env \<Rightarrow> 'j repository \<Rightarrow> bool" where
  "in_sync env r =
     (\<exists>db. rp_db r = Some db \<and> db_transaction db = None \<and>
        rows_sync env (dt_genomes (db_tables db)) (map_of (rp_genomes r)) (map_of (rp_metadata r)) \<and>
        best_sync (rp_bestId r) (dt_best (db_tables db)))"

lemma map_of_filter_key: "map_of (filter (\<lambda>r. fst r \<noteq> k) rows) = (map_of rows)(k := None)"
  by (induction rows) (auto simp: fun_eq_iff)

lemma map_of_replace:
  "map_of (filter (\<lambda>r. fst r \<noteq> k) rows @ [(k, row)]) = (map_of rows)(k \<mapsto> row)"
  by (auto simp: map_add_def map_of_filter_key fun_eq_iff split: option.split)

lemma distinct_filter_key: "distinct (map fst rows) \<Longrightarrow> distinct (map fst (filter (\<lambda>r. fst r \<noteq> k) rows))"
  by (induction rows) auto

lemma rows_sync_put:
  assumes "rows_sync env rows G M" "h \<noteq> []"
  shows "rows_sync env (filter (\<lambda>r. fst r \<noteq> uuid_toString i) rows @ [(uuid_toString i, row_for env g m h)])
    (G(i \<mapsto> g)) (M(i \<mapsto> m))"
  unfolding rows_sync_def map_of_replace
proof (intro conjI allI impI)
  show "distinct (map fst (filter (\<lambda>r. fst r \<noteq> uuid_toString i) rows @ [(uuid_toString i, row_for env g m h)]))"
    using assms(1) distinct_filter_key [of rows] by (auto simp: rows_sync_def)
next
  fix k row assume *: "((map_of rows)(uuid_toString i \<mapsto> row_for env g m h)) k = Some row"
  show "\<exists>i' g' m' h'. k = uuid_toString i' \<and> (G(i \<mapsto> g)) i' = Some g' \<and> (M(i \<mapsto> m)) i' = Some m' \<and>
      row = row_for env g' m' h' \<and> h' \<noteq> []"
  proof (cases "k = uuid_toString i")
    case True
    with * assms(2) show ?thesis by (intro exI [of _ i] exI [of _ g] exI [of _ m] exI [of _ h]) simp
  next
    case False
    with * have "map_of rows k = Some row" by simp
    then obtain i' g' m' h' where "k = uuid_toString i'" "G i' = Some g'" "M i' = Some m'"
      "row = row_for env g' m' h'" "h' \<noteq> []" using assms(1) unfolding rows_sync_def by blast
    moreover from this False have "i' \<noteq> i" by auto
    ultimately show ?thesis by (metis fun_upd_other)
  qed
next
  fix i' assume "(G(i \<mapsto> g)) i' \<noteq> None"
  then show "((map_of rows)(uuid_toString i \<mapsto> row_for env g m h)) (uuid_toString i') \<noteq> None"
    using assms(1) by (auto simp: rows_sync_def split: if_splits)
qed

lemma rows_sync_delete:
  assumes "rows_sync env rows G M" "uuid_wf i" "\<And>j. G j \<noteq> None \<Longrightarrow> uuid_wf j"
  shows "rows_sync env (filter (\<lambda>r. fst r \<noteq> uuid_toString i) rows) (G(i := None)) (M(i := None))"
  unfolding rows_sync_def map_of_filter_key
proof (intro conjI allI impI)
  show "distinct (map fst (filter (\<lambda>r. fst r \<noteq> uuid_toString i) rows))"
    using assms(1) distinct_filter_key [of rows] by (simp add: rows_sync_def)
next
  fix k row assume "((map_of rows)(uuid_toString i := None)) k = Some row"
  then have k: "map_of rows k = Some row" "k \<noteq> uuid_toString i" by (auto split: if_splits)
  then obtain i' g' m' h' where "k = uuid_toString i'" "G i' = Some g'" "M i' = Some m'"
    "row = row_for env g' m' h'" "h' \<noteq> []" using assms(1) unfolding rows_sync_def by blast
  moreover from this k have "i' \<noteq> i" by auto
  ultimately show "\<exists>i' g' m' h'. k = uuid_toString i' \<and> (G(i := None)) i' = Some g' \<and>
      (M(i := None)) i' = Some m' \<and> row = row_for env g' m' h' \<and> h' \<noteq> []"
    by (metis fun_upd_other)
next
  fix j assume "(G(i := None)) j \<noteq> None"
  then have j: "j \<noteq> i" "G j \<noteq> None" by (auto split: if_splits)
  then have "uuid_toString j \<noteq> uuid_toString i" using toString_inj [OF assms(3) [OF j(2)] assms(2)] by blast
  with assms(1) j(2) show "((map_of rows)(uuid_toString i := None)) (uuid_toString j) \<noteq> None"
    unfolding rows_sync_def by (metis fun_upd_other)
qed

lemma toString_nonempty: "uuid_wf u \<Longrightarrow> uuid_toString u \<noteq> []"
  using toString_shape(1) [of u] by auto

lemma toHexString_nonempty: "toHexString v \<noteq> []"
proof -
  have "digits_base 16 n \<noteq> []" for n by (subst digits_base.simps) simp
  then show ?thesis by (simp add: toHexString_def Let_def)
qed

lemma hash_nonempty: "computeContentHash g m \<noteq> []"
  unfolding computeContentHash_def Let_def by (rule toHexString_nonempty)

text \<open>The statements of an environment that never fails.\<close>

abbreviation never_fails :: "'j archive_env \<Rightarrow> bool" where
  "never_fails env \<equiv> \<forall>stmt db. \<not> env_fails env stmt db"

lemma exec_simps:
  assumes "never_fails env"
  shows "execDb env [Insert_or_replace_genome k row] db =
      on_genomes (\<lambda>rs. filter (\<lambda>r. fst r \<noteq> k) rs @ [(k, row)]) db"
    "execDb env [Delete_genome k] db = on_genomes (filter (\<lambda>r. fst r \<noteq> k)) db"
    "execDb env [Put_best_id v] db = on_best (Some v) db"
    "db_transaction db = None \<Longrightarrow>
      execDb env [Begin_transaction, Delete_all_genomes, Delete_best_id, Commit] db = on_best None (on_genomes (\<lambda>_. []) db)"
  using assms by (simp_all add: run_statement_def on_best_def on_genomes_def)

lemma on_simps [simp]:
  "dt_genomes (db_tables (on_genomes f db)) = f (dt_genomes (db_tables db))"
  "dt_best (db_tables (on_genomes f db)) = dt_best (db_tables db)"
  "db_transaction (on_genomes f db) = db_transaction db"
  "dt_genomes (db_tables (on_best v db)) = dt_genomes (db_tables db)"
  "dt_best (db_tables (on_best v db)) = v"
  "db_transaction (on_best v db) = db_transaction db"
  by (simp_all add: on_genomes_def on_best_def)

lemma in_sync_put:
  assumes "never_fails env" "in_sync env r" "h \<noteq> []" "rp_db r1 = rp_db r" "rp_bestId r1 = rp_bestId r"
    and "map_of (rp_genomes r1) = (map_of (rp_genomes r))(i \<mapsto> g)"
    and "map_of (rp_metadata r1) = (map_of (rp_metadata r))(i \<mapsto> m)"
  shows "in_sync env (persistGenome env i g m h r1)"
proof -
  obtain db where db: "rp_db r = Some db" "db_transaction db = None"
    "rows_sync env (dt_genomes (db_tables db)) (map_of (rp_genomes r)) (map_of (rp_metadata r))"
    "best_sync (rp_bestId r) (dt_best (db_tables db))" using assms(2) unfolding in_sync_def by blast
  show ?thesis
    unfolding in_sync_def persistGenome_def with_db_maps assms(5-7)
    using db assms(4) rows_sync_put [OF db(3) assms(3), of i g m]
    by (simp add: with_db_db exec_simps [OF assms(1)] row_for_def del: execDb.simps)
qed

lemma in_sync_remove:
  assumes "never_fails env" "in_sync env r" "repo_ok r" "uuid_wf i"
  shows "in_sync env (removeNoLock env i r)"
proof -
  obtain db where db: "rp_db r = Some db" "db_transaction db = None"
    "rows_sync env (dt_genomes (db_tables db)) (map_of (rp_genomes r)) (map_of (rp_metadata r))"
    "best_sync (rp_bestId r) (dt_best (db_tables db))" using assms(2) unfolding in_sync_def by blast
  have wf: "uuid_wf j" if "map_of (rp_genomes r) j \<noteq> None" for j
    using that maps_okD(1,6) [OF repo_okD [OF assms(3)], of j] by simp
  have "rp_db (removeNoLock env i r) = Some (execDb env [Delete_genome (uuid_toString i)]
      (if rp_bestId r = Some i then execDb env [Put_best_id []] db else db))"
    using db(1) by (auto simp: removeNoLock_def Let_def db_calls with_db_db simp del: execDb.simps split: option.split)
  then show ?thesis
    unfolding in_sync_def remove_maps
    using db rows_sync_delete [OF db(3) assms(4) wf]
    by (auto simp: exec_simps [OF assms(1)] best_sync_def simp del: execDb.simps split: option.splits)
qed

section \<open>Reopening a database gives the repository back\<close>

lemma store_sync:
  assumes "never_fails env" "in_sync env r"
  shows "in_sync env (repo_store env i genome m fresh r)"
  unfolding repo_store_def Let_def
  by (rule in_sync_put [OF assms hash_nonempty]) (simp_all add: update_conv' split: option.split)

lemma storeByHash_sync:
  assumes "never_fails env" "in_sync env r" "storeOrUpdateByHash env genome m preferred gens r = Some (res, r')"
  shows "in_sync env r'"
  using assms(3)
proof (cases rule: storeByHash_cases)
  case (update i mm)
  show ?thesis unfolding update(4)
    by (rule in_sync_put [OF assms(1,2) hash_nonempty]) (simp_all add: update_conv')
next
  case (insert i)
  show ?thesis unfolding insert(5)
    by (rule in_sync_put [OF assms(1,2) hash_nonempty]) (simp_all add: put_genome_def update_conv')
qed

lemma clear_sync:
  assumes "never_fails env" "in_sync env r" shows "in_sync env (repo_clear env r)"
  using assms unfolding in_sync_def
  by (auto simp: repo_clear_def clearDb_def with_db_db exec_simps rows_sync_def best_sync_def
      simp del: execDb.simps)

lemma markAsBest_sync:
  assumes "never_fails env" "in_sync env r" shows "in_sync env (markAsBest env i r)"
  using assms unfolding in_sync_def
  by (auto simp: markAsBest_def persistBestId_def with_db_db exec_simps best_sync_def simp del: execDb.simps)

text \<open>The write-through is an invariant as long as no statement fails.\<close>

interpretation sync_contract:
  archive_contract env "\<lambda>r. repo_ok r \<and> (never_fails env \<longrightarrow> in_sync env r)" for env
proof unfold_locales
  fix r r' :: "'a repository" and genome m preferred gens res
  assume "repo_ok r \<and> (never_fails env \<longrightarrow> in_sync env r)"
    "storeOrUpdateByHash env genome m preferred gens r = Some (res, r')"
    "\<forall>g \<in> set gens. uuid_wf g \<and> g \<noteq> uuid_nil" "\<forall>p. preferred = Some p \<longrightarrow> uuid_wf p"
  then show "repo_ok r' \<and> (never_fails env \<longrightarrow> in_sync env r')"
    using storeByHash_ok [of r env genome m preferred gens res r']
      storeByHash_sync [of env r genome m preferred gens res r'] by simp
qed (simp_all add: store_ok remove_ok clear_ok markAsBest_ok store_sync in_sync_remove clear_sync
    markAsBest_sync, elim conjE, rule listed_id_wf)

lemma new_in_sync: "in_sync env (new_repository (Some empty_db))"
  by (simp add: in_sync_def new_repository_def empty_db_def rows_sync_def best_sync_def)

lemma reachable_sync: "archive_reachable env (Some empty_db) r \<Longrightarrow> never_fails env \<Longrightarrow> in_sync env r"
  using sync_contract.reachable_keeps new_in_sync repo_ok_new by blast

text \<open>
  Loading the rows one after the other. \<open>G\<close> and \<open>M\<close> are the maps that the database was written
  from; the rows seen so far have been copied from them.
\<close>

definition loaded :: "(uuid \<rightharpoonup> 'a) \<Rightarrow> (string \<times> 'r) list \<Rightarrow> uuid \<rightharpoonup> 'a" where
  "loaded G rows i = (if uuid_wf i \<and> uuid_toString i \<in> fst ` set rows then G i else None)"

lemma loaded_snoc:
  assumes "uuid_wf i" shows "loaded G (rows @ [(uuid_toString i, row)]) = (loaded G rows)(i := G i)"
proof
  fix j
  show "loaded G (rows @ [(uuid_toString i, row)]) j = ((loaded G rows)(i := G i)) j"
    using toString_inj [of j i] assms by (auto simp: loaded_def)
qed

lemma loaded_all:
  assumes "\<And>i. G i \<noteq> None \<Longrightarrow> uuid_wf i \<and> uuid_toString i \<in> fst ` set rows"
  shows "loaded G rows = G"
proof
  fix i show "loaded G rows i = G i" using assms [of i] by (cases "G i") (auto simp: loaded_def)
qed

lemma parse_own_text: "uuid_wf i \<Longrightarrow> uuid_fromString (uuid_toString i) = Inr i"
  using parse_text_from [of "replicate 16 0" 0 "uuid_bytes i" "[]"] toString_shape [of i]
  by (simp add: uuid_fromString_def toString_text uuid_wf_def)

lemma load_row:
  assumes "repo_ok r" "uuid_wf i" "i \<noteq> uuid_nil" "meta_normal m" "h \<noteq> []"
    and "map_of (rp_genomes r) i = None" "env_parse env (env_dump env m) = Some m"
  shows "\<exists>r'. loadRow env r (uuid_toString i, row_for env g m h) = Inr r' \<and> repo_ok r' \<and> rp_db r' = rp_db r \<and>
    rp_bestId r' = rp_bestId r \<and> map_of (rp_genomes r') = (map_of (rp_genomes r))(i \<mapsto> g) \<and>
    map_of (rp_metadata r') = (map_of (rp_metadata r))(i \<mapsto> m)"
proof -
  note u = parse_own_text [OF assms(2)]
  note m = maps_okD [OF repo_okD [OF assms(1)]]
  have g: "\<lparr>weights = weights g\<rparr> = g" by (cases g) simp
  define r1 where "r1 = r\<lparr>rp_genomes := AList.update i g (rp_genomes r), rp_metadata := AList.update i m (rp_metadata r)\<rparr>"
  have r1: "map_of (rp_genomes r1) = (map_of (rp_genomes r))(i \<mapsto> g)"
    "map_of (rp_metadata r1) = (map_of (rp_metadata r))(i \<mapsto> m)" "rp_hashToId r1 = rp_hashToId r"
    "rp_idToHash r1 = rp_idToHash r" "rp_bestId r1 = rp_bestId r" "rp_db r1 = rp_db r"
    by (simp_all add: r1_def update_conv')
  have d: "distinct (map fst (rp_genomes r1))" "distinct (map fst (rp_metadata r1))"
    using assms(1) by (simp_all add: r1_def repo_ok_def distinct_update)
  have noH: "map_of (rp_hashToId r) h' \<noteq> Some i" for h' using m(1,8) assms(6) by metis
  have row: "loadRow env r (uuid_toString i, row_for env g m h) =
    (case map_of (rp_hashToId r1) h of
       None \<Rightarrow> Inr (r1\<lparr>rp_hashToId := AList.update h i (rp_hashToId r1), rp_idToHash := AList.update i h (rp_idToHash r1)\<rparr>)
     | Some e \<Rightarrow>
         if (case map_of (rp_metadata r1) e of None \<Rightarrow> True
             | Some existing \<Rightarrow> effectiveRobustFitness m > effectiveRobustFitness existing)
         then Inr (r1\<lparr>rp_idToHash := AList.update i h (AList.delete e (rp_idToHash r1)),
                      rp_hashToId := AList.update h i (rp_hashToId r1)\<rparr>)
         else Inr r1)"
    using assms(3,5,7) normalize_id [OF assms(4)]
    by (simp add: loadRow_def u row_for_def Let_def r1_def g cong del: option.case_cong_weak if_weak_cong)
  have ok1: "maps_ok ((map_of (rp_genomes r))(i \<mapsto> g)) (map_of (rp_hashToId r)) (map_of (rp_idToHash r))
      ((map_of (rp_metadata r))(i \<mapsto> m)) (rp_bestId r)"
    by (rule maps_okI) (use m assms(2,3,4) in \<open>auto split: if_splits\<close>)
  show ?thesis
  proof (cases "map_of (rp_hashToId r) h")
    case None
    have "repo_ok (r1\<lparr>rp_hashToId := AList.update h i (rp_hashToId r1), rp_idToHash := AList.update i h (rp_idToHash r1)\<rparr>)"
      using maps_ok_put [OF ok1 assms(4,2,3), of h g] noH d by (simp add: repo_ok_def r1 update_conv')
    with None show ?thesis unfolding row by (simp add: r1)
  next
    case (Some e)
    have "maps_ok ((map_of (rp_genomes r))(i \<mapsto> g)) ((map_of (rp_hashToId r))(h \<mapsto> i))
        ((map_of (rp_idToHash r))(e := None, i \<mapsto> h)) ((map_of (rp_metadata r))(i \<mapsto> m)) (rp_bestId r)"
    proof (rule maps_okI)
      fix k j assume H: "((map_of (rp_hashToId r))(h \<mapsto> i)) k = Some j"
      show "((map_of (rp_idToHash r))(e := None, i \<mapsto> h)) j = Some k"
      proof (cases "k = h")
        case False
        with H have H': "map_of (rp_hashToId r) k = Some j" by simp
        then have "map_of (rp_idToHash r) j = Some k" "j \<noteq> i" using m(3) noH by auto
        moreover have "j \<noteq> e" using m(3) [OF Some] m(3) [OF H'] False by auto
        ultimately show ?thesis by simp
      qed (use H in simp)
    qed (use maps_okD [OF ok1] in \<open>auto split: if_splits\<close>)
    then have "repo_ok (r1\<lparr>rp_idToHash := AList.update i h (AList.delete e (rp_idToHash r1)),
        rp_hashToId := AList.update h i (rp_hashToId r1)\<rparr>)"
      using d by (simp add: repo_ok_def r1 update_conv' delete_conv')
    moreover have "repo_ok r1" using ok1 d by (simp add: repo_ok_def r1)
    ultimately show ?thesis unfolding row using Some by (auto simp: r1)
  qed
qed

lemma load_rows:
  assumes "distinct (map fst rows)"
    and "\<forall>(k, row) \<in> set rows. \<exists>i g m h. k = uuid_toString i \<and> G i = Some g \<and> M i = Some m \<and>
      row = row_for env g m h \<and> h \<noteq> [] \<and> uuid_wf i \<and> i \<noteq> uuid_nil \<and> meta_normal m \<and>
      env_parse env (env_dump env m) = Some m"
  shows "\<exists>r. loadRows env rows (new_repository db) = Inr r \<and> repo_ok r \<and> rp_db r = db \<and> rp_bestId r = None \<and>
    map_of (rp_genomes r) = loaded G rows \<and> map_of (rp_metadata r) = loaded M rows"
  using assms
proof (induction rows rule: rev_induct)
  case Nil
  show ?case by (auto simp: new_repository_def repo_ok_def maps_ok_def loaded_def)
next
  case (snoc x rows)
  from snoc obtain r where r: "loadRows env rows (new_repository db) = Inr r" "repo_ok r" "rp_db r = db"
    "rp_bestId r = None" "map_of (rp_genomes r) = loaded G rows" "map_of (rp_metadata r) = loaded M rows"
    by auto
  obtain i g m h where x: "x = (uuid_toString i, row_for env g m h)" "G i = Some g" "M i = Some m" "h \<noteq> []"
    "uuid_wf i" "i \<noteq> uuid_nil" "meta_normal m" "env_parse env (env_dump env m) = Some m"
    using snoc.prems(2) by (cases x) auto
  have "map_of (rp_genomes r) i = None" using snoc.prems(1) x(1) by (auto simp: r(5) loaded_def)
  from load_row [OF r(2) x(5-7,4) this x(8), of g] obtain r' where
    r': "loadRow env r x = Inr r'" "repo_ok r'" "rp_db r' = rp_db r" "rp_bestId r' = rp_bestId r"
    "map_of (rp_genomes r') = (map_of (rp_genomes r))(i \<mapsto> g)"
    "map_of (rp_metadata r') = (map_of (rp_metadata r))(i \<mapsto> m)" unfolding x(1) by blast
  have app: "loadRows env (rows @ [x]) r0 = (case loadRows env rows r0 of Inl e \<Rightarrow> Inl e | Inr r \<Rightarrow> loadRow env r x)"
    for r0 by (induction rows arbitrary: r0) (auto split: sum.split)
  have "loadRows env (rows @ [x]) (new_repository db) = Inr r'" by (simp add: app r(1) r'(1))
  moreover have "map_of (rp_genomes r') = loaded G (rows @ [x])" "map_of (rp_metadata r') = loaded M (rows @ [x])"
    unfolding x(1) loaded_snoc [OF x(5)] using r'(5,6) r(5,6) x(2,3) by simp_all
  ultimately show ?case using r'(2-4) r(3,4) by auto
qed



section \<open>Pruning keeps the fittest\<close>

text \<open>The entries of one bucket that a pruning removes, lowest rank first.\<close>

definition victims :: "'j repository \<Rightarrow> nat \<Rightarrow> uuid list \<Rightarrow> uuid list" where
  "victims r k ids =
     (if length ids \<le> k then []
      else take (length ids - k) (filter (\<lambda>i. rp_bestId r \<noteq> Some i) (sort_key (pruneRank r) ids)))"

abbreviation remove_all :: "'j archive_env \<Rightarrow> uuid list \<Rightarrow> 'j repository \<Rightarrow> 'j repository" where
  "remove_all env ids r \<equiv> foldl (\<lambda>r i. removeNoLock env i r) r ids"

lemma remove_all_maps:
  assumes "\<forall>i \<in> set ids. rp_bestId r \<noteq> Some i"
  shows "map_of (rp_metadata (remove_all env ids r)) = (\<lambda>i. if i \<in> set ids then None else map_of (rp_metadata r) i)"
    "rp_bestId (remove_all env ids r) = rp_bestId r"
  using assms
proof (induction ids arbitrary: r)
  case (Cons i ids)
  {
    case 1
    with Cons.IH(1) [of "removeNoLock env i r"] show ?case by (auto simp: remove_maps fun_eq_iff)
  next
    case 2
    with Cons.IH(2) [of "removeNoLock env i r"] show ?case by (simp add: remove_maps)
  }
qed simp_all

lemma prune_steps_eq:
  "foldl (pruneStep env t) (r, c) xs =
     (let ys = take (t - c) (filter (\<lambda>i. rp_bestId r \<noteq> Some i) xs) in (remove_all env ys r, c + length ys))"
proof (induction xs arbitrary: r c)
  case (Cons x xs)
  show ?case
  proof (cases "t \<le> c \<or> rp_bestId r = Some x")
    case True
    then show ?thesis using Cons by (auto simp: pruneStep_def Let_def)
  next
    case False
    then have "rp_bestId (removeNoLock env x r) = rp_bestId r" "t - c = Suc (t - Suc c)"
      by (simp add: remove_maps, arith)
    then show ?thesis using False Cons [of "removeNoLock env x r" "c + 1"]
      by (simp add: pruneStep_def Let_def)
  qed
qed simp

lemma pruneBucket_eq:
  "pruneBucket env k (r, n) b = (remove_all env (victims r k (snd b)) r, n + length (victims r k (snd b)))"
  by (simp add: pruneBucket_def victims_def prune_steps_eq Let_def)

lemma victims_mem: "i \<in> set (victims r k ids) \<Longrightarrow> i \<in> set ids \<and> rp_bestId r \<noteq> Some i"
  by (auto simp: victims_def dest: in_set_takeD split: if_splits)

lemma insort_key_cong:
  "\<forall>y \<in> insert x (set xs). f y = g y \<Longrightarrow> insort_key f x xs = insort_key g x xs"
  by (induction xs) auto

lemma sort_key_cong_set: "\<forall>x \<in> set xs. f x = g x \<Longrightarrow> sort_key f xs = sort_key g xs"
proof (induction xs)
  case (Cons x xs)
  then show ?case using insort_key_cong [of x "sort_key g xs" f g] by simp
qed simp

lemma victims_cong:
  assumes "rp_bestId r = rp_bestId r'" "\<forall>i \<in> set ids. map_of (rp_metadata r) i = map_of (rp_metadata r') i"
  shows "victims r k ids = victims r' k ids"
proof -
  have "\<forall>i \<in> set ids. pruneRank r i = pruneRank r' i" using assms(2) by (simp add: pruneRank_def)
  then have "sort_key (pruneRank r) ids = sort_key (pruneRank r') ids" by (rule sort_key_cong_set)
  then show ?thesis unfolding victims_def assms(1) by simp
qed

text \<open>The buckets are disjoint, so each is pruned as if it were alone.\<close>

lemma prune_fold:
  fixes r0 :: "'j repository" and k :: nat and bs :: "(bucket_key \<times> uuid list) list"
  assumes "rp_bestId r = rp_bestId r0" "distinct (map fst bs)"
    and "\<forall>b \<in> set bs. \<forall>i \<in> set (snd b). map_of (rp_metadata r) i = map_of (rp_metadata r0) i"
    and "\<forall>b \<in> set bs. \<forall>b' \<in> set bs. fst b \<noteq> fst b' \<longrightarrow> set (snd b) \<inter> set (snd b') = {}"
  defines "V \<equiv> concat (map (\<lambda>b. victims r0 k (snd b)) bs)"
  shows "\<exists>r'. foldl (pruneBucket env k) (r, n) bs = (r', n + length V) \<and> rp_bestId r' = rp_bestId r0 \<and>
    map_of (rp_metadata r') = (\<lambda>i. if i \<in> set V then None else map_of (rp_metadata r) i)"
  using assms(1-4) unfolding V_def
proof (induction bs arbitrary: r n)
  case (Cons b bs)
  define v where "v = victims r0 k (snd b)"
  have v: "victims r k (snd b) = v" unfolding v_def using Cons.prems(1,3) by (intro victims_cong) auto
  have nb: "\<forall>i \<in> set v. rp_bestId r \<noteq> Some i" using victims_mem [of _ r k "snd b"] v by auto
  note m = remove_all_maps [OF nb, of env]
  have "map_of (rp_metadata (remove_all env v r)) i = map_of (rp_metadata r0) i"
    if "b' \<in> set bs" "i \<in> set (snd b')" for b' i
  proof -
    have "fst b \<noteq> fst b'" using Cons.prems(2) that(1) by force
    then have "i \<notin> set (snd b)" using Cons.prems(4) that by auto
    then have "i \<notin> set v" using victims_mem unfolding v_def by blast
    then show ?thesis using Cons.prems(3) that by (simp add: m)
  qed
  then have "\<exists>r'. foldl (pruneBucket env k) (remove_all env v r, n + length v) bs =
      (r', n + length v + length (concat (map (\<lambda>b. victims r0 k (snd b)) bs))) \<and> rp_bestId r' = rp_bestId r0 \<and>
    map_of (rp_metadata r') = (\<lambda>i. if i \<in> set (concat (map (\<lambda>b. victims r0 k (snd b)) bs)) then None
      else map_of (rp_metadata (remove_all env v r)) i)"
    using Cons.prems by (intro Cons.IH) (simp_all add: m)
  then show ?case by (auto simp: pruneBucket_eq v m fun_eq_iff v_def [symmetric] add.assoc)
qed simp

lemma distinct_at_most_once: "distinct xs \<Longrightarrow> length (filter (\<lambda>i. b = i) xs) \<le> 1"
proof (induction xs)
  case (Cons x xs)
  then have "b = x \<Longrightarrow> filter (\<lambda>i. b = i) xs = []" by (auto simp: filter_empty_conv)
  with Cons show ?case by auto
qed simp

lemma victims_length:
  assumes "distinct ids" "0 < k"
  shows "length (victims r k ids) = length ids - min k (length ids)"
proof (cases "length ids \<le> k")
  case False
  let ?s = "sort_key (pruneRank r) ids"
  have "length (filter (\<lambda>i. rp_bestId r = Some i) ?s) \<le> 1"
  proof (cases "rp_bestId r")
    case (Some b)
    then have "filter (\<lambda>i. rp_bestId r = Some i) ?s = filter (\<lambda>i. b = i) ?s" by simp
    moreover have "length (filter (\<lambda>i. b = i) ?s) \<le> 1"
      by (rule distinct_at_most_once) (simp add: assms(1))
    ultimately show ?thesis by simp
  qed simp
  then have "length ids - 1 \<le> length (filter (\<lambda>i. rp_bestId r \<noteq> Some i) ?s)"
    using sum_length_filter_compl [of "\<lambda>i. rp_bestId r = Some i" ?s] by simp
  then show ?thesis using False assms(2) by (simp add: victims_def)
qed (simp add: victims_def)

lemma victims_distinct: "distinct ids \<Longrightarrow> distinct (victims r k ids)"
  by (simp add: victims_def)

text \<open>Nobody who is kept ranks below one who is removed, the best genome aside.\<close>

lemma victims_rank:
  assumes "i \<in> set (victims r k ids)" "j \<in> set ids" "j \<notin> set (victims r k ids)" "rp_bestId r \<noteq> Some j"
  shows "pruneRank r i \<le> pruneRank r j"
proof -
  let ?xs = "filter (\<lambda>i. rp_bestId r \<noteq> Some i) (sort_key (pruneRank r) ids)"
  let ?n = "length ids - k"
  have v: "victims r k ids = take ?n ?xs" using assms(1) by (auto simp: victims_def split: if_splits)
  have "j \<in> set ?xs" using assms(2,4) by simp
  then have "j \<in> set (drop ?n ?xs)" using assms(3) v by (metis Un_iff append_take_drop_id set_append)
  moreover have "sorted (map (pruneRank r) ?xs)"
    by (rule sorted_filter) simp
  then have "sorted (map (pruneRank r) (take ?n ?xs @ drop ?n ?xs))" by simp
  ultimately show ?thesis using assms(1) unfolding v map_append sorted_append by auto
qed

text \<open>What a pruning leaves of the metadata.\<close>

definition pruned_ids :: "'j repository \<Rightarrow> nat \<Rightarrow> uuid list" where
  "pruned_ids r k = concat (map (\<lambda>b. victims r k (snd b)) (managedBuckets r))"

lemma prune_result:
  assumes "repo_ok r" "0 < k"
  shows "\<exists>r'. pruneManagedByFitness env k r = (length (pruned_ids r k), r') \<and> rp_bestId r' = rp_bestId r \<and>
    map_of (rp_metadata r') = (\<lambda>i. if i \<in> set (pruned_ids r k) then None else map_of (rp_metadata r) i)"
proof -
  have d: "distinct (map fst (rp_metadata r))" using assms(1) by (simp add: repo_ok_def)
  have ids: "set (snd b) = {i. \<exists>m. map_of (rp_metadata r) i = Some m \<and> in_bucket (fst b) m}"
    if "b \<in> set (managedBuckets r)" for b
    using managedBuckets_entry [of "fst b" "snd b" r] that by (simp add: bucket_ids_set [OF d])
  have "\<forall>b \<in> set (managedBuckets r). \<forall>b' \<in> set (managedBuckets r). fst b \<noteq> fst b' \<longrightarrow> set (snd b) \<inter> set (snd b') = {}"
    by (auto simp: ids in_bucket_def)
  from prune_fold [OF refl managedBuckets_distinct _ this, where env = env and n = 0 and k = k] obtain r' where
    "foldl (pruneBucket env k) (r, 0) (managedBuckets r) = (r', 0 + length (pruned_ids r k))"
    "rp_bestId r' = rp_bestId r"
    "map_of (rp_metadata r') = (\<lambda>i. if i \<in> set (pruned_ids r k) then None else map_of (rp_metadata r) i)"
    unfolding pruned_ids_def by blast
  then show ?thesis using assms(2) by (simp add: pruneManagedByFitness_def)
qed

lemma pruned_ids_mem:
  assumes "repo_ok r" "map_of (rp_metadata r) i = Some m"
  shows "i \<in> set (pruned_ids r k) \<longleftrightarrow>
    gm_trainingSessionId m \<noteq> None \<and> i \<in> set (victims r k (bucket_ids r (bucketKey m)))"
proof -
  have d: "distinct (map fst (rp_metadata r))" using assms(1) by (simp add: repo_ok_def)
  have key: "key = bucketKey m \<and> gm_trainingSessionId m \<noteq> None" if "i \<in> set (bucket_ids r key)" for key
    using that assms(2) bucket_ids_mem [OF d] by (auto simp: in_bucket_def)
  have entry: "(key, bucket_ids r key) \<in> set (managedBuckets r)" if "bucket_ids r key \<noteq> []" for key
    using managedBuckets_map [of r key] that by (auto dest: map_of_SomeD)
  have "i \<in> set (pruned_ids r k) \<longleftrightarrow> (\<exists>key. i \<in> set (victims r k (bucket_ids r key)))"
  proof
    assume "i \<in> set (pruned_ids r k)"
    then obtain key ids where "(key, ids) \<in> set (managedBuckets r)" "i \<in> set (victims r k ids)"
      by (auto simp: pruned_ids_def)
    then show "\<exists>key. i \<in> set (victims r k (bucket_ids r key))" using managedBuckets_entry by metis
  next
    assume "\<exists>key. i \<in> set (victims r k (bucket_ids r key))"
    then obtain key where v: "i \<in> set (victims r k (bucket_ids r key))" by blast
    then have "bucket_ids r key \<noteq> []" using victims_mem by force
    from entry [OF this] v show "i \<in> set (pruned_ids r k)" by (force simp: pruned_ids_def)
  qed
  then show ?thesis using key victims_mem by blast
qed

lemma pruned_bucket_size:
  assumes "repo_ok r" "0 < k"
  shows "card {i. \<exists>m. map_of (rp_metadata r) i = Some m \<and> in_bucket key m \<and> i \<notin> set (pruned_ids r k)} =
    min k (card {i. \<exists>m. map_of (rp_metadata r) i = Some m \<and> in_bucket key m})"
proof -
  have d: "distinct (map fst (rp_metadata r))" using assms(1) by (simp add: repo_ok_def)
  let ?ids = "bucket_ids r key"
  have all: "{i. \<exists>m. map_of (rp_metadata r) i = Some m \<and> in_bucket key m} = set ?ids"
    by (simp add: bucket_ids_set [OF d])
  have "{i. \<exists>m. map_of (rp_metadata r) i = Some m \<and> in_bucket key m \<and> i \<notin> set (pruned_ids r k)} =
      set ?ids - set (victims r k ?ids)"
  proof (rule set_eqI)
    fix i
    show "i \<in> {i. \<exists>m. map_of (rp_metadata r) i = Some m \<and> in_bucket key m \<and> i \<notin> set (pruned_ids r k)} \<longleftrightarrow>
        i \<in> set ?ids - set (victims r k ?ids)"
      using pruned_ids_mem [OF assms(1), of i _ k]
      by (cases "map_of (rp_metadata r) i") (auto simp: bucket_ids_set [OF d] in_bucket_def)
  qed
  moreover have "card (set ?ids - set (victims r k ?ids)) = length ?ids - length (victims r k ?ids)"
  proof -
    have "set (victims r k ?ids) \<subseteq> set ?ids" using victims_mem by blast
    moreover have "card (set ?ids) = length ?ids"
      by (rule distinct_card [OF bucket_ids_distinct [OF d]])
    moreover have "card (set (victims r k ?ids)) = length (victims r k ?ids)"
      by (rule distinct_card [OF victims_distinct [OF bucket_ids_distinct [OF d]]])
    ultimately show ?thesis by (simp add: card_Diff_subset)
  qed
  moreover have "card (set ?ids) = length ?ids" using bucket_ids_distinct [OF d] by (rule distinct_card)
  ultimately show ?thesis
    by (simp add: all victims_length [OF bucket_ids_distinct [OF d] assms(2)])
qed




section \<open>Three behaviours that the code does not mean to have\<close>

text \<open>
  Content that is stored under two identifiers. The second \<open>store\<close> takes over the hash, so removing
  the second genome removes the hash although the first still holds that content: the next
  \<open>storeOrUpdateByHash\<close> of the content does not find it and inserts a duplicate.
\<close>

lemma duplicate_after_remove:
  fixes env i j g m f1 f2 r n r'
  assumes "i \<noteq> uuid_nil" "j \<noteq> uuid_nil" "i \<noteq> j" "n \<noteq> uuid_nil" "\<not> repo_exists n r'"
  defines "h \<equiv> computeContentHash g (normalizeRobustMetadata m)"
    and "r2 \<equiv> repo_store env j g m f2 (repo_store env i g m f1 r)"
  assumes "r' = removeNoLock env j r2"
  shows "repo_get i r' = Some g \<and> map_of (rp_idToHash r') i = Some h \<and>
    (\<exists>r''. storeOrUpdateByHash env g m (Some n) [] r' =
       Some (\<lparr>sr_id = n, sr_inserted = True, sr_deduplicated = False\<rparr>, r''))"
proof -
  have two: "map_of (rp_genomes r2) i = Some g" "map_of (rp_idToHash r2) i = Some h"
    "map_of (rp_hashToId r2) h = Some j" "map_of (rp_idToHash r2) j = Some h"
    using assms(1-3) by (auto simp: r2_def h_def repo_store_def Let_def db_calls update_conv' split: option.split)
  have "map_of (rp_hashToId r') h = None"
    using two(3,4) by (simp add: assms(8) remove_hashes)
  moreover have "map_of (rp_genomes r') i = Some g" "map_of (rp_idToHash r') i = Some h"
    using two(1,2) assms(3) by (simp_all add: assms(8) remove_maps)
  ultimately show ?thesis using assms(4,5)
    by (simp add: repo_get_def repo_exists_def storeOrUpdateByHash_def Let_def h_def [symmetric]
        pickUnused.simps)
qed

text \<open>
  A row whose identifier is not the text of a UUID. The load means to skip invalid identifiers, but
  it compares with nil after \<open>fromString\<close> has thrown: the constructor fails, and one such row makes
  the whole archive unreadable.
\<close>

lemma malformed_row_aborts:
  assumes "row \<in> set (dt_genomes (db_tables db))" "uuid_fromString (fst row) = Inl e"
  shows "\<exists>e. open_repository env db = Inl e"
proof -
  have "\<exists>e. loadRows env rows r = Inl e" if "row \<in> set rows" for rows r
    using that
  proof (induction rows arbitrary: r)
    case (Cons x xs)
    then show ?case
      using assms(2) by (cases "loadRow env r x") (auto simp: loadRow_def)
  qed simp
  from this [OF assms(1)] obtain e where "loadRows env (dt_genomes (db_tables db)) (new_repository (Some db)) = Inl e"
    by blast
  then show ?thesis by (simp add: open_repository_def)
qed

text \<open>
  A \<open>clear\<close> that fails between \<open>BEGIN TRANSACTION\<close> and \<open>COMMIT\<close> is only logged, and nothing rolls
  the transaction back. It stays open for the life of the repository: a second \<open>clear\<close> already fails
  at its \<open>BEGIN\<close>, every later operation writes into the open transaction, and closing the database
  returns to the tables before the failed \<open>clear\<close>, whatever was stored since.
\<close>

definition in_transaction :: "'j db_tables \<Rightarrow> 'j repository \<Rightarrow> bool" where
  "in_transaction saved r = (\<exists>db. rp_db r = Some db \<and> db_transaction db = Some saved)"

lemma execDb_in_transaction:
  assumes "db_transaction db = Some saved" "Commit \<in> set stmts \<longrightarrow> hd stmts = Begin_transaction"
  shows "db_transaction (execDb env stmts db) = Some saved"
proof (cases "Commit \<in> set stmts")
  case True
  then obtain rest where "stmts = Begin_transaction # rest" using assms(2) by (cases stmts) auto
  then show ?thesis using assms(1) by (simp add: run_statement_def)
next
  case False
  then show ?thesis using assms(1)
  proof (induction stmts arbitrary: db)
    case (Cons stmt stmts)
    then show ?case
      by (cases stmt) (simp_all add: run_statement_def on_genomes_def on_best_def)
  qed simp
qed

lemma in_transaction_with_db:
  "in_transaction saved r \<Longrightarrow> Commit \<in> set stmts \<longrightarrow> hd stmts = Begin_transaction \<Longrightarrow>
   in_transaction saved (with_db env stmts r)"
  by (auto simp: in_transaction_def with_db_db execDb_in_transaction)

lemma in_transaction_updates [simp]:
  "in_transaction saved (r\<lparr>rp_genomes := g\<rparr>) = in_transaction saved r"
  "in_transaction saved (r\<lparr>rp_metadata := m\<rparr>) = in_transaction saved r"
  "in_transaction saved (r\<lparr>rp_hashToId := h\<rparr>) = in_transaction saved r"
  "in_transaction saved (r\<lparr>rp_idToHash := d\<rparr>) = in_transaction saved r"
  "in_transaction saved (r\<lparr>rp_bestId := b\<rparr>) = in_transaction saved r"
  by (simp_all add: in_transaction_def)

lemma in_transaction_remove: "in_transaction saved r \<Longrightarrow> in_transaction saved (removeNoLock env i r)"
  unfolding removeNoLock_def Let_def db_calls
  by (rule in_transaction_with_db) (auto intro!: in_transaction_with_db split: option.split)

lemma in_transaction_others:
  assumes "in_transaction saved r"
  shows "in_transaction saved (repo_store env i genome m fresh r)" "in_transaction saved (repo_clear env r)"
    "in_transaction saved (markAsBest env i r)"
  unfolding repo_store_def repo_clear_def Let_def db_calls
    by (rule in_transaction_with_db; use assms in \<open>simp split: option.split\<close>)+
      (use assms in \<open>simp add: markAsBest_def db_calls in_transaction_with_db\<close>)

lemma in_transaction_storeByHash:
  assumes "storeOrUpdateByHash env genome m preferred gens r = Some (res, r')" "in_transaction saved r"
  shows "in_transaction saved r'"
  using assms(1)
proof (cases rule: storeByHash_cases)
  case (update i mm)
  show ?thesis unfolding update(4) db_calls by (rule in_transaction_with_db) (simp_all add: assms(2))
next
  case (insert i)
  show ?thesis unfolding insert(5) db_calls put_genome_def by (rule in_transaction_with_db) (simp_all add: assms(2))
qed

interpretation transaction_contract:
  archive_contract env "\<lambda>r. repo_ok r \<and> in_transaction saved r" for env saved
proof unfold_locales
  fix r r' :: "'a repository" and genome m preferred gens res
  assume "repo_ok r \<and> in_transaction saved r"
    "storeOrUpdateByHash env genome m preferred gens r = Some (res, r')"
    "\<forall>g \<in> set gens. uuid_wf g \<and> g \<noteq> uuid_nil" "\<forall>p. preferred = Some p \<longrightarrow> uuid_wf p"
  then show "repo_ok r' \<and> in_transaction saved r'"
    using storeByHash_ok [of r env genome m preferred gens res r']
      in_transaction_storeByHash [of env genome m preferred gens r res r' saved] by simp
qed (simp_all add: store_ok remove_ok clear_ok markAsBest_ok in_transaction_remove in_transaction_others,
    elim conjE, rule listed_id_wf)

lemma failed_clear_loses_stores:
  assumes "rp_db r = Some db" "db_transaction db = None"
    and fails: "\<not> env_fails env Begin_transaction db" "\<And>d. env_fails env Delete_all_genomes d"
    and steps: "(archive_step env)\<^sup>*\<^sup>* (repo_clear env r) r'"
  shows "\<exists>db'. rp_db r' = Some db' \<and> db_tables (closed_db db') = db_tables db"
proof -
  have "in_transaction (db_tables db) (repo_clear env r)"
    using assms(1,2) fails by (simp add: in_transaction_def repo_clear_def db_calls with_db_db run_statement_def)
  with transaction_contract.steps_keep [OF steps, of "db_tables db"] clear_ok [of env r]
  have "in_transaction (db_tables db) r'" by blast
  then show ?thesis
    by (auto simp: in_transaction_def closed_db_def)
qed

end
