(* ===== verification/NesTiles.thy ===== *)
theory NesTiles
  imports Prelude
begin

text \<open>
  core/scenarios/nes/NesPpuSnapshot.h and NesTileFrame.{h,cpp}: the picture processor's memory, and
  the frame of background tiles that is read from it, with a hash of every tile's pattern. Pixel and
  tile coordinates, which the code keeps in 16 bits and adds as \<open>int\<close>, are natural numbers: no sum
  leaves 16 bits. A read outside an array is \<open>None\<close>. The timers are left out.
\<close>

unbundle bit_operations_syntax

section \<open>The snapshot and its name tables\<close>

record ppu_snapshot =
  pp_frameId :: u64
  pp_v :: u16
  pp_fineX :: u8
  pp_mirror :: u8
  pp_ppuCtrl :: u8
  pp_ppuMask :: u8
  pp_chr :: "u8 list"
  pp_oam :: "u8 list"
  pp_vram :: "u8 list"

definition ChrBytes :: nat where "ChrBytes = 8192"
definition OamBytes :: nat where "OamBytes = 256"
definition VramBytes :: nat where "VramBytes = 2048"

definition snapshot_wf :: "ppu_snapshot \<Rightarrow> bool" where
  "snapshot_wf s = (length (pp_chr s) = ChrBytes \<and> length (pp_oam s) = OamBytes \<and> length (pp_vram s) = VramBytes)"

definition kFullFrameHeightPixels :: u16 where "kFullFrameHeightPixels = 240"
definition kFullFrameWidthPixels :: u16 where "kFullFrameWidthPixels = 256"
definition kPatternBytesPerTile :: nat where "kPatternBytesPerTile = 16"
definition kTileSizePixels :: nat where "kTileSizePixels = 8"
definition TopCropPixels :: nat where "TopCropPixels = 8"
definition VisibleHeightPixels :: nat where "VisibleHeightPixels = 224"
definition VisibleTileColumns :: nat where "VisibleTileColumns = 32"
definition VisibleTileRows :: nat where "VisibleTileRows = 28"
definition VisibleWidthPixels :: nat where "VisibleWidthPixels = 256"

lemmas tile_consts = ChrBytes_def OamBytes_def VramBytes_def kPatternBytesPerTile_def kTileSizePixels_def
  TopCropPixels_def VisibleHeightPixels_def VisibleTileColumns_def VisibleTileRows_def VisibleWidthPixels_def

definition read_at :: "'a list \<Rightarrow> nat \<Rightarrow> 'a option" where
  "read_at xs i = (if i < length xs then Some (xs ! i) else None)"

definition mirroredNametableOffset :: "nat \<Rightarrow> u8 \<Rightarrow> nat" where
  "mirroredNametableOffset logicalOffset mirror =
     (if mirror = 0 then logicalOffset mod 1024
      else if mirror = 1 then logicalOffset mod 1024 + 1024
      else if mirror = 2 then logicalOffset AND 2047
      else if mirror = 3 then (logicalOffset div 2 AND 1024) OR (logicalOffset mod 1024)
      else logicalOffset AND 2047)"

definition readNametableTileIdAtWorldPixel ::
    "ppu_snapshot \<Rightarrow> nat \<Rightarrow> nat \<Rightarrow> nat \<Rightarrow> nat \<Rightarrow> u8 option" where
  "readNametableTileIdAtWorldPixel s scrollX scrollY x y =
     (let worldX = (scrollX + x) mod 512;
          worldY = (scrollY + y) mod 480;
          tileX = worldX div kTileSizePixels;
          tileY = worldY div kTileSizePixels;
          nametableX = tileX div 32 AND 1;
          nametableY = tileY div 30 AND 1;
          localTileX = tileX mod 32;
          localTileY = tileY mod 30;
          logicalOffset = nametableY * 0x800 + nametableX * 0x400 + localTileY * 32 + localTileX
      in read_at (pp_vram s) (mirroredNametableOffset logicalOffset (pp_mirror s)))"

section \<open>Patterns\<close>

definition tilePatternBaseOffset :: "ppu_snapshot \<Rightarrow> u8 \<Rightarrow> nat" where
  "tilePatternBaseOffset s tileId =
     (if pp_ppuCtrl s AND 0x10 \<noteq> 0 then 0x1000 else 0) + unat tileId * kPatternBytesPerTile"

definition tilePatternHash :: "ppu_snapshot \<Rightarrow> u8 \<Rightarrow> u64 option" where
  "tilePatternHash s tileId =
     (let base = tilePatternBaseOffset s tileId
      in foldl (\<lambda>acc i. do {
            hash \<leftarrow> acc;
            b \<leftarrow> read_at (pp_chr s) (base + i);
            Some ((hash XOR ucast b) * 1099511628211)
          }) (Some 14695981039346656037) [0..<kPatternBytesPerTile])"

definition tilePatternPixel :: "ppu_snapshot \<Rightarrow> u8 \<Rightarrow> nat \<Rightarrow> nat \<Rightarrow> u8 option" where
  "tilePatternPixel s tileId patternX patternY =
     (let base = tilePatternBaseOffset s tileId
      in do {
        lo \<leftarrow> read_at (pp_chr s) (base + patternY);
        hi \<leftarrow> read_at (pp_chr s) (base + 8 + patternY);
        let b = 7 - patternX;
        Some ((drop_bit b lo AND 1) OR push_bit 1 (drop_bit b hi AND 1))
      })"

definition scrollXFromV :: "ppu_snapshot \<Rightarrow> u16" where
  "scrollXFromV s =
     (drop_bit 10 (pp_v s) AND 1) * kFullFrameWidthPixels + (pp_v s AND 0x1F) * 8 + (ucast (pp_fineX s) AND 7)"

definition scrollYFromV :: "ppu_snapshot \<Rightarrow> u16" where
  "scrollYFromV s =
     (drop_bit 11 (pp_v s) AND 1) * kFullFrameHeightPixels + (drop_bit 5 (pp_v s) AND 0x1F) * 8
       + (drop_bit 12 (pp_v s) AND 7)"

definition makeNesTileIdPatternHashes :: "ppu_snapshot \<Rightarrow> u64 list option" where
  "makeNesTileIdPatternHashes s = those (map (\<lambda>i. tilePatternHash s (of_nat i)) [0..<256])"

section \<open>The frame\<close>

record nes_tile_frame =
  tf_frameId :: u64
  tf_scrollX :: u16
  tf_scrollY :: u16
  tf_patternPixels :: "u8 list"
  tf_tilePatternHashes :: "u64 list"
  tf_tileIds :: "u8 list"

text \<open>An array of rows, filled in the order of the two loops.\<close>

definition grid :: "nat \<Rightarrow> nat \<Rightarrow> (nat \<Rightarrow> nat \<Rightarrow> 'a) \<Rightarrow> 'a list" where
  "grid h w f = concat (map (\<lambda>y. map (f y) [0..<w]) [0..<h])"

definition patternPixelAt :: "ppu_snapshot \<Rightarrow> nat \<Rightarrow> nat \<Rightarrow> nat \<Rightarrow> nat \<Rightarrow> u8 option" where
  "patternPixelAt s scrollX scrollY y x =
     (let fullY = y + TopCropPixels
      in do {
        tileId \<leftarrow> readNametableTileIdAtWorldPixel s scrollX scrollY x fullY;
        let worldX = (scrollX + x) mod 512;
        let worldY = (scrollY + fullY) mod 480;
        tilePatternPixel s tileId (worldX mod kTileSizePixels) (worldY mod kTileSizePixels)
      })"

definition tileIdAt :: "ppu_snapshot \<Rightarrow> nat \<Rightarrow> nat \<Rightarrow> nat \<Rightarrow> nat \<Rightarrow> u8 option" where
  "tileIdAt s scrollX scrollY gy gx =
     readNametableTileIdAtWorldPixel s scrollX scrollY (gx * kTileSizePixels + 4)
       (gy * kTileSizePixels + 4 + TopCropPixels)"

definition makeNesTileFrame :: "ppu_snapshot \<Rightarrow> bool \<Rightarrow> nes_tile_frame option" where
  "makeNesTileFrame s includePatternPixels =
     (let scrollX = scrollXFromV s; scrollY = scrollYFromV s
      in do {
        pixels \<leftarrow> (if includePatternPixels
          then those (grid VisibleHeightPixels VisibleWidthPixels (patternPixelAt s (unat scrollX) (unat scrollY)))
          else Some (replicate (VisibleWidthPixels * VisibleHeightPixels) 0));
        ids \<leftarrow> those (grid VisibleTileRows VisibleTileColumns (tileIdAt s (unat scrollX) (unat scrollY)));
        hashes \<leftarrow> those (map (tilePatternHash s) ids);
        Some \<lparr>tf_frameId = pp_frameId s, tf_scrollX = scrollX, tf_scrollY = scrollY,
              tf_patternPixels = pixels, tf_tilePatternHashes = hashes, tf_tileIds = ids\<rparr>
      })"


section \<open>Reads stay inside the arrays\<close>

lemma and_1_cases: "(n :: nat) AND 1 = n mod 2"
  by (simp add: and_one_eq)

lemma and_2047: "(n :: nat) AND 2047 = n mod 2048"
proof -
  have "n AND mask 11 = take_bit 11 n" by (simp add: take_bit_eq_mask)
  then show ?thesis by (simp add: mask_eq_exp_minus_1 take_bit_eq_mod)
qed

lemma horizontal_mirror: "((n :: nat) div 2 AND 1024) OR (n mod 1024) = (n div 2048 mod 2) * 1024 + n mod 1024"
proof -
  define b where "b = bit n 11"
  have m: "n div 2048 mod 2 = of_bool b" by (simp add: b_def bit_iff_odd mod2_eq_if)
  have bit_1024: "bit (1024 :: nat) k \<longleftrightarrow> k = 10" for k
    using bit_exp_iff [of 10 k, where ?'a = nat] by simp
  have bool_bit: "bit (of_bool b :: nat) j \<longleftrightarrow> j = 0 \<and> b" for j
    by (cases b) (simp_all add: bit_Suc_0_iff)
  have shifted: "bit (push_bit 10 (of_bool b :: nat)) k \<longleftrightarrow> k = 10 \<and> b" for k
    unfolding bit_push_bit_iff bool_bit by auto
  have "bit (n div 2) 10 = b"
    using div_mult2_eq [of n 2 1024] by (simp add: bit_iff_odd b_def)
  then have "n div 2 AND 1024 = push_bit 10 (of_bool b)"
    by (intro bit_eqI) (auto simp only: bit_and_iff shifted bit_1024)
  moreover have "push_bit 10 (of_bool b) OR (n mod 1024) = push_bit 10 (of_bool b) + n mod 1024"
  proof (rule sym [OF disjunctive_add])
    fix k
    have "bit (n mod 1024) k \<longleftrightarrow> k < 10 \<and> bit n k"
      using bit_take_bit_iff [of 10 n k] by (simp add: take_bit_eq_mod)
    then show "\<not> bit (push_bit 10 (of_bool b :: nat)) k \<or> \<not> bit (n mod 1024) k"
      by (auto simp only: shifted)
  qed
  ultimately show ?thesis by (simp add: push_bit_eq_mult m)
qed

lemma mirrored_eq:
  "mirroredNametableOffset n m =
     (if m = 0 then n mod 1024 else if m = 1 then n mod 1024 + 1024
      else if m = 3 then (n div 2048 mod 2) * 1024 + n mod 1024 else n mod 2048)"
  by (simp add: mirroredNametableOffset_def and_2047 horizontal_mirror)

lemma mirrored_less: "mirroredNametableOffset n m < 2048"
proof -
  have "n div 2048 mod 2 < 2" "n mod 1024 < 1024" "n mod 2048 < 2048" by simp_all
  then have "n div 2048 mod 2 * 1024 + n mod 1024 < 2048" "n mod 1024 + 1024 < 2048" "n mod 1024 < 2048"
    "n mod 2048 < 2048" by linarith+
  then show ?thesis unfolding mirrored_eq by presburger
qed

lemma read_at_Some: "i < length xs \<Longrightarrow> read_at xs i = Some (xs ! i)"
  by (simp add: read_at_def)

lemma those_map: "(\<And>x. x \<in> set xs \<Longrightarrow> f x = Some (g x)) \<Longrightarrow> those (map f xs) = Some (map g xs)"
  by (induction xs) simp_all

lemma grid_map: "map f (grid h w g) = grid h w (\<lambda>y x. f (g y x))"
  by (simp add: grid_def map_concat comp_def)

lemma length_grid [simp]: "length (grid h w f) = h * w"
  by (simp add: grid_def length_concat comp_def sum_list_triv)

lemma grid_nth:
  assumes "y < h" "x < w" shows "grid h w f ! (y * w + x) = f y x"
  using assms
proof (induction h)
  case (Suc h)
  have s: "grid (Suc h) w f = grid h w f @ map (f h) [0..<w]" by (simp add: grid_def)
  show ?case
  proof (cases "y < h")
    case True
    have "y * w + x < h * w"
    proof -
      have "y * w + x < Suc y * w" using Suc.prems(2) by simp
      also have "\<dots> \<le> h * w" using True by (intro mult_le_mono1) simp
      finally show ?thesis .
    qed
    with True Suc show ?thesis by (simp add: s nth_append)
  next
    case False
    with Suc.prems have "y = h" by simp
    with Suc.prems show ?thesis by (simp add: s nth_append)
  qed
qed simp

lemma those_grid: "(\<And>y x. y < h \<Longrightarrow> x < w \<Longrightarrow> f y x = Some (g y x)) \<Longrightarrow> those (grid h w f) = Some (grid h w g)"
proof -
  assume a: "\<And>y x. y < h \<Longrightarrow> x < w \<Longrightarrow> f y x = Some (g y x)"
  have "grid h w f = map Some (grid h w g)"
    unfolding grid_map unfolding grid_def using a by (auto intro!: arg_cong [where f = concat])
  then show ?thesis using those_map [of "grid h w g" Some "\<lambda>x. x"] by simp
qed

text \<open>The tile under a pixel, once the snapshot has the size of the hardware.\<close>

definition tile_under :: "ppu_snapshot \<Rightarrow> nat \<Rightarrow> nat \<Rightarrow> u8" where
  "tile_under s X Y =
     pp_vram s ! mirroredNametableOffset
       ((Y mod 480 div 240) * 0x800 + (X mod 512 div 256) * 0x400 + (Y mod 480 mod 240 div 8) * 32 + X mod 512 mod 256 div 8)
       (pp_mirror s)"

lemma read_nametable:
  assumes "snapshot_wf s"
  shows "readNametableTileIdAtWorldPixel s scrollX scrollY x y = Some (tile_under s (scrollX + x) (scrollY + y))"
proof -
  let ?X = "(scrollX + x) mod 512" and ?Y = "(scrollY + y) mod 480"
  have "?X div 8 div 32 = ?X div 256" "?Y div 8 div 30 = ?Y div 240" by (simp_all add: div_mult2_eq [symmetric])
  moreover have "?X div 256 < 2" "?Y div 240 < 2" by simp_all
  ultimately have t: "?X div 8 div 32 AND 1 = ?X div 256" "?Y div 8 div 30 AND 1 = ?Y div 240"
    by (simp_all add: and_1_cases)
  have l: "?X div 8 mod 32 = ?X mod 256 div 8" "?Y div 8 mod 30 = ?Y mod 240 div 8"
    using mod_mult2_eq [of ?X 8 32] mod_mult2_eq [of ?Y 8 30] by simp_all
  have "length (pp_vram s) = 2048" using assms by (simp add: snapshot_wf_def tile_consts)
  with mirrored_less show ?thesis
    by (simp only: readNametableTileIdAtWorldPixel_def Let_def kTileSizePixels_def t l tile_under_def)
      (simp add: read_at_Some)
qed

lemma pattern_base: "tilePatternBaseOffset s t + 16 \<le> 8192"
  using u8_less [of t] by (simp add: tilePatternBaseOffset_def tile_consts)

lemma hash_loop:
  assumes "\<forall>i \<in> set is. base + i < length xs"
  shows "foldl (\<lambda>acc i. do { hash \<leftarrow> acc; b \<leftarrow> read_at xs (base + i); Some ((hash XOR ucast b) * 1099511628211) })
      (Some (h :: u64)) is
    = Some (foldl (\<lambda>hash i. (hash XOR ucast (xs ! (base + i) :: u8)) * 1099511628211) h is)"
  using assms by (induction "is" arbitrary: h) (simp_all add: read_at_Some)

definition pattern_hash :: "ppu_snapshot \<Rightarrow> u8 \<Rightarrow> u64" where
  "pattern_hash s t = foldl (\<lambda>hash i. (hash XOR ucast (pp_chr s ! (tilePatternBaseOffset s t + i))) * 1099511628211)
     14695981039346656037 [0..<16]"

lemma tilePatternHash_eq: "snapshot_wf s \<Longrightarrow> tilePatternHash s t = Some (pattern_hash s t)"
  unfolding tilePatternHash_def Let_def pattern_hash_def kPatternBytesPerTile_def
  using pattern_base [of s t] by (intro hash_loop) (auto simp: snapshot_wf_def tile_consts)

definition pattern_pixel :: "ppu_snapshot \<Rightarrow> u8 \<Rightarrow> nat \<Rightarrow> nat \<Rightarrow> u8" where
  "pattern_pixel s t px py =
     (drop_bit (7 - px) (pp_chr s ! (tilePatternBaseOffset s t + py)) AND 1)
     OR push_bit 1 (drop_bit (7 - px) (pp_chr s ! (tilePatternBaseOffset s t + 8 + py)) AND 1)"

lemma tilePatternPixel_eq:
  "snapshot_wf s \<Longrightarrow> py < 8 \<Longrightarrow> tilePatternPixel s t px py = Some (pattern_pixel s t px py)"
  using pattern_base [of s t]
  by (simp add: tilePatternPixel_def pattern_pixel_def Let_def read_at_Some snapshot_wf_def tile_consts)

lemma pattern_pixel_le: "pattern_pixel s t px py \<le> 3"
proof -
  have bits: "w AND 1 \<in> {0, 1}" for w :: u8 by (simp add: and_one_eq mod2_eq_if)
  have "a OR push_bit 1 b \<le> 3" if "a \<in> {0, 1}" "b \<in> {0, 1}" for a b :: u8 using that by auto
  from this [OF bits bits] show ?thesis by (simp add: pattern_pixel_def)
qed


section \<open>What a frame shows\<close>

lemma scroll_bounds: "unat (scrollXFromV s) < 512" "unat (scrollYFromV s) < 496"
proof -
  have one: "unat (w AND 1) \<le> 1" and low5: "unat (w AND 0x1F) < 32" and low3: "unat (w AND 7) < 8" for w :: u16
  proof -
    have "w AND 1 \<le> 1" "w AND 0x1F \<le> 0x1F" "w AND 7 \<le> 7"
      by (rule word_and_le1 word_and_le2)+
    then
    show "unat (w AND 1) \<le> 1" "unat (w AND 0x1F) < 32" "unat (w AND 7) < 8"
      by (simp_all add: word_le_nat_alt)
  qed
  have "unat ((a AND 1) * 256 + (b AND 0x1F) * 8 + (c AND 7)) < 512" for a b c :: u16
    using one [of a] low5 [of b] low3 [of c] by (simp add: unat_word_ariths)
  then show "unat (scrollXFromV s) < 512" by (simp add: scrollXFromV_def kFullFrameWidthPixels_def)
  have "unat ((a AND 1) * 240 + (b AND 0x1F) * 8 + (c AND 7)) < 496" for a b c :: u16
    using one [of a] low5 [of b] low3 [of c] by (simp add: unat_word_ariths)
  then show "unat (scrollYFromV s) < 496" by (simp add: scrollYFromV_def kFullFrameHeightPixels_def)
qed

lemma tile_under_mod: "tile_under s (X mod 512) Y = tile_under s X Y" "tile_under s X (Y mod 480) = tile_under s X Y"
  by (simp_all add: tile_under_def)

lemma tile_hashes: "snapshot_wf s \<Longrightarrow>
  makeNesTileIdPatternHashes s = Some (map (\<lambda>i. pattern_hash s (of_nat i)) [0..<256])"
  unfolding makeNesTileIdPatternHashes_def by (intro those_map) (simp add: tilePatternHash_eq)

text \<open>The frame of a snapshot, in closed form.\<close>

definition frame_of :: "ppu_snapshot \<Rightarrow> bool \<Rightarrow> nes_tile_frame" where
  "frame_of s inc =
     (let sx = unat (scrollXFromV s); sy = unat (scrollYFromV s);
          ids = grid 28 32 (\<lambda>gy gx. tile_under s (sx + (gx * 8 + 4)) (sy + (gy * 8 + 12)))
      in \<lparr>tf_frameId = pp_frameId s, tf_scrollX = scrollXFromV s, tf_scrollY = scrollYFromV s,
          tf_patternPixels =
            (if inc then grid 224 256 (\<lambda>y x. pattern_pixel s (tile_under s (sx + x) (sy + (y + 8)))
               ((sx + x) mod 512 mod 8) ((sy + (y + 8)) mod 480 mod 8))
             else replicate (256 * 224) 0),
          tf_tilePatternHashes = map (pattern_hash s) ids, tf_tileIds = ids\<rparr>)"

lemma frame_total:
  assumes "snapshot_wf s" shows "makeNesTileFrame s inc = Some (frame_of s inc)"
proof -
  let ?sx = "unat (scrollXFromV s)" and ?sy = "unat (scrollYFromV s)"
  let ?ids = "grid 28 32 (\<lambda>gy gx. tile_under s (?sx + (gx * 8 + 4)) (?sy + (gy * 8 + 12)))"
  have p: "those (grid 224 256 (patternPixelAt s ?sx ?sy)) = Some (grid 224 256 (\<lambda>y x. pattern_pixel s
      (tile_under s (?sx + x) (?sy + (y + 8))) ((?sx + x) mod 512 mod 8) ((?sy + (y + 8)) mod 480 mod 8)))"
    by (intro those_grid)
      (simp add: patternPixelAt_def read_nametable [OF assms] tilePatternPixel_eq [OF assms] kTileSizePixels_def
        TopCropPixels_def Let_def)
  have i: "those (grid 28 32 (tileIdAt s ?sx ?sy)) = Some ?ids"
    by (intro those_grid) (simp add: tileIdAt_def read_nametable [OF assms] kTileSizePixels_def TopCropPixels_def add.commute)
  have "those (map (tilePatternHash s) ?ids) = Some (map (pattern_hash s) ?ids)"
    by (intro those_map) (simp add: tilePatternHash_eq [OF assms])
  then show ?thesis
    by (simp only: makeNesTileFrame_def frame_of_def Let_def tile_consts p i bind.bind_lunit if_distrib cong: if_cong)
      (cases inc; simp add: p i)
qed

lemma frame_cell:
  assumes "gx < 32" "gy < 28"
  shows "tf_tileIds (frame_of s inc) ! (gy * 32 + gx) =
      tile_under s (unat (scrollXFromV s) + (gx * 8 + 4)) (unat (scrollYFromV s) + (gy * 8 + 12))"
    "tf_tilePatternHashes (frame_of s inc) ! (gy * 32 + gx) = pattern_hash s (tf_tileIds (frame_of s inc) ! (gy * 32 + gx))"
proof -
  have "gy * 32 + gx < 28 * 32" using assms by linarith
  then show "tf_tilePatternHashes (frame_of s inc) ! (gy * 32 + gx) =
      pattern_hash s (tf_tileIds (frame_of s inc) ! (gy * 32 + gx))"
    by (simp add: frame_of_def Let_def)
qed (simp add: frame_of_def Let_def grid_nth assms)

lemma frame_pixel:
  assumes "x < 256" "y < 224"
  shows "tf_patternPixels (frame_of s True) ! (y * 256 + x) =
    pattern_pixel s (tile_under s (unat (scrollXFromV s) + x) (unat (scrollYFromV s) + y + 8))
      ((unat (scrollXFromV s) + x) mod 8) ((unat (scrollYFromV s) + y + 8) mod 8)"
  by (simp add: frame_of_def Let_def grid_nth assms mod_mod_cancel add.assoc)

lemma tile_under_same:
  assumes "X mod 512 div 8 = X' mod 512 div 8" "Y mod 480 div 8 = Y' mod 480 div 8"
  shows "tile_under s X Y = tile_under s X' Y'"
proof -
  have "n div 256 = n div 8 div 32" "n mod 256 div 8 = n div 8 mod 32" for n :: nat
    using div_mult2_eq [of n 8 32] mod_mult2_eq [of n 8 32] by simp_all
  moreover have "n div 240 = n div 8 div 30" "n mod 240 div 8 = n div 8 mod 30" for n :: nat
    using div_mult2_eq [of n 8 30] mod_mult2_eq [of n 8 30] by simp_all
  ultimately show ?thesis by (simp only: tile_under_def assms)
qed

text \<open>
  C23: A tile frame can always be built: whatever the registers of a snapshot hold, no read leaves
  the video memory or the pattern table. A cell holds the tile under its sample point and the hash
  that the table of pattern hashes has for that tile, and every pixel that lies in the same tile as
  the sample point of a cell shows the pattern of that cell's tile.
\<close>

theorem tile_frame_shows_nametable:
  assumes "snapshot_wf s"
  shows "\<exists>f hashes. makeNesTileFrame s True = Some f \<and> makeNesTileIdPatternHashes s = Some hashes \<and>
    length (tf_tileIds f) = 896 \<and> length (tf_tilePatternHashes f) = 896 \<and> length (tf_patternPixels f) = 57344 \<and>
    (\<forall>gx < 32. \<forall>gy < 28.
       readNametableTileIdAtWorldPixel s (unat (tf_scrollX f)) (unat (tf_scrollY f)) (8 * gx + 4) (8 * gy + 12)
         = Some (tf_tileIds f ! (gy * 32 + gx)) \<and>
       tf_tilePatternHashes f ! (gy * 32 + gx) = hashes ! unat (tf_tileIds f ! (gy * 32 + gx)) \<and>
       (\<forall>x < 256. \<forall>y < 224.
          ((unat (tf_scrollX f) + x) mod 512 div 8 = (unat (tf_scrollX f) + 8 * gx + 4) mod 512 div 8 \<and>
           (unat (tf_scrollY f) + y + 8) mod 480 div 8 = (unat (tf_scrollY f) + 8 * gy + 12) mod 480 div 8) \<longrightarrow>
          tilePatternPixel s (tf_tileIds f ! (gy * 32 + gx))
             ((unat (tf_scrollX f) + x) mod 8) ((unat (tf_scrollY f) + y + 8) mod 8)
           = Some (tf_patternPixels f ! (y * 256 + x))))"
proof (intro exI conjI allI impI)
  note fields = frame_of_def Let_def
  let ?f = "frame_of s True"
  show "makeNesTileFrame s True = Some ?f" by (rule frame_total [OF assms])
  show "makeNesTileIdPatternHashes s = Some (map (\<lambda>i. pattern_hash s (of_nat i)) [0..<256])"
    by (rule tile_hashes [OF assms])
  show "length (tf_tileIds ?f) = 896" "length (tf_tilePatternHashes ?f) = 896" "length (tf_patternPixels ?f) = 57344"
    by (simp_all add: fields)
  have scroll: "tf_scrollX ?f = scrollXFromV s" "tf_scrollY ?f = scrollYFromV s" by (simp_all add: fields)
  fix gx gy :: nat assume g: "gx < 32" "gy < 28"
  let ?t = "tf_tileIds ?f ! (gy * 32 + gx)"
  show "readNametableTileIdAtWorldPixel s (unat (tf_scrollX ?f)) (unat (tf_scrollY ?f)) (8 * gx + 4) (8 * gy + 12) = Some ?t"
    by (simp add: read_nametable [OF assms] scroll frame_cell [OF g] mult.commute)
  show "tf_tilePatternHashes ?f ! (gy * 32 + gx) = map (\<lambda>i. pattern_hash s (of_nat i)) [0..<256] ! unat ?t"
    using u8_less [of ?t] by (simp add: frame_cell [OF g])
  fix x y :: nat
  assume p: "x < 256" "y < 224"
    and same: "(unat (tf_scrollX ?f) + x) mod 512 div 8 = (unat (tf_scrollX ?f) + 8 * gx + 4) mod 512 div 8 \<and>
      (unat (tf_scrollY ?f) + y + 8) mod 480 div 8 = (unat (tf_scrollY ?f) + 8 * gy + 12) mod 480 div 8"
  have "?t = tile_under s (unat (scrollXFromV s) + x) (unat (scrollYFromV s) + y + 8)"
    unfolding frame_cell(1) [OF g] using same
    by (intro tile_under_same) (simp_all add: scroll mult.commute add.assoc)
  then show "tilePatternPixel s ?t ((unat (tf_scrollX ?f) + x) mod 8) ((unat (tf_scrollY ?f) + y + 8) mod 8)
      = Some (tf_patternPixels ?f ! (y * 256 + x))"
    by (simp add: tilePatternPixel_eq [OF assms] scroll frame_pixel [OF p])
qed

text \<open>A console with two tiles: 7 in the first name table, 9 in the others.\<close>

definition plain_snapshot :: ppu_snapshot where
  "plain_snapshot = \<lparr>pp_frameId = 5, pp_v = 0, pp_fineX = 3, pp_mirror = 2, pp_ppuCtrl = 0x10, pp_ppuMask = 0,
     pp_chr = replicate 8192 170, pp_oam = replicate 256 0, pp_vram = replicate 1024 7 @ replicate 1024 9\<rparr>"

lemma plain_snapshot_wf: "snapshot_wf plain_snapshot"
  by (simp add: snapshot_wf_def plain_snapshot_def tile_consts)

theorem tile_frame_shows_nametable_witness:
  "\<exists>f. makeNesTileFrame plain_snapshot True = Some f \<and> length (tf_tileIds f) = 896"
  using tile_frame_shows_nametable [OF plain_snapshot_wf] by blast

text \<open>
  Mirroring. With the name tables side by side (mode 2) the picture repeats every 240 lines, with
  them on top of each other (mode 3) every 256 columns, and with a single one in both directions.
\<close>

lemma mirrored_tables:
  assumes "a < 2" "b < 2" "r < 1024"
  shows "mirroredNametableOffset (a * 0x800 + b * 0x400 + r) m =
    (if m = 0 then r else if m = 1 then r + 1024 else if m = 3 then a * 1024 + r else b * 1024 + r)"
proof -
  let ?n = "a * 2048 + b * 1024 + r"
  have "b * 1024 + r < 2048" using assms by linarith
  then have "?n mod 2048 = b * 1024 + r" "?n div 2048 = a"
    using mod_mult_self3 [of a 2048 "b * 1024 + r"] div_mult_self3 [of 2048 a "b * 1024 + r"]
    by (simp_all add: add.assoc)
  moreover have "?n mod 1024 = r"
    using mod_mult_self3 [of "2 * a + b" 1024 r] assms(3) by (simp add: algebra_simps)
  ultimately show ?thesis using assms(1) by (simp add: mirrored_eq)
qed

lemma nametable_mirroring:
  assumes "snapshot_wf s"
  shows "pp_mirror s \<in> {0, 1, 2} \<Longrightarrow>
      readNametableTileIdAtWorldPixel s sx sy x (y + 240) = readNametableTileIdAtWorldPixel s sx sy x y"
    "pp_mirror s \<in> {0, 1, 3} \<Longrightarrow>
      readNametableTileIdAtWorldPixel s sx sy (x + 256) y = readNametableTileIdAtWorldPixel s sx sy x y"
proof -
  have r: "Y mod 480 mod 240 div 8 * 32 + X mod 512 mod 256 div 8 < 1024" for X Y :: nat
  proof -
    have "Y mod 480 mod 240 div 8 < 30" "X mod 512 mod 256 div 8 < 32"
      by (simp_all add: less_mult_imp_div_less)
    then show ?thesis by linarith
  qed
  have d: "Y mod 480 div 240 < 2" "X mod 512 div 256 < 2" for X Y :: nat
    by (simp_all add: less_mult_imp_div_less)
  have t: "tile_under s X Y = (let a = Y mod 480 div 240; b = X mod 512 div 256;
      r = Y mod 480 mod 240 div 8 * 32 + X mod 512 mod 256 div 8
    in pp_vram s ! (if pp_mirror s = 0 then r else if pp_mirror s = 1 then r + 1024
         else if pp_mirror s = 3 then a * 1024 + r else b * 1024 + r))" for X Y
    using mirrored_tables [OF d r, of Y X Y X] by (simp add: tile_under_def Let_def add.assoc)
  have w: "(Y + 240) mod 480 mod 240 = Y mod 480 mod 240" "(X + 256) mod 512 mod 256 = X mod 512 mod 256" for X Y :: nat
    by (simp_all add: mod_mod_cancel)
  show "pp_mirror s \<in> {0, 1, 2} \<Longrightarrow>
      readNametableTileIdAtWorldPixel s sx sy x (y + 240) = readNametableTileIdAtWorldPixel s sx sy x y"
    using w(1) [of "sy + y"] by (auto simp: read_nametable [OF assms] t Let_def add.assoc)
  show "pp_mirror s \<in> {0, 1, 3} \<Longrightarrow>
      readNametableTileIdAtWorldPixel s sx sy (x + 256) y = readNametableTileIdAtWorldPixel s sx sy x y"
    using w(2) [of "sx + x"] by (auto simp: read_nametable [OF assms] t Let_def add.assoc)
qed

end
