(* ===== verification/NesTokenizer.thy ===== *)
theory NesTokenizer
  imports NesTiles GenomeArchive
begin

text \<open>
  core/scenarios/nes/NesTileTokenizer.{h,cpp}, NesTileVocabularyBuilder.{h,cpp} and
  NesTileTokenFrame.{h,cpp}: tile patterns, known by their hashes, are numbered as tokens, either as
  they appear (learning) or from a vocabulary that is built from samples and then frozen; and the
  frame of tokens of a tile frame. The map from hashes to tokens is the list of its pairs, in the
  order of insertion. The byte hash is the one of GenomeArchive, which the source repeats.
\<close>

section \<open>The tokenizer\<close>

datatype tokenizer_mode = Tok_Learning | Tok_Frozen

record tile_tokenizer =
  tz_hashToToken :: "(u64 \<times> u16) list"
  tz_mode :: tokenizer_mode
  tz_nextToken :: u16
  tz_vocabSize :: u16

definition DefaultVocabSize :: u16 where "DefaultVocabSize = 512"
definition VoidToken :: u16 where "VoidToken = 0"

text \<open>The constructor; \<open>None\<close> is its assertion.\<close>

definition newTokenizer :: "u16 \<Rightarrow> tile_tokenizer option" where
  "newTokenizer vocabSize =
     (if vocabSize > VoidToken + 1
      then Some \<lparr>tz_hashToToken = [], tz_mode = Tok_Learning, tz_nextToken = VoidToken + 1, tz_vocabSize = vocabSize\<rparr>
      else None)"

definition emplace :: "'k \<Rightarrow> 'v \<Rightarrow> ('k \<times> 'v) list \<Rightarrow> ('k \<times> 'v) list" where
  "emplace k v m = (case map_of m k of None \<Rightarrow> m @ [(k, v)] | Some _ \<Rightarrow> m)"

definition assignStep :: "(u64 \<times> u16) list \<times> u16 \<Rightarrow> u64 \<Rightarrow> (u64 \<times> u16) list \<times> u16" where
  "assignStep acc hash = (emplace hash (snd acc) (fst acc), snd acc + 1)"

definition buildVocabulary :: "u64 list \<Rightarrow> tile_tokenizer \<Rightarrow> nat result \<times> tile_tokenizer" where
  "buildVocabulary tilePatternHashes t =
     (let hashes = remdups_adj (sort tilePatternHashes)
      in if length hashes \<ge> unat (tz_vocabSize t)
         then (error (''NesTileTokenizer: Tile token vocabulary exhausted while building ''
                 @ to_string (int (length hashes)) @ '' unique patterns with vocab size ''
                 @ to_string (uint (tz_vocabSize t))), t)
         else let (hashToToken, nextToken) = foldl assignStep ([], VoidToken + 1) hashes
              in (okay (length hashToToken),
                  t\<lparr>tz_hashToToken := hashToToken, tz_nextToken := nextToken, tz_mode := Tok_Learning\<rparr>))"

definition tok_freeze :: "tile_tokenizer \<Rightarrow> tile_tokenizer" where
  "tok_freeze t = t\<lparr>tz_mode := Tok_Frozen\<rparr>"

definition tokenForHash :: "u64 option \<Rightarrow> tile_tokenizer \<Rightarrow> u16 result \<times> tile_tokenizer" where
  "tokenForHash patternHash t =
     (case patternHash of None \<Rightarrow> (okay VoidToken, t)
      | Some hash \<Rightarrow>
          (case map_of (tz_hashToToken t) hash of Some token \<Rightarrow> (okay token, t)
           | None \<Rightarrow>
               if tz_mode t = Tok_Frozen
               then (error (''NesTileTokenizer: Frozen vocabulary missing tile pattern hash ''
                       @ to_string (uint hash)), t)
               else if tz_nextToken t \<ge> tz_vocabSize t
               then (error (''NesTileTokenizer: Tile token vocabulary exhausted after ''
                       @ to_string (int (length (tz_hashToToken t))) @ '' unique patterns with vocab size ''
                       @ to_string (uint (tz_vocabSize t))), t)
               else (okay (tz_nextToken t),
                     t\<lparr>tz_hashToToken := emplace hash (tz_nextToken t) (tz_hashToToken t),
                       tz_nextToken := tz_nextToken t + 1\<rparr>)))"

text \<open>The loop over an array of hashes that stops at the first error; \<open>i\<close> is the index in the message.\<close>

fun tokenLoop ::
    "string \<Rightarrow> nat \<Rightarrow> u64 list \<Rightarrow> tile_tokenizer \<Rightarrow> u16 list result \<times> tile_tokenizer" where
  "tokenLoop msg i [] t = (okay [], t)"
| "tokenLoop msg i (hash # hashes) t =
     (case tokenForHash (Some hash) t of
        (Inl e, t) \<Rightarrow> (error (msg @ to_string (int i) @ '': '' @ e), t)
      | (Inr token, t) \<Rightarrow>
          (case tokenLoop msg (i + 1) hashes t of
             (Inl e, t) \<Rightarrow> (error e, t)
           | (Inr tokens, t) \<Rightarrow> (okay (token # tokens), t)))"

definition tileIdTokenRemapBuild :: "u64 list \<Rightarrow> tile_tokenizer \<Rightarrow> u16 list result \<times> tile_tokenizer" where
  "tileIdTokenRemapBuild hashes t = tokenLoop ''NesTileTokenizer: Failed to map tile id '' 0 hashes t"

primrec mode_byte :: "tokenizer_mode \<Rightarrow> u8" where
  "mode_byte Tok_Learning = 0" | "mode_byte Tok_Frozen = 1"

definition getVocabularyHash :: "tile_tokenizer \<Rightarrow> string" where
  "getVocabularyHash t =
     (let hash = 1469598103934665603;
          hash = hashBytes hash (le_bytes 2 (tz_vocabSize t));
          hash = hashBytes hash (le_bytes 2 VoidToken);
          hash = hashBytes hash [mode_byte (tz_mode t)];
          tokenToHash = sort (map (\<lambda>(h, token). (token, h)) (tz_hashToToken t));
          hash = hashSize hash (length tokenToHash);
          hash = foldl (\<lambda>hash (token, h). hashBytes (hashBytes hash (le_bytes 2 token)) (le_bytes 8 h))
                   hash tokenToHash
      in toHexString hash)"

definition tok_reset :: "tile_tokenizer \<Rightarrow> tile_tokenizer" where
  "tok_reset t = t\<lparr>tz_hashToToken := [], tz_mode := Tok_Learning, tz_nextToken := VoidToken + 1\<rparr>"

section \<open>The vocabulary builder\<close>

type_synonym vocabulary_builder = "u64 list"

definition addFrame :: "nes_tile_frame \<Rightarrow> vocabulary_builder \<Rightarrow> vocabulary_builder" where
  "addFrame frame b = b @ tf_tilePatternHashes frame"

definition addSnapshot :: "ppu_snapshot \<Rightarrow> vocabulary_builder \<Rightarrow> vocabulary_builder option" where
  "addSnapshot s b = do {
     hashes \<leftarrow> makeNesTileIdPatternHashes s;
     frame \<leftarrow> makeNesTileFrame s True;
     Some (addFrame frame (b @ hashes))
   }"

definition vb_reset :: "vocabulary_builder \<Rightarrow> vocabulary_builder" where
  "vb_reset b = []"

record vocabulary_result =
  vr_sampledTileCount :: nat
  vr_uniquePatternCount :: nat

definition buildFrozenTokenizer ::
    "vocabulary_builder \<Rightarrow> tile_tokenizer \<Rightarrow> vocabulary_result result \<times> tile_tokenizer" where
  "buildFrozenTokenizer b t =
     (if b = [] then (error ''NesTileVocabularyBuilder: Cannot build vocabulary without tile samples'', t)
      else case buildVocabulary b t of
             (Inl e, t) \<Rightarrow> (error (''NesTileVocabularyBuilder: Failed to build vocabulary: '' @ e), t)
           | (Inr n, t) \<Rightarrow> (okay \<lparr>vr_sampledTileCount = length b, vr_uniquePatternCount = n\<rparr>, tok_freeze t))"

definition buildNewFrozenTokenizer :: "vocabulary_builder \<Rightarrow> u16 \<Rightarrow> tile_tokenizer result option" where
  "buildNewFrozenTokenizer b vocabSize = do {
     t \<leftarrow> newTokenizer vocabSize;
     Some (case buildFrozenTokenizer b t of (Inl e, _) \<Rightarrow> error e | (Inr _, t) \<Rightarrow> okay t)
   }"

section \<open>Frames of tokens\<close>

record tile_token_frame =
  tk_frameId :: u64
  tk_scrollX :: u16
  tk_scrollY :: u16
  tk_tokens :: "u16 list"

definition makeNesTileTokenFrame ::
    "nes_tile_frame \<Rightarrow> tile_tokenizer \<Rightarrow> tile_token_frame result \<times> tile_tokenizer" where
  "makeNesTileTokenFrame f t =
     (case tokenLoop ''NesTileTokenFrame: Failed to tokenize cell '' 0 (tf_tilePatternHashes f) t of
        (Inl e, t) \<Rightarrow> (error e, t)
      | (Inr tokens, t) \<Rightarrow>
          (okay \<lparr>tk_frameId = tf_frameId f, tk_scrollX = tf_scrollX f, tk_scrollY = tf_scrollY f,
                 tk_tokens = tokens\<rparr>, t))"


section \<open>The invariant of the tokenizer\<close>

text \<open>The tokens are numbered from one without gaps, each for a pattern of its own.\<close>

definition tok_ok :: "tile_tokenizer \<Rightarrow> bool" where
  "tok_ok t =
     (2 \<le> unat (tz_vocabSize t) \<and> 1 \<le> unat (tz_nextToken t) \<and> unat (tz_nextToken t) \<le> unat (tz_vocabSize t) \<and>
      distinct (map fst (tz_hashToToken t)) \<and>
      map snd (tz_hashToToken t) = map of_nat [1..<unat (tz_nextToken t)])"

definition extends :: "tile_tokenizer \<Rightarrow> tile_tokenizer \<Rightarrow> bool" where
  "extends t t' =
     (tz_vocabSize t' = tz_vocabSize t \<and> map_of (tz_hashToToken t) \<subseteq>\<^sub>m map_of (tz_hashToToken t'))"

lemma extends_refl [simp]: "extends t t"
  by (simp add: extends_def)

lemma extends_trans: "extends t t' \<Longrightarrow> extends t' t'' \<Longrightarrow> extends t t''"
  unfolding extends_def by (auto intro: map_le_trans)

lemma extendsD: "extends t t' \<Longrightarrow> map_of (tz_hashToToken t) h = Some k \<Longrightarrow> map_of (tz_hashToToken t') h = Some k"
  unfolding extends_def by (auto simp: map_le_def dom_def)

lemma token_range:
  assumes "tok_ok t" "map_of (tz_hashToToken t) h = Some k"
  shows "0 < unat k \<and> unat k < unat (tz_nextToken t)"
proof -
  have "k \<in> set (map snd (tz_hashToToken t))" using map_of_SomeD [OF assms(2)] by force
  moreover have "map snd (tz_hashToToken t) = map of_nat [1..<unat (tz_nextToken t)]"
    using assms(1) by (simp add: tok_ok_def)
  ultimately have "k \<in> of_nat ` {1..<unat (tz_nextToken t)}" by simp
  then obtain j where "k = of_nat j" "1 \<le> j" "j < unat (tz_nextToken t)" by auto
  moreover have "j < 65536" using calculation(3) u16_less [of "tz_nextToken t"] by linarith
  ultimately show ?thesis by (simp add: unat_of_nat)
qed

lemma distinct_tokens: "tok_ok t \<Longrightarrow> distinct (map snd (tz_hashToToken t))"
proof -
  assume ok: "tok_ok t"
  have "inj_on (of_nat :: nat \<Rightarrow> u16) {1..<unat (tz_nextToken t)}"
  proof (rule inj_onI)
    fix i j :: nat
    assume "i \<in> {1..<unat (tz_nextToken t)}" "j \<in> {1..<unat (tz_nextToken t)}" and e: "(of_nat i :: u16) = of_nat j"
    then have "i < 65536" "j < 65536" using u16_less [of "tz_nextToken t"] by auto
    moreover have "unat (of_nat i :: u16) = unat (of_nat j :: u16)" by (simp only: e)
    ultimately show "i = j" by (simp only: unat_of_nat) simp
  qed
  then show "distinct (map snd (tz_hashToToken t))" using ok by (simp add: tok_ok_def distinct_map)
qed

lemma token_injective:
  assumes "tok_ok t" "map_of (tz_hashToToken t) h = Some k" "map_of (tz_hashToToken t) h' = Some k"
  shows "h = h'"
proof -
  have "(h, k) \<in> set (tz_hashToToken t)" "(h', k) \<in> set (tz_hashToToken t)"
    using assms(2,3) by (simp_all add: map_of_SomeD)
  then show ?thesis using distinct_tokens [OF assms(1)] unfolding distinct_map
    using inj_onD [of snd "set (tz_hashToToken t)" "(h, k)" "(h', k)"] by simp
qed

lemma new_ok: "newTokenizer v = Some t \<Longrightarrow> tok_ok t"
  by (auto simp: newTokenizer_def tok_ok_def VoidToken_def word_less_nat_alt split: if_splits)

lemma freeze_ok [simp]: "tok_ok (tok_freeze t) = tok_ok t" "extends t' (tok_freeze t) = extends t' t"
  by (simp_all add: tok_ok_def tok_freeze_def extends_def)

lemma tok_reset_ok: "tok_ok t \<Longrightarrow> tok_ok (tok_reset t)"
  by (simp add: tok_ok_def tok_reset_def VoidToken_def)

lemma lookup_known:
  "map_of (tz_hashToToken t) h = Some k \<Longrightarrow> tokenForHash (Some h) t = (okay k, t)"
  by (simp add: tokenForHash_def)

lemma lookup_sound:
  assumes "tok_ok t" "tokenForHash ph t = (r, t')"
  shows "tok_ok t' \<and> extends t t' \<and> (tz_mode t = Tok_Frozen \<longrightarrow> t' = t) \<and> tz_mode t' = tz_mode t \<and>
    (\<forall>h k. ph = Some h \<and> r = okay k \<longrightarrow> map_of (tz_hashToToken t') h = Some k)"
proof (cases "\<exists>h. ph = Some h \<and> map_of (tz_hashToToken t) h = None \<and> tz_mode t = Tok_Learning \<and>
    tz_nextToken t < tz_vocabSize t")
  case False
  then have "t' = t" "\<forall>h k. ph = Some h \<and> r = okay k \<longrightarrow> map_of (tz_hashToToken t) h = Some k"
    using assms(2) by (cases "tz_mode t"; force simp: tokenForHash_def not_less split: option.splits if_splits)+
  then show ?thesis using assms(1) by simp
next
  case True
  then obtain h where h: "ph = Some h" "map_of (tz_hashToToken t) h = None" "tz_mode t = Tok_Learning"
    "tz_nextToken t < tz_vocabSize t" by blast
  let ?n = "tz_nextToken t"
  have t': "r = okay ?n" "t' = t\<lparr>tz_hashToToken := tz_hashToToken t @ [(h, ?n)], tz_nextToken := ?n + 1\<rparr>"
    using assms(2) h by (simp_all add: tokenForHash_def emplace_def leD split: if_splits)
  have n: "unat (?n + 1) = Suc (unat ?n)"
    using h(4) unat_plus_if' [of ?n 1] u16_less [of "tz_vocabSize t"] by (simp add: word_less_nat_alt)
  have "tok_ok t'"
    using assms(1) h(2,4) by (simp add: tok_ok_def t' n word_less_nat_alt map_of_eq_None_iff)
  moreover have "extends t t'" using h(2) by (auto simp: extends_def t' map_le_def map_add_def dom_def split: option.split)
  ultimately show ?thesis using h by (simp add: t' map_add_def)
qed

lemma loop_sound:
  "tok_ok t \<Longrightarrow> tokenLoop msg i hs t = (r, t') \<Longrightarrow>
   tok_ok t' \<and> extends t t' \<and> (tz_mode t = Tok_Frozen \<longrightarrow> t' = t) \<and> tz_mode t' = tz_mode t"
proof (induction hs arbitrary: i t r)
  case (Cons h hs)
  obtain r1 t1 where f: "tokenForHash (Some h) t = (r1, t1)" by force
  note s = lookup_sound [OF Cons.prems(1) f]
  obtain r2 t2 where l: "tokenLoop msg (i + 1) hs t1 = (r2, t2)" by force
  show ?case
  proof (cases r1)
    case (Inl e)
    then show ?thesis using Cons.prems(2) f s by simp
  next
    case (Inr k)
    then have "t' = t2" using Cons.prems(2) f l by (cases r2) simp_all
    then have "tok_ok t' \<and> extends t1 t' \<and> (tz_mode t1 = Tok_Frozen \<longrightarrow> t' = t1) \<and> tz_mode t' = tz_mode t1"
      using Cons.IH [of t1 "i + 1" r2] l s by simp
    then show ?thesis using s extends_trans [of t t1 t'] by auto
  qed
qed simp

lemma loop_map:
  "\<forall>x \<in> set xs. map_of (tz_hashToToken t) (F x) = Some (G x) \<Longrightarrow> tokenLoop msg i (map F xs) t = (okay (map G xs), t)"
  by (induction xs arbitrary: i) (simp_all add: lookup_known)

section \<open>Building a vocabulary\<close>

lemma assign_fold:
  "distinct hs \<Longrightarrow> set hs \<inter> fst ` set m = {} \<Longrightarrow>
   foldl assignStep (m, n) hs = (m @ zip hs (map (\<lambda>i. n + of_nat i) [0..<length hs]), n + of_nat (length hs))"
proof (induction hs arbitrary: m n)
  case (Cons h hs)
  have "map_of m h = None" using Cons.prems(2) by (simp add: map_of_eq_None_iff)
  then have "assignStep (m, n) h = (m @ [(h, n)], n + 1)" by (simp add: assignStep_def emplace_def)
  moreover have "map (\<lambda>i. n + of_nat i) [0..<Suc (length hs)] = n # map (\<lambda>i. n + 1 + of_nat i) [0..<length hs]"
    by (simp add: upt_conv_Cons map_Suc_upt [symmetric] algebra_simps del: upt_Suc)
  ultimately show ?case
    using Cons.IH [of "m @ [(h, n)]" "n + 1"] Cons.prems by (auto simp: add.assoc simp del: upt_Suc)
qed simp

lemma distinct_unique: "sorted xs \<Longrightarrow> distinct (remdups_adj xs)"
  by (induction xs rule: remdups_adj.induct) (auto simp: less_le)

lemma unique_hashes: "remdups_adj (sort hs) = sorted_list_of_set (set (hs :: u64 list))"
  by (rule sorted_distinct_set_unique) (simp_all add: sorted_remdups_adj distinct_unique)


lemma build_sound:
  fixes hs :: "u64 list"
  defines "us \<equiv> sorted_list_of_set (set hs)"
  assumes "card (set hs) < unat (tz_vocabSize t)"
  shows "buildVocabulary hs t = (okay (card (set hs)), t\<lparr>tz_hashToToken := zip us (map of_nat [1..<Suc (card (set hs))]),
      tz_nextToken := of_nat (Suc (card (set hs))), tz_mode := Tok_Learning\<rparr>)"
proof -
  have len: "length us = card (set hs)" and d: "distinct us" by (simp_all add: us_def)
  have "map (\<lambda>i. 1 + of_nat i) [0..<length us] = map (of_nat :: nat \<Rightarrow> u16) [1..<Suc (length us)]"
    by (simp add: map_Suc_upt [symmetric] comp_def del: upt_Suc)
  with assign_fold [OF d, of "[]" 1]
  have "foldl assignStep ([], 1) us = (zip us (map of_nat [1..<Suc (length us)]), of_nat (Suc (length us)))" by simp
  then show ?thesis
    unfolding buildVocabulary_def Let_def unique_hashes us_def [symmetric] len VoidToken_def using assms(2)
    by (simp add: len del: upt_Suc)
qed

lemma build_fails:
  "unat (tz_vocabSize t) \<le> card (set hs) \<Longrightarrow> \<exists>e. buildVocabulary hs t = (error e, t)"
  by (simp add: buildVocabulary_def unique_hashes Let_def)

lemma build_ok:
  assumes "tok_ok t" shows "tok_ok (snd (buildVocabulary hs t))"
proof (cases "card (set hs) < unat (tz_vocabSize t)")
  case True
  have "unat (of_nat (Suc (card (set hs))) :: u16) = Suc (card (set hs))"
    using True u16_less [of "tz_vocabSize t"] by (simp only: unat_of_nat) simp
  with True assms show ?thesis
    unfolding build_sound [OF True] by (simp add: tok_ok_def del: upt_Suc of_nat_Suc)
next
  case False
  then show ?thesis using build_fails [of t hs] assms by auto
qed

lemma build_knows:
  assumes "buildVocabulary hs t = (okay n, t')" "h \<in> set hs"
  shows "map_of (tz_hashToToken t') h \<noteq> None"
proof -
  have c: "card (set hs) < unat (tz_vocabSize t)" using assms(1) build_fails [of t hs] by fastforce
  have "fst ` set (tz_hashToToken t') = set hs"
    using assms(1) unfolding build_sound [OF c]
    by (auto simp: image_set simp del: set_map upt_Suc)
  then show ?thesis using assms(2) by (simp add: map_of_eq_None_iff)
qed

section \<open>Tokens are stable and injective\<close>

text \<open>The operations that use a tokenizer, and those that start it over.\<close>

inductive tokenizer_use :: "tile_tokenizer \<Rightarrow> tile_tokenizer \<Rightarrow> bool" where
  use_lookup: "tokenizer_use t (snd (tokenForHash ph t))"
| use_remap: "tokenizer_use t (snd (tileIdTokenRemapBuild hs t))"
| use_frame: "tokenizer_use t (snd (makeNesTileTokenFrame f t))"
| use_freeze: "tokenizer_use t (tok_freeze t)"

inductive tokenizer_reachable :: "tile_tokenizer \<Rightarrow> bool" where
  tr_new: "newTokenizer v = Some t \<Longrightarrow> tokenizer_reachable t"
| tr_use: "tokenizer_reachable t \<Longrightarrow> tokenizer_use t t' \<Longrightarrow> tokenizer_reachable t'"
| tr_build: "tokenizer_reachable t \<Longrightarrow> tokenizer_reachable (snd (buildVocabulary hs t))"
| tr_reset: "tokenizer_reachable t \<Longrightarrow> tokenizer_reachable (tok_reset t)"

lemma frame_tokenizer: "snd (makeNesTileTokenFrame f t) =
    snd (tokenLoop ''NesTileTokenFrame: Failed to tokenize cell '' 0 (tf_tilePatternHashes f) t)"
  by (simp add: makeNesTileTokenFrame_def split: prod.split sum.split)

lemma use_sound: "tokenizer_use t t' \<Longrightarrow> tok_ok t \<Longrightarrow> tok_ok t' \<and> extends t t'"
proof (induction rule: tokenizer_use.induct)
  case (use_lookup t ph)
  then show ?case using lookup_sound [of t ph] by (cases "tokenForHash ph t") auto
next
  case (use_remap t hs)
  then show ?case using loop_sound [OF use_remap] unfolding tileIdTokenRemapBuild_def by (metis prod.collapse)
next
  case (use_frame t f)
  then show ?case using loop_sound [OF use_frame] unfolding frame_tokenizer by (metis prod.collapse)
qed simp

lemma reachable_tok_ok: "tokenizer_reachable t \<Longrightarrow> tok_ok t"
  by (induction rule: tokenizer_reachable.induct) (simp_all add: new_ok use_sound build_ok tok_reset_ok)

lemma uses_sound: "tokenizer_use\<^sup>*\<^sup>* t t' \<Longrightarrow> tok_ok t \<Longrightarrow> tok_ok t' \<and> extends t t'"
  by (induction rule: rtranclp_induct) (auto dest: use_sound intro: extends_trans)

text \<open>
  C22: Tokens are stable. On any tokenizer that a sequence of operations can produce, a token that
  was given out for a pattern is not the void token, stays below the size of the vocabulary, is
  given again for that pattern after any further lookups, remaps, frames and freezing, without
  changing the tokenizer, and is never given for another pattern.
\<close>

theorem tokens_stable:
  assumes "tokenizer_reachable t" "tokenForHash (Some h) t = (okay k, t1)" "tokenizer_use\<^sup>*\<^sup>* t1 t2"
  shows "tokenForHash (Some h) t2 = (okay k, t2) \<and> k \<noteq> VoidToken \<and> k < tz_vocabSize t2 \<and>
    (\<forall>h' t3. tokenForHash (Some h') t2 = (okay k, t3) \<longrightarrow> h' = h)"
proof -
  have "tok_ok t1 \<and> map_of (tz_hashToToken t1) h = Some k"
    using lookup_sound [OF reachable_tok_ok [OF assms(1)] assms(2)] by blast
  with uses_sound [OF assms(3)] have ok: "tok_ok t2" and k: "map_of (tz_hashToToken t2) h = Some k"
    by (auto dest: extendsD)
  have "h' = h" if "tokenForHash (Some h') t2 = (okay k, t3)" for h' t3
  proof -
    have "tok_ok t3 \<and> extends t2 t3 \<and> map_of (tz_hashToToken t3) h' = Some k"
      using lookup_sound [OF ok that] by blast
    then show ?thesis using extendsD [OF _ k] token_injective by blast
  qed
  moreover have "unat (tz_nextToken t2) \<le> unat (tz_vocabSize t2)" using ok by (simp add: tok_ok_def)
  then have "k \<noteq> VoidToken" "k < tz_vocabSize t2"
    using token_range [OF ok k] by (auto simp: VoidToken_def word_less_nat_alt)
  ultimately show ?thesis using lookup_known [OF k] by blast
qed

definition three_tiles :: tile_tokenizer where
  "three_tiles = snd (buildVocabulary [30, 10, 20, 10] \<lparr>tz_hashToToken = [], tz_mode = Tok_Learning, tz_nextToken = 1, tz_vocabSize = 8\<rparr>)"

lemma three_tiles_reachable: "tokenizer_reachable three_tiles"
  unfolding three_tiles_def by (rule tr_build, rule tr_new [of 8]) (simp add: newTokenizer_def VoidToken_def)

lemma three_tiles_eq: "three_tiles =
  \<lparr>tz_hashToToken = [(10, 1), (20, 2), (30, 3)], tz_mode = Tok_Learning, tz_nextToken = 4, tz_vocabSize = 8\<rparr>"
  by (simp add: three_tiles_def buildVocabulary_def VoidToken_def assignStep_def emplace_def)

theorem tokens_stable_witness:
  "fst (tokenForHash (Some 20) (tok_freeze three_tiles)) = okay 2"
proof -
  have "tokenForHash (Some 20) three_tiles = (okay 2, three_tiles)"
    by (simp add: three_tiles_eq tokenForHash_def)
  from tokens_stable [OF three_tiles_reachable this r_into_rtranclp [of tokenizer_use, OF use_freeze]] show ?thesis by simp
qed

text \<open>
  A vocabulary depends only on the set of its samples: building it from the same patterns in
  another order and multiplicity, on any tokenizer with the same vocabulary size, gives the same
  number of patterns or the same error, and on success the same tokenizer and vocabulary hash. It
  fails exactly when there are as many patterns as the vocabulary has tokens, and then the tokenizer
  is left as it was.
\<close>

theorem vocabulary_depends_on_set:
  assumes "set hs = set hs'" "tz_vocabSize t = tz_vocabSize t'"
  shows "fst (buildVocabulary hs t) = fst (buildVocabulary hs' t') \<and>
    (isError (fst (buildVocabulary hs t)) \<longleftrightarrow> unat (tz_vocabSize t) \<le> card (set hs)) \<and>
    (if isError (fst (buildVocabulary hs t))
     then snd (buildVocabulary hs t) = t
     else snd (buildVocabulary hs t) = snd (buildVocabulary hs' t') \<and>
       getVocabularyHash (tok_freeze (snd (buildVocabulary hs t))) =
       getVocabularyHash (tok_freeze (snd (buildVocabulary hs' t'))))"
proof (cases "card (set hs) < unat (tz_vocabSize t)")
  case True
  then have c': "card (set hs') < unat (tz_vocabSize t')" using assms by simp
  have "snd (buildVocabulary hs t) = snd (buildVocabulary hs' t')"
    unfolding build_sound [OF True] build_sound [OF c'] using assms by (cases t, cases t') simp
  then show ?thesis
    using True unfolding build_sound [OF True] build_sound [OF c'] by (simp add: assms(1))
next
  case False
  then show ?thesis
    using assms build_fails [of t hs] by (auto simp: buildVocabulary_def unique_hashes Let_def)
qed

theorem vocabulary_depends_on_set_witness:
  "snd (buildVocabulary [30, 10, 20, 10] three_tiles) = snd (buildVocabulary [10, 20, 30] (tok_freeze three_tiles))"
proof -
  have "set [30, 10, 20, 10 :: u64] = set [10, 20, 30]" "tz_vocabSize three_tiles = tz_vocabSize (tok_freeze three_tiles)"
    by (auto simp: tok_freeze_def)
  note this = vocabulary_depends_on_set [OF this]
  moreover have "\<not> unat (tz_vocabSize three_tiles) \<le> card (set [30, 10, 20, 10 :: u64])"
    by (simp add: three_tiles_eq card_insert_if)
  ultimately show ?thesis by metis
qed

section \<open>Frames of sampled snapshots\<close>

text \<open>The samples of some snapshots, one after the other.\<close>

primrec sample_all :: "ppu_snapshot list \<Rightarrow> vocabulary_builder \<Rightarrow> vocabulary_builder option" where
  "sample_all [] b = Some b"
| "sample_all (s # ss) b = Option.bind (addSnapshot s b) (sample_all ss)"

lemma add_snapshot:
  assumes "snapshot_wf s"
  shows "\<exists>b'. addSnapshot s b = Some b' \<and> set b' = set b \<union> range (pattern_hash s) \<and> b' \<noteq> []"
proof -
  have "pattern_hash s t \<in> (\<lambda>i. pattern_hash s (of_nat i)) ` {0..<256}" for t
    using u8_less [of t] by (intro image_eqI [of _ _ "unat t"]) simp_all
  then have "range (pattern_hash s) = (\<lambda>i. pattern_hash s (of_nat i)) ` {0..<256}" by auto
  moreover have "set (tf_tilePatternHashes (frame_of s True)) \<subseteq> range (pattern_hash s)"
    by (auto simp: frame_of_def Let_def)
  ultimately show ?thesis
    by (auto simp: addSnapshot_def tile_hashes [OF assms] frame_total [OF assms] addFrame_def)
qed

lemma sample_all_sound:
  "\<forall>s \<in> set ss. snapshot_wf s \<Longrightarrow>
   \<exists>b'. sample_all ss b = Some b' \<and> set b \<subseteq> set b' \<and> (\<forall>s \<in> set ss. range (pattern_hash s) \<subseteq> set b')"
proof (induction ss arbitrary: b)
  case (Cons s ss)
  obtain b1 where b1: "addSnapshot s b = Some b1" "set b1 = set b \<union> range (pattern_hash s)"
    using add_snapshot [of s b] Cons.prems by auto
  obtain b2 where "sample_all ss b1 = Some b2" "set b1 \<subseteq> set b2" "\<forall>s \<in> set ss. range (pattern_hash s) \<subseteq> set b2"
    using Cons.IH [of b1] Cons.prems by auto
  with b1 show ?case by auto
qed simp

text \<open>A tokenizer that knows every pattern of a snapshot's table.\<close>

definition knows_tiles :: "tile_tokenizer \<Rightarrow> ppu_snapshot \<Rightarrow> bool" where
  "knows_tiles t s = (\<forall>tile. map_of (tz_hashToToken t) (pattern_hash s tile) \<noteq> None)"

lemma frozen_covers:
  assumes "tokenizer_reachable t" "\<forall>s \<in> set ss. snapshot_wf s" "sample_all ss [] = Some b"
    and "buildFrozenTokenizer b t = (okay res, t')" "s \<in> set ss"
    and "\<forall>tile. pattern_hash s' tile = pattern_hash s tile"
  shows "tok_ok t' \<and> knows_tiles t' s'"
proof -
  obtain n t0 where b: "buildVocabulary b t = (okay n, t0)" "t' = tok_freeze t0"
    using assms(4) by (auto simp: buildFrozenTokenizer_def split: if_splits prod.splits sum.splits)
  have "pattern_hash s' tile \<in> set b" for tile
    using sample_all_sound [OF assms(2), of "[]"] assms(3,5,6) by auto
  then have "knows_tiles t' s'" using build_knows [OF b(1)] unfolding knows_tiles_def by (simp add: b(2) tok_freeze_def)
  moreover have "tok_ok t'" using build_ok [OF reachable_tok_ok [OF assms(1)], of b] b by simp
  ultimately show ?thesis by blast
qed

text \<open>The token a tokenizer has for a tile.\<close>

definition tile_token :: "tile_tokenizer \<Rightarrow> ppu_snapshot \<Rightarrow> u8 \<Rightarrow> u16" where
  "tile_token t s tile = the (map_of (tz_hashToToken t) (pattern_hash s tile))"

lemma covered:
  assumes "tok_ok t" "knows_tiles t s"
  shows "map_of (tz_hashToToken t) (pattern_hash s tile) = Some (tile_token t s tile)"
    "tile_token t s tile \<noteq> VoidToken \<and> tile_token t s tile < tz_vocabSize t"
proof -
  show k: "map_of (tz_hashToToken t) (pattern_hash s tile) = Some (tile_token t s tile)"
    using assms(2) by (auto simp: knows_tiles_def tile_token_def)
  have "unat (tz_nextToken t) \<le> unat (tz_vocabSize t)" using assms(1) by (simp add: tok_ok_def)
  then show "tile_token t s tile \<noteq> VoidToken \<and> tile_token t s tile < tz_vocabSize t"
    using token_range [OF assms(1) k] by (auto simp: VoidToken_def word_less_nat_alt)
qed

lemma covered_frame:
  assumes "tok_ok t" "knows_tiles t s"
  shows "makeNesTileTokenFrame (frame_of s inc) t =
    (okay \<lparr>tk_frameId = pp_frameId s, tk_scrollX = scrollXFromV s, tk_scrollY = scrollYFromV s,
           tk_tokens = map (tile_token t s) (tf_tileIds (frame_of s inc))\<rparr>, t)"
proof -
  let ?f = "frame_of s inc"
  have "tf_tilePatternHashes ?f = map (pattern_hash s) (tf_tileIds ?f)" "tf_frameId ?f = pp_frameId s"
    "tf_scrollX ?f = scrollXFromV s" "tf_scrollY ?f = scrollYFromV s" by (simp_all add: frame_of_def Let_def)
  moreover have "tokenLoop msg 0 (map (pattern_hash s) xs) t = (okay (map (tile_token t s) xs), t)" for msg xs
    by (rule loop_map) (simp add: covered(1) [OF assms])
  ultimately show ?thesis by (simp add: makeNesTileTokenFrame_def)
qed

lemma covered_remap:
  assumes "tok_ok t" "knows_tiles t s"
  shows "tileIdTokenRemapBuild (map (\<lambda>i. pattern_hash s (of_nat i)) [0..<256]) t =
    (okay (map (\<lambda>i. tile_token t s (of_nat i)) [0..<256]), t)"
  unfolding tileIdTokenRemapBuild_def by (rule loop_map) (simp add: covered(1) [OF assms])

text \<open>
  A frozen vocabulary covers its samples. When a vocabulary is built from the samples of some
  snapshots and frozen, the tile frame of each of them, and of every snapshot with the same pattern
  table, is turned into tokens without an error and without changing the tokenizer: the token of a
  cell is the one that the remap table has for the cell's tile, it is never void, and it is below
  the vocabulary size.
\<close>

theorem frozen_vocabulary_covers_samples:
  assumes "tokenizer_reachable t" "\<forall>s \<in> set ss. snapshot_wf s" "sample_all ss [] = Some b"
    and "buildFrozenTokenizer b t = (okay res, t')" "s \<in> set ss"
    and "snapshot_wf s'" "\<forall>tile. pattern_hash s' tile = pattern_hash s tile"
  shows "\<exists>f hashes remap tokens. makeNesTileFrame s' inc = Some f \<and> makeNesTileIdPatternHashes s' = Some hashes \<and>
    tileIdTokenRemapBuild hashes t' = (okay remap, t') \<and>
    makeNesTileTokenFrame f t' =
      (okay \<lparr>tk_frameId = tf_frameId f, tk_scrollX = tf_scrollX f, tk_scrollY = tf_scrollY f, tk_tokens = tokens\<rparr>, t') \<and>
    tokens = map (\<lambda>tile. remap ! unat tile) (tf_tileIds f) \<and> length tokens = 896 \<and>
    (\<forall>k \<in> set tokens. k \<noteq> VoidToken \<and> k < tz_vocabSize t')"
proof -
  have c: "tok_ok t'" "knows_tiles t' s'" using frozen_covers [OF assms(1-5,7)] by auto
  have "map (\<lambda>i. tile_token t' s' (of_nat i)) [0..<256] ! unat tile = tile_token t' s' tile" for tile :: u8
    using u8_less [of tile] by simp
  moreover have "length (tf_tileIds (frame_of s' inc)) = 896" "tf_frameId (frame_of s' inc) = pp_frameId s'"
    "tf_scrollX (frame_of s' inc) = scrollXFromV s'" "tf_scrollY (frame_of s' inc) = scrollYFromV s'"
    by (simp_all add: frame_of_def Let_def)
  ultimately show ?thesis
    using frame_total [OF assms(6)] tile_hashes [OF assms(6)] covered_remap [OF c] covered_frame [OF c] covered(2) [OF c]
    by auto
qed

lemma plain_pattern: "pattern_hash plain_snapshot t = pattern_hash plain_snapshot 0"
proof -
  have "pp_chr plain_snapshot ! (tilePatternBaseOffset plain_snapshot t + i) = 170" if "i < 16" for t i
    using pattern_base [of plain_snapshot t] that by (simp add: plain_snapshot_def)
  then show ?thesis unfolding pattern_hash_def by (intro foldl_cong) auto
qed

lemma plain_samples:
  "\<exists>b res t'. sample_all [plain_snapshot] [] = Some b \<and> buildFrozenTokenizer b three_tiles = (okay res, t')"
proof -
  obtain b where b: "addSnapshot plain_snapshot [] = Some b" "set b = range (pattern_hash plain_snapshot)" "b \<noteq> []"
    using add_snapshot [OF plain_snapshot_wf, of "[]"] by auto
  have "set b = {pattern_hash plain_snapshot 0}" using b(2) plain_pattern by auto
  then have "card (set b) < unat (tz_vocabSize three_tiles)" by (simp add: three_tiles_eq)
  from build_sound [OF this] b show ?thesis by (simp add: buildFrozenTokenizer_def)
qed

theorem frozen_vocabulary_covers_samples_witness:
  "\<exists>b res t' f tokens. sample_all [plain_snapshot] [] = Some b \<and> buildFrozenTokenizer b three_tiles = (okay res, t') \<and>
     makeNesTileFrame plain_snapshot False = Some f \<and> fst (makeNesTileTokenFrame f t') = okay tokens \<and>
     length (tk_tokens tokens) = 896"
proof -
  obtain b res t' where b: "sample_all [plain_snapshot] [] = Some b" "buildFrozenTokenizer b three_tiles = (okay res, t')"
    using plain_samples by blast
  have "\<forall>s \<in> set [plain_snapshot]. snapshot_wf s" by (simp add: plain_snapshot_wf)
  from frozen_vocabulary_covers_samples [OF three_tiles_reachable this b _ plain_snapshot_wf, of plain_snapshot False]
  show ?thesis using b by fastforce
qed

end
