(* ===== verification/NesTileSenses.thy ===== *)
theory NesTileSenses
  imports NesTokenizer SmbAdapter
begin

text \<open>
  What a player senses of a NES screen: core/scenarios/nes/NesPlayerRelativeTileFrame.{h,cpp},
  NesTileSensoryData.{h,cpp}, NesTileSensoryBuilder.{h,cpp}, NesTileBrainMetadata.cpp, and the input
  that the Super Mario adapter gives to the builder. Pixels and tile coordinates, 16-bit in the
  code, are integers: for a 16-bit pixel every value that the code computes fits (\<open>fits_i16\<close>).
  Floats are reals.
\<close>

section \<open>The frame around the player\<close>

definition AnchorTileColumn :: int where "AnchorTileColumn = 31"
definition AnchorTileRow :: int where "AnchorTileRow = 27"
definition RelativeTileColumns :: int where "RelativeTileColumns = 63"
definition RelativeTileRows :: int where "RelativeTileRows = 55"

lemmas relative_consts = AnchorTileColumn_def AnchorTileRow_def RelativeTileColumns_def RelativeTileRows_def

record relative_tile_frame =
  rf_frameId :: u64
  rf_scrollX :: u16
  rf_scrollY :: u16
  rf_playerScreenX :: int
  rf_playerScreenY :: int
  rf_playerTileColumn :: int
  rf_playerTileRow :: int
  rf_tokens :: "u16 list"

definition tileCoordinateForPixel :: "int \<Rightarrow> int" where
  "tileCoordinateForPixel pixel = (if pixel \<ge> 0 then pixel div 8 else - ((- pixel + 8 - 1) div 8))"

definition relativeTileIndex :: "int \<Rightarrow> int \<Rightarrow> nat" where
  "relativeTileIndex column row = nat row * 63 + nat column"

definition screenTileIndex :: "int \<Rightarrow> int \<Rightarrow> nat" where
  "screenTileIndex column row = nat row * 32 + nat column"

text \<open>One turn of the inner loop, for a tile of the screen.\<close>

definition placeTile :: "tile_token_frame \<Rightarrow> int \<Rightarrow> int \<Rightarrow> u16 list \<Rightarrow> int \<times> int \<Rightarrow> u16 list" where
  "placeTile tokenFrame playerColumn playerRow tokens pos =
     (let (screenRow, screenColumn) = pos;
          relativeColumn = AnchorTileColumn + screenColumn - playerColumn;
          relativeRow = AnchorTileRow + screenRow - playerRow
      in if relativeColumn < 0 \<or> relativeColumn \<ge> RelativeTileColumns \<or>
            relativeRow < 0 \<or> relativeRow \<ge> RelativeTileRows
         then tokens
         else tokens[relativeTileIndex relativeColumn relativeRow :=
                tk_tokens tokenFrame ! screenTileIndex screenColumn screenRow])"

definition makeNesPlayerRelativeTileFrame :: "tile_token_frame \<Rightarrow> int \<Rightarrow> int \<Rightarrow> relative_tile_frame" where
  "makeNesPlayerRelativeTileFrame tokenFrame playerScreenX playerScreenY =
     (let playerColumn = tileCoordinateForPixel playerScreenX;
          playerRow = tileCoordinateForPixel playerScreenY
      in \<lparr>rf_frameId = tk_frameId tokenFrame, rf_scrollX = tk_scrollX tokenFrame,
          rf_scrollY = tk_scrollY tokenFrame, rf_playerScreenX = playerScreenX,
          rf_playerScreenY = playerScreenY, rf_playerTileColumn = playerColumn,
          rf_playerTileRow = playerRow,
          rf_tokens = foldl (placeTile tokenFrame playerColumn playerRow)
            (replicate (nat (RelativeTileColumns * RelativeTileRows)) VoidToken)
            (List.product [0..27] [0..31])\<rparr>)"

section \<open>Sensory data\<close>

record tile_sensory =
  td_tileFrame :: relative_tile_frame
  td_facingX :: real
  td_selfViewX :: real
  td_selfViewY :: real
  td_previousControlX :: real
  td_previousControlY :: real
  td_previousA :: bool
  td_previousB :: bool
  td_specialSenses :: "real list"
  td_energy :: real
  td_health :: real
  td_deltaTimeSeconds :: real

definition new_tile_sensory :: "relative_tile_frame \<Rightarrow> tile_sensory" where
  "new_tile_sensory f = \<lparr>td_tileFrame = f, td_facingX = 0, td_selfViewX = 1 / 2, td_selfViewY = 1 / 2,
     td_previousControlX = 0, td_previousControlY = 0, td_previousA = False, td_previousB = False,
     td_specialSenses = replicate 32 0, td_energy = 1, td_health = 1, td_deltaTimeSeconds = 0\<rparr>"

definition setNesTilePreviousControlFromControllerMask :: "u8 \<Rightarrow> tile_sensory \<Rightarrow> tile_sensory" where
  "setNesTilePreviousControlFromControllerMask controllerMask td =
     (let leftHeld = (controllerMask AND Nes_ButtonLeft \<noteq> 0); rightHeld = (controllerMask AND Nes_ButtonRight \<noteq> 0);
          upHeld = (controllerMask AND Nes_ButtonUp \<noteq> 0); downHeld = (controllerMask AND Nes_ButtonDown \<noteq> 0)
      in td\<lparr>td_previousControlX := (if leftHeld \<noteq> rightHeld then (if leftHeld then -1 else 1) else 0),
            td_previousControlY := (if upHeld \<noteq> downHeld then (if upHeld then -1 else 1) else 0),
            td_previousA := (controllerMask AND Nes_ButtonA \<noteq> 0),
            td_previousB := (controllerMask AND Nes_ButtonB \<noteq> 0)\<rparr>)"

record tile_builder_input =
  bi_playerScreenX :: int
  bi_playerScreenY :: int
  bi_facingX :: real
  bi_selfViewX :: real
  bi_selfViewY :: real
  bi_controllerMask :: u8
  bi_specialSenses :: "real list"
  bi_energy :: real
  bi_health :: real
  bi_deltaTimeSeconds :: real

definition applyBuilderInput :: "tile_builder_input \<Rightarrow> tile_sensory \<Rightarrow> tile_sensory" where
  "applyBuilderInput input td =
     (setNesTilePreviousControlFromControllerMask (bi_controllerMask input)
        (td\<lparr>td_facingX := bi_facingX input, td_selfViewX := bi_selfViewX input, td_selfViewY := bi_selfViewY input\<rparr>))
     \<lparr>td_specialSenses := bi_specialSenses input, td_energy := bi_energy input, td_health := bi_health input,
      td_deltaTimeSeconds := bi_deltaTimeSeconds input\<rparr>"

definition makeNesTileSensoryDataFromTileFrame ::
    "nes_tile_frame \<Rightarrow> tile_tokenizer \<Rightarrow> tile_builder_input \<Rightarrow> tile_sensory result \<times> tile_tokenizer" where
  "makeNesTileSensoryDataFromTileFrame tileFrame t input =
     (case makeNesTileTokenFrame tileFrame t of
        (Inl e, t) \<Rightarrow> (error (''NesTileSensoryBuilder: Failed to tokenize tile frame: '' @ e), t)
      | (Inr tokenFrame, t) \<Rightarrow>
          (okay (applyBuilderInput input (new_tile_sensory
             (makeNesPlayerRelativeTileFrame tokenFrame (bi_playerScreenX input) (bi_playerScreenY input)))), t))"

definition makeNesTileSensoryDataFromPpuSnapshot ::
    "ppu_snapshot \<Rightarrow> tile_tokenizer \<Rightarrow> tile_builder_input \<Rightarrow> (tile_sensory result \<times> tile_tokenizer) option" where
  "makeNesTileSensoryDataFromPpuSnapshot s t input = do {
     frame \<leftarrow> makeNesTileFrame s True;
     Some (makeNesTileSensoryDataFromTileFrame frame t input)
   }"

text \<open>The input from the Super Mario adapter; the scroll is the one of the tile frame, if there is one.\<close>

definition makeNesTileSensoryBuilderInput ::
    "smb_adapter \<Rightarrow> u8 \<Rightarrow> real \<Rightarrow> u16 option \<Rightarrow> tile_builder_input" where
  "makeNesTileSensoryBuilderInput ad controllerMask deltaTimeSeconds tileFrameScrollX =
     (let (x, y) = (case cachedTileGameplayState ad of
              None \<Rightarrow> (cachedTilePlayerScreenX ad, cachedTilePlayerScreenY ad)
            | Some s \<Rightarrow>
                (case tileFrameScrollX of None \<Rightarrow> cachedTilePlayerScreenX ad
                 | Some scrollX \<Rightarrow> playerTileScreenX s scrollX, playerTileScreenY s))
      in \<lparr>bi_playerScreenX = x, bi_playerScreenY = y, bi_facingX = cachedFacingX ad,
          bi_selfViewX = cachedSelfViewX ad, bi_selfViewY = cachedSelfViewY ad,
          bi_controllerMask = controllerMask, bi_specialSenses = cachedSpecialSenses ad,
          bi_energy = 1, bi_health = 1, bi_deltaTimeSeconds = deltaTimeSeconds\<rparr>)"

section \<open>Compatibility of a checkpoint\<close>

definition CurrentSchemaVersion :: int where "CurrentSchemaVersion = 1"
definition TileVocabularySize :: int where "TileVocabularySize = 512"
definition TileEmbeddingDim :: int where "TileEmbeddingDim = 4"
definition ScalarInputSize :: int where "ScalarInputSize = 44"
definition H1Size :: int where "H1Size = 64"
definition H2Size :: int where "H2Size = 32"
definition OutputSize :: int where "OutputSize = 4"

definition makeNesTileBrainCompatibilityMetadata :: "tile_tokenizer \<Rightarrow> tile_compatibility" where
  "makeNesTileBrainCompatibilityMetadata t =
     \<lparr>tcm_schemaVersion = CurrentSchemaVersion, tcm_tileVocabularySize = TileVocabularySize,
      tcm_tileEmbeddingDim = TileEmbeddingDim, tcm_relativeTileColumns = RelativeTileColumns,
      tcm_relativeTileRows = RelativeTileRows, tcm_scalarInputSize = ScalarInputSize, tcm_h1Size = H1Size,
      tcm_h2Size = H2Size, tcm_outputSize = OutputSize, tcm_voidTokenId = VoidToken,
      tcm_tokenizerVocabularyHash = getVocabularyHash t\<rparr>"

definition mismatchMessage :: "string \<Rightarrow> string \<Rightarrow> string \<Rightarrow> string" where
  "mismatchMessage field actual expected =
     ''NES tile brain compatibility mismatch for '' @ field @ '': checkpoint='' @ actual @ '', current='' @ expected"

definition checkField :: "string \<Rightarrow> ('a \<Rightarrow> string) \<Rightarrow> 'a \<Rightarrow> 'a \<Rightarrow> unit result \<Rightarrow> unit result" where
  "checkField field text actual expected rest =
     (if actual \<noteq> expected then error (mismatchMessage field (text actual) (text expected)) else rest)"

definition validateNesTileBrainCompatibilityMetadata :: "tile_compatibility \<Rightarrow> tile_compatibility \<Rightarrow> unit result" where
  "validateNesTileBrainCompatibilityMetadata a e =
     checkField ''schemaVersion'' to_string (tcm_schemaVersion a) (tcm_schemaVersion e) (
     checkField ''tileVocabularySize'' to_string (tcm_tileVocabularySize a) (tcm_tileVocabularySize e) (
     checkField ''tileEmbeddingDim'' to_string (tcm_tileEmbeddingDim a) (tcm_tileEmbeddingDim e) (
     checkField ''relativeTileColumns'' to_string (tcm_relativeTileColumns a) (tcm_relativeTileColumns e) (
     checkField ''relativeTileRows'' to_string (tcm_relativeTileRows a) (tcm_relativeTileRows e) (
     checkField ''scalarInputSize'' to_string (tcm_scalarInputSize a) (tcm_scalarInputSize e) (
     checkField ''h1Size'' to_string (tcm_h1Size a) (tcm_h1Size e) (
     checkField ''h2Size'' to_string (tcm_h2Size a) (tcm_h2Size e) (
     checkField ''outputSize'' to_string (tcm_outputSize a) (tcm_outputSize e) (
     checkField ''voidTokenId'' (\<lambda>w. to_string (uint w)) (tcm_voidTokenId a) (tcm_voidTokenId e) (
     checkField ''tokenizerVocabularyHash'' (\<lambda>h. h) (tcm_tokenizerVocabularyHash a) (tcm_tokenizerVocabularyHash e)
       (okay ())))))))))))"

section \<open>Where the tiles go\<close>

lemma tileCoordinate_floor: "tileCoordinateForPixel p = p div 8"
proof (cases "p \<ge> 0")
  case False
  have "p div 8 = - ((7 - p) div 8)" by presburger
  then show ?thesis using False by (simp add: tileCoordinateForPixel_def)
qed (simp add: tileCoordinateForPixel_def)

lemma fits_i16:
  assumes "- 32768 \<le> p" "p < 32768" "0 \<le> c" "c < 32"
  shows "- 4096 \<le> tileCoordinateForPixel p \<and> tileCoordinateForPixel p < 4096 \<and>
    - 32768 \<le> AnchorTileColumn + c - tileCoordinateForPixel p \<and> AnchorTileColumn + c - tileCoordinateForPixel p < 32768"
proof -
  have "- 4096 \<le> p div 8" "p div 8 < 4096" using assms(1,2) by presburger+
  with assms(3,4) show ?thesis by (simp add: tileCoordinate_floor relative_consts)
qed

text \<open>A fold that writes each cell at most once.\<close>

lemma foldl_updates:
  fixes P :: "'p \<Rightarrow> bool" and ix :: "'p \<Rightarrow> nat" and v :: "'p \<Rightarrow> 'a"
  defines "F \<equiv> \<lambda>xs p. if P p then xs[ix p := v p] else xs"
  assumes "inj_on ix {p \<in> set ps. P p}" "\<forall>p \<in> set ps. P p \<longrightarrow> ix p < length xs"
  shows "length (foldl F xs ps) = length xs \<and> (\<forall>p \<in> set ps. P p \<longrightarrow> foldl F xs ps ! ix p = v p) \<and>
    (\<forall>k. (\<forall>p \<in> set ps. P p \<longrightarrow> ix p \<noteq> k) \<longrightarrow> foldl F xs ps ! k = xs ! k)"
  using assms(2,3)
proof (induction ps rule: rev_induct)
  case (snoc q ps)
  have "inj_on ix {p \<in> set ps. P p}" using snoc.prems(1) by (rule inj_on_subset) auto
  with snoc have IH: "length (foldl F xs ps) = length xs" "\<forall>p \<in> set ps. P p \<longrightarrow> foldl F xs ps ! ix p = v p"
    "\<forall>k. (\<forall>p \<in> set ps. P p \<longrightarrow> ix p \<noteq> k) \<longrightarrow> foldl F xs ps ! k = xs ! k" by simp_all
  show ?case
  proof (cases "P q")
    case True
    have q: "ix q < length (foldl F xs ps)" using snoc.prems(2) True IH(1) by simp
    have "p = q" if "p \<in> set ps" "P p" "ix p = ix q" for p
      using snoc.prems(1) that True unfolding inj_on_def by simp
    then show ?thesis using IH q True by (auto simp: F_def nth_list_update)
  next
    case False
    then show ?thesis using IH by (simp add: F_def)
  qed
qed simp

definition on_relative :: "int \<Rightarrow> int \<Rightarrow> int \<times> int \<Rightarrow> bool" where
  "on_relative pc pr pos =
     (0 \<le> 31 + snd pos - pc \<and> 31 + snd pos - pc < 63 \<and> 0 \<le> 27 + fst pos - pr \<and> 27 + fst pos - pr < 55)"

lemma index_inj:
  assumes "nat r * 63 + nat c = nat r' * 63 + nat c'" "0 \<le> c" "c < 63" "0 \<le> c'" "c' < 63" "0 \<le> r" "0 \<le> r'"
  shows "r = r' \<and> c = c'"
proof -
  have "nat c < 63" "nat c' < 63" using assms(3,5) by simp_all
  moreover have "a = b \<and> x = y" if "a * 63 + x = b * 63 + y" "x < 63" "y < 63" for a b x y :: nat
    using that by presburger
  ultimately have "nat r = nat r' \<and> nat c = nat c'" using assms(1) by blast
  then show ?thesis using assms(2,4,6,7) by (simp add: eq_nat_nat_iff)
qed

lemma relative_tokens:
  fixes f :: tile_token_frame and pc pr :: int
  defines "ts \<equiv> foldl (placeTile f pc pr) (replicate (nat (RelativeTileColumns * RelativeTileRows)) VoidToken)
    (List.product [0..27] [0..31])"
  assumes "0 \<le> c" "c < 63" "0 \<le> r" "r < 55"
  shows "length ts = 3465"
    and "ts ! relativeTileIndex c r = (if 0 \<le> c - 31 + pc \<and> c - 31 + pc < 32 \<and> 0 \<le> r - 27 + pr \<and> r - 27 + pr < 28
      then tk_tokens f ! screenTileIndex (c - 31 + pc) (r - 27 + pr) else VoidToken)"
proof -
  let ?ps = "List.product [0..27] [0..31] :: (int \<times> int) list"
  let ?ix = "\<lambda>p. relativeTileIndex (31 + snd p - pc) (27 + fst p - pr)"
  let ?v = "\<lambda>p. tk_tokens f ! screenTileIndex (snd p) (fst p)"
  let ?init = "replicate (nat (RelativeTileColumns * RelativeTileRows)) VoidToken"
  have step: "placeTile f pc pr = (\<lambda>xs p. if on_relative pc pr p then xs[?ix p := ?v p] else xs)"
    by (auto simp: fun_eq_iff placeTile_def on_relative_def relative_consts Let_def)
  have inj: "inj_on ?ix {p \<in> set ?ps. on_relative pc pr p}"
    by (auto intro!: inj_onI simp: on_relative_def relativeTileIndex_def dest!: index_inj)
  have "?ix p < length ?init" if "on_relative pc pr p" for p
  proof -
    have "nat (27 + fst p - pr) \<le> 54" "nat (31 + snd p - pc) \<le> 62" using that unfolding on_relative_def by linarith+
    then have "?ix p \<le> 54 * 63 + 62" unfolding relativeTileIndex_def by linarith
    then show ?thesis by (simp add: relative_consts)
  qed
  with foldl_updates [OF inj, of ?init ?v] have F: "length ts = length ?init"
    "\<And>p. p \<in> set ?ps \<Longrightarrow> on_relative pc pr p \<Longrightarrow> ts ! ?ix p = ?v p"
    "\<And>k. (\<forall>p \<in> set ?ps. on_relative pc pr p \<longrightarrow> ?ix p \<noteq> k) \<Longrightarrow> ts ! k = ?init ! k"
    unfolding ts_def step by auto
  show "length ts = 3465" using F(1) by (simp add: relative_consts)
  let ?q = "(r - 27 + pr, c - 31 + pc)"
  have q: "on_relative pc pr ?q" "?ix ?q = relativeTileIndex c r" using assms(2-5) by (simp_all add: on_relative_def)
  show "ts ! relativeTileIndex c r = (if 0 \<le> c - 31 + pc \<and> c - 31 + pc < 32 \<and> 0 \<le> r - 27 + pr \<and> r - 27 + pr < 28
      then tk_tokens f ! screenTileIndex (c - 31 + pc) (r - 27 + pr) else VoidToken)"
  proof (cases "?q \<in> set ?ps")
    case True
    then show ?thesis using F(2) [OF True q(1)] q(2) by auto
  next
    case False
    have "?ix p \<noteq> relativeTileIndex c r" if "p \<in> set ?ps" "on_relative pc pr p" for p
    proof
      assume "?ix p = relativeTileIndex c r"
      then have "27 + fst p - pr = r \<and> 31 + snd p - pc = c"
        unfolding relativeTileIndex_def using that(2) assms(2-5) by (intro index_inj) (simp_all add: on_relative_def)
      then have "p = ?q" by (cases p) auto
      with that(1) False show False by simp
    qed
    then have "ts ! relativeTileIndex c r = ?init ! relativeTileIndex c r" by (intro F(3)) blast
    moreover have "relativeTileIndex c r < 3465"
    proof -
      have "nat r \<le> 54" "nat c \<le> 62" using assms(2-5) by simp_all
      then show ?thesis unfolding relativeTileIndex_def by linarith
    qed
    ultimately show ?thesis using False by (auto simp: relative_consts)
  qed
qed

lemma relative_cell:
  fixes f :: tile_token_frame and x y :: int
  defines "ts \<equiv> rf_tokens (makeNesPlayerRelativeTileFrame f x y)"
  shows "length ts = 3465"
    and "0 \<le> c \<Longrightarrow> c < 63 \<Longrightarrow> 0 \<le> r \<Longrightarrow> r < 55 \<Longrightarrow> ts ! (nat r * 63 + nat c) =
      (if 0 \<le> c - 31 + x div 8 \<and> c - 31 + x div 8 < 32 \<and> 0 \<le> r - 27 + y div 8 \<and> r - 27 + y div 8 < 28
       then tk_tokens f ! (nat (r - 27 + y div 8) * 32 + nat (c - 31 + x div 8)) else VoidToken)"
proof -
  note rel = relative_tokens [of _ _ f "x div 8" "y div 8", unfolded relativeTileIndex_def screenTileIndex_def]
  have ts: "ts = foldl (placeTile f (x div 8) (y div 8))
      (replicate (nat (RelativeTileColumns * RelativeTileRows)) VoidToken) (List.product [0..27] [0..31])"
    by (simp add: ts_def makeNesPlayerRelativeTileFrame_def tileCoordinate_floor Let_def)
  show "length ts = 3465" unfolding ts by (rule rel(1) [of 0 0]) simp_all
  show "ts ! (nat r * 63 + nat c) =
      (if 0 \<le> c - 31 + x div 8 \<and> c - 31 + x div 8 < 32 \<and> 0 \<le> r - 27 + y div 8 \<and> r - 27 + y div 8 < 28
       then tk_tokens f ! (nat (r - 27 + y div 8) * 32 + nat (c - 31 + x div 8)) else VoidToken)"
    if "0 \<le> c" "c < 63" "0 \<le> r" "r < 55"
    unfolding ts by (rule rel(2) [OF that])
qed

text \<open>
  The frame around the player shows the screen with the player's tile at the anchor, column 31
  and row 27: the cell at column c and row r holds the token of the screen tile c - 31 columns and
  r - 27 rows from the tile that contains the player's pixel, on either side of the screen's edge,
  and the void token where the screen has no tile. When the player is on the screen, every tile of
  the screen is in the frame and the anchor holds the tile under the player.
\<close>

theorem player_at_anchor:
  shows "(let ts = rf_tokens (makeNesPlayerRelativeTileFrame f x y) in
    length ts = 3465 \<and>
    (\<forall>c \<in> {0..<63}. \<forall>r \<in> {0..<55}.
       ts ! (nat r * 63 + nat c) =
         (let column = c - 31 + x div 8; row = r - 27 + y div 8
          in if 0 \<le> column \<and> column < 32 \<and> 0 \<le> row \<and> row < 28
             then tk_tokens f ! (nat row * 32 + nat column) else VoidToken)) \<and>
    (0 \<le> x \<and> x < 256 \<and> 0 \<le> y \<and> y < 224 \<longrightarrow>
       ts ! (27 * 63 + 31) = tk_tokens f ! (nat y div 8 * 32 + nat x div 8) \<and>
       (length (tk_tokens f) = 896 \<longrightarrow> set (tk_tokens f) \<subseteq> set ts)))"
proof -
  let ?ts = "rf_tokens (makeNesPlayerRelativeTileFrame f x y)"
  note len = relative_cell(1) [of f x y] and cell = relative_cell(2) [of _ _ f x y]
  have screen: "?ts ! (27 * 63 + 31) = tk_tokens f ! (nat y div 8 * 32 + nat x div 8)"
    "length (tk_tokens f) = 896 \<Longrightarrow> set (tk_tokens f) \<subseteq> set ?ts"
    if p: "0 \<le> x" "x < 256" "0 \<le> y" "y < 224"
  proof -
    have d: "0 \<le> x div 8" "x div 8 < 32" "0 \<le> y div 8" "y div 8 < 28" using p by simp_all
    then show "?ts ! (27 * 63 + 31) = tk_tokens f ! (nat y div 8 * 32 + nat x div 8)"
      using cell [of 31 27] p by (simp add: nat_div_distrib)
    assume l: "length (tk_tokens f) = 896"
    show "set (tk_tokens f) \<subseteq> set ?ts"
    proof
      fix k assume "k \<in> set (tk_tokens f)"
      then obtain i where i: "i < 896" "tk_tokens f ! i = k" using l by (auto simp: in_set_conv_nth)
      let ?c = "int (i mod 32) + 31 - x div 8" and ?r = "int (i div 32) + 27 - y div 8"
      have im: "i mod 32 < 32" and id: "i div 32 < 28" using i(1) by simp_all
      then have b: "0 \<le> ?c" "?c < 63" "0 \<le> ?r" "?r < 55" using d by linarith+
      have "nat ?r * 63 + nat ?c < 3465" using b by linarith
      moreover have "?ts ! (nat ?r * 63 + nat ?c) = k"
        using cell [OF b] im id i(2) by simp
      ultimately show "k \<in> set ?ts" using len nth_mem [of _ ?ts] by metis
    qed
  qed
  show ?thesis using len cell screen by (auto simp: Let_def)
qed

definition striped_tokens :: tile_token_frame where
  "striped_tokens = \<lparr>tk_frameId = 7, tk_scrollX = 0, tk_scrollY = 0, tk_tokens = map of_nat [0..<896]\<rparr>"

theorem player_at_anchor_witness:
  "rf_tokens (makeNesPlayerRelativeTileFrame striped_tokens 20 10) ! (27 * 63 + 31) = 34 \<and>
   rf_tokens (makeNesPlayerRelativeTileFrame striped_tokens 20 10) ! (27 * 63 + 28) = VoidToken"
proof -
  note p = player_at_anchor [of striped_tokens 20 10, unfolded Let_def]
  have "rf_tokens (makeNesPlayerRelativeTileFrame striped_tokens 20 10) ! (27 * 63 + 31) = 34"
    using conjunct2 [OF conjunct2 [OF p]] by (simp add: striped_tokens_def)
  moreover have "rf_tokens (makeNesPlayerRelativeTileFrame striped_tokens 20 10) ! (nat 27 * 63 + nat 28) = VoidToken"
    using bspec [OF bspec [OF conjunct1 [OF conjunct2 [OF p]], of 28], of 27] by simp
  ultimately show ?thesis by simp
qed

section \<open>What a player senses\<close>

definition axis_value :: "bool \<Rightarrow> bool \<Rightarrow> real" where
  "axis_value minus_held plus_held = (if minus_held = plus_held then 0 else if minus_held then -1 else 1)"

lemma sensory_total:
  assumes "tok_ok t" "knows_tiles t s" "snapshot_wf s"
  shows "\<exists>td. makeNesTileSensoryDataFromPpuSnapshot s t input = Some (okay td, t) \<and>
    td_tileFrame td = makeNesPlayerRelativeTileFrame
      \<lparr>tk_frameId = pp_frameId s, tk_scrollX = scrollXFromV s, tk_scrollY = scrollYFromV s,
       tk_tokens = map (tile_token t s) (tf_tileIds (frame_of s True))\<rparr> (bi_playerScreenX input) (bi_playerScreenY input) \<and>
    td_previousControlX td = axis_value (bi_controllerMask input AND Nes_ButtonLeft \<noteq> 0) (bi_controllerMask input AND Nes_ButtonRight \<noteq> 0) \<and>
    td_previousControlY td = axis_value (bi_controllerMask input AND Nes_ButtonUp \<noteq> 0) (bi_controllerMask input AND Nes_ButtonDown \<noteq> 0) \<and>
    td_specialSenses td = bi_specialSenses input"
  by (simp add: makeNesTileSensoryDataFromPpuSnapshot_def frame_total [OF assms(3)] makeNesTileSensoryDataFromTileFrame_def
      covered_frame [OF assms(1,2)] applyBuilderInput_def setNesTilePreviousControlFromControllerMask_def
      new_tile_sensory_def axis_value_def Let_def)

text \<open>
  C21: With a frozen vocabulary that was built from sampled snapshots, the senses of a player are
  always produced for a snapshot with the pattern table of a sample, wherever the player is and
  whatever is pressed, and the tokenizer stays as it was. A cell of the frame around the player is
  void exactly when it lies off the screen; on the screen it has a token of the vocabulary, the one
  of the tile that the picture processor shows there. Opposite directions held together cancel.
\<close>

theorem sampled_screen_sensed:
  assumes "tokenizer_reachable t" "\<forall>s \<in> set ss. snapshot_wf s" "sample_all ss [] = Some b"
    and "buildFrozenTokenizer b t = (okay res, t')" "s \<in> set ss"
    and "snapshot_wf s'" "\<forall>tile. pattern_hash s' tile = pattern_hash s tile"
    and "0 \<le> c" "c < 63" "0 \<le> r" "r < 55"
    and "column = c - 31 + bi_playerScreenX input div 8" "row = r - 27 + bi_playerScreenY input div 8"
    and "m = bi_controllerMask input"
  shows "\<exists>td k. makeNesTileSensoryDataFromPpuSnapshot s' t' input = Some (okay td, t') \<and>
    k = rf_tokens (td_tileFrame td) ! (nat r * 63 + nat c) \<and> k < tz_vocabSize t' \<and>
    (k = VoidToken \<longleftrightarrow> \<not> (0 \<le> column \<and> column < 32 \<and> 0 \<le> row \<and> row < 28)) \<and>
    (k \<noteq> VoidToken \<longrightarrow>
       (\<exists>tile. readNametableTileIdAtWorldPixel s' (unat (scrollXFromV s')) (unat (scrollYFromV s'))
          (8 * nat column + 4) (8 * nat row + 12) = Some tile \<and>
        fst (tokenForHash (tilePatternHash s' tile) t') = okay k)) \<and>
    td_previousControlX td = axis_value (m AND Nes_ButtonLeft \<noteq> 0) (m AND Nes_ButtonRight \<noteq> 0) \<and>
    td_previousControlY td = axis_value (m AND Nes_ButtonUp \<noteq> 0) (m AND Nes_ButtonDown \<noteq> 0)"
proof -
  have tc: "tok_ok t'" "knows_tiles t' s'" using frozen_covers [OF assms(1-5,7)] by auto
  let ?ids = "tf_tileIds (frame_of s' True)"
  let ?f = "\<lparr>tk_frameId = pp_frameId s', tk_scrollX = scrollXFromV s', tk_scrollY = scrollYFromV s',
    tk_tokens = map (tile_token t' s') ?ids\<rparr>"
  let ?k = "rf_tokens (makeNesPlayerRelativeTileFrame ?f (bi_playerScreenX input) (bi_playerScreenY input)) ! (nat r * 63 + nat c)"
  let ?on = "0 \<le> column \<and> column < 32 \<and> 0 \<le> row \<and> row < 28"
  have k: "?k = (if ?on then map (tile_token t' s') ?ids ! (nat row * 32 + nat column) else VoidToken)"
    using relative_cell(2) [OF assms(8-11), of ?f] by (simp add: assms(12,13))
  have "0 < tz_vocabSize t'" using tc(1) by (simp add: tok_ok_def word_less_nat_alt)
  have on: "?k \<noteq> VoidToken \<and> ?k < tz_vocabSize t' \<and>
      (\<exists>tile. readNametableTileIdAtWorldPixel s' (unat (scrollXFromV s')) (unat (scrollYFromV s'))
          (8 * nat column + 4) (8 * nat row + 12) = Some tile \<and> fst (tokenForHash (tilePatternHash s' tile) t') = okay ?k)" if ?on
  proof -
    have g: "nat column < 32" "nat row < 28" using that by linarith+
    let ?tile = "?ids ! (nat row * 32 + nat column)"
    have "nat row * 32 + nat column < length ?ids" using g by (simp add: frame_of_def Let_def)
    then have kt: "?k = tile_token t' s' ?tile" using k that by simp
    have "fst (tokenForHash (tilePatternHash s' ?tile) t') = okay ?k"
      by (simp add: kt tilePatternHash_eq [OF assms(6)] tokenForHash_def covered(1) [OF tc])
    moreover have "readNametableTileIdAtWorldPixel s' (unat (scrollXFromV s')) (unat (scrollYFromV s'))
        (8 * nat column + 4) (8 * nat row + 12) = Some ?tile"
      by (simp add: read_nametable [OF assms(6)] frame_cell(1) [OF g] mult.commute)
    moreover have "?k \<noteq> VoidToken \<and> ?k < tz_vocabSize t'" unfolding kt by (rule covered(2) [OF tc])
    ultimately show ?thesis by blast
  qed
  have off: "?k = VoidToken \<and> ?k < tz_vocabSize t'" if "\<not> ?on"
  proof -
    have "?k = VoidToken" unfolding k by (rule if_not_P [OF that])
    then show ?thesis using \<open>0 < tz_vocabSize t'\<close> by (simp only: VoidToken_def)
  qed
  obtain td where "makeNesTileSensoryDataFromPpuSnapshot s' t' input = Some (okay td, t')"
    "td_tileFrame td = makeNesPlayerRelativeTileFrame ?f (bi_playerScreenX input) (bi_playerScreenY input)"
    "td_previousControlX td = axis_value (m AND Nes_ButtonLeft \<noteq> 0) (m AND Nes_ButtonRight \<noteq> 0)"
    "td_previousControlY td = axis_value (m AND Nes_ButtonUp \<noteq> 0) (m AND Nes_ButtonDown \<noteq> 0)"
    using sensory_total [OF tc assms(6), of input] assms(14) by blast
  moreover have "?k < tz_vocabSize t'" "?k = VoidToken \<longleftrightarrow> \<not> ?on" using on off by blast+
  ultimately show ?thesis using on by (intro exI [of _ td] exI [of _ ?k]) auto
qed

definition left_and_right :: tile_builder_input where
  "left_and_right = \<lparr>bi_playerScreenX = 100, bi_playerScreenY = 112, bi_facingX = 1, bi_selfViewX = 1 / 2,
     bi_selfViewY = 1 / 2, bi_controllerMask = Nes_ButtonLeft OR Nes_ButtonRight, bi_specialSenses = replicate 32 0,
     bi_energy = 1, bi_health = 1, bi_deltaTimeSeconds = 0\<rparr>"

theorem sampled_screen_sensed_witness:
  "\<exists>b res t' td. sample_all [plain_snapshot] [] = Some b \<and> buildFrozenTokenizer b three_tiles = (okay res, t') \<and>
     makeNesTileSensoryDataFromPpuSnapshot plain_snapshot t' left_and_right = Some (okay td, t') \<and>
     rf_tokens (td_tileFrame td) ! (27 * 63 + 31) \<noteq> VoidToken \<and> td_previousControlX td = 0"
proof -
  obtain b res t' where b: "sample_all [plain_snapshot] [] = Some b" "buildFrozenTokenizer b three_tiles = (okay res, t')"
    using plain_samples by blast
  have "\<forall>s \<in> set [plain_snapshot]. snapshot_wf s" by (simp add: plain_snapshot_wf)
  from sampled_screen_sensed [OF three_tiles_reachable this b _ plain_snapshot_wf, of plain_snapshot 31 27
      12 left_and_right 14 "Nes_ButtonLeft OR Nes_ButtonRight"]
  have "\<exists>td. makeNesTileSensoryDataFromPpuSnapshot plain_snapshot t' left_and_right = Some (okay td, t') \<and>
     rf_tokens (td_tileFrame td) ! (27 * 63 + 31) \<noteq> VoidToken \<and> td_previousControlX td = 0"
    by (fastforce simp: left_and_right_def axis_value_def Nes_ButtonLeft_def Nes_ButtonRight_def)
  with b show ?thesis by blast
qed

text \<open>The position that the Super Mario adapter gives is the one on the level, seen from the scroll.\<close>

lemma smb_tile_input:
  assumes "cachedTileGameplayState ad = Some st"
  shows "bi_playerScreenX (makeNesTileSensoryBuilderInput ad m dt (Some scrollX)) \<in> {- 256..255} \<and>
    bi_playerScreenX (makeNesTileSensoryBuilderInput ad m dt (Some scrollX)) mod 512 =
      (uint (absoluteX st) - uint scrollX) mod 512 \<and>
    bi_playerScreenY (makeNesTileSensoryBuilderInput ad m dt (Some scrollX)) \<in> {- 8..247}"
proof -
  have "uint (playerYScreen st) < 256" using uint_bounded [of "playerYScreen st"] by simp
  then show ?thesis
    using wrapped_nametable_delta [of "absoluteX st" scrollX]
    by (simp add: makeNesTileSensoryBuilderInput_def assms playerTileScreenX_def playerTileScreenY_def)
qed

section \<open>Compatible checkpoints\<close>

lemma checkField_okay: "checkField field txt actual expected rest = okay u \<longleftrightarrow> actual = expected \<and> rest = okay u"
  by (simp add: checkField_def)

lemma validate_iff: "validateNesTileBrainCompatibilityMetadata a e = okay () \<longleftrightarrow> a = e"
  unfolding validateNesTileBrainCompatibilityMetadata_def checkField_okay by (cases a, cases e) auto

text \<open>
  A checkpoint is accepted exactly when its metadata is that of the running program. Between two
  tokenizers only the vocabulary hash can differ, and it does not when both are frozen vocabularies of
  the same size that were built from the same set of samples, in whatever order these were taken.
\<close>

theorem checkpoint_compatibility:
  shows "(validateNesTileBrainCompatibilityMetadata a e = okay () \<longleftrightarrow> a = e) \<and>
    (validateNesTileBrainCompatibilityMetadata (makeNesTileBrainCompatibilityMetadata t)
       (makeNesTileBrainCompatibilityMetadata t') = okay () \<longleftrightarrow> getVocabularyHash t = getVocabularyHash t') \<and>
    (set b = set b' \<and> buildNewFrozenTokenizer b v = Some (okay t) \<longrightarrow>
       (\<exists>t'. buildNewFrozenTokenizer b' v = Some (okay t') \<and>
        validateNesTileBrainCompatibilityMetadata (makeNesTileBrainCompatibilityMetadata t)
          (makeNesTileBrainCompatibilityMetadata t') = okay ()))"
proof (intro conjI impI)
  show "validateNesTileBrainCompatibilityMetadata a e = okay () \<longleftrightarrow> a = e" by (rule validate_iff)
  show "validateNesTileBrainCompatibilityMetadata (makeNesTileBrainCompatibilityMetadata t)
      (makeNesTileBrainCompatibilityMetadata t') = okay () \<longleftrightarrow> getVocabularyHash t = getVocabularyHash t'"
    by (simp add: validate_iff makeNesTileBrainCompatibilityMetadata_def)
  assume a: "set b = set b' \<and> buildNewFrozenTokenizer b v = Some (okay t)"
  then obtain t0 where t0: "newTokenizer v = Some t0" "\<not> isError (fst (buildVocabulary b t0))" "b \<noteq> []"
    "t = tok_freeze (snd (buildVocabulary b t0))"
    by (auto simp: buildNewFrozenTokenizer_def buildFrozenTokenizer_def bind_eq_Some_conv split: if_splits prod.splits sum.splits)
  have "card (set b) < unat (tz_vocabSize t0)"
  proof (rule ccontr)
    assume "\<not> ?thesis"
    then obtain e where "buildVocabulary b t0 = (error e, t0)" using build_fails [of t0 b] by auto
    with t0(2) show False by simp
  qed
  moreover from this have "card (set b') < unat (tz_vocabSize t0)" using a by simp
  moreover have "b' \<noteq> []" using a t0(3) by auto
  ultimately have "buildNewFrozenTokenizer b' v = Some (okay t)"
    using a t0 by (simp add: buildNewFrozenTokenizer_def buildFrozenTokenizer_def build_sound)
  then show "\<exists>t'. buildNewFrozenTokenizer b' v = Some (okay t') \<and>
        validateNesTileBrainCompatibilityMetadata (makeNesTileBrainCompatibilityMetadata t)
          (makeNesTileBrainCompatibilityMetadata t') = okay ()"
    by (intro exI [of _ t]) (simp add: validate_iff)
qed

lemma small_vocabulary: "\<exists>t. buildNewFrozenTokenizer [7, 5, 7] 512 = Some (okay t)"
proof -
  obtain t0 where t0: "newTokenizer 512 = Some t0" "tz_vocabSize t0 = 512" by (simp add: newTokenizer_def VoidToken_def)
  have "card (set [7, 5, 7 :: u64]) < unat (tz_vocabSize t0)" by (simp add: t0(2) card_insert_if)
  from build_sound [OF this] t0(1) show ?thesis by (simp add: buildNewFrozenTokenizer_def buildFrozenTokenizer_def)
qed

theorem checkpoint_compatibility_witness:
  "\<exists>t t'. buildNewFrozenTokenizer [7, 5, 7] 512 = Some (okay t) \<and> buildNewFrozenTokenizer [5, 7] 512 = Some (okay t') \<and>
     validateNesTileBrainCompatibilityMetadata (makeNesTileBrainCompatibilityMetadata t)
       (makeNesTileBrainCompatibilityMetadata t') = okay ()"
proof -
  obtain t where t: "buildNewFrozenTokenizer [7, 5, 7] 512 = Some (okay t)" using small_vocabulary by blast
  have "set [7, 5, 7 :: u64] = set [5, 7]" by auto
  with t checkpoint_compatibility [of undefined undefined t t "[7, 5, 7]" "[5, 7]" 512] show ?thesis by blast
qed

end
